(* ===== verification/Prelude.thy ===== *)
theory Prelude
  imports Main "HOL-Library.Word" "HOL-Library.Multiset" "HOL-Library.Char_ord" "HOL-Library.List_Lexorder"
    "HOL-Library.Code_Target_Nat"
begin

text \<open>
  Shared vocabulary of the development: the widths of Rust's integers, \<open>Result\<close> as a sum
  whose left summand is the error, \<open>String\<close> and \<open>[u8]\<close> as lists of bytes, the
  string and slice operations the sources call from the standard library, and the
  generic lemmas the component theories use.
\<close>

section \<open>Machine types\<close>

type_synonym u8 = "8 word"
type_synonym u16 = "16 word"
type_synonym u32 = "32 word"
type_synonym u64 = "64 word"

text \<open>
  A \<open>usize\<close> is a \<open>nat\<close>: the sizes the program computes are bounded far below
  $2^{64}$ by its validated limits, and where the source uses a checked or saturating
  operation the model writes the bound out. A \<open>Uuid\<close> is its 128 bits.
\<close>

type_synonym uuid = "128 word"

text \<open>A byte is a character; a Rust \<open>String\<close> is the list of its UTF-8 bytes.\<close>

type_synonym byte = char
type_synonym bytes = "char list"

definition usize_max :: nat where
  "usize_max = 2 ^ 64 - 1"

definition i64_max :: nat where
  "i64_max = 2 ^ 63 - 1"

definition u32_max :: nat where
  "u32_max = 2 ^ 32 - 1"

section \<open>Results\<close>

text \<open>The \<open>?\<close> operator: stop at an error, continue with a value.\<close>

definition and_then :: "'e + 'a \<Rightarrow> ('a \<Rightarrow> 'e + 'b) \<Rightarrow> 'e + 'b" where
  "and_then r k = (case r of Inl e \<Rightarrow> Inl e | Inr a \<Rightarrow> k a)"

definition ensure :: "bool \<Rightarrow> 'e \<Rightarrow> 'e + unit" where
  "ensure b e = (if b then Inr () else Inl e)"

definition map_err :: "('e \<Rightarrow> 'f) \<Rightarrow> 'e + 'a \<Rightarrow> 'f + 'a" where
  "map_err f r = (case r of Inl e \<Rightarrow> Inl (f e) | Inr a \<Rightarrow> Inr a)"

definition ok_or :: "'e \<Rightarrow> 'a option \<Rightarrow> 'e + 'a" where
  "ok_or e x = (case x of None \<Rightarrow> Inl e | Some a \<Rightarrow> Inr a)"

definition is_ok :: "'e + 'a \<Rightarrow> bool" where
  "is_ok r = (case r of Inl _ \<Rightarrow> False | Inr _ \<Rightarrow> True)"

definition is_some_and :: "'a option \<Rightarrow> ('a \<Rightarrow> bool) \<Rightarrow> bool" where
  "is_some_and x p = (case x of None \<Rightarrow> False | Some a \<Rightarrow> p a)"

definition is_none_or :: "'a option \<Rightarrow> ('a \<Rightarrow> bool) \<Rightarrow> bool" where
  "is_none_or x p = (case x of None \<Rightarrow> True | Some a \<Rightarrow> p a)"

lemma and_then_simps [simp]:
  "and_then (Inl e) k = Inl e"
  "and_then (Inr a) k = k a"
  by (simp_all add: and_then_def)

lemma and_then_eq_Inr [simp]: "and_then r k = Inr b \<longleftrightarrow> (\<exists>a. r = Inr a \<and> k a = Inr b)"
  by (cases r) auto

lemma and_then_eq_Inl: "and_then r k = Inl e \<longleftrightarrow> r = Inl e \<or> (\<exists>a. r = Inr a \<and> k a = Inl e)"
  by (cases r) auto

lemma and_then_cong [fundef_cong]:
  assumes "r = r'" and "\<And>a. r' = Inr a \<Longrightarrow> k a = k' a"
  shows "and_then r k = and_then r' k'"
  using assms by (cases r') auto

lemma ensure_eq_Inr [simp]: "ensure b e = Inr u \<longleftrightarrow> b"
  by (simp add: ensure_def)

lemma ensure_eq_Inl [simp]: "ensure b e = Inl e' \<longleftrightarrow> \<not> b \<and> e' = e"
  by (auto simp: ensure_def)

lemma ensure_True [simp]: "ensure True e = Inr ()"
  by (simp add: ensure_def)

lemma ensure_False [simp]: "ensure False e = Inl e"
  by (simp add: ensure_def)

lemma map_err_simps [simp]:
  "map_err f (Inl e) = Inl (f e)"
  "map_err f (Inr a) = Inr a"
  by (simp_all add: map_err_def)

lemma map_err_eq_Inr [simp]: "map_err f r = Inr a \<longleftrightarrow> r = Inr a"
  by (cases r) auto

lemma map_err_eq_Inl [simp]: "map_err f r = Inl e \<longleftrightarrow> (\<exists>e'. r = Inl e' \<and> e = f e')"
  by (cases r) auto

lemma ok_or_simps [simp]:
  "ok_or e None = Inl e"
  "ok_or e (Some a) = Inr a"
  by (simp_all add: ok_or_def)

lemma ok_or_eq_Inr [simp]: "ok_or e x = Inr a \<longleftrightarrow> x = Some a"
  by (cases x) auto

lemma is_ok_simps [simp]:
  "is_ok (Inl e) = False"
  "is_ok (Inr a) = True"
  by (simp_all add: is_ok_def)

lemma is_ok_iff: "is_ok r \<longleftrightarrow> (\<exists>a. r = Inr a)"
  by (cases r) auto

lemma is_some_and_simps [simp]:
  "is_some_and None p = False"
  "is_some_and (Some a) p = p a"
  by (simp_all add: is_some_and_def)

lemma is_none_or_simps [simp]:
  "is_none_or None p = True"
  "is_none_or (Some a) p = p a"
  by (simp_all add: is_none_or_def)

lemma is_some_and_iff: "is_some_and x p \<longleftrightarrow> (\<exists>a. x = Some a \<and> p a)"
  by (cases x) auto

section \<open>Bytes and strings\<close>

definition ord :: "char \<Rightarrow> nat" where
  "ord c = of_char c"

definition chr :: "nat \<Rightarrow> char" where
  "chr n = char_of n"

lemma ord_less_256 [simp]: "ord c < 256"
  by (simp add: ord_def)

lemma chr_ord [simp]: "chr (ord c) = c"
  by (simp add: ord_def chr_def)

lemma ord_chr [simp]: "n < 256 \<Longrightarrow> ord (chr n) = n"
  by (simp add: ord_def chr_def)

lemma ord_inject [simp]: "ord c = ord d \<longleftrightarrow> c = d"
  by (metis chr_ord)

abbreviation CR :: char where "CR \<equiv> CHR 0x0D"
abbreviation LF :: char where "LF \<equiv> CHR 0x0A"

definition is_ascii_digit :: "char \<Rightarrow> bool" where
  "is_ascii_digit c = (48 \<le> ord c \<and> ord c \<le> 57)"

definition is_ascii_upper :: "char \<Rightarrow> bool" where
  "is_ascii_upper c = (65 \<le> ord c \<and> ord c \<le> 90)"

definition is_ascii_lower :: "char \<Rightarrow> bool" where
  "is_ascii_lower c = (97 \<le> ord c \<and> ord c \<le> 122)"

definition is_ascii_alphanumeric :: "char \<Rightarrow> bool" where
  "is_ascii_alphanumeric c = (is_ascii_digit c \<or> is_ascii_upper c \<or> is_ascii_lower c)"

definition is_ascii_whitespace :: "char \<Rightarrow> bool" where
  "is_ascii_whitespace b = (ord b \<in> {9, 10, 12, 13, 32})"

definition is_ascii_graphic :: "char \<Rightarrow> bool" where
  "is_ascii_graphic c = (33 \<le> ord c \<and> ord c \<le> 126)"

definition to_ascii_lowercase :: "char \<Rightarrow> char" where
  "to_ascii_lowercase c = (if is_ascii_upper c then chr (ord c + 32) else c)"

definition eq_ignore_ascii_case :: "string \<Rightarrow> string \<Rightarrow> bool" where
  "eq_ignore_ascii_case s t = (map to_ascii_lowercase s = map to_ascii_lowercase t)"

lemma eq_ignore_ascii_case_refl [simp]: "eq_ignore_ascii_case s s"
  by (simp add: eq_ignore_ascii_case_def)

lemma eq_ignore_ascii_case_sym: "eq_ignore_ascii_case s t \<longleftrightarrow> eq_ignore_ascii_case t s"
  by (auto simp: eq_ignore_ascii_case_def)

lemma eq_ignore_ascii_case_trans:
  "eq_ignore_ascii_case s t \<Longrightarrow> eq_ignore_ascii_case t u \<Longrightarrow> eq_ignore_ascii_case s u"
  by (simp add: eq_ignore_ascii_case_def)

text \<open>
  \<open>char::is_control\<close> is the Unicode category Cc: U+0000 to U+001F and U+007F to U+009F.
  The last 32 are the two-byte sequences \<open>C2 80\<close> to \<open>C2 9F\<close>.
\<close>

fun any_control :: "string \<Rightarrow> bool" where
  "any_control [] = False"
| "any_control (c # s) =
     (ord c \<le> 31 \<or> ord c = 127
      \<or> (ord c = 194 \<and> (case s of [] \<Rightarrow> False | d # _ \<Rightarrow> 128 \<le> ord d \<and> ord d \<le> 159))
      \<or> any_control s)"

text \<open>\<open>chars().count()\<close>: every byte that is not a continuation byte starts a character.\<close>

definition chars_count :: "string \<Rightarrow> nat" where
  "chars_count s = length (filter (\<lambda>c. \<not> (128 \<le> ord c \<and> ord c \<le> 191)) s)"

lemma chars_count_le: "chars_count s \<le> length s"
  by (simp add: chars_count_def)

fun split_once :: "char \<Rightarrow> string \<Rightarrow> (string \<times> string) option" where
  "split_once d [] = None"
| "split_once d (c # s) =
     (if c = d then Some ([], s) else map_option (\<lambda>(a, b). (c # a, b)) (split_once d s))"

definition rsplit_once :: "char \<Rightarrow> string \<Rightarrow> (string \<times> string) option" where
  "rsplit_once d s = map_option (\<lambda>(a, b). (rev b, rev a)) (split_once d (rev s))"

fun split_on :: "char \<Rightarrow> string \<Rightarrow> string list" where
  "split_on d [] = [[]]"
| "split_on d (c # s) =
     (if c = d then [] # split_on d s
      else (case split_on d s of [] \<Rightarrow> [[c]] | a # as \<Rightarrow> (c # a) # as))"

lemma split_once_Some_iff:
  "split_once d s = Some (a, b) \<longleftrightarrow> s = a @ d # b \<and> d \<notin> set a"
proof (induction s arbitrary: a)
  case Nil
  then show ?case by simp
next
  case (Cons c s)
  show ?case
  proof (cases "c = d")
    case True
    then show ?thesis by (cases a) auto
  next
    case False
    with Cons show ?thesis by (cases a) auto
  qed
qed

lemma split_once_None_iff: "split_once d s = None \<longleftrightarrow> d \<notin> set s"
  by (induction s) auto

lemma rsplit_once_Some_iff:
  "rsplit_once d s = Some (a, b) \<longleftrightarrow> s = a @ d # b \<and> d \<notin> set b"
proof -
  have "rsplit_once d s = Some (a, b) \<longleftrightarrow> split_once d (rev s) = Some (rev b, rev a)"
    by (auto simp: rsplit_once_def)
  also have "\<dots> \<longleftrightarrow> rev s = rev b @ d # rev a \<and> d \<notin> set b"
    by (simp add: split_once_Some_iff)
  also have "rev s = rev b @ d # rev a \<longleftrightarrow> s = a @ d # b"
    by (metis append.assoc append_Cons append_Nil rev.simps(2) rev_append rev_rev_ident)
  finally show ?thesis .
qed

lemma split_on_nonempty [simp]: "split_on d s \<noteq> []"
  by (induction s) (auto split: list.splits)

lemma split_on_no_sep: "a \<in> set (split_on d s) \<Longrightarrow> d \<notin> set a"
  by (induction s arbitrary: a) (auto split: if_splits list.splits)

text \<open>\<open>str::contains\<close>\<close>

fun str_contains :: "string \<Rightarrow> string \<Rightarrow> bool" where
  "str_contains [] n = (n = [])"
| "str_contains (c # h) n = (take (length n) (c # h) = n \<or> str_contains h n)"

fun join_with :: "char \<Rightarrow> string list \<Rightarrow> string" where
  "join_with d [] = []"
| "join_with d [a] = a"
| "join_with d (a # b # as) = a @ d # join_with d (b # as)"

lemma join_with_set: "set (join_with d vs) \<subseteq> insert d (\<Union> (set ` set vs))"
  by (induction d vs rule: join_with.induct) auto

lemma join_split_on: "join_with d (split_on d s) = s"
proof (induction s)
  case Nil
  then show ?case by simp
next
  case (Cons c s)
  obtain a as where "split_on d s = a # as"
    by (cases "split_on d s") auto
  with Cons show ?case
    by (cases as) auto
qed

section \<open>Integers\<close>

fun show_nat :: "nat \<Rightarrow> string" where
  "show_nat n = (if n < 10 then [chr (48 + n)] else show_nat (n div 10) @ [chr (48 + n mod 10)])"

declare show_nat.simps [simp del]

definition saturating_sub :: "'a::len word \<Rightarrow> 'a word \<Rightarrow> 'a word" where
  "saturating_sub a b = (if a \<le> b then 0 else a - b)"

lemma unat_saturating_sub [simp]: "unat (saturating_sub a b) = unat a - unat b"
  by (auto simp: saturating_sub_def word_le_nat_alt unat_sub)

definition checked_sub :: "nat \<Rightarrow> nat \<Rightarrow> nat option" where
  "checked_sub a b = (if b \<le> a then Some (a - b) else None)"

definition checked_add :: "nat \<Rightarrow> nat \<Rightarrow> nat option" where
  "checked_add a b = (if a + b \<le> usize_max then Some (a + b) else None)"

definition saturating_add :: "nat \<Rightarrow> nat \<Rightarrow> nat" where
  "saturating_add a b = min (a + b) usize_max"

definition saturating_mul :: "nat \<Rightarrow> nat \<Rightarrow> nat" where
  "saturating_mul a b = min (a * b) usize_max"

definition div_ceil :: "nat \<Rightarrow> nat \<Rightarrow> nat" where
  "div_ceil a b = (a + b - 1) div b"

lemma checked_sub_Some [simp]: "checked_sub a b = Some c \<longleftrightarrow> b \<le> a \<and> c = a - b"
  by (auto simp: checked_sub_def)

section \<open>Lists\<close>

text \<open>\<open>sort_unstable_by(|a, b| b.cmp(a))\<close> on a total order: descending order.\<close>

definition sort_desc :: "'a::linorder list \<Rightarrow> 'a list" where
  "sort_desc xs = rev (sort xs)"

lemma set_sort_desc [simp]: "set (sort_desc xs) = set xs"
  by (simp add: sort_desc_def)

lemma length_sort_desc [simp]: "length (sort_desc xs) = length xs"
  by (simp add: sort_desc_def)

lemma distinct_sort_desc [simp]: "distinct (sort_desc xs) = distinct xs"
  by (simp add: sort_desc_def)

lemma sorted_sort_desc: "sorted_wrt (\<ge>) (sort_desc xs)"
  by (simp add: sort_desc_def sorted_wrt_rev)

text \<open>\<open>windows(2).any(|w| w[0] == w[1])\<close>\<close>

fun adjacent_equal :: "'a list \<Rightarrow> bool" where
  "adjacent_equal (x # y # zs) = (x = y \<or> adjacent_equal (y # zs))"
| "adjacent_equal _ = False"

lemma adjacent_equal_sorted:
  fixes xs :: "'a::linorder list"
  assumes "sorted_wrt (\<ge>) xs" and "\<not> adjacent_equal xs"
  shows "sorted_wrt (>) xs"
  using assms
proof (induction xs rule: adjacent_equal.induct)
  case (1 x y zs)
  then have "sorted_wrt (>) (y # zs)" and "x > y"
    by auto
  then show ?case by auto
qed auto

lemma not_adjacent_equal_distinct: "distinct xs \<Longrightarrow> \<not> adjacent_equal xs"
  by (induction xs rule: adjacent_equal.induct) auto

lemma sorted_desc_distinct:
  fixes xs :: "'a::linorder list"
  shows "sorted_wrt (>) xs \<Longrightarrow> distinct xs"
  by (induction xs) auto

lemma sort_desc_unique:
  fixes xs ys :: "'a::linorder list"
  assumes "sorted_wrt (>) xs" and "sorted_wrt (>) ys" and "set xs = set ys"
  shows "xs = ys"
proof -
  have "sorted_wrt (<) (rev xs)" and "sorted_wrt (<) (rev ys)"
    using assms by (simp_all add: sorted_wrt_rev)
  moreover have "set (rev xs) = set (rev ys)"
    using assms by simp
  ultimately have "rev xs = rev ys"
    by (metis sorted_list_of_set.idem_if_sorted_distinct strict_sorted_iff)
  then show ?thesis by simp
qed

lemma set_take_desc:
  fixes xs :: "'a::linorder list"
  assumes "sorted_wrt (>) xs" and "0 < n" and "n \<le> length xs"
  shows "set (take n xs) = {u \<in> set xs. xs ! (n - 1) \<le> u}"
  using assms
proof (induction xs arbitrary: n)
  case Nil
  then show ?case by simp
next
  case (Cons x xs)
  show ?case
  proof (cases "n = 1")
    case True
    with Cons.prems(1) show ?thesis by auto
  next
    case False
    with Cons.prems obtain m where m: "n = Suc m" "0 < m" "m \<le> length xs"
      by (cases n) auto
    then have "xs ! (m - 1) \<in> set xs" by simp
    with Cons.prems(1) have "xs ! (m - 1) \<le> x" by auto
    with Cons m show ?thesis by (auto simp: nth_Cons')
  qed
qed

text \<open>
  Iteration with \<open>try_fold\<close>: the error of the first step that fails, the last state
  otherwise.
\<close>

fun try_fold :: "('s \<Rightarrow> 'a \<Rightarrow> 'e + 's) \<Rightarrow> 's \<Rightarrow> 'a list \<Rightarrow> 'e + 's" where
  "try_fold f s [] = Inr s"
| "try_fold f s (x # xs) = and_then (f s x) (\<lambda>s'. try_fold f s' xs)"

lemma try_fold_append:
  "try_fold f s (xs @ ys) = and_then (try_fold f s xs) (\<lambda>s'. try_fold f s' ys)"
proof (induction xs arbitrary: s)
  case Nil
  then show ?case by simp
next
  case (Cons x xs)
  then show ?case by (cases "f s x") auto
qed

text \<open>A property every step keeps holds of the final state.\<close>

lemma try_fold_invariant:
  assumes "try_fold f s xs = Inr t" and "P s"
    and "\<And>s x s'. P s \<Longrightarrow> x \<in> set xs \<Longrightarrow> f s x = Inr s' \<Longrightarrow> P s'"
  shows "P t"
  using assms
proof (induction xs arbitrary: s)
  case Nil
  then show ?case by simp
next
  case (Cons x xs)
  from Cons.prems(1) obtain s' where s': "f s x = Inr s'" "try_fold f s' xs = Inr t"
    by auto
  have "P s'"
    using Cons.prems(3) [OF Cons.prems(2) _ s'(1)] by simp
  moreover have "\<And>s y s'. P s \<Longrightarrow> y \<in> set xs \<Longrightarrow> f s y = Inr s' \<Longrightarrow> P s'"
    using Cons.prems(3) by (meson list.set_intros(2))
  ultimately show ?case
    by (rule Cons.IH [OF s'(2)])
qed

section \<open>Ordered maps\<close>

text \<open>
  A \<open>BTreeMap\<close> is the list of its entries in ascending key order: iteration is the list,
  lookup is \<open>map_of\<close>, insertion replaces the value of an equal key.
\<close>

type_synonym ('k, 'v) btree = "('k \<times> 'v) list"

fun btree_insert :: "'k::linorder \<Rightarrow> 'v \<Rightarrow> ('k, 'v) btree \<Rightarrow> ('k, 'v) btree" where
  "btree_insert k v [] = [(k, v)]"
| "btree_insert k v ((k', v') # m) =
     (if k < k' then (k, v) # (k', v') # m
      else if k = k' then (k, v) # m
      else (k', v') # btree_insert k v m)"

definition btree_wf :: "('k::linorder, 'v) btree \<Rightarrow> bool" where
  "btree_wf m \<longleftrightarrow> sorted_wrt (<) (map fst m)"

definition btree_of :: "('k::linorder \<times> 'v) list \<Rightarrow> ('k, 'v) btree" where
  "btree_of kvs = fold (\<lambda>(k, v). btree_insert k v) kvs []"

definition btree_range :: "'k::linorder \<Rightarrow> 'k \<Rightarrow> ('k, 'v) btree \<Rightarrow> ('k, 'v) btree" where
  "btree_range lo hi m = filter (\<lambda>(k, _). lo \<le> k \<and> k \<le> hi) m"

lemma btree_wf_Nil [simp]: "btree_wf []"
  by (simp add: btree_wf_def)

lemma keys_btree_insert [simp]: "fst ` set (btree_insert k v m) = insert k (fst ` set m)"
  by (induction k v m rule: btree_insert.induct) auto

lemma btree_wf_insert [simp]: "btree_wf m \<Longrightarrow> btree_wf (btree_insert k v m)"
proof (induction k v m rule: btree_insert.induct)
  case (2 k v k' v' m)
  then have "k' < k \<Longrightarrow> \<forall>x \<in> fst ` set (btree_insert k v m). k' < x"
    by (auto simp: btree_wf_def)
  with 2 show ?case
    by (force simp: btree_wf_def)
qed (simp add: btree_wf_def)

lemma map_of_btree_insert:
  "btree_wf m \<Longrightarrow> map_of (btree_insert k v m) = (map_of m)(k \<mapsto> v)"
proof (induction k v m rule: btree_insert.induct)
  case (2 k v k' v' m)
  then show ?case by (auto simp: btree_wf_def fun_eq_iff)
qed auto

lemma btree_wf_distinct: "btree_wf m \<Longrightarrow> distinct (map fst m)"
  by (simp add: btree_wf_def strict_sorted_iff)

lemma btree_wf_fold:
  "btree_wf m \<Longrightarrow> btree_wf (fold (\<lambda>(k, v). btree_insert k v) kvs m)"
  by (induction kvs arbitrary: m) auto

lemma btree_wf_of [simp]: "btree_wf (btree_of kvs)"
  by (simp add: btree_of_def btree_wf_fold)

lemma map_of_fold_insert:
  "btree_wf m \<Longrightarrow>
   map_of (fold (\<lambda>(k, v). btree_insert k v) kvs m) = map_of m ++ map_of (rev kvs)"
proof (induction kvs arbitrary: m)
  case (Cons kv kvs)
  then show ?case
    by (cases kv) (auto simp: map_of_btree_insert map_add_def fun_eq_iff split: option.splits)
qed simp

lemma map_of_btree_of: "map_of (btree_of kvs) = map_of (rev kvs)"
  by (simp add: btree_of_def map_of_fold_insert)

section \<open>A self-delimiting text\<close>

text \<open>
  An injective text of a list of number lists: a number below 250 is one character, larger ones
  are prefixed by a mark for every 250, and every list is closed by a mark. The concrete hosts
  of the components use it where the program uses JSON.
\<close>

definition pack_number :: "nat \<Rightarrow> string" where
  "pack_number n = replicate (n div 250) (chr 1) @ [chr (n mod 250 + 2)]"

definition pack :: "nat list list \<Rightarrow> string" where
  "pack fs = concat (map (\<lambda>ns. concat (map pack_number ns) @ [chr 0]) fs)"

fun unpack :: "nat \<Rightarrow> nat list \<Rightarrow> string \<Rightarrow> nat list list" where
  "unpack n ns [] = []"
| "unpack n ns (c # s) =
     (if ord c = 1 then unpack (n + 250) ns s
      else if ord c = 0 then ns # unpack 0 [] s else unpack 0 (ns @ [n + (ord c - 2)]) s)"

lemma unpack_marks: "unpack n ns (replicate k (chr (Suc 0)) @ s) = unpack (n + 250 * k) ns s"
  by (induction k arbitrary: n) (auto simp: add.assoc)

lemma unpack_number: "unpack 0 ns (pack_number n @ s) = unpack 0 (ns @ [n]) s"
proof -
  have "n mod 250 + 2 < 256"
    using mod_less_divisor [of 250 n] by linarith
  then have "ord (chr (Suc (Suc (n mod 250)))) = n mod 250 + 2" by simp
  moreover have "250 * (n div 250) + n mod 250 = n" by simp
  ultimately show ?thesis
    by (simp add: pack_number_def unpack_marks)
qed

lemma unpack_field: "unpack 0 ms (concat (map pack_number ns) @ s) = unpack 0 (ms @ ns) s"
  by (induction ns arbitrary: ms) (auto simp: unpack_number)

lemma unpack_pack: "unpack 0 [] (pack fs) = fs"
  unfolding pack_def by (induction fs) (auto simp: unpack_field)

section \<open>Executions of step relations\<close>

text \<open>\<open>execution step start n s\<close>: the state \<open>s\<close> is reached from \<open>start\<close> in \<open>n\<close> steps.\<close>

inductive execution :: "('s \<Rightarrow> 's \<Rightarrow> bool) \<Rightarrow> 's \<Rightarrow> nat \<Rightarrow> 's \<Rightarrow> bool" for step start where
  execution_start: "execution step start 0 start"
| execution_step: "execution step start n s \<Longrightarrow> step s s' \<Longrightarrow> execution step start (Suc n) s'"

text \<open>
  A machine that hands out 64-bit tickets: its invariant may rely on the counter not having
  wrapped, which holds for the first \<open>2 ^ 64\<close> steps.
\<close>

locale ticket_machine =
  fixes step :: "'s \<Rightarrow> 's \<Rightarrow> bool" and start :: 's and inv :: "'s \<Rightarrow> bool" and ticket :: "'s \<Rightarrow> u64"
  assumes start_inv: "inv start" and start_ticket: "ticket start = 0"
    and step_inv: "step s s' \<Longrightarrow> inv s \<Longrightarrow> unat (ticket s) + 1 < 2 ^ 64 \<Longrightarrow> inv s'"
    and step_ticket: "step s s' \<Longrightarrow> unat (ticket s') \<le> unat (ticket s) + 1"
begin

lemma execution_ok: "execution step start n s \<Longrightarrow> n < 2 ^ 64 \<Longrightarrow> inv s \<and> unat (ticket s) \<le> n"
proof (induction rule: execution.induct)
  case execution_start
  show ?case by (simp add: start_inv start_ticket)
next
  case (execution_step n s s')
  then have "inv s" "unat (ticket s) \<le> n" by simp_all
  then show ?case
    using step_inv [OF execution_step(2)] step_ticket [OF execution_step(2)] execution_step(4) by simp
qed

lemma execution_inv: "execution step start n s \<Longrightarrow> n < 2 ^ 64 \<Longrightarrow> inv s"
  using execution_ok by blast

end

lemma ticket_less_next: "unat (n :: u64) + 1 < 2 ^ 64 \<Longrightarrow> t < n + 1 \<longleftrightarrow> t \<le> n"
  by (auto simp: word_less_nat_alt word_le_nat_alt unat_word_ariths)

text \<open>A \<open>Notify\<close> permit handed to at most one waiter, named by its ticket.\<close>

definition notified :: "u64 option \<Rightarrow> u64 set \<Rightarrow> u64 set" where
  "notified t wake = (case t of None \<Rightarrow> wake | Some t \<Rightarrow> insert t wake)"

definition awake :: "u64 option \<Rightarrow> u64 set \<Rightarrow> bool" where
  "awake t wake \<longleftrightarrow> (case t of None \<Rightarrow> True | Some t \<Rightarrow> t \<in> wake)"

lemma awake_notified [simp]: "awake t (notified t wake)"
  by (simp add: awake_def notified_def split: option.splits)

lemma awake_simps [simp]: "awake None wake" "awake (Some t) wake \<longleftrightarrow> t \<in> wake"
  by (simp_all add: awake_def)

lemma awake_mono: "awake t wake \<Longrightarrow> wake \<subseteq> wake' \<Longrightarrow> awake t wake'"
  by (cases t) auto

end
