(* ===== verification/Domain.thy ===== *)
theory Domain
  imports Prelude
begin

text \<open>
  The domain vocabulary of \<open>src/src/domain.rs\<close> and \<open>src/src/domain/draft.rs\<close>: error
  codes and reasons, the safe error value every operation returns, the process exit
  status, the result envelope, draft identities, the bounded input decoders and the
  mailbox identity.
\<close>

section \<open>Errors\<close>

datatype ErrorCode =
    InvalidRequest | ProtocolMismatch | PermissionDenied | AccountNotAllowed
  | MailboxNotAllowed | MessageNotFound | StaleReference | StaleCursor | TransferExpired
  | AuthenticationFailed | CredentialUnavailable | TlsFailed | BrokerUnavailable
  | ProviderUnavailable | RateLimited | Timeout | Cancelled | ResponseTooLarge
  | AttachmentTooLarge | UnsupportedCapability | DraftMailboxUnavailable
  | OperationConflict | OperationInProgress | OutcomeUnknown | JournalUnavailable
  | JournalFull | ExportFailed | ExportCleanupFailed | ExportFinalizationFailed
  | InternalError | OperationNotFound

datatype ConflictKind = Configuration | DraftInputConflict

datatype ErrorReason =
    ImapInvalidInput | ImapUnsupported | ImapTransport | ImapTls | ImapTimeout
  | ImapConnectionClosed | ImapInvalidResponse | ImapUnsafeSelection | ImapParserPanic
  | ImapResourceLimit | ImapAuthentication | ImapStaleReference | ImapMessageNotFound
  | ImapStaleCursor | ImapTransferExpired | ResultSerializationFailed | OutputWriteFailed
  | OutputTimedOut | OutputLimitExceeded | McpInvalidFrame

datatype CredentialFailure =
    CredMissing | CredLocked | CredAccessDenied | CredUnavailable | CredInvalidSecret
  | CredInteractionRequired | CredInternal

text \<open>Draft identities (\<open>domain/draft.rs\<close>).\<close>

record DraftIdentity =
  account_id :: uuid
  account_generation :: u64
  operation_id :: uuid

record DraftOperationDetails =
  det_identity :: DraftIdentity
  det_mailbox :: string
  det_uid_validity :: "u32 option"

record Error =
  err_code :: ErrorCode
  err_message :: string
  err_retryable :: bool
  err_reason :: "ErrorReason option"
  err_credential_failure :: "CredentialFailure option"
  err_conflict_kind :: "ConflictKind option"
  err_draft_operation :: "DraftOperationDetails option"

type_synonym 'a result = "Error + 'a"

definition with_message :: "ErrorCode \<Rightarrow> string \<Rightarrow> Error" where
  "with_message c m =
     \<lparr>err_code = c, err_message = m,
      err_retryable = (c \<in> {BrokerUnavailable, ProviderUnavailable, RateLimited, Timeout}),
      err_reason = None, err_credential_failure = None,
      err_conflict_kind = (if c = OperationConflict then Some Configuration else None),
      err_draft_operation = None\<rparr>"

fun error_message :: "ErrorCode \<Rightarrow> string" where
  "error_message InvalidRequest = ''Invalid request or configuration''"
| "error_message ProtocolMismatch = ''Unexpected protocol message''"
| "error_message PermissionDenied = ''Access denied''"
| "error_message AccountNotAllowed = ''Access denied''"
| "error_message MailboxNotAllowed = ''Access denied''"
| "error_message BrokerUnavailable = ''Broker unavailable''"
| "error_message OutcomeUnknown =
     ''Draft acceptance is uncertain; inspect this operation and never append it again''"
| "error_message OperationInProgress = ''Draft operation is pending; inspect its status''"
| "error_message Timeout = ''Request deadline exceeded''"
| "error_message ResponseTooLarge = ''Result exceeds the configured limit''"
| "error_message UnsupportedCapability = ''Operation is not supported''"
| "error_message Cancelled = ''Request cancelled''"
| "error_message ExportCleanupFailed =
     ''Export partial-file cleanup failed; inspect the approved export root''"
| "error_message ExportFinalizationFailed =
     ''Export created a destination but could not finish; inspect the approved export root for the destination and partial files before retrying''"
| "error_message OperationConflict =
     ''Configuration changed; restart the command or MCP session''"
| "error_message JournalUnavailable =
     ''Draft history is unavailable; preserve installation state for recovery''"
| "error_message JournalFull =
     ''Draft history is full; existing operation status remains available''"
| "error_message DraftMailboxUnavailable = ''The approved draft mailbox is unavailable''"
| "error_message OperationNotFound =
     ''No operation was found in the authorized draft target''"
| "error_message RateLimited =
     ''Capacity is busy; retry after active commands or MCP sessions finish''"
| "error_message _ = ''Operation could not be completed''"

definition error_new :: "ErrorCode \<Rightarrow> Error" where
  "error_new c = with_message c (error_message c)"

definition with_reason :: "Error \<Rightarrow> ErrorReason \<Rightarrow> Error" where
  "with_reason e r = e\<lparr>err_reason := Some r\<rparr>"

definition invalid_input :: "string \<Rightarrow> Error" where
  "invalid_input m = with_message InvalidRequest m"

definition input_limit :: "string \<Rightarrow> nat \<Rightarrow> Error" where
  "input_limit field maximum =
     (error_new InvalidRequest)\<lparr>err_message := field @ '' must be between 1 and '' @ show_nat maximum
        @ ''; omit it to use the configured default''\<rparr>"

definition draft_outcome :: "ErrorCode \<Rightarrow> DraftOperationDetails \<Rightarrow> Error" where
  "draft_outcome c d = (error_new c)\<lparr>err_draft_operation := Some d\<rparr>"

definition draft_conflict :: Error where
  "draft_conflict =
     (with_message OperationConflict
        ''Draft operation input conflicts with its recorded input'')
     \<lparr>err_conflict_kind := Some DraftInputConflict\<rparr>"

definition setup_required :: Error where
  "setup_required =
     with_message InvalidRequest
       ''Configuration is unavailable or invalid; run this executable's setup subcommand''"

definition obsolete_runtime_capacity_error :: Error where
  "obsolete_runtime_capacity_error =
     with_message InvalidRequest
       ''Configuration uses removed shared runtime capacity settings; remove runtimes, runtime_slots, and shared permit settings. Limits now apply per process; run this executable's setup subcommand to migrate''"

fun exit_code_of :: "ErrorCode \<Rightarrow> u8" where
  "exit_code_of InvalidRequest = 2"
| "exit_code_of ProtocolMismatch = 2"
| "exit_code_of PermissionDenied = 3"
| "exit_code_of AccountNotAllowed = 3"
| "exit_code_of MailboxNotAllowed = 3"
| "exit_code_of CredentialUnavailable = 4"
| "exit_code_of AuthenticationFailed = 4"
| "exit_code_of TlsFailed = 4"
| "exit_code_of BrokerUnavailable = 5"
| "exit_code_of ProviderUnavailable = 5"
| "exit_code_of RateLimited = 5"
| "exit_code_of Timeout = 5"
| "exit_code_of MessageNotFound = 6"
| "exit_code_of StaleReference = 6"
| "exit_code_of StaleCursor = 6"
| "exit_code_of TransferExpired = 6"
| "exit_code_of OperationConflict = 6"
| "exit_code_of OperationNotFound = 6"
| "exit_code_of OperationInProgress = 7"
| "exit_code_of OutcomeUnknown = 7"
| "exit_code_of Cancelled = 130"
| "exit_code_of _ = 8"

definition exit_code :: "Error \<Rightarrow> u8" where
  "exit_code e = exit_code_of (err_code e)"

lemma with_message_sel [simp]:
  "err_code (with_message c m) = c"
  "err_message (with_message c m) = m"
  "err_reason (with_message c m) = None"
  "err_draft_operation (with_message c m) = None"
  "err_credential_failure (with_message c m) = None"
  by (simp_all add: with_message_def)

lemma error_new_sel [simp]:
  "err_code (error_new c) = c"
  "err_reason (error_new c) = None"
  "err_draft_operation (error_new c) = None"
  by (simp_all add: error_new_def)

lemma draft_outcome_sel [simp]:
  "err_code (draft_outcome c d) = c"
  "err_draft_operation (draft_outcome c d) = Some d"
  by (simp_all add: draft_outcome_def)

lemma draft_conflict_sel [simp]:
  "err_code draft_conflict = OperationConflict"
  "err_draft_operation draft_conflict = None"
  by (simp_all add: draft_conflict_def)

lemma setup_required_sel [simp]: "err_code setup_required = InvalidRequest"
  by (simp add: setup_required_def)

lemma error_new_inject [simp]: "error_new c = error_new d \<longleftrightarrow> c = d"
  by (metis error_new_sel(1))

section \<open>Result envelopes\<close>

datatype 'a Envelope =
    Success (env_request_id: string) (env_result: 'a)
  | Failure (env_request_id: string) (env_error: Error)

definition from_result :: "string \<Rightarrow> 'a result \<Rightarrow> 'a Envelope" where
  "from_result rid r = (case r of Inr a \<Rightarrow> Success rid a | Inl e \<Rightarrow> Failure rid e)"

fun request_id :: "'a Envelope \<Rightarrow> string" where
  "request_id (Success rid _) = rid"
| "request_id (Failure rid _) = rid"

fun is_success :: "'a Envelope \<Rightarrow> bool" where
  "is_success (Success _ _) = True"
| "is_success (Failure _ _) = False"

fun envelope_result :: "'a Envelope \<Rightarrow> 'a option" where
  "envelope_result (Success _ a) = Some a"
| "envelope_result (Failure _ _) = None"

fun envelope_error :: "'a Envelope \<Rightarrow> Error option" where
  "envelope_error (Success _ _) = None"
| "envelope_error (Failure _ e) = Some e"

fun into_result :: "'a Envelope \<Rightarrow> 'a result" where
  "into_result (Success _ a) = Inr a"
| "into_result (Failure _ e) = Inl e"

lemma into_result_from_result [simp]: "into_result (from_result rid r) = r"
  by (cases r) (simp_all add: from_result_def)

lemma from_result_into_result [simp]: "from_result (request_id v) (into_result v) = v"
  by (cases v) (simp_all add: from_result_def)

section \<open>Bounded input fields\<close>

text \<open>
  \<open>page_limit\<close> and the \<open>BoundedString\<close> decoders refuse a value outside its bound; the
  JSON layer above them only says which of the three shapes (absent, present, refused)
  a field takes.
\<close>

definition page_limit :: "nat \<Rightarrow> nat option \<Rightarrow> nat option option" where
  "page_limit maximum limit =
     (if is_some_and limit (\<lambda>n. \<not> (1 \<le> n \<and> n \<le> maximum)) then None else Some limit)"

definition bounded_string :: "nat \<Rightarrow> nat \<Rightarrow> string \<Rightarrow> string option" where
  "bounded_string minimum maximum s =
     (if \<not> (minimum \<le> length s \<and> length s \<le> maximum) then None else Some s)"

definition bounded_optional_string :: "nat \<Rightarrow> string option \<Rightarrow> string option option" where
  "bounded_optional_string maximum v =
     (case v of None \<Rightarrow> Some None
      | Some s \<Rightarrow> map_option Some (bounded_string 1 maximum s))"

lemma page_limit_Some:
  "page_limit maximum limit = Some l \<longleftrightarrow>
     l = limit \<and> (\<forall>n. limit = Some n \<longrightarrow> 1 \<le> n \<and> n \<le> maximum)"
  by (cases limit) (auto simp: page_limit_def)

section \<open>Mailbox identity\<close>

definition mailbox_identity :: "string \<Rightarrow> string" where
  "mailbox_identity name = (if eq_ignore_ascii_case name ''INBOX'' then ''INBOX'' else name)"

lemma mailbox_identity_idem [simp]:
  "mailbox_identity (mailbox_identity name) = mailbox_identity name"
  by (simp add: mailbox_identity_def)

lemma mailbox_identity_eq_iff:
  "mailbox_identity a = mailbox_identity b \<longleftrightarrow>
     a = b \<or> (eq_ignore_ascii_case a ''INBOX'' \<and> eq_ignore_ascii_case b ''INBOX'')"
  by (auto simp: mailbox_identity_def)

text \<open>
  Errors built by \<open>Error::new\<close> are marked retryable exactly when the process exit status is
  the one reserved for transient failures.
\<close>

lemma retryable_iff_transient_exit:
  "err_retryable (error_new c) \<longleftrightarrow> exit_code (error_new c) = 5"
  by (cases c) (simp_all add: error_new_def with_message_def exit_code_def)

end
