(* ===== verification/Encoding.thy ===== *)
theory Encoding
  imports Domain
begin

text \<open>
  Allocation bounds for JSON parsing and serialization (\<open>src/src/encoding.rs\<close>). The JSON
  serializer is a third-party package: it appears as the sequence of writes it makes for a
  value, together with whether it finished. Everything stated below holds for every way
  of splitting the output into writes.
\<close>

section \<open>Bounded sequences and hexadecimal\<close>

text \<open>
  \<open>BoundedVec::visit_seq\<close>: elements are decoded one at a time, at most \<open>maximum\<close>
  of them; one more element, whatever it is, is refused without being decoded.
\<close>

fun bounded_vec_seq :: "'e \<Rightarrow> nat \<Rightarrow> 'a list \<Rightarrow> ('e + 'a) list \<Rightarrow> 'e + 'a list" where
  "bounded_vec_seq excess n vals [] = Inr vals"
| "bounded_vec_seq excess 0 vals (x # xs) = Inl excess"
| "bounded_vec_seq excess (Suc n) vals (x # xs) =
     and_then x (\<lambda>v. bounded_vec_seq excess n (vals @ [v]) xs)"

definition bounded_vec :: "'e \<Rightarrow> nat \<Rightarrow> ('e + 'a) list \<Rightarrow> 'e + 'a list" where
  "bounded_vec excess maximum xs = bounded_vec_seq excess maximum [] xs"

lemma bounded_vec_seq_Inr:
  "bounded_vec_seq ex n vals xs = Inr ys \<longleftrightarrow>
     length xs \<le> n \<and> (\<exists>vs. xs = map Inr vs \<and> ys = vals @ vs)"
proof (induction ex n vals xs arbitrary: ys rule: bounded_vec_seq.induct)
  case (3 ex n vals x xs)
  show ?case
  proof (cases x)
    case (Inl e)
    then show ?thesis by auto
  next
    case (Inr v)
    with 3 show ?thesis by (auto simp: Cons_eq_map_conv)
  qed
qed auto

lemma bounded_vec_Inr:
  "bounded_vec ex maximum xs = Inr ys \<longleftrightarrow> length ys \<le> maximum \<and> xs = map Inr ys"
  by (auto simp: bounded_vec_def bounded_vec_seq_Inr)

definition HEX :: string where
  "HEX = ''0123456789abcdef''"

fun hex :: "u8 list \<Rightarrow> string" where
  "hex [] = []"
| "hex (b # bs) =
     HEX ! unat (drop_bit 4 b) # HEX ! unat (and b 15) # hex bs"

lemma length_hex [simp]: "length (hex bs) = 2 * length bs"
  by (induction bs) auto

section \<open>Request buffers\<close>

fun next_power_of_two_from :: "nat \<Rightarrow> nat \<Rightarrow> nat \<Rightarrow> nat" where
  "next_power_of_two_from 0 p n = p"
| "next_power_of_two_from (Suc k) p n =
     (if n \<le> p then p else next_power_of_two_from k (2 * p) n)"

lemma next_power_of_two_from_numeral [simp]:
  "next_power_of_two_from (numeral k) p n =
     (if n \<le> p then p else next_power_of_two_from (pred_numeral k) (2 * p) n)"
  by (simp add: numeral_eq_Suc)

text \<open>\<open>usize::next_power_of_two\<close>: 64 doublings reach every representable argument.\<close>

definition next_power_of_two :: "nat \<Rightarrow> nat" where
  "next_power_of_two n = next_power_of_two_from 64 1 n"

lemma next_power_of_two_from_ge: "n \<le> p * 2 ^ k \<Longrightarrow> n \<le> next_power_of_two_from k p n"
  by (induction k p n rule: next_power_of_two_from.induct) (auto simp: mult.assoc mult.left_commute)

lemma next_power_of_two_from_less:
  "p < 2 * n \<Longrightarrow> next_power_of_two_from k p n < 2 * n"
  by (induction k p n rule: next_power_of_two_from.induct) auto

lemma next_power_of_two_bounds:
  assumes "0 < n" and "n \<le> 2 ^ 64"
  shows "n \<le> next_power_of_two n \<and> next_power_of_two n < 2 * n"
  using next_power_of_two_from_ge [of n 1 64] next_power_of_two_from_less [of 1 n 64] assms
  by (simp add: next_power_of_two_def)

text \<open>\<open>size_of::<String>()\<close> is three machine words on the supported 64-bit targets.\<close>

definition request_buffer_bytes :: "nat \<Rightarrow> nat" where
  "request_buffer_bytes len =
     (let owned_strings = min len (256 * 1024 + 2 * 64 + 256 + 16);
          descriptors = next_power_of_two (min (len div 3) 256) * 24
      in len * 2 + owned_strings + descriptors)"

lemma request_buffer_bytes_ge: "2 * len \<le> request_buffer_bytes len"
  by (simp add: request_buffer_bytes_def Let_def)

section \<open>Output budgets\<close>

record OutputBudget =
  budget_remaining :: nat

definition output_budget_new :: "nat \<Rightarrow> OutputBudget" where
  "output_budget_new n = \<lparr>budget_remaining = n\<rparr>"

definition reserve :: "OutputBudget \<Rightarrow> nat \<Rightarrow> OutputBudget result" where
  "reserve b n =
     and_then (ok_or (error_new ResponseTooLarge) (checked_sub (budget_remaining b) n))
       (\<lambda>r. Inr (b\<lparr>budget_remaining := r\<rparr>))"

text \<open>
  What the serializer does with a writer: the byte strings it writes, in order, and
  whether it reported success after the last one.
\<close>

record serialization =
  ser_writes :: "bytes list"
  ser_finished :: bool

definition emitted :: "serialization \<Rightarrow> bytes" where
  "emitted s = concat (ser_writes s)"

definition budget_write :: "OutputBudget \<Rightarrow> bytes \<Rightarrow> OutputBudget result" where
  "budget_write b w = reserve b (length w)"

definition budget_count :: "OutputBudget \<Rightarrow> serialization \<Rightarrow> OutputBudget result" where
  "budget_count b s =
     and_then (map_err (\<lambda>_. error_new ResponseTooLarge) (try_fold budget_write b (ser_writes s)))
       (\<lambda>b'. and_then (ensure (ser_finished s) (error_new ResponseTooLarge)) (\<lambda>_. Inr b'))"

definition serialized_size :: "serialization \<Rightarrow> nat \<Rightarrow> nat result" where
  "serialized_size s maximum =
     and_then (budget_count (output_budget_new maximum) s)
       (\<lambda>b. Inr (maximum - budget_remaining b))"

text \<open>\<open>impl Write for &mut [u8]\<close>: a slice takes bytes until it is full, then errs.\<close>

definition slice_write :: "nat \<Rightarrow> bytes \<Rightarrow> bytes \<Rightarrow> Error + bytes" where
  "slice_write capacity written w =
     (if length written + length w \<le> capacity then Inr (written @ w)
      else Inl (error_new ResponseTooLarge))"

definition serialize_sized :: "serialization \<Rightarrow> nat \<Rightarrow> bytes result" where
  "serialize_sized s len =
     and_then (try_fold (slice_write len) [] (ser_writes s))
       (\<lambda>written. and_then (ensure (ser_finished s) (error_new ResponseTooLarge)) (\<lambda>_. Inr written))"

definition serialize_bounded :: "serialization \<Rightarrow> nat \<Rightarrow> bytes result" where
  "serialize_bounded s maximum = and_then (serialized_size s maximum) (serialize_sized s)"

text \<open>
  \<open>JsonHash\<close> feeds every admitted write to the digest. The digest itself is a parameter:
  a function of all bytes fed to it.
\<close>

record JsonHash =
  hash_digest :: bytes
  hash_budget :: OutputBudget

definition hash_write :: "JsonHash \<Rightarrow> bytes \<Rightarrow> JsonHash result" where
  "hash_write h w =
     and_then (reserve (hash_budget h) (length w))
       (\<lambda>b. Inr (h\<lparr>hash_budget := b, hash_digest := hash_digest h @ w\<rparr>))"

definition json_sha256 :: "(bytes \<Rightarrow> u8 list) \<Rightarrow> serialization \<Rightarrow> nat \<Rightarrow> u8 list result" where
  "json_sha256 sha s maximum =
     and_then (map_err (\<lambda>_. error_new ResponseTooLarge)
        (try_fold hash_write \<lparr>hash_digest = [], hash_budget = output_budget_new maximum\<rparr> (ser_writes s)))
       (\<lambda>h. and_then (ensure (ser_finished s) (error_new ResponseTooLarge)) (\<lambda>_. Inr (sha (hash_digest h))))"

lemma reserve_iff:
  "reserve b n =
     (if n \<le> budget_remaining b then Inr (b\<lparr>budget_remaining := budget_remaining b - n\<rparr>)
      else Inl (error_new ResponseTooLarge))"
  by (simp add: reserve_def checked_sub_def)

lemma try_fold_budget_write:
  "try_fold budget_write b ws =
     (if length (concat ws) \<le> budget_remaining b
      then Inr (b\<lparr>budget_remaining := budget_remaining b - length (concat ws)\<rparr>)
      else Inl (error_new ResponseTooLarge))"
  by (induction ws arbitrary: b) (auto simp: budget_write_def reserve_iff)

lemma try_fold_slice_write:
  "length acc \<le> cap \<Longrightarrow>
   try_fold (slice_write cap) acc ws =
     (if length acc + length (concat ws) \<le> cap then Inr (acc @ concat ws)
      else Inl (error_new ResponseTooLarge))"
  by (induction ws arbitrary: acc) (auto simp: slice_write_def)

lemma try_fold_hash_write:
  "try_fold hash_write h ws =
     (if length (concat ws) \<le> budget_remaining (hash_budget h)
      then Inr (h\<lparr>hash_budget := (hash_budget h)\<lparr>budget_remaining := budget_remaining (hash_budget h) - length (concat ws)\<rparr>,
                  hash_digest := hash_digest h @ concat ws\<rparr>)
      else Inl (error_new ResponseTooLarge))"
  by (induction ws arbitrary: h) (auto simp: hash_write_def reserve_iff)

lemma budget_count_eq:
  "budget_count b s =
     (if ser_finished s \<and> length (emitted s) \<le> budget_remaining b
      then Inr (b\<lparr>budget_remaining := budget_remaining b - length (emitted s)\<rparr>)
      else Inl (error_new ResponseTooLarge))"
  by (auto simp: budget_count_def try_fold_budget_write emitted_def)

lemma serialized_size_eq:
  "serialized_size s maximum =
     (if ser_finished s \<and> length (emitted s) \<le> maximum then Inr (length (emitted s))
      else Inl (error_new ResponseTooLarge))"
  by (auto simp: serialized_size_def budget_count_eq output_budget_new_def)

lemma serialize_sized_eq:
  "serialize_sized s len =
     (if ser_finished s \<and> length (emitted s) \<le> len then Inr (emitted s)
      else Inl (error_new ResponseTooLarge))"
  using try_fold_slice_write [of "[]" len "ser_writes s"]
  by (auto simp: serialize_sized_def emitted_def)

lemma serialize_bounded_eq:
  "serialize_bounded s maximum =
     (if ser_finished s \<and> length (emitted s) \<le> maximum then Inr (emitted s)
      else Inl (error_new ResponseTooLarge))"
  by (auto simp: serialize_bounded_def serialized_size_eq serialize_sized_eq)

text \<open>
  bounded serialization is exact and never truncates. For every way the serializer splits
  its output into writes, the measured two-pass \<open>serialize_bounded\<close> returns the complete
  output when it fits the ceiling and \<open>ResponseTooLarge\<close> otherwise; the
  single-pass digest admits exactly the same values and hashes exactly that output.
\<close>

theorem serialize_bounded_exact:
  "serialize_bounded s maximum =
     (if ser_finished s \<and> length (emitted s) \<le> maximum then Inr (emitted s)
      else Inl (error_new ResponseTooLarge))
   \<and> json_sha256 sha s maximum = map_sum id sha (serialize_bounded s maximum)"
  by (auto simp: serialize_bounded_eq json_sha256_def try_fold_hash_write output_budget_new_def emitted_def)

section \<open>Structural bounds of a JSON text\<close>

record json_scan =
  scan_depth :: nat
  scan_nodes :: nat
  scan_quoted :: bool
  scan_escaped :: bool

definition json_step :: "nat \<Rightarrow> nat \<Rightarrow> json_scan \<Rightarrow> byte \<Rightarrow> json_scan result" where
  "json_step maximum_depth maximum_nodes s b =
     (if scan_quoted s then
        (if scan_escaped s then Inr (s\<lparr>scan_escaped := False\<rparr>)
         else if b = CHR 0x5C then Inr (s\<lparr>scan_escaped := True\<rparr>)
         else if b = CHR 0x22 then Inr (s\<lparr>scan_quoted := False\<rparr>)
         else Inr s)
      else
        and_then
          (if b = CHR 0x22 then Inr (s\<lparr>scan_quoted := True\<rparr>)
           else if b = CHR ''{'' \<or> b = CHR ''['' then
             (if scan_depth s + 1 > maximum_depth then Inl (error_new InvalidRequest)
              else Inr (s\<lparr>scan_depth := scan_depth s + 1\<rparr>))
           else if b = CHR ''}'' \<or> b = CHR '']'' then Inr (s\<lparr>scan_depth := scan_depth s - 1\<rparr>)
           else Inr s)
          (\<lambda>s. if b \<in> {CHR ''{'', CHR ''['', CHR '','', CHR '':''} then
             (if scan_nodes s + 1 > maximum_nodes then Inl (error_new InvalidRequest)
              else Inr (s\<lparr>scan_nodes := scan_nodes s + 1\<rparr>))
           else Inr s))"

definition validate_json_bounds :: "bytes \<Rightarrow> nat \<Rightarrow> nat \<Rightarrow> unit result" where
  "validate_json_bounds bs maximum_depth maximum_nodes =
     and_then (try_fold (json_step maximum_depth maximum_nodes)
        \<lparr>scan_depth = 0, scan_nodes = 1, scan_quoted = False, scan_escaped = False\<rparr> bs) (\<lambda>_. Inr ())"

text \<open>
  The reference reading of a JSON text: drop string literals, keep the structural bytes, and
  measure the nesting of the remaining brackets and the number of structural nodes.
\<close>

fun outside_strings :: "bool \<Rightarrow> bool \<Rightarrow> bytes \<Rightarrow> bytes" where
  "outside_strings q e [] = []"
| "outside_strings False e (b # bs) =
     (if b = CHR 0x22 then outside_strings True False bs else b # outside_strings False False bs)"
| "outside_strings True True (b # bs) = outside_strings True False bs"
| "outside_strings True False (b # bs) =
     (if b = CHR 0x5C then outside_strings True True bs
      else if b = CHR 0x22 then outside_strings False False bs
      else outside_strings True False bs)"

fun nesting_from :: "nat \<Rightarrow> bytes \<Rightarrow> nat" where
  "nesting_from d [] = d"
| "nesting_from d (b # bs) =
     (if b = CHR ''{'' \<or> b = CHR ''['' then nesting_from (d + 1) bs
      else if b = CHR ''}'' \<or> b = CHR '']'' then max d (nesting_from (d - 1) bs)
      else nesting_from d bs)"

definition json_nesting_of :: "bytes \<Rightarrow> nat" where
  "json_nesting_of bs = nesting_from 0 (outside_strings False False bs)"

definition json_nodes_of :: "bytes \<Rightarrow> nat" where
  "json_nodes_of bs =
     1 + length (filter (\<lambda>b. b \<in> {CHR ''{'', CHR ''['', CHR '','', CHR '':''})
                  (outside_strings False False bs))"

lemma nesting_from_ge: "d \<le> nesting_from d bs"
  by (induction d bs rule: nesting_from.induct) auto

definition structural :: "bytes \<Rightarrow> nat" where
  "structural bs = length (filter (\<lambda>b. b \<in> {CHR ''{'', CHR ''['', CHR '','', CHR '':''}) bs)"

lemma structural_simps [simp]:
  "structural [] = 0"
  "structural (b # bs) =
     (if b \<in> {CHR ''{'', CHR ''['', CHR '','', CHR '':''} then Suc (structural bs) else structural bs)"
  by (simp_all add: structural_def)

lemma json_scan_ok:
  assumes "scan_depth s \<le> md" and "scan_quoted s \<or> \<not> scan_escaped s"
  shows "is_ok (try_fold (json_step md mn) s bs) \<longleftrightarrow>
     nesting_from (scan_depth s) (outside_strings (scan_quoted s) (scan_escaped s) bs) \<le> md
     \<and> scan_nodes s + structural (outside_strings (scan_quoted s) (scan_escaped s) bs) \<le> max (scan_nodes s) mn"
  using assms
proof (induction bs arbitrary: s)
  case Nil
  then show ?case by simp
next
  case (Cons b bs)
  show ?case
  proof (cases "scan_quoted s")
    case True
    with Cons show ?thesis
      by (cases "scan_escaped s") (auto simp: json_step_def)
  next
    case False
    with Cons.prems have "\<not> scan_escaped s" by simp
    with False Cons show ?thesis
      using nesting_from_ge [of "scan_depth s + 1" "outside_strings False False bs"]
      by (auto simp: json_step_def)
  qed
qed

lemma json_step_error: "json_step md mn s b = Inl e \<Longrightarrow> e = error_new InvalidRequest"
  by (auto simp: json_step_def and_then_eq_Inl split: if_splits)

lemma json_scan_error:
  "try_fold (json_step md mn) s bs = Inl e \<Longrightarrow> e = error_new InvalidRequest"
  by (induction bs arbitrary: s) (auto simp: and_then_eq_Inl dest: json_step_error)

text \<open>
  C14: the streaming JSON admission check accepts a text exactly when, with string literals
  removed, its bracket nesting and its count of structural nodes are within the bounds; a text
  it refuses is an invalid request.
\<close>

theorem validate_json_bounds_correct:
  "validate_json_bounds bs md mn =
     (if json_nesting_of bs \<le> md \<and> json_nodes_of bs \<le> max 1 mn then Inr ()
      else Inl (error_new InvalidRequest))"
proof -
  let ?s = "\<lparr>scan_depth = 0, scan_nodes = 1, scan_quoted = False, scan_escaped = False\<rparr>"
  have "is_ok (try_fold (json_step md mn) ?s bs) \<longleftrightarrow>
      json_nesting_of bs \<le> md \<and> json_nodes_of bs \<le> max 1 mn"
    using json_scan_ok [of ?s md mn bs]
    by (simp add: json_nesting_of_def json_nodes_of_def structural_def)
  moreover have "try_fold (json_step md mn) ?s bs = Inl e \<Longrightarrow> e = error_new InvalidRequest" for e
    by (rule json_scan_error)
  ultimately show ?thesis
    by (cases "try_fold (json_step md mn) ?s bs") (auto simp: validate_json_bounds_def)
qed

end
