(* ===== verification/Limits.thy ===== *)
theory Limits
  imports Encoding
begin

text \<open>
  The resource ceilings of \<open>src/src/config.rs\<close>: the \<open>limits!\<close> macro declares one field,
  default and hard maximum per line and generates the record, the optional overrides of an
  access grant, the comparison with a ceiling and the validation. The model keeps the
  fields in the macro's order; \<open>limit_values\<close> is that order, which is what the macro
  repeats over.
\<close>

definition unwrap_or :: "'a option \<Rightarrow> 'a \<Rightarrow> 'a" where
  "unwrap_or x d = (case x of None \<Rightarrow> d | Some v \<Rightarrow> v)"

record 'a limit_fields =
  l_envelope_bytes :: 'a
  l_json_nesting :: 'a
  l_search_page :: 'a
  l_search_uid_window :: 'a
  l_search_windows :: 'a
  l_mailbox_page :: 'a
  l_mailbox_inventory :: 'a
  l_text_page_bytes :: 'a
  l_wire_fetch_bytes :: 'a
  l_header_bytes :: 'a
  l_mime_depth :: 'a
  l_mime_parts :: 'a
  l_attachment_decoded_bytes :: 'a
  l_attachment_wire_bytes :: 'a
  l_attachment_chunk_bytes :: 'a
  l_transfer_seconds :: 'a
  l_transfers_per_account :: 'a
  l_token_bytes :: 'a
  l_draft_mime_bytes :: 'a
  l_operation_seconds :: 'a
  l_connection_seconds :: 'a
  l_account_connections :: 'a
  l_account_pending_requests :: 'a
  l_secret_bytes :: 'a
  l_command_stderr_bytes :: 'a
  l_secret_command_seconds :: 'a
  l_journal_records :: 'a
  l_accounts :: 'a
  l_grants :: 'a
  l_initialization_seconds :: 'a
  l_active_requests :: 'a
  l_queued_requests :: 'a
  l_buffered_bytes :: 'a
  l_credential_workers :: 'a
  l_queued_credentials :: 'a
  l_doctor_checks_per_minute :: 'a
  l_connection_lifetime_seconds :: 'a

type_synonym Limits = "nat limit_fields"
type_synonym LimitOverrides = "nat option limit_fields"

definition limits_default :: Limits where
  "limits_default =
     \<lparr>l_envelope_bytes = 16 * 1024 * 1024,
      l_json_nesting = 32,
      l_search_page = 50,
      l_search_uid_window = 1000,
      l_search_windows = 10,
      l_mailbox_page = 200,
      l_mailbox_inventory = 1000,
      l_text_page_bytes = 256 * 1024,
      l_wire_fetch_bytes = 2 * 1024 * 1024,
      l_header_bytes = 64 * 1024,
      l_mime_depth = 20,
      l_mime_parts = 200,
      l_attachment_decoded_bytes = 10 * 1024 * 1024,
      l_attachment_wire_bytes = 16 * 1024 * 1024,
      l_attachment_chunk_bytes = 64 * 1024,
      l_transfer_seconds = 300,
      l_transfers_per_account = 2,
      l_token_bytes = 2048,
      l_draft_mime_bytes = 1024 * 1024,
      l_operation_seconds = 30,
      l_connection_seconds = 10,
      l_account_connections = 2,
      l_account_pending_requests = 16,
      l_secret_bytes = 16 * 1024,
      l_command_stderr_bytes = 8 * 1024,
      l_secret_command_seconds = 15,
      l_journal_records = 100000,
      l_accounts = 32,
      l_grants = 8,
      l_initialization_seconds = 5,
      l_active_requests = 16,
      l_queued_requests = 64,
      l_buffered_bytes = 64 * 1024 * 1024,
      l_credential_workers = 2,
      l_queued_credentials = 8,
      l_doctor_checks_per_minute = 2,
      l_connection_lifetime_seconds = 300\<rparr>"

definition MAXIMUM :: Limits where
  "MAXIMUM =
     \<lparr>l_envelope_bytes = 64 * 1024 * 1024,
      l_json_nesting = 64,
      l_search_page = 200,
      l_search_uid_window = 10000,
      l_search_windows = 100,
      l_mailbox_page = 1000,
      l_mailbox_inventory = 1000,
      l_text_page_bytes = 2 * 1024 * 1024,
      l_wire_fetch_bytes = 8 * 1024 * 1024,
      l_header_bytes = 256 * 1024,
      l_mime_depth = 40,
      l_mime_parts = 1000,
      l_attachment_decoded_bytes = 32 * 1024 * 1024,
      l_attachment_wire_bytes = 64 * 1024 * 1024,
      l_attachment_chunk_bytes = 256 * 1024,
      l_transfer_seconds = 600,
      l_transfers_per_account = 4,
      l_token_bytes = 8192,
      l_draft_mime_bytes = 8 * 1024 * 1024,
      l_operation_seconds = 120,
      l_connection_seconds = 30,
      l_account_connections = 4,
      l_account_pending_requests = 64,
      l_secret_bytes = 64 * 1024,
      l_command_stderr_bytes = 32 * 1024,
      l_secret_command_seconds = 60,
      l_journal_records = 1000000,
      l_accounts = 256,
      l_grants = 32,
      l_initialization_seconds = 10,
      l_active_requests = 64,
      l_queued_requests = 256,
      l_buffered_bytes = 256 * 1024 * 1024,
      l_credential_workers = 8,
      l_queued_credentials = 32,
      l_doctor_checks_per_minute = 12,
      l_connection_lifetime_seconds = 900\<rparr>"

definition limit_values :: "'a limit_fields \<Rightarrow> 'a list" where
  "limit_values l =
     [l_envelope_bytes l,
      l_json_nesting l,
      l_search_page l,
      l_search_uid_window l,
      l_search_windows l,
      l_mailbox_page l,
      l_mailbox_inventory l,
      l_text_page_bytes l,
      l_wire_fetch_bytes l,
      l_header_bytes l,
      l_mime_depth l,
      l_mime_parts l,
      l_attachment_decoded_bytes l,
      l_attachment_wire_bytes l,
      l_attachment_chunk_bytes l,
      l_transfer_seconds l,
      l_transfers_per_account l,
      l_token_bytes l,
      l_draft_mime_bytes l,
      l_operation_seconds l,
      l_connection_seconds l,
      l_account_connections l,
      l_account_pending_requests l,
      l_secret_bytes l,
      l_command_stderr_bytes l,
      l_secret_command_seconds l,
      l_journal_records l,
      l_accounts l,
      l_grants l,
      l_initialization_seconds l,
      l_active_requests l,
      l_queued_requests l,
      l_buffered_bytes l,
      l_credential_workers l,
      l_queued_credentials l,
      l_doctor_checks_per_minute l,
      l_connection_lifetime_seconds l]"

definition limits_resolve :: "LimitOverrides \<Rightarrow> Limits \<Rightarrow> Limits" where
  "limits_resolve ov c =
     \<lparr>l_envelope_bytes = unwrap_or (l_envelope_bytes ov) (l_envelope_bytes c),
      l_json_nesting = unwrap_or (l_json_nesting ov) (l_json_nesting c),
      l_search_page = unwrap_or (l_search_page ov) (l_search_page c),
      l_search_uid_window = unwrap_or (l_search_uid_window ov) (l_search_uid_window c),
      l_search_windows = unwrap_or (l_search_windows ov) (l_search_windows c),
      l_mailbox_page = unwrap_or (l_mailbox_page ov) (l_mailbox_page c),
      l_mailbox_inventory = unwrap_or (l_mailbox_inventory ov) (l_mailbox_inventory c),
      l_text_page_bytes = unwrap_or (l_text_page_bytes ov) (l_text_page_bytes c),
      l_wire_fetch_bytes = unwrap_or (l_wire_fetch_bytes ov) (l_wire_fetch_bytes c),
      l_header_bytes = unwrap_or (l_header_bytes ov) (l_header_bytes c),
      l_mime_depth = unwrap_or (l_mime_depth ov) (l_mime_depth c),
      l_mime_parts = unwrap_or (l_mime_parts ov) (l_mime_parts c),
      l_attachment_decoded_bytes = unwrap_or (l_attachment_decoded_bytes ov) (l_attachment_decoded_bytes c),
      l_attachment_wire_bytes = unwrap_or (l_attachment_wire_bytes ov) (l_attachment_wire_bytes c),
      l_attachment_chunk_bytes = unwrap_or (l_attachment_chunk_bytes ov) (l_attachment_chunk_bytes c),
      l_transfer_seconds = unwrap_or (l_transfer_seconds ov) (l_transfer_seconds c),
      l_transfers_per_account = unwrap_or (l_transfers_per_account ov) (l_transfers_per_account c),
      l_token_bytes = unwrap_or (l_token_bytes ov) (l_token_bytes c),
      l_draft_mime_bytes = unwrap_or (l_draft_mime_bytes ov) (l_draft_mime_bytes c),
      l_operation_seconds = unwrap_or (l_operation_seconds ov) (l_operation_seconds c),
      l_connection_seconds = unwrap_or (l_connection_seconds ov) (l_connection_seconds c),
      l_account_connections = unwrap_or (l_account_connections ov) (l_account_connections c),
      l_account_pending_requests = unwrap_or (l_account_pending_requests ov) (l_account_pending_requests c),
      l_secret_bytes = unwrap_or (l_secret_bytes ov) (l_secret_bytes c),
      l_command_stderr_bytes = unwrap_or (l_command_stderr_bytes ov) (l_command_stderr_bytes c),
      l_secret_command_seconds = unwrap_or (l_secret_command_seconds ov) (l_secret_command_seconds c),
      l_journal_records = unwrap_or (l_journal_records ov) (l_journal_records c),
      l_accounts = unwrap_or (l_accounts ov) (l_accounts c),
      l_grants = unwrap_or (l_grants ov) (l_grants c),
      l_initialization_seconds = unwrap_or (l_initialization_seconds ov) (l_initialization_seconds c),
      l_active_requests = unwrap_or (l_active_requests ov) (l_active_requests c),
      l_queued_requests = unwrap_or (l_queued_requests ov) (l_queued_requests c),
      l_buffered_bytes = unwrap_or (l_buffered_bytes ov) (l_buffered_bytes c),
      l_credential_workers = unwrap_or (l_credential_workers ov) (l_credential_workers c),
      l_queued_credentials = unwrap_or (l_queued_credentials ov) (l_queued_credentials c),
      l_doctor_checks_per_minute = unwrap_or (l_doctor_checks_per_minute ov) (l_doctor_checks_per_minute c),
      l_connection_lifetime_seconds = unwrap_or (l_connection_lifetime_seconds ov) (l_connection_lifetime_seconds c)\<rparr>"

definition no_overrides :: LimitOverrides where
  "no_overrides =
     \<lparr>l_envelope_bytes = None,
      l_json_nesting = None,
      l_search_page = None,
      l_search_uid_window = None,
      l_search_windows = None,
      l_mailbox_page = None,
      l_mailbox_inventory = None,
      l_text_page_bytes = None,
      l_wire_fetch_bytes = None,
      l_header_bytes = None,
      l_mime_depth = None,
      l_mime_parts = None,
      l_attachment_decoded_bytes = None,
      l_attachment_wire_bytes = None,
      l_attachment_chunk_bytes = None,
      l_transfer_seconds = None,
      l_transfers_per_account = None,
      l_token_bytes = None,
      l_draft_mime_bytes = None,
      l_operation_seconds = None,
      l_connection_seconds = None,
      l_account_connections = None,
      l_account_pending_requests = None,
      l_secret_bytes = None,
      l_command_stderr_bytes = None,
      l_secret_command_seconds = None,
      l_journal_records = None,
      l_accounts = None,
      l_grants = None,
      l_initialization_seconds = None,
      l_active_requests = None,
      l_queued_requests = None,
      l_buffered_bytes = None,
      l_credential_workers = None,
      l_queued_credentials = None,
      l_doctor_checks_per_minute = None,
      l_connection_lifetime_seconds = None\<rparr>"

definition fits_within :: "Limits \<Rightarrow> Limits \<Rightarrow> bool" where
  "fits_within l ceiling = list_all2 (\<le>) (limit_values l) (limit_values ceiling)"

text \<open>
  The combination rules of \<open>validate\<close>. On a 64-bit target the buffer sum cannot overflow
  because the field ceilings are checked first.
\<close>

definition limits_combine :: "Limits \<Rightarrow> bool" where
  "limits_combine l =
     (\<not> (l_buffered_bytes l
            < request_buffer_bytes (l_envelope_bytes l) + l_envelope_bytes l + 192
         \<or> l_envelope_bytes l < 1024
         \<or> l_connection_seconds l > l_operation_seconds l
         \<or> l_initialization_seconds l > l_operation_seconds l
         \<or> l_text_page_bytes l < 4
         \<or> l_mailbox_page l > l_mailbox_inventory l))"

definition limits_validate :: "Limits \<Rightarrow> unit result" where
  "limits_validate l =
     and_then (ensure (list_all2 (\<lambda>v m. \<not> (v = 0 \<or> v > m)) (limit_values l) (limit_values MAXIMUM))
        setup_required)
       (\<lambda>_. ensure (limits_combine l) setup_required)"

definition limits_valid :: "Limits \<Rightarrow> bool" where
  "limits_valid l = is_ok (limits_validate l)"

lemma unwrap_or_simps [simp]:
  "unwrap_or None d = d"
  "unwrap_or (Some v) d = v"
  by (simp_all add: unwrap_or_def)

lemma limits_valid_iff:
  "limits_valid l \<longleftrightarrow>
     list_all2 (\<lambda>v m. 0 < v \<and> v \<le> m) (limit_values l) (limit_values MAXIMUM) \<and> limits_combine l"
  by (auto simp: limits_valid_def limits_validate_def is_ok_iff ensure_def linorder_not_less
      elim: list_all2_mono)

lemma limits_validate_eq:
  "limits_validate l = (if limits_valid l then Inr () else Inl setup_required)"
  by (auto simp: limits_valid_def limits_validate_def ensure_def)

text \<open>The facts about single fields that the components rely on.\<close>

lemma limits_valid_fields:
  assumes "limits_valid l"
  shows "0 < l_search_page l" "l_search_page l \<le> 200"
    and "0 < l_search_uid_window l" "l_search_uid_window l \<le> 10000"
    and "0 < l_search_windows l" "l_search_windows l \<le> 100"
    and "0 < l_token_bytes l" "l_token_bytes l \<le> 8192"
    and "0 < l_account_connections l" "0 < l_account_pending_requests l"
    and "0 < l_active_requests l" "0 < l_queued_requests l"
    and "0 < l_mailbox_page l" "l_mailbox_page l \<le> l_mailbox_inventory l"
    and "0 < l_credential_workers l" "0 < l_doctor_checks_per_minute l"
    and "4 \<le> l_text_page_bytes l" "1024 \<le> l_envelope_bytes l"
    and "0 < l_journal_records l" "0 < l_attachment_chunk_bytes l"
    and "0 < l_transfers_per_account l" "0 < l_header_bytes l" "0 < l_wire_fetch_bytes l"
  using assms
  by (simp_all add: limits_valid_iff limit_values_def MAXIMUM_def limits_combine_def)

lemma limits_default_fields:
  "list_all2 (\<lambda>v m. 0 < v \<and> v \<le> m) (limit_values limits_default) (limit_values MAXIMUM)"
  by (simp add: limit_values_def MAXIMUM_def limits_default_def)

lemma limits_default_combine: "limits_combine limits_default"
  by (simp add: limits_combine_def limits_default_def request_buffer_bytes_def
      next_power_of_two_def Let_def)

lemma limits_default_valid: "limits_valid limits_default"
  by (simp add: limits_valid_iff limits_default_fields limits_default_combine)

lemma fits_within_refl [simp]: "fits_within l l"
  by (simp add: fits_within_def list_all2_refl)

lemma fits_within_trans: "fits_within a b \<Longrightarrow> fits_within b c \<Longrightarrow> fits_within a c"
  unfolding fits_within_def
  by (rule list_all2_trans [where ?P1.0 = "(\<le>)" and ?P2.0 = "(\<le>)", OF order_trans])

lemma limits_resolve_no_overrides [simp]: "limits_resolve no_overrides c = c"
  by (simp add: limits_resolve_def no_overrides_def)

text \<open>Resolution is pointwise: a field is its override where there is one.\<close>

lemma limit_values_resolve:
  "limit_values (limits_resolve ov c) =
     map2 unwrap_or (limit_values ov) (limit_values c)"
  by (simp add: limits_resolve_def limit_values_def)

end
