(* ===== verification/Policy.thy ===== *)
theory Policy
  imports Domain
begin

text \<open>
  Access-grant authority (\<open>src/src/policy.rs\<close>): the permissions of a profile and the
  request context that carries them. Narrowing a request can only remove authority.
\<close>

datatype Profile = ReadOnly | DraftsOnly | ReadAndDrafts

datatype Permission =
    ListAccounts | ListMailboxes | SearchMessages | ReadMessage | ReadAttachment
  | AppendDraft | InspectDraftOperation

definition permissions :: "Profile \<Rightarrow> bool \<Rightarrow> Permission list" where
  "permissions p read_only =
     [ListAccounts]
     @ (if p \<noteq> DraftsOnly
        then [ListMailboxes, SearchMessages, ReadMessage, ReadAttachment] else [])
     @ (if p \<noteq> ReadOnly \<and> \<not> read_only then [AppendDraft, InspectDraftOperation] else [])"

record Narrowing =
  narrow_read_only :: bool
  narrow_accounts :: "string list option"

record Authority =
  auth_service_id :: uuid
  auth_session :: uuid
  auth_grant :: string
  auth_account_indices :: "nat list"
  auth_permissions :: "Permission list"

record RequestContext =
  authority :: Authority
  response_limit :: nat
  ctx_operation_seconds :: nat

definition request_context_new ::
  "uuid \<Rightarrow> uuid \<Rightarrow> string \<Rightarrow> nat list \<Rightarrow> Permission list \<Rightarrow> nat \<Rightarrow> nat \<Rightarrow> RequestContext" where
  "request_context_new sid session grant indices perms limit seconds =
     \<lparr>authority = \<lparr>auth_service_id = sid, auth_session = session, auth_grant = grant,
                   auth_account_indices = indices, auth_permissions = perms\<rparr>,
      response_limit = limit, ctx_operation_seconds = seconds\<rparr>"

definition with_response_limit :: "nat \<Rightarrow> RequestContext \<Rightarrow> RequestContext" where
  "with_response_limit maximum c = c\<lparr>response_limit := min (response_limit c) maximum\<rparr>"

definition with_operation_limit :: "nat \<Rightarrow> RequestContext \<Rightarrow> RequestContext" where
  "with_operation_limit seconds c =
     c\<lparr>ctx_operation_seconds := min (ctx_operation_seconds c) seconds\<rparr>"

definition belongs_to :: "RequestContext \<Rightarrow> uuid \<Rightarrow> bool" where
  "belongs_to c sid = (auth_service_id (authority c) = sid)"

text \<open>The account scope of a narrowing is decoded with both of its bounds.\<close>

definition account_scope :: "string list option \<Rightarrow> string list option option" where
  "account_scope v =
     (case v of None \<Rightarrow> Some None
      | Some as \<Rightarrow>
          (if 256 < length as \<or> (\<exists>a \<in> set as. bounded_string 0 1024 a = None)
           then None else Some (Some as)))"

definition context_permits :: "RequestContext \<Rightarrow> Permission \<Rightarrow> bool" where
  "context_permits c p = (p \<in> set (auth_permissions (authority c)))"

lemma set_permissions:
  "set (permissions p ro) =
     {ListAccounts}
     \<union> (if p \<noteq> DraftsOnly then {ListMailboxes, SearchMessages, ReadMessage, ReadAttachment} else {})
     \<union> (if p \<noteq> ReadOnly \<and> \<not> ro then {AppendDraft, InspectDraftOperation} else {})"
  by (auto simp: permissions_def)

text \<open>
  Narrowing a grant to read-only keeps exactly the permissions that do not touch drafts: it
  grants nothing the profile does not grant, and no narrowed or read-only request can append or
  inspect a draft.
\<close>

lemma read_only_narrowing:
  "set (permissions p True) = set (permissions p False) - {AppendDraft, InspectDraftOperation}
   \<and> distinct (permissions p ro)
   \<and> (AppendDraft \<in> set (permissions p ro) \<longleftrightarrow> p \<noteq> ReadOnly \<and> ro = False)"
  by (cases p) (auto simp: permissions_def)

end
