(* ===== verification/Config.thy ===== *)
theory Config
  imports Limits Policy
begin

text \<open>
  Operator configuration (\<open>src/src/config.rs\<close>): mailbox scopes and their intersection,
  accounts, access grants, and the validation that every configuration passes before it
  gives anyone authority. The TOML decoder is a third-party package and a parameter of
  \<open>config_parse\<close>.
\<close>

section \<open>Mailbox scopes\<close>

datatype MailboxScope = All | Only "string list"

fun scope_allows :: "MailboxScope \<Rightarrow> string \<Rightarrow> bool" where
  "scope_allows All mailbox = True"
| "scope_allows (Only names) mailbox =
     (\<exists>name \<in> set names. mailbox_identity name = mailbox_identity mailbox)"

text \<open>
  \<open>remaining.take(identity)\<close> over the scanned names: a hit is removed from the index, so a
  later name with the same identity misses.
\<close>

fun take_matches :: "string set \<Rightarrow> string list \<Rightarrow> string list" where
  "take_matches remaining [] = []"
| "take_matches remaining (name # names) =
     (if mailbox_identity name \<in> remaining
      then mailbox_identity name # take_matches (remaining - {mailbox_identity name}) names
      else take_matches remaining names)"

definition indexed_intersection :: "string list \<Rightarrow> string list \<Rightarrow> string list" where
  "indexed_intersection left right =
     (let (indexed, scanned) = (if length left \<le> length right then (left, right) else (right, left))
      in sort (take_matches (set (map mailbox_identity indexed)) scanned))"

text \<open>\<open>Vec::dedup\<close> keeps the first of every run of equal elements.\<close>

fun dedup :: "'a list \<Rightarrow> 'a list" where
  "dedup (x # y # zs) = (if x = y then dedup (y # zs) else x # dedup (y # zs))"
| "dedup xs = xs"

definition filtered_intersection :: "string list \<Rightarrow> MailboxScope \<Rightarrow> string list" where
  "filtered_intersection names scope =
     dedup (sort (map mailbox_identity (filter (scope_allows scope) names)))"

fun scope_intersection :: "MailboxScope \<Rightarrow> MailboxScope \<Rightarrow> MailboxScope" where
  "scope_intersection All All = All"
| "scope_intersection (Only left) (Only right) =
     (if min (length left) (length right) > 32 then Only (indexed_intersection left right)
      else Only (filtered_intersection left (Only right)))"
| "scope_intersection (Only names) All = Only (filtered_intersection names All)"
| "scope_intersection All (Only names) = Only (filtered_intersection names All)"

datatype MailboxMatcher = MatchAll | Linear "string list" | Indexed "string set"

definition matcher_new :: "string list option \<Rightarrow> MailboxMatcher" where
  "matcher_new names =
     (case names of None \<Rightarrow> MatchAll
      | Some ns \<Rightarrow> (if length ns \<le> 32 then Linear ns else Indexed (mailbox_identity ` set ns)))"

fun matcher_allows :: "MailboxMatcher \<Rightarrow> string \<Rightarrow> bool" where
  "matcher_allows MatchAll mailbox = True"
| "matcher_allows (Linear names) mailbox =
     (\<exists>name \<in> set names. mailbox_identity name = mailbox_identity mailbox)"
| "matcher_allows (Indexed ids) mailbox = (mailbox_identity mailbox \<in> ids)"

lemma set_take_matches:
  "set (take_matches R names) = R \<inter> mailbox_identity ` set names"
  by (induction names arbitrary: R) auto

lemma distinct_take_matches: "distinct (take_matches R names)"
  by (induction names arbitrary: R) (auto simp: set_take_matches)

lemma set_dedup [simp]: "set (dedup xs) = set xs"
  by (induction xs rule: dedup.induct) auto

lemma sorted_dedup: "sorted xs \<Longrightarrow> sorted (dedup xs) \<and> distinct (dedup (xs :: 'a::linorder list))"
  by (induction xs rule: dedup.induct) auto

lemma filtered_intersection_props:
  "set (filtered_intersection names scope) = mailbox_identity ` {n \<in> set names. scope_allows scope n}"
  "sorted (filtered_intersection names scope)"
  "distinct (filtered_intersection names scope)"
  using sorted_dedup [of "sort (map mailbox_identity (filter (scope_allows scope) names))"]
  by (auto simp: filtered_intersection_def)

lemma indexed_intersection_props:
  "set (indexed_intersection left right) = mailbox_identity ` set left \<inter> mailbox_identity ` set right"
  "sorted (indexed_intersection left right)"
  "distinct (indexed_intersection left right)"
  by (auto simp: indexed_intersection_def Let_def set_take_matches distinct_take_matches)

lemma scope_allows_Only: "scope_allows (Only names) m \<longleftrightarrow> mailbox_identity m \<in> mailbox_identity ` set names"
  by (simp add: image_iff) metis

lemma image_Int_filter: "f ` A \<inter> f ` B = f ` {a \<in> A. f a \<in> f ` B}"
  by blast

text \<open>The indexed and the filtering implementation agree on every pair of lists.\<close>

lemma indexed_eq_filtered:
  "indexed_intersection left right = filtered_intersection left (Only right)"
proof -
  have "set (indexed_intersection left right) = set (filtered_intersection left (Only right))"
    unfolding indexed_intersection_props(1) filtered_intersection_props(1) scope_allows_Only
    by (rule image_Int_filter)
  then show ?thesis
    using indexed_intersection_props [of left right] filtered_intersection_props [of left "Only right"]
    by (metis sorted_distinct_set_unique)
qed

lemma scope_allows_cong:
  "mailbox_identity n = mailbox_identity m \<Longrightarrow> scope_allows s n = scope_allows s m"
  by (cases s) auto

lemma filtered_allows:
  "scope_allows (Only (filtered_intersection names scope)) m \<longleftrightarrow>
     scope_allows (Only names) m \<and> scope_allows scope m"
proof -
  have "mailbox_identity ` mailbox_identity ` X = mailbox_identity ` X" for X
    by (simp add: image_comp comp_def)
  then have "scope_allows (Only (filtered_intersection names scope)) m \<longleftrightarrow>
      mailbox_identity m \<in> mailbox_identity ` {n \<in> set names. scope_allows scope n}"
    by (simp only: scope_allows_Only filtered_intersection_props(1))
  also have "\<dots> \<longleftrightarrow> scope_allows (Only names) m \<and> scope_allows scope m"
    unfolding scope_allows_Only using scope_allows_cong by blast
  finally show ?thesis .
qed

lemma filtered_canonical:
  "map mailbox_identity (filtered_intersection names scope) = filtered_intersection names scope"
proof (rule map_idI)
  fix x
  assume "x \<in> set (filtered_intersection names scope)"
  then show "mailbox_identity x = x"
    by (auto simp: filtered_intersection_props(1))
qed

lemma scope_intersection_allows:
  "scope_allows (scope_intersection a b) m \<longleftrightarrow> scope_allows a m \<and> scope_allows b m"
  by (cases a; cases b)
    (simp_all only: scope_intersection.simps indexed_eq_filtered filtered_allows
      scope_allows.simps(1) if_cancel simp_thms)

text \<open>
  C5: intersecting two mailbox scopes gives exactly the mailboxes both allow, whichever of
  the two implementations the list sizes select, and an explicit result lists each mailbox
  identity once, in order. Narrowing can therefore never add a mailbox.
\<close>

theorem scope_intersection_correct:
  "(scope_allows (scope_intersection a b) m \<longleftrightarrow> scope_allows a m \<and> scope_allows b m)
   \<and> (case scope_intersection a b of All \<Rightarrow> a = All \<and> b = All
      | Only names \<Rightarrow> sorted names \<and> distinct names \<and> map mailbox_identity names = names)"
proof (rule conjI [OF scope_intersection_allows])
  show "case scope_intersection a b of All \<Rightarrow> a = All \<and> b = All
      | Only names \<Rightarrow> sorted names \<and> distinct names \<and> map mailbox_identity names = names"
    using filtered_intersection_props(2,3) filtered_canonical
    by (cases a; cases b) (simp_all add: indexed_eq_filtered)
qed

text \<open>The inventory matcher decides the same membership as the scope it is built from.\<close>

lemma matcher_allows_iff:
  "matcher_allows (matcher_new names) m \<longleftrightarrow>
     scope_allows (case names of None \<Rightarrow> All | Some ns \<Rightarrow> Only ns) m"
  by (cases names) (auto simp: matcher_new_def image_iff eq_commute)

section \<open>Field syntax\<close>

definition is_identifier :: "string \<Rightarrow> bool" where
  "is_identifier v =
     (v \<noteq> [] \<and> length v \<le> 128
      \<and> list_all (\<lambda>b. is_ascii_alphanumeric b \<or> b \<in> {CHR ''_'', CHR ''-'', CHR ''.''}) v)"

definition label :: "string \<Rightarrow> bool" where
  "label v = (v \<noteq> [] \<and> length v \<le> 1024 \<and> \<not> any_control v)"

fun all_labels_unique :: "string set \<Rightarrow> string list \<Rightarrow> bool" where
  "all_labels_unique unique [] = True"
| "all_labels_unique unique (v # vs) =
     (label v \<and> v \<notin> unique \<and> all_labels_unique (insert v unique) vs)"

definition unique_labels :: "string list \<Rightarrow> nat \<Rightarrow> bool" where
  "unique_labels vs maximum = (vs \<noteq> [] \<and> length vs \<le> maximum \<and> all_labels_unique {} vs)"

definition server_name :: "string \<Rightarrow> bool" where
  "server_name v =
     (v \<noteq> [] \<and> length v \<le> 253
      \<and> list_all (\<lambda>b. is_ascii_alphanumeric b \<or> b \<in> {CHR ''.'', CHR ''-'', CHR '':''}) v)"

definition systemd_credential_name :: "string \<Rightarrow> bool" where
  "systemd_credential_name name = (is_identifier name \<and> name \<noteq> ''.'' \<and> name \<noteq> ''..'')"

text \<open>
  Paths are those of the Unix targets: absolute when they start with a slash, split into
  components at slashes. A path from a configuration text is valid UTF-8.
\<close>

definition safe_path :: "string \<Rightarrow> bool" where
  "safe_path p =
     ((case p of [] \<Rightarrow> False | c # _ \<Rightarrow> c = CHR ''/'')
      \<and> ''..'' \<notin> set (split_on (CHR ''/'') p)
      \<and> CHR 0x00 \<notin> set p)"

definition scope_valid :: "MailboxScope \<Rightarrow> nat \<Rightarrow> bool" where
  "scope_valid s maximum = (case s of All \<Rightarrow> True | Only names \<Rightarrow> unique_labels names maximum)"

lemma all_labels_unique_iff:
  "all_labels_unique U vs \<longleftrightarrow> (\<forall>v \<in> set vs. label v) \<and> distinct vs \<and> set vs \<inter> U = {}"
  by (induction vs arbitrary: U) auto

lemma unique_labels_iff:
  "unique_labels vs maximum \<longleftrightarrow>
     vs \<noteq> [] \<and> length vs \<le> maximum \<and> (\<forall>v \<in> set vs. label v) \<and> distinct vs"
  by (auto simp: unique_labels_def all_labels_unique_iff)

section \<open>Accounts, cfg_grants and the configuration\<close>

datatype Topology = Native | LinuxNativeWsl | WindowsHostedWsl

datatype TlsMode = Implicit | Starttls

record CredentialCommand =
  executable :: string
  cmd_args :: "string list"
  working_dir :: string
  protected_paths :: "string list"

datatype CredentialSource =
  NativeSource | Systemd string | Command CredentialCommand | SessionSource

definition command_valid :: "CredentialCommand \<Rightarrow> bool" where
  "command_valid c =
     (safe_path (executable c) \<and> safe_path (working_dir c)
      \<and> length (protected_paths c) \<le> 64
      \<and> list_all safe_path (protected_paths c)
      \<and> length (cmd_args c) \<le> 64
      \<and> list_all (\<lambda>a. length a \<le> 4096 \<and> CHR 0x00 \<notin> set a) (cmd_args c))"

record AccountConfig =
  acc_key :: string
  acc_alias :: string
  acc_server :: string
  acc_port :: u16
  acc_tls :: TlsMode
  acc_username :: string
  acc_mailboxes :: MailboxScope
  acc_from_identities :: "string list"
  acc_drafts_mailbox :: "string option"
  acc_credential :: CredentialSource
  acc_retain_history :: bool

record HistoricalDraftScope =
  hist_account_id :: uuid
  hist_account_generation :: u64
  hist_mailbox :: string

record AccessGrant =
  grant_name :: string
  grant_profile :: Profile
  grant_accounts :: "string list"
  grant_mailboxes :: MailboxScope
  grant_historical_drafts :: "HistoricalDraftScope list"
  grant_limits :: Limits

record RawGrant =
  raw_name :: string
  raw_profile :: Profile
  raw_accounts :: "string list"
  raw_mailboxes :: MailboxScope
  raw_historical_drafts :: "HistoricalDraftScope list"
  raw_limits :: LimitOverrides

record Config =
  cfg_default_grant :: string
  cfg_topology :: Topology
  cfg_state_dir :: string
  cfg_export_roots :: "string list"
  cfg_limits :: Limits
  cfg_accounts :: "AccountConfig list"
  cfg_grants :: "AccessGrant list"

record RawConfig =
  rawc_default_grant :: string
  rawc_topology :: Topology
  rawc_state_dir :: string
  rawc_export_roots :: "string list"
  rawc_limits :: Limits
  rawc_accounts :: "AccountConfig list"
  rawc_grants :: "RawGrant list"

datatype toml = Table "(string \<times> toml) list" | Array "toml list" | Scalar

fun toml_obsolete :: "toml \<Rightarrow> bool" where
  "toml_obsolete (Table kvs) =
     list_ex (\<lambda>(k, v).
       k \<in> {''runtimes'', ''runtime_slots'', ''runtime_slot'', ''shared_permit'', ''shared_permits''}
       \<or> toml_obsolete v) kvs"
| "toml_obsolete (Array vs) = list_ex toml_obsolete vs"
| "toml_obsolete Scalar = False"

definition obsolete_runtime_capacity :: "toml option \<Rightarrow> bool" where
  "obsolete_runtime_capacity v = is_some_and v toml_obsolete"

section \<open>Validation\<close>

definition account_fields_valid :: "Limits \<Rightarrow> AccountConfig \<Rightarrow> bool" where
  "account_fields_valid l a =
     (is_identifier (acc_key a) \<and> label (acc_alias a)
      \<and> server_name (acc_server a) \<and> acc_port a \<noteq> 0 \<and> label (acc_username a)
      \<and> scope_valid (acc_mailboxes a) (l_mailbox_inventory l)
      \<and> unique_labels (acc_from_identities a) 100
      \<and> \<not> is_some_and (acc_drafts_mailbox a)
            (\<lambda>m. \<not> label m \<or> \<not> scope_allows (acc_mailboxes a) m))"

definition credential_valid :: "CredentialSource \<Rightarrow> bool" where
  "credential_valid s =
     (case s of Systemd name \<Rightarrow> systemd_credential_name name
      | Command c \<Rightarrow> command_valid c
      | _ \<Rightarrow> True)"

fun validate_accounts ::
  "Limits \<Rightarrow> string set \<Rightarrow> string set \<Rightarrow> AccountConfig list \<Rightarrow> string set result" where
  "validate_accounts l keys aliases [] = Inr keys"
| "validate_accounts l keys aliases (a # as) =
     (if \<not> account_fields_valid l a \<or> acc_key a \<in> keys \<or> acc_alias a \<in> aliases
      then Inl setup_required
      else if \<not> credential_valid (acc_credential a) then Inl setup_required
      else validate_accounts l (insert (acc_key a) keys) (insert (acc_alias a) aliases) as)"

definition historical_valid :: "HistoricalDraftScope \<Rightarrow> bool" where
  "historical_valid h =
     (\<not> (hist_account_id h = 0 \<or> hist_account_generation h = 0
         \<or> unat (hist_account_generation h) > i64_max \<or> \<not> label (hist_mailbox h)))"

definition grant_drafts_valid :: "AccountConfig list \<Rightarrow> AccessGrant \<Rightarrow> bool" where
  "grant_drafts_valid accs g =
     (\<not> (grant_profile g \<noteq> ReadOnly
         \<and> (\<exists>key \<in> set (grant_accounts g).
              is_none_or (find (\<lambda>a. acc_key a = key) accs)
                (\<lambda>a. is_none_or (acc_drafts_mailbox a)
                        (\<lambda>m. \<not> scope_allows (grant_mailboxes g) m)))))"

definition grant_fields_valid :: "Limits \<Rightarrow> string set \<Rightarrow> AccessGrant \<Rightarrow> bool" where
  "grant_fields_valid l keys g =
     (is_identifier (grant_name g)
      \<and> length (grant_accounts g) \<le> l_accounts l
      \<and> scope_valid (grant_mailboxes g) (l_mailbox_inventory l)
      \<and> set (grant_accounts g) \<subseteq> keys
      \<and> length (grant_historical_drafts g) \<le> l_mailbox_inventory l
      \<and> list_all historical_valid (grant_historical_drafts g))"

fun validate_grants ::
  "Config \<Rightarrow> string set \<Rightarrow> string set \<Rightarrow> AccessGrant list \<Rightarrow> unit result" where
  "validate_grants c keys names [] = Inr ()"
| "validate_grants c keys names (g # gs) =
     and_then (limits_validate (grant_limits g)) (\<lambda>_.
       if \<not> fits_within (grant_limits g) (cfg_limits c) then Inl setup_required
       else if \<not> grant_fields_valid (cfg_limits c) keys g \<or> grant_name g \<in> names
       then Inl setup_required
       else if \<not> grant_drafts_valid (cfg_accounts c) g then Inl setup_required
       else validate_grants c keys (insert (grant_name g) names) gs)"

definition config_shape_valid :: "Config \<Rightarrow> bool" where
  "config_shape_valid c =
     (safe_path (cfg_state_dir c)
      \<and> length (cfg_export_roots c) \<le> 32
      \<and> list_all safe_path (cfg_export_roots c)
      \<and> length (cfg_accounts c) \<le> l_accounts (cfg_limits c)
      \<and> cfg_grants c \<noteq> []
      \<and> length (cfg_grants c) \<le> l_grants (cfg_limits c)
      \<and> is_identifier (cfg_default_grant c)
      \<and> (\<exists>g \<in> set (cfg_grants c). grant_name g = cfg_default_grant c \<and> grant_profile g = ReadOnly))"

definition config_validate :: "Config \<Rightarrow> unit result" where
  "config_validate c =
     and_then (limits_validate (cfg_limits c)) (\<lambda>_.
     and_then (ensure (config_shape_valid c) setup_required) (\<lambda>_.
     and_then (validate_accounts (cfg_limits c) {} {} (cfg_accounts c)) (\<lambda>keys.
       validate_grants c keys {} (cfg_grants c))))"

definition resolve_grant :: "Limits \<Rightarrow> RawGrant \<Rightarrow> AccessGrant" where
  "resolve_grant l g =
     \<lparr>grant_name = raw_name g, grant_profile = raw_profile g, grant_accounts = raw_accounts g,
      grant_mailboxes = raw_mailboxes g, grant_historical_drafts = raw_historical_drafts g,
      grant_limits = limits_resolve (raw_limits g) l\<rparr>"

definition config_max_bytes :: nat where
  "config_max_bytes = 4 * 1024 * 1024"

text \<open>\<open>raw\<close> and \<open>value\<close> are the TOML decoder's readings of the text, \<open>None\<close> where it errs.\<close>

definition config_parse ::
  "(string \<Rightarrow> RawConfig option) \<Rightarrow> (string \<Rightarrow> toml option) \<Rightarrow> string \<Rightarrow> Config result" where
  "config_parse raw val input =
     (if length input > config_max_bytes then Inl setup_required
      else and_then
        (ok_or (if obsolete_runtime_capacity (val input) then obsolete_runtime_capacity_error
                else setup_required) (raw input)) (\<lambda>r.
      and_then (limits_validate (rawc_limits r)) (\<lambda>_.
        let c = \<lparr>cfg_default_grant = rawc_default_grant r, cfg_topology = rawc_topology r,
                 cfg_state_dir = rawc_state_dir r, cfg_export_roots = rawc_export_roots r,
                 cfg_limits = rawc_limits r, cfg_accounts = rawc_accounts r,
                 cfg_grants = map (resolve_grant (rawc_limits r)) (rawc_grants r)\<rparr>
        in and_then (config_validate c) (\<lambda>_. Inr c))))"

section \<open>What validation guarantees\<close>

lemma validate_accounts_Inr:
  "validate_accounts l K A as = Inr keys \<longleftrightarrow>
     (\<forall>a \<in> set as. account_fields_valid l a \<and> credential_valid (acc_credential a))
     \<and> distinct (map acc_key as) \<and> acc_key ` set as \<inter> K = {}
     \<and> distinct (map acc_alias as) \<and> acc_alias ` set as \<inter> A = {}
     \<and> keys = K \<union> acc_key ` set as"
  by (induction as arbitrary: K A) (auto simp: image_iff)

lemma validate_accounts_Inl: "validate_accounts l K A as = Inl e \<Longrightarrow> e = setup_required"
  by (induction as arbitrary: K A) (auto split: if_splits)

lemma validate_grants_Inr:
  "validate_grants c keys N gs = Inr () \<longleftrightarrow>
     (\<forall>g \<in> set gs. limits_valid (grant_limits g) \<and> fits_within (grant_limits g) (cfg_limits c)
        \<and> grant_fields_valid (cfg_limits c) keys g \<and> grant_drafts_valid (cfg_accounts c) g)
     \<and> distinct (map grant_name gs) \<and> grant_name ` set gs \<inter> N = {}"
  by (induction gs arbitrary: N) (auto simp: limits_validate_eq image_iff)

lemma validate_grants_Inl: "validate_grants c keys N gs = Inl e \<Longrightarrow> e = setup_required"
  by (induction gs arbitrary: N) (auto simp: limits_validate_eq and_then_eq_Inl split: if_splits)

lemma config_validate_Inr:
  "config_validate c = Inr () \<longleftrightarrow>
     limits_valid (cfg_limits c) \<and> config_shape_valid c
     \<and> (\<forall>a \<in> set (cfg_accounts c). account_fields_valid (cfg_limits c) a
           \<and> credential_valid (acc_credential a))
     \<and> distinct (map acc_key (cfg_accounts c)) \<and> distinct (map acc_alias (cfg_accounts c))
     \<and> (\<forall>g \<in> set (cfg_grants c). limits_valid (grant_limits g)
           \<and> fits_within (grant_limits g) (cfg_limits c)
           \<and> grant_fields_valid (cfg_limits c) (acc_key ` set (cfg_accounts c)) g
           \<and> grant_drafts_valid (cfg_accounts c) g)
     \<and> distinct (map grant_name (cfg_grants c))"
  by (auto simp: config_validate_def limits_validate_eq validate_accounts_Inr validate_grants_Inr)

lemma find_unique_key:
  assumes "distinct (map acc_key as)" and "a \<in> set as"
  shows "find (\<lambda>b. acc_key b = acc_key a) as = Some a"
  using assms by (induction as) auto

text \<open>
  The authority a parsed configuration describes: one read-only default grant, unique keys,
  aliases and grant names, grants over configured accounts only with resource limits inside
  the installation's, and a draft target inside both scopes for every account a
  drafting grant names.
\<close>

definition grant_confined :: "Config \<Rightarrow> AccessGrant \<Rightarrow> bool" where
  "grant_confined c g \<longleftrightarrow>
     limits_valid (grant_limits g) \<and> fits_within (grant_limits g) (cfg_limits c)
     \<and> (\<forall>key \<in> set (grant_accounts g). \<exists>a \<in> set (cfg_accounts c). acc_key a = key
          \<and> (grant_profile g \<noteq> ReadOnly \<longrightarrow>
               (\<exists>m. acc_drafts_mailbox a = Some m
                  \<and> scope_allows (scope_intersection (acc_mailboxes a) (grant_mailboxes g)) m)))"

definition config_wf :: "Config \<Rightarrow> bool" where
  "config_wf c \<longleftrightarrow>
     limits_valid (cfg_limits c)
     \<and> distinct (map acc_key (cfg_accounts c)) \<and> distinct (map acc_alias (cfg_accounts c))
     \<and> distinct (map grant_name (cfg_grants c))
     \<and> (\<exists>!g. g \<in> set (cfg_grants c) \<and> grant_name g = cfg_default_grant c)
     \<and> (\<forall>g \<in> set (cfg_grants c). grant_name g = cfg_default_grant c \<longrightarrow> grant_profile g = ReadOnly)
     \<and> (\<forall>g \<in> set (cfg_grants c). grant_confined c g)"

lemma grant_confinedI:
  assumes v: "config_validate c = Inr ()" and g: "g \<in> set (cfg_grants c)"
  shows "grant_confined c g"
proof -
  note facts = v [unfolded config_validate_Inr]
  have "\<exists>a \<in> set (cfg_accounts c). acc_key a = key
      \<and> (grant_profile g \<noteq> ReadOnly \<longrightarrow> (\<exists>m. acc_drafts_mailbox a = Some m
            \<and> scope_allows (acc_mailboxes a) m \<and> scope_allows (grant_mailboxes g) m))"
    if key: "key \<in> set (grant_accounts g)" for key
  proof -
    from facts g have "set (grant_accounts g) \<subseteq> acc_key ` set (cfg_accounts c)"
      by (auto simp: grant_fields_valid_def)
    with key obtain a where a: "a \<in> set (cfg_accounts c)" "acc_key a = key"
      by blast
    then have "find (\<lambda>b. acc_key b = key) (cfg_accounts c) = Some a"
      using facts find_unique_key by blast
    moreover have "account_fields_valid (cfg_limits c) a" "grant_drafts_valid (cfg_accounts c) g"
      using facts a g by blast+
    ultimately show ?thesis
      using a key
      by (cases "acc_drafts_mailbox a")
        (auto simp: account_fields_valid_def grant_drafts_valid_def intro!: bexI [of _ a])
  qed
  then show ?thesis
    using facts g by (simp add: grant_confined_def scope_intersection_allows)
qed

text \<open>
  every configuration that parses is well formed. Its default grant exists, is unique and is
  read-only; keys, aliases and grant names are unique; no grant's limits exceed the
  installation's; and a grant that may save drafts only names configured accounts whose Drafts
  mailbox lies in both the account's and the grant's scope.
\<close>

theorem config_parse_wf:
  assumes "config_parse raw val input = Inr c"
  shows "config_wf c"
proof -
  from assms have v: "config_validate c = Inr ()"
    by (auto simp: config_parse_def Let_def split: if_splits)
  note facts = v [unfolded config_validate_Inr]
  from facts obtain g where g: "g \<in> set (cfg_grants c)" "grant_name g = cfg_default_grant c"
    "grant_profile g = ReadOnly"
    by (auto simp: config_shape_valid_def)
  have uniq: "h = g" if "h \<in> set (cfg_grants c)" "grant_name h = cfg_default_grant c" for h
    using facts g that by (metis distinct_map inj_onD)
  have "\<exists>!h. h \<in> set (cfg_grants c) \<and> grant_name h = cfg_default_grant c"
    using g uniq by blast
  moreover have "\<forall>h \<in> set (cfg_grants c). grant_name h = cfg_default_grant c \<longrightarrow> grant_profile h = ReadOnly"
    using g uniq by blast
  moreover have "\<forall>h \<in> set (cfg_grants c). grant_confined c h"
    using grant_confinedI [OF v] by blast
  ultimately show ?thesis
    unfolding config_wf_def using facts by blast
qed

definition example_account :: AccountConfig where
  "example_account =
     \<lparr>acc_key = ''work'', acc_alias = ''Work'', acc_server = ''imap.example.com'', acc_port = 993,
      acc_tls = Implicit, acc_username = ''user@example.com'', acc_mailboxes = All,
      acc_from_identities = [''user@example.com''], acc_drafts_mailbox = Some ''Drafts'',
      acc_credential = NativeSource, acc_retain_history = False\<rparr>"

definition example_raw :: RawConfig where
  "example_raw =
     \<lparr>rawc_default_grant = ''default'', rawc_topology = Native, rawc_state_dir = ''/var/lib/mailctl'',
      rawc_export_roots = [], rawc_limits = limits_default, rawc_accounts = [example_account],
      rawc_grants =
        [\<lparr>raw_name = ''default'', raw_profile = ReadOnly, raw_accounts = [''work''],
          raw_mailboxes = All, raw_historical_drafts = [], raw_limits = no_overrides\<rparr>,
         \<lparr>raw_name = ''drafts'', raw_profile = ReadAndDrafts, raw_accounts = [''work''],
          raw_mailboxes = Only [''inbox'', ''Drafts''], raw_historical_drafts = [],
          raw_limits = no_overrides\<rparr>]\<rparr>"

definition example_config :: Config where
  "example_config =
     \<lparr>cfg_default_grant = ''default'', cfg_topology = Native, cfg_state_dir = ''/var/lib/mailctl'',
      cfg_export_roots = [], cfg_limits = limits_default, cfg_accounts = [example_account],
      cfg_grants = map (resolve_grant limits_default) (rawc_grants example_raw)\<rparr>"

lemma example_account_valid:
  "account_fields_valid limits_default example_account"
  by code_simp

lemma example_config_valid: "config_validate example_config = Inr ()"
proof -
  have "config_shape_valid example_config"
    by code_simp
  moreover have "grant_fields_valid limits_default {''work''} g \<and> grant_drafts_valid [example_account] g"
    if "g \<in> set (cfg_grants example_config)" for g
  proof -
    have "list_all (\<lambda>g. grant_fields_valid limits_default {''work''} g
        \<and> grant_drafts_valid [example_account] g) (cfg_grants example_config)"
      by code_simp
    with that show ?thesis by (simp add: list_all_iff)
  qed
  ultimately show ?thesis
    by (auto simp: config_validate_Inr example_config_def limits_default_valid example_account_valid
        example_raw_def resolve_grant_def example_account_def [THEN arg_cong, of acc_key]
        example_account_def [THEN arg_cong, of acc_credential] credential_valid_def)
qed

lemma example_parse: "config_parse (\<lambda>_. Some example_raw) (\<lambda>_. None) ''x'' = Inr example_config"
  using example_config_valid
  by (simp add: config_parse_def config_max_bytes_def limits_validate_eq limits_default_valid
      example_raw_def example_config_def Let_def)

theorem config_parse_wf_witness: "config_wf example_config"
  by (rule config_parse_wf [OF example_parse])

end
