(* ===== verification/Journal.thy ===== *)
theory Journal
  imports Encoding
begin

text \<open>
  The durable acknowledgement journal around draft creation (\<open>src/src/draft_journal.rs\<close>). The
  database is the list of its rows. SQLite itself is a parameter: every operation takes the
  faults that its statements meet (\<open>sqlite_io\<close>), a transaction is atomic, and a failed commit
  may or may not have reached the disk. The JSON text of a reconstruction and the digest of its
  facts are parameters too (\<open>journal_host\<close>).
\<close>

section \<open>Operations and states\<close>

type_synonym sha256 = "u8 list"

definition ENCODER :: string where
  "ENCODER = ''mail-builder/2.0.1''"

record DraftMessageIdentity =
  dm_uid_validity :: u32
  dm_uid :: u32

record DraftReconstruction =
  rec_uid_validity :: u32
  rec_input_sha256 :: sha256
  rec_from_configuration_sha256 :: sha256
  rec_selected_from_sha256 :: "sha256 option"
  rec_date_unix :: int
  rec_encoder :: string
  rec_facts_sha256 :: sha256

record PreparedDraftOperation =
  op_identity :: DraftIdentity
  op_mailbox_identity :: string
  op_content_sha256 :: sha256
  op_reconstruction :: "DraftReconstruction option"

datatype DraftOperationState =
    OpPrepared | OpInFlight | OpCreated "DraftMessageIdentity option" | OpDuplicate DraftMessageIdentity
  | OpRejected | OpOutcomeUnknown

record PersistedDraftOperation =
  per_operation :: PreparedDraftOperation
  per_state :: DraftOperationState

datatype DraftJournalError =
    JUnavailable | JBusy | JFull | JInvalidDatabase | JInvalidOperation | JOperationConflict
  | JOperationNotPrepared | JNotDispatchable DraftOperationState

type_synonym 'a jresult = "DraftJournalError + 'a"

definition encoder_is_valid :: "DraftReconstruction \<Rightarrow> bool" where
  "encoder_is_valid r \<longleftrightarrow> rec_encoder r \<noteq> [] \<and> length (rec_encoder r) \<le> 128
     \<and> list_all is_ascii_graphic (rec_encoder r)"

text \<open>Third-party code: the JSON of a reconstruction, of the frozen facts, and SHA-256.\<close>

record journal_host =
  recon_json :: "DraftReconstruction \<Rightarrow> string"
  recon_parse :: "string \<Rightarrow> DraftReconstruction option"
  facts_json :: "DraftIdentity \<Rightarrow> string \<Rightarrow> u32 \<Rightarrow> sha256 \<Rightarrow> sha256 \<Rightarrow> sha256 option \<Rightarrow> int \<Rightarrow> serialization"
  sha256_of :: "bytes \<Rightarrow> sha256"

definition recon_fingerprint :: "journal_host \<Rightarrow> DraftReconstruction \<Rightarrow> DraftIdentity \<Rightarrow> string \<Rightarrow> sha256 jresult" where
  "recon_fingerprint h r i mailbox =
     map_err (\<lambda>_. JInvalidOperation)
       (json_sha256 (sha256_of h) (facts_json h i mailbox (rec_uid_validity r) (rec_input_sha256 r)
          (rec_from_configuration_sha256 r) (rec_selected_from_sha256 r) (rec_date_unix r)) usize_max)"

section \<open>SQLite\<close>

datatype sqlite_error =
    DatabaseBusy | DatabaseLocked | InvalidColumnType | FromSqlConversionFailure
  | IntegralValueOutOfRange | Utf8Error | DatabaseCorrupt | NotADatabase | ConstraintViolation | OtherFailure

fun unavailable :: "sqlite_error \<Rightarrow> DraftJournalError" where
  "unavailable DatabaseBusy = JBusy"
| "unavailable DatabaseLocked = JBusy"
| "unavailable InvalidColumnType = JInvalidDatabase"
| "unavailable FromSqlConversionFailure = JInvalidDatabase"
| "unavailable IntegralValueOutOfRange = JInvalidDatabase"
| "unavailable Utf8Error = JInvalidDatabase"
| "unavailable DatabaseCorrupt = JInvalidDatabase"
| "unavailable NotADatabase = JInvalidDatabase"
| "unavailable _ = JUnavailable"

datatype commit_fault = Committed | NotCommitted sqlite_error | CommitUnknown sqlite_error

record sqlite_io =
  io_begin :: "sqlite_error option"
  io_read :: "sqlite_error option"
  io_count :: "sqlite_error option"
  io_execute :: "sqlite_error option"
  io_commit :: commit_fault

definition io_ok :: sqlite_io where
  "io_ok = \<lparr>io_begin = None, io_read = None, io_count = None, io_execute = None, io_commit = Committed\<rparr>"

definition io_check :: "sqlite_error option \<Rightarrow> unit jresult" where
  "io_check f = (case f of None \<Rightarrow> Inr () | Some e \<Rightarrow> Inl (unavailable e))"

record DatabaseRow =
  row_operation_id :: uuid
  row_account_id :: uuid
  row_account_generation :: int
  row_mailbox_identity :: string
  row_content_sha256 :: sha256
  row_reconstruction :: "string option"
  row_state :: string
  row_appended_uid_validity :: "int option"
  row_appended_uid :: "int option"

type_synonym journal = "DatabaseRow list"

definition commit :: "sqlite_io \<Rightarrow> journal \<Rightarrow> (journal \<times> 'a) jresult \<Rightarrow> 'a jresult \<times> journal" where
  "commit io db r =
     (case r of Inl e \<Rightarrow> (Inl e, db)
      | Inr (db', v) \<Rightarrow>
          (case io_commit io of Committed \<Rightarrow> (Inr v, db')
           | NotCommitted e \<Rightarrow> (Inl (unavailable e), db)
           | CommitUnknown e \<Rightarrow> (Inl (unavailable e), db')))"

text \<open>The \<open>CHECK\<close> constraints; SQLite's \<open>length\<close> of a text stops at its first NUL.\<close>

definition sqlite_length :: "string \<Rightarrow> nat" where
  "sqlite_length s = chars_count (takeWhile (\<lambda>c. c \<noteq> CHR 0x00) s)"

definition state_names :: "string list" where
  "state_names = [''prepared'', ''in_flight'', ''created'', ''rejected'', ''outcome_unknown'', ''duplicate'']"

definition row_checks :: "DatabaseRow \<Rightarrow> bool" where
  "row_checks r \<longleftrightarrow> 0 \<le> row_account_generation r
     \<and> 0 < sqlite_length (row_mailbox_identity r) \<and> sqlite_length (row_mailbox_identity r) \<le> 4096
     \<and> length (row_content_sha256 r) = 32
     \<and> row_state r \<in> set state_names
     \<and> (row_appended_uid_validity r = None \<longleftrightarrow> row_appended_uid r = None)
     \<and> (case row_appended_uid_validity r of None \<Rightarrow> True
        | Some v \<Rightarrow> row_state r \<in> {''created'', ''duplicate''} \<and> 0 < v
            \<and> (case row_appended_uid r of None \<Rightarrow> False | Some u \<Rightarrow> 0 < u))"

definition row_key :: "DatabaseRow \<Rightarrow> uuid \<times> int \<times> uuid" where
  "row_key r = (row_account_id r, row_account_generation r, row_operation_id r)"

definition identity_key :: "DraftIdentity \<Rightarrow> uuid \<times> int \<times> uuid" where
  "identity_key i = (account_id i, uint (account_generation i), operation_id i)"

definition sql_insert :: "DatabaseRow \<Rightarrow> journal \<Rightarrow> sqlite_error + journal" where
  "sql_insert r db =
     (if row_checks r \<and> row_key r \<notin> row_key ` set db then Inr (db @ [r]) else Inl ConstraintViolation)"

definition sql_update :: "(DatabaseRow \<Rightarrow> bool) \<Rightarrow> (DatabaseRow \<Rightarrow> DatabaseRow) \<Rightarrow> journal \<Rightarrow> sqlite_error + (nat \<times> journal)" where
  "sql_update P f db =
     (if \<exists>r \<in> set db. P r \<and> \<not> row_checks (f r) then Inl ConstraintViolation
      else Inr (length (filter P db), map (\<lambda>r. if P r then f r else r) db))"

section \<open>Opening\<close>

record column =
  col_name :: string
  col_type :: string
  col_not_null :: int
  col_primary_key :: int

definition expected_columns :: "(string \<times> string \<times> int \<times> int) list" where
  "expected_columns =
     [(''operation_id'', ''BLOB'', 1, 3), (''account_id'', ''BLOB'', 1, 1),
      (''account_generation'', ''INTEGER'', 1, 2), (''mailbox_identity'', ''TEXT'', 1, 0),
      (''content_sha256'', ''BLOB'', 1, 0), (''reconstruction'', ''TEXT'', 0, 0),
      (''state'', ''TEXT'', 1, 0), (''appended_uid_validity'', ''INTEGER'', 0, 0),
      (''appended_uid'', ''INTEGER'', 0, 0)]"

definition column_matches :: "column \<Rightarrow> string \<times> string \<times> int \<times> int \<Rightarrow> bool" where
  "column_matches c e = (case e of (name, ty, not_null, primary_key) \<Rightarrow>
     col_name c = name \<and> eq_ignore_ascii_case (col_type c) ty
     \<and> col_not_null c = not_null \<and> col_primary_key c = primary_key)"

definition schema_is_current :: "column list \<Rightarrow> bool" where
  "schema_is_current columns = list_all2 column_matches columns expected_columns"

text \<open>What the connection reports: its object count, the table's columns and the pragmas.\<close>

record connection =
  conn_open :: "sqlite_error option"
  conn_tables :: int
  conn_columns :: "column list"
  conn_initialize :: "sqlite_error option"
  conn_journal_mode :: "sqlite_error + string"
  conn_synchronous :: "sqlite_error + int"

definition connect :: "connection \<Rightarrow> bool \<Rightarrow> unit jresult" where
  "connect c initialize =
     and_then (io_check (conn_open c)) (\<lambda>_.
     and_then (if conn_tables c = 0 \<and> initialize then io_check (conn_initialize c)
               else ensure (schema_is_current (conn_columns c)) JInvalidDatabase) (\<lambda>_.
     and_then (map_err unavailable (conn_journal_mode c)) (\<lambda>mode.
     and_then (ensure (eq_ignore_ascii_case mode ''wal'') JUnavailable) (\<lambda>_.
     and_then (map_err unavailable (conn_synchronous c)) (\<lambda>synchronous.
       ensure (synchronous = 2) JUnavailable)))))"

section \<open>Reading\<close>

definition u32_try_from :: "int \<Rightarrow> u32 jresult" where
  "u32_try_from x = (if 0 \<le> x \<and> x < 2 ^ 32 then Inr (word_of_int x) else Inl JInvalidDatabase)"

definition decode_appended :: "int option \<Rightarrow> int option \<Rightarrow> DraftMessageIdentity option jresult" where
  "decode_appended validity uid =
     (case (validity, uid) of
        (None, None) \<Rightarrow> Inr None
      | (Some v, Some u) \<Rightarrow>
          and_then (u32_try_from v) (\<lambda>v. and_then (u32_try_from u) (\<lambda>u.
            if v = 0 \<or> u = 0 then Inl JInvalidDatabase
            else Inr (Some \<lparr>dm_uid_validity = v, dm_uid = u\<rparr>)))
      | _ \<Rightarrow> Inl JInvalidDatabase)"

definition decode_state :: "string \<Rightarrow> DraftMessageIdentity option \<Rightarrow> DraftOperationState jresult" where
  "decode_state name appended =
     (if name = ''prepared'' \<and> appended = None then Inr OpPrepared
      else if name = ''in_flight'' \<and> appended = None then Inr OpInFlight
      else if name = ''created'' then Inr (OpCreated appended)
      else if name = ''duplicate'' then
        (case appended of None \<Rightarrow> Inl JInvalidDatabase | Some m \<Rightarrow> Inr (OpDuplicate m))
      else if name = ''rejected'' \<and> appended = None then Inr OpRejected
      else if name = ''outcome_unknown'' \<and> appended = None then Inr OpOutcomeUnknown
      else Inl JInvalidDatabase)"

definition decode_reconstruction :: "journal_host \<Rightarrow> string option \<Rightarrow> DraftReconstruction option jresult" where
  "decode_reconstruction h s =
     (case s of None \<Rightarrow> Inr None
      | Some s \<Rightarrow> (case recon_parse h s of None \<Rightarrow> Inl JInvalidDatabase | Some r \<Rightarrow> Inr (Some r)))"

definition decode_row :: "journal_host \<Rightarrow> DatabaseRow \<Rightarrow> PersistedDraftOperation jresult" where
  "decode_row h r =
     and_then (ensure (0 \<le> row_account_generation r) JInvalidDatabase) (\<lambda>_.
     and_then (decode_appended (row_appended_uid_validity r) (row_appended_uid r)) (\<lambda>appended.
     and_then (ensure (row_mailbox_identity r \<noteq> [] \<and> chars_count (row_mailbox_identity r) \<le> 4096) JInvalidDatabase) (\<lambda>_.
     and_then (decode_state (row_state r) appended) (\<lambda>state.
     and_then (decode_reconstruction h (row_reconstruction r)) (\<lambda>reconstruction.
       Inr \<lparr>per_operation = \<lparr>op_identity = \<lparr>account_id = row_account_id r,
                account_generation = word_of_int (row_account_generation r), operation_id = row_operation_id r\<rparr>,
              op_mailbox_identity = row_mailbox_identity r, op_content_sha256 = row_content_sha256 r,
              op_reconstruction = reconstruction\<rparr>, per_state = state\<rparr>)))))"

definition sqlite_generation :: "u64 \<Rightarrow> int jresult" where
  "sqlite_generation g = (if unat g \<le> i64_max then Inr (uint g) else Inl JInvalidDatabase)"

definition read_by_identity ::
  "journal_host \<Rightarrow> sqlite_io \<Rightarrow> journal \<Rightarrow> DraftIdentity \<Rightarrow> PersistedDraftOperation option jresult" where
  "read_by_identity h io db i =
     and_then (sqlite_generation (account_generation i)) (\<lambda>_.
     and_then (io_check (io_read io)) (\<lambda>_.
       case find (\<lambda>r. row_key r = identity_key i) db of None \<Rightarrow> Inr None
       | Some r \<Rightarrow> map_sum id Some (decode_row h r)))"

definition inspect :: "journal_host \<Rightarrow> sqlite_io \<Rightarrow> journal \<Rightarrow> DraftIdentity \<Rightarrow> PersistedDraftOperation option jresult" where
  "inspect h io db i = read_by_identity h io db i"

definition validate_operation :: "PreparedDraftOperation \<Rightarrow> unit jresult" where
  "validate_operation op =
     ensure (op_mailbox_identity op \<noteq> [] \<and> chars_count (op_mailbox_identity op) \<le> 4096) JInvalidOperation"

definition check_capacity :: "sqlite_io \<Rightarrow> journal \<Rightarrow> nat \<Rightarrow> unit jresult" where
  "check_capacity io db maximum =
     and_then (io_check (io_count io)) (\<lambda>_. ensure (length db < maximum) JFull)"

section \<open>Verification of retained rows\<close>

definition verify_row :: "journal_host \<Rightarrow> DatabaseRow \<Rightarrow> unit jresult" where
  "verify_row h r =
     and_then (decode_row h r) (\<lambda>p.
       let op = per_operation p in
       and_then (case op_reconstruction op of None \<Rightarrow> Inr ()
         | Some frozen \<Rightarrow>
             if \<not> encoder_is_valid frozen then Inl JInvalidOperation
             else and_then (recon_fingerprint h frozen (op_identity op) (op_mailbox_identity op)) (\<lambda>f.
               ensure (f = rec_facts_sha256 frozen) JInvalidOperation)) (\<lambda>_.
       if per_state p = OpPrepared
       then (case op_reconstruction op of None \<Rightarrow> Inl JInvalidOperation
             | Some frozen \<Rightarrow>
                 ensure (rec_uid_validity frozen \<noteq> 0 \<and> rec_selected_from_sha256 frozen \<noteq> None) JInvalidOperation)
       else Inr ()))"

text \<open>\<open>expired n\<close>: the deadline has passed when row \<open>n\<close> is about to be read.\<close>

fun verify_rows :: "journal_host \<Rightarrow> (nat \<Rightarrow> bool) \<Rightarrow> nat \<Rightarrow> nat \<Rightarrow> journal \<Rightarrow> unit jresult" where
  "verify_rows h expired maximum seen [] = (if expired seen then Inl JUnavailable else Inr ())"
| "verify_rows h expired maximum seen (r # rs) =
     (if expired seen then Inl JUnavailable
      else if seen + 1 > maximum then Inl JUnavailable
      else and_then (verify_row h r) (\<lambda>_. verify_rows h expired maximum (seen + 1) rs))"

definition verify_for_dispatch ::
  "journal_host \<Rightarrow> sqlite_io \<Rightarrow> (nat \<Rightarrow> bool) \<Rightarrow> nat \<Rightarrow> journal \<Rightarrow> unit jresult" where
  "verify_for_dispatch h io expired maximum db =
     and_then (io_check (io_read io)) (\<lambda>_. verify_rows h expired maximum 0 db)"

section \<open>Writing\<close>

text \<open>Each operation is the body of one transaction followed by its commit.\<close>

definition insert_row :: "journal_host \<Rightarrow> PreparedDraftOperation \<Rightarrow> int \<Rightarrow> DatabaseRow" where
  "insert_row h op generation =
     \<lparr>row_operation_id = operation_id (op_identity op), row_account_id = account_id (op_identity op),
      row_account_generation = generation, row_mailbox_identity = op_mailbox_identity op,
      row_content_sha256 = op_content_sha256 op,
      row_reconstruction = map_option (recon_json h) (op_reconstruction op),
      row_state = ''prepared'', row_appended_uid_validity = None, row_appended_uid = None\<rparr>"

definition prepare_body ::
  "journal_host \<Rightarrow> sqlite_io \<Rightarrow> PreparedDraftOperation \<Rightarrow> nat \<Rightarrow> journal \<Rightarrow> (journal \<times> PersistedDraftOperation) jresult" where
  "prepare_body h io op maximum db =
       and_then (validate_operation op) (\<lambda>_.
        and_then (sqlite_generation (account_generation (op_identity op))) (\<lambda>generation.
        and_then (io_check (io_begin io)) (\<lambda>_.
        and_then (read_by_identity h io db (op_identity op)) (\<lambda>prior.
          case prior of
            Some persisted \<Rightarrow>
              if per_operation persisted \<noteq> op then Inl JOperationConflict else Inr (db, persisted)
          | None \<Rightarrow>
              and_then (check_capacity io db maximum) (\<lambda>_.
              and_then (io_check (io_execute io)) (\<lambda>_.
              and_then (map_err unavailable (sql_insert (insert_row h op generation) db)) (\<lambda>db'.
                Inr (db', \<lparr>per_operation = op, per_state = OpPrepared\<rparr>))))))))"

definition prepare_with_limit ::
  "journal_host \<Rightarrow> sqlite_io \<Rightarrow> PreparedDraftOperation \<Rightarrow> nat \<Rightarrow> journal \<Rightarrow> PersistedDraftOperation jresult \<times> journal" where
  "prepare_with_limit h io op maximum db = commit io db (prepare_body h io op maximum db)"

definition journal_prepare where
  "journal_prepare h io op db = prepare_with_limit h io op 1000000 db"

text \<open>\<open>UPDATE ... WHERE\<close> the primary key \<open>AND state = expected\<close>, requiring exactly one change.\<close>

definition update_state ::
  "sqlite_io \<Rightarrow> DraftIdentity \<Rightarrow> string \<Rightarrow> (DatabaseRow \<Rightarrow> DatabaseRow) \<Rightarrow> DraftJournalError \<Rightarrow> journal \<Rightarrow> journal jresult" where
  "update_state io i expected f otherwise db =
     and_then (io_check (io_execute io)) (\<lambda>_.
     and_then (map_err unavailable
         (sql_update (\<lambda>r. row_key r = identity_key i \<and> row_state r = expected) f db)) (\<lambda>(changed, db').
       and_then (ensure (changed = 1) otherwise) (\<lambda>_. Inr db')))"

definition reencode_body ::
  "journal_host \<Rightarrow> sqlite_io \<Rightarrow> PreparedDraftOperation \<Rightarrow> sha256 \<Rightarrow> journal \<Rightarrow> (journal \<times> PersistedDraftOperation) jresult" where
  "reencode_body h io expected content db =
       and_then (ok_or JInvalidOperation (op_reconstruction expected)) (\<lambda>frozen.
        and_then (if \<not> encoder_is_valid frozen \<or> rec_encoder frozen = ENCODER \<or> rec_uid_validity frozen = 0
                    \<or> rec_selected_from_sha256 frozen = None then Inl JInvalidOperation
                  else and_then (recon_fingerprint h frozen (op_identity expected) (op_mailbox_identity expected)) (\<lambda>f.
                    ensure (rec_facts_sha256 frozen = f) JInvalidOperation)) (\<lambda>_.
        and_then (io_check (io_begin io)) (\<lambda>_.
        and_then (read_by_identity h io db (op_identity expected)) (\<lambda>prior.
        and_then (ok_or JOperationNotPrepared prior) (\<lambda>prior.
          if per_operation prior \<noteq> expected then Inl JOperationConflict
          else if per_state prior \<noteq> OpPrepared then Inl (JNotDispatchable (per_state prior))
          else let frozen = frozen\<lparr>rec_encoder := ENCODER\<rparr>;
                   op = (per_operation prior)\<lparr>op_content_sha256 := content, op_reconstruction := Some frozen\<rparr>
               in and_then (sqlite_generation (account_generation (op_identity op))) (\<lambda>_.
                  and_then (update_state io (op_identity op) ''prepared''
                      (\<lambda>r. r\<lparr>row_content_sha256 := content, row_reconstruction := Some (recon_json h frozen)\<rparr>)
                      JOperationConflict db) (\<lambda>db'.
                    Inr (db', \<lparr>per_operation = op, per_state = OpPrepared\<rparr>))))))))"

definition reencode_prepared ::
  "journal_host \<Rightarrow> sqlite_io \<Rightarrow> PreparedDraftOperation \<Rightarrow> sha256 \<Rightarrow> journal \<Rightarrow> PersistedDraftOperation jresult \<times> journal" where
  "reencode_prepared h io expected content db = commit io db (reencode_body h io expected content db)"

definition dispatch_body ::
  "journal_host \<Rightarrow> sqlite_io \<Rightarrow> PreparedDraftOperation \<Rightarrow> journal \<Rightarrow> (journal \<times> PersistedDraftOperation) jresult" where
  "dispatch_body h io op db =
       and_then (validate_operation op) (\<lambda>_.
        and_then (sqlite_generation (account_generation (op_identity op))) (\<lambda>_.
        and_then (io_check (io_begin io)) (\<lambda>_.
        and_then (read_by_identity h io db (op_identity op)) (\<lambda>persisted.
        and_then (ok_or JOperationNotPrepared persisted) (\<lambda>persisted.
          if per_operation persisted \<noteq> op then Inl JOperationConflict
          else if per_state persisted \<noteq> OpPrepared then Inl (JNotDispatchable (per_state persisted))
          else and_then (update_state io (op_identity op) ''prepared'' (\<lambda>r. r\<lparr>row_state := ''in_flight''\<rparr>)
                   (JNotDispatchable OpInFlight) db) (\<lambda>db'.
                 Inr (db', \<lparr>per_operation = per_operation persisted, per_state = OpInFlight\<rparr>)))))))"

definition begin_dispatch ::
  "journal_host \<Rightarrow> sqlite_io \<Rightarrow> PreparedDraftOperation \<Rightarrow> journal \<Rightarrow> PersistedDraftOperation jresult \<times> journal" where
  "begin_dispatch h io op db = commit io db (dispatch_body h io op db)"

fun outcome_columns :: "DraftOperationState \<Rightarrow> (string \<times> DraftMessageIdentity option) jresult" where
  "outcome_columns (OpCreated m) = Inr (''created'', m)"
| "outcome_columns (OpDuplicate m) = Inr (''duplicate'', Some m)"
| "outcome_columns OpRejected = Inr (''rejected'', None)"
| "outcome_columns OpOutcomeUnknown = Inr (''outcome_unknown'', None)"
| "outcome_columns OpPrepared = Inl JInvalidOperation"
| "outcome_columns OpInFlight = Inl JInvalidOperation"

fun outcome_expects :: "DraftOperationState \<Rightarrow> DraftOperationState \<times> string" where
  "outcome_expects (OpDuplicate _) = (OpOutcomeUnknown, ''outcome_unknown'')"
| "outcome_expects _ = (OpInFlight, ''in_flight'')"

definition outcome_body ::
  "journal_host \<Rightarrow> sqlite_io \<Rightarrow> DraftIdentity \<Rightarrow> DraftOperationState \<Rightarrow> journal \<Rightarrow> (journal \<times> PersistedDraftOperation) jresult" where
  "outcome_body h io i outcome db =
       and_then (outcome_columns outcome) (\<lambda>(state, appended).
        and_then (ensure (\<not> is_some_and appended (\<lambda>m. dm_uid m = 0 \<or> dm_uid_validity m = 0)) JInvalidOperation) (\<lambda>_.
        and_then (sqlite_generation (account_generation i)) (\<lambda>_.
        and_then (io_check (io_begin io)) (\<lambda>_.
        and_then (read_by_identity h io db i) (\<lambda>persisted.
        and_then (ok_or JOperationNotPrepared persisted) (\<lambda>persisted.
          if per_state persisted \<noteq> fst (outcome_expects outcome) then Inl (JNotDispatchable (per_state persisted))
          else and_then (update_state io i (snd (outcome_expects outcome))
                   (\<lambda>r. r\<lparr>row_state := state,
                      row_appended_uid_validity := map_option (\<lambda>m. uint (dm_uid_validity m)) appended,
                      row_appended_uid := map_option (\<lambda>m. uint (dm_uid m)) appended\<rparr>)
                   (JNotDispatchable OpInFlight) db) (\<lambda>db'.
                 Inr (db', \<lparr>per_operation = per_operation persisted, per_state = outcome\<rparr>))))))))"

definition record_outcome ::
  "journal_host \<Rightarrow> sqlite_io \<Rightarrow> DraftIdentity \<Rightarrow> DraftOperationState \<Rightarrow> journal \<Rightarrow> PersistedDraftOperation jresult \<times> journal" where
  "record_outcome h io i outcome db = commit io db (outcome_body h io i outcome db)"

definition record_created where
  "record_created h io i appended db = record_outcome h io i (OpCreated appended) db"

definition record_rejected where
  "record_rejected h io i db = record_outcome h io i OpRejected db"

definition record_duplicate where
  "record_duplicate h io i m db = record_outcome h io i (OpDuplicate m) db"

definition record_outcome_unknown where
  "record_outcome_unknown h io i db = record_outcome h io i OpOutcomeUnknown db"

section \<open>Rows change only forward\<close>

definition keys_ok :: "journal \<Rightarrow> bool" where
  "keys_ok db \<longleftrightarrow> distinct (map row_key db)"

text \<open>The operation has a row that has left the state \<open>prepared\<close>.\<close>

definition dispatched :: "journal \<Rightarrow> DraftIdentity \<Rightarrow> bool" where
  "dispatched db i \<longleftrightarrow> (\<exists>r \<in> set db. row_key r = identity_key i \<and> row_state r \<noteq> ''prepared'')"

text \<open>A write either changes nothing, appends a new prepared row, or updates the one matching row.\<close>

definition row_advance :: "DatabaseRow \<Rightarrow> DatabaseRow \<Rightarrow> bool" where
  "row_advance r r' \<longleftrightarrow> row_key r' = row_key r \<and> row_mailbox_identity r' = row_mailbox_identity r
     \<and> (row_state r \<noteq> ''prepared'' \<longrightarrow> row_state r' \<noteq> ''prepared''
        \<and> row_content_sha256 r' = row_content_sha256 r \<and> row_reconstruction r' = row_reconstruction r)"

definition journal_advance :: "journal \<Rightarrow> journal \<Rightarrow> bool" where
  "journal_advance db db' \<longleftrightarrow>
     (\<exists>rs. list_all2 row_advance db rs
        \<and> (db' = rs \<or> (\<exists>new. row_state new = ''prepared'' \<and> row_key new \<notin> row_key ` set db \<and> db' = rs @ [new])))"

lemma row_advance_refl [simp]: "row_advance r r"
  by (simp add: row_advance_def)

lemma journal_advance_refl [simp]: "journal_advance db db"
  by (auto simp: journal_advance_def list_all2_same intro!: exI [of _ db])

lemma advance_keys: "list_all2 row_advance db rs \<Longrightarrow> map row_key rs = map row_key db"
  by (induction rule: list_all2_induct) (auto simp: row_advance_def)

lemma journal_advance_keys:
  "journal_advance db db' \<Longrightarrow> keys_ok db \<Longrightarrow> keys_ok db'"
  unfolding journal_advance_def keys_ok_def
  using advance_keys by (force simp flip: set_map)

lemma journal_advance_dispatched:
  assumes "journal_advance db db'" and "dispatched db i"
  shows "dispatched db' i"
proof -
  obtain rs where rs: "list_all2 row_advance db rs" "set rs \<subseteq> set db'"
    using assms(1) unfolding journal_advance_def by (metis Un_upper1 order_refl set_append)
  have "\<exists>r \<in> set rs. row_key r = identity_key i \<and> row_state r \<noteq> ''prepared''"
    using rs(1) assms(2) unfolding dispatched_def
    by (induction rule: list_all2_induct) (auto simp: row_advance_def)
  with rs(2) show ?thesis by (auto simp: dispatched_def)
qed

lemma commit_cases:
  assumes "commit io db r = (res, db')"
  obtains (unchanged) e where "db' = db" "res = Inl e"
    | (written) v where "r = Inr (db', v)" "\<And>p. res = Inr p \<Longrightarrow> p = v"
  using assms by (auto simp: commit_def split: sum.splits prod.splits commit_fault.splits)

lemma update_state_Inr:
  assumes "update_state io i expected f e db = Inr db'"
  shows "db' = map (\<lambda>r. if row_key r = identity_key i \<and> row_state r = expected then f r else r) db"
    and "\<exists>r \<in> set db. row_key r = identity_key i \<and> row_state r = expected"
proof -
  let ?P = "\<lambda>r. row_key r = identity_key i \<and> row_state r = expected"
  from assms show "db' = map (\<lambda>r. if ?P r then f r else r) db"
    by (auto simp: update_state_def sql_update_def split: if_splits sum.splits prod.splits)
  from assms have "length (filter ?P db) = 1"
    by (auto simp: update_state_def sql_update_def split: if_splits sum.splits prod.splits)
  then have "filter ?P db \<noteq> []" by auto
  then show "\<exists>r \<in> set db. ?P r" by (auto simp: filter_empty_conv)
qed

lemma update_state_advance:
  assumes "update_state io i expected f e db = Inr db'" and "\<And>r. row_state r = expected \<Longrightarrow> row_advance r (f r)"
  shows "journal_advance db db'"
proof -
  have "list_all2 row_advance db db'"
    using assms(2) by (simp add: update_state_Inr(1) [OF assms(1)] list.rel_map list_all2_same)
  then show ?thesis by (auto simp: journal_advance_def)
qed

lemma insert_row_key: "sqlite_generation (account_generation (op_identity op)) = Inr g \<Longrightarrow>
    row_key (insert_row h op g) = identity_key (op_identity op)"
  by (auto simp: sqlite_generation_def insert_row_def row_key_def identity_key_def split: if_splits)

lemma prepare_body_Inr:
  assumes "prepare_body h io op maximum db = Inr (db', p)"
  shows "(db' = db \<and> read_by_identity h io db (op_identity op) = Inr (Some p) \<and> per_operation p = op) \<or>
    (read_by_identity h io db (op_identity op) = Inr None \<and> length db < maximum
     \<and> p = \<lparr>per_operation = op, per_state = OpPrepared\<rparr>
     \<and> (\<exists>g. sqlite_generation (account_generation (op_identity op)) = Inr g
          \<and> row_checks (insert_row h op g) \<and> identity_key (op_identity op) \<notin> row_key ` set db
          \<and> db' = db @ [insert_row h op g]))"
proof -
  from assms obtain g prior where g: "sqlite_generation (account_generation (op_identity op)) = Inr g"
    and r: "read_by_identity h io db (op_identity op) = Inr prior"
    and rest: "(case prior of
            Some persisted \<Rightarrow>
              if per_operation persisted \<noteq> op then Inl JOperationConflict else Inr (db, persisted)
          | None \<Rightarrow>
              and_then (check_capacity io db maximum) (\<lambda>_.
              and_then (io_check (io_execute io)) (\<lambda>_.
              and_then (map_err unavailable (sql_insert (insert_row h op g) db)) (\<lambda>db'.
                Inr (db', \<lparr>per_operation = op, per_state = OpPrepared\<rparr>))))) = Inr (db', p)"
    by (auto simp: prepare_body_def)
  show ?thesis
  proof (cases prior)
    case None
    with rest have "length db < maximum" "p = \<lparr>per_operation = op, per_state = OpPrepared\<rparr>"
      "sql_insert (insert_row h op g) db = Inr db'"
      by (auto simp: check_capacity_def)
    with None g r insert_row_key [OF g, of h] show ?thesis
      by (auto simp: sql_insert_def split: if_splits)
  next
    case (Some q)
    with rest r show ?thesis by (auto split: if_splits)
  qed
qed

lemma reencode_body_Inr:
  assumes "reencode_body h io op content db = Inr (db', p)"
  obtains frozen q where "op_reconstruction op = Some frozen"
    "read_by_identity h io db (op_identity op) = Inr (Some q)" "per_operation q = op" "per_state q = OpPrepared"
    "p = \<lparr>per_operation = op\<lparr>op_content_sha256 := content,
        op_reconstruction := Some (frozen\<lparr>rec_encoder := ENCODER\<rparr>)\<rparr>, per_state = OpPrepared\<rparr>"
    "update_state io (op_identity op) ''prepared'' (\<lambda>r. r\<lparr>row_content_sha256 := content,
        row_reconstruction := Some (recon_json h (frozen\<lparr>rec_encoder := ENCODER\<rparr>))\<rparr>) JOperationConflict db = Inr db'"
  using assms by (auto simp: reencode_body_def ok_or_def Let_def split: option.splits if_splits)

lemma dispatch_body_Inr:
  assumes "dispatch_body h io op db = Inr (db', p)"
  shows "read_by_identity h io db (op_identity op) = Inr (Some \<lparr>per_operation = op, per_state = OpPrepared\<rparr>)"
    "p = \<lparr>per_operation = op, per_state = OpInFlight\<rparr>"
    "update_state io (op_identity op) ''prepared'' (\<lambda>r. r\<lparr>row_state := ''in_flight''\<rparr>)
       (JNotDispatchable OpInFlight) db = Inr db'"
  using assms by (auto simp: dispatch_body_def ok_or_def split: option.splits if_splits)

lemma outcome_body_Inr:
  assumes "outcome_body h io i outcome db = Inr (db', p)"
  obtains state appended q where "outcome_columns outcome = Inr (state, appended)"
    "\<forall>m. appended = Some m \<longrightarrow> dm_uid m \<noteq> 0 \<and> dm_uid_validity m \<noteq> 0"
    "read_by_identity h io db i = Inr (Some q)" "per_state q = fst (outcome_expects outcome)"
    "p = q\<lparr>per_state := outcome\<rparr>"
    "update_state io i (snd (outcome_expects outcome))
       (\<lambda>r. r\<lparr>row_state := state,
          row_appended_uid_validity := map_option (\<lambda>m. uint (dm_uid_validity m)) appended,
          row_appended_uid := map_option (\<lambda>m. uint (dm_uid m)) appended\<rparr>) (JNotDispatchable OpInFlight) db = Inr db'"
  using assms by (auto simp: outcome_body_def ok_or_def is_some_and_iff split: option.splits if_splits)

text \<open>The write operations, as one interface.\<close>

datatype journal_request =
    Prepare PreparedDraftOperation nat | Reencode PreparedDraftOperation sha256
  | BeginDispatch PreparedDraftOperation | RecordOutcome DraftIdentity DraftOperationState

fun journal_body ::
  "journal_host \<Rightarrow> sqlite_io \<Rightarrow> journal_request \<Rightarrow> journal \<Rightarrow> (journal \<times> PersistedDraftOperation) jresult" where
  "journal_body h io (Prepare op maximum) db = prepare_body h io op maximum db"
| "journal_body h io (Reencode op content) db = reencode_body h io op content db"
| "journal_body h io (BeginDispatch op) db = dispatch_body h io op db"
| "journal_body h io (RecordOutcome i outcome) db = outcome_body h io i outcome db"

fun journal_call ::
  "journal_host \<Rightarrow> sqlite_io \<Rightarrow> journal_request \<Rightarrow> journal \<Rightarrow> PersistedDraftOperation jresult \<times> journal" where
  "journal_call h io (Prepare op maximum) db = prepare_with_limit h io op maximum db"
| "journal_call h io (Reencode op content) db = reencode_prepared h io op content db"
| "journal_call h io (BeginDispatch op) db = begin_dispatch h io op db"
| "journal_call h io (RecordOutcome i outcome) db = record_outcome h io i outcome db"

lemma journal_call_body: "journal_call h io req db = commit io db (journal_body h io req db)"
  by (cases req) (simp_all add: prepare_with_limit_def reencode_prepared_def begin_dispatch_def record_outcome_def)

lemma outcome_columns_state: "outcome_columns outcome = Inr (state, appended) \<Longrightarrow> state \<noteq> ''prepared''"
  by (cases outcome) auto

lemma journal_body_advance:
  assumes "journal_body h io req db = Inr (db', p)"
  shows "journal_advance db db'"
proof (cases req)
  case (Prepare op maximum)
  then consider "db' = db" | g where "identity_key (op_identity op) \<notin> row_key ` set db"
      "sqlite_generation (account_generation (op_identity op)) = Inr g" "db' = db @ [insert_row h op g]"
    using prepare_body_Inr [of h io op maximum db db' p] assms by auto
  then show ?thesis
  proof cases
    case 2
    moreover have "row_state (insert_row h op g) = ''prepared''" by (simp add: insert_row_def)
    moreover have "list_all2 row_advance db db" by (simp add: list_all2_same)
    ultimately show ?thesis
      unfolding journal_advance_def using insert_row_key [OF 2(2), of h] by metis
  qed simp
next
  case (Reencode op content)
  with assms have "reencode_body h io op content db = Inr (db', p)" by simp
  then show ?thesis
    by (rule reencode_body_Inr) (erule update_state_advance, simp add: row_advance_def row_key_def)
next
  case (BeginDispatch op)
  with assms have "dispatch_body h io op db = Inr (db', p)" by simp
  then show ?thesis
    by (intro update_state_advance [OF dispatch_body_Inr(3)]) (simp_all add: row_advance_def row_key_def)
next
  case (RecordOutcome i outcome)
  with assms have "outcome_body h io i outcome db = Inr (db', p)" by simp
  then show ?thesis
    by (rule outcome_body_Inr)
      (erule update_state_advance, simp add: row_advance_def row_key_def outcome_columns_state)
qed

lemma journal_call_advance:
  "journal_call h io req db = (res, db') \<Longrightarrow> journal_advance db db'"
  unfolding journal_call_body by (erule commit_cases) (auto intro: journal_body_advance)

section \<open>The decoded journal\<close>

definition journal_view :: "journal_host \<Rightarrow> journal \<Rightarrow> DraftIdentity \<Rightarrow> PersistedDraftOperation option" where
  "journal_view h db i =
     (case find (\<lambda>r. row_key r = identity_key i) db of None \<Rightarrow> None
      | Some r \<Rightarrow> (case decode_row h r of Inl _ \<Rightarrow> None | Inr p \<Rightarrow> Some p))"

lemma identity_key_inj [simp]: "identity_key i = identity_key j \<longleftrightarrow> i = j"
proof -
  have "i = j" if "account_id i = account_id j" "account_generation i = account_generation j"
    "operation_id i = operation_id j"
    using that by (cases i; cases j) simp
  then show ?thesis
    by (auto simp: identity_key_def word_uint_eq_iff)
qed

lemma read_by_identity_Some:
  assumes "read_by_identity h io db i = Inr (Some p)"
  obtains r where "find (\<lambda>r. row_key r = identity_key i) db = Some r" "decode_row h r = Inr p"
    "r \<in> set db" "row_key r = identity_key i" "journal_view h db i = Some p"
proof -
  from assms obtain r where r: "find (\<lambda>r. row_key r = identity_key i) db = Some r" "decode_row h r = Inr p"
    by (auto simp: read_by_identity_def map_sum_def split: option.splits sum.splits)
  with that [of r] show thesis
    by (auto simp: find_Some_iff journal_view_def)
qed

lemma read_by_identity_None:
  "read_by_identity h io db i = Inr None \<Longrightarrow> journal_view h db i = None"
  by (auto simp: read_by_identity_def journal_view_def map_sum_def split: option.splits sum.splits)

lemma find_distinct_key:
  "keys_ok db \<Longrightarrow> r \<in> set db \<Longrightarrow> row_key r = k \<Longrightarrow> find (\<lambda>r. row_key r = k) db = Some r"
  unfolding keys_ok_def by (induction db) (auto split: if_splits)

lemma decode_row_state:
  assumes "decode_row h r = Inr p"
  obtains appended where "decode_appended (row_appended_uid_validity r) (row_appended_uid r) = Inr appended"
    "decode_state (row_state r) appended = Inr (per_state p)"
  using assms by (auto simp: decode_row_def)

lemma decode_state_prepared: "decode_state name m = Inr OpPrepared \<longleftrightarrow> name = ''prepared'' \<and> m = None"
  by (auto simp: decode_state_def split: option.splits if_splits)

lemma decode_state_in_flight: "decode_state name m = Inr OpInFlight \<longleftrightarrow> name = ''in_flight'' \<and> m = None"
  by (auto simp: decode_state_def split: option.splits if_splits)

lemma decode_state_unknown: "decode_state name m = Inr OpOutcomeUnknown \<longleftrightarrow> name = ''outcome_unknown'' \<and> m = None"
  by (auto simp: decode_state_def split: option.splits if_splits)

lemma decode_state_expected:
  assumes "decode_state name m = Inr (fst (outcome_expects outcome))"
  shows "name = snd (outcome_expects outcome)" "m = None"
  using assms by (cases outcome; auto simp: decode_state_in_flight decode_state_unknown)+

section \<open>At most one dispatch\<close>

text \<open>
  What makes an action happen at most once per identity: an event clears an identity only while
  it is unmarked and leaves it marked, and no event removes a mark. A marked identity is then
  never cleared again, whatever else happens in between.
\<close>

fun cleared :: "('e \<Rightarrow> 's \<Rightarrow> 'i option \<times> 's) \<Rightarrow> 'e list \<Rightarrow> 's \<Rightarrow> 'i list" where
  "cleared act [] s = []"
| "cleared act (e # es) s =
     (case act e s of (c, s') \<Rightarrow> (case c of None \<Rightarrow> [] | Some i \<Rightarrow> [i]) @ cleared act es s')"

locale clears_once =
  fixes act :: "'e \<Rightarrow> 's \<Rightarrow> 'i option \<times> 's" and ok :: "'s \<Rightarrow> bool" and marked :: "'s \<Rightarrow> 'i \<Rightarrow> bool"
  assumes ok_act: "act e s = (c, s') \<Longrightarrow> ok s \<Longrightarrow> ok s'"
    and marked_act: "act e s = (c, s') \<Longrightarrow> ok s \<Longrightarrow> marked s i \<Longrightarrow> marked s' i"
    and clears: "act e s = (Some i, s') \<Longrightarrow> ok s \<Longrightarrow> \<not> marked s i \<and> marked s' i"
begin

lemma marked_not_cleared: "ok s \<Longrightarrow> marked s i \<Longrightarrow> i \<notin> set (cleared act es s)"
proof (induction es arbitrary: s)
  case (Cons e es)
  obtain c s' where e: "act e s = (c, s')" by (cases "act e s")
  then show ?case
    using Cons ok_act [OF e] marked_act [OF e] clears by (fastforce split: option.splits)
qed simp

lemma cleared_distinct: "ok s \<Longrightarrow> distinct (cleared act es s)"
proof (induction es arbitrary: s)
  case (Cons e es)
  obtain c s' where e: "act e s = (c, s')" by (cases "act e s")
  then show ?case
    using Cons ok_act [OF e] clears [of e s _ s'] marked_not_cleared [of s' _ es]
    by (auto split: option.splits)
qed simp

end

text \<open>One call of the journal: which operation, if any, it cleared for dispatch.\<close>

definition journal_act :: "journal_host \<Rightarrow> sqlite_io \<times> journal_request \<Rightarrow> journal \<Rightarrow> DraftIdentity option \<times> journal" where
  "journal_act h e db =
     (case journal_call h (fst e) (snd e) db of (res, db') \<Rightarrow>
        (case (snd e, res) of (BeginDispatch op, Inr _) \<Rightarrow> Some (op_identity op) | _ \<Rightarrow> None, db'))"

lemma begin_dispatch_marks:
  assumes "keys_ok db" and "begin_dispatch h io op db = (Inr p, db')"
  shows "\<not> dispatched db (op_identity op)" "dispatched db' (op_identity op)"
    "p = \<lparr>per_operation = op, per_state = OpInFlight\<rparr>"
proof -
  have body: "dispatch_body h io op db = Inr (db', p)"
    using assms(2) by (auto simp: begin_dispatch_def commit_def split: sum.splits prod.splits commit_fault.splits)
  note d = dispatch_body_Inr [OF body]
  obtain r where r: "find (\<lambda>r. row_key r = identity_key (op_identity op)) db = Some r"
    "decode_row h r = Inr \<lparr>per_operation = op, per_state = OpPrepared\<rparr>"
    using d(1) by (rule read_by_identity_Some)
  have "row_state r = ''prepared''"
    using r(2) by (rule decode_row_state) (simp add: decode_state_prepared)
  moreover have "r' = r" if "r' \<in> set db" "row_key r' = identity_key (op_identity op)" for r'
    using find_distinct_key [OF assms(1) that] r(1) by simp
  ultimately show "\<not> dispatched db (op_identity op)"
    by (auto simp: dispatched_def)
  obtain v where v: "v \<in> set db" "row_key v = identity_key (op_identity op)" "row_state v = ''prepared''"
    using update_state_Inr(2) [OF d(3)] by blast
  have "v\<lparr>row_state := ''in_flight''\<rparr> \<in> set db'"
    unfolding update_state_Inr(1) [OF d(3)] using v by (auto intro!: image_eqI [of _ _ v])
  moreover have "row_key (v\<lparr>row_state := ''in_flight''\<rparr>) = identity_key (op_identity op)"
    using v(2) by (simp add: row_key_def)
  ultimately show "dispatched db' (op_identity op)"
    unfolding dispatched_def by (intro bexI) auto
  show "p = \<lparr>per_operation = op, per_state = OpInFlight\<rparr>"
    by (rule d(2))
qed

lemma journal_act_advance: "journal_act h e db = (c, db') \<Longrightarrow> journal_advance db db'"
  by (auto simp: journal_act_def split: prod.splits intro: journal_call_advance)

interpretation journal_once: clears_once "journal_act h" keys_ok dispatched for h
proof
  fix e db c db' i
  assume act: "journal_act h e db = (c, db')" and ok: "keys_ok db"
  show "keys_ok db'"
    using journal_act_advance [OF act] ok by (rule journal_advance_keys)
  show "dispatched db i \<Longrightarrow> dispatched db' i"
    using journal_act_advance [OF act] by (rule journal_advance_dispatched)
next
  fix e db i db'
  assume act: "journal_act h e db = (Some i, db')" and ok: "keys_ok db"
  then obtain op p where "snd e = BeginDispatch op" "i = op_identity op" "begin_dispatch h (fst e) op db = (Inr p, db')"
    by (auto simp: journal_act_def split: prod.splits journal_request.splits sum.splits)
  with begin_dispatch_marks [OF ok] show "\<not> dispatched db i \<and> dispatched db' i" by blast
qed

text \<open>
  C1: the journal clears an operation for dispatch at most once. Over any database with its
  primary key intact, corrupt rows included, and for any sequence of journal calls with
  any storage faults at any of them (commits that fail after reaching the disk included), no
  identity is cleared by \<open>begin_dispatch\<close> twice, and none that had already been dispatched.
\<close>

theorem journal_dispatches_once:
  assumes "keys_ok db"
  shows "distinct (cleared (journal_act h) calls db)
    \<and> (\<forall>i. dispatched db i \<longrightarrow> i \<notin> set (cleared (journal_act h) calls db))"
  using journal_once.cleared_distinct [OF assms] journal_once.marked_not_cleared [OF assms] by blast

section \<open>Refinement of an abstract operation log\<close>

text \<open>
  The contract of the journal: a partial map from identities to operations with their states,
  in which each request moves one identity along the acknowledgement protocol.
\<close>

fun request_identity :: "journal_request \<Rightarrow> DraftIdentity" where
  "request_identity (Prepare op _) = op_identity op"
| "request_identity (Reencode op _) = op_identity op"
| "request_identity (BeginDispatch op) = op_identity op"
| "request_identity (RecordOutcome i _) = i"

fun spec_from_prepared :: "PersistedDraftOperation option \<Rightarrow> PreparedDraftOperation \<Rightarrow> PersistedDraftOperation \<Rightarrow> PersistedDraftOperation jresult" where
  "spec_from_prepared None op new = Inl JOperationNotPrepared"
| "spec_from_prepared (Some p) op new =
     (if per_operation p \<noteq> op then Inl JOperationConflict
      else if per_state p \<noteq> OpPrepared then Inl (JNotDispatchable (per_state p)) else Inr new)"

fun journal_spec :: "PersistedDraftOperation option \<Rightarrow> journal_request \<Rightarrow> PersistedDraftOperation jresult" where
  "journal_spec None (Prepare op _) = Inr \<lparr>per_operation = op, per_state = OpPrepared\<rparr>"
| "journal_spec (Some p) (Prepare op _) = (if per_operation p = op then Inr p else Inl JOperationConflict)"
| "journal_spec prior (Reencode op content) =
     spec_from_prepared prior op \<lparr>per_operation = op\<lparr>op_content_sha256 := content,
        op_reconstruction := map_option (\<lambda>r. r\<lparr>rec_encoder := ENCODER\<rparr>) (op_reconstruction op)\<rparr>, per_state = OpPrepared\<rparr>"
| "journal_spec prior (BeginDispatch op) =
     spec_from_prepared prior op \<lparr>per_operation = op, per_state = OpInFlight\<rparr>"
| "journal_spec None (RecordOutcome i outcome) = Inl JOperationNotPrepared"
| "journal_spec (Some p) (RecordOutcome i outcome) =
     (if per_state p \<noteq> fst (outcome_expects outcome) then Inl (JNotDispatchable (per_state p))
      else Inr (p\<lparr>per_state := outcome\<rparr>))"

text \<open>Reading back what was written as JSON; \<open>serde_json\<close> promises it.\<close>

definition recon_ok :: "journal_host \<Rightarrow> bool" where
  "recon_ok h \<longleftrightarrow> (\<forall>r. recon_parse h (recon_json h r) = Some r)"

lemma find_map_key:
  assumes "\<And>r. row_key (f r) = row_key r"
  shows "find (\<lambda>r. row_key r = k) (map f db) = map_option f (find (\<lambda>r. row_key r = k) db)"
  by (induction db) (auto simp: assms)

lemma view_update_state:
  assumes "update_state io i expected f e db = Inr db'"
    and r: "find (\<lambda>r. row_key r = identity_key i) db = Some r"
    and "row_state r = expected" and key: "\<And>r. row_key (f r) = row_key r" and "decode_row h (f r) = Inr p"
  shows "journal_view h db' = (journal_view h db)(i \<mapsto> p)"
proof
  fix j
  let ?g = "\<lambda>r. if row_key r = identity_key i \<and> row_state r = expected then f r else r"
  have found: "find (\<lambda>r. row_key r = identity_key j) db' = map_option ?g (find (\<lambda>r. row_key r = identity_key j) db)"
    unfolding update_state_Inr(1) [OF assms(1)] by (rule find_map_key) (simp add: key)
  have self: "row_key r = identity_key i"
    using r by (auto simp: find_Some_iff)
  show "journal_view h db' j = ((journal_view h db)(i \<mapsto> p)) j"
  proof (cases "j = i")
    case True
    then show ?thesis
      using found r self assms(3,5) by (simp add: journal_view_def)
  next
    case False
    have "row_key s = identity_key j" if "find (\<lambda>r. row_key r = identity_key j) db = Some s" for s
      using that by (auto simp: find_Some_iff)
    then show ?thesis
      using found False by (auto simp: journal_view_def split: option.splits)
  qed
qed

lemma decode_inserted:
  assumes "recon_ok h" and "validate_operation op = Inr ()"
    and "sqlite_generation (account_generation (op_identity op)) = Inr g"
  shows "decode_row h (insert_row h op g) = Inr \<lparr>per_operation = op, per_state = OpPrepared\<rparr>"
proof -
  have g: "g = uint (account_generation (op_identity op))"
    using assms(3) by (auto simp: sqlite_generation_def split: if_splits)
  have "decode_reconstruction h (map_option (recon_json h) (op_reconstruction op)) = Inr (op_reconstruction op)"
    using assms(1) by (auto simp: decode_reconstruction_def recon_ok_def split: option.splits)
  then show ?thesis
    using assms(2)
    by (cases op; cases "op_identity op")
      (auto simp: decode_row_def insert_row_def decode_appended_def decode_state_def ensure_def g
        validate_operation_def split: if_splits)
qed

lemma decode_dispatched:
  assumes "decode_row h r = Inr \<lparr>per_operation = op, per_state = OpPrepared\<rparr>"
  shows "row_state r = ''prepared''"
    and "decode_row h (r\<lparr>row_state := ''in_flight''\<rparr>) = Inr \<lparr>per_operation = op, per_state = OpInFlight\<rparr>"
  using assms by (auto simp: decode_row_def decode_state_prepared decode_state_in_flight)

lemma decode_reencoded:
  assumes "recon_ok h" and "decode_row h r = Inr q" and "per_state q = OpPrepared"
  shows "row_state r = ''prepared''"
    and "decode_row h (r\<lparr>row_content_sha256 := c, row_reconstruction := Some (recon_json h f)\<rparr>)
      = Inr (q\<lparr>per_operation := (per_operation q)\<lparr>op_content_sha256 := c, op_reconstruction := Some f\<rparr>\<rparr>)"
  using assms
  by (auto simp: decode_row_def decode_state_prepared decode_reconstruction_def recon_ok_def)

lemma u32_try_from_uint [simp]: "u32_try_from (uint x) = Inr x"
  using uint_lt2p [of x] by (simp add: u32_try_from_def)

lemma decode_appended_written:
  assumes "\<forall>m. appended = Some m \<longrightarrow> dm_uid m \<noteq> 0 \<and> dm_uid_validity m \<noteq> 0"
  shows "decode_appended (map_option (\<lambda>m. uint (dm_uid_validity m)) appended)
    (map_option (\<lambda>m. uint (dm_uid m)) appended) = Inr appended"
proof (cases appended)
  case None
  then show ?thesis by (simp add: decode_appended_def)
next
  case (Some m)
  with assms have "dm_uid m \<noteq> 0" "dm_uid_validity m \<noteq> 0" by blast+
  then show ?thesis
    by (simp add: Some decode_appended_def)
qed

lemma decode_state_outcome:
  "outcome_columns outcome = Inr (state, appended) \<Longrightarrow> decode_state state appended = Inr outcome"
  by (cases outcome) (auto simp: decode_state_def split: option.splits)

lemma decode_outcome:
  assumes "decode_row h r = Inr q" and "per_state q = fst (outcome_expects outcome)"
    and "outcome_columns outcome = Inr (state, appended)"
    and "\<forall>m. appended = Some m \<longrightarrow> dm_uid m \<noteq> 0 \<and> dm_uid_validity m \<noteq> 0"
  shows "row_state r = snd (outcome_expects outcome)"
    and "decode_row h (r\<lparr>row_state := state,
          row_appended_uid_validity := map_option (\<lambda>m. uint (dm_uid_validity m)) appended,
          row_appended_uid := map_option (\<lambda>m. uint (dm_uid m)) appended\<rparr>) = Inr (q\<lparr>per_state := outcome\<rparr>)"
proof -
  obtain m where "decode_state (row_state r) m = Inr (fst (outcome_expects outcome))"
    using assms(1,2) by (auto elim!: decode_row_state)
  then show "row_state r = snd (outcome_expects outcome)"
    by (rule decode_state_expected(1))
  show "decode_row h (r\<lparr>row_state := state,
          row_appended_uid_validity := map_option (\<lambda>m. uint (dm_uid_validity m)) appended,
          row_appended_uid := map_option (\<lambda>m. uint (dm_uid m)) appended\<rparr>) = Inr (q\<lparr>per_state := outcome\<rparr>)"
    using assms(1) decode_appended_written [OF assms(4)] decode_state_outcome [OF assms(3)]
    by (auto simp: decode_row_def)
qed

lemma view_insert:
  assumes "identity_key (op_identity op) \<notin> row_key ` set db"
    and "row_key r = identity_key (op_identity op)" and "decode_row h r = Inr p"
  shows "journal_view h (db @ [r]) = (journal_view h db)(op_identity op \<mapsto> p)"
proof
  fix j
  have fresh: "find (\<lambda>r. row_key r = identity_key (op_identity op)) db = None"
    using assms(1) unfolding find_None_iff by (metis image_eqI)
  have app: "find P (xs @ [x]) = (case find P xs of None \<Rightarrow> if P x then Some x else None | Some y \<Rightarrow> Some y)"
    for P :: "DatabaseRow \<Rightarrow> bool" and xs x
    by (induction xs) auto
  show "journal_view h (db @ [r]) j = ((journal_view h db)(op_identity op \<mapsto> p)) j"
    using fresh assms(2,3) by (auto simp: journal_view_def app split: option.splits)
qed

lemma journal_body_refines:
  assumes h: "recon_ok h" and body: "journal_body h io req db = Inr (db', p)"
  shows "journal_spec (journal_view h db (request_identity req)) req = Inr p
    \<and> journal_view h db' = (journal_view h db)(request_identity req \<mapsto> p)"
proof (cases req)
  case (Prepare op maximum)
  with body have b: "prepare_body h io op maximum db = Inr (db', p)" by simp
  then have valid: "validate_operation op = Inr ()" by (auto simp: prepare_body_def)
  from prepare_body_Inr [OF b] show ?thesis
  proof (elim disjE conjE exE)
    assume "read_by_identity h io db (op_identity op) = Inr (Some p)" "db' = db" "per_operation p = op"
    then show ?thesis
      using Prepare by (auto elim!: read_by_identity_Some)
  next
    fix g
    assume g: "sqlite_generation (account_generation (op_identity op)) = Inr g"
      and new: "identity_key (op_identity op) \<notin> row_key ` set db" "db' = db @ [insert_row h op g]"
      and none: "read_by_identity h io db (op_identity op) = Inr None"
      and p: "p = \<lparr>per_operation = op, per_state = OpPrepared\<rparr>"
    show ?thesis
      using Prepare p read_by_identity_None [OF none] new(2)
        view_insert [OF new(1) insert_row_key [OF g] decode_inserted [OF h valid g]]
      by simp
  qed
next
  case (Reencode op content)
  with body have "reencode_body h io op content db = Inr (db', p)" by simp
  then obtain frozen q where f: "op_reconstruction op = Some frozen"
    and q: "read_by_identity h io db (op_identity op) = Inr (Some q)" "per_operation q = op" "per_state q = OpPrepared"
    and p: "p = \<lparr>per_operation = op\<lparr>op_content_sha256 := content,
        op_reconstruction := Some (frozen\<lparr>rec_encoder := ENCODER\<rparr>)\<rparr>, per_state = OpPrepared\<rparr>"
    and u: "update_state io (op_identity op) ''prepared'' (\<lambda>r. r\<lparr>row_content_sha256 := content,
        row_reconstruction := Some (recon_json h (frozen\<lparr>rec_encoder := ENCODER\<rparr>))\<rparr>) JOperationConflict db = Inr db'"
    by (rule reencode_body_Inr)
  from q(1) obtain r where r: "find (\<lambda>r. row_key r = identity_key (op_identity op)) db = Some r"
    "decode_row h r = Inr q" "journal_view h db (op_identity op) = Some q"
    by (rule read_by_identity_Some)
  have "journal_view h db' = (journal_view h db)(op_identity op \<mapsto> p)"
    by (rule view_update_state [OF u r(1)])
      (use decode_reencoded [OF h r(2) q(3)] q p in \<open>simp_all add: row_key_def\<close>)
  then show ?thesis
    using Reencode r(3) q f p by simp
next
  case (BeginDispatch op)
  with body have b: "dispatch_body h io op db = Inr (db', p)" by simp
  note d = dispatch_body_Inr [OF b]
  from d(1) obtain r where r: "find (\<lambda>r. row_key r = identity_key (op_identity op)) db = Some r"
    "decode_row h r = Inr \<lparr>per_operation = op, per_state = OpPrepared\<rparr>"
    "journal_view h db (op_identity op) = Some \<lparr>per_operation = op, per_state = OpPrepared\<rparr>"
    by (rule read_by_identity_Some)
  have "journal_view h db' = (journal_view h db)(op_identity op \<mapsto> p)"
    by (rule view_update_state [OF d(3) r(1)])
      (use decode_dispatched [OF r(2)] d(2) in \<open>simp_all add: row_key_def\<close>)
  then show ?thesis
    using BeginDispatch r(3) d(2) by simp
next
  case (RecordOutcome i outcome)
  with body have "outcome_body h io i outcome db = Inr (db', p)" by simp
  then obtain state appended q where o: "outcome_columns outcome = Inr (state, appended)"
      "\<forall>m. appended = Some m \<longrightarrow> dm_uid m \<noteq> 0 \<and> dm_uid_validity m \<noteq> 0"
    and q: "read_by_identity h io db i = Inr (Some q)" "per_state q = fst (outcome_expects outcome)"
    and p: "p = q\<lparr>per_state := outcome\<rparr>"
    and u: "update_state io i (snd (outcome_expects outcome))
       (\<lambda>r. r\<lparr>row_state := state,
          row_appended_uid_validity := map_option (\<lambda>m. uint (dm_uid_validity m)) appended,
          row_appended_uid := map_option (\<lambda>m. uint (dm_uid m)) appended\<rparr>) (JNotDispatchable OpInFlight) db = Inr db'"
    by (rule outcome_body_Inr)
  from q(1) obtain r where r: "find (\<lambda>r. row_key r = identity_key i) db = Some r" "decode_row h r = Inr q"
    "journal_view h db i = Some q"
    by (rule read_by_identity_Some)
  have "journal_view h db' = (journal_view h db)(i \<mapsto> p)"
    by (rule view_update_state [OF u r(1)])
      (use decode_outcome [OF r(2) q(2) o] p in \<open>simp_all add: row_key_def\<close>)
  then show ?thesis
    using RecordOutcome r(3) q p by simp
qed


lemma journal_body_length:
  "journal_body h io req db = Inr (db', p) \<Longrightarrow>
     length db' \<le> (case req of Prepare _ maximum \<Rightarrow> max (length db) maximum | _ \<Rightarrow> length db)"
  by (cases req)
    (auto dest!: prepare_body_Inr dispatch_body_Inr(3) update_state_Inr(1)
      elim!: reencode_body_Inr outcome_body_Inr)

text \<open>
  the history is append-only and bounded. No call removes or renames a row, only
  \<open>prepare\<close> adds one and never beyond the record limit, and once an operation has left the
  prepared state its target, content digest and frozen facts never change again and it never
  becomes dispatchable again.
\<close>

theorem journal_history_kept:
  assumes "journal_call h io req db = (res, db')"
  shows "journal_advance db db'
    \<and> length db' \<le> (case req of Prepare _ maximum \<Rightarrow> max (length db) maximum | _ \<Rightarrow> length db)"
proof
  show "journal_advance db db'"
    using assms by (rule journal_call_advance)
  show "length db' \<le> (case req of Prepare _ maximum \<Rightarrow> max (length db) maximum | _ \<Rightarrow> length db)"
    using assms unfolding journal_call_body
    by (cases rule: commit_cases) (auto dest: journal_body_length split: journal_request.splits)
qed

section \<open>A concrete host and journal\<close>

text \<open>A reconstruction as the packed text of its fields.\<close>

definition example_recon_json :: "DraftReconstruction \<Rightarrow> string" where
  "example_recon_json r = pack
     [[unat (rec_uid_validity r)], map unat (rec_input_sha256 r), map unat (rec_from_configuration_sha256 r),
      (case rec_selected_from_sha256 r of None \<Rightarrow> [] | Some s \<Rightarrow> 0 # map unat s),
      [nat (rec_date_unix r), nat (- rec_date_unix r)], map ord (rec_encoder r), map unat (rec_facts_sha256 r)]"

definition example_recon_parse :: "string \<Rightarrow> DraftReconstruction option" where
  "example_recon_parse s =
     (case unpack 0 [] s of
        [[v], a, b, c, [p, n], e, f] \<Rightarrow>
          Some \<lparr>rec_uid_validity = of_nat v, rec_input_sha256 = map of_nat a,
            rec_from_configuration_sha256 = map of_nat b,
            rec_selected_from_sha256 = (case c of [] \<Rightarrow> None | _ # s \<Rightarrow> Some (map of_nat s)),
            rec_date_unix = int p - int n, rec_encoder = map chr e, rec_facts_sha256 = map of_nat f\<rparr>
      | _ \<Rightarrow> None)"

definition example_journal_host :: journal_host where
  "example_journal_host = \<lparr>recon_json = example_recon_json, recon_parse = example_recon_parse,
     facts_json = (\<lambda>_ _ _ _ _ _ _. \<lparr>ser_writes = [], ser_finished = True\<rparr>), sha256_of = (\<lambda>_. replicate 32 0)\<rparr>"

lemma example_recon_ok: "recon_ok example_journal_host"
  by (auto simp: recon_ok_def example_journal_host_def example_recon_json_def example_recon_parse_def
      unpack_pack comp_def split: option.splits)

definition example_identity :: DraftIdentity where
  "example_identity = \<lparr>account_id = 1, account_generation = 1, operation_id = 2\<rparr>"

definition example_operation :: PreparedDraftOperation where
  "example_operation = \<lparr>op_identity = example_identity, op_mailbox_identity = ''Drafts'',
     op_content_sha256 = replicate 32 7, op_reconstruction = None\<rparr>"

definition example_journal :: journal where
  "example_journal = [insert_row example_journal_host example_operation 1]"

theorem journal_dispatches_once_witness:
  "cleared (journal_act example_journal_host)
     [(io_ok, BeginDispatch example_operation), (io_ok, BeginDispatch example_operation)] example_journal
   = [example_identity]"
proof -
  let ?c = "cleared (journal_act example_journal_host)
     [(io_ok, BeginDispatch example_operation), (io_ok, BeginDispatch example_operation)] example_journal"
  have "keys_ok example_journal"
    by (simp add: keys_ok_def example_journal_def)
  then have "distinct ?c"
    using journal_dispatches_once by blast
  moreover have "set ?c = {example_identity}"
    by code_simp
  ultimately have "mset ?c = {#example_identity#}"
    by (metis distinct.simps(1) distinct_singleton mset_single_iff set_eq_iff_mset_eq_distinct set_simps(1) list.simps(15))
  then show ?thesis by simp
qed


theorem journal_history_kept_witness:
  "length (snd (journal_call example_journal_host io_ok (Prepare example_operation 1) [])) \<le> 1"
proof -
  obtain res db' where c: "journal_call example_journal_host io_ok (Prepare example_operation 1) [] = (res, db')"
    by (cases "journal_call example_journal_host io_ok (Prepare example_operation 1) []")
  from journal_history_kept [OF c] c show ?thesis by simp
qed

end
