(* ===== verification/Imap.thy ===== *)
theory Imap
  imports Limits Journal
begin

text \<open>
  The parts of the IMAP client shared by its operations (\<open>src/src/imap.rs\<close>,
  \<open>src/src/imap/fetch.rs\<close>, \<open>src/src/imap/mime.rs\<close>): failures, the client's own limits and how they
  derive from the configured ones, metrics, and the bounded traversal of a MIME structure.
  Durations are in nanoseconds.
\<close>

section \<open>Failures\<close>

datatype ImapError =
    ImapInvalidInput | ImapUnsupported | ImapTransport | ImapTls | ImapTimeout | ImapEof
  | ImapProtocol | ImapParserPanic | ImapLimit | ImapAuthentication | ImapUnsafeSelection
  | ImapStaleReference | ImapMessageNotFound | ImapStaleCursor | ImapTransferExpired

type_synonym 'a imap = "ImapError + 'a"

section \<open>Draft outcomes\<close>

text \<open>What an APPEND is known to have done, and what a search for an earlier one established.\<close>

datatype AppendOutcome = AppendCreated "DraftMessageIdentity option" | AppendRejected | AppendUnknown

record DraftVerification =
  ver_uid_validity :: u32
  ver_message_id :: string
  ver_content_sha256 :: sha256

datatype DraftEvidence = Verified DraftMessageIdentity | Absent | Ambiguous | ContentMismatch

section \<open>Limits\<close>

record ImapLimits =
  il_response_bytes :: nat
  il_operation_bytes :: nat
  il_literal_bytes :: nat
  il_responses :: nat
  il_parser_steps :: nat
  il_nesting :: nat
  il_mailboxes :: nat
  il_header_bytes :: nat
  il_mime_parts :: nat
  il_body_wire_bytes :: nat
  il_decoded_bytes :: nat
  il_text_bytes :: nat
  il_decode_steps :: nat
  il_attachment_decoded_bytes :: nat
  il_attachment_wire_bytes :: nat
  il_attachment_chunk_bytes :: nat
  il_operation_timeout :: nat
  il_connect_timeout :: nat

definition from_secs :: "nat \<Rightarrow> nat" where
  "from_secs s = s * 10 ^ 9"

definition imap_limits_default :: ImapLimits where
  "imap_limits_default =
     \<lparr>il_response_bytes = 64 * 1024, il_operation_bytes = 4 * 1024 * 1024, il_literal_bytes = 64 * 1024,
      il_responses = 4096, il_parser_steps = 16 * 1024 * 1024, il_nesting = l_mime_depth limits_default,
      il_mailboxes = l_mailbox_inventory limits_default, il_header_bytes = l_header_bytes limits_default,
      il_mime_parts = l_mime_parts limits_default, il_body_wire_bytes = l_wire_fetch_bytes limits_default,
      il_decoded_bytes = 8 * 1024 * 1024, il_text_bytes = l_text_page_bytes limits_default,
      il_decode_steps = 32 * 1024 * 1024, il_attachment_decoded_bytes = l_attachment_decoded_bytes limits_default,
      il_attachment_wire_bytes = l_attachment_wire_bytes limits_default,
      il_attachment_chunk_bytes = l_attachment_chunk_bytes limits_default,
      il_operation_timeout = from_secs (l_operation_seconds limits_default),
      il_connect_timeout = from_secs (l_connection_seconds limits_default)\<rparr>"

definition imap_limits_validate :: "ImapLimits \<Rightarrow> unit imap" where
  "imap_limits_validate l =
     (if il_response_bytes l = 0 \<or> il_response_bytes l > 256 * 1024
        \<or> il_operation_bytes l < il_response_bytes l \<or> il_operation_bytes l > 16 * 1024 * 1024
        \<or> il_literal_bytes l = 0 \<or> il_literal_bytes l > il_response_bytes l
        \<or> il_responses l = 0 \<or> il_responses l > 16384
        \<or> il_parser_steps l = 0 \<or> il_parser_steps l > 64 * 1024 * 1024
        \<or> \<not> (1 \<le> il_nesting l \<and> il_nesting l \<le> l_mime_depth MAXIMUM)
        \<or> \<not> (1 \<le> il_mailboxes l \<and> il_mailboxes l \<le> l_mailbox_inventory MAXIMUM)
        \<or> \<not> (1 \<le> il_header_bytes l \<and> il_header_bytes l \<le> l_header_bytes MAXIMUM)
        \<or> \<not> (1 \<le> il_mime_parts l \<and> il_mime_parts l \<le> l_mime_parts MAXIMUM)
        \<or> \<not> (1 \<le> il_body_wire_bytes l \<and> il_body_wire_bytes l \<le> l_wire_fetch_bytes MAXIMUM)
        \<or> il_decoded_bytes l = 0 \<or> il_decoded_bytes l > 32 * 1024 * 1024
        \<or> \<not> (4 \<le> il_text_bytes l \<and> il_text_bytes l \<le> l_text_page_bytes MAXIMUM)
        \<or> il_decode_steps l = 0 \<or> il_decode_steps l > 128 * 1024 * 1024
        \<or> \<not> (1 \<le> il_attachment_decoded_bytes l \<and> il_attachment_decoded_bytes l \<le> l_attachment_decoded_bytes MAXIMUM)
        \<or> \<not> (1 \<le> il_attachment_wire_bytes l \<and> il_attachment_wire_bytes l \<le> l_attachment_wire_bytes MAXIMUM)
        \<or> \<not> (1 \<le> il_attachment_chunk_bytes l \<and> il_attachment_chunk_bytes l \<le> l_attachment_chunk_bytes MAXIMUM)
        \<or> il_operation_timeout l = 0 \<or> il_operation_timeout l > from_secs (l_operation_seconds MAXIMUM)
        \<or> il_connect_timeout l = 0 \<or> il_connect_timeout l > from_secs (l_connection_seconds MAXIMUM)
      then Inl ImapInvalidInput else Inr ())"

definition attachment_limits :: "Limits \<Rightarrow> ImapLimits" where
  "attachment_limits l =
     (let response = min (il_response_bytes imap_limits_default) (l_wire_fetch_bytes l) in
      imap_limits_default\<lparr>il_response_bytes := response,
        il_literal_bytes := min (il_literal_bytes imap_limits_default) response,
        il_header_bytes := l_header_bytes l, il_nesting := l_mime_depth l, il_mime_parts := l_mime_parts l,
        il_attachment_wire_bytes := l_attachment_wire_bytes l,
        il_attachment_decoded_bytes := l_attachment_decoded_bytes l,
        il_attachment_chunk_bytes := l_attachment_chunk_bytes l, il_operation_bytes := l_wire_fetch_bytes l\<rparr>)"

definition body_limits :: "Limits \<Rightarrow> ImapLimits" where
  "body_limits l =
     imap_limits_default\<lparr>il_body_wire_bytes := l_wire_fetch_bytes l, il_header_bytes := l_header_bytes l,
       il_nesting := l_mime_depth l, il_mime_parts := l_mime_parts l, il_text_bytes := l_text_page_bytes l,
       il_operation_bytes := 16 * 1024 * 1024,
       il_parser_steps := max (l_wire_fetch_bytes l * 5) (il_parser_steps imap_limits_default),
       il_response_bytes := 256 * 1024, il_literal_bytes := 64 * 1024\<rparr>"

definition MAX_CHUNK_BYTES :: nat where
  "MAX_CHUNK_BYTES = 16 * 1024"

definition fetch_chunk_bytes :: "ImapLimits \<Rightarrow> nat imap" where
  "fetch_chunk_bytes l =
     (let count = min (min MAX_CHUNK_BYTES (il_literal_bytes l)) (il_response_bytes l div 2) in
      if count = 0 then Inl ImapInvalidInput else Inr count)"

record Metrics =
  met_append_outcome :: "AppendOutcome option"
  met_append_error :: "ImapError option"
  met_append_wire_bytes :: nat
  met_mime_bytes :: nat
  met_wire_bytes :: nat
  met_responses :: nat
  met_parser_steps :: nat
  met_max_response_bytes :: nat
  met_max_literal_bytes :: nat
  met_decode_steps :: nat
  met_decoded_bytes :: nat
  met_transfer_wire_bytes :: nat
  met_transfer_decoded_bytes :: nat
  met_transfer_decode_steps :: nat
  met_max_transfer_state_bytes :: nat

definition metrics_default :: Metrics where
  "metrics_default = \<lparr>met_append_outcome = None, met_append_error = None, met_append_wire_bytes = 0, met_mime_bytes = 0, met_wire_bytes = 0, met_responses = 0, met_parser_steps = 0,
     met_max_response_bytes = 0, met_max_literal_bytes = 0, met_decode_steps = 0, met_decoded_bytes = 0,
     met_transfer_wire_bytes = 0, met_transfer_decoded_bytes = 0,
     met_transfer_decode_steps = 0, met_max_transfer_state_bytes = 0\<rparr>"

section \<open>Input checks\<close>

definition mailbox_argument :: "string \<Rightarrow> unit imap" where
  "mailbox_argument name =
     (if name = [] \<or> length name > 1024 then Inl ImapInvalidInput
      else if any_control name then Inl ImapUnsupported else Inr ())"

definition credentials_argument :: "string \<Rightarrow> string \<Rightarrow> unit imap" where
  "credentials_argument user password =
     (if user = [] \<or> length user > 4096 \<or> password = [] \<or> length password > 64 * 1024 then Inl ImapInvalidInput
      else if \<exists>b \<in> set (user @ password). \<not> (32 \<le> ord b \<and> ord b \<le> 126) then Inl ImapUnsupported else Inr ())"

section \<open>MIME structure\<close>

text \<open>What the client reads of a body structure parsed by \<open>imap_proto\<close>.\<close>

datatype ContentEncoding = SevenBit | EightBit | Binary | Base64Encoding | QuotedPrintableEncoding | OtherEncoding string

record ContentDisposition =
  disp_type :: string
  disp_params :: "(string \<times> string) list option"

record BodyContentCommon =
  common_type :: string
  common_subtype :: string
  common_params :: "(string \<times> string) list option"
  common_disposition :: "ContentDisposition option"

record BodyContentSinglePart =
  single_encoding :: ContentEncoding
  single_id :: "string option"
  single_octets :: u32

datatype BodyStructure =
    BasicStructure BodyContentCommon BodyContentSinglePart
  | TextStructure BodyContentCommon BodyContentSinglePart
  | MessageStructure BodyContentCommon BodyContentSinglePart BodyStructure
  | MultipartStructure BodyContentCommon "BodyStructure list"

fun structure_common :: "BodyStructure \<Rightarrow> BodyContentCommon" where
  "structure_common (BasicStructure c s) = c"
| "structure_common (TextStructure c s) = c"
| "structure_common (MessageStructure c s b) = c"
| "structure_common (MultipartStructure c bs) = c"

fun structure_single :: "BodyStructure \<Rightarrow> BodyContentSinglePart option" where
  "structure_single (BasicStructure c s) = Some s"
| "structure_single (TextStructure c s) = Some s"
| "structure_single (MessageStructure c s b) = Some s"
| "structure_single (MultipartStructure c bs) = None"

definition is_attachment :: "ContentDisposition option \<Rightarrow> bool" where
  "is_attachment d = is_some_and d (\<lambda>d. eq_ignore_ascii_case (disp_type d) ''attachment'')"

fun encoding_name :: "ContentEncoding \<Rightarrow> string" where
  "encoding_name SevenBit = ''7bit''"
| "encoding_name EightBit = ''8bit''"
| "encoding_name Binary = ''binary''"
| "encoding_name Base64Encoding = ''base64''"
| "encoding_name QuotedPrintableEncoding = ''quoted-printable''"
| "encoding_name (OtherEncoding v) = v"

text \<open>A part is a list of nonzero numbers below \<open>2 ^ 32\<close>.\<close>

type_synonym Part = "nat list"

definition part_name :: "Part \<Rightarrow> string" where
  "part_name p = join_with CHR ''.'' (map show_nat p)"

text \<open>
  Every node counts, the subtree of an attached message included; the walk stops at the first node over
  either ceiling, so that it visits at most one node more than the configured number of parts.
\<close>

fun visit_structure :: "nat \<Rightarrow> nat \<Rightarrow> BodyStructure \<Rightarrow> nat \<Rightarrow> nat \<Rightarrow> nat imap"
  and visit_structures :: "nat \<Rightarrow> nat \<Rightarrow> BodyStructure list \<Rightarrow> nat \<Rightarrow> nat \<Rightarrow> nat imap" where
  "visit_structure max_parts max_nesting s parts depth =
     (let parts = parts + 1 in
      if parts > max_parts \<or> depth > max_nesting then Inl ImapLimit
      else case s of
          MessageStructure c p body \<Rightarrow> visit_structure max_parts max_nesting body parts (depth + 1)
        | MultipartStructure c bodies \<Rightarrow> visit_structures max_parts max_nesting bodies parts (depth + 1)
        | _ \<Rightarrow> Inr parts)"
| "visit_structures max_parts max_nesting [] parts depth = Inr parts"
| "visit_structures max_parts max_nesting (s # ss) parts depth =
     and_then (visit_structure max_parts max_nesting s parts depth)
       (\<lambda>parts. visit_structures max_parts max_nesting ss parts depth)"

definition validate_structure :: "BodyStructure \<Rightarrow> ImapLimits \<Rightarrow> unit imap" where
  "validate_structure s l = and_then (visit_structure (il_mime_parts l) (il_nesting l) s 0 1) (\<lambda>_. Inr ())"

text \<open>What the walk admits: exactly the trees within both ceilings.\<close>

fun node_count :: "BodyStructure \<Rightarrow> nat" where
  "node_count (MessageStructure c p b) = 1 + node_count b"
| "node_count (MultipartStructure c bs) = 1 + sum_list (map node_count bs)"
| "node_count _ = 1"

fun tree_depth :: "BodyStructure \<Rightarrow> nat" where
  "tree_depth (MessageStructure c p b) = 1 + tree_depth b"
| "tree_depth (MultipartStructure c bs) = 1 + Max (set (0 # map tree_depth bs))"
| "tree_depth _ = 1"

lemma visit_structure_iff:
  "visit_structure m d s parts depth = Inr n \<longleftrightarrow>
     n = parts + node_count s \<and> n \<le> m \<and> depth + tree_depth s \<le> d + 1"
  "depth \<le> d + 1 \<Longrightarrow> parts \<le> m \<Longrightarrow> visit_structures m d ss parts depth = Inr n \<longleftrightarrow>
     n = parts + sum_list (map node_count ss) \<and> n \<le> m \<and> (\<forall>s \<in> set ss. depth + tree_depth s \<le> d + 1)"
proof (induction m d s parts depth and m d ss parts depth arbitrary: n and n
    rule: visit_structure_visit_structures.induct)
  case (1 m d s parts depth)
  show ?case
  proof (cases "parts + 1 > m \<or> depth > d")
    case True
    have "1 \<le> node_count s" "1 \<le> tree_depth s" by (cases s; simp)+
    with True show ?thesis by (auto simp: Let_def)
  next
    case False
    then show ?thesis
    proof (cases s)
      case (MessageStructure c p b)
      then show ?thesis using 1(1) False by (auto simp: Let_def)
    next
      case (MultipartStructure c bs)
      have "(\<forall>s \<in> set bs. depth + 1 + tree_depth s \<le> d + 1) \<longleftrightarrow> depth + Max (set (0 # map tree_depth bs)) \<le> d"
      proof -
        have "depth + Max (set (0 # map tree_depth bs)) \<le> d \<longleftrightarrow> Max (set (0 # map tree_depth bs)) \<le> d - depth"
          using False by linarith
        also have "\<dots> \<longleftrightarrow> (\<forall>t \<in> set (0 # map tree_depth bs). t \<le> d - depth)"
          by (rule Max_le_iff) simp_all
        also have "\<dots> \<longleftrightarrow> (\<forall>s \<in> set bs. depth + 1 + tree_depth s \<le> d + 1)"
          using False by (auto simp: le_diff_conv2 add.commute)
        finally show ?thesis by blast
      qed
      then show ?thesis using 1(2) False MultipartStructure by (auto simp: Let_def)
    qed (auto simp: Let_def)
  qed
next
  case (3 m d s ss parts depth)
  note first = 3(1) and rest = 3(2)
  show ?case
  proof (cases "parts + node_count s \<le> m \<and> depth + tree_depth s \<le> d + 1")
    case True
    then have "visit_structure m d s parts depth = Inr (parts + node_count s)"
      using first by blast
    with rest [OF this] 3(3) True show ?thesis
      by (simp add: add.assoc del: visit_structure.simps)
  next
    case False
    obtain e where e: "visit_structure m d s parts depth = Inl e"
    proof (cases "visit_structure m d s parts depth")
      case (Inr x)
      with first [of x] False show ?thesis by blast
    qed
    from False have "\<not> (parts + (node_count s + k) \<le> m \<and> depth + tree_depth s \<le> d + 1)" for k
      by linarith
    then show ?thesis by (simp only: visit_structures.simps e and_then_simps list.map sum_list.Cons) auto
  qed
qed auto

text \<open>
  A MIME structure is admitted exactly when its number of parts and its nesting are within the limits; the
  recursive walk never goes deeper than one level past the ceiling.
\<close>

theorem structure_admitted:
  "validate_structure s l = Inr () \<longleftrightarrow> node_count s \<le> il_mime_parts l \<and> tree_depth s \<le> il_nesting l"
proof -
  define v where "v = visit_structure (il_mime_parts l) (il_nesting l) s 0 1"
  have "v = Inr n \<longleftrightarrow> n = node_count s \<and> n \<le> il_mime_parts l \<and> tree_depth s \<le> il_nesting l" for n
    using visit_structure_iff(1) [of "il_mime_parts l" "il_nesting l" s 0 1 n] by (simp add: v_def)
  then show ?thesis unfolding validate_structure_def v_def [symmetric] by (cases v) (auto simp: and_then_def)
qed

end
