(* ===== verification/Authentication.thy ===== *)
theory Authentication
  imports Config Imap
begin

text \<open>
  Process-local authentication admission (\<open>src/src/authentication.rs\<close>): the first-in first-out
  \<open>Gate\<close> that bounds credential workers and connections, the per-account connection \<open>Pool\<close>, and
  the sharing of credential work between callers (\<open>Flight\<close>). Time is in nanoseconds, a
  connection is opaque, and the owner of an expiry task is named by a number.
\<close>

section \<open>Errors\<close>

text \<open>The failures of this component.\<close>

datatype AuthError =
    AuthSource CredentialFailure | AuthImap ImapError | AuthRateLimited | AuthTimeout | AuthInvalidInput

section \<open>The gate\<close>

record GateWaiter =
  gw_ticket :: u64
  gw_active_limit :: nat

record GateState =
  gate_active :: nat
  gate_waiting :: "GateWaiter list"
  gate_next_ticket :: u64

definition gate_default :: GateState where
  "gate_default = \<lparr>gate_active = 0, gate_waiting = [], gate_next_ticket = 0\<rparr>"

definition gate_notification :: "GateState \<Rightarrow> u64 option" where
  "gate_notification g =
     (case gate_waiting g of [] \<Rightarrow> None
      | w # _ \<Rightarrow> if gate_active g < gw_active_limit w then Some (gw_ticket w) else None)"

text \<open>\<open>None\<close> is an active admission, \<open>Some t\<close> one that waits under ticket \<open>t\<close>.\<close>

definition gate_reserve :: "GateState \<Rightarrow> nat \<Rightarrow> nat \<Rightarrow> AuthError + (u64 option \<times> GateState)" where
  "gate_reserve g active_limit pending =
     (if gate_waiting g = [] \<and> gate_active g < active_limit
      then Inr (None, g\<lparr>gate_active := gate_active g + 1\<rparr>)
      else if length (gate_waiting g) \<ge> pending then Inl AuthRateLimited
      else Inr (Some (gate_next_ticket g),
        g\<lparr>gate_next_ticket := gate_next_ticket g + 1,
          gate_waiting := gate_waiting g @
            [\<lparr>gw_ticket = gate_next_ticket g, gw_active_limit = active_limit\<rparr>]\<rparr>))"

definition gate_poll :: "GateState \<Rightarrow> u64 \<Rightarrow> (GateState \<times> u64 option) option" where
  "gate_poll g t =
     (case gate_waiting g of [] \<Rightarrow> None
      | w # ws \<Rightarrow>
          if gw_ticket w = t \<and> gate_active g < gw_active_limit w
          then let g = g\<lparr>gate_waiting := ws, gate_active := gate_active g + 1\<rparr>
               in Some (g, gate_notification g)
          else None)"

text \<open>Dropping an admission; \<open>None\<close> is the panic of an underflowing \<open>active -= 1\<close>.\<close>

definition gate_drop :: "GateState \<Rightarrow> u64 option \<Rightarrow> (GateState \<times> u64 option) option" where
  "gate_drop g ticket =
     (case ticket of
        Some t \<Rightarrow> let g = g\<lparr>gate_waiting := filter (\<lambda>w. gw_ticket w \<noteq> t) (gate_waiting g)\<rparr>
                  in Some (g, gate_notification g)
      | None \<Rightarrow>
          if gate_active g = 0 then None
          else let g = g\<lparr>gate_active := gate_active g - 1\<rparr> in Some (g, gate_notification g))"

section \<open>The connection pool\<close>

record 'c Idle =
  idle_generation :: u64
  idle_connection :: 'c
  idle_established :: nat
  idle_expires_at :: nat
  idle_owner :: nat

record 'c PoolState =
  pool_idle :: "'c Idle list"
  pool_last_doctor :: "nat option"

definition pool_state_new :: "'c PoolState" where
  "pool_state_new = \<lparr>pool_idle = [], pool_last_doctor = None\<rparr>"

text \<open>\<open>Vec::swap_remove\<close>: the last element takes the place of the removed one.\<close>

definition swap_remove :: "nat \<Rightarrow> 'a list \<Rightarrow> 'a list" where
  "swap_remove i xs = butlast (xs[i := last xs])"

fun rposition :: "('a \<Rightarrow> bool) \<Rightarrow> 'a list \<Rightarrow> nat option" where
  "rposition P [] = None"
| "rposition P (x # xs) =
     (case rposition P xs of Some i \<Rightarrow> Some (Suc i) | None \<Rightarrow> if P x then Some 0 else None)"

definition usable :: "(nat \<Rightarrow> bool) \<Rightarrow> nat \<Rightarrow> nat \<Rightarrow> 'c Idle \<Rightarrow> bool" where
  "usable alive now lifetime i \<longleftrightarrow> alive (idle_owner i) \<and> now < idle_expires_at i
     \<and> now - idle_established i < lifetime"

definition lifetime_of :: "Limits \<Rightarrow> nat" where
  "lifetime_of l = l_connection_lifetime_seconds l * 10 ^ 9"

text \<open>
  The critical section of \<open>acquire_inner\<close> after the gate has admitted the caller: dead and
  expired connections go, a connection of the account's generation is taken unless a fresh one
  is wanted, and the rest is cut to what the admitted leases leave.
\<close>

definition pool_select ::
  "(nat \<Rightarrow> bool) \<Rightarrow> nat \<Rightarrow> Limits \<Rightarrow> u64 \<Rightarrow> bool \<Rightarrow> nat \<Rightarrow> 'c PoolState \<Rightarrow> 'c Idle option \<times> 'c PoolState" where
  "pool_select alive now l generation fresh active p =
     (let idle = filter (usable alive now (lifetime_of l)) (pool_idle p);
          spare = l_account_connections l - active;
          position = (if fresh then None else rposition (\<lambda>i. idle_generation i = generation) idle);
          (selected, idle) = (case position of None \<Rightarrow> (None, idle)
             | Some i \<Rightarrow> (Some ((idle ! i)\<lparr>idle_expires_at :=
                   min (idle_expires_at (idle ! i)) (idle_established (idle ! i) + lifetime_of l)\<rparr>),
                 swap_remove i idle))
      in (selected, p\<lparr>pool_idle := take spare idle\<rparr>))"

text \<open>A connection just opened for the account.\<close>

definition idle_new :: "Limits \<Rightarrow> u64 \<Rightarrow> 'c \<Rightarrow> nat \<Rightarrow> nat \<Rightarrow> 'c Idle" where
  "idle_new l generation c now owner =
     \<lparr>idle_generation = generation, idle_connection = c, idle_established = now,
      idle_expires_at = now + lifetime_of l, idle_owner = owner\<rparr>"

definition pool_release :: "(nat \<Rightarrow> bool) \<Rightarrow> nat \<Rightarrow> nat \<Rightarrow> nat \<Rightarrow> 'c Idle \<Rightarrow> 'c PoolState \<Rightarrow> 'c PoolState" where
  "pool_release alive now capacity active i p =
     (if alive (idle_owner i) \<and> now < idle_expires_at i \<and> length (pool_idle p) + active \<le> capacity
      then p\<lparr>pool_idle := pool_idle p @ [i]\<rparr> else p)"

text \<open>One turn of the expiry task, and its \<open>Drop\<close>.\<close>

definition pool_expire :: "nat \<Rightarrow> 'c PoolState \<Rightarrow> 'c PoolState \<times> nat option" where
  "pool_expire now p =
     (let idle = filter (\<lambda>i. now < idle_expires_at i) (pool_idle p)
      in (p\<lparr>pool_idle := idle\<rparr>, if idle = [] then None else Some (Min (idle_expires_at ` set idle))))"

definition pool_expiry_dropped :: "nat \<Rightarrow> 'c PoolState \<Rightarrow> 'c PoolState" where
  "pool_expiry_dropped owner p = p\<lparr>pool_idle := filter (\<lambda>i. idle_owner i \<noteq> owner) (pool_idle p)\<rparr>"

text \<open>\<open>Duration::from_secs_f64(60.0 / k)\<close> to the nearest nanosecond.\<close>

definition doctor_interval :: "nat \<Rightarrow> nat" where
  "doctor_interval k = (60 * 10 ^ 9 + k div 2) div k"

definition doctor_admit :: "Limits \<Rightarrow> nat \<Rightarrow> 'c PoolState \<Rightarrow> AuthError + 'c PoolState" where
  "doctor_admit l now p =
     (if is_some_and (pool_last_doctor p) (\<lambda>t. now - t < doctor_interval (l_doctor_checks_per_minute l))
      then Inl AuthRateLimited
      else Inr (p\<lparr>pool_last_doctor := Some now\<rparr>))"

definition pool_lookup ::
  "Limits \<Rightarrow> (uuid \<times> (GateState \<times> 'c PoolState)) list \<Rightarrow> uuid
   \<Rightarrow> AuthError + (uuid \<times> (GateState \<times> 'c PoolState)) list" where
  "pool_lookup l pools acct =
     (if map_of pools acct \<noteq> None then Inr pools
      else if length pools = l_accounts l then Inl AuthRateLimited
      else Inr (pools @ [(acct, (gate_default, pool_state_new))]))"

section \<open>Shared credential work\<close>

text \<open>A flight counts its waiters; \<open>None\<close> closes it to new ones.\<close>

type_synonym flight = "nat option"

definition flight_join :: "flight \<Rightarrow> flight option" where
  "flight_join w = map_option (\<lambda>n. Some (n + 1)) w"

definition abandon_if_unobserved :: "flight \<Rightarrow> bool \<times> flight" where
  "abandon_if_unobserved w = (let w = (if w = Some 0 then None else w) in (w = None, w))"

text \<open>\<open>None\<close> is the panic of \<open>expect\<close> or of the underflow; the flag tells the worker.\<close>

definition waiter_drop :: "flight \<Rightarrow> (bool \<times> flight) option" where
  "waiter_drop w = (case w of None \<Rightarrow> None | Some n \<Rightarrow> if n = 0 then None else Some (n = 1, Some (n - 1)))"

section \<open>Limits of a request\<close>

definition runtime_validate_limits :: "Limits \<Rightarrow> Limits \<Rightarrow> AuthError + unit" where
  "runtime_validate_limits own l =
     and_then (map_err (\<lambda>_. AuthInvalidInput) (limits_validate l)) (\<lambda>_.
       if l_attachment_decoded_bytes l > l_attachment_decoded_bytes own
         \<or> l_attachment_wire_bytes l > l_attachment_wire_bytes own
         \<or> l_attachment_chunk_bytes l > l_attachment_chunk_bytes own
         \<or> l_transfer_seconds l > l_transfer_seconds own
         \<or> l_transfers_per_account l > l_transfers_per_account own
         \<or> l_text_page_bytes l > l_text_page_bytes own
         \<or> l_mime_depth l > l_mime_depth own
         \<or> l_mime_parts l > l_mime_parts own
         \<or> l_mailbox_inventory l > l_mailbox_inventory own
         \<or> l_search_page l > l_search_page own
         \<or> l_search_uid_window l > l_search_uid_window own
         \<or> l_search_windows l > l_search_windows own
         \<or> l_header_bytes l > l_header_bytes own
         \<or> l_wire_fetch_bytes l > l_wire_fetch_bytes own
         \<or> l_account_connections l > l_account_connections own
         \<or> l_account_pending_requests l > l_account_pending_requests own
         \<or> l_command_stderr_bytes l > l_command_stderr_bytes own
         \<or> l_secret_command_seconds l > l_secret_command_seconds own
         \<or> l_secret_bytes l > l_secret_bytes own
         \<or> l_operation_seconds l > l_operation_seconds own
         \<or> l_connection_seconds l > l_connection_seconds own
         \<or> l_connection_lifetime_seconds l > l_connection_lifetime_seconds own
         \<or> l_doctor_checks_per_minute l > l_doctor_checks_per_minute own
         \<or> l_credential_workers l > l_credential_workers own
         \<or> l_queued_credentials l > l_queued_credentials own
       then Inl AuthInvalidInput else Inr ())"

section \<open>The pool of one account as a state machine\<close>

text \<open>
  \<open>ps_open\<close> counts the leases that hold a connection or are opening one, \<open>ps_bare\<close> the active
  admissions that do not (before they have passed the pool's critical section, or after they
  have returned their connection). Requests may carry different limits within \<open>L\<close>; the clock
  and the liveness of expiry tasks are arbitrary at every step.
\<close>

record 'c PoolSystem =
  ps_gate :: GateState
  ps_wake :: "u64 set"
  ps_pool :: "'c PoolState"
  ps_open :: nat
  ps_bare :: nat

definition pool_system_new :: "'c PoolSystem" where
  "pool_system_new = \<lparr>ps_gate = gate_default, ps_wake = {}, ps_pool = pool_state_new, ps_open = 0, ps_bare = 0\<rparr>"

definition pool_within :: "Limits \<Rightarrow> Limits \<Rightarrow> bool" where
  "pool_within L l \<longleftrightarrow> l_account_connections l \<le> l_account_connections L
     \<and> l_account_pending_requests l \<le> l_account_pending_requests L"

inductive pool_step :: "Limits \<Rightarrow> 'c PoolSystem \<Rightarrow> 'c PoolSystem \<Rightarrow> bool" for L where
  pool_granted:
    "pool_within L l \<Longrightarrow>
     gate_reserve (ps_gate s) (l_account_connections l) (l_account_pending_requests l) = Inr (None, g) \<Longrightarrow>
     pool_step L s (s\<lparr>ps_gate := g, ps_bare := ps_bare s + 1\<rparr>)"
| pool_queued:
    "pool_within L l \<Longrightarrow>
     gate_reserve (ps_gate s) (l_account_connections l) (l_account_pending_requests l) = Inr (Some t, g) \<Longrightarrow>
     pool_step L s (s\<lparr>ps_gate := g, ps_wake := insert t (ps_wake s)\<rparr>)"
| pool_sleep:
    "t \<in> ps_wake s \<Longrightarrow> gate_poll (ps_gate s) t = None \<Longrightarrow>
     pool_step L s (s\<lparr>ps_wake := ps_wake s - {t}\<rparr>)"
| pool_wake:
    "t \<in> ps_wake s \<Longrightarrow> gate_poll (ps_gate s) t = Some (g, n) \<Longrightarrow>
     pool_step L s (s\<lparr>ps_gate := g, ps_wake := notified n (ps_wake s - {t}), ps_bare := ps_bare s + 1\<rparr>)"
| pool_cancel:
    "gate_drop (ps_gate s) (Some t) = Some (g, n) \<Longrightarrow>
     pool_step L s (s\<lparr>ps_gate := g, ps_wake := notified n (ps_wake s - {t})\<rparr>)"
| pool_settle:
    "0 < ps_bare s \<Longrightarrow> pool_within L l \<Longrightarrow>
     pool_select alive now l generation fresh (gate_active (ps_gate s)) (ps_pool s) = (selected, p) \<Longrightarrow>
     pool_step L s (s\<lparr>ps_pool := p, ps_bare := ps_bare s - 1, ps_open := ps_open s + 1\<rparr>)"
| pool_returned:
    "0 < ps_open s \<Longrightarrow> capacity \<le> l_account_connections L \<Longrightarrow>
     pool_step L s (s\<lparr>ps_pool := pool_release alive now capacity (gate_active (ps_gate s)) i (ps_pool s),
       ps_open := ps_open s - 1, ps_bare := ps_bare s + 1\<rparr>)"
| pool_dropped_bare:
    "0 < ps_bare s \<Longrightarrow> gate_drop (ps_gate s) None = Some (g, n) \<Longrightarrow>
     pool_step L s (s\<lparr>ps_gate := g, ps_wake := notified n (ps_wake s), ps_bare := ps_bare s - 1\<rparr>)"
| pool_dropped_open:
    "0 < ps_open s \<Longrightarrow> gate_drop (ps_gate s) None = Some (g, n) \<Longrightarrow>
     pool_step L s (s\<lparr>ps_gate := g, ps_wake := notified n (ps_wake s), ps_open := ps_open s - 1\<rparr>)"
| pool_expired: "pool_step L s (s\<lparr>ps_pool := fst (pool_expire now (ps_pool s))\<rparr>)"
| pool_executor_gone: "pool_step L s (s\<lparr>ps_pool := pool_expiry_dropped owner (ps_pool s)\<rparr>)"

definition gate_ok :: "Limits \<Rightarrow> GateState \<Rightarrow> bool" where
  "gate_ok L g \<longleftrightarrow> sorted_wrt (<) (map gw_ticket (gate_waiting g))
     \<and> (\<forall>w \<in> set (gate_waiting g). gw_ticket w < gate_next_ticket g
          \<and> gw_active_limit w \<le> l_account_connections L)
     \<and> gate_active g \<le> l_account_connections L
     \<and> length (gate_waiting g) \<le> l_account_pending_requests L"

definition pool_ok :: "Limits \<Rightarrow> 'c PoolSystem \<Rightarrow> bool" where
  "pool_ok L s \<longleftrightarrow> gate_ok L (ps_gate s) \<and> gate_active (ps_gate s) = ps_open s + ps_bare s
     \<and> awake (gate_notification (ps_gate s)) (ps_wake s)
     \<and> length (pool_idle (ps_pool s)) + ps_open s \<le> l_account_connections L"

subsection \<open>Each operation keeps the invariant\<close>

lemma gate_reserve_granted:
  assumes "gate_ok L g" and "pool_within L l"
    and "gate_reserve g (l_account_connections l) pending = Inr (None, g')"
  shows "gate_ok L g'" "gate_active g' = gate_active g + 1" "gate_notification g' = None"
  using assms by (auto simp: gate_reserve_def gate_ok_def pool_within_def gate_notification_def split: if_splits)

lemma gate_reserve_queued:
  assumes "gate_ok L g" and "pool_within L l" and "unat (gate_next_ticket g) + 1 < 2 ^ 64"
    and "gate_reserve g (l_account_connections l) (l_account_pending_requests l) = Inr (Some t, g')"
  shows "gate_ok L g'" "gate_active g' = gate_active g"
    and "awake (gate_notification g) wake \<Longrightarrow> awake (gate_notification g') (insert t wake)"
proof -
  from assms(4) have t: "t = gate_next_ticket g" and len: "length (gate_waiting g) < l_account_pending_requests l"
    and g': "g' = g\<lparr>gate_next_ticket := gate_next_ticket g + 1,
          gate_waiting := gate_waiting g @ [\<lparr>gw_ticket = t, gw_active_limit = l_account_connections l\<rparr>]\<rparr>"
    by (auto simp: gate_reserve_def split: if_splits)
  show "gate_ok L g'"
    using assms(1,2) len ticket_less_next [OF assms(3)]
    by (auto simp: gate_ok_def g' t pool_within_def sorted_wrt_append less_imp_le)
  show "gate_active g' = gate_active g" by (simp add: g')
  show "awake (gate_notification g) wake \<Longrightarrow> awake (gate_notification g') (insert t wake)"
    by (auto simp: gate_notification_def g' split: list.splits if_splits)
qed

lemma gate_poll_Some:
  assumes "gate_ok L g" and "gate_poll g t = Some (g', n)"
  shows "gate_ok L g'" "gate_active g' = gate_active g + 1" "n = gate_notification g'"
    "gate_next_ticket g' = gate_next_ticket g"
  using assms by (auto simp: gate_poll_def gate_ok_def Let_def split: list.splits if_splits)

lemma gate_poll_None:
  "gate_poll g t = None \<Longrightarrow> awake (gate_notification g) wake \<Longrightarrow> awake (gate_notification g) (wake - {t})"
  by (auto simp: gate_poll_def gate_notification_def Let_def split: list.splits if_splits)

lemma gate_drop_Some:
  assumes "gate_ok L g" and "gate_drop g ticket = Some (g', n)"
  shows "gate_ok L g'" "n = gate_notification g'" "gate_next_ticket g' = gate_next_ticket g"
    "gate_active g' = (if ticket = None then gate_active g - 1 else gate_active g)"
  using assms
  by (auto simp: gate_drop_def gate_ok_def Let_def sorted_wrt_map sorted_wrt_filter
      intro: le_trans [OF length_filter_le] split: option.splits if_splits)

lemma pool_select_eq:
  "pool_select alive now l generation fresh active p =
     (let idle = filter (usable alive now (lifetime_of l)) (pool_idle p);
          spare = l_account_connections l - active
      in case (if fresh then None else rposition (\<lambda>i. idle_generation i = generation) idle) of
           None \<Rightarrow> (None, p\<lparr>pool_idle := take spare idle\<rparr>)
         | Some i \<Rightarrow> (Some ((idle ! i)\<lparr>idle_expires_at :=
               min (idle_expires_at (idle ! i)) (idle_established (idle ! i) + lifetime_of l)\<rparr>),
             p\<lparr>pool_idle := take spare (swap_remove i idle)\<rparr>))"
  by (simp add: pool_select_def Let_def split: option.split)

lemma pool_select_idle:
  assumes "pool_select alive now l generation fresh active p = (selected, p')"
  shows "length (pool_idle p') \<le> l_account_connections l - active"
  using assms by (auto simp: pool_select_def Let_def split: prod.splits)

lemma pool_step_ok:
  assumes "pool_step L s s'" and "pool_ok L s" and "unat (gate_next_ticket (ps_gate s)) + 1 < 2 ^ 64"
  shows "pool_ok L s'"
  using assms
proof (induction rule: pool_step.induct)
  case (pool_granted l s g)
  then show ?case
    using gate_reserve_granted [OF _ pool_granted(1,2)] by (simp add: pool_ok_def)
next
  case (pool_queued l s t g)
  then show ?case
    using gate_reserve_queued [OF _ pool_queued(1,4,2)] by (simp add: pool_ok_def)
next
  case (pool_sleep t s)
  then show ?case
    using gate_poll_None by (simp add: pool_ok_def)
next
  case (pool_wake t s g n)
  then show ?case
    using gate_poll_Some [of L, OF _ pool_wake(2)] by (simp add: pool_ok_def)
next
  case (pool_cancel s t g n)
  then show ?case
    using gate_drop_Some [of L, OF _ pool_cancel(1)] by (simp add: pool_ok_def)
next
  case (pool_settle s l alive now generation fresh selected p)
  have "length (pool_idle p) \<le> l_account_connections l - gate_active (ps_gate s)"
    by (rule pool_select_idle [OF pool_settle(3)])
  then show ?case
    using pool_settle(1,2,4) by (auto simp: pool_ok_def gate_ok_def pool_within_def)
next
  case (pool_returned s capacity alive now i)
  then show ?case
    by (auto simp: pool_ok_def pool_release_def)
next
  case (pool_dropped_bare s g n)
  then show ?case
    using gate_drop_Some [of L, OF _ pool_dropped_bare(2)] by (simp add: pool_ok_def)
next
  case (pool_dropped_open s g n)
  then show ?case
    using gate_drop_Some [of L, OF _ pool_dropped_open(2)] by (auto simp: pool_ok_def)
next
  case (pool_expired s now)
  then show ?case
    by (auto simp: pool_ok_def pool_expire_def Let_def intro: order_trans [OF add_le_mono1 [OF length_filter_le]])
next
  case (pool_executor_gone s owner)
  then show ?case
    by (auto simp: pool_ok_def pool_expiry_dropped_def intro: order_trans [OF add_le_mono1 [OF length_filter_le]])
qed

lemma pool_step_ticket:
  "pool_step L s s' \<Longrightarrow> unat (gate_next_ticket (ps_gate s')) \<le> unat (gate_next_ticket (ps_gate s)) + 1"
  by (induction rule: pool_step.induct)
    (auto simp: gate_reserve_def gate_poll_def gate_drop_def Let_def unat_word_ariths
      split: if_splits option.splits list.splits)

interpretation pool: ticket_machine "pool_step L" pool_system_new "pool_ok L"
    "\<lambda>s. gate_next_ticket (ps_gate s)" for L
proof
  show "pool_ok L pool_system_new"
    by (simp add: pool_ok_def pool_system_new_def gate_ok_def gate_default_def pool_state_new_def
        gate_notification_def)
  show "gate_next_ticket (ps_gate pool_system_new) = 0"
    by (simp add: pool_system_new_def gate_default_def)
qed (use pool_step_ok pool_step_ticket in blast)+

section \<open>What the pool guarantees\<close>

text \<open>
  C13: an account never has more connections than its limit. In every execution the leases that
  hold or open a connection together with the idle connections stay within the connection
  limit, so do the admitted callers, the waiters stay within the pending limit, and no active
  admission panics when it is dropped.
\<close>

theorem pool_connections_bounded:
  assumes "execution (pool_step L) pool_system_new n s" and "n < 2 ^ 64"
  shows "length (pool_idle (ps_pool s)) + ps_open s \<le> l_account_connections L
    \<and> ps_open s + ps_bare s \<le> l_account_connections L
    \<and> length (gate_waiting (ps_gate s)) \<le> l_account_pending_requests L
    \<and> (0 < ps_open s + ps_bare s \<longrightarrow> gate_drop (ps_gate s) None \<noteq> None)"
  using pool.execution_inv [OF assms]
  by (simp add: pool_ok_def gate_ok_def gate_drop_def Let_def)

text \<open>
  the gate is first-in first-out and loses no wakeup. In every reachable state only the
  oldest waiter can be admitted, and whenever it can be, it has a wakeup pending and its poll
  admits it.
\<close>

theorem gate_fifo_live:
  assumes "execution (pool_step L) pool_system_new n s" and "n < 2 ^ 64"
    and "w \<in> set (gate_waiting (ps_gate s))"
  shows "(gate_poll (ps_gate s) (gw_ticket w) \<noteq> None \<longleftrightarrow>
            gate_notification (ps_gate s) = Some (gw_ticket w))
    \<and> (gate_notification (ps_gate s) = Some (gw_ticket w) \<longrightarrow>
         gw_ticket w \<in> ps_wake s
         \<and> (\<forall>v \<in> set (gate_waiting (ps_gate s)). v \<noteq> w \<longrightarrow> gw_ticket w < gw_ticket v))"
proof -
  have ok: "gate_ok L (ps_gate s)" "awake (gate_notification (ps_gate s)) (ps_wake s)"
    using pool.execution_inv [OF assms(1,2)] by (simp_all add: pool_ok_def)
  obtain u us where q: "gate_waiting (ps_gate s) = u # us"
    using assms(3) by (cases "gate_waiting (ps_gate s)") auto
  have later: "gw_ticket u < gw_ticket v" if "v \<in> set us" for v
    using ok(1) that by (simp add: gate_ok_def q)
  have front: "gate_notification (ps_gate s) = Some (gw_ticket w) \<Longrightarrow> w = u"
    using assms(3) later by (fastforce simp: gate_notification_def q split: if_splits)
  have "gate_poll (ps_gate s) (gw_ticket w) \<noteq> None \<longleftrightarrow> gate_notification (ps_gate s) = Some (gw_ticket w)"
    by (simp add: gate_poll_def gate_notification_def q Let_def)
  moreover have "gw_ticket w \<in> ps_wake s \<and> (\<forall>v \<in> set (gate_waiting (ps_gate s)). v \<noteq> w \<longrightarrow> gw_ticket w < gw_ticket v)"
    if n: "gate_notification (ps_gate s) = Some (gw_ticket w)"
    using front [OF n] later ok(2) n by (simp add: q)
  ultimately show ?thesis by blast
qed

lemma rposition_Some: "rposition P xs = Some i \<Longrightarrow> i < length xs \<and> P (xs ! i)"
  by (induction xs arbitrary: i) (auto split: option.splits if_splits)

lemma rposition_None: "rposition P xs = None \<longleftrightarrow> (\<forall>x \<in> set xs. \<not> P x)"
  by (induction xs) (auto split: option.splits)

lemma mset_swap_remove: "i < length xs \<Longrightarrow> add_mset (xs ! i) (mset (swap_remove i xs)) = mset xs"
proof (cases xs rule: rev_cases)
  case (snoc ys y)
  assume "i < length xs"
  show ?thesis
  proof (cases "i < length ys")
    case True
    then have "mset (ys[i := y]) = add_mset y (mset ys - {#ys ! i#})"
      by (rule mset_update)
    moreover have "ys ! i \<in># mset ys"
      using True by simp
    ultimately show ?thesis
      using snoc True by (simp add: swap_remove_def list_update_append nth_append butlast_append)
  next
    case False
    then have "i = length ys" using snoc \<open>i < length xs\<close> by simp
    then show ?thesis by (simp add: snoc swap_remove_def)
  qed
qed simp

text \<open>
  a reused connection is safe to reuse and is nobody else's. A selected connection was
  authenticated for this account generation, its expiry task is alive, it has neither expired nor
  outlived the request's lifetime and its new expiry respects both; no connection is handed out
  while it stays idle, and none is reused when a fresh one was asked for or none qualifies.
\<close>

theorem pool_select_safe:
  fixes p :: "'c PoolState"
  assumes "pool_select alive now l generation fresh active p = (selected, p')"
  shows "(\<forall>i \<in> set (pool_idle p'). i \<in> set (pool_idle p) \<and> usable alive now (lifetime_of l) i)
    \<and> (case selected of
         None \<Rightarrow> fresh \<or> (\<forall>i \<in> set (pool_idle p). usable alive now (lifetime_of l) i \<longrightarrow> idle_generation i \<noteq> generation)
       | Some c \<Rightarrow> \<not> fresh \<and> (\<exists>i. usable alive now (lifetime_of l) i \<and> idle_generation i = generation
            \<and> c = i\<lparr>idle_expires_at := min (idle_expires_at i) (idle_established i + lifetime_of l)\<rparr>
            \<and> add_mset i (mset (pool_idle p')) \<subseteq># mset (pool_idle p)))"
proof -
  define idle where "idle = filter (usable alive now (lifetime_of l)) (pool_idle p)"
  define spare where "spare = l_account_connections l - active"
  have sub: "mset idle \<subseteq># mset (pool_idle p)"
    by (simp add: idle_def multiset_filter_subset)
  have cut: "mset (take k xs) \<subseteq># mset xs" for k and xs :: "'c Idle list"
    by (metis append_take_drop_id mset_append mset_subset_eq_add_left)
  show ?thesis
  proof (cases "if fresh then None else rposition (\<lambda>i. idle_generation i = generation) idle")
    case None
    then have "(None, p\<lparr>pool_idle := take spare idle\<rparr>) = (selected, p')"
      using assms by (simp only: pool_select_eq Let_def option.case flip: idle_def spare_def)
    then have r: "selected = None" "pool_idle p' = take spare idle"
      by auto
    have "\<forall>i \<in> set (take spare idle). i \<in> set (pool_idle p) \<and> usable alive now (lifetime_of l) i"
      by (auto simp: idle_def dest!: in_set_takeD)
    moreover have "fresh \<or> (\<forall>i \<in> set idle. idle_generation i \<noteq> generation)"
      using None by (simp add: rposition_None split: if_splits)
    then have "fresh \<or> (\<forall>i \<in> set (pool_idle p). usable alive now (lifetime_of l) i \<longrightarrow> idle_generation i \<noteq> generation)"
      unfolding idle_def by auto
    ultimately show ?thesis
      unfolding r by simp
  next
    case (Some k)
    then have k: "rposition (\<lambda>i. idle_generation i = generation) idle = Some k" "\<not> fresh"
      by (simp_all split: if_splits)
    let ?c = "(idle ! k)\<lparr>idle_expires_at :=
        min (idle_expires_at (idle ! k)) (idle_established (idle ! k) + lifetime_of l)\<rparr>"
    have "(Some ?c, p\<lparr>pool_idle := take spare (swap_remove k idle)\<rparr>) = (selected, p')"
      using assms Some by (simp only: pool_select_eq Let_def option.case flip: idle_def spare_def)
    then have r: "selected = Some ?c" "pool_idle p' = take spare (swap_remove k idle)"
      by auto
    note i = rposition_Some [OF k(1)]
    then have removed: "add_mset (idle ! k) (mset (swap_remove k idle)) = mset idle"
      by (intro mset_swap_remove) simp
    have "add_mset (idle ! k) (mset (pool_idle p')) \<subseteq># mset idle"
      unfolding r(2) removed [symmetric] using cut by simp
    moreover from this have "set (pool_idle p') \<subseteq> set idle"
      by (metis mset_subset_eqD set_mset_mset subsetI union_iff add_mset_add_single)
    then have "\<forall>i \<in> set (pool_idle p'). i \<in> set (pool_idle p) \<and> usable alive now (lifetime_of l) i"
      by (auto simp: idle_def)
    moreover have "usable alive now (lifetime_of l) (idle ! k)"
      using i nth_mem [of k idle] unfolding idle_def by simp
    ultimately show ?thesis
      unfolding r(1) option.case using k(2) i sub by (blast intro: subset_mset.order_trans)
  qed
qed

text \<open>The waiters of one flight: \<open>join\<close>, the drop of a \<open>Waiter\<close>, and the worker's check.\<close>

inductive flight_step :: "flight \<times> nat \<Rightarrow> flight \<times> nat \<Rightarrow> bool" where
  flight_joined: "flight_join w = Some w' \<Longrightarrow> flight_step (w, live) (w', Suc live)"
| flight_left: "waiter_drop w = Some (b, w') \<Longrightarrow> flight_step (w, Suc live) (w', live)"
| flight_checked: "abandon_if_unobserved w = (b, w') \<Longrightarrow> flight_step (w, live) (w', live)"

lemma flight_reachable:
  "execution flight_step (Some 1, 1) n s \<Longrightarrow> (case fst s of None \<Rightarrow> snd s = 0 | Some k \<Rightarrow> snd s = k)"
proof (induction rule: execution.induct)
  case (execution_step n s s')
  from execution_step(2,3) show ?case
    by (induction rule: flight_step.induct)
      (auto simp: flight_join_def waiter_drop_def abandon_if_unobserved_def Let_def split: option.splits if_splits)
qed simp

text \<open>
  credential work is abandoned only when nobody waits for it. In every interleaving of
  joining, leaving and checking, the worker is told to stop exactly when there is no live
  waiter, a flight it has closed accepts no new waiter, and a live waiter never panics when it
  leaves and wakes the worker exactly when it was the last.
\<close>

theorem flight_abandoned_only_unobserved:
  assumes "execution flight_step (Some 1, 1) n (w, live)"
  shows "fst (abandon_if_unobserved w) = (live = 0)
    \<and> flight_join (snd (abandon_if_unobserved w)) = (if live = 0 then None else Some (Some (live + 1)))
    \<and> (0 < live \<longrightarrow> waiter_drop w = Some (live = 1, Some (live - 1)))"
  using flight_reachable [OF assms]
  by (auto simp: abandon_if_unobserved_def flight_join_def waiter_drop_def split: option.splits)

section \<open>Concrete executions\<close>

text \<open>One connection allowed: one caller is admitted and a second one waits.\<close>

definition example_pool_limits :: Limits where
  "example_pool_limits = limits_default\<lparr>l_account_connections := 1\<rparr>"

definition example_gate_waiter :: GateWaiter where
  "example_gate_waiter = \<lparr>gw_ticket = 0, gw_active_limit = 1\<rparr>"

definition example_pool :: "unit PoolSystem" where
  "example_pool =
     pool_system_new\<lparr>ps_gate := \<lparr>gate_active = 0, gate_waiting = [example_gate_waiter], gate_next_ticket = 1\<rparr>,
       ps_wake := {0}\<rparr>"

lemmas example_pool_defs = example_pool_def example_pool_limits_def example_gate_waiter_def
  pool_system_new_def gate_default_def limits_default_def

lemma example_pool_run:
  "execution (pool_step example_pool_limits) pool_system_new (Suc (Suc (Suc 0))) example_pool"
proof -
  let ?L = example_pool_limits and ?step = "pool_step example_pool_limits :: unit PoolSystem \<Rightarrow> _ \<Rightarrow> _"
  let ?g1 = "gate_default\<lparr>gate_active := 1\<rparr>"
  let ?g2 = "?g1\<lparr>gate_waiting := [example_gate_waiter], gate_next_ticket := 1\<rparr>"
  let ?s1 = "pool_system_new\<lparr>ps_gate := ?g1, ps_bare := 1\<rparr> :: unit PoolSystem"
  let ?s2 = "?s1\<lparr>ps_gate := ?g2, ps_wake := {0}\<rparr>"
  have within: "pool_within ?L ?L" by (simp add: pool_within_def)
  have g1: "gate_reserve (ps_gate (pool_system_new :: unit PoolSystem)) (l_account_connections ?L)
      (l_account_pending_requests ?L) = Inr (None, ?g1)"
    by (simp add: gate_reserve_def example_pool_defs)
  have g2: "gate_reserve (ps_gate ?s1) (l_account_connections ?L) (l_account_pending_requests ?L) = Inr (Some 0, ?g2)"
    by (simp add: gate_reserve_def example_pool_defs)
  have g3: "gate_drop (ps_gate ?s2) None = Some (ps_gate example_pool, Some 0)"
    by (simp add: gate_drop_def gate_notification_def example_pool_defs)
  have r1: "execution ?step pool_system_new (Suc 0) ?s1"
    using execution_step [where step = ?step, OF execution_start pool_granted [OF within g1]]
    by (simp add: pool_system_new_def)
  have r2: "execution ?step pool_system_new (Suc (Suc 0)) ?s2"
    using execution_step [where step = ?step, OF r1 pool_queued [OF within g2]]
    by (simp add: pool_system_new_def)
  have "0 < ps_bare ?s2" by simp
  then show ?thesis
    using execution_step [where step = ?step, OF r2 pool_dropped_bare [OF _ g3]]
    by (simp add: example_pool_defs notified_def)
qed

theorem pool_connections_bounded_witness:
  "length (pool_idle (ps_pool example_pool)) + ps_open example_pool \<le> 1
   \<and> length (gate_waiting (ps_gate example_pool)) \<le> 16"
  using pool_connections_bounded [OF example_pool_run] by (simp add: example_pool_defs)

theorem gate_fifo_live_witness:
  "gate_poll (ps_gate example_pool) 0 \<noteq> None \<and> 0 \<in> ps_wake example_pool"
proof -
  have w: "example_gate_waiter \<in> set (gate_waiting (ps_gate example_pool))"
    by (simp add: example_pool_def)
  show ?thesis
    using gate_fifo_live [OF example_pool_run _ w]
    by (simp add: example_pool_def gate_notification_def example_gate_waiter_def)
qed

definition example_idle :: "u64 \<Rightarrow> nat \<Rightarrow> unit Idle" where
  "example_idle generation t = idle_new limits_default generation () t 1"

theorem pool_select_safe_witness:
  "\<exists>selected p'. pool_select (\<lambda>_. True) 5 limits_default 7 False 1
       \<lparr>pool_idle = [example_idle 7 1, example_idle 8 2], pool_last_doctor = None\<rparr> = (selected, p')
     \<and> (case selected of None \<Rightarrow> False | Some c \<Rightarrow> idle_generation c = 7)"
proof -
  let ?p = "\<lparr>pool_idle = [example_idle 7 1, example_idle 8 2], pool_last_doctor = None\<rparr>"
  obtain selected p' where s: "pool_select (\<lambda>_. True) 5 limits_default 7 False 1 ?p = (selected, p')"
    by (cases "pool_select (\<lambda>_. True) 5 limits_default 7 False 1 ?p")
  have "usable (\<lambda>_. True) 5 (lifetime_of limits_default) (example_idle 7 1)"
    by code_simp
  then show ?thesis
    using pool_select_safe [OF s] s
    by (auto simp: example_idle_def idle_new_def split: option.splits)
qed

theorem flight_abandoned_only_unobserved_witness:
  "fst (abandon_if_unobserved (Some 1)) = False \<and> waiter_drop (Some 1) = Some (True, Some 0)"
  using flight_abandoned_only_unobserved [OF execution_start] by simp

end
