(* ===== verification/Requests.thy ===== *)
theory Requests
  imports Limits
begin

text \<open>
  Process-local request admission (\<open>src/src/service/requests.rs\<close>): an active-request budget, a
  per-account budget and one waiting queue. A panic of the source (\<open>expect\<close>, \<open>unwrap\<close>, an
  underflowing \<open>-=\<close>) is the value \<open>None\<close>. The \<open>Notify\<close> of a waiter is named by its ticket.
\<close>

section \<open>State and queue operations\<close>

record Waiting =
  wait_ticket :: u64
  wait_account :: string
  wait_head :: bool
  wait_active_limit :: nat
  wait_account_limit :: nat

record State =
  reserved :: nat
  active :: nat
  accounts :: "string \<rightharpoonup> nat"
  queue :: "Waiting list"
  next_ticket :: u64

definition requests_default :: State where
  "requests_default = \<lparr>reserved = 0, active = 0, accounts = Map.empty, queue = [], next_ticket = 0\<rparr>"

definition account_active :: "State \<Rightarrow> string \<Rightarrow> nat" where
  "account_active st a = (case accounts st a of None \<Rightarrow> 0 | Some n \<Rightarrow> n)"

definition eligible :: "State \<Rightarrow> Waiting \<Rightarrow> bool" where
  "eligible st w \<longleftrightarrow> wait_head w \<and> active st < wait_active_limit w
     \<and> account_active st (wait_account w) < wait_account_limit w"

definition next_eligible :: "State \<Rightarrow> Waiting option" where
  "next_eligible st = find (eligible st) (queue st)"

definition next_notification :: "State \<Rightarrow> u64 option" where
  "next_notification st = map_option wait_ticket (next_eligible st)"

fun take_ticket :: "u64 \<Rightarrow> Waiting list \<Rightarrow> (Waiting \<times> Waiting list) option" where
  "take_ticket t [] = None"
| "take_ticket t (w # ws) =
     (if wait_ticket w = t then Some (w, ws)
      else map_option (\<lambda>(v, vs). (v, w # vs)) (take_ticket t ws))"

fun promote :: "string \<Rightarrow> Waiting list \<Rightarrow> Waiting list" where
  "promote a [] = []"
| "promote a (w # ws) = (if wait_account w = a then w\<lparr>wait_head := True\<rparr> # ws else w # promote a ws)"

definition remove_waiting :: "State \<Rightarrow> u64 \<Rightarrow> (Waiting \<times> State) option" where
  "remove_waiting st t =
     map_option (\<lambda>(removed, rest).
        (removed, st\<lparr>queue := if wait_head removed then promote (wait_account removed) rest else rest\<rparr>))
       (take_ticket t (queue st))"

text \<open>\<open>xs[a..b].rotate_left(k)\<close> and the in-place recursive partition.\<close>

definition rotate_slice :: "nat \<Rightarrow> nat \<Rightarrow> nat \<Rightarrow> 'a list \<Rightarrow> 'a list" where
  "rotate_slice a b k xs =
     take a xs @ (let ys = take (b - a) (drop a xs) in drop k ys @ take k ys) @ drop b xs"

function partition_queue :: "string \<Rightarrow> Waiting list \<Rightarrow> Waiting list \<times> nat" where
  "partition_queue a q =
     (if length q \<le> 1 then (q, if \<exists>w \<in> set (take 1 q). wait_account w \<noteq> a then 1 else 0)
      else let middle = length q div 2;
               (left, left_others) = partition_queue a (take middle q);
               (right, right_others) = partition_queue a (drop middle q)
           in (rotate_slice left_others (middle + right_others) (middle - left_others) (left @ right),
               left_others + right_others))"
  by pat_completeness auto
termination
  by (relation "measure (\<lambda>(a, q). length q)") auto

declare partition_queue.simps [simp del]

fun position_of :: "string \<Rightarrow> Waiting list \<Rightarrow> nat option" where
  "position_of a [] = None"
| "position_of a (w # ws) = (if wait_account w = a then Some 0 else map_option Suc (position_of a ws))"

definition rotate_queue :: "string \<Rightarrow> Waiting list \<Rightarrow> Waiting list" where
  "rotate_queue a q =
     (case position_of a q of None \<Rightarrow> q
      | Some first \<Rightarrow>
          let group = length (takeWhile (\<lambda>w. wait_account w = a) (drop first q)) in
          if \<forall>w \<in> set (drop (first + group) q). wait_account w \<noteq> a
          then rotate_slice first (length q) group q
          else fst (partition_queue a q))"

definition rotate_waiting :: "State \<Rightarrow> string \<Rightarrow> State" where
  "rotate_waiting st a = st\<lparr>queue := rotate_queue a (queue st)\<rparr>"

section \<open>Reservation, admission, polling and release\<close>

definition reserve_request :: "State \<Rightarrow> Limits \<Rightarrow> State result" where
  "reserve_request st l =
     (if reserved st \<ge> l_active_requests l + l_queued_requests l then Inl (error_new RateLimited)
      else Inr (st\<lparr>reserved := reserved st + 1\<rparr>))"

definition drop_reservation :: "State \<Rightarrow> State option" where
  "drop_reservation st =
     (if reserved st = 0 then None else Some (st\<lparr>reserved := reserved st - 1\<rparr>))"

definition account_limit_for :: "Limits \<Rightarrow> string \<Rightarrow> nat" where
  "account_limit_for l a = (if a = [] then l_active_requests l else l_account_connections l)"

definition count_active :: "State \<Rightarrow> string \<Rightarrow> State" where
  "count_active st a =
     st\<lparr>active := active st + 1, accounts := (accounts st)(a \<mapsto> account_active st a + 1)\<rparr>"

datatype admit_result = Admitted State | Queued u64 State | Refused Error

definition waiting_for :: "string \<Rightarrow> Waiting list \<Rightarrow> Waiting list" where
  "waiting_for a q = filter (\<lambda>w. wait_account w = a) q"

definition admit :: "State \<Rightarrow> string \<Rightarrow> Limits \<Rightarrow> admit_result" where
  "admit st a l =
     (let waiting = length (waiting_for a (queue st));
          must_wait = active st \<ge> l_active_requests l \<or> account_active st a \<ge> account_limit_for l a
            \<or> waiting > 0 \<or> next_eligible st \<noteq> None
      in if \<not> must_wait then Admitted (count_active st a)
         else if waiting \<ge> l_account_pending_requests l \<or> length (queue st) \<ge> l_queued_requests l
         then Refused (error_new RateLimited)
         else Queued (next_ticket st)
           (st\<lparr>next_ticket := next_ticket st + 1,
              queue := queue st @ [\<lparr>wait_ticket = next_ticket st, wait_account = a,
                wait_head = (waiting = 0), wait_active_limit = l_active_requests l,
                wait_account_limit = account_limit_for l a\<rparr>]\<rparr>))"

text \<open>
  One turn of the waiting loop under the lock: \<open>None\<close> is a panic, \<open>Some None\<close> goes back to
  sleep, and otherwise the request is admitted and the next eligible waiter is notified.
\<close>

definition poll_waiting :: "State \<Rightarrow> u64 \<Rightarrow> string \<Rightarrow> (State \<times> u64 option) option option" where
  "poll_waiting st t a =
     (if is_some_and (next_eligible st) (\<lambda>w. wait_ticket w = t)
      then map_option (\<lambda>(w, st). let st = rotate_waiting (count_active st (wait_account w)) a
                                  in Some (st, next_notification st)) (remove_waiting st t)
      else Some None)"

text \<open>Dropping an \<open>Admission\<close>: one that still waits, or one that is active.\<close>

definition drop_admission :: "State \<Rightarrow> u64 option \<Rightarrow> string \<Rightarrow> (State \<times> u64 option) option" where
  "drop_admission st ticket a =
     (case ticket of
        Some t \<Rightarrow> map_option (\<lambda>(_, st). (st, next_notification st)) (remove_waiting st t)
      | None \<Rightarrow>
          (if active st = 0 then None
           else case accounts st a of None \<Rightarrow> None
           | Some n \<Rightarrow>
               if n = 0 then None
               else let st = rotate_waiting (st\<lparr>active := active st - 1,
                               accounts := (accounts st)(a := if n - 1 = 0 then None else Some (n - 1))\<rparr>) a
                    in Some (st, next_notification st)))"

section \<open>Rotation is a stable partition\<close>

lemma rotate_slice_append:
  "length p = a \<Longrightarrow> a + length x = m \<Longrightarrow> m + length y = b \<Longrightarrow>
   rotate_slice a b (m - a) (p @ x @ y @ r) = p @ y @ x @ r"
  by (auto simp: rotate_slice_def Let_def)

lemma filter_halves:
  "filter P (take n q) @ filter P (drop n q) = filter P q"
  by (simp flip: filter_append)

lemma partition_queue_eq:
  "partition_queue a q =
     (filter (\<lambda>w. wait_account w \<noteq> a) q @ waiting_for a q,
      length (filter (\<lambda>w. wait_account w \<noteq> a) q))"
proof (induction a q rule: partition_queue.induct)
  case (1 a q)
  let ?o = "filter (\<lambda>w. wait_account w \<noteq> a)" and ?w = "waiting_for a" and ?m = "length q div 2"
  show ?case
  proof (cases "length q \<le> 1")
    case True
    then have "q = [] \<or> (\<exists>w. q = [w])" by (cases q) auto
    then show ?thesis
      by (elim disjE exE) (simp_all add: partition_queue.simps waiting_for_def)
  next
    case False
    note IH = 1 [OF False refl]
    have left: "partition_queue a (take ?m q) = (?o (take ?m q) @ ?w (take ?m q), length (?o (take ?m q)))"
      by (rule IH(1))
    have right: "partition_queue a (drop ?m q) = (?o (drop ?m q) @ ?w (drop ?m q), length (?o (drop ?m q)))"
      by (rule IH(2) [OF left [symmetric]]) simp
    have sizes: "length (?o xs) + length (?w xs) = length xs" for xs
      by (simp add: waiting_for_def sum_length_filter_compl add.commute)
    have "rotate_slice (length (?o (take ?m q))) (?m + length (?o (drop ?m q)))
        (?m - length (?o (take ?m q)))
        (?o (take ?m q) @ ?w (take ?m q) @ ?o (drop ?m q) @ ?w (drop ?m q))
      = ?o (take ?m q) @ ?o (drop ?m q) @ ?w (take ?m q) @ ?w (drop ?m q)"
      by (rule rotate_slice_append) (use sizes [of "take ?m q"] in simp_all)
    also have "\<dots> = ?o q @ ?w q"
      using filter_halves [of _ ?m q] by (metis append.assoc waiting_for_def)
    finally show ?thesis
      using False left right filter_halves [of "\<lambda>w. wait_account w \<noteq> a" ?m q]
      by (subst partition_queue.simps) (simp add: Let_def flip: length_append)
  qed
qed

lemma position_of_None: "position_of a q = None \<longleftrightarrow> (\<forall>w \<in> set q. wait_account w \<noteq> a)"
  by (induction q) auto

lemma position_of_Some:
  "position_of a q = Some n \<Longrightarrow>
     n < length q \<and> wait_account (q ! n) = a \<and> (\<forall>w \<in> set (take n q). wait_account w \<noteq> a)"
proof (induction q arbitrary: n)
  case (Cons w q)
  then show ?case by (cases n) (auto split: if_splits)
qed simp

lemma rotate_queue_eq:
  "rotate_queue a q = filter (\<lambda>w. wait_account w \<noteq> a) q @ filter (\<lambda>w. wait_account w = a) q"
proof (cases "position_of a q")
  case None
  with position_of_None [of a q] show ?thesis
    by (simp add: rotate_queue_def filter_id_conv filter_empty_conv)
next
  case (Some n)
  let ?P = "\<lambda>w. wait_account w = a"
  define p g r where "p = take n q" and "g = takeWhile ?P (drop n q)"
    and "r = dropWhile ?P (drop n q)"
  have q: "q = p @ g @ r" and n: "length p = n"
    using position_of_Some [OF Some] by (simp_all add: p_def g_def r_def)
  have p: "\<forall>w \<in> set p. wait_account w \<noteq> a" and g: "\<forall>w \<in> set g. wait_account w = a"
    using position_of_Some [OF Some] by (auto simp: p_def g_def dest: set_takeWhileD)
  have r: "drop (n + length g) q = r"
    using q n by simp
  have whole: "rotate_slice n (length q) (length g) q = p @ r @ g"
    using rotate_slice_append [of p n g "n + length g" r "length q" "[]"] q n by simp
  show ?thesis
  proof (cases "\<forall>w \<in> set r. wait_account w \<noteq> a")
    case True
    then have "rotate_queue a q = p @ r @ g"
      using Some r whole by (simp add: rotate_queue_def Let_def flip: g_def)
    moreover have "filter (\<lambda>w. wait_account w \<noteq> a) q = p @ r" "filter ?P q = g"
      using p g True by (simp_all add: q filter_id_conv filter_empty_conv)
    ultimately show ?thesis by simp
  next
    case False
    then show ?thesis
      using Some r by (auto simp: rotate_queue_def Let_def partition_queue_eq waiting_for_def simp flip: g_def)
  qed
qed

text \<open>
  the queue rotation, with its grouped fast path and its in-place divide-and-conquer
  partition, is a stable partition: the account's waiters move behind all others and nobody
  changes order within either group.
\<close>

theorem rotate_stable_partition:
  "rotate_queue a q =
     filter (\<lambda>w. wait_account w \<noteq> a) q @ filter (\<lambda>w. wait_account w = a) q"
  by (rule rotate_queue_eq)

section \<open>The scheduler as a state machine\<close>

text \<open>
  The queue with its live handles: \<open>sch_wake\<close> holds the tickets whose \<open>Notify\<close> has a permit
  or whose future has not been polled since it was queued, \<open>sch_held\<close> the accounts of the
  active \<open>Admission\<close>s and \<open>sch_reservations\<close> the number of \<open>Reservation\<close>s. A step is one
  critical section of the source; requests may carry different limits within the ceiling \<open>L\<close>.
\<close>

record Scheduler =
  sch_state :: State
  sch_wake :: "u64 set"
  sch_held :: "string multiset"
  sch_reservations :: nat

definition scheduler_new :: Scheduler where
  "scheduler_new = \<lparr>sch_state = requests_default, sch_wake = {}, sch_held = {#}, sch_reservations = 0\<rparr>"

definition admission_within :: "Limits \<Rightarrow> Limits \<Rightarrow> bool" where
  "admission_within L l \<longleftrightarrow> l_active_requests l \<le> l_active_requests L
     \<and> l_account_connections l \<le> l_account_connections L
     \<and> l_account_pending_requests l \<le> l_account_pending_requests L
     \<and> l_queued_requests l \<le> l_queued_requests L"

inductive request_step :: "Limits \<Rightarrow> Scheduler \<Rightarrow> Scheduler \<Rightarrow> bool" for L where
  step_reserve:
    "admission_within L l \<Longrightarrow> reserve_request (sch_state s) l = Inr st \<Longrightarrow>
     request_step L s (s\<lparr>sch_state := st, sch_reservations := sch_reservations s + 1\<rparr>)"
| step_unreserve:
    "0 < sch_reservations s \<Longrightarrow> drop_reservation (sch_state s) = Some st \<Longrightarrow>
     request_step L s (s\<lparr>sch_state := st, sch_reservations := sch_reservations s - 1\<rparr>)"
| step_admitted:
    "admission_within L l \<Longrightarrow> admit (sch_state s) a l = Admitted st \<Longrightarrow>
     request_step L s (s\<lparr>sch_state := st, sch_held := add_mset a (sch_held s)\<rparr>)"
| step_queued:
    "admission_within L l \<Longrightarrow> admit (sch_state s) a l = Queued t st \<Longrightarrow>
     request_step L s (s\<lparr>sch_state := st, sch_wake := insert t (sch_wake s)\<rparr>)"
| step_sleep:
    "w \<in> set (queue (sch_state s)) \<Longrightarrow> wait_ticket w \<in> sch_wake s \<Longrightarrow>
     poll_waiting (sch_state s) (wait_ticket w) (wait_account w) = Some None \<Longrightarrow>
     request_step L s (s\<lparr>sch_wake := sch_wake s - {wait_ticket w}\<rparr>)"
| step_wake:
    "w \<in> set (queue (sch_state s)) \<Longrightarrow> wait_ticket w \<in> sch_wake s \<Longrightarrow>
     poll_waiting (sch_state s) (wait_ticket w) (wait_account w) = Some (Some (st, n)) \<Longrightarrow>
     request_step L s (s\<lparr>sch_state := st, sch_wake := notified n (sch_wake s - {wait_ticket w}),
       sch_held := add_mset (wait_account w) (sch_held s)\<rparr>)"
| step_cancel:
    "w \<in> set (queue (sch_state s)) \<Longrightarrow>
     drop_admission (sch_state s) (Some (wait_ticket w)) (wait_account w) = Some (st, n) \<Longrightarrow>
     request_step L s (s\<lparr>sch_state := st, sch_wake := notified n (sch_wake s - {wait_ticket w})\<rparr>)"
| step_release:
    "a \<in># sch_held s \<Longrightarrow> drop_admission (sch_state s) None a = Some (st, n) \<Longrightarrow>
     request_step L s (s\<lparr>sch_state := st, sch_wake := notified n (sch_wake s),
       sch_held := sch_held s - {#a#}\<rparr>)"

abbreviation request_run :: "Limits \<Rightarrow> nat \<Rightarrow> Scheduler \<Rightarrow> bool" where
  "request_run L \<equiv> execution (request_step L) scheduler_new"

subsection \<open>The invariant\<close>

definition flags_ok :: "Waiting list \<Rightarrow> bool" where
  "flags_ok ws = (case ws of [] \<Rightarrow> True | w # ws \<Rightarrow> wait_head w \<and> (\<forall>v \<in> set ws. \<not> wait_head v))"

definition account_ok :: "Waiting list \<Rightarrow> bool" where
  "account_ok ws \<longleftrightarrow> flags_ok ws \<and> sorted_wrt (<) (map wait_ticket ws)"

definition queue_ok :: "State \<Rightarrow> bool" where
  "queue_ok st \<longleftrightarrow> (\<forall>a. account_ok (waiting_for a (queue st)))
     \<and> distinct (map wait_ticket (queue st))
     \<and> (\<forall>w \<in> set (queue st). wait_ticket w < next_ticket st)"

definition counts_ok :: "State \<Rightarrow> string multiset \<Rightarrow> bool" where
  "counts_ok st held \<longleftrightarrow> active st = size held \<and> (\<forall>a. accounts st a \<noteq> Some 0)
     \<and> (\<forall>a. account_active st a = count held a)"

definition bounds_ok :: "Limits \<Rightarrow> State \<Rightarrow> bool" where
  "bounds_ok L st \<longleftrightarrow> active st \<le> l_active_requests L
     \<and> (\<forall>a. account_active st a \<le> account_limit_for L a)
     \<and> length (queue st) \<le> l_queued_requests L
     \<and> (\<forall>a. length (waiting_for a (queue st)) \<le> l_account_pending_requests L)
     \<and> (\<forall>w \<in> set (queue st). wait_active_limit w \<le> l_active_requests L
          \<and> wait_account_limit w \<le> account_limit_for L (wait_account w))
     \<and> reserved st \<le> l_active_requests L + l_queued_requests L"

definition wake_ok :: "State \<Rightarrow> u64 set \<Rightarrow> bool" where
  "wake_ok st wake \<longleftrightarrow> awake (next_notification st) wake"

definition scheduler_ok :: "Limits \<Rightarrow> Scheduler \<Rightarrow> bool" where
  "scheduler_ok L s \<longleftrightarrow> queue_ok (sch_state s) \<and> counts_ok (sch_state s) (sch_held s)
     \<and> bounds_ok L (sch_state s) \<and> wake_ok (sch_state s) (sch_wake s)
     \<and> reserved (sch_state s) = sch_reservations s"

subsection \<open>Queue operations keep the per-account queues\<close>

lemma waiting_for_simps [simp]:
  "waiting_for a [] = []"
  "waiting_for a (p @ q) = waiting_for a p @ waiting_for a q"
  "waiting_for a (w # q) = (if wait_account w = a then w # waiting_for a q else waiting_for a q)"
  by (simp_all add: waiting_for_def)

lemma set_waiting_for [simp]: "set (waiting_for a q) = {w \<in> set q. wait_account w = a}"
  by (auto simp: waiting_for_def)

lemma waiting_for_rotate [simp]: "waiting_for b (rotate_queue a q) = waiting_for b q"
  by (cases "a = b") (auto simp: rotate_queue_eq waiting_for_def filter_empty_conv intro: filter_cong)

lemma mset_rotate [simp]: "mset (rotate_queue a q) = mset q"
  by (simp add: rotate_queue_eq)

lemma rotate_queue_props [simp]:
  "set (rotate_queue a q) = set q" "length (rotate_queue a q) = length q"
  "distinct (map wait_ticket (rotate_queue a q)) = distinct (map wait_ticket q)"
  using mset_rotate [of a q]
  by (metis set_mset_mset, metis size_mset, metis mset_eq_imp_distinct_iff mset_map)

lemma waiting_for_promote:
  "waiting_for b (promote a q) =
     (if a = b then (case waiting_for a q of [] \<Rightarrow> [] | w # ws \<Rightarrow> w\<lparr>wait_head := True\<rparr> # ws)
      else waiting_for b q)"
  by (induction q) (auto split: list.splits)

lemma promote_props [simp]:
  "length (promote a q) = length q" "map wait_ticket (promote a q) = map wait_ticket q"
  "length (waiting_for b (promote a q)) = length (waiting_for b q)"
  by (induction q) auto

lemma set_promote: "v \<in> set (promote a q) \<Longrightarrow> \<exists>w \<in> set q. v = w \<or> v = w\<lparr>wait_head := True\<rparr>"
  by (induction q) (auto split: if_splits)

lemma take_ticket_Some:
  "take_ticket t q = Some (w, q') \<Longrightarrow> \<exists>p r. q = p @ w # r \<and> q' = p @ r \<and> wait_ticket w = t"
proof (induction q arbitrary: q')
  case (Cons v q)
  show ?case
  proof (cases "wait_ticket v = t")
    case False
    with Cons.prems obtain vs where vs: "take_ticket t q = Some (w, vs)" "q' = v # vs"
      by auto
    with Cons.IH obtain p r where "q = p @ w # r" "vs = p @ r" "wait_ticket w = t"
      by blast
    with vs have "v # q = (v # p) @ w # r \<and> q' = (v # p) @ r \<and> wait_ticket w = t" by simp
    then show ?thesis by blast
  next
    case True
    with Cons.prems have "v # q = [] @ w # q' \<and> q' = [] @ q' \<and> wait_ticket w = t" by simp
    then show ?thesis by blast
  qed
qed simp

lemma take_ticket_in: "w \<in> set q \<Longrightarrow> take_ticket (wait_ticket w) q \<noteq> None"
  by (induction q) auto

lemma remove_waiting_Some:
  assumes "remove_waiting st t = Some (w, st')"
  obtains p r where "queue st = p @ w # r" "wait_ticket w = t"
    "st' = st\<lparr>queue := if wait_head w then promote (wait_account w) (p @ r) else p @ r\<rparr>"
  using assms take_ticket_Some [of t "queue st" w] by (auto simp: remove_waiting_def)

lemma account_ok_remove:
  assumes "account_ok (ps @ w # rs)"
  shows "if wait_head w then ps = [] \<and> account_ok (case rs of [] \<Rightarrow> [] | v # vs \<Rightarrow> v\<lparr>wait_head := True\<rparr> # vs)
    else account_ok (ps @ rs)"
  using assms by (cases ps; cases rs) (auto simp: account_ok_def flags_ok_def sorted_wrt_append)

lemma remove_waiting_queue_ok:
  assumes "queue_ok st" and "remove_waiting st t = Some (w, st')"
  shows "queue_ok st'"
proof -
  from assms(2) obtain p r where q: "queue st = p @ w # r"
    and st': "st' = st\<lparr>queue := if wait_head w then promote (wait_account w) (p @ r) else p @ r\<rparr>"
    by (rule remove_waiting_Some)
  let ?a = "wait_account w"
  have ok: "account_ok (waiting_for b (queue st))" for b
    using assms(1) by (simp add: queue_ok_def)
  have own: "if wait_head w then waiting_for ?a p = [] \<and>
        account_ok (case waiting_for ?a r of [] \<Rightarrow> [] | v # vs \<Rightarrow> v\<lparr>wait_head := True\<rparr> # vs)
      else account_ok (waiting_for ?a p @ waiting_for ?a r)"
    using ok [of ?a] account_ok_remove by (simp add: q)
  have "account_ok (waiting_for b (queue st'))" for b
    using own ok [of b] by (cases "b = ?a") (auto simp: st' q waiting_for_promote)
  moreover have "distinct (map wait_ticket (queue st'))"
    using assms(1) by (simp add: queue_ok_def q st')
  moreover have "\<forall>v \<in> set (queue st'). wait_ticket v < next_ticket st'"
    using assms(1) by (auto simp: queue_ok_def q st' dest!: set_promote)
  ultimately show ?thesis by (simp add: queue_ok_def)
qed

lemma remove_waiting_fields:
  assumes "remove_waiting st t = Some (w, st')"
  shows "active st' = active st" "accounts st' = accounts st" "reserved st' = reserved st"
    "account_active st' = account_active st"
  using assms by (auto simp: remove_waiting_def account_active_def)

lemma remove_waiting_bounds:
  assumes "bounds_ok L st" and "remove_waiting st t = Some (w, st')"
  shows "bounds_ok L st'"
proof -
  from assms(2) obtain p r where q: "queue st = p @ w # r"
    and st': "st' = st\<lparr>queue := if wait_head w then promote (wait_account w) (p @ r) else p @ r\<rparr>"
    by (rule remove_waiting_Some)
  have "length (waiting_for b (queue st')) \<le> length (waiting_for b (queue st))" for b
    by (simp add: q st')
  then have "length (waiting_for b (queue st')) \<le> l_account_pending_requests L" for b
    using assms(1) le_trans by (fastforce simp: bounds_ok_def)
  moreover have "\<forall>v \<in> set (queue st'). wait_active_limit v \<le> l_active_requests L
      \<and> wait_account_limit v \<le> account_limit_for L (wait_account v)"
    using assms(1) by (auto simp: bounds_ok_def q st' dest!: set_promote)
  moreover have "length (queue st') \<le> l_queued_requests L"
    using assms(1) by (simp add: bounds_ok_def q st')
  ultimately show ?thesis
    using assms(1) remove_waiting_fields [OF assms(2)] by (simp add: bounds_ok_def)
qed

lemma rotate_waiting_ok [simp]:
  "queue_ok (rotate_waiting st a) = queue_ok st"
  "bounds_ok L (rotate_waiting st a) = bounds_ok L st"
  "counts_ok (rotate_waiting st a) held = counts_ok st held"
  "reserved (rotate_waiting st a) = reserved st"
  by (simp_all add: queue_ok_def bounds_ok_def counts_ok_def account_active_def rotate_waiting_def)

lemma count_active_ok:
  "queue_ok (count_active st a) = queue_ok st"
  "counts_ok st held \<Longrightarrow> counts_ok (count_active st a) (add_mset a held)"
  "reserved (count_active st a) = reserved st"
  "bounds_ok L st \<Longrightarrow> active st < l_active_requests L \<Longrightarrow> account_active st a < account_limit_for L a \<Longrightarrow>
     bounds_ok L (count_active st a)"
  by (auto simp: queue_ok_def counts_ok_def bounds_ok_def account_active_def count_active_def)

lemma account_limit_mono: "admission_within L l \<Longrightarrow> account_limit_for l a \<le> account_limit_for L a"
  by (simp add: admission_within_def account_limit_for_def)

lemma admit_Admitted:
  assumes "admit st a l = Admitted st'"
  shows "st' = count_active st a" "active st < l_active_requests l"
    "account_active st a < account_limit_for l a" "next_eligible st = None" "waiting_for a (queue st) = []"
  using assms by (auto simp: admit_def Let_def split: if_splits)

lemma admit_Queued:
  assumes "admit st a l = Queued t st'"
  shows "t = next_ticket st" "length (waiting_for a (queue st)) < l_account_pending_requests l"
    "length (queue st) < l_queued_requests l"
    "st' = st\<lparr>next_ticket := next_ticket st + 1,
       queue := queue st @ [\<lparr>wait_ticket = t, wait_account = a,
         wait_head = (waiting_for a (queue st) = []), wait_active_limit = l_active_requests l,
         wait_account_limit = account_limit_for l a\<rparr>]\<rparr>"
  using assms by (auto simp: admit_def Let_def split: if_splits)

lemma next_eligible_Some:
  assumes "next_eligible st = Some w"
  shows "w \<in> set (queue st)" "eligible st w"
  using assms by (auto simp: next_eligible_def find_Some_iff)

text \<open>An admission can only take the last free places: nobody else becomes eligible by it.\<close>

lemma count_active_eligible: "eligible (count_active st a) w \<Longrightarrow> eligible st w"
  by (auto simp: eligible_def count_active_def account_active_def split: if_splits option.splits)

lemma admit_Admitted_wake:
  "admit st a l = Admitted st' \<Longrightarrow> next_notification st' = None"
  using admit_Admitted [of st a l st'] count_active_eligible [of st a]
  by (auto simp: next_notification_def next_eligible_def find_None_iff count_active_def)

lemma account_ok_snoc:
  assumes "account_ok ws" and "\<forall>v \<in> set ws. wait_ticket v < wait_ticket w" and "wait_head w = (ws = [])"
  shows "account_ok (ws @ [w])"
  using assms by (cases ws) (auto simp: account_ok_def flags_ok_def sorted_wrt_append)

lemma admit_Queued_queue_ok:
  assumes "queue_ok st" and "admit st a l = Queued t st'" and "unat (next_ticket st) + 1 < 2 ^ 64"
  shows "queue_ok st'"
proof -
  note q = admit_Queued [OF assms(2)]
  have older: "\<forall>w \<in> set (queue st). wait_ticket w < next_ticket st"
    using assms(1) by (simp add: queue_ok_def)
  have "account_ok (waiting_for b (queue st'))" for b
    using assms(1) older by (auto simp: q(1,4) queue_ok_def intro!: account_ok_snoc)
  then show ?thesis
    using assms(1) older ticket_less_next [OF assms(3)]
    by (auto simp: queue_ok_def q(1,4) less_imp_le)
qed

lemma admit_Queued_bounds:
  assumes "bounds_ok L st" and "admission_within L l" and "admit st a l = Queued t st'"
  shows "bounds_ok L st'"
proof -
  note q = admit_Queued [OF assms(3)]
  show ?thesis
    using assms(1,2) q(2,3) account_limit_mono [OF assms(2)]
    by (auto simp: bounds_ok_def q(4) admission_within_def account_active_def)
qed

lemma find_append: "find P (xs @ ys) = (case find P xs of None \<Rightarrow> find P ys | Some x \<Rightarrow> Some x)"
  by (induction xs) auto

lemma admit_Queued_wake:
  assumes "wake_ok st wake" and "admit st a l = Queued t st'"
  shows "wake_ok st' (insert t wake)"
proof -
  note q = admit_Queued [OF assms(2)]
  have "eligible st' = eligible st"
    by (rule ext) (simp add: eligible_def q(4) account_active_def)
  then show ?thesis
    using assms(1)
    by (auto simp: wake_ok_def next_notification_def next_eligible_def q(4) find_append split: option.splits)
qed

text \<open>Releases and admissions from the queue end by notifying whoever is now eligible.\<close>

lemma wake_ok_notified: "wake_ok st (notified (next_notification st) wake)"
  by (simp add: wake_ok_def)

lemma distinct_ticket:
  "queue_ok st \<Longrightarrow> v \<in> set (queue st) \<Longrightarrow> w \<in> set (queue st) \<Longrightarrow> wait_ticket v = wait_ticket w \<Longrightarrow> v = w"
  by (simp add: queue_ok_def distinct_map inj_on_def)

lemma poll_waiting_admits:
  assumes "queue_ok st" and "poll_waiting st t a = Some (Some (st', n))"
  obtains w st1 where "next_eligible st = Some w" "wait_ticket w = t" "remove_waiting st t = Some (w, st1)"
    "st' = rotate_waiting (count_active st1 (wait_account w)) a" "n = next_notification st'"
proof -
  from assms(2) obtain w v st1 where w: "next_eligible st = Some w" "wait_ticket w = t"
    and r: "remove_waiting st t = Some (v, st1)"
    and st': "st' = rotate_waiting (count_active st1 (wait_account v)) a" "n = next_notification st'"
    by (auto simp: poll_waiting_def is_some_and_iff Let_def split: if_splits)
  have "v \<in> set (queue st)" "wait_ticket v = t"
    by (rule remove_waiting_Some [OF r], simp)+
  then have "v = w"
    using distinct_ticket [OF assms(1)] next_eligible_Some(1) [OF w(1)] w(2) by simp
  with w r st' that show thesis by blast
qed

lemma poll_waiting_ok:
  assumes "queue_ok st" "counts_ok st held" "bounds_ok L st"
    and w: "w \<in> set (queue st)"
    and poll: "poll_waiting st (wait_ticket w) (wait_account w) = Some (Some (st', n))"
  shows "queue_ok st'" "counts_ok st' (add_mset (wait_account w) held)" "bounds_ok L st'"
    "n = next_notification st'" "reserved st' = reserved st"
proof -
  from assms(1) poll obtain v st1 where v: "next_eligible st = Some v" "wait_ticket v = wait_ticket w"
    and r: "remove_waiting st (wait_ticket w) = Some (v, st1)"
    and st': "st' = rotate_waiting (count_active st1 (wait_account v)) (wait_account w)"
    and n: "n = next_notification st'"
    by (rule poll_waiting_admits)
  have "v = w"
    using distinct_ticket [OF assms(1)] next_eligible_Some(1) [OF v(1)] w v(2) by simp
  note st1 = remove_waiting_queue_ok [OF assms(1) r] remove_waiting_bounds [OF assms(3) r]
    remove_waiting_fields [OF r]
  have "active st1 < l_active_requests L" "account_active st1 (wait_account w) < account_limit_for L (wait_account w)"
    using next_eligible_Some(2) [OF v(1)] assms(3) w st1 \<open>v = w\<close>
    by (fastforce simp: eligible_def bounds_ok_def)+
  moreover have "counts_ok st1 held"
    using assms(2) st1 by (simp add: counts_ok_def)
  ultimately show "queue_ok st'" "counts_ok st' (add_mset (wait_account w) held)" "bounds_ok L st'"
    "n = next_notification st'" "reserved st' = reserved st"
    using st1 n by (simp_all add: st' \<open>v = w\<close> count_active_ok)
qed

lemma cancel_ok:
  assumes "queue_ok st" "counts_ok st held" "bounds_ok L st"
    and "drop_admission st (Some t) a = Some (st', n)"
  shows "queue_ok st'" "counts_ok st' held" "bounds_ok L st'"
    "n = next_notification st'" "reserved st' = reserved st"
proof -
  from assms(4) obtain w where r: "remove_waiting st t = Some (w, st')" and n: "n = next_notification st'"
    by (auto simp: drop_admission_def)
  show "queue_ok st'" "counts_ok st' held" "bounds_ok L st'" "n = next_notification st'" "reserved st' = reserved st"
    using remove_waiting_queue_ok [OF assms(1) r] remove_waiting_bounds [OF assms(3) r]
      remove_waiting_fields [OF r] assms(2) n
    by (simp_all add: counts_ok_def)
qed

lemma release_ok:
  assumes "queue_ok st" "counts_ok st held" "bounds_ok L st" and a: "a \<in># held"
    and "drop_admission st None a = Some (st', n)"
  shows "queue_ok st'" "counts_ok st' (held - {#a#})" "bounds_ok L st'"
    "n = next_notification st'" "reserved st' = reserved st"
proof -
  let ?dec = "\<lambda>k. st\<lparr>active := active st - 1,
      accounts := (accounts st)(a := if k - 1 = 0 then None else Some (k - 1))\<rparr>"
  from assms(5) obtain k where k: "accounts st a = Some k" "k \<noteq> 0"
    and st': "st' = rotate_waiting (?dec k) a" and n: "n = next_notification st'"
    by (auto simp: drop_admission_def Let_def split: if_splits option.splits)
  have "account_active (?dec k) b = count (held - {#a#}) b" for b
    using assms(2) k by (auto simp: counts_ok_def account_active_def dest!: spec [of _ b])
  moreover have "active (?dec k) = size (held - {#a#})"
    using assms(2) a by (simp add: counts_ok_def size_Diff_singleton)
  ultimately have "counts_ok (?dec k) (held - {#a#})"
    using assms(2) by (simp add: counts_ok_def)
  moreover have "queue_ok (?dec k)"
    using assms(1) by (simp add: queue_ok_def)
  moreover have "account_active (?dec k) b \<le> account_active st b" for b
    using k by (simp add: account_active_def)
  then have "account_active (?dec k) b \<le> account_limit_for L b" for b
    using assms(3) le_trans unfolding bounds_ok_def by blast
  then have "bounds_ok L (?dec k)"
    using assms(3) unfolding bounds_ok_def by (simp add: le_diff_conv)
  ultimately show "queue_ok st'" "counts_ok st' (held - {#a#})" "bounds_ok L st'"
    "n = next_notification st'" "reserved st' = reserved st"
    using n unfolding st' by simp_all
qed

text \<open>The counters agree with the live handles, so no operation on a live handle panics.\<close>

lemma handles_never_panic:
  assumes "counts_ok st held"
  shows "w \<in> set (queue st) \<Longrightarrow> poll_waiting st (wait_ticket w) b \<noteq> None"
    and "w \<in> set (queue st) \<Longrightarrow> drop_admission st (Some (wait_ticket w)) b \<noteq> None"
    and "a \<in># held \<Longrightarrow> drop_admission st None a \<noteq> None"
proof -
  have found: "remove_waiting st (wait_ticket w) \<noteq> None" if "w \<in> set (queue st)"
    using take_ticket_in [OF that] by (auto simp: remove_waiting_def)
  show "w \<in> set (queue st) \<Longrightarrow> poll_waiting st (wait_ticket w) b \<noteq> None"
    "w \<in> set (queue st) \<Longrightarrow> drop_admission st (Some (wait_ticket w)) b \<noteq> None"
    using found by (auto simp: poll_waiting_def drop_admission_def Let_def)
  assume a: "a \<in># held"
  then have "account_active st a \<noteq> 0" "active st \<noteq> 0"
    using assms by (auto simp: counts_ok_def)
  then show "drop_admission st None a \<noteq> None"
    by (auto simp: drop_admission_def account_active_def Let_def split: option.splits)
qed

lemma sleep_keeps_wake:
  assumes "wake_ok st wake" and "poll_waiting st t a = Some None"
  shows "wake_ok st (wake - {t})"
  using assms
  by (cases "next_eligible st")
    (auto simp: wake_ok_def poll_waiting_def next_notification_def is_some_and_iff Let_def
      split: option.splits if_splits)

lemma reserved_irrelevant [simp]:
  "queue_ok (st\<lparr>reserved := n\<rparr>) = queue_ok st" "counts_ok (st\<lparr>reserved := n\<rparr>) held = counts_ok st held"
  "wake_ok (st\<lparr>reserved := n\<rparr>) wake = wake_ok st wake"
  "bounds_ok L st \<Longrightarrow> n \<le> l_active_requests L + l_queued_requests L \<Longrightarrow> bounds_ok L (st\<lparr>reserved := n\<rparr>)"
proof -
  have "eligible (st\<lparr>reserved := n\<rparr>) = eligible st"
    by (rule ext) (simp add: eligible_def account_active_def)
  then show "wake_ok (st\<lparr>reserved := n\<rparr>) wake = wake_ok st wake"
    by (simp add: wake_ok_def next_notification_def next_eligible_def)
qed (simp_all add: queue_ok_def counts_ok_def bounds_ok_def account_active_def)

lemma request_step_ok:
  assumes "request_step L s s'" and "scheduler_ok L s" and "unat (next_ticket (sch_state s)) + 1 < 2 ^ 64"
  shows "scheduler_ok L s'"
  using assms
proof (induction rule: request_step.induct)
  case (step_reserve l s st)
  then show ?case
    by (auto simp: scheduler_ok_def reserve_request_def admission_within_def split: if_splits)
next
  case (step_unreserve s st)
  moreover have "reserved (sch_state s) \<le> l_active_requests L + l_queued_requests L"
    using step_unreserve(3) by (simp add: scheduler_ok_def bounds_ok_def)
  ultimately show ?case
    by (auto simp: scheduler_ok_def drop_reservation_def split: if_splits)
next
  case (step_admitted l s a st)
  note ad = admit_Admitted [OF step_admitted(2)] admit_Admitted_wake [OF step_admitted(2)]
  have "active (sch_state s) < l_active_requests L" "account_active (sch_state s) a < account_limit_for L a"
    using ad(2,3) account_limit_mono [OF step_admitted(1), of a] step_admitted(1)
    by (simp_all add: admission_within_def)
  then show ?case
    using step_admitted(3) ad(6) by (simp add: scheduler_ok_def ad(1) count_active_ok wake_ok_def)
next
  case (step_queued l s a t st)
  have "counts_ok st (sch_held s)" "reserved st = reserved (sch_state s)"
    using step_queued(3) admit_Queued(4) [OF step_queued(2)]
    by (simp_all add: scheduler_ok_def counts_ok_def account_active_def)
  then show ?case
    using step_queued(3) admit_Queued_queue_ok [OF _ step_queued(2,4)]
      admit_Queued_bounds [OF _ step_queued(1,2)] admit_Queued_wake [OF _ step_queued(2)]
    by (simp add: scheduler_ok_def)
next
  case (step_sleep w s)
  then show ?case
    using sleep_keeps_wake by (simp add: scheduler_ok_def)
next
  case (step_wake w s st n)
  then show ?case
    using poll_waiting_ok [OF _ _ _ step_wake(1,3), of "sch_held s" L] wake_ok_notified
    by (simp add: scheduler_ok_def)
next
  case (step_cancel w s st n)
  then show ?case
    using cancel_ok [OF _ _ _ step_cancel(2), of "sch_held s" L] wake_ok_notified
    by (simp add: scheduler_ok_def)
next
  case (step_release a s st n)
  then show ?case
    using release_ok [OF _ _ _ step_release(1,2), of L] wake_ok_notified
    by (simp add: scheduler_ok_def)
qed

lemma request_step_ticket:
  "request_step L s s' \<Longrightarrow> unat (next_ticket (sch_state s')) \<le> unat (next_ticket (sch_state s)) + 1"
  by (induction rule: request_step.induct)
    (auto simp: reserve_request_def drop_reservation_def admit_def poll_waiting_def drop_admission_def
      remove_waiting_def rotate_waiting_def count_active_def Let_def unat_word_ariths
      split: if_splits option.splits)

interpretation req: ticket_machine "request_step L" scheduler_new "scheduler_ok L"
    "\<lambda>s. next_ticket (sch_state s)" for L
proof
  show "scheduler_ok L scheduler_new"
    by (simp add: scheduler_new_def requests_default_def scheduler_ok_def queue_ok_def counts_ok_def
        bounds_ok_def wake_ok_def account_ok_def flags_ok_def account_active_def next_notification_def
        next_eligible_def)
  show "next_ticket (sch_state scheduler_new) = 0"
    by (simp add: scheduler_new_def requests_default_def)
qed (use request_step_ok request_step_ticket in blast)+

section \<open>What the scheduler guarantees\<close>

text \<open>
  C6: in every execution, whatever requests arrive, are cancelled or finish in any order, the
  admitted requests never exceed the active limit nor the connection limit of their account, the
  queue and each account's share of it stay within their limits, and no operation on a live
  reservation, waiter or admission panics.
\<close>

theorem requests_bounded:
  assumes "request_run L n s" and "n < 2 ^ 64"
  shows "size (sch_held s) \<le> l_active_requests L
    \<and> count (sch_held s) a \<le> account_limit_for L a
    \<and> length (queue (sch_state s)) \<le> l_queued_requests L
    \<and> length (waiting_for a (queue (sch_state s))) \<le> l_account_pending_requests L
    \<and> sch_reservations s \<le> l_active_requests L + l_queued_requests L
    \<and> (0 < sch_reservations s \<longrightarrow> drop_reservation (sch_state s) \<noteq> None)
    \<and> (a \<in># sch_held s \<longrightarrow> drop_admission (sch_state s) None a \<noteq> None)
    \<and> (w \<in> set (queue (sch_state s)) \<longrightarrow>
         poll_waiting (sch_state s) (wait_ticket w) (wait_account w) \<noteq> None
         \<and> drop_admission (sch_state s) (Some (wait_ticket w)) (wait_account w) \<noteq> None)"
proof -
  have ok: "scheduler_ok L s"
    by (rule req.execution_inv [OF assms])
  then have c: "counts_ok (sch_state s) (sch_held s)" and b: "bounds_ok L (sch_state s)"
    by (simp_all add: scheduler_ok_def)
  have "drop_reservation (sch_state s) \<noteq> None" if "0 < sch_reservations s"
    using ok that by (simp add: scheduler_ok_def drop_reservation_def)
  moreover have "account_active (sch_state s) a \<le> account_limit_for L a"
    "length (waiting_for a (queue (sch_state s))) \<le> l_account_pending_requests L"
    using b unfolding bounds_ok_def by blast+
  ultimately show ?thesis
    using ok c b handles_never_panic [OF c]
    by (simp add: scheduler_ok_def counts_ok_def bounds_ok_def)
qed

text \<open>
  C7: no wakeup is lost. In every reachable state, if some waiter could be admitted then the
  first such waiter has a wakeup pending, its next poll admits it, and the poll passes the
  notification on to whoever is eligible after it.
\<close>

theorem requests_no_lost_wakeup:
  assumes "request_run L n s" and "n < 2 ^ 64" and "next_eligible (sch_state s) = Some w"
  shows "wait_ticket w \<in> sch_wake s
    \<and> (\<exists>st. poll_waiting (sch_state s) (wait_ticket w) (wait_account w) = Some (Some (st, next_notification st))
         \<and> request_step L s (s\<lparr>sch_state := st,
              sch_wake := notified (next_notification st) (sch_wake s - {wait_ticket w}),
              sch_held := add_mset (wait_account w) (sch_held s)\<rparr>))"
proof -
  have ok: "scheduler_ok L s"
    by (rule req.execution_inv [OF assms(1,2)])
  have w: "w \<in> set (queue (sch_state s))"
    by (rule next_eligible_Some(1) [OF assms(3)])
  have awake: "wait_ticket w \<in> sch_wake s"
    using ok assms(3) by (simp add: scheduler_ok_def wake_ok_def next_notification_def)
  have "counts_ok (sch_state s) (sch_held s)"
    using ok by (simp add: scheduler_ok_def)
  from handles_never_panic(1) [OF this w, of "wait_account w"] assms(3) obtain st where poll:
    "poll_waiting (sch_state s) (wait_ticket w) (wait_account w) = Some (Some (st, next_notification st))"
    by (force simp: poll_waiting_def Let_def)
  show ?thesis
    using awake poll step_wake [OF w awake poll] by blast
qed

text \<open>
  C8: admission from the queue is first-in first-out within an account and round-robin between
  accounts. The admitted waiter is the oldest of its account, everybody else stays in order, and
  the account's remaining waiters now stand behind all other accounts.
\<close>

theorem requests_fair:
  assumes "request_run L n s" and "n < 2 ^ 64" and "w \<in> set (queue (sch_state s))"
    and "poll_waiting (sch_state s) (wait_ticket w) (wait_account w) = Some (Some (st, m))"
  shows "(\<forall>v \<in> set (queue (sch_state s)). wait_account v = wait_account w \<longrightarrow> wait_ticket w \<le> wait_ticket v)
    \<and> map wait_ticket (queue st) =
        map wait_ticket (filter (\<lambda>v. wait_account v \<noteq> wait_account w) (queue (sch_state s)))
        @ tl (map wait_ticket (waiting_for (wait_account w) (queue (sch_state s))))"
proof -
  let ?st = "sch_state s" and ?a = "wait_account w"
  have q: "queue_ok ?st"
    using req.execution_inv [OF assms(1,2)] by (simp add: scheduler_ok_def)
  from q assms(4) obtain v st1 where v: "next_eligible ?st = Some v" "wait_ticket v = wait_ticket w"
    and r: "remove_waiting ?st (wait_ticket w) = Some (v, st1)"
    and st: "st = rotate_waiting (count_active st1 (wait_account v)) ?a"
    by (rule poll_waiting_admits)
  have "v = w"
    using distinct_ticket [OF q] next_eligible_Some(1) [OF v(1)] assms(3) v(2) by simp
  have head: "wait_head w"
    using next_eligible_Some(2) [OF v(1)] by (simp add: \<open>v = w\<close> eligible_def)
  from r obtain p t where split: "queue ?st = p @ w # t"
    and st1: "st1 = ?st\<lparr>queue := promote ?a (p @ t)\<rparr>"
    using head by (auto simp: \<open>v = w\<close> elim!: remove_waiting_Some)
  have own: "account_ok (waiting_for ?a (queue ?st))"
    using q by (simp add: queue_ok_def)
  then have "waiting_for ?a p = []"
    using account_ok_remove head by (fastforce simp: split)
  then have whole: "waiting_for ?a (queue ?st) = w # waiting_for ?a t"
    by (simp add: split)
  have "\<forall>u \<in> set (waiting_for ?a (queue ?st)). wait_ticket w \<le> wait_ticket u"
    using own unfolding whole by (auto simp: account_ok_def)
  then have "\<forall>u \<in> set (queue ?st). wait_account u = ?a \<longrightarrow> wait_ticket w \<le> wait_ticket u"
    by simp
  moreover have tickets: "map wait_ticket (waiting_for ?a (promote ?a xs)) = map wait_ticket (waiting_for ?a xs)"
    "filter (\<lambda>v. wait_account v \<noteq> ?a) (promote ?a xs) = filter (\<lambda>v. wait_account v \<noteq> ?a) xs" for xs
    by (induction xs) auto
  moreover have "queue st = filter (\<lambda>v. wait_account v \<noteq> ?a) (p @ t) @ waiting_for ?a (promote ?a (p @ t))"
    by (simp add: st st1 \<open>v = w\<close> rotate_waiting_def count_active_def rotate_queue_eq tickets
        flip: waiting_for_def)
  ultimately show ?thesis
    using \<open>waiting_for ?a p = []\<close> whole by (simp add: tickets split)
qed

section \<open>A concrete execution\<close>

text \<open>
  One active place: the first request of account \<open>a\<close> is admitted, a second one and one of
  account \<open>b\<close> wait, and the first is released.
\<close>

definition example_limits :: Limits where
  "example_limits = limits_default\<lparr>l_active_requests := 1, l_account_connections := 1\<rparr>"

definition example_waiting :: "u64 \<Rightarrow> string \<Rightarrow> Waiting" where
  "example_waiting t a = \<lparr>wait_ticket = t, wait_account = a, wait_head = True,
     wait_active_limit = 1, wait_account_limit = 1\<rparr>"

definition example_scheduler :: Scheduler where
  "example_scheduler =
     \<lparr>sch_state = \<lparr>reserved = 0, active = 0, accounts = Map.empty,
        queue = [example_waiting 1 ''b'', example_waiting 0 ''a''], next_ticket = 2\<rparr>,
      sch_wake = {0, 1}, sch_held = {#}, sch_reservations = 0\<rparr>"

lemmas example_requests_defs = example_limits_def example_waiting_def example_scheduler_def
  limits_default_def scheduler_new_def requests_default_def admission_within_def

lemmas request_eval = admit_def count_active_def account_active_def account_limit_for_def
  next_eligible_def eligible_def drop_admission_def rotate_waiting_def rotate_queue_eq
  next_notification_def notified_def Let_def

lemma example_request_run: "request_run example_limits (Suc (Suc (Suc (Suc 0)))) example_scheduler"
proof -
  let ?L = example_limits
  let ?st1 = "requests_default\<lparr>active := 1, accounts := [''a'' \<mapsto> 1]\<rparr>"
  let ?s1 = "scheduler_new\<lparr>sch_state := ?st1, sch_held := {#''a''#}\<rparr>"
  let ?st2 = "?st1\<lparr>next_ticket := 1, queue := [example_waiting 0 ''a'']\<rparr>"
  let ?s2 = "?s1\<lparr>sch_state := ?st2, sch_wake := {0}\<rparr>"
  let ?st3 = "?st1\<lparr>next_ticket := 2, queue := [example_waiting 0 ''a'', example_waiting 1 ''b'']\<rparr>"
  let ?s3 = "?s2\<lparr>sch_state := ?st3, sch_wake := {0, 1}\<rparr>"
  have within: "admission_within ?L ?L" by (simp add: admission_within_def)
  have a1: "admit (sch_state scheduler_new) ''a'' ?L = Admitted ?st1"
    by (simp add: example_requests_defs request_eval)
  have a2: "admit (sch_state ?s1) ''a'' ?L = Queued 0 ?st2"
    by (simp add: example_requests_defs request_eval)
  have a3: "admit (sch_state ?s2) ''b'' ?L = Queued 1 ?st3"
    by (simp add: example_requests_defs request_eval)
  have a4: "drop_admission (sch_state ?s3) None ''a'' = Some (sch_state example_scheduler, Some 1)"
    by (simp add: example_requests_defs request_eval)
  have r1: "request_run ?L (Suc 0) ?s1"
    using execution_step [where step = "request_step ?L", OF execution_start step_admitted [OF within a1]] by (simp add: example_requests_defs)
  have r2: "request_run ?L (Suc (Suc 0)) ?s2"
    using execution_step [where step = "request_step ?L", OF r1 step_queued [OF within a2]] by (simp add: example_requests_defs)
  have r3: "request_run ?L (Suc (Suc (Suc 0))) ?s3"
    using execution_step [where step = "request_step ?L", OF r2 step_queued [OF within a3]]
    by (simp add: example_requests_defs insert_commute)
  have held: "''a'' \<in># sch_held ?s3" by simp
  show ?thesis
    using execution_step [where step = "request_step ?L", OF r3 step_release [OF held a4]]
    by (simp add: example_requests_defs notified_def insert_commute)
qed

theorem requests_bounded_witness:
  "size (sch_held example_scheduler) \<le> 1 \<and> length (queue (sch_state example_scheduler)) \<le> 64
   \<and> drop_admission (sch_state example_scheduler) (Some 0) ''a'' \<noteq> None"
  using requests_bounded [OF example_request_run, of "''a''" "example_waiting 0 ''a''"]
  by (simp add: example_requests_defs)

lemma example_next_eligible:
  "next_eligible (sch_state example_scheduler) = Some (example_waiting 1 ''b'')"
  by (simp add: example_requests_defs request_eval)

lemma requests_poll_example:
  "\<exists>st m. poll_waiting (sch_state example_scheduler) (wait_ticket (example_waiting 1 ''b''))
     (wait_account (example_waiting 1 ''b'')) = Some (Some (st, m))"
  unfolding poll_waiting_def example_next_eligible
  by (simp add: remove_waiting_def example_scheduler_def example_waiting_def Let_def)

theorem requests_no_lost_wakeup_witness:
  "(1 :: u64) \<in> sch_wake example_scheduler
   \<and> (\<exists>st. poll_waiting (sch_state example_scheduler) 1 ''b'' = Some (Some (st, next_notification st)))"
  using requests_no_lost_wakeup [OF example_request_run _ example_next_eligible]
  by (auto simp: example_waiting_def)

theorem requests_fair_witness:
  "\<exists>st m. poll_waiting (sch_state example_scheduler) 1 ''b'' = Some (Some (st, m))
     \<and> map wait_ticket (queue st) = [0]"
proof -
  let ?w = "example_waiting 1 ''b''"
  have w: "?w \<in> set (queue (sch_state example_scheduler))"
    by (simp add: example_scheduler_def)
  obtain st m where poll:
    "poll_waiting (sch_state example_scheduler) (wait_ticket ?w) (wait_account ?w) = Some (Some (st, m))"
    using requests_poll_example by auto
  with requests_fair [OF example_request_run _ w poll] show ?thesis
    by (auto simp: example_scheduler_def example_waiting_def)
qed

end
