(* ===== verification/Tokens.thy ===== *)
theory Tokens
  imports Encoding
begin

text \<open>
  Installation-authenticated references and continuation tokens
  (\<open>src/src/service/tokens.rs\<close>). The base64 engine, the keyed digest and the JSON reader are
  third-party code: they are parameters, and what the source relies on is stated as the named
  assumptions \<open>codec_ok\<close> and \<open>mac_ok\<close>.
\<close>

section \<open>The primitives\<close>

record MessageReference =
  ref_account :: string
  ref_generation :: u64
  ref_mailbox :: string
  ref_uid_validity :: u32
  ref_uid :: u32

text \<open>\<open>URL_SAFE_NO_PAD\<close> and \<open>base64::encoded_len(_, false)\<close>; \<open>hmac::sign\<close> under the installation key.\<close>

record token_host =
  b64_encode :: "bytes \<Rightarrow> string"
  b64_decode :: "string \<Rightarrow> bytes option"
  b64_encoded_len :: "nat \<Rightarrow> nat option"
  hmac_sign :: "string \<Rightarrow> bytes"
  hmac_verify :: "string \<Rightarrow> bytes \<Rightarrow> bool"

text \<open>
  The engine is a bijection between byte strings and its canonical texts, which are letters,
  digits, \<open>-\<close> and \<open>_\<close>; the announced length is the real one.
\<close>

definition codec_ok :: "token_host \<Rightarrow> bool" where
  "codec_ok h \<longleftrightarrow> (\<forall>b. b64_decode h (b64_encode h b) = Some b)
     \<and> (\<forall>t b. b64_decode h t = Some b \<longrightarrow> b64_encode h b = t)
     \<and> (\<forall>b. CHR ''.'' \<notin> set (b64_encode h b))
     \<and> (\<forall>b. b64_encoded_len h (length b) = Some (length (b64_encode h b)))"

definition mac_ok :: "token_host \<Rightarrow> bool" where
  "mac_ok h \<longleftrightarrow> (\<forall>m. length (hmac_sign h m) = 32) \<and> (\<forall>m t. hmac_verify h m t \<longleftrightarrow> t = hmac_sign h m)"

section \<open>Encoding and decoding\<close>

text \<open>
  \<open>usize\<close> additions are checked; the source's inner \<open>unwrap\<close> of the length of a
  tag is total because the engine knows every small length.
\<close>

definition token_length :: "token_host \<Rightarrow> string \<Rightarrow> nat \<Rightarrow> nat option" where
  "token_length h kind payload =
     Option.bind (b64_encoded_len h payload) (\<lambda>n.
     Option.bind (checked_add n (length kind)) (\<lambda>n.
       checked_add n (2 + the (b64_encoded_len h 32))))"

definition token_encode :: "token_host \<Rightarrow> ('v \<Rightarrow> serialization) \<Rightarrow> string \<Rightarrow> 'v \<Rightarrow> nat \<Rightarrow> string result" where
  "token_encode h ser kind v maximum =
     and_then (serialize_bounded (ser v) maximum) (\<lambda>payload.
       case token_length h kind (length payload) of
         None \<Rightarrow> Inl (error_new ResponseTooLarge)
       | Some n \<Rightarrow>
           if n > maximum then Inl (error_new ResponseTooLarge)
           else let signed = kind @ ''.'' @ b64_encode h payload
                in Inr (signed @ ''.'' @ b64_encode h (hmac_sign h signed)))"

definition token_decode ::
  "token_host \<Rightarrow> (bytes \<Rightarrow> 'v option) \<Rightarrow> string \<Rightarrow> string \<Rightarrow> nat \<Rightarrow> ErrorCode \<Rightarrow> 'v result" where
  "token_decode h parse kind token maximum code =
     (let invalid = error_new code in
      if length token > maximum then Inl invalid
      else and_then (ok_or invalid (rsplit_once CHR ''.'' token)) (\<lambda>(signed, tag).
           and_then (ok_or invalid (split_once CHR ''.'' signed)) (\<lambda>(token_kind, payload).
             if token_kind \<noteq> kind then Inl invalid
             else and_then (ok_or invalid (b64_decode h tag)) (\<lambda>signature.
               if length signature \<noteq> 32 then Inl invalid
               else if \<not> hmac_verify h signed signature then Inl invalid
               else and_then (ok_or invalid (b64_decode h payload)) (\<lambda>payload.
                 ok_or invalid (parse payload))))))"

definition fingerprint :: "(bytes \<Rightarrow> u8 list) \<Rightarrow> serialization \<Rightarrow> string result" where
  "fingerprint sha s = map_sum id hex (json_sha256 sha s (4 * 1024 * 1024))"

section \<open>What a token proves\<close>

lemma token_length_Some:
  assumes "codec_ok h" "mac_ok h" and "token_length h kind (length p) = Some n"
  shows "n = length (kind @ ''.'' @ b64_encode h p @ ''.'' @ b64_encode h (hmac_sign h s))"
proof -
  have len: "\<And>b. b64_encoded_len h (length b) = Some (length (b64_encode h b))" "length (hmac_sign h s) = 32"
    using assms(1,2) by (simp_all add: codec_ok_def mac_ok_def)
  then have "b64_encoded_len h 32 = Some (length (b64_encode h (hmac_sign h s)))"
    by (metis len)
  then show ?thesis
    using assms(3) len(1) [of p]
    by (auto simp: token_length_def checked_add_def Option.bind_eq_Some_conv split: if_splits)
qed

lemma token_decode_exact:
  assumes "codec_ok h" "mac_ok h" "CHR ''.'' \<notin> set kind"
  shows "token_decode h parse kind token maximum code = Inr v \<longleftrightarrow>
    length token \<le> maximum \<and> (\<exists>payload. parse payload = Some v \<and>
      (let signed = kind @ ''.'' @ b64_encode h payload
       in token = signed @ ''.'' @ b64_encode h (hmac_sign h signed)))" (is "?l \<longleftrightarrow> ?r")
proof
  assume ?l
  then obtain signed tag payload sig p where t: "length token \<le> maximum"
    "rsplit_once CHR ''.'' token = Some (signed, tag)" "split_once CHR ''.'' signed = Some (kind, payload)"
    "b64_decode h tag = Some sig" "hmac_verify h signed sig" "b64_decode h payload = Some p" "parse p = Some v"
    by (auto simp: token_decode_def Let_def ok_or_def split: option.splits if_splits)
  moreover have "sig = hmac_sign h signed" "b64_encode h sig = tag" "b64_encode h p = payload"
    using t assms by (simp_all add: codec_ok_def mac_ok_def)
  ultimately show ?r
    by (auto simp: rsplit_once_Some_iff split_once_Some_iff Let_def)
next
  assume ?r
  then obtain payload where p: "length token \<le> maximum" "parse payload = Some v"
    and t: "token = (kind @ CHR ''.'' # b64_encode h payload) @ CHR ''.'' #
      b64_encode h (hmac_sign h (kind @ CHR ''.'' # b64_encode h payload))"
    by (auto simp: Let_def)
  have "rsplit_once CHR ''.'' token = Some (kind @ CHR ''.'' # b64_encode h payload,
      b64_encode h (hmac_sign h (kind @ CHR ''.'' # b64_encode h payload)))"
    using assms(1) t by (simp add: rsplit_once_Some_iff codec_ok_def)
  moreover have "split_once CHR ''.'' (kind @ CHR ''.'' # b64_encode h payload) = Some (kind, b64_encode h payload)"
    using assms(3) by (simp add: split_once_Some_iff)
  ultimately show ?l
    using assms p by (simp add: token_decode_def Let_def ok_or_def codec_ok_def mac_ok_def)
qed

lemma token_encode_decodes:
  assumes "codec_ok h" "mac_ok h" "CHR ''.'' \<notin> set kind"
    and "parse (emitted (ser v)) = Some v"
    and "token_encode h ser kind v maximum = Inr token"
  shows "token_decode h parse kind token maximum code = Inr v \<and> length token \<le> maximum"
proof -
  let ?p = "emitted (ser v)"
  let ?signed = "kind @ ''.'' @ b64_encode h ?p"
  from assms(5) obtain n where n: "token_length h kind (length ?p) = Some n" "n \<le> maximum"
    and t: "token = ?signed @ ''.'' @ b64_encode h (hmac_sign h ?signed)"
    by (auto simp: token_encode_def serialize_bounded_eq Let_def split: option.splits if_splits)
  have "length token \<le> maximum"
    using token_length_Some [OF assms(1,2) n(1), of ?signed] n(2) t by simp
  then show ?thesis
    using token_decode_exact [OF assms(1-3), of parse token maximum code v] assms(4) t by (auto simp: Let_def)
qed

text \<open>
  a token this installation issues for a value reads back as exactly that value under the
  same kind and ceiling, and it is never longer than the ceiling.
\<close>

theorem token_round_trip:
  assumes "codec_ok h" "mac_ok h" "CHR ''.'' \<notin> set kind"
    and "parse (emitted (ser v)) = Some v"
    and "token_encode h ser kind v maximum = Inr token"
  shows "token_decode h parse kind token maximum code = Inr v \<and> length token \<le> maximum"
  by (rule token_encode_decodes [where parse = parse and ser = ser, OF assms])


section \<open>The assumptions are satisfiable\<close>

text \<open>A two-character code per byte and a constant-size digest of the length.\<close>

fun pair_encode :: "bytes \<Rightarrow> string" where
  "pair_encode [] = []"
| "pair_encode (c # s) = (if c = CHR ''.'' then ''x1'' else [c, CHR ''0'']) @ pair_encode s"

fun pair_decode :: "string \<Rightarrow> bytes option" where
  "pair_decode [] = Some []"
| "pair_decode [x] = None"
| "pair_decode (x # y # s) =
     (if y = CHR ''0'' \<and> x \<noteq> CHR ''.'' then map_option (Cons x) (pair_decode s)
      else if [x, y] = ''x1'' then map_option (Cons (CHR ''.'')) (pair_decode s) else None)"

definition example_token_host :: token_host where
  "example_token_host = \<lparr>b64_encode = pair_encode, b64_decode = pair_decode,
     b64_encoded_len = (\<lambda>n. Some (2 * n)),
     hmac_sign = (\<lambda>m. replicate 32 (char_of (length m))),
     hmac_verify = (\<lambda>m t. t = replicate 32 (char_of (length m)))\<rparr>"

lemma pair_codec:
  "pair_decode (pair_encode b) = Some b" "CHR ''.'' \<notin> set (pair_encode b)" "length (pair_encode b) = 2 * length b"
  by (induction b) auto

lemma pair_canonical: "pair_decode t = Some b \<Longrightarrow> pair_encode b = t"
  by (induction t arbitrary: b rule: pair_decode.induct) (auto split: if_splits)

lemma example_host_ok: "codec_ok example_token_host" "mac_ok example_token_host"
  by (simp_all add: codec_ok_def mac_ok_def example_token_host_def pair_codec pair_canonical)

definition example_payload :: "string \<Rightarrow> serialization" where
  "example_payload v = \<lparr>ser_writes = [v], ser_finished = True\<rparr>"

theorem token_round_trip_witness:
  "\<exists>token. token_encode example_token_host example_payload ''msg'' ''v'' 100 = Inr token
     \<and> token_decode example_token_host Some ''msg'' token 100 StaleReference = Inr ''v''"
proof -
  have "is_ok (token_encode example_token_host example_payload ''msg'' ''v'' 100)"
    by code_simp
  then obtain token where t: "token_encode example_token_host example_payload ''msg'' ''v'' 100 = Inr token"
    by (cases "token_encode example_token_host example_payload ''msg'' ''v'' 100") (auto simp: is_ok_def)
  have "Some (emitted (example_payload ''v'')) = Some ''v''"
    by (simp add: example_payload_def emitted_def)
  with token_round_trip [where parse = Some and ser = example_payload and code = StaleReference,
      OF example_host_ok _ this t] t
  show ?thesis by simp
qed


end
