(* ===== verification/Service.thy ===== *)
theory Service
  imports Config Tokens
begin

text \<open>
  The application interface (\<open>src/src/service.rs\<close>): request contexts, the authorization of
  accounts and mailboxes (with \<open>src/src/service/mailboxes.rs\<close> and \<open>src/src/service/tokens.rs\<close>),
  account discovery, availability observations, and the bounded response with its draft
  fallback. The account registry (\<open>src/src/service/state.rs\<close>) appears as the identity it assigns
  to each configured account key and its configuration revision.
\<close>

section \<open>Contexts\<close>

datatype Availability = Unknown | Configured | Available | Unavailable

record Service =
  svc_config :: Config
  svc_identity :: "string \<Rightarrow> string \<times> u64"
  svc_revision :: string
  svc_context_id :: uuid
  svc_observations :: "string \<rightharpoonup> Availability"

record MailboxTarget =
  tgt_account_id :: string
  tgt_generation :: u64
  tgt_config :: AccountConfig

definition denied :: Error where
  "denied = error_new PermissionDenied"

definition account_selected :: "AccessGrant \<Rightarrow> Narrowing \<Rightarrow> AccountConfig \<Rightarrow> bool" where
  "account_selected g n a \<longleftrightarrow> acc_key a \<in> set (grant_accounts g)
     \<and> is_none_or (narrow_accounts n) (\<lambda>sel. acc_alias a \<in> set sel)"

definition service_context :: "Service \<Rightarrow> uuid \<Rightarrow> string \<Rightarrow> Narrowing \<Rightarrow> RequestContext result" where
  "service_context sv session name n =
     (case find (\<lambda>g. grant_name g = name) (cfg_grants (svc_config sv)) of
        None \<Rightarrow> Inl denied
      | Some g \<Rightarrow>
          if is_some_and (narrow_accounts n) (\<lambda>as.
               length as > l_accounts (cfg_limits (svc_config sv)) \<or> (\<exists>a \<in> set as. length a > 1024))
          then Inl (error_new InvalidRequest)
          else Inr (request_context_new (svc_context_id sv) session name
            (map fst (filter (\<lambda>(_, a). account_selected g n a) (enumerate 0 (cfg_accounts (svc_config sv)))))
            (permissions (grant_profile g) (narrow_read_only n))
            (l_envelope_bytes (grant_limits g)) (l_operation_seconds (grant_limits g))))"

definition service_grant :: "Service \<Rightarrow> RequestContext \<Rightarrow> AccessGrant result" where
  "service_grant sv c =
     (if \<not> belongs_to c (svc_context_id sv) then Inl denied
      else ok_or denied (find (\<lambda>g. grant_name g = auth_grant (authority c)) (cfg_grants (svc_config sv))))"

definition service_limits :: "Service \<Rightarrow> RequestContext \<Rightarrow> Limits result" where
  "service_limits sv c = map_sum id grant_limits (service_grant sv c)"

definition operation_duration :: "Service \<Rightarrow> RequestContext \<Rightarrow> nat result" where
  "operation_duration sv c = and_then (service_limits sv c) (\<lambda>_. Inr (ctx_operation_seconds c))"

text \<open>The indices of a context point into the immutable configuration of the issuing service.\<close>

definition visible_accounts :: "Service \<Rightarrow> RequestContext \<Rightarrow> AccountConfig list" where
  "visible_accounts sv c = map (\<lambda>i. cfg_accounts (svc_config sv) ! i) (auth_account_indices (authority c))"

section \<open>Authorization\<close>

definition visible_account_target :: "Service \<Rightarrow> RequestContext \<Rightarrow> string \<Rightarrow> MailboxTarget result" where
  "visible_account_target sv c acct =
     (case find (\<lambda>a. fst (svc_identity sv (acc_key a)) = acct) (visible_accounts sv c) of
        None \<Rightarrow> Inl (error_new AccountNotAllowed)
      | Some a \<Rightarrow> Inr \<lparr>tgt_account_id = fst (svc_identity sv (acc_key a)),
                       tgt_generation = snd (svc_identity sv (acc_key a)), tgt_config = a\<rparr>)"

definition authorize_mailbox_scope :: "AccessGrant \<Rightarrow> MailboxTarget \<Rightarrow> string \<Rightarrow> MailboxTarget result" where
  "authorize_mailbox_scope g t mailbox =
     (if \<not> scope_allows (acc_mailboxes (tgt_config t)) mailbox \<or> \<not> scope_allows (grant_mailboxes g) mailbox
      then Inl (error_new MailboxNotAllowed) else Inr t)"

definition authorize_mailbox ::
  "Service \<Rightarrow> RequestContext \<Rightarrow> string \<Rightarrow> u64 \<Rightarrow> string \<Rightarrow> MailboxTarget result" where
  "authorize_mailbox sv c acct expected_generation mailbox =
     and_then (service_grant sv c) (\<lambda>g.
     and_then (visible_account_target sv c acct) (\<lambda>t.
       if tgt_generation t \<noteq> expected_generation then Inl (error_new StaleReference)
       else authorize_mailbox_scope g t mailbox))"

definition authorize_message ::
  "Service \<Rightarrow> RequestContext \<Rightarrow> MessageReference \<Rightarrow> ErrorCode \<Rightarrow> MailboxTarget result" where
  "authorize_message sv c r stale =
     and_then (map_err (\<lambda>e. if err_code e = StaleReference then error_new stale else e)
         (authorize_mailbox sv c (ref_account r) (ref_generation r) (ref_mailbox r))) (\<lambda>t.
       if ref_uid r = 0 \<or> ref_uid_validity r = 0 then Inl (error_new stale) else Inr t)"

section \<open>Observed availability\<close>

definition availability :: "Service \<Rightarrow> string \<Rightarrow> Availability" where
  "availability sv account = (case svc_observations sv account of None \<Rightarrow> Unknown | Some a \<Rightarrow> a)"

definition observe_availability :: "string \<Rightarrow> Availability \<Rightarrow> Service \<Rightarrow> Service" where
  "observe_availability account a sv = sv\<lparr>svc_observations := (svc_observations sv)(account \<mapsto> a)\<rparr>"

definition observe_failure :: "string \<Rightarrow> Error \<Rightarrow> Service \<Rightarrow> Service" where
  "observe_failure account e sv =
     (if err_code e \<in> {ProviderUnavailable, AuthenticationFailed, CredentialUnavailable, TlsFailed}
      then observe_availability account Unavailable sv else sv)"

definition observed :: "string \<Rightarrow> 'a result \<Rightarrow> Service \<Rightarrow> 'a result \<times> Service" where
  "observed account r sv =
     (r, case r of Inr _ \<Rightarrow> observe_availability account Available sv | Inl e \<Rightarrow> observe_failure account e sv)"

section \<open>Discovery\<close>

definition operations :: "RequestContext \<Rightarrow> string list" where
  "operations c =
     map fst (filter (\<lambda>(_, p). is_none_or p (context_permits c))
       [(''save_draft'', Some AppendDraft), (''draft_status'', Some InspectDraftOperation),
        (''list_accounts'', None), (''capabilities'', None), (''health'', None),
        (''list_mailboxes'', Some ListMailboxes), (''search_messages'', Some SearchMessages),
        (''get_message'', Some ReadMessage), (''list_attachments'', Some ReadAttachment),
        (''get_attachment'', Some ReadAttachment)])"

record Account =
  account_drafts_mailbox :: "string option"
  account_alias :: string
  account_account_id :: string
  account_gen :: u64
  account_from_identities :: "string list"
  account_capabilities :: "string list"
  account_availability :: Availability

record AccountDiscovery =
  discovery_accounts :: "Account list"
  discovery_complete :: bool

text \<open>JSON of operator-controlled labels.\<close>

record label_host =
  json_string :: "string \<Rightarrow> serialization"
  json_strings :: "string list \<Rightarrow> serialization"
  json_optional :: "string option \<Rightarrow> serialization"

definition account_budget :: "label_host \<Rightarrow> bool \<Rightarrow> OutputBudget \<Rightarrow> AccountConfig \<Rightarrow> OutputBudget result" where
  "account_budget h drafts b a =
     and_then (reserve b 256) (\<lambda>b.
     and_then (budget_count b (json_string h (acc_alias a))) (\<lambda>b.
     and_then (budget_count b (json_strings h (acc_from_identities a))) (\<lambda>b.
       if drafts then budget_count b (json_optional h (acc_drafts_mailbox a)) else Inr b)))"

definition list_accounts ::
  "label_host \<Rightarrow> Service \<Rightarrow> RequestContext \<Rightarrow> nat option \<Rightarrow> AccountDiscovery result" where
  "list_accounts h sv c input_limit_value =
     and_then (service_grant sv c) (\<lambda>g.
       let maximum = l_accounts (grant_limits g);
           limit = (case input_limit_value of None \<Rightarrow> maximum | Some n \<Rightarrow> n)
       in if limit = 0 \<or> limit > maximum then Inl (input_limit ''limit'' maximum)
          else let ordered = sort_key (\<lambda>a. fst (svc_identity sv (acc_key a))) (visible_accounts sv c);
                   complete = (length ordered \<le> limit);
                   ordered = take limit ordered;
                   drafts = context_permits c AppendDraft
               in and_then (reserve (output_budget_new (response_limit c - 512)) 32) (\<lambda>b.
                  and_then (try_fold (account_budget h drafts) b ordered) (\<lambda>_.
                    Inr \<lparr>discovery_accounts = map (\<lambda>a.
                        \<lparr>account_drafts_mailbox = (if drafts then acc_drafts_mailbox a else None),
                         account_alias = acc_alias a,
                         account_account_id = fst (svc_identity sv (acc_key a)),
                         account_gen = snd (svc_identity sv (acc_key a)),
                         account_from_identities = acc_from_identities a,
                         account_capabilities = operations c,
                         account_availability = availability sv (fst (svc_identity sv (acc_key a)))\<rparr>) ordered,
                       discovery_complete = complete\<rparr>)))"

section \<open>Health\<close>

record AccountHealth =
  health_account_id :: string
  health_generation :: u64
  health_availability :: Availability

record Health =
  health_draft_creation :: "Availability option"
  health_draft_journal :: "Availability option"
  health_status :: string
  health_grant :: string
  health_accounts :: "AccountHealth list"

text \<open>
  What the journal reports: \<open>None\<close> when it does not open, otherwise whether it has room; whether
  creation is allowed; and which accounts have an available writer lock.
\<close>

record draft_probe =
  probe_journal :: "bool option"
  probe_creation_allowed :: bool
  probe_writer :: "string \<Rightarrow> bool"

definition service_health :: "draft_probe \<Rightarrow> Service \<Rightarrow> RequestContext \<Rightarrow> Health result" where
  "service_health d sv c =
     and_then (reserve (output_budget_new (response_limit c - 512)) 256) (\<lambda>b.
     and_then (try_fold (\<lambda>b _. reserve b 160) b (visible_accounts sv c)) (\<lambda>_.
       let accts = sort_key health_account_id (map (\<lambda>a.
             \<lparr>health_account_id = fst (svc_identity sv (acc_key a)),
              health_generation = snd (svc_identity sv (acc_key a)),
              health_availability = availability sv (fst (svc_identity sv (acc_key a)))\<rparr>) (visible_accounts sv c));
           unavailable_count = length (filter (\<lambda>a. health_availability a = Unavailable) accts);
           inspect_drafts = context_permits c InspectDraftOperation;
           history = (if inspect_drafts then probe_journal d else None);
           draft_journal = (if inspect_drafts then Some (if history \<noteq> None then Available else Unavailable) else None);
           draft_creation = (if context_permits c AppendDraft
             then Some (if is_some_and history (\<lambda>room. room) \<and> probe_creation_allowed d
                          \<and> list_all (\<lambda>a. probe_writer d (health_account_id a)) accts
                        then Available else Unavailable) else None)
       in Inr \<lparr>health_draft_creation = draft_creation, health_draft_journal = draft_journal,
           health_status =
             (if draft_journal = Some Unavailable \<or> draft_creation = Some Unavailable then ''degraded''
              else if unavailable_count = 0 then ''ready''
              else if unavailable_count = length accts then ''unavailable'' else ''degraded''),
           health_grant = auth_grant (authority c), health_accounts = accts\<rparr>))"

section \<open>Authority never exceeds the grant\<close>

lemma service_context_Inr:
  assumes "service_context sv session name n = Inr c"
  obtains g where "find (\<lambda>g. grant_name g = name) (cfg_grants (svc_config sv)) = Some g"
    "g \<in> set (cfg_grants (svc_config sv))" "grant_name g = name"
    "authority c = \<lparr>auth_service_id = svc_context_id sv, auth_session = session, auth_grant = name,
       auth_account_indices = map fst (filter (\<lambda>(_, a). account_selected g n a)
         (enumerate 0 (cfg_accounts (svc_config sv)))),
       auth_permissions = permissions (grant_profile g) (narrow_read_only n)\<rparr>"
    "response_limit c = l_envelope_bytes (grant_limits g)"
    "ctx_operation_seconds c = l_operation_seconds (grant_limits g)"
proof -
  from assms obtain g where g: "find (\<lambda>g. grant_name g = name) (cfg_grants (svc_config sv)) = Some g"
    and c: "c = request_context_new (svc_context_id sv) session name
            (map fst (filter (\<lambda>(_, a). account_selected g n a) (enumerate 0 (cfg_accounts (svc_config sv)))))
            (permissions (grant_profile g) (narrow_read_only n))
            (l_envelope_bytes (grant_limits g)) (l_operation_seconds (grant_limits g))"
    by (auto simp: service_context_def split: option.splits if_splits)
  from g have "g \<in> set (cfg_grants (svc_config sv))" "grant_name g = name"
    by (auto simp: find_Some_iff)
  with g c that show thesis by (simp add: request_context_new_def)
qed

lemma context_accounts:
  assumes "authority c = a" and "auth_account_indices a = map fst (filter (\<lambda>(_, x). P x) (enumerate 0 (cfg_accounts (svc_config sv))))"
  shows "visible_accounts sv c = filter P (cfg_accounts (svc_config sv))"
proof -
  have "map (\<lambda>i. xs ! i) (map fst (filter (\<lambda>(_, x). P x) (enumerate 0 xs))) = filter P xs" for xs
  proof -
    have "map (\<lambda>i. xs ! i) (map fst (filter (\<lambda>(_, x). P x) (enumerate 0 xs)))
        = map snd (filter (\<lambda>(_, x). P x) (enumerate 0 xs))"
      by (auto simp: in_set_enumerate_eq)
    also have "\<dots> = filter P (map snd (enumerate 0 xs))"
      unfolding filter_map comp_def case_prod_unfold ..
    finally show ?thesis by simp
  qed
  with assms show ?thesis by (simp add: visible_accounts_def)
qed

lemma issued_accounts:
  assumes "service_context sv session name n = Inr c0" and "authority c = authority c0"
  obtains g where "g \<in> set (cfg_grants (svc_config sv))" "grant_name g = name" "service_grant sv c = Inr g"
    "visible_accounts sv c = filter (account_selected g n) (cfg_accounts (svc_config sv))"
    "auth_permissions (authority c) = permissions (grant_profile g) (narrow_read_only n)"
proof -
  from assms(1) obtain g where g: "find (\<lambda>g. grant_name g = name) (cfg_grants (svc_config sv)) = Some g"
    "g \<in> set (cfg_grants (svc_config sv))" "grant_name g = name"
    and auth: "authority c0 = \<lparr>auth_service_id = svc_context_id sv, auth_session = session, auth_grant = name,
       auth_account_indices = map fst (filter (\<lambda>(_, a). account_selected g n a)
         (enumerate 0 (cfg_accounts (svc_config sv)))),
       auth_permissions = permissions (grant_profile g) (narrow_read_only n)\<rparr>"
    by (rule service_context_Inr)
  show thesis
    by (rule that [of g])
      (use g auth assms(2) context_accounts [of c "authority c" "account_selected g n" sv]
        in \<open>simp_all add: service_grant_def belongs_to_def ok_or_def\<close>)
qed

lemma visible_target_Inr:
  assumes "visible_account_target sv c acct = Inr t"
  shows "tgt_config t \<in> set (visible_accounts sv c)" "tgt_account_id t = acct"
    "(tgt_account_id t, tgt_generation t) = svc_identity sv (acc_key (tgt_config t))"
  using assms by (auto simp: visible_account_target_def find_Some_iff split: option.splits)

lemma authorize_scope_Inr:
  assumes "authorize_mailbox_scope g t mailbox = Inr t'"
  shows "t' = t" "scope_allows (scope_intersection (acc_mailboxes (tgt_config t)) (grant_mailboxes g)) mailbox"
  using assms by (auto simp: authorize_mailbox_scope_def scope_intersection_allows split: if_splits)

text \<open>What an authorized mailbox means, for a context issued under a grant and a narrowing.\<close>

definition mailbox_authorized ::
  "Service \<Rightarrow> string \<Rightarrow> Narrowing \<Rightarrow> MailboxTarget \<Rightarrow> string \<Rightarrow> bool" where
  "mailbox_authorized sv name n t mailbox \<longleftrightarrow>
     (\<exists>g \<in> set (cfg_grants (svc_config sv)). grant_name g = name
        \<and> tgt_config t \<in> set (cfg_accounts (svc_config sv)) \<and> account_selected g n (tgt_config t)
        \<and> scope_allows (scope_intersection (acc_mailboxes (tgt_config t)) (grant_mailboxes g)) mailbox
        \<and> (tgt_account_id t, tgt_generation t) = svc_identity sv (acc_key (tgt_config t)))"

lemma authorize_mailbox_authorized:
  assumes "service_context sv session name n = Inr c0" and "authority c = authority c0"
    and "authorize_mailbox sv c acct generation mailbox = Inr t"
  shows "mailbox_authorized sv name n t mailbox \<and> tgt_account_id t = acct \<and> tgt_generation t = generation"
proof -
  from assms(1,2) obtain g where g: "g \<in> set (cfg_grants (svc_config sv))" "grant_name g = name"
    "service_grant sv c = Inr g" "visible_accounts sv c = filter (account_selected g n) (cfg_accounts (svc_config sv))"
    by (rule issued_accounts)
  from assms(3) g(3) have t: "visible_account_target sv c acct = Inr t" "tgt_generation t = generation"
    "scope_allows (scope_intersection (acc_mailboxes (tgt_config t)) (grant_mailboxes g)) mailbox"
    by (auto simp: authorize_mailbox_def authorize_mailbox_scope_def scope_intersection_allows split: if_splits)
  show ?thesis
    unfolding mailbox_authorized_def using g t visible_target_Inr [OF t(1)] by auto
qed

text \<open>
  C3: a request never reaches outside its grant. Whatever a caller asks for, a mailbox is
  authorized only for a context this service issued, in an account the context's grant lists and
  the caller's narrowing selects, of the account's present generation, and within both the
  account's and the grant's mailbox scope; a message reference passes only with the same
  authority and a nonzero message identity. Contexts of another service are refused.
\<close>

theorem authorization_confined:
  assumes "service_context sv session name n = Inr c0" and "authority c = authority c0"
  shows "(authorize_mailbox sv c acct generation mailbox = Inr t \<longrightarrow>
       mailbox_authorized sv name n t mailbox \<and> tgt_account_id t = acct \<and> tgt_generation t = generation)
    \<and> (authorize_message sv c r stale = Inr t \<longrightarrow>
         mailbox_authorized sv name n t (ref_mailbox r) \<and> ref_uid r \<noteq> 0 \<and> ref_uid_validity r \<noteq> 0
         \<and> tgt_account_id t = ref_account r \<and> tgt_generation t = ref_generation r)
    \<and> (svc_context_id other \<noteq> svc_context_id sv \<longrightarrow>
         authorize_mailbox other c acct generation mailbox = Inl denied)"
proof -
  note ok = authorize_mailbox_authorized [OF assms]
  have "auth_service_id (authority c) = svc_context_id sv"
    using assms(1) by (rule service_context_Inr) (simp add: assms(2))
  then have "svc_context_id other \<noteq> svc_context_id sv \<longrightarrow>
      authorize_mailbox other c acct generation mailbox = Inl denied"
    by (simp add: authorize_mailbox_def service_grant_def belongs_to_def)
  moreover have "authorize_message sv c r stale = Inr t \<longrightarrow>
      authorize_mailbox sv c (ref_account r) (ref_generation r) (ref_mailbox r) = Inr t
      \<and> ref_uid r \<noteq> 0 \<and> ref_uid_validity r \<noteq> 0"
    by (auto simp: authorize_message_def split: if_splits)
  ultimately show ?thesis
    using ok by blast
qed

text \<open>
  narrowing only removes authority. A narrowed context sees a subset of the accounts of the
  unnarrowed one and holds a subset of its permissions, and a read-only narrowing leaves no
  permission to append or inspect a draft.
\<close>

theorem narrowing_removes_authority:
  assumes "service_context sv session name n = Inr c"
    and "service_context sv session' name \<lparr>narrow_read_only = False, narrow_accounts = None\<rparr> = Inr full"
  shows "set (visible_accounts sv c) \<subseteq> set (visible_accounts sv full)
    \<and> (\<forall>p. context_permits c p \<longrightarrow> context_permits full p)
    \<and> (narrow_read_only n \<longrightarrow> \<not> context_permits c AppendDraft \<and> \<not> context_permits c InspectDraftOperation)
    \<and> response_limit c = response_limit full"
proof -
  from assms(1) obtain g where g: "find (\<lambda>g. grant_name g = name) (cfg_grants (svc_config sv)) = Some g"
    "response_limit c = l_envelope_bytes (grant_limits g)"
    by (rule service_context_Inr)
  from assms(2) obtain g' where g': "find (\<lambda>g. grant_name g = name) (cfg_grants (svc_config sv)) = Some g'"
    "response_limit full = l_envelope_bytes (grant_limits g')"
    by (rule service_context_Inr)
  from assms(1) refl obtain h where h: "service_grant sv c = Inr h"
    "visible_accounts sv c = filter (account_selected h n) (cfg_accounts (svc_config sv))"
    "auth_permissions (authority c) = permissions (grant_profile h) (narrow_read_only n)"
    by (rule issued_accounts)
  from assms(2) refl obtain h' where h': "service_grant sv full = Inr h'"
    "visible_accounts sv full = filter (account_selected h' \<lparr>narrow_read_only = False, narrow_accounts = None\<rparr>)
       (cfg_accounts (svc_config sv))"
    "auth_permissions (authority full) = permissions (grant_profile h') False"
    by (rule issued_accounts) simp
  have names: "auth_grant (authority c) = name" "auth_grant (authority full) = name"
    using assms by (auto elim!: service_context_Inr)
  have "h = g" "h' = g'"
    using h(1) h'(1) g(1) g'(1) names by (auto simp: service_grant_def ok_or_def split: if_splits)
  moreover have "g' = g" using g g' by simp
  ultimately show ?thesis
    using h h' g g' read_only_narrowing [of "grant_profile g"]
    by (cases "narrow_read_only n") (auto simp: context_permits_def account_selected_def)
qed

section \<open>A concrete service\<close>

definition example_service :: Service where
  "example_service = \<lparr>svc_config = example_config, svc_identity = (\<lambda>key. (key, 1)), svc_revision = ''r1'',
     svc_context_id = 5, svc_observations = Map.empty\<rparr>"

definition example_narrowing :: Narrowing where
  "example_narrowing = \<lparr>narrow_read_only = True, narrow_accounts = Some [''Work'']\<rparr>"

definition example_context :: "Narrowing \<Rightarrow> RequestContext" where
  "example_context n = request_context_new 5 9 ''drafts'' [0] (permissions ReadAndDrafts (narrow_read_only n))
     (l_envelope_bytes limits_default) (l_operation_seconds limits_default)"

lemma example_contexts:
  "service_context example_service 9 ''drafts'' example_narrowing = Inr (example_context example_narrowing)"
  "service_context example_service 9 ''drafts'' \<lparr>narrow_read_only = False, narrow_accounts = None\<rparr>
     = Inr (example_context \<lparr>narrow_read_only = False, narrow_accounts = None\<rparr>)"
  by code_simp+

definition example_target :: MailboxTarget where
  "example_target = \<lparr>tgt_account_id = ''work'', tgt_generation = 1, tgt_config = example_account\<rparr>"

lemma example_authorized:
  "authorize_mailbox example_service (example_context example_narrowing) ''work'' 1 ''INBOX'' = Inr example_target"
  by code_simp

theorem authorization_confined_witness:
  "mailbox_authorized example_service ''drafts'' example_narrowing example_target ''INBOX''"
  using authorization_confined [OF example_contexts(1) refl] example_authorized by blast

theorem narrowing_removes_authority_witness:
  "\<not> context_permits (example_context example_narrowing) AppendDraft"
  using narrowing_removes_authority [OF example_contexts] by (simp add: example_narrowing_def)

end
