(* ===== verification/Compose.thy ===== *)
theory Compose
  imports Journal
begin

text \<open>
  Draft composition (\<open>src/src/draft.rs\<close> and the inputs of \<open>src/src/domain/draft.rs\<close>): the syntax of
  addresses and identifiers, newline normalization, the bounded MIME sink and the composition
  itself. The MIME encoder is a parameter, given as the writes it makes for a message.
\<close>

section \<open>Inputs\<close>

record DraftAddress =
  da_address :: string
  da_name :: "string option"

record DraftContent =
  dc_from :: "string option"
  dc_to :: "DraftAddress list"
  dc_cc :: "DraftAddress list"
  dc_bcc :: "DraftAddress list"
  dc_subject :: string
  dc_body :: string
  dc_in_reply_to :: "string option"
  dc_references :: "string list"

record DraftInput =
  di_from :: string
  di_to :: "DraftAddress list"
  di_cc :: "DraftAddress list"
  di_bcc :: "DraftAddress list"
  di_subject :: string
  di_body :: string
  di_message_id :: string
  di_date_unix :: int
  di_in_reply_to :: "string option"
  di_references :: "string list"

datatype ComposeError = ComposeInvalid | ComposeLimit

definition compose_error :: "ComposeError \<Rightarrow> Error" where
  "compose_error e = error_new (case e of ComposeInvalid \<Rightarrow> InvalidRequest | ComposeLimit \<Rightarrow> ResponseTooLarge)"

text \<open>\<open>to_string\<close> of a \<open>Uuid\<close>: 32 lower-case hexadecimal digits in five groups.\<close>

definition hex_digit :: "nat \<Rightarrow> char" where
  "hex_digit n = chr (if n < 10 then 48 + n else 87 + n)"

definition uuid_digits :: "uuid \<Rightarrow> string" where
  "uuid_digits u = map (\<lambda>k. hex_digit (unat u div 16 ^ (31 - k) mod 16)) [0..<32]"

definition uuid_string :: "uuid \<Rightarrow> string" where
  "uuid_string u =
     (let d = uuid_digits u in
      take 8 d @ ''-'' @ take 4 (drop 8 d) @ ''-'' @ take 4 (drop 12 d) @ ''-'' @ take 4 (drop 16 d) @ ''-'' @ drop 20 d)"

definition message_id :: "DraftIdentity \<Rightarrow> string" where
  "message_id i = uuid_string (account_id i) @ ''.'' @ show_nat (unat (account_generation i)) @ ''.''
     @ uuid_string (operation_id i) @ ''@mailctl.invalid''"

section \<open>Addresses and identifiers\<close>

definition atom_byte :: "char \<Rightarrow> bool" where
  "atom_byte b \<longleftrightarrow> is_ascii_alphanumeric b \<or> b \<in> set (''!#$%&'' @ [CHR 0x27] @ ''*+-/=?^_'' @ [CHR 0x60] @ ''{|}~'')"

definition dot_atom :: "string \<Rightarrow> bool" where
  "dot_atom v \<longleftrightarrow> list_all (\<lambda>a. a \<noteq> [] \<and> list_all atom_byte a) (split_on CHR ''.'' v)"

definition domain_label :: "string \<Rightarrow> bool" where
  "domain_label l \<longleftrightarrow> l \<noteq> [] \<and> length l \<le> 63 \<and> hd l \<noteq> CHR ''-'' \<and> last l \<noteq> CHR ''-''
     \<and> list_all (\<lambda>b. is_ascii_alphanumeric b \<or> b = CHR ''-'') l"

definition address :: "string \<Rightarrow> ComposeError + unit" where
  "address v =
     (if length v > 254 then Inl ComposeLimit
      else case split_once CHR ''@'' v of None \<Rightarrow> Inl ComposeInvalid
      | Some (local, domain) \<Rightarrow>
          if length local > 64 \<or> \<not> dot_atom local \<or> domain = []
             \<or> \<not> list_all domain_label (split_on CHR ''.'' domain)
          then Inl ComposeInvalid else Inr ())"

definition reply_identifier :: "string \<Rightarrow> ComposeError + unit" where
  "reply_identifier v =
     (if length v > 998 then Inl ComposeLimit
      else case split_once CHR ''@'' v of None \<Rightarrow> Inl ComposeInvalid
      | Some (left, right) \<Rightarrow> if \<not> dot_atom left \<or> \<not> dot_atom right then Inl ComposeInvalid else Inr ())"

section \<open>Newlines\<close>

definition strip_newline :: "string \<Rightarrow> string" where
  "strip_newline rest = (case rest of [] \<Rightarrow> [] | c # s \<Rightarrow> if c = LF then s else rest)"

lemma strip_newline_length: "length (strip_newline s) \<le> length s"
  by (simp add: strip_newline_def split: list.splits)

text \<open>The loop of \<open>normalize_body\<close>: what is already normalized, and what remains.\<close>

function normalize_loop :: "string \<Rightarrow> string \<Rightarrow> string" where
  "normalize_loop normalized remaining =
     (case split_once CR remaining of None \<Rightarrow> normalized @ remaining
      | Some (line, rest) \<Rightarrow> normalize_loop (normalized @ line @ [LF]) (strip_newline rest))"
  by pat_completeness auto

termination normalize_loop
proof (relation "measure (\<lambda>(normalized, remaining). length remaining)", simp)
  fix remaining normalized x line rest
  assume "split_once CR remaining = Some x" and "(line, rest) = x"
  then have "length rest < length remaining"
    by (auto simp: split_once_Some_iff)
  with strip_newline_length [of rest]
  show "((normalized @ line @ [LF], strip_newline rest), normalized, remaining)
      \<in> measure (\<lambda>(normalized, remaining). length remaining)" by simp
qed

declare normalize_loop.simps [simp del]

definition normalize_body :: "string \<Rightarrow> string" where
  "normalize_body body = (if CR \<notin> set body then body else normalize_loop [] body)"

section \<open>The storage hint\<close>

fun as_chunks :: "nat \<Rightarrow> 'a list \<Rightarrow> 'a list list \<times> 'a list" where
  "as_chunks n xs =
     (if n = 0 \<or> length xs < n then ([], xs)
      else (case as_chunks n (drop n xs) of (cs, rest) \<Rightarrow> (take n xs # cs, rest)))"

declare as_chunks.simps [simp del]

text \<open>The newlines of one chunk, summed in eight bits.\<close>

definition chunk_breaks :: "string \<Rightarrow> nat" where
  "chunk_breaks chunk = unat (sum_list (map (\<lambda>b. if b = LF then 1 else 0) chunk) :: u8)"

definition line_breaks :: "string \<Rightarrow> nat" where
  "line_breaks body =
     (case as_chunks 64 body of (chunks, rest) \<Rightarrow>
        sum_list (map chunk_breaks chunks) + sum_list (map (\<lambda>b. if b = LF then 1 else 0) rest))"

definition body_capacity_hint :: "string \<Rightarrow> nat" where
  "body_capacity_hint body =
     (let encoded = saturating_mul (div_ceil (length body) 3) 4;
          encoding_bound = saturating_add encoded (saturating_mul (div_ceil encoded 74) 3)
      in if \<not> list_all (\<lambda>c. ord c < 128) body then encoding_bound
         else let plain = saturating_add (length body) (line_breaks body)
         in if CHR ''='' \<in> set body \<or> chr 127 \<in> set body
              \<or> (body \<noteq> [] \<and> last body \<in> {CHR '' '', CHR 0x09})
              \<or> str_contains body [CHR '' '', LF] \<or> str_contains body [CHR 0x09, LF]
            then max encoding_bound plain
            else max (min (saturating_add plain (saturating_mul (div_ceil plain 74) 3)) encoding_bound) plain)"

section \<open>The bounded sink\<close>

record MimeOutput =
  mo_bytes :: bytes
  mo_capacity :: nat
  mo_maximum :: nat

definition mime_write :: "MimeOutput \<Rightarrow> bytes \<Rightarrow> unit + MimeOutput" where
  "mime_write m w =
     (case checked_add (length (mo_bytes m)) (length w) of None \<Rightarrow> Inl ()
      | Some required \<Rightarrow>
          if required > mo_maximum m then Inl ()
          else let capacity = (if required > mo_capacity m
                 then min (max required (saturating_mul (mo_capacity m) 2)) (mo_maximum m) else mo_capacity m)
          in Inr (m\<lparr>mo_bytes := mo_bytes m @ w, mo_capacity := capacity\<rparr>))"

section \<open>Composition\<close>

text \<open>What the encoder is given; absent headers are left out.\<close>

record MessageBuilder =
  builder_from :: string
  builder_subject :: string
  builder_message_id :: string
  builder_date :: int
  builder_text_body :: string
  builder_to :: "DraftAddress list option"
  builder_cc :: "DraftAddress list option"
  builder_bcc :: "DraftAddress list option"
  builder_in_reply_to :: "string option"
  builder_references :: "string list option"

record compose_host =
  mime_writes :: "MessageBuilder \<Rightarrow> bytes list"
  mime_sha256 :: "bytes \<Rightarrow> sha256"

record PreparedDraft =
  pd_bytes :: bytes
  pd_sha256 :: sha256
  pd_header_bytes :: nat

definition nonempty_list :: "'a list \<Rightarrow> 'a list option" where
  "nonempty_list xs = (if xs = [] then None else Some xs)"

definition builder_of :: "DraftInput \<Rightarrow> string \<Rightarrow> MessageBuilder" where
  "builder_of input body =
     \<lparr>builder_from = di_from input, builder_subject = di_subject input, builder_message_id = di_message_id input,
      builder_date = di_date_unix input, builder_text_body = body,
      builder_to = nonempty_list (di_to input), builder_cc = nonempty_list (di_cc input),
      builder_bcc = nonempty_list (di_bcc input), builder_in_reply_to = di_in_reply_to input,
      builder_references = nonempty_list (di_references input)\<rparr>"

definition recipients_of :: "DraftInput \<Rightarrow> DraftAddress list" where
  "recipients_of input = di_to input @ di_cc input @ di_bcc input"

definition recipient :: "DraftAddress \<Rightarrow> ComposeError + unit" where
  "recipient a =
     and_then (address (da_address a)) (\<lambda>_.
       ensure (\<not> is_some_and (da_name a) (\<lambda>n. length n > 1024 \<or> any_control n)) ComposeInvalid)"

definition compose_sizes :: "DraftInput \<Rightarrow> nat \<Rightarrow> ComposeError + unit" where
  "compose_sizes input maximum =
     (if maximum = 0 \<or> maximum > 8 * 1024 * 1024 then Inl ComposeInvalid
      else if saturating_add (saturating_add (length (di_to input)) (length (di_cc input))) (length (di_bcc input)) > 100
        \<or> length (di_subject input) > 8 * 1024 \<or> length (di_body input) > maximum \<or> length (di_references input) > 50
      then Inl ComposeLimit else Inr ())"

definition option_list :: "'a option \<Rightarrow> 'a list" where
  "option_list x = (case x of None \<Rightarrow> [] | Some a \<Rightarrow> [a])"

definition compose_validate :: "DraftInput \<Rightarrow> nat \<Rightarrow> ComposeError + unit" where
  "compose_validate input maximum =
     and_then (compose_sizes input maximum) (\<lambda>_.
     and_then (address (di_from input)) (\<lambda>_.
     and_then (try_fold (\<lambda>_. recipient) () (recipients_of input)) (\<lambda>_.
     and_then (reply_identifier (di_message_id input)) (\<lambda>_.
     and_then (try_fold (\<lambda>_. reply_identifier) () (option_list (di_in_reply_to input) @ di_references input)) (\<lambda>_.
       ensure (\<not> (any_control (di_subject input)
         \<or> \<not> (0 \<le> di_date_unix input \<and> di_date_unix input \<le> 253402300799)
         \<or> CHR 0x00 \<in> set (di_body input))) ComposeInvalid)))))"

definition header_input_bytes :: "DraftInput \<Rightarrow> nat" where
  "header_input_bytes input =
     fold (\<lambda>a n. n + length (da_address a) + (case da_name a of None \<Rightarrow> 0 | Some s \<Rightarrow> length s)) (recipients_of input)
       (length (di_subject input) + length (di_from input) + length (di_message_id input))
     + (case di_in_reply_to input of None \<Rightarrow> 0 | Some s \<Rightarrow> length s)
     + sum_list (map length (di_references input))"

definition compose_capacity :: "DraftInput \<Rightarrow> string \<Rightarrow> nat \<Rightarrow> nat" where
  "compose_capacity input body maximum =
     min (saturating_add (saturating_add (saturating_mul (header_input_bytes input) 3) (body_capacity_hint body)) 4096) maximum"

text \<open>\<open>windows(4).position(|w| w == b"\r\n\r\n")\<close>\<close>

fun blank_line :: "bytes \<Rightarrow> nat option" where
  "blank_line [] = None"
| "blank_line (c # s) = (if take 4 (c # s) = [CR, LF, CR, LF] then Some 0 else map_option Suc (blank_line s))"

definition compose :: "compose_host \<Rightarrow> DraftInput \<Rightarrow> nat \<Rightarrow> ComposeError + PreparedDraft" where
  "compose h input maximum =
     and_then (compose_validate input maximum) (\<lambda>_.
       let body = normalize_body (di_body input) in
       and_then (map_err (\<lambda>_. ComposeLimit) (try_fold mime_write
           \<lparr>mo_bytes = [], mo_capacity = compose_capacity input body maximum, mo_maximum = maximum\<rparr>
           (mime_writes h (builder_of input body)))) (\<lambda>m.
       and_then (ok_or ComposeInvalid (blank_line (mo_bytes m))) (\<lambda>position.
         if position + 4 > 256 * 1024 then Inl ComposeLimit
         else Inr \<lparr>pd_bytes = mo_bytes m, pd_sha256 = mime_sha256 h (mo_bytes m), pd_header_bytes = position + 4\<rparr>)))"

section \<open>Newline normalization\<close>

text \<open>The contract: every line ending, whether \<open>CR LF\<close>, \<open>CR\<close> or \<open>LF\<close>, becomes one \<open>LF\<close>.\<close>

fun canonical_newlines :: "string \<Rightarrow> string" where
  "canonical_newlines (c # d # s) =
     (if c = CR \<and> d = LF then LF # canonical_newlines s
      else (if c = CR then LF else c) # canonical_newlines (d # s))"
| "canonical_newlines [c] = [if c = CR then LF else c]"
| "canonical_newlines [] = []"

lemma canonical_newlines_Cons:
  "canonical_newlines (c # s) = (if c = CR then LF # canonical_newlines (strip_newline s) else c # canonical_newlines s)"
  by (cases s) (auto simp: strip_newline_def)

lemma canonical_newlines_append:
  "CR \<notin> set a \<Longrightarrow> canonical_newlines (a @ s) = a @ canonical_newlines s"
  by (induction a) (auto simp: canonical_newlines_Cons)

lemma canonical_newlines_id: "CR \<notin> set s \<Longrightarrow> canonical_newlines s = s"
  using canonical_newlines_append [of s "[]"] by simp

lemma canonical_newlines_no_CR: "CR \<notin> set (canonical_newlines s)"
  by (induction s rule: canonical_newlines.induct) auto

lemma normalize_loop_canonical: "normalize_loop n s = n @ canonical_newlines s"
proof (induction n s rule: normalize_loop.induct)
  case (1 n s)
  show ?case
  proof (cases "split_once CR s")
    case None
    then have "CR \<notin> set s" by (simp add: split_once_None_iff)
    with None show ?thesis
      by (simp add: normalize_loop.simps [of n s] canonical_newlines_id)
  next
    case (Some p)
    obtain line rest where p: "p = (line, rest)" by (cases p)
    with Some have "s = line @ CR # rest" "CR \<notin> set line"
      by (auto simp: split_once_Some_iff)
    with 1 [OF Some p [symmetric]] Some p show ?thesis
      by (subst normalize_loop.simps) (simp add: canonical_newlines_append canonical_newlines_Cons)
  qed
qed

text \<open>
  newline normalization. The loop over carriage returns ends and gives exactly the body with
  every line ending replaced by one line feed; the result has no carriage return and
  normalizing it again changes nothing, so a caller's retry hashes to the same input.
\<close>

theorem normalize_body_canonical:
  "normalize_body s = canonical_newlines s \<and> CR \<notin> set (normalize_body s)
    \<and> normalize_body (normalize_body s) = normalize_body s"
proof -
  have "normalize_body s = canonical_newlines s"
    by (simp add: normalize_body_def normalize_loop_canonical canonical_newlines_id)
  then show ?thesis
    using canonical_newlines_no_CR [of s] by (simp add: normalize_body_def)
qed

section \<open>The sink and the hint\<close>

lemma mime_write_Inr:
  assumes "mime_write m w = Inr m'"
  shows "mo_bytes m' = mo_bytes m @ w" "mo_maximum m' = mo_maximum m" "length (mo_bytes m') \<le> mo_maximum m"
    "mo_capacity m \<le> mo_maximum m \<Longrightarrow> mo_capacity m' \<le> mo_maximum m"
    "length (mo_bytes m) \<le> mo_capacity m \<Longrightarrow> mo_capacity m \<le> mo_maximum m \<Longrightarrow> length (mo_bytes m') \<le> mo_capacity m'"
  using assms
  by (auto simp: mime_write_def checked_add_def Let_def split: if_splits option.splits)

lemma mime_writes_Inr:
  assumes "try_fold mime_write m ws = Inr m'"
    and "length (mo_bytes m) \<le> mo_capacity m" "mo_capacity m \<le> mo_maximum m"
  shows "mo_bytes m' = mo_bytes m @ concat ws \<and> mo_maximum m' = mo_maximum m
    \<and> length (mo_bytes m') \<le> mo_capacity m' \<and> mo_capacity m' \<le> mo_maximum m"
  using assms
proof (induction ws arbitrary: m)
  case (Cons w ws)
  from Cons.prems(1) obtain k where k: "mime_write m w = Inr k" "try_fold mime_write k ws = Inr m'"
    by auto
  note step = mime_write_Inr [OF k(1)]
  have "length (mo_bytes k) \<le> mo_capacity k" "mo_capacity k \<le> mo_maximum k"
    using step Cons.prems(2,3) by simp_all
  with Cons.IH [OF k(2)] step show ?case by auto
qed simp

lemma mime_writes_succeed:
  assumes "length (mo_bytes m) + length (concat ws) \<le> mo_maximum m" "mo_maximum m \<le> usize_max"
  shows "\<exists>m'. try_fold mime_write m ws = Inr m'"
  using assms
proof (induction ws arbitrary: m)
  case (Cons w ws)
  have "\<exists>k. mime_write m w = Inr k"
    using Cons.prems by (auto simp: mime_write_def checked_add_def Let_def)
  then obtain k where k: "mime_write m w = Inr k" by blast
  have "\<exists>m'. try_fold mime_write k ws = Inr m'"
    using Cons.prems mime_write_Inr(1,2) [OF k] by (intro Cons.IH) simp_all
  with k show ?case by simp
qed simp

lemma length_filter_sum: "sum_list (map (\<lambda>b. if P b then 1 else 0) s) = length (filter P s)"
  by (induction s) auto

lemma chunk_breaks_eq: "length c < 256 \<Longrightarrow> chunk_breaks c = length (filter (\<lambda>b. b = LF) c)"
proof -
  assume "length c < 256"
  have "(sum_list (map (\<lambda>b. if b = LF then 1 else 0) c) :: u8) = of_nat (length (filter (\<lambda>b. b = LF) c))"
    by (induction c) auto
  moreover have "length (filter (\<lambda>b. b = LF) c) < 256"
    using \<open>length c < 256\<close> length_filter_le [of "\<lambda>b. b = LF" c] by linarith
  ultimately show ?thesis
    by (simp add: chunk_breaks_def unat_of_nat take_bit_nat_eq_self)
qed

lemma as_chunks_parts:
  assumes "as_chunks n xs = (cs, rest)"
  shows "concat cs @ rest = xs \<and> (\<forall>c \<in> set cs. length c = n)"
  using assms
proof (induction n xs arbitrary: cs rest rule: as_chunks.induct)
  case (1 n xs)
  show ?case
  proof (cases "n = 0 \<or> length xs < n")
    case True
    with 1(2) show ?thesis by (auto simp: as_chunks.simps [of n xs])
  next
    case False
    obtain ds t where d: "as_chunks n (drop n xs) = (ds, t)" by (cases "as_chunks n (drop n xs)")
    from 1(2) False d have "cs = take n xs # ds" "rest = t"
      by (auto simp: as_chunks.simps [of n xs])
    with 1(1) [OF False d] False show ?thesis by auto
  qed
qed

lemma line_breaks_eq: "line_breaks body = length (filter (\<lambda>b. b = LF) body)"
proof -
  obtain cs rest where c: "as_chunks 64 body = (cs, rest)" by (cases "as_chunks 64 body")
  note p = as_chunks_parts [OF c]
  have "sum_list (map chunk_breaks cs) = sum_list (map (\<lambda>c. length (filter (\<lambda>b. b = LF) c)) cs)"
    using p by (intro arg_cong [of _ _ sum_list] map_cong) (auto simp: chunk_breaks_eq)
  also have "\<dots> = length (filter (\<lambda>b. b = LF) (concat cs))"
    by (simp add: filter_concat length_concat comp_def)
  finally have "line_breaks body = length (filter (\<lambda>b. b = LF) (concat cs @ rest))"
    by (simp add: line_breaks_def c length_filter_sum)
  with p show ?thesis by simp
qed

text \<open>
  The storage hint of the MIME buffer. The line breaks of a body are counted exactly although
  each 64-byte chunk is summed in eight bits, and the hint of an ASCII body that the program admits
  is never below the body with its line feeds widened to \<open>CR LF\<close>.
\<close>

theorem capacity_hint_sufficient:
  assumes "length body \<le> 8 * 1024 * 1024" and "list_all (\<lambda>c. ord c < 128) body"
  shows "line_breaks body = length (filter (\<lambda>b. b = LF) body)
    \<and> length body + length (filter (\<lambda>b. b = LF) body) \<le> body_capacity_hint body"
proof -
  have "length (filter (\<lambda>b. b = LF) body) \<le> length body" by simp
  with assms(1) have "length body + length (filter (\<lambda>b. b = LF) body) \<le> 16777216" by linarith
  also have "\<dots> \<le> usize_max" by (simp add: usize_max_def)
  finally have "saturating_add (length body) (line_breaks body) = length body + length (filter (\<lambda>b. b = LF) body)"
    by (simp add: saturating_add_def line_breaks_eq)
  with assms(2) show ?thesis
    by (simp add: body_capacity_hint_def Let_def line_breaks_eq)
qed

theorem capacity_hint_sufficient_witness:
  "length ''ab'' + length (filter (\<lambda>b. b = LF) ''ab'') \<le> body_capacity_hint ''ab''"
  using capacity_hint_sufficient [of "''ab''"] by (simp add: ord_def)

section \<open>The composed message\<close>

lemma try_fold_unit: "try_fold (\<lambda>_. f) () xs = Inr u \<longleftrightarrow> (\<forall>x \<in> set xs. f x = Inr ())"
  by (induction xs) auto

lemma blank_line_Some:
  "blank_line s = Some n \<Longrightarrow> \<exists>before after. s = before @ [CR, LF, CR, LF] @ after \<and> length before = n"
proof (induction s arbitrary: n)
  case (Cons c s)
  show ?case
  proof (cases "take 4 (c # s) = [CR, LF, CR, LF]")
    case True
    with Cons.prems have "n = 0" by simp
    moreover have "c # s = [] @ [CR, LF, CR, LF] @ drop 4 (c # s)"
      using True by (metis append_Nil append_take_drop_id)
    ultimately show ?thesis by (metis list.size(3))
  next
    case False
    with Cons obtain m before after where "n = Suc m" "s = before @ [CR, LF, CR, LF] @ after" "length before = m"
      by (auto split: if_splits)
    then show ?thesis by (intro exI [of _ "c # before"] exI [of _ after]) auto
  qed
qed simp

text \<open>
  C21: composition is exact. For an input that passes validation the result depends only on the
  encoder's complete output, never on how it is split into writes or on the storage hint: output
  over the limit is refused rather than truncated, output without a header end is invalid, a
  header over 256 KiB is refused, and otherwise the draft holds the whole output, its digest, and
  the length of its header through the first blank line.
\<close>

theorem compose_exact:
  assumes "compose_validate input maximum = Inr ()"
    and "out = concat (mime_writes h (builder_of input (normalize_body (di_body input))))"
  shows "compose h input maximum =
    (if length out > maximum then Inl ComposeLimit
     else case blank_line out of None \<Rightarrow> Inl ComposeInvalid
     | Some n \<Rightarrow> if n + 4 > 256 * 1024 then Inl ComposeLimit
         else Inr \<lparr>pd_bytes = out, pd_sha256 = mime_sha256 h out, pd_header_bytes = n + 4\<rparr>)"
proof -
  let ?m = "\<lparr>mo_bytes = [], mo_capacity = compose_capacity input (normalize_body (di_body input)) maximum,
    mo_maximum = maximum\<rparr>"
  let ?ws = "mime_writes h (builder_of input (normalize_body (di_body input)))"
  have max: "maximum \<le> usize_max"
    using assms(1) by (auto simp: compose_validate_def compose_sizes_def usize_max_def split: if_splits)
  have room: "mo_capacity ?m \<le> mo_maximum ?m" by (simp add: compose_capacity_def)
  show ?thesis
  proof (cases "try_fold mime_write ?m ?ws")
    case (Inl e)
    then have "\<not> length out \<le> maximum"
      using mime_writes_succeed [of ?m ?ws] max assms(2) by auto
    with Inl assms(1) show ?thesis
      by (simp add: compose_def Let_def)
  next
    case (Inr m)
    then have "mo_bytes m = out" "length out \<le> maximum"
      using mime_writes_Inr [OF Inr] room assms(2) by auto
    with Inr assms(1) show ?thesis
      by (simp add: compose_def Let_def ok_or_def split: option.splits)
  qed
qed

text \<open>Every text of the input that reaches a header.\<close>

definition header_texts :: "DraftInput \<Rightarrow> string list" where
  "header_texts input =
     [di_from input, di_subject input, di_message_id input]
     @ map da_address (recipients_of input) @ concat (map (\<lambda>a. option_list (da_name a)) (recipients_of input))
     @ option_list (di_in_reply_to input) @ di_references input"

definition single_line :: "string \<Rightarrow> bool" where
  "single_line v \<longleftrightarrow> CR \<notin> set v \<and> LF \<notin> set v \<and> CHR 0x00 \<notin> set v"

lemma any_control_single_line: "\<not> any_control v \<Longrightarrow> single_line v"
  by (induction v) (auto simp: single_line_def ord_def)

lemma split_on_set: "set v \<subseteq> insert d (\<Union> (set ` set (split_on d v)))"
  using join_with_set [of d "split_on d v"] by (simp add: join_split_on)

lemma atom_byte_not: "\<not> atom_byte CR" "\<not> atom_byte LF" "\<not> atom_byte CHR 0x00" "\<not> atom_byte CHR ''@''"
  by (simp_all add: atom_byte_def is_ascii_alphanumeric_def is_ascii_digit_def is_ascii_upper_def
      is_ascii_lower_def ord_def chr_def)

lemma dot_atom_bytes: "dot_atom v \<Longrightarrow> b \<in> set v \<Longrightarrow> atom_byte b \<or> b = CHR ''.''"
  using split_on_set [of v "CHR ''.''"] by (fastforce simp: dot_atom_def list_all_iff)

lemma dot_atom_single_line: "dot_atom v \<Longrightarrow> single_line v"
  using dot_atom_bytes [of v] atom_byte_not by (auto simp: single_line_def)

lemma domain_bytes:
  "list_all domain_label (split_on CHR ''.'' v) \<Longrightarrow> b \<in> set v \<Longrightarrow> is_ascii_alphanumeric b \<or> b = CHR ''-'' \<or> b = CHR ''.''"
  using split_on_set [of v "CHR ''.''"] by (fastforce simp: domain_label_def list_all_iff)

lemma domain_single_line: "list_all domain_label (split_on CHR ''.'' v) \<Longrightarrow> single_line v"
  using domain_bytes [of v]
  by (fastforce simp: single_line_def is_ascii_alphanumeric_def is_ascii_digit_def is_ascii_upper_def
      is_ascii_lower_def ord_def)

lemma single_line_append [simp]: "single_line (a @ b) \<longleftrightarrow> single_line a \<and> single_line b"
  by (auto simp: single_line_def)

lemma single_line_Cons: "single_line (c # s) \<longleftrightarrow> c \<noteq> CR \<and> c \<noteq> LF \<and> c \<noteq> CHR 0x00 \<and> single_line s"
  by (auto simp: single_line_def)

lemma address_single_line: "address v = Inr u \<Longrightarrow> single_line v"
  by (auto simp: address_def split_once_Some_iff single_line_Cons dot_atom_single_line domain_single_line
      split: if_splits option.splits)

lemma reply_identifier_single_line: "reply_identifier v = Inr u \<Longrightarrow> single_line v"
  by (auto simp: reply_identifier_def split_once_Some_iff single_line_Cons dot_atom_single_line
      split: if_splits option.splits)

lemma recipient_single_line:
  assumes "recipient a = Inr u"
  shows "single_line (da_address a)" "n \<in> set (option_list (da_name a)) \<Longrightarrow> single_line n"
  using assms by (cases "da_name a"; auto simp: recipient_def address_single_line any_control_single_line option_list_def)+

text \<open>
  no header injection. When composition succeeds, no text that reaches a header (the From
  address, every recipient's address and name, the subject, the Message-ID and the reply
  identifiers) contains a carriage return, line feed or NUL, the body handed to the encoder has no carriage
  return or NUL, and the complete message is within the limit.
\<close>

theorem compose_injection_free:
  assumes "compose h input maximum = Inr d"
  shows "(\<forall>v \<in> set (header_texts input). single_line v)
    \<and> CR \<notin> set (normalize_body (di_body input)) \<and> CHR 0x00 \<notin> set (di_body input)
    \<and> length (pd_bytes d) \<le> maximum"
proof -
  from assms have valid: "compose_validate input maximum = Inr ()"
    by (auto simp: compose_def)
  then have r: "address (di_from input) = Inr ()" "\<forall>a \<in> set (recipients_of input). recipient a = Inr ()"
    "reply_identifier (di_message_id input) = Inr ()" "\<not> any_control (di_subject input)"
    "\<forall>v \<in> set (option_list (di_in_reply_to input) @ di_references input). reply_identifier v = Inr ()"
    "CHR 0x00 \<notin> set (di_body input)"
    by (auto simp: compose_validate_def try_fold_unit)
  have "single_line v" if "v \<in> set (header_texts input)" for v
    using that r recipient_single_line
    by (auto simp: header_texts_def address_single_line reply_identifier_single_line any_control_single_line)
  moreover have "CR \<notin> set (normalize_body (di_body input))"
    by (simp add: normalize_body_def normalize_loop_canonical canonical_newlines_no_CR)
  moreover from assms have "length (pd_bytes d) \<le> maximum"
    using mime_writes_Inr(1) by (fastforce simp: compose_def Let_def compose_capacity_def split: if_splits)
  ultimately show ?thesis using r(6) by blast
qed

section \<open>The frozen Message-ID\<close>

lemma unat_less_power: "unat (w :: 'a::len word) < 2 ^ LENGTH('a)"
  by (rule unsigned_less)

lemma digits_determine:
  fixes a c b :: nat
  assumes "\<forall>k < m. a div b ^ k mod b = c div b ^ k mod b"
  shows "a mod b ^ m = c mod b ^ m"
  using assms
proof (induction m)
  case (Suc m)
  then have "a mod b ^ m = c mod b ^ m" "a div b ^ m mod b = c div b ^ m mod b" by simp_all
  then show ?case
    by (simp add: mult.commute [of b] mod_mult2_eq)
qed simp

definition digit_value :: "char \<Rightarrow> nat" where
  "digit_value c = (if ord c < 58 then ord c - 48 else ord c - 87)"

lemma digit_value_hex: "n < 16 \<Longrightarrow> digit_value (hex_digit n) = n"
  by (simp add: digit_value_def hex_digit_def)

lemma uuid_digits_inject: "uuid_digits u = uuid_digits v \<longleftrightarrow> u = v"
proof
  assume d: "uuid_digits u = uuid_digits v"
  have "unat u div 16 ^ k mod 16 = unat v div 16 ^ k mod 16" if "k < 32" for k
  proof -
    have "digit_value (uuid_digits w ! (31 - k)) = unat w div 16 ^ k mod 16" for w
    proof -
      have "31 - k < length [0..<32]" "[0..<32] ! (31 - k) = 31 - k" by simp_all
      then have "uuid_digits w ! (31 - k) = hex_digit (unat w div 16 ^ (31 - (31 - k)) mod 16)"
        unfolding uuid_digits_def by (subst nth_map) simp_all
      with that show ?thesis by (simp add: digit_value_hex)
    qed
    from this [of u] this [of v] d show ?thesis by simp
  qed
  then have "unat u mod 16 ^ 32 = unat v mod 16 ^ 32"
    by (intro digits_determine) blast
  moreover have "unat w < 16 ^ 32" for w :: uuid
    using unat_less_power [of w] by simp
  ultimately show "u = v" by (simp add: word_unat_eq_iff)
qed simp

lemma length_uuid_digits [simp]: "length (uuid_digits u) = 32"
  by (simp add: uuid_digits_def)

lemma length_uuid_string [simp]: "length (uuid_string u) = 36"
  by (simp add: uuid_string_def Let_def)

text \<open>The digits back from the hyphenated text.\<close>

definition unhyphenate :: "string \<Rightarrow> string" where
  "unhyphenate s = take 8 s @ take 4 (drop 9 s) @ take 4 (drop 14 s) @ take 4 (drop 19 s) @ drop 24 s"

lemma unhyphenate_uuid: "unhyphenate (uuid_string u) = uuid_digits u"
proof -
  have "d = take 8 d @ take 4 (drop 8 d) @ take 4 (drop 12 d) @ take 4 (drop 16 d) @ drop 20 d"
    if "length d = 32" for d :: string
    using that append_take_drop_id [of 8 d] append_take_drop_id [of 4 "drop 8 d"]
      append_take_drop_id [of 4 "drop 12 d"] append_take_drop_id [of 4 "drop 16 d"] by simp
  from this [of "uuid_digits u"] show ?thesis
    by (simp add: unhyphenate_def uuid_string_def Let_def)
qed

lemma uuid_string_inject: "uuid_string u = uuid_string v \<longleftrightarrow> u = v"
  using unhyphenate_uuid uuid_digits_inject by metis

fun read_nat :: "nat \<Rightarrow> string \<Rightarrow> nat" where
  "read_nat n [] = n"
| "read_nat n (c # s) = read_nat (10 * n + (ord c - 48)) s"

lemma read_nat_append: "read_nat n (s @ t) = read_nat (read_nat n s) t"
  by (induction s arbitrary: n) auto

lemma read_show_nat: "read_nat 0 (show_nat n) = n"
proof (induction n rule: show_nat.induct)
  case (1 n)
  show ?case
  proof (cases "n < 10")
    case True
    then show ?thesis by (simp add: show_nat.simps)
  next
    case False
    with 1 have "read_nat 0 (show_nat (n div 10)) = n div 10" by simp
    moreover have "ord (chr (48 + n mod 10)) = 48 + n mod 10"
      using mod_less_divisor [of 10 n] by (intro ord_chr) simp
    ultimately show ?thesis
      using False by (subst show_nat.simps) (simp add: read_nat_append)
  qed
qed

lemma show_nat_inject: "show_nat m = show_nat n \<longleftrightarrow> m = n"
  using read_show_nat by metis

lemma show_nat_digits: "c \<in> set (show_nat n) \<Longrightarrow> is_ascii_digit c"
proof (induction n rule: show_nat.induct)
  case (1 n)
  have "is_ascii_digit (chr (48 + m))" if "m < 10" for m
    using that by (simp add: is_ascii_digit_def)
  with 1 show ?case
    by (subst (asm) (2) show_nat.simps) (auto split: if_splits)
qed

lemma show_nat_nonempty [simp]: "show_nat n \<noteq> []"
  by (subst show_nat.simps) simp

lemma hex_digit_atom: "is_ascii_digit (hex_digit (n mod 16)) \<or> is_ascii_lower (hex_digit (n mod 16))"
proof -
  have "n mod 16 < 16" by simp
  then show ?thesis by (auto simp: hex_digit_def is_ascii_digit_def is_ascii_lower_def)
qed

lemma uuid_string_bytes: "c \<in> set (uuid_string u) \<Longrightarrow> is_ascii_digit c \<or> is_ascii_lower c \<or> c = CHR ''-''"
proof -
  assume c: "c \<in> set (uuid_string u)"
  have "is_ascii_digit x \<or> is_ascii_lower x" if "x \<in> set (uuid_digits u)" for x
  proof -
    from that obtain k where "x = hex_digit (unat u div 16 ^ (31 - k) mod 16)"
      by (auto simp: uuid_digits_def)
    then show ?thesis using hex_digit_atom by simp
  qed
  with c show ?thesis
    by (auto simp: uuid_string_def Let_def dest!: in_set_takeD in_set_dropD)
qed

lemma split_on_Cons_sep: "d \<notin> set a \<Longrightarrow> split_on d (a @ d # s) = a # split_on d s"
  by (induction a) auto

lemma split_on_none: "d \<notin> set a \<Longrightarrow> split_on d a = [a]"
  by (induction a) auto

lemma message_id_local:
  "dot_atom (uuid_string u @ CHR ''.'' # show_nat n @ CHR ''.'' # uuid_string v)"
proof -
  have at: "atom_byte c" "c \<noteq> CHR ''.''" if "is_ascii_digit c \<or> is_ascii_lower c \<or> c = CHR ''-''" for c
    using that by (auto simp: atom_byte_def is_ascii_alphanumeric_def is_ascii_digit_def is_ascii_lower_def ord_def)
  have u: "list_all atom_byte (uuid_string w)" "CHR ''.'' \<notin> set (uuid_string w)" "uuid_string w \<noteq> []" for w
  proof -
    have "atom_byte c \<and> c \<noteq> CHR ''.''" if "c \<in> set (uuid_string w)" for c
      using at [OF uuid_string_bytes [OF that]] by blast
    then show "list_all atom_byte (uuid_string w)" "CHR ''.'' \<notin> set (uuid_string w)"
      unfolding list_all_iff by blast+
    show "uuid_string w \<noteq> []" using length_uuid_string [of w] by (metis list.size(3) zero_neq_numeral)
  qed
  have "list_all atom_byte (show_nat n)" "CHR ''.'' \<notin> set (show_nat n)"
    using show_nat_digits [of _ n] at unfolding list_all_iff by blast+
  with u show ?thesis
    by (simp add: dot_atom_def split_on_Cons_sep split_on_none)
qed

lemma message_id_split:
  "message_id i = (uuid_string (account_id i) @ CHR ''.'' # show_nat (unat (account_generation i)) @ CHR ''.''
     # uuid_string (operation_id i)) @ ''@mailctl.invalid''"
  by (simp add: message_id_def)

lemma unat_show_length: "length (show_nat (unat (g :: u64))) \<le> 20"
proof -
  have "length (show_nat n) \<le> k" if "n < 10 ^ k" "0 < k" for n k
    using that
  proof (induction n arbitrary: k rule: show_nat.induct)
    case (1 n)
    show ?case
    proof (cases "n < 10")
      case True
      with 1(3) show ?thesis by (simp add: show_nat.simps)
    next
      case False
      with 1(2,3) obtain j where j: "k = Suc j" "0 < j"
        by (metis One_nat_def not_gr_zero not0_implies_Suc power_one_right)
      with 1(2) have "n div 10 < 10 ^ j" by simp
      with 1(1) [OF False _ j(2)] have "length (show_nat (n div 10)) \<le> j" by simp
      with False j show ?thesis by (subst show_nat.simps) simp
    qed
  qed
  moreover have "unat g < 10 ^ 20"
    using unat_less_power [of g] by simp
  ultimately show ?thesis by simp
qed

text \<open>
  the frozen Message-ID of a draft operation is always a valid identifier and determines the
  operation: two operations with the same Message-ID are the same operation, so evidence found by
  it cannot belong to another one.
\<close>

theorem message_id_identifies:
  "reply_identifier (message_id i) = Inr () \<and> (message_id i = message_id j \<longleftrightarrow> i = j)"
proof
  let ?l = "uuid_string (account_id i) @ CHR ''.'' # show_nat (unat (account_generation i)) @ CHR ''.''
     # uuid_string (operation_id i)"
  have "CHR ''@'' \<notin> set ?l"
    using dot_atom_bytes [OF message_id_local] atom_byte_not(4) by blast
  then have "split_once CHR ''@'' (message_id i) = Some (?l, ''mailctl.invalid'')"
    by (simp only: split_once_Some_iff message_id_split) simp
  moreover have "dot_atom ''mailctl.invalid''"
    by code_simp
  moreover have "length (message_id i) \<le> 998"
    using unat_show_length [of "account_generation i"] by (simp add: message_id_def)
  ultimately show "reply_identifier (message_id i) = Inr ()"
    using message_id_local by (simp add: reply_identifier_def)
  show "message_id i = message_id j \<longleftrightarrow> i = j"
  proof
    assume "message_id i = message_id j"
    then have a: "uuid_string (account_id i) = uuid_string (account_id j)"
      and b: "show_nat (unat (account_generation i)) @ CHR ''.'' # uuid_string (operation_id i)
        = show_nat (unat (account_generation j)) @ CHR ''.'' # uuid_string (operation_id j)"
      by (simp_all add: message_id_split)
    from b have "show_nat (unat (account_generation i)) = show_nat (unat (account_generation j))
        \<and> CHR ''.'' # uuid_string (operation_id i) = CHR ''.'' # uuid_string (operation_id j)"
      by (subst (asm) append_eq_append_conv) simp_all
    with a show "i = j"
      by (simp add: uuid_string_inject show_nat_inject word_unat_eq_iff)
  qed simp
qed

section \<open>A concrete composition\<close>

definition example_compose_host :: compose_host where
  "example_compose_host =
     \<lparr>mime_writes = (\<lambda>b. [''From: '' @ builder_from b, [CR, LF, CR, LF], builder_text_body b]),
      mime_sha256 = (\<lambda>_. replicate 32 7)\<rparr>"

definition example_draft_input :: DraftInput where
  "example_draft_input =
     \<lparr>di_from = ''a@b.c'', di_to = [\<lparr>da_address = ''d@e.f'', da_name = Some ''D E''\<rparr>], di_cc = [], di_bcc = [],
      di_subject = ''hello'', di_body = ''x'' @ [CR, LF] @ ''y'', di_message_id = ''m@mailctl.invalid'',
      di_date_unix = 0, di_in_reply_to = None, di_references = []\<rparr>"

lemma example_draft_valid: "compose_validate example_draft_input 1024 = Inr ()"
  by code_simp

theorem compose_exact_witness:
  "compose example_compose_host example_draft_input 1024 =
    Inr \<lparr>pd_bytes = ''From: a@b.c'' @ [CR, LF, CR, LF] @ ''x'' @ [LF] @ ''y'', pd_sha256 = replicate 32 7, pd_header_bytes = 15\<rparr>"
proof -
  have "concat (mime_writes example_compose_host (builder_of example_draft_input (normalize_body (di_body example_draft_input))))
      = ''From: a@b.c'' @ [CR, LF, CR, LF] @ ''x'' @ [LF] @ ''y''"
    by code_simp
  then show ?thesis
    by (subst compose_exact [OF example_draft_valid refl]) (simp add: example_compose_host_def)
qed

theorem compose_injection_free_witness:
  "\<exists>d. compose example_compose_host example_draft_input 1024 = Inr d \<and> length (pd_bytes d) \<le> 1024"
proof -
  have "is_ok (compose example_compose_host example_draft_input 1024)"
    by code_simp
  then obtain d where "compose example_compose_host example_draft_input 1024 = Inr d"
    by (auto simp: is_ok_iff)
  with compose_injection_free [OF this] show ?thesis by blast
qed

end
