(* ===== verification/Registry.thy ===== *)
theory Registry
  imports Service Compose
begin

text \<open>
  The installation registry (\<open>src/src/service/state.rs\<close>): stable account identities, the numbered
  generations of every account, their reconciliation with a configuration, and the route of a
  draft to the generation it was created under. Parsing a UUID and drawing new ones are parameters.
\<close>

section \<open>State\<close>

record Generation =
  gen_number :: u64
  gen_server :: string
  gen_port :: u16
  gen_tls :: TlsMode
  gen_username :: string
  gen_drafts_mailbox :: "string option"
  gen_credential :: "CredentialSource option"

record AccountHistory =
  ah_account_id :: string
  ah_generations :: "Generation list"

record Registry =
  reg_draft_history_initialized :: bool
  reg_installation :: string
  reg_installation_key :: "u8 list"
  reg_configuration_revision :: string
  reg_accounts :: "(string, AccountHistory) btree"

definition setup_invalid :: Error where
  "setup_invalid = setup_required"

definition generation_matches :: "Generation \<Rightarrow> AccountConfig \<Rightarrow> bool" where
  "generation_matches g a \<longleftrightarrow>
     gen_server g = acc_server a \<and> gen_port g = acc_port a \<and> gen_tls g = acc_tls a
     \<and> gen_username g = acc_username a \<and> gen_credential g = Some (acc_credential a)
     \<and> map_option mailbox_identity (gen_drafts_mailbox g) = map_option mailbox_identity (acc_drafts_mailbox a)"

definition generation_from_account :: "AccountConfig \<Rightarrow> u64 \<Rightarrow> Generation" where
  "generation_from_account a n =
     \<lparr>gen_number = n, gen_server = acc_server a, gen_port = acc_port a, gen_tls = acc_tls a,
      gen_username = acc_username a, gen_drafts_mailbox = acc_drafts_mailbox a,
      gen_credential = Some (acc_credential a)\<rparr>"

text \<open>The \<open>uuid\<close> package and the random generator: the \<open>n\<close>-th identity drawn.\<close>

record uuid_host =
  parse_uuid :: "string \<Rightarrow> uuid option"
  draw_uuid :: "nat \<Rightarrow> uuid"

definition registry_new :: "uuid_host \<Rightarrow> nat \<Rightarrow> u8 list option \<Rightarrow> string \<Rightarrow> (Registry \<times> nat) result" where
  "registry_new h n key revision =
     and_then (ok_or setup_invalid key) (\<lambda>key.
       Inr (\<lparr>reg_draft_history_initialized = False, reg_installation = uuid_string (draw_uuid h n),
         reg_installation_key = key, reg_configuration_revision = revision, reg_accounts = []\<rparr>, n + 1))"

definition is_ascii_hexdigit :: "char \<Rightarrow> bool" where
  "is_ascii_hexdigit c \<longleftrightarrow> is_ascii_digit c \<or> (65 \<le> ord c \<and> ord c \<le> 70) \<or> (97 \<le> ord c \<and> ord c \<le> 102)"

definition numbered :: "Generation list \<Rightarrow> bool" where
  "numbered gs \<longleftrightarrow> (\<forall>i < length gs. gen_number (gs ! i) = of_nat i + 1)"

definition validate_history :: "uuid_host \<Rightarrow> uuid set \<Rightarrow> AccountHistory \<Rightarrow> uuid set result" where
  "validate_history h identities a =
     and_then (ok_or setup_invalid (parse_uuid h (ah_account_id a))) (\<lambda>u.
       if uuid_string u \<noteq> ah_account_id a \<or> u \<in> identities \<or> ah_generations a = [] \<or> \<not> numbered (ah_generations a)
       then Inl setup_invalid else Inr (insert u identities))"

definition registry_validate :: "uuid_host \<Rightarrow> Registry \<Rightarrow> unit result" where
  "registry_validate h r =
     (if parse_uuid h (reg_installation r) = None \<or> reg_installation_key r = replicate 32 0
         \<or> length (reg_configuration_revision r) \<noteq> 64 \<or> \<not> list_all is_ascii_hexdigit (reg_configuration_revision r)
      then Inl setup_invalid
      else and_then (try_fold (validate_history h) {} (map snd (reg_accounts r))) (\<lambda>_. Inr ()))"

section \<open>Reconciliation\<close>

definition forget_credential :: "Generation \<Rightarrow> Generation" where
  "forget_credential g = g\<lparr>gen_credential := None\<rparr>"

definition forget_removed :: "Config \<Rightarrow> string \<times> AccountHistory \<Rightarrow> string \<times> AccountHistory" where
  "forget_removed c kh =
     (if \<not> list_ex (\<lambda>a. acc_key a = fst kh) (cfg_accounts c)
      then (fst kh, (snd kh)\<lparr>ah_generations := map forget_credential (ah_generations (snd kh))\<rparr>) else kh)"

definition advance_generation :: "AccountConfig \<Rightarrow> Generation list \<Rightarrow> Generation list" where
  "advance_generation a gs =
     (if gs = [] \<or> \<not> generation_matches (last gs) a
      then gs @ [generation_from_account a (of_nat (length gs) + 1)] else gs)"

definition drop_history :: "AccountConfig \<Rightarrow> Generation list \<Rightarrow> Generation list" where
  "drop_history a gs =
     (if acc_retain_history a then gs else map forget_credential (butlast gs) @ [last gs])"

definition reconcile_account :: "uuid_host \<Rightarrow> AccountConfig \<Rightarrow> (string, AccountHistory) btree \<times> nat \<Rightarrow> (string, AccountHistory) btree \<times> nat" where
  "reconcile_account h a mn =
     (let (history, n) = (case map_of (fst mn) (acc_key a) of
          Some history \<Rightarrow> (history, snd mn)
        | None \<Rightarrow> (\<lparr>ah_account_id = uuid_string (draw_uuid h (snd mn)), ah_generations = []\<rparr>, snd mn + 1))
      in (btree_insert (acc_key a)
            (history\<lparr>ah_generations := drop_history a (advance_generation a (ah_generations history))\<rparr>) (fst mn), n))"

definition registry_reconcile :: "uuid_host \<Rightarrow> Config \<Rightarrow> Registry \<Rightarrow> nat \<Rightarrow> (Registry \<times> nat) result" where
  "registry_reconcile h c r n =
     and_then (registry_validate h r) (\<lambda>_.
       let (m, n) = fold (reconcile_account h) (cfg_accounts c) (map (forget_removed c) (reg_accounts r), n)
       in Inr (r\<lparr>reg_accounts := m\<rparr>, n))"

definition registry_in_memory :: "uuid_host \<Rightarrow> (Config \<Rightarrow> string result) \<Rightarrow> u8 list option \<Rightarrow> Config \<Rightarrow> Registry result" where
  "registry_in_memory h fingerprint_of key c =
     and_then (map_err (\<lambda>_. setup_invalid) (fingerprint_of c)) (\<lambda>revision.
     and_then (registry_new h 0 key revision) (\<lambda>(r, n).
     and_then (registry_reconcile h c r n) (\<lambda>(r, n). Inr r)))"

section \<open>Identities and routes\<close>

definition registry_identity :: "Registry \<Rightarrow> string \<Rightarrow> (string \<times> u64) option" where
  "registry_identity r key =
     map_option (\<lambda>a. (ah_account_id a, of_nat (length (ah_generations a)))) (map_of (reg_accounts r) key)"

definition generation_at :: "Registry \<Rightarrow> string \<Rightarrow> u64 \<Rightarrow> Generation option" where
  "generation_at r key g =
     (case map_of (reg_accounts r) key of None \<Rightarrow> None
      | Some a \<Rightarrow> if g = 0 \<or> unat g > length (ah_generations a) then None else Some (ah_generations a ! (unat g - 1)))"

definition route_config :: "AccountConfig \<Rightarrow> Generation \<Rightarrow> CredentialSource \<Rightarrow> AccountConfig" where
  "route_config current g credential =
     current\<lparr>acc_server := gen_server g, acc_port := gen_port g, acc_tls := gen_tls g,
       acc_username := gen_username g, acc_drafts_mailbox := gen_drafts_mailbox g, acc_credential := credential\<rparr>"

definition draft_route :: "Registry \<Rightarrow> AccountConfig \<Rightarrow> u64 \<Rightarrow> string \<Rightarrow> AccountConfig result" where
  "draft_route r current g mailbox =
     and_then (ok_or (error_new DraftMailboxUnavailable) (generation_at r (acc_key current) g)) (\<lambda>route.
       if map_option mailbox_identity (gen_drafts_mailbox route) \<noteq> Some (mailbox_identity mailbox)
       then Inl (error_new DraftMailboxUnavailable)
       else if generation_matches route current \<and> gen_drafts_mailbox route = acc_drafts_mailbox current then Inr current
       else and_then (ok_or (error_new DraftMailboxUnavailable) (gen_credential route)) (\<lambda>credential.
         Inr (route_config current route credential)))"

section \<open>The history is append-only\<close>

text \<open>\<open>gs'\<close> continues \<open>gs\<close>: same generations, possibly with credentials erased, and new ones after them.\<close>

definition continues :: "Generation list \<Rightarrow> Generation list \<Rightarrow> bool" where
  "continues gs gs' \<longleftrightarrow> length gs \<le> length gs'
     \<and> (\<forall>i < length gs. gs' ! i = gs ! i \<or> gs' ! i = forget_credential (gs ! i))"

lemma forget_forget [simp]: "forget_credential (forget_credential g) = forget_credential g"
  by (simp add: forget_credential_def)

lemma forget_number [simp]: "gen_number (forget_credential g) = gen_number g"
  by (simp add: forget_credential_def)

lemma continues_refl [simp]: "continues gs gs"
  by (simp add: continues_def)

lemma continues_trans: "continues gs hs \<Longrightarrow> continues hs ks \<Longrightarrow> continues gs ks"
  unfolding continues_def by (metis forget_forget order_less_le_trans order_trans)

lemma continues_forget: "continues gs (map forget_credential gs)"
  by (simp add: continues_def)

lemma continues_advance: "continues gs (advance_generation a gs)"
  by (auto simp: advance_generation_def continues_def nth_append)

lemma continues_drop: "gs \<noteq> [] \<Longrightarrow> continues gs (drop_history a gs)"
  by (cases gs rule: rev_cases) (auto simp: drop_history_def continues_def nth_append)

lemma advance_nonempty [simp]: "advance_generation a gs \<noteq> []"
  by (simp add: advance_generation_def)

lemma numbered_advance: "numbered gs \<Longrightarrow> numbered (advance_generation a gs)"
  by (auto simp: advance_generation_def numbered_def nth_append generation_from_account_def less_Suc_eq)

lemma drop_history_length [simp]: "gs \<noteq> [] \<Longrightarrow> length (drop_history a gs) = length gs"
  by (auto simp: drop_history_def)

lemma numbered_drop: "gs \<noteq> [] \<Longrightarrow> numbered gs \<Longrightarrow> numbered (drop_history a gs)"
  using continues_drop [of gs a] unfolding numbered_def continues_def by (metis drop_history_length forget_number)

lemma last_drop [simp]: "last (drop_history a gs) = last gs"
  by (simp add: drop_history_def)

lemma last_advance: "generation_matches (last (advance_generation a gs)) a"
  by (simp add: advance_generation_def generation_matches_def generation_from_account_def)

text \<open>Generations that a further reconciliation with the same account leaves alone.\<close>

definition settled :: "AccountConfig \<Rightarrow> Generation list \<Rightarrow> bool" where
  "settled a gs \<longleftrightarrow> gs \<noteq> [] \<and> generation_matches (last gs) a \<and> drop_history a gs = gs"

lemma drop_nonempty [simp]: "gs \<noteq> [] \<Longrightarrow> drop_history a gs \<noteq> []"
  by (simp add: drop_history_def)

lemma drop_history_again: "drop_history a (drop_history a gs) = drop_history a gs"
  by (simp add: drop_history_def)

lemma settled_advance: "settled a (drop_history a (advance_generation a gs))"
  by (simp add: settled_def last_advance drop_history_again)

text \<open>What reconciling with a configuration keeps of one account's history.\<close>

definition history_kept :: "AccountHistory \<Rightarrow> AccountHistory \<Rightarrow> bool" where
  "history_kept a b \<longleftrightarrow> ah_account_id b = ah_account_id a \<and> continues (ah_generations a) (ah_generations b)"

lemma history_kept_refl [simp]: "history_kept a a"
  by (simp add: history_kept_def)

lemma history_kept_trans: "history_kept a b \<Longrightarrow> history_kept b c \<Longrightarrow> history_kept a c"
  by (auto simp: history_kept_def intro: continues_trans)

definition histories_kept :: "(string, AccountHistory) btree \<Rightarrow> (string, AccountHistory) btree \<Rightarrow> bool" where
  "histories_kept m m' \<longleftrightarrow> (\<forall>k a. map_of m k = Some a \<longrightarrow> (\<exists>b. map_of m' k = Some b \<and> history_kept a b))"

lemma histories_kept_trans: "histories_kept m m' \<Longrightarrow> histories_kept m' m'' \<Longrightarrow> histories_kept m m''"
  unfolding histories_kept_def by (meson history_kept_trans)

lemma map_of_forget_removed:
  "map_of (map (forget_removed c) m) k = map_option (\<lambda>a. snd (forget_removed c (k, a))) (map_of m k)"
  by (induction m) (auto simp: forget_removed_def)

lemma forget_removed_kept: "histories_kept m (map (forget_removed c) m)"
  by (auto simp: histories_kept_def map_of_forget_removed forget_removed_def history_kept_def continues_forget)

lemma forget_removed_wf [simp]: "btree_wf (map (forget_removed c) m) = btree_wf m"
proof -
  have "map fst (map (forget_removed c) m) = map fst m" by (auto simp: forget_removed_def)
  then show ?thesis unfolding btree_wf_def by (simp only:)
qed

lemma reconcile_account_kept:
  assumes "btree_wf m" and "reconcile_account h a (m, n) = (m', n')"
  shows "histories_kept m m'" "btree_wf m'"
    "\<exists>b. map_of m' (acc_key a) = Some b \<and> settled a (ah_generations b)"
    "k \<noteq> acc_key a \<Longrightarrow> map_of m' k = map_of m k"
proof -
  let ?g = "\<lambda>history. history\<lparr>ah_generations := drop_history a (advance_generation a (ah_generations history))\<rparr>"
  obtain history where m': "m' = btree_insert (acc_key a) (?g history) m"
    and old: "map_of m (acc_key a) = Some history \<or> map_of m (acc_key a) = None"
  proof (cases "map_of m (acc_key a)")
    case None
    with assms(2) that [of "\<lparr>ah_account_id = uuid_string (draw_uuid h n), ah_generations = []\<rparr>"] show ?thesis
      by (simp add: reconcile_account_def Let_def)
  next
    case (Some history)
    with assms(2) that [of history] show ?thesis
      by (simp add: reconcile_account_def Let_def)
  qed
  have "history_kept history (?g history)"
    by (auto simp: history_kept_def intro: continues_trans [OF continues_advance continues_drop])
  with assms(1) old show "histories_kept m m'"
    by (auto simp: m' histories_kept_def map_of_btree_insert)
  show "btree_wf m'" using assms(1) by (simp add: m')
  show "\<exists>b. map_of m' (acc_key a) = Some b \<and> settled a (ah_generations b)"
    using assms(1) by (simp add: m' map_of_btree_insert settled_advance)
  show "k \<noteq> acc_key a \<Longrightarrow> map_of m' k = map_of m k"
    using assms(1) by (simp add: m' map_of_btree_insert)
qed

lemma reconcile_accounts_kept:
  assumes "btree_wf m" and "fold (reconcile_account h) as (m, n) = (m', n')"
  shows "histories_kept m m' \<and> btree_wf m' \<and> (\<forall>k. k \<notin> acc_key ` set as \<longrightarrow> map_of m' k = map_of m k)"
  using assms
proof (induction as arbitrary: m n)
  case Nil
  then show ?case by (auto simp: histories_kept_def)
next
  case (Cons a as)
  obtain k l where k: "reconcile_account h a (m, n) = (k, l)" by (cases "reconcile_account h a (m, n)")
  note step = reconcile_account_kept [OF Cons.prems(1) k]
  have "fold (reconcile_account h) as (k, l) = (m', n')" using Cons.prems(2) k by simp
  with Cons.IH [OF step(2)] step(1,4) show ?case
    by (auto intro: histories_kept_trans)
qed

lemma reconcile_accounts_current:
  assumes "btree_wf m" and "fold (reconcile_account h) as (m, n) = (m', n')" and "distinct (map acc_key as)" and "a \<in> set as"
  shows "\<exists>b. map_of m' (acc_key a) = Some b \<and> settled a (ah_generations b)"
  using assms
proof (induction as arbitrary: m n)
  case (Cons x as)
  obtain k l where k: "reconcile_account h x (m, n) = (k, l)" by (cases "reconcile_account h x (m, n)")
  note step = reconcile_account_kept [OF Cons.prems(1) k]
  have rest: "fold (reconcile_account h) as (k, l) = (m', n')" using Cons.prems(2) k by simp
  show ?case
  proof (cases "a = x")
    case True
    then have "acc_key a \<notin> acc_key ` set as" using Cons.prems(3) by simp
    with reconcile_accounts_kept [OF step(2) rest] have "map_of m' (acc_key a) = map_of k (acc_key a)" by blast
    with step(3) True show ?thesis by simp
  next
    case False
    with Cons.prems(3,4) Cons.IH [OF step(2) rest] show ?thesis by simp
  qed
qed simp

lemma removed_forgotten:
  assumes "btree_wf (map (forget_removed c) m)"
    and "fold (reconcile_account h) (cfg_accounts c) (map (forget_removed c) m, n) = (m', n')"
    and "map_of m' key = Some b" and "key \<notin> acc_key ` set (cfg_accounts c)" and "x \<in> set (ah_generations b)"
  shows "gen_credential x = None"
proof -
  from reconcile_accounts_kept [OF assms(1,2)] assms(3,4) have "map_of (map (forget_removed c) m) key = Some b" by metis
  then obtain a where "b = snd (forget_removed c (key, a))"
    by (auto simp: map_of_forget_removed)
  moreover have "\<not> list_ex (\<lambda>a. acc_key a = key) (cfg_accounts c)"
    using assms(4) by (auto simp: list_ex_iff)
  ultimately have "ah_generations b = map forget_credential (ah_generations a)"
    by (simp add: forget_removed_def)
  with assms(5) show ?thesis by (auto simp: forget_credential_def)
qed

text \<open>
  C20: account identities are permanent. Reconciling the registry with any configuration keeps every
  known account's identifier and all its numbered generations (only their credentials may be
  erased), so a generation number, once issued, always means the same server and user; every
  configured account ends with a current generation that matches it, and an account that is no
  longer configured keeps no credential.
\<close>

theorem registry_reconcile_permanent:
  assumes "registry_reconcile h c r n = Inr (r', n')" and "btree_wf (reg_accounts r)"
    and "distinct (map acc_key (cfg_accounts c))"
  shows "btree_wf (reg_accounts r')
    \<and> (\<forall>key g x. generation_at r key g = Some x \<longrightarrow>
         (\<exists>y. generation_at r' key g = Some y \<and> (y = x \<or> y = forget_credential x)))
    \<and> (\<forall>key i g. registry_identity r key = Some (i, g) \<longrightarrow> (\<exists>g'. registry_identity r' key = Some (i, g')))
    \<and> (\<forall>a \<in> set (cfg_accounts c). \<exists>b. map_of (reg_accounts r') (acc_key a) = Some b
         \<and> ah_generations b \<noteq> [] \<and> generation_matches (last (ah_generations b)) a)
    \<and> (\<forall>key b. map_of (reg_accounts r') key = Some b \<longrightarrow> key \<notin> acc_key ` set (cfg_accounts c) \<longrightarrow>
         (\<forall>x \<in> set (ah_generations b). gen_credential x = None))"
proof -
  let ?m = "map (forget_removed c) (reg_accounts r)"
  from assms(1) obtain m' where f: "fold (reconcile_account h) (cfg_accounts c) (?m, n) = (m', n')"
    and r': "r' = r\<lparr>reg_accounts := m'\<rparr>"
    by (auto simp: registry_reconcile_def Let_def split: prod.splits)
  have wf: "btree_wf ?m" using assms(2) by simp
  note k = reconcile_accounts_kept [OF wf f]
  have kept: "histories_kept (reg_accounts r) m'"
    using k forget_removed_kept histories_kept_trans by blast
  have "\<exists>y. generation_at r' key g = Some y \<and> (y = x \<or> y = forget_credential x)"
    if "generation_at r key g = Some x" for key g x
  proof -
    from that obtain a where a: "map_of (reg_accounts r) key = Some a" "g \<noteq> 0" "unat g \<le> length (ah_generations a)"
      "x = ah_generations a ! (unat g - 1)"
      by (auto simp: generation_at_def split: option.splits if_splits)
    with kept obtain b where b: "map_of m' key = Some b" "continues (ah_generations a) (ah_generations b)"
      by (auto simp: histories_kept_def history_kept_def)
    have "0 < unat g" using a(2) by (simp add: unat_gt_0)
    with a(3) have "unat g - 1 < length (ah_generations a)" by linarith
    with a b show ?thesis
      by (auto simp: generation_at_def r' continues_def)
  qed
  moreover have "\<exists>g'. registry_identity r' key = Some (i, g')" if "registry_identity r key = Some (i, g)" for key i g
    using that kept by (auto simp: registry_identity_def r' histories_kept_def history_kept_def)
  moreover have "gen_credential x = None"
    if "map_of m' key = Some b" "key \<notin> acc_key ` set (cfg_accounts c)" "x \<in> set (ah_generations b)" for key b x
    using removed_forgotten [OF wf f that] .
  moreover have "\<exists>b. map_of m' (acc_key a) = Some b \<and> ah_generations b \<noteq> [] \<and> generation_matches (last (ah_generations b)) a"
    if "a \<in> set (cfg_accounts c)" for a
    using reconcile_accounts_current [OF wf f assms(3) that] unfolding settled_def by blast
  moreover have "btree_wf m'" using k by blast
  moreover have e: "reg_accounts r' = m'" by (simp add: r')
  ultimately show ?thesis unfolding e by blast
qed

section \<open>Validity and stability\<close>

lemma btree_insert_same: "btree_wf m \<Longrightarrow> map_of m k = Some v \<Longrightarrow> btree_insert k v m = m"
proof (induction k v m rule: btree_insert.induct)
  case (2 k v k' v' m)
  have "\<not> k < k'"
  proof
    assume "k < k'"
    moreover from 2(3) have "k = k' \<or> k \<in> fst ` set m"
      by (auto split: if_splits dest: map_of_SomeD intro: rev_image_eqI)
    ultimately show False using 2(2) by (auto simp: btree_wf_def)
  qed
  with 2 show ?case by (auto simp: btree_wf_def)
qed simp

lemma reconcile_account_settled:
  assumes "btree_wf m" and "map_of m (acc_key a) = Some b" and "settled a (ah_generations b)"
  shows "reconcile_account h a (m, n) = (m, n)"
  using assms by (simp add: reconcile_account_def advance_generation_def settled_def btree_insert_same)

lemma reconcile_accounts_settled:
  assumes "btree_wf m" and "\<forall>a \<in> set as. \<exists>b. map_of m (acc_key a) = Some b \<and> settled a (ah_generations b)"
  shows "fold (reconcile_account h) as (m, n) = (m, n)"
  using assms by (induction as) (auto simp: reconcile_account_settled)

definition history_valid :: "uuid_host \<Rightarrow> AccountHistory \<Rightarrow> bool" where
  "history_valid h a \<longleftrightarrow> (\<exists>u. parse_uuid h (ah_account_id a) = Some u \<and> uuid_string u = ah_account_id a)
     \<and> ah_generations a \<noteq> [] \<and> numbered (ah_generations a)"

lemma validate_history_Inr:
  "validate_history h S a = Inr T \<longleftrightarrow>
     history_valid h a \<and> (\<exists>u. parse_uuid h (ah_account_id a) = Some u \<and> u \<notin> S \<and> T = insert u S)"
  by (auto simp: validate_history_def history_valid_def ok_or_def split: option.splits if_splits)

text \<open>Account identifiers are canonical, so comparing parsed identities compares their texts.\<close>

lemma validate_histories_Inr:
  "(\<exists>T. try_fold (validate_history h) (uuid_of ` S) as = Inr T) \<longleftrightarrow>
     list_all (history_valid h) as \<and> distinct (map ah_account_id as) \<and> ah_account_id ` set as \<inter> S = {}"
  if "\<And>u. uuid_of (uuid_string u) = u" and "S \<subseteq> range uuid_string"
  using that(2)
proof (induction as arbitrary: S)
  case (Cons a as)
  show ?case
  proof (cases "history_valid h a")
    case False
    then show ?thesis by (auto simp: validate_history_Inr)
  next
    case True
    then obtain u where u: "parse_uuid h (ah_account_id a) = Some u" "uuid_string u = ah_account_id a"
      by (auto simp: history_valid_def)
    have id: "uuid_of (ah_account_id a) = u" using that(1) [of u] u(2) by simp
    have mem: "u \<in> uuid_of ` S \<longleftrightarrow> ah_account_id a \<in> S"
    proof
      assume "u \<in> uuid_of ` S"
      then obtain s where s: "s \<in> S" "u = uuid_of s" by blast
      with Cons.prems obtain v where "s = uuid_string v" by blast
      with s that(1) [of v] u(2) show "ah_account_id a \<in> S" by simp
    next
      assume "ah_account_id a \<in> S"
      then show "u \<in> uuid_of ` S" using id by blast
    qed
    have step: "insert u (uuid_of ` S) = uuid_of ` insert (ah_account_id a) S" by (simp add: id)
    have "insert (ah_account_id a) S \<subseteq> range uuid_string" using Cons.prems rangeI [of uuid_string u] u(2) by simp
    note IH = Cons.IH [OF this]
    show ?thesis
    proof (cases "ah_account_id a \<in> S")
      case True
      with mem u(1) show ?thesis by (auto simp: validate_history_Inr)
    next
      case False
      have "validate_history h (uuid_of ` S) a = Inr (uuid_of ` insert (ah_account_id a) S)"
        using True False mem u(1) step by (simp add: validate_history_Inr)
      with IH True False show ?thesis by auto
    qed
  qed
qed simp

definition identities_of :: "(string, AccountHistory) btree \<Rightarrow> string list" where
  "identities_of m = map (\<lambda>(_, a). ah_account_id a) m"

lemma histories_valid:
  "(\<exists>T. try_fold (validate_history h) {} (map snd m) = Inr T) \<longleftrightarrow>
     (\<forall>(k, a) \<in> set m. history_valid h a) \<and> distinct (identities_of m)"
proof -
  obtain f where f: "\<And>u. f (uuid_string u) = u"
    using uuid_string_inject inv_f_f [of uuid_string] by (metis injI)
  have "map ah_account_id (map snd m) = identities_of m"
    by (auto simp: identities_of_def)
  with validate_histories_Inr [where uuid_of = f and S = "{}" and as = "map snd m" and h = h, OF f] show ?thesis
    by (auto simp: list_all_iff)
qed

definition one_owner :: "(string, AccountHistory) btree \<Rightarrow> bool" where
  "one_owner m \<longleftrightarrow>
     (\<forall>k l a b. map_of m k = Some a \<longrightarrow> map_of m l = Some b \<longrightarrow> ah_account_id a = ah_account_id b \<longrightarrow> k = l)"

lemma one_owner_Cons:
  assumes "map_of m k = None"
  shows "one_owner ((k, a) # m) \<longleftrightarrow> one_owner m \<and> (\<forall>l b. map_of m l = Some b \<longrightarrow> ah_account_id b \<noteq> ah_account_id a)"
proof
  assume o: "one_owner ((k, a) # m)"
  have "ah_account_id b \<noteq> ah_account_id a" if "map_of m l = Some b" for l b
  proof
    assume "ah_account_id b = ah_account_id a"
    moreover have "l \<noteq> k" using that assms by auto
    ultimately show False
      using o [unfolded one_owner_def, rule_format, of k a l b] that by simp
  qed
  moreover have "x = y" if "map_of m x = Some b" "map_of m y = Some c" "ah_account_id b = ah_account_id c" for x y b c
  proof -
    have "x \<noteq> k" "y \<noteq> k" using that assms by auto
    with o [unfolded one_owner_def, rule_format, of x b y c] that show ?thesis by simp
  qed
  ultimately show "one_owner m \<and> (\<forall>l b. map_of m l = Some b \<longrightarrow> ah_account_id b \<noteq> ah_account_id a)"
    unfolding one_owner_def by blast
next
  assume o: "one_owner m \<and> (\<forall>l b. map_of m l = Some b \<longrightarrow> ah_account_id b \<noteq> ah_account_id a)"
  show "one_owner ((k, a) # m)"
    unfolding one_owner_def
  proof (intro allI impI)
    fix x y b c
    assume h: "map_of ((k, a) # m) x = Some b" "map_of ((k, a) # m) y = Some c" "ah_account_id b = ah_account_id c"
    show "x = y"
    proof (cases "x = k \<or> y = k")
      case True
      with h o show ?thesis by (auto split: if_splits)
    next
      case False
      with h have "map_of m x = Some b" "map_of m y = Some c" by (simp_all split: if_splits)
      with h(3) o show ?thesis unfolding one_owner_def by blast
    qed
  qed
qed

lemma distinct_identities: "btree_wf m \<Longrightarrow> distinct (identities_of m) \<longleftrightarrow> one_owner m"
proof (induction m)
  case (Cons ka m)
  obtain k a where ka: "ka = (k, a)" by (cases ka)
  have wf: "btree_wf m" and new: "map_of m k = None"
    using Cons.prems by (auto simp: btree_wf_def ka map_of_eq_None_iff)
  have "ah_account_id a \<in> set (identities_of m) \<longleftrightarrow> (\<exists>l b. map_of m l = Some b \<and> ah_account_id b = ah_account_id a)"
    using btree_wf_distinct [OF wf] by (force simp: identities_of_def map_of_eq_Some_iff)
  with Cons.IH [OF wf] show ?case
    by (auto simp: ka identities_of_def one_owner_Cons [OF new])
qed (simp add: identities_of_def one_owner_def)

text \<open>
  The draws from \<open>n\<close> up to \<open>lim\<close>: random version 4 identities do not repeat, and the text of
  an identity parses back to it.
\<close>

definition draws_ok :: "uuid_host \<Rightarrow> nat \<Rightarrow> nat \<Rightarrow> bool" where
  "draws_ok h n lim \<longleftrightarrow> inj_on (draw_uuid h) {n..<lim}
     \<and> (\<forall>j. n \<le> j \<longrightarrow> j < lim \<longrightarrow> parse_uuid h (uuid_string (draw_uuid h j)) = Some (draw_uuid h j))"

definition fresh_from :: "uuid_host \<Rightarrow> nat \<Rightarrow> nat \<Rightarrow> (string, AccountHistory) btree \<Rightarrow> bool" where
  "fresh_from h n lim m \<longleftrightarrow>
     (\<forall>k a j. map_of m k = Some a \<longrightarrow> n \<le> j \<longrightarrow> j < lim \<longrightarrow> ah_account_id a \<noteq> uuid_string (draw_uuid h j))"

definition accounts_ok :: "uuid_host \<Rightarrow> nat \<Rightarrow> nat \<Rightarrow> (string, AccountHistory) btree \<Rightarrow> bool" where
  "accounts_ok h n lim m \<longleftrightarrow> btree_wf m \<and> distinct (identities_of m) \<and> fresh_from h n lim m \<and> draws_ok h n lim
     \<and> (\<forall>k a. map_of m k = Some a \<longrightarrow> history_valid h a)"

lemma draws_ok_Suc: "draws_ok h n lim \<Longrightarrow> draws_ok h (n + 1) lim"
  by (auto simp: draws_ok_def inj_on_def)

lemma reconcile_account_counter: "reconcile_account h a (m, n) = (m', n') \<Longrightarrow> n \<le> n'"
  by (auto simp: reconcile_account_def split: option.splits)

lemma reconcile_accounts_counter: "fold (reconcile_account h) as (m, n) = (m', n') \<Longrightarrow> n \<le> n'"
proof (induction as arbitrary: m n)
  case (Cons a as)
  obtain k l where k: "reconcile_account h a (m, n) = (k, l)" by (cases "reconcile_account h a (m, n)")
  with Cons.IH [of k l] Cons.prems reconcile_account_counter [OF k] show ?case by simp
qed simp

lemma reconcile_account_ok:
  assumes "accounts_ok h n lim m" and "reconcile_account h a (m, n) = (m', n')" and "n' \<le> lim"
  shows "accounts_ok h n' lim m'"
proof -
  have wf: "btree_wf m" using assms(1) by (simp add: accounts_ok_def)
  let ?g = "\<lambda>b. b\<lparr>ah_generations := drop_history a (advance_generation a (ah_generations b))\<rparr>"
  show ?thesis
  proof (cases "map_of m (acc_key a)")
    case None
    define b where "b = \<lparr>ah_account_id = uuid_string (draw_uuid h n), ah_generations = []\<rparr>"
    have m': "m' = btree_insert (acc_key a) (?g b) m" "n' = n + 1"
      using assms(2) None by (simp_all add: reconcile_account_def b_def)
    have "numbered (ah_generations (?g b))"
      using numbered_drop [OF advance_nonempty numbered_advance [of "[]" a]] by (simp add: b_def numbered_def [of "[]"])
    then have valid: "history_valid h (?g b)"
      using assms(1,3) m'(2) by (auto simp: history_valid_def b_def accounts_ok_def draws_ok_def)
    have new: "\<forall>k x. map_of m k = Some x \<longrightarrow> ah_account_id b \<noteq> ah_account_id x"
      using assms(1) assms(3) m'(2) unfolding accounts_ok_def fresh_from_def b_def
      by simp (metis Suc_le_lessD order_refl)
    have "uuid_string (draw_uuid h n) \<noteq> uuid_string (draw_uuid h j)" if "n + 1 \<le> j" "j < lim" for j
    proof
      assume "uuid_string (draw_uuid h n) = uuid_string (draw_uuid h j)"
      then have "draw_uuid h n = draw_uuid h j" by (simp add: uuid_string_inject)
      with that assms(1) show False
        by (auto simp: accounts_ok_def draws_ok_def dest: inj_onD [of _ _ n j])
    qed
    then have "fresh_from h n' lim m'"
      using assms(1) wf by (auto simp: accounts_ok_def fresh_from_def m' map_of_btree_insert b_def)
    moreover have "distinct (identities_of m')"
      using assms(1) wf new unfolding accounts_ok_def
      by (simp add: distinct_identities one_owner_def m' map_of_btree_insert) metis
    ultimately show ?thesis
      using assms(1) wf valid draws_ok_Suc [of h n lim] by (auto simp: accounts_ok_def m' map_of_btree_insert)
  next
    case (Some b)
    have m': "m' = btree_insert (acc_key a) (?g b) m" "n' = n"
      using assms(2) Some by (simp_all add: reconcile_account_def)
    have "history_valid h b" using assms(1) Some by (simp add: accounts_ok_def)
    then have valid: "history_valid h (?g b)"
      by (simp add: history_valid_def numbered_drop numbered_advance)
    have "fresh_from h n' lim m'"
      using assms(1) wf Some by (auto simp: accounts_ok_def fresh_from_def m' map_of_btree_insert)
    moreover have "distinct (identities_of m')"
      using assms(1) wf Some unfolding accounts_ok_def
      by (auto simp: distinct_identities one_owner_def m' map_of_btree_insert)
    ultimately show ?thesis
      using assms(1) wf valid by (auto simp: accounts_ok_def m' map_of_btree_insert)
  qed
qed

lemma reconcile_accounts_ok:
  assumes "accounts_ok h n lim m" and "fold (reconcile_account h) as (m, n) = (m', n')" and "n' \<le> lim"
  shows "accounts_ok h n' lim m'"
  using assms(1,2)
proof (induction as arbitrary: m n)
  case (Cons a as)
  obtain k l where k: "reconcile_account h a (m, n) = (k, l)" by (cases "reconcile_account h a (m, n)")
  have rest: "fold (reconcile_account h) as (k, l) = (m', n')" using Cons.prems(2) k by simp
  with assms(3) reconcile_accounts_counter [OF rest] have "l \<le> lim" by simp
  from Cons.IH [OF reconcile_account_ok [OF Cons.prems(1) k this] rest] show ?case .
qed simp

lemma forget_removed_settled:
  assumes "\<forall>k b. map_of m k = Some b \<longrightarrow> k \<notin> acc_key ` set (cfg_accounts c) \<longrightarrow>
      (\<forall>x \<in> set (ah_generations b). gen_credential x = None)" and "btree_wf m"
  shows "map (forget_removed c) m = m"
proof (rule map_idI)
  fix kb assume "kb \<in> set m"
  moreover obtain k b where k: "kb = (k, b)" by (cases kb)
  ultimately have kb: "kb = (k, b)" "map_of m k = Some b"
    using btree_wf_distinct [OF assms(2)] by simp_all
  show "forget_removed c kb = kb"
  proof (cases "list_ex (\<lambda>a. acc_key a = k) (cfg_accounts c)")
    case False
    then have "k \<notin> acc_key ` set (cfg_accounts c)" by (auto simp: list_ex_iff)
    with assms(1) kb(2) have "map forget_credential (ah_generations b) = ah_generations b"
      by (intro map_idI) (auto simp: forget_credential_def)
    with False kb show ?thesis by (simp add: forget_removed_def)
  qed (simp add: kb forget_removed_def)
qed

lemma validate_accounts_ok:
  assumes "registry_validate h r = Inr ()" and "btree_wf (reg_accounts r)" and "fresh_from h n lim (reg_accounts r)"
    and "draws_ok h n lim"
  shows "accounts_ok h n lim (reg_accounts r)"
proof -
  from assms(1) have "\<exists>T. try_fold (validate_history h) {} (map snd (reg_accounts r)) = Inr T"
    by (auto simp: registry_validate_def split: if_splits)
  then have v: "\<forall>(k, a) \<in> set (reg_accounts r). history_valid h a" "distinct (identities_of (reg_accounts r))"
    by (auto simp: histories_valid)
  from v(1) have "\<forall>k a. map_of (reg_accounts r) k = Some a \<longrightarrow> history_valid h a"
    by (auto dest!: map_of_SomeD)
  with v(2) assms(2-4) show ?thesis by (simp add: accounts_ok_def)
qed

lemma forget_removed_ok: "accounts_ok h n lim m \<Longrightarrow> accounts_ok h n lim (map (forget_removed c) m)"
proof -
  assume ok: "accounts_ok h n lim m"
  have "identities_of (map (forget_removed c) m) = identities_of m"
    by (auto simp: identities_of_def forget_removed_def split: prod.splits)
  moreover have "fresh_from h n lim (map (forget_removed c) m)"
    using ok by (auto simp: accounts_ok_def fresh_from_def map_of_forget_removed forget_removed_def)
  moreover have "history_valid h a \<Longrightarrow> history_valid h (a\<lparr>ah_generations := map forget_credential (ah_generations a)\<rparr>)" for a
    by (auto simp: history_valid_def numbered_def)
  ultimately show ?thesis
    using ok by (auto simp: accounts_ok_def map_of_forget_removed forget_removed_def)
qed

text \<open>
  a reconciled registry reopens unchanged. If the identities drawn are new, the registry that
  reconciliation produces passes its own validation, no two accounts share an identifier, and
  reconciling it again with the same configuration changes nothing and draws nothing.
\<close>

theorem registry_reopens:
  assumes "registry_reconcile h c r n = Inr (r', n')" and "btree_wf (reg_accounts r)"
    and "distinct (map acc_key (cfg_accounts c))" and "fresh_from h n n' (reg_accounts r)" and "draws_ok h n n'"
  shows "registry_validate h r' = Inr () \<and> one_owner (reg_accounts r') \<and> registry_reconcile h c r' n' = Inr (r', n')"
proof -
  let ?m = "map (forget_removed c) (reg_accounts r)"
  from assms(1) obtain m' where v: "registry_validate h r = Inr ()"
    and f: "fold (reconcile_account h) (cfg_accounts c) (?m, n) = (m', n')" and r': "r' = r\<lparr>reg_accounts := m'\<rparr>"
    by (auto simp: registry_reconcile_def Let_def split: prod.splits)
  have ok: "accounts_ok h n' n' m'"
    using reconcile_accounts_ok [OF forget_removed_ok [OF validate_accounts_ok [OF v assms(2,4,5)]] f] by simp
  then have wf: "btree_wf m'" and one: "one_owner m'" by (auto simp: accounts_ok_def distinct_identities)
  have "\<forall>(k, a) \<in> set m'. history_valid h a"
    using ok btree_wf_distinct [OF wf] by (auto simp: accounts_ok_def)
  with ok have "\<exists>T. try_fold (validate_history h) {} (map snd m') = Inr T"
    by (simp add: histories_valid accounts_ok_def)
  with v have valid: "registry_validate h r' = Inr ()"
    by (auto simp: registry_validate_def r' split: if_splits)
  have wfm: "btree_wf ?m" using assms(2) by simp
  have "\<forall>k b. map_of m' k = Some b \<longrightarrow> k \<notin> acc_key ` set (cfg_accounts c) \<longrightarrow>
      (\<forall>x \<in> set (ah_generations b). gen_credential x = None)"
    using removed_forgotten [OF wfm f] by blast
  then have "map (forget_removed c) m' = m'" using wf by (rule forget_removed_settled)
  moreover have "fold (reconcile_account h) (cfg_accounts c) (m', n') = (m', n')"
    using reconcile_accounts_current [OF wfm f assms(3)] by (intro reconcile_accounts_settled [OF wf]) blast
  ultimately show ?thesis
    using valid one by (simp add: registry_reconcile_def r')
qed

section \<open>Routes\<close>

text \<open>
  a draft always goes back to where it was created. A route for a generation carries exactly the
  server, port, transport security, user and credential recorded for that generation, and its Drafts
  mailbox is the one asked for; a generation that was never issued, another mailbox or an erased
  credential gives no route.
\<close>

theorem draft_route_original:
  "(draft_route r current g mailbox = Inr route \<longrightarrow>
     (\<exists>x. generation_at r (acc_key current) g = Some x
       \<and> acc_server route = gen_server x \<and> acc_port route = gen_port x \<and> acc_tls route = gen_tls x
       \<and> acc_username route = gen_username x \<and> gen_credential x = Some (acc_credential route)
       \<and> map_option mailbox_identity (acc_drafts_mailbox route) = Some (mailbox_identity mailbox)
       \<and> acc_key route = acc_key current \<and> acc_mailboxes route = acc_mailboxes current))
   \<and> ((\<forall>x. generation_at r (acc_key current) g = Some x \<longrightarrow> gen_credential x = None
        \<or> map_option mailbox_identity (gen_drafts_mailbox x) \<noteq> Some (mailbox_identity mailbox)) \<longrightarrow>
      draft_route r current g mailbox = Inl (error_new DraftMailboxUnavailable))"
proof (intro conjI impI)
  assume d: "draft_route r current g mailbox = Inr route"
  then obtain x where x: "generation_at r (acc_key current) g = Some x"
    "map_option mailbox_identity (gen_drafts_mailbox x) = Some (mailbox_identity mailbox)"
    and cases: "(generation_matches x current \<and> gen_drafts_mailbox x = acc_drafts_mailbox current \<and> route = current) \<or>
      (\<exists>c. gen_credential x = Some c \<and> route = route_config current x c)"
    by (auto simp: draft_route_def simp del: map_option_eq_Some split: if_splits)
  from cases show "\<exists>x. generation_at r (acc_key current) g = Some x
       \<and> acc_server route = gen_server x \<and> acc_port route = gen_port x \<and> acc_tls route = gen_tls x
       \<and> acc_username route = gen_username x \<and> gen_credential x = Some (acc_credential route)
       \<and> map_option mailbox_identity (acc_drafts_mailbox route) = Some (mailbox_identity mailbox)
       \<and> acc_key route = acc_key current \<and> acc_mailboxes route = acc_mailboxes current"
  proof (elim disjE exE conjE)
    assume "generation_matches x current" "gen_drafts_mailbox x = acc_drafts_mailbox current" "route = current"
    with x show ?thesis unfolding generation_matches_def by (intro exI [of _ x]) simp
  next
    fix c assume "gen_credential x = Some c" "route = route_config current x c"
    with x show ?thesis by (intro exI [of _ x]) (simp add: route_config_def)
  qed
next
  assume none: "\<forall>x. generation_at r (acc_key current) g = Some x \<longrightarrow> gen_credential x = None
      \<or> map_option mailbox_identity (gen_drafts_mailbox x) \<noteq> Some (mailbox_identity mailbox)"
  show "draft_route r current g mailbox = Inl (error_new DraftMailboxUnavailable)"
  proof (cases "generation_at r (acc_key current) g")
    case None
    then show ?thesis by (simp add: draft_route_def)
  next
    case (Some x)
    with none show ?thesis
      by (cases "map_option mailbox_identity (gen_drafts_mailbox x) = Some (mailbox_identity mailbox)")
        (auto simp: draft_route_def generation_matches_def simp del: map_option_eq_Some)
  qed
qed

section \<open>A concrete registry\<close>

definition example_uuid_host :: uuid_host where
  "example_uuid_host =
     \<lparr>parse_uuid = (\<lambda>s. if s = uuid_string 7 then Some 7 else if s = uuid_string 8 then Some 8 else None),
      draw_uuid = (\<lambda>n. of_nat n + 7)\<rparr>"

definition example_registry :: Registry where
  "example_registry = \<lparr>reg_draft_history_initialized = False, reg_installation = uuid_string 7,
     reg_installation_key = replicate 32 1, reg_configuration_revision = replicate 64 CHR ''a'', reg_accounts = []\<rparr>"

definition example_reconciled :: Registry where
  "example_reconciled = example_registry\<lparr>reg_accounts := [(''work'', \<lparr>ah_account_id = uuid_string 8,
     ah_generations = [generation_from_account example_account 1]\<rparr>)]\<rparr>"

lemma example_reconcile:
  "registry_reconcile example_uuid_host example_config example_registry 1 = Inr (example_reconciled, 2)"
  by code_simp

lemma example_registry_ok:
  "btree_wf (reg_accounts example_registry)" "distinct (map acc_key (cfg_accounts example_config))"
  by (simp_all add: example_registry_def example_config_def)

theorem registry_reconcile_permanent_witness:
  "\<exists>b. map_of (reg_accounts example_reconciled) ''work'' = Some b \<and> generation_matches (last (ah_generations b)) example_account"
proof -
  have "example_account \<in> set (cfg_accounts example_config)" "acc_key example_account = ''work''"
    by (simp_all add: example_config_def example_account_def)
  with registry_reconcile_permanent [OF example_reconcile example_registry_ok] show ?thesis by metis
qed

theorem registry_reopens_witness:
  "registry_reconcile example_uuid_host example_config example_reconciled 2 = Inr (example_reconciled, 2)"
proof -
  have "fresh_from example_uuid_host 1 2 (reg_accounts example_registry)"
    by (simp add: fresh_from_def example_registry_def)
  moreover have "draws_ok example_uuid_host 1 2"
  proof -
    have "parse_uuid example_uuid_host (uuid_string (draw_uuid example_uuid_host 1)) = Some (draw_uuid example_uuid_host 1)"
      by code_simp
    moreover have one: "j = 1" if "1 \<le> j" "j < 2" for j :: nat using that by simp
    moreover have "inj_on (draw_uuid example_uuid_host) {1..<2}"
      by (rule inj_onI) (metis atLeastLessThan_iff one)
    ultimately show ?thesis unfolding draws_ok_def by blast
  qed
  ultimately show ?thesis
    using registry_reopens [OF example_reconcile example_registry_ok] by blast
qed

theorem draft_route_original_witness:
  "\<exists>x. generation_at example_reconciled ''work'' 1 = Some x \<and> acc_server example_account = gen_server x"
proof -
  have "draft_route example_reconciled example_account 1 ''Drafts'' = Inr example_account"
    by code_simp
  moreover have "acc_key example_account = ''work''" by (simp add: example_account_def)
  ultimately show ?thesis
    using draft_route_original [of example_reconciled example_account 1 "''Drafts''" example_account] by metis
qed

end
