(* ===== verification/Recovery.thy ===== *)
theory Recovery
  imports Config Journal
begin

text \<open>
  The installation's draft history (\<open>src/src/service/state/drafts.rs\<close>): the recovery markers that
  suspend draft creation, opening the journal, and the guarded access that suspends it when the
  database turns out to be invalid. File operations take the fault they meet, and a
  replacement may fail after it has become visible.
\<close>

section \<open>Files\<close>

text \<open>
  The contents of \<open>drafts.suspended\<close> and \<open>drafts.initialized\<close>, whether \<open>drafts.sqlite\<close> exists, and
  whether every file that exists is private.
\<close>

record draft_files =
  df_suspended :: "bytes option"
  df_marker :: "bytes option"
  df_journal :: bool
  df_private :: bool

datatype write_fault = Written | NotWritten | WrittenUnsynced

record file_io =
  fio_read_suspended :: bool
  fio_read_marker :: bool
  fio_reread_marker :: bool
  fio_replace :: write_fault
  fio_open_marker :: bool
  fio_write_marker :: write_fault

definition file_io_ok :: file_io where
  "file_io_ok = \<lparr>fio_read_suspended = True, fio_read_marker = True, fio_reread_marker = True, fio_replace = Written,
     fio_open_marker = True, fio_write_marker = Written\<rparr>"

definition journal_unavailable :: Error where
  "journal_unavailable = error_new JournalUnavailable"

definition file_read :: "bool \<Rightarrow> nat \<Rightarrow> bytes option \<Rightarrow> bytes option result" where
  "file_read readable maximum content =
     (case content of None \<Rightarrow> if readable then Inr None else Inl journal_unavailable
      | Some b \<Rightarrow> if readable \<and> length b \<le> maximum then Inr (Some b) else Inl journal_unavailable)"

definition private_files :: "draft_files \<Rightarrow> unit result" where
  "private_files f = ensure (df_private f) journal_unavailable"

definition drafts_enabled :: "Config \<Rightarrow> bool" where
  "drafts_enabled c = list_ex (\<lambda>g. grant_profile g \<noteq> ReadOnly) (cfg_grants c)"

section \<open>Recovery\<close>

datatype Recovery = Restoring | Suspended

definition recovery_read :: "file_io \<Rightarrow> draft_files \<Rightarrow> Recovery option result" where
  "recovery_read io f =
     and_then (file_read (fio_read_suspended io) 32 (df_suspended f)) (\<lambda>content.
     and_then (case content of None \<Rightarrow> Inr None
        | Some b \<Rightarrow> if b = ''restoring'' then Inr (Some Restoring)
            else if b = ''suspended'' then Inr (Some Suspended) else Inl journal_unavailable) (\<lambda>recovery.
       if recovery \<noteq> Some Restoring
       then and_then (file_read (fio_read_marker io) 8 (df_marker f)) (\<lambda>marker.
         if marker = Some ''!'' then Inr (Some Suspended) else Inr recovery)
       else Inr recovery))"

fun recovery_text :: "Recovery \<Rightarrow> bytes" where
  "recovery_text Restoring = ''restoring''"
| "recovery_text Suspended = ''suspended''"

definition recovery_persist :: "file_io \<Rightarrow> Recovery \<Rightarrow> draft_files \<Rightarrow> unit result \<times> draft_files" where
  "recovery_persist io r f =
     (let f' = (if fio_replace io = NotWritten then f else f\<lparr>df_suspended := Some (recovery_text r)\<rparr>) in
      if fio_replace io = Written then (Inr (), f')
      else if r = Suspended \<and> df_suspended f' = None
      then (case df_marker f' of None \<Rightarrow> (Inl journal_unavailable, f')
            | Some m \<Rightarrow>
                if \<not> fio_open_marker io \<or> length m \<noteq> 1 then (Inl journal_unavailable, f')
                else (case fio_write_marker io of
                    Written \<Rightarrow> (Inr (), f'\<lparr>df_marker := Some ''!''\<rparr>)
                  | NotWritten \<Rightarrow> (Inl journal_unavailable, f')
                  | WrittenUnsynced \<Rightarrow> (Inl journal_unavailable, f'\<lparr>df_marker := Some ''!''\<rparr>)))
      else (Inl journal_unavailable, f'))"

definition suspend :: "file_io \<Rightarrow> draft_files \<Rightarrow> draft_files" where
  "suspend io f = snd (recovery_persist io Suspended f)"

definition draft_creation_allowed :: "bool \<Rightarrow> file_io \<Rightarrow> draft_files \<Rightarrow> unit result" where
  "draft_creation_allowed lease io f =
     and_then (ensure lease journal_unavailable) (\<lambda>_.
     and_then (recovery_read io f) (\<lambda>r. ensure (r = None) journal_unavailable))"

definition absent_draft :: "bool \<Rightarrow> file_io \<Rightarrow> draft_files \<Rightarrow> Error" where
  "absent_draft lease io f =
     (case draft_creation_allowed lease io f of Inl e \<Rightarrow> e | Inr _ \<Rightarrow> error_new OperationNotFound)"

text \<open>
  \<open>initialize\<close>: a marker that already exists keeps missing history from becoming an empty journal.
  \<open>created\<close> and \<open>opened\<close> say whether the database file was created and initialized.
\<close>

definition drafts_initialize :: "write_fault \<Rightarrow> bool \<Rightarrow> bool \<Rightarrow> write_fault \<Rightarrow> draft_files \<Rightarrow> unit result \<times> draft_files" where
  "drafts_initialize pending created opened ready f =
     (if df_marker f \<noteq> None then (Inr (), f)
      else case private_files f of Inl e \<Rightarrow> (Inl e, f)
      | Inr _ \<Rightarrow>
          let f = (if pending = NotWritten then f else f\<lparr>df_marker := Some ''pending''\<rparr>) in
          if pending \<noteq> Written \<or> \<not> created \<or> df_journal f then (Inl journal_unavailable, f)
          else let f = f\<lparr>df_journal := True\<rparr> in
            if \<not> opened then (Inl journal_unavailable, f)
            else ((if ready = Written then Inr () else Inl journal_unavailable),
              if ready = NotWritten then f else f\<lparr>df_marker := Some ''r''\<rparr>))"

section \<open>Opening and guarded access\<close>

definition history_open :: "file_io \<Rightarrow> unit jresult \<Rightarrow> draft_files \<Rightarrow> unit result \<times> draft_files" where
  "history_open io connected f =
     (case and_then (private_files f) (\<lambda>_.
             and_then (recovery_read io f) (\<lambda>r. ensure (r \<noteq> Some Restoring) journal_unavailable)) of
        Inl e \<Rightarrow> (Inl e, f)
      | Inr _ \<Rightarrow>
          (case file_read (fio_reread_marker io) 8 (df_marker f) of Inl e \<Rightarrow> (Inl e, f)
           | Inr marker \<Rightarrow>
               if (marker \<noteq> Some ''r'' \<and> marker \<noteq> Some ''!'') \<or> \<not> df_journal f
               then (Inl journal_unavailable, suspend io f)
               else (case connected of Inr _ \<Rightarrow> (Inr (), f)
                     | Inl e \<Rightarrow>
                         if e = JBusy then (Inl (error_new RateLimited), f)
                         else if e = JInvalidDatabase then (Inl journal_unavailable, suspend io f)
                         else (Inl journal_unavailable, f))))"

text \<open>The waiting loop: each attempt that finds the journal busy is repeated until the deadline.\<close>

fun wait_for_draft_journal :: "(file_io \<times> unit jresult) list \<Rightarrow> draft_files \<Rightarrow> unit result \<times> draft_files" where
  "wait_for_draft_journal [] f = (Inl (error_new RateLimited), f)"
| "wait_for_draft_journal ((io, connected) # attempts) f =
     (case history_open io connected f of
        (Inl e, f') \<Rightarrow> if err_code e = RateLimited then wait_for_draft_journal attempts f' else (Inl e, f')
      | (Inr u, f') \<Rightarrow> (Inr u, f'))"

datatype try_lock = Locked | WouldBlock | LockFailed

fun draft_writer :: "bool \<Rightarrow> try_lock list \<Rightarrow> unit result" where
  "draft_writer False locks = Inl journal_unavailable"
| "draft_writer True [] = Inl (error_new RateLimited)"
| "draft_writer True (l # locks) =
     (case l of Locked \<Rightarrow> Inr () | WouldBlock \<Rightarrow> draft_writer True locks | LockFailed \<Rightarrow> Inl journal_unavailable)"

definition access :: "file_io \<Rightarrow> 'a jresult \<times> journal \<Rightarrow> draft_files \<Rightarrow> 'a jresult \<times> journal \<times> draft_files" where
  "access io r f = (fst r, snd r, case fst r of Inl JInvalidDatabase \<Rightarrow> suspend io f | _ \<Rightarrow> f)"

section \<open>Suspension is permanent\<close>

definition latched :: "draft_files \<Rightarrow> bool" where
  "latched f \<longleftrightarrow> df_suspended f \<noteq> None \<or> df_marker f = Some ''!''"

lemma latched_refuses: "latched f \<Longrightarrow> \<exists>e. draft_creation_allowed lease io f = Inl e"
  by (cases "draft_creation_allowed lease io f")
    (auto simp: latched_def draft_creation_allowed_def recovery_read_def file_read_def
      split: option.splits if_splits)

lemma latched_suspend: "latched f \<Longrightarrow> latched (suspend io f)"
  by (auto simp: latched_def suspend_def recovery_persist_def Let_def split: option.splits write_fault.splits)

lemma latched_open: "latched f \<Longrightarrow> latched (snd (history_open io connected f))"
  by (auto simp: history_open_def latched_suspend split: sum.splits)

lemma latched_wait: "latched f \<Longrightarrow> latched (snd (wait_for_draft_journal attempts f))"
proof (induction attempts f rule: wait_for_draft_journal.induct)
  case (2 io connected attempts f)
  have "latched (snd (history_open io connected f))" using 2(2) by (rule latched_open)
  with 2(1) show ?case by (auto split: prod.splits sum.splits)
qed simp

lemma latched_access: "access io r f = (a, db, f') \<Longrightarrow> latched f \<Longrightarrow> latched f'"
  by (auto simp: access_def latched_suspend split: sum.splits DraftJournalError.splits)

lemma suspend_latches:
  "fst (recovery_persist io Suspended f) = Inr () \<Longrightarrow> latched (suspend io f)"
  by (auto simp: suspend_def recovery_persist_def latched_def Let_def split: option.splits write_fault.splits if_splits)

end
