(* ===== verification/DraftService.thy ===== *)
theory DraftService
  imports Registry Recovery Imap
begin

text \<open>
  Draft creation, status and reconciliation (\<open>src/src/service/drafts.rs\<close>, with the bounded response
  of \<open>src/src/service.rs\<close>). A call is a sequence of steps over the service's observations, the
  installation files and the journal. Everything the call does not decide itself is an input
  (\<open>draft_env\<close>): the faults of every storage access, what the provider answers, and where a
  deadline cancels the call.
\<close>

section \<open>Inputs and receipts\<close>

record SaveDraftInput =
  sd_mailbox :: string
  sd_identity :: DraftIdentity
  sd_draft :: DraftContent

record DraftStatusInput =
  st_mailbox :: string
  st_identity :: DraftIdentity
  st_reconcile :: bool

datatype DraftState =
    DraftPrepared | DraftInFlight | DraftCreated | DraftCreatedReferenceUnavailable | DraftDuplicate
  | DraftRejected | DraftOutcomeUnknown

record DraftReceipt =
  rcpt_identity :: DraftIdentity
  rcpt_mailbox :: string
  rcpt_uid_validity :: u32
  rcpt_state :: DraftState
  rcpt_dispatched :: bool
  rcpt_message_reference :: "string option"
  rcpt_content_sha256 :: string

text \<open>
  Serializers, digests and the MIME encoder. \<open>OperationResult\<close> is untagged, so that \<open>dh_result\<close> serializes
  a receipt and a result carrying it alike.
\<close>

record draft_host =
  dh_journal :: journal_host
  dh_compose :: compose_host
  dh_tokens :: token_host
  dh_message :: "MessageReference \<Rightarrow> serialization"
  dh_content :: "DraftContent \<Rightarrow> serialization"
  dh_text :: "string \<Rightarrow> serialization"
  dh_texts :: "string list \<Rightarrow> serialization"
  dh_sha256 :: "bytes \<Rightarrow> sha256"
  dh_result :: "DraftReceipt \<Rightarrow> serialization"
  dh_error :: "Error \<Rightarrow> serialization"

section \<open>Authorization\<close>

definition historical_allowed :: "AccessGrant \<Rightarrow> DraftIdentity \<Rightarrow> string \<Rightarrow> bool" where
  "historical_allowed g i mailbox = list_ex (\<lambda>s. hist_account_id s = account_id i
     \<and> hist_account_generation s = account_generation i
     \<and> mailbox_identity (hist_mailbox s) = mailbox_identity mailbox) (grant_historical_drafts g)"

definition authorize_draft ::
  "Service \<Rightarrow> RequestContext \<Rightarrow> DraftIdentity \<Rightarrow> string \<Rightarrow> Permission \<Rightarrow> MailboxTarget result" where
  "authorize_draft sv c i mailbox permission =
     and_then (service_grant sv c) (\<lambda>g.
     and_then (ensure (context_permits c permission) denied) (\<lambda>_.
     and_then (visible_account_target sv c (uuid_string (account_id i))) (\<lambda>t.
       if operation_id i = 0 then Inl (error_new InvalidRequest)
       else if mailbox = [] \<or> length mailbox > 1024 then Inl (error_new InvalidRequest)
       else if tgt_generation t \<noteq> account_generation i
       then (if historical_allowed g i mailbox then Inr (t\<lparr>tgt_generation := account_generation i\<rparr>) else Inl denied)
       else and_then (authorize_mailbox_scope g t mailbox) (\<lambda>t.
         if map_option mailbox_identity (acc_drafts_mailbox (tgt_config t)) \<noteq> Some (mailbox_identity mailbox)
         then Inl denied else Inr t))))"

section \<open>Errors and receipts\<close>

definition operation_details :: "PreparedDraftOperation \<Rightarrow> DraftOperationDetails" where
  "operation_details op = \<lparr>det_identity = op_identity op, det_mailbox = op_mailbox_identity op,
     det_uid_validity = map_option rec_uid_validity (op_reconstruction op)\<rparr>"

definition uncertain :: "PreparedDraftOperation \<Rightarrow> string \<Rightarrow> Error" where
  "uncertain op m = (draft_outcome OutcomeUnknown (operation_details op))\<lparr>err_message := m\<rparr>"

fun journal_error :: "DraftJournalError \<Rightarrow> Error" where
  "journal_error JOperationConflict = draft_conflict"
| "journal_error JFull = error_new JournalFull"
| "journal_error _ = error_new JournalUnavailable"

definition validate_size :: "DraftContent \<Rightarrow> Limits \<Rightarrow> unit result" where
  "validate_size content l =
     (if saturating_add (saturating_add (length (dc_to content)) (length (dc_cc content))) (length (dc_bcc content)) > 100
        \<or> length (dc_subject content) > 8192 \<or> length (dc_body content) > l_draft_mime_bytes l
        \<or> length (dc_references content) > 50 \<or> is_some_and (dc_from content) (\<lambda>s. length s > 254)
        \<or> list_ex (\<lambda>a. length (da_address a) > 254 \<or> is_some_and (da_name a) (\<lambda>s. length s > 1024))
            (dc_to content @ dc_cc content @ dc_bcc content)
        \<or> list_ex (\<lambda>s. length s > 998) (option_list (dc_in_reply_to content) @ dc_references content)
      then Inl (error_new ResponseTooLarge) else Inr ())"

definition hash :: "draft_host \<Rightarrow> serialization \<Rightarrow> sha256 result" where
  "hash h s = map_err (\<lambda>_. error_new InvalidRequest) (json_sha256 (dh_sha256 h) s usize_max)"

definition appended_reference :: "draft_host \<Rightarrow> PreparedDraftOperation \<Rightarrow> Limits \<Rightarrow> DraftMessageIdentity \<Rightarrow> string option" where
  "appended_reference h op l m =
     (case token_encode (dh_tokens h) (dh_message h) ''ms''
        \<lparr>ref_account = uuid_string (account_id (op_identity op)), ref_generation = account_generation (op_identity op),
         ref_mailbox = op_mailbox_identity op, ref_uid_validity = dm_uid_validity m, ref_uid = dm_uid m\<rparr>
        (l_token_bytes l) of Inr t \<Rightarrow> Some t | Inl _ \<Rightarrow> None)"

fun receipt_reference :: "draft_host \<Rightarrow> PreparedDraftOperation \<Rightarrow> Limits \<Rightarrow> DraftOperationState \<Rightarrow> string option" where
  "receipt_reference h op l (OpCreated (Some m)) = appended_reference h op l m"
| "receipt_reference h op l (OpDuplicate m) = appended_reference h op l m"
| "receipt_reference h op l _ = None"

fun receipt_state :: "PreparedDraftOperation \<Rightarrow> string option \<Rightarrow> DraftOperationState \<Rightarrow> DraftState result" where
  "receipt_state op reference OpPrepared = Inr DraftPrepared"
| "receipt_state op reference OpInFlight = Inl (draft_outcome OperationInProgress (operation_details op))"
| "receipt_state op reference (OpCreated _) =
     Inr (if reference \<noteq> None then DraftCreated else DraftCreatedReferenceUnavailable)"
| "receipt_state op reference OpRejected = Inr DraftRejected"
| "receipt_state op reference (OpDuplicate _) = Inr DraftDuplicate"
| "receipt_state op reference OpOutcomeUnknown = Inl (draft_outcome OutcomeUnknown (operation_details op))"

definition draft_receipt :: "draft_host \<Rightarrow> PersistedDraftOperation \<Rightarrow> Limits \<Rightarrow> DraftReceipt result" where
  "draft_receipt h p l =
     (let op = per_operation p; reference = receipt_reference h op l (per_state p) in
      and_then (ok_or (error_new JournalUnavailable) (op_reconstruction op)) (\<lambda>r.
      and_then (receipt_state op reference (per_state p)) (\<lambda>state.
        Inr \<lparr>rcpt_identity = op_identity op, rcpt_mailbox = op_mailbox_identity op,
          rcpt_uid_validity = rec_uid_validity r, rcpt_state = state, rcpt_dispatched = (state \<noteq> DraftPrepared),
          rcpt_message_reference = reference, rcpt_content_sha256 = hex (op_content_sha256 op)\<rparr>)))"

definition admit_draft_response :: "draft_host \<Rightarrow> RequestContext \<Rightarrow> PreparedDraftOperation \<Rightarrow> unit result" where
  "admit_draft_response h c op =
     and_then (ok_or (error_new JournalUnavailable) (op_reconstruction op)) (\<lambda>r.
       let maximum = response_limit c - 512 in
       and_then (serialized_size (dh_result h
         \<lparr>rcpt_identity = op_identity op, rcpt_mailbox = op_mailbox_identity op, rcpt_uid_validity = rec_uid_validity r,
          rcpt_state = DraftCreatedReferenceUnavailable, rcpt_dispatched = True, rcpt_message_reference = None,
          rcpt_content_sha256 = hex (op_content_sha256 op)\<rparr>) maximum) (\<lambda>_.
       and_then (serialized_size (dh_error h
         (with_reason (draft_outcome OutcomeUnknown (operation_details op)) ResultSerializationFailed)) maximum) (\<lambda>_.
         Inr ())))"

text \<open>The end of \<open>execute_inner\<close>: a receipt that does not fit is shortened before it is refused.\<close>

definition respond_draft :: "draft_host \<Rightarrow> RequestContext \<Rightarrow> DraftReceipt \<Rightarrow> DraftReceipt result" where
  "respond_draft h c receipt =
     (let maximum = response_limit c - 512 in
      case serialized_size (dh_result h receipt) maximum of Inr _ \<Rightarrow> Inr receipt
      | Inl e \<Rightarrow>
          let receipt = (if rcpt_message_reference receipt \<noteq> None \<and> rcpt_state receipt = DraftCreated
                then receipt\<lparr>rcpt_message_reference := None, rcpt_state := DraftCreatedReferenceUnavailable\<rparr>
                else receipt\<lparr>rcpt_message_reference := None\<rparr>) in
          if is_ok (serialized_size (dh_result h receipt) maximum) then Inr receipt
          else if rcpt_state receipt \<in> {DraftCreated, DraftCreatedReferenceUnavailable, DraftDuplicate}
          then Inl (draft_outcome OutcomeUnknown \<lparr>det_identity = rcpt_identity receipt, det_mailbox = rcpt_mailbox receipt,
            det_uid_validity = Some (rcpt_uid_validity receipt)\<rparr>)
          else Inl e)"

section \<open>Steps\<close>

text \<open>
  The state of a call; \<open>ds_uncertain\<close> is the operation reported when the deadline passes, and
  \<open>ds_appends\<close> records every message handed to the provider's APPEND.
\<close>

record draft_state =
  ds_service :: Service
  ds_files :: draft_files
  ds_journal :: journal
  ds_uncertain :: "DraftOperationDetails option"
  ds_appends :: "DraftIdentity list"

datatype 'a verdict = Value 'a | Failed Error | TimedOut

type_synonym 'a step = "draft_state \<Rightarrow> 'a verdict \<times> draft_state"

definition then_step :: "'a step \<Rightarrow> ('a \<Rightarrow> 'b step) \<Rightarrow> 'b step" where
  "then_step m k st =
     (case m st of (Value a, st') \<Rightarrow> k a st' | (Failed e, st') \<Rightarrow> (Failed e, st') | (TimedOut, st') \<Rightarrow> (TimedOut, st'))"

definition lift :: "'a result \<Rightarrow> 'a step" where
  "lift r st = (case r of Inl e \<Rightarrow> Failed e | Inr a \<Rightarrow> Value a, st)"

definition ask :: "(draft_state \<Rightarrow> 'a result) \<Rightarrow> 'a step" where
  "ask f st = lift (f st) st"

datatype await = AtAdmission | AtWriter | AtContended | AtJournal | AtVerify | AtBackend | AtPrepare | AtAppend | AtReconcile

type_synonym access_io = "sqlite_io \<times> file_io"

record draft_env =
  env_registry :: Registry
  env_lease :: bool
  env_cancel :: "await option"
  env_admission :: "unit result"
  env_lock_file :: bool
  env_locks :: "try_lock list"
  env_contended :: "(file_io \<times> unit jresult) list"
  env_contended_inspect :: access_io
  env_open :: "(file_io \<times> unit jresult) list"
  env_inspect :: access_io
  env_recover :: access_io
  env_absent :: file_io
  env_allowed :: "nat \<Rightarrow> file_io"
  env_capacity :: access_io
  env_verify :: access_io
  env_joined :: bool
  env_expired :: "nat \<Rightarrow> bool"
  env_now :: "int option"
  env_backend :: "unit result"
  env_prepare :: "u32 result"
  env_record :: access_io
  env_dispatch :: access_io
  env_append :: "AppendOutcome result"
  env_outcome :: access_io
  env_drop :: access_io
  env_evidence :: "DraftEvidence result"

definition await_at :: "draft_env \<Rightarrow> await \<Rightarrow> unit step" where
  "await_at env p st = (if env_cancel env = Some p then TimedOut else Value (), st)"

definition journal_access :: "access_io \<Rightarrow> (sqlite_io \<Rightarrow> journal \<Rightarrow> 'a jresult \<times> journal) \<Rightarrow> draft_state \<Rightarrow> 'a jresult \<times> draft_state" where
  "journal_access io op st =
     (case access (snd io) (op (fst io) (ds_journal st)) (ds_files st) of (r, db, f) \<Rightarrow>
        (r, st\<lparr>ds_journal := db, ds_files := f\<rparr>))"

definition access_step :: "access_io \<Rightarrow> (DraftJournalError \<Rightarrow> Error) \<Rightarrow> (sqlite_io \<Rightarrow> journal \<Rightarrow> 'a jresult \<times> journal) \<Rightarrow> 'a step" where
  "access_step io err op st = (case journal_access io op st of (r, st') \<Rightarrow> lift (map_err err r) st')"

definition open_history :: "draft_env \<Rightarrow> (file_io \<times> unit jresult) list \<Rightarrow> unit step" where
  "open_history env attempts st =
     (if \<not> env_lease env \<and> attempts \<noteq> [] then (Failed journal_unavailable, st)
      else (case wait_for_draft_journal attempts (ds_files st) of (r, f) \<Rightarrow> lift r (st\<lparr>ds_files := f\<rparr>)))"

definition creation_allowed :: "draft_env \<Rightarrow> nat \<Rightarrow> unit step" where
  "creation_allowed env k = ask (\<lambda>st. draft_creation_allowed (env_lease env) (env_allowed env k) (ds_files st))"

definition authorized_operation :: "draft_host \<Rightarrow> access_io \<Rightarrow> DraftIdentity \<Rightarrow> string \<Rightarrow> PersistedDraftOperation option step" where
  "authorized_operation h io i mailbox =
     then_step (access_step io journal_error (\<lambda>io db. (inspect (dh_journal h) io db i, db))) (\<lambda>prior.
       lift (if is_some_and prior (\<lambda>p. op_mailbox_identity (per_operation p) \<noteq> mailbox_identity mailbox)
             then Inl (error_new OperationNotFound) else Inr prior))"

text \<open>
  The writer lock of the account. When another process holds it, \<open>pending\<close> decides what a caller
  who finds the operation in flight is told.
\<close>

definition own_writer ::
  "draft_host \<Rightarrow> draft_env \<Rightarrow> DraftIdentity \<Rightarrow> string \<Rightarrow> (PersistedDraftOperation \<Rightarrow> 'a result) \<Rightarrow> ('a + unit) step" where
  "own_writer h env i mailbox pending =
     (case draft_writer (env_lease env \<and> env_lock_file env) (env_locks env) of
        Inr _ \<Rightarrow> lift (Inr (Inr ()))
      | Inl e \<Rightarrow>
          if err_code e = RateLimited
          then then_step (await_at env AtContended) (\<lambda>_.
               then_step (open_history env (env_contended env)) (\<lambda>_.
               then_step (authorized_operation h (env_contended_inspect env) i mailbox) (\<lambda>prior.
                 if is_some_and prior (\<lambda>p. per_state p = OpInFlight)
                 then lift (map_sum id Inl (pending (the prior))) else lift (Inl e))))
          else lift (Inl e))"

text \<open>An operation found in flight under the writer lock has lost its writer: its outcome is unknown.\<close>

definition recover_pending ::
  "draft_host \<Rightarrow> draft_env \<Rightarrow> DraftIdentity \<Rightarrow> (PreparedDraftOperation \<Rightarrow> Error) \<Rightarrow> PersistedDraftOperation \<Rightarrow> PersistedDraftOperation step" where
  "recover_pending h env i err p =
     (if per_state p = OpInFlight
      then access_step (env_recover env) (\<lambda>_. err (per_operation p)) (\<lambda>io db. record_outcome_unknown (dh_journal h) io i db)
      else lift (Inr p))"

section \<open>Saving a draft\<close>

definition save_begin ::
  "draft_host \<Rightarrow> draft_env \<Rightarrow> RequestContext \<Rightarrow> SaveDraftInput \<Rightarrow> (MailboxTarget \<times> Limits \<times> PersistedDraftOperation option) step" where
  "save_begin h env c input =
     then_step (ask (\<lambda>st. authorize_draft (ds_service st) c (sd_identity input) (sd_mailbox input) AppendDraft)) (\<lambda>target.
     then_step (ask (\<lambda>st. service_limits (ds_service st) c)) (\<lambda>limits.
     then_step (await_at env AtAdmission) (\<lambda>_.
     then_step (lift (env_admission env)) (\<lambda>_.
     then_step (await_at env AtWriter) (\<lambda>_.
     then_step (own_writer h env (sd_identity input) (sd_mailbox input)
        (\<lambda>p. Inl (draft_outcome OperationInProgress (operation_details (per_operation p))) :: unit result)) (\<lambda>_.
     then_step (await_at env AtJournal) (\<lambda>_.
     then_step (open_history env (env_open env)) (\<lambda>_.
     then_step (authorized_operation h (env_inspect env) (sd_identity input) (sd_mailbox input)) (\<lambda>prior.
     then_step (case prior of None \<Rightarrow> lift (Inr None)
        | Some p \<Rightarrow> then_step (recover_pending h env (sd_identity input)
            (\<lambda>op. draft_outcome OutcomeUnknown (operation_details op)) p) (\<lambda>p. lift (Inr (Some p)))) (\<lambda>prior.
       lift (Inr (target, limits, prior))))))))))))"

text \<open>A recorded operation is replayed when it has left the prepared state, otherwise it proceeds.\<close>

datatype replay = Replayed DraftReceipt | Proceed "PreparedDraftOperation option"

definition replay_prior ::
  "draft_host \<Rightarrow> Limits \<Rightarrow> sha256 \<Rightarrow> PersistedDraftOperation option \<Rightarrow> replay result" where
  "replay_prior h l input_sha256 prior =
     (case prior of None \<Rightarrow> Inr (Proceed None)
      | Some p \<Rightarrow>
          let op = per_operation p in
          and_then (ok_or (error_new JournalUnavailable) (op_reconstruction op)) (\<lambda>frozen.
            if rec_input_sha256 frozen \<noteq> input_sha256 then Inl draft_conflict
            else if per_state p \<noteq> OpPrepared then map_sum id Replayed (draft_receipt h p l)
            else if \<not> encoder_is_valid frozen then Inl (error_new UnsupportedCapability)
            else and_then (map_err journal_error (recon_fingerprint (dh_journal h) frozen (op_identity op) (op_mailbox_identity op)))
              (\<lambda>f. if f \<noteq> rec_facts_sha256 frozen then Inl draft_conflict else Inr (Proceed (Some op)))))"

definition normalized_content :: "DraftContent \<Rightarrow> DraftContent" where
  "normalized_content content = content\<lparr>dc_body := normalize_body (dc_body content)\<rparr>"

definition save_replay ::
  "draft_host \<Rightarrow> draft_env \<Rightarrow> SaveDraftInput \<Rightarrow> MailboxTarget \<Rightarrow> Limits \<Rightarrow> PersistedDraftOperation option \<Rightarrow> (replay \<times> sha256) step" where
  "save_replay h env input target l prior =
     then_step (ask (\<lambda>st.
        if prior = None \<and> snd (svc_identity (ds_service st) (acc_key (tgt_config target))) \<noteq> account_generation (sd_identity input)
        then Inl (absent_draft (env_lease env) (env_absent env) (ds_files st)) else Inr ())) (\<lambda>_.
     then_step (if prior = None
        then then_step (creation_allowed env 0) (\<lambda>_.
          then_step (ask (\<lambda>st. Inr (l_journal_records (cfg_limits (svc_config (ds_service st)))))) (\<lambda>records.
            access_step (env_capacity env) journal_error (\<lambda>io db. (check_capacity io db records, db))))
        else lift (Inr ())) (\<lambda>_.
     then_step (lift (validate_size (sd_draft input) l)) (\<lambda>_.
     then_step (lift (hash h (dh_content h (normalized_content (sd_draft input))))) (\<lambda>input_sha256.
     then_step (lift (replay_prior h l input_sha256 prior)) (\<lambda>r. lift (Inr (r, input_sha256)))))))"

text \<open>Every retained row is revisited before a dispatch.\<close>

definition save_verify :: "draft_host \<Rightarrow> draft_env \<Rightarrow> unit step" where
  "save_verify h env =
     then_step (creation_allowed env 1) (\<lambda>_.
     then_step (await_at env AtVerify) (\<lambda>_.
     then_step (\<lambda>st. case journal_access (env_verify env)
          (\<lambda>io db. (verify_for_dispatch (dh_journal h) io (env_expired env) (l_journal_records MAXIMUM) db, db)) st of (r, st') \<Rightarrow>
            lift (and_then (ensure (env_joined env) (error_new JournalUnavailable)) (\<lambda>_. map_err journal_error r)) st') (\<lambda>_.
       creation_allowed env 2)))"

definition draft_from :: "draft_host \<Rightarrow> string list \<Rightarrow> DraftReconstruction option \<Rightarrow> string option \<Rightarrow> string result" where
  "draft_from h identities frozen from_input =
     (case (frozen, from_input) of
        (Some r, _) \<Rightarrow> ok_or denied (find (\<lambda>v. (case hash h (dh_text h v) of Inr d \<Rightarrow> Some d | Inl _ \<Rightarrow> None)
           = rec_selected_from_sha256 r) identities)
      | (None, Some v) \<Rightarrow> if v \<in> set identities then Inr v else Inl (error_new InvalidRequest)
      | (None, None) \<Rightarrow> if length identities = 1 then Inr (identities ! 0) else Inl (error_new InvalidRequest))"

definition draft_frozen ::
  "draft_host \<Rightarrow> draft_env \<Rightarrow> string list \<Rightarrow> sha256 \<Rightarrow> string \<Rightarrow> DraftReconstruction option \<Rightarrow> DraftReconstruction result" where
  "draft_frozen h env identities input_sha256 from_address frozen =
     (case frozen of Some r \<Rightarrow> Inr r
      | None \<Rightarrow>
          and_then (hash h (dh_texts h identities)) (\<lambda>configuration.
          and_then (hash h (dh_text h from_address)) (\<lambda>selected.
          and_then (ok_or (error_new InternalError) (env_now env)) (\<lambda>now.
            Inr \<lparr>rec_uid_validity = 0, rec_input_sha256 = input_sha256, rec_from_configuration_sha256 = configuration,
              rec_selected_from_sha256 = Some selected, rec_date_unix = now, rec_encoder = ENCODER,
              rec_facts_sha256 = replicate 32 0\<rparr>))))"

definition draft_input :: "DraftContent \<Rightarrow> string \<Rightarrow> DraftIdentity \<Rightarrow> int \<Rightarrow> DraftInput" where
  "draft_input content from_address i date =
     \<lparr>di_from = from_address, di_to = dc_to content, di_cc = dc_cc content, di_bcc = dc_bcc content,
      di_subject = dc_subject content, di_body = dc_body content, di_message_id = message_id i, di_date_unix = date,
      di_in_reply_to = dc_in_reply_to content, di_references = dc_references content\<rparr>"

definition save_compose ::
  "draft_host \<Rightarrow> draft_env \<Rightarrow> SaveDraftInput \<Rightarrow> MailboxTarget \<Rightarrow> Limits \<Rightarrow> sha256 \<Rightarrow> PreparedDraftOperation option
   \<Rightarrow> (DraftReconstruction \<times> PreparedDraft \<times> bool) result" where
  "save_compose h env input target l input_sha256 prior =
     (let frozen = Option.bind prior op_reconstruction;
          identities = acc_from_identities (tgt_config target);
          content = normalized_content (sd_draft input) in
      and_then (draft_from h identities frozen (dc_from content)) (\<lambda>from_address.
      and_then (draft_frozen h env identities input_sha256 from_address frozen) (\<lambda>frozen.
      and_then (map_err compose_error (compose (dh_compose h)
          (draft_input content from_address (sd_identity input) (rec_date_unix frozen)) (l_draft_mime_bytes l))) (\<lambda>mime.
        if pd_header_bytes mime > l_header_bytes l then Inl (error_new ResponseTooLarge)
        else let reencoding = (rec_encoder frozen \<noteq> ENCODER) in
          if \<not> reencoding \<and> is_some_and prior (\<lambda>op. op_content_sha256 op \<noteq> pd_sha256 mime) then Inl draft_conflict
          else Inr (frozen, mime, reencoding)))))"

text \<open>Only the current generation is observed for discovery and health.\<close>

definition observe_current :: "MailboxTarget \<Rightarrow> 'a result \<Rightarrow> 'a step" where
  "observe_current t r st =
     (if snd (svc_identity (ds_service st) (acc_key (tgt_config t))) = tgt_generation t
      then (case observed (tgt_account_id t) r (ds_service st) of (r, sv) \<Rightarrow> lift r (st\<lparr>ds_service := sv\<rparr>))
      else lift r st)"

definition save_target ::
  "draft_env \<Rightarrow> MailboxTarget \<Rightarrow> string \<Rightarrow> PreparedDraftOperation option \<Rightarrow> DraftReconstruction \<Rightarrow> u32 step" where
  "save_target env target mailbox prior frozen =
     then_step (lift (draft_route (env_registry env) (tgt_config target) (tgt_generation target) mailbox)) (\<lambda>route.
     then_step (await_at env AtBackend) (\<lambda>_.
     then_step (lift (env_backend env)) (\<lambda>_.
     then_step (await_at env AtPrepare) (\<lambda>_.
     then_step (observe_current (target\<lparr>tgt_config := route\<rparr>) (env_prepare env)) (\<lambda>validity.
     then_step (lift (if validity = 0 \<or> (prior \<noteq> None \<and> validity \<noteq> rec_uid_validity frozen)
        then Inl (error_new DraftMailboxUnavailable) else Inr ())) (\<lambda>_.
     then_step (creation_allowed env 3) (\<lambda>_.
       lift (Inr validity))))))))"

definition save_operation ::
  "draft_host \<Rightarrow> DraftIdentity \<Rightarrow> string \<Rightarrow> PreparedDraftOperation option \<Rightarrow> DraftReconstruction \<Rightarrow> u32 \<Rightarrow> PreparedDraft
   \<Rightarrow> PreparedDraftOperation result" where
  "save_operation h i mailbox prior frozen validity mime =
     (let frozen = frozen\<lparr>rec_uid_validity := validity\<rparr> in
      and_then (if prior = None then map_err journal_error (recon_fingerprint (dh_journal h) frozen i mailbox)
                else Inr (rec_facts_sha256 frozen)) (\<lambda>facts.
        Inr \<lparr>op_identity = i, op_mailbox_identity = mailbox, op_content_sha256 = pd_sha256 mime,
          op_reconstruction = Some (frozen\<lparr>rec_facts_sha256 := facts\<rparr>)\<rparr>))"

definition save_record ::
  "draft_host \<Rightarrow> draft_env \<Rightarrow> PreparedDraftOperation option \<Rightarrow> bool \<Rightarrow> PreparedDraftOperation \<Rightarrow> PreparedDraft \<Rightarrow> PreparedDraftOperation step" where
  "save_record h env prior reencoding op mime =
     then_step (ask (\<lambda>st. Inr (l_journal_records (cfg_limits (svc_config (ds_service st)))))) (\<lambda>records.
     then_step (access_step (env_record env) journal_error (\<lambda>io db.
        case prior of
          Some p \<Rightarrow> if reencoding then reencode_prepared (dh_journal h) io p (pd_sha256 mime) db
            else prepare_with_limit (dh_journal h) io op records db
        | None \<Rightarrow> prepare_with_limit (dh_journal h) io op records db)) (\<lambda>p.
       lift (Inr (per_operation p))))"

text \<open>Everything before the dispatch: a receipt of an earlier call, or the recorded operation.\<close>

definition save_prepare ::
  "draft_host \<Rightarrow> draft_env \<Rightarrow> RequestContext \<Rightarrow> SaveDraftInput \<Rightarrow> (DraftReceipt + (PreparedDraftOperation \<times> Limits)) step" where
  "save_prepare h env c input =
     then_step (save_begin h env c input) (\<lambda>(target, l, prior).
     then_step (save_replay h env input target l prior) (\<lambda>(r, input_sha256).
       case r of Replayed receipt \<Rightarrow> lift (Inr (Inl receipt))
       | Proceed prior \<Rightarrow>
           then_step (save_verify h env) (\<lambda>_.
           then_step (lift (save_compose h env input target l input_sha256 prior)) (\<lambda>(frozen, mime, reencoding).
           then_step (save_target env target (mailbox_identity (sd_mailbox input)) prior frozen) (\<lambda>validity.
           then_step (lift (save_operation h (sd_identity input) (mailbox_identity (sd_mailbox input)) prior frozen validity mime)) (\<lambda>op.
           then_step (lift (admit_draft_response h c op)) (\<lambda>_.
           then_step (save_record h env prior reencoding op mime) (\<lambda>op.
             lift (Inr (Inr (op, l)))))))))))"

text \<open>\<open>Dispatch\<close>: dropping it unfinished, after a cancellation or a failed record, records the uncertainty.\<close>

definition drop_dispatch :: "draft_host \<Rightarrow> draft_env \<Rightarrow> PreparedDraftOperation \<Rightarrow> draft_state \<Rightarrow> draft_state" where
  "drop_dispatch h env op st =
     snd (journal_access (env_drop env) (\<lambda>io db. record_outcome_unknown (dh_journal h) io (op_identity op) db) st)"

definition outcome_call ::
  "draft_host \<Rightarrow> DraftIdentity \<Rightarrow> AppendOutcome result \<Rightarrow> sqlite_io \<Rightarrow> journal \<Rightarrow> PersistedDraftOperation jresult \<times> journal" where
  "outcome_call h i outcome io db =
     (case outcome of
        Inr (AppendCreated uid) \<Rightarrow> record_created (dh_journal h) io i uid db
      | Inr AppendRejected \<Rightarrow> record_rejected (dh_journal h) io i db
      | _ \<Rightarrow> record_outcome_unknown (dh_journal h) io i db)"

definition complete_dispatch ::
  "draft_host \<Rightarrow> draft_env \<Rightarrow> PreparedDraftOperation \<Rightarrow> AppendOutcome result \<Rightarrow> PersistedDraftOperation step" where
  "complete_dispatch h env op outcome st =
     (let reason = (case outcome of Inl e \<Rightarrow> err_reason e | Inr _ \<Rightarrow> None);
          failure = (draft_outcome OutcomeUnknown (operation_details op))\<lparr>err_reason := reason\<rparr> in
      case journal_access (env_outcome env) (outcome_call h (op_identity op) outcome) st of
        (Inl _, st') \<Rightarrow> (Failed failure, drop_dispatch h env op st')
      | (Inr p, st') \<Rightarrow> if reason \<noteq> None then (Failed failure, st') else (Value p, st'))"

definition save_append :: "draft_host \<Rightarrow> draft_env \<Rightarrow> PreparedDraftOperation \<Rightarrow> PersistedDraftOperation step" where
  "save_append h env op st =
     (let st = st\<lparr>ds_uncertain := Some (operation_details op), ds_appends := ds_appends st @ [op_identity op]\<rparr> in
      if env_cancel env = Some AtAppend then (TimedOut, drop_dispatch h env op st)
      else complete_dispatch h env op (env_append env) st)"

definition save_dispatch :: "draft_host \<Rightarrow> draft_env \<Rightarrow> PreparedDraftOperation \<Rightarrow> Limits \<Rightarrow> DraftReceipt step" where
  "save_dispatch h env op l =
     then_step (access_step (env_dispatch env) journal_error (\<lambda>io db. begin_dispatch (dh_journal h) io op db)) (\<lambda>_.
     then_step (save_append h env op) (\<lambda>p. lift (draft_receipt h p l)))"

definition save_draft_inner :: "draft_host \<Rightarrow> draft_env \<Rightarrow> RequestContext \<Rightarrow> SaveDraftInput \<Rightarrow> DraftReceipt step" where
  "save_draft_inner h env c input =
     then_step (save_prepare h env c input) (\<lambda>r.
       case r of Inl receipt \<Rightarrow> lift (Inr receipt) | Inr (op, l) \<Rightarrow> save_dispatch h env op l)"

definition save_draft :: "draft_host \<Rightarrow> draft_env \<Rightarrow> RequestContext \<Rightarrow> SaveDraftInput \<Rightarrow> draft_state \<Rightarrow> DraftReceipt result \<times> draft_state" where
  "save_draft h env c input st =
     (case operation_duration (ds_service st) c of Inl e \<Rightarrow> (Inl e, st)
      | Inr _ \<Rightarrow>
          (case save_draft_inner h env c input (st\<lparr>ds_uncertain := None\<rparr>) of
             (Value r, st') \<Rightarrow> (Inr r, st')
           | (Failed e, st') \<Rightarrow> (Inl e, st')
           | (TimedOut, st') \<Rightarrow>
               (Inl (case ds_uncertain st' of
                   Some d \<Rightarrow> (draft_outcome OutcomeUnknown d)
                     \<lparr>err_message := ''Draft creation deadline exceeded; acceptance remains uncertain''\<rparr>
                 | None \<Rightarrow> error_new Timeout), st')))"

section \<open>Status and reconciliation\<close>

definition reconcile_evidence ::
  "draft_env \<Rightarrow> MailboxTarget \<Rightarrow> PreparedDraftOperation \<Rightarrow> DraftEvidence result" where
  "reconcile_evidence env target op =
     and_then (draft_route (env_registry env) (tgt_config target) (tgt_generation target) (op_mailbox_identity op)) (\<lambda>_.
     and_then (env_backend env) (\<lambda>_.
     and_then (ok_or (error_new JournalUnavailable) (op_reconstruction op)) (\<lambda>_. env_evidence env)))"

definition evidence_uid :: "DraftEvidence result \<Rightarrow> string + DraftMessageIdentity" where
  "evidence_uid evidence =
     (case evidence of
        Inr (Verified m) \<Rightarrow> Inr m
      | Inr Absent \<Rightarrow> Inl ''No matching draft was found; acceptance remains uncertain''
      | Inr Ambiguous \<Rightarrow> Inl ''Multiple draft candidates were found; acceptance remains uncertain''
      | Inr ContentMismatch \<Rightarrow> Inl ''Draft content could not be verified; acceptance remains uncertain''
      | Inl e \<Rightarrow> Inl (
          if err_code e = ResponseTooLarge \<or> err_code e = Timeout
          then ''Reconciliation work limit exceeded; draft acceptance remains uncertain''
          else if err_code e = StaleReference
          then ''The original mailbox incarnation changed; draft acceptance remains uncertain''
          else ''The original draft target could not be verified; acceptance remains uncertain''))"

definition reconcile_draft ::
  "draft_host \<Rightarrow> draft_env \<Rightarrow> MailboxTarget \<Rightarrow> PreparedDraftOperation \<Rightarrow> Limits \<Rightarrow> DraftReceipt step" where
  "reconcile_draft h env target op l =
     then_step (await_at env AtBackend) (\<lambda>_.
     then_step (await_at env AtReconcile) (\<lambda>_.
       let evidence = reconcile_evidence env target op;
           reason = (case evidence of Inl e \<Rightarrow> err_reason e | Inr _ \<Rightarrow> None) in
     then_step (lift (map_err (\<lambda>m. (uncertain op m)\<lparr>err_reason := reason\<rparr>) (evidence_uid evidence))) (\<lambda>uid.
     then_step (lift (if dm_uid uid = 0 \<or> Some (dm_uid_validity uid) \<noteq> map_option rec_uid_validity (op_reconstruction op)
        then Inl (uncertain op ''Draft identity could not be verified; acceptance remains uncertain'') else Inr ())) (\<lambda>_.
     then_step (access_step (env_outcome env)
        (\<lambda>_. uncertain op ''Verified draft could not be recorded; acceptance remains uncertain'')
        (\<lambda>io db. record_duplicate (dh_journal h) io (op_identity op) uid db)) (\<lambda>p.
       lift (draft_receipt h p l))))))"

definition set_uncertain :: "PreparedDraftOperation \<Rightarrow> unit step" where
  "set_uncertain op st = (Value (), st\<lparr>ds_uncertain := Some (operation_details op)\<rparr>)"

definition status_writer ::
  "draft_host \<Rightarrow> draft_env \<Rightarrow> DraftStatusInput \<Rightarrow> Limits \<Rightarrow> (DraftReceipt + unit) step" where
  "status_writer h env input l =
     (if st_reconcile input
      then then_step (await_at env AtWriter) (\<lambda>_.
        own_writer h env (st_identity input) (st_mailbox input) (\<lambda>p. draft_receipt h p l))
      else lift (Inr (Inr ())))"

definition status_recover ::
  "draft_host \<Rightarrow> draft_env \<Rightarrow> DraftStatusInput \<Rightarrow> MailboxTarget \<Rightarrow> Limits \<Rightarrow> PersistedDraftOperation \<Rightarrow> DraftReceipt step" where
  "status_recover h env input target l prior =
     (if st_reconcile input
      then then_step (recover_pending h env (st_identity input)
          (\<lambda>op. uncertain op ''Draft recovery could not be recorded; acceptance remains uncertain'') prior) (\<lambda>prior.
        if per_state prior = OpOutcomeUnknown
        then then_step (set_uncertain (per_operation prior)) (\<lambda>_. reconcile_draft h env target (per_operation prior) l)
        else lift (draft_receipt h prior l))
      else lift (draft_receipt h prior l))"

definition draft_status_inner :: "draft_host \<Rightarrow> draft_env \<Rightarrow> RequestContext \<Rightarrow> DraftStatusInput \<Rightarrow> DraftReceipt step" where
  "draft_status_inner h env c input =
     then_step (ask (\<lambda>st. authorize_draft (ds_service st) c (st_identity input) (st_mailbox input) InspectDraftOperation)) (\<lambda>target.
     then_step (lift (ensure (\<not> (st_reconcile input \<and> \<not> context_permits c AppendDraft)) denied)) (\<lambda>_.
     then_step (ask (\<lambda>st. service_limits (ds_service st) c)) (\<lambda>l.
     then_step (await_at env AtAdmission) (\<lambda>_.
     then_step (lift (env_admission env)) (\<lambda>_.
     then_step (status_writer h env input l) (\<lambda>w.
       case w of Inl receipt \<Rightarrow> lift (Inr receipt)
       | Inr _ \<Rightarrow>
     then_step (await_at env AtJournal) (\<lambda>_.
     then_step (open_history env (env_open env)) (\<lambda>_.
     then_step (authorized_operation h (env_inspect env) (st_identity input) (st_mailbox input)) (\<lambda>prior.
     then_step (ask (\<lambda>st. ok_or (absent_draft (env_lease env) (env_absent env) (ds_files st)) prior)) (\<lambda>prior.
       status_recover h env input target l prior))))))))))"

definition draft_status ::
  "draft_host \<Rightarrow> draft_env \<Rightarrow> RequestContext \<Rightarrow> DraftStatusInput \<Rightarrow> draft_state \<Rightarrow> DraftReceipt result \<times> draft_state" where
  "draft_status h env c input st =
     (case operation_duration (ds_service st) c of Inl e \<Rightarrow> (Inl e, st)
      | Inr _ \<Rightarrow>
          (case draft_status_inner h env c input (st\<lparr>ds_uncertain := None\<rparr>) of
             (Value r, st') \<Rightarrow> (Inr r, st')
           | (Failed e, st') \<Rightarrow> (Inl e, st')
           | (TimedOut, st') \<Rightarrow>
               (Inl (case ds_uncertain st' of
                   Some d \<Rightarrow> (draft_outcome OutcomeUnknown d)
                     \<lparr>err_message := ''Reconciliation deadline exceeded; draft acceptance remains uncertain''\<rparr>
                 | None \<Rightarrow> error_new Timeout), st')))"

section \<open>Steps that append nothing\<close>

text \<open>A journal that has only moved forward.\<close>

definition later :: "journal \<Rightarrow> journal \<Rightarrow> bool" where
  "later db db' \<longleftrightarrow> (keys_ok db \<longrightarrow> keys_ok db') \<and> (\<forall>i. dispatched db i \<longrightarrow> dispatched db' i)"

lemma later_refl [simp]: "later db db"
  by (simp add: later_def)

lemma later_trans: "later a b \<Longrightarrow> later b c \<Longrightarrow> later a c"
  by (simp add: later_def)

lemma advance_later: "journal_advance db db' \<Longrightarrow> later db db'"
  using journal_advance_keys journal_advance_dispatched by (auto simp: later_def)

definition moves :: "draft_state \<Rightarrow> draft_state \<Rightarrow> bool" where
  "moves st st' \<longleftrightarrow> later (ds_journal st) (ds_journal st') \<and> (latched (ds_files st) \<longrightarrow> latched (ds_files st'))"

definition quiet :: "'a step \<Rightarrow> bool" where
  "quiet m \<longleftrightarrow> (\<forall>st v st'. m st = (v, st') \<longrightarrow> moves st st' \<and> ds_appends st' = ds_appends st)"

lemma moves_refl [simp]: "moves st st"
  by (simp add: moves_def)

lemma moves_trans: "moves a b \<Longrightarrow> moves b c \<Longrightarrow> moves a c"
  by (auto simp: moves_def intro: later_trans)

lemma quietI: "(\<And>st v st'. m st = (v, st') \<Longrightarrow> moves st st' \<and> ds_appends st' = ds_appends st) \<Longrightarrow> quiet m"
  by (simp add: quiet_def)

lemma quietD: "quiet m \<Longrightarrow> m st = (v, st') \<Longrightarrow> moves st st' \<and> ds_appends st' = ds_appends st"
  by (simp add: quiet_def)

named_theorems quiet_intros

lemma quiet_lift [quiet_intros]: "quiet (lift r)"
  by (auto simp: quiet_def lift_def)

lemma quiet_ask [quiet_intros]: "quiet (ask f)"
  by (auto simp: quiet_def ask_def lift_def)

lemma quiet_await [quiet_intros]: "quiet (await_at env p)"
  by (auto simp: quiet_def await_at_def)

lemma then_step_cases:
  assumes "then_step m k st = (v, st')"
  obtains (stopped) "v = TimedOut" "m st = (TimedOut, st')" | (failed) e where "v = Failed e" "m st = (Failed e, st')"
    | (continued) a st1 where "m st = (Value a, st1)" "k a st1 = (v, st')"
  using assms by (auto simp: then_step_def split: prod.splits verdict.splits)

lemma quiet_then [quiet_intros]: "quiet m \<Longrightarrow> (\<And>a. quiet (k a)) \<Longrightarrow> quiet (then_step m k)"
proof (rule quietI)
  fix st v st'
  assume m: "quiet m" and k: "\<And>a. quiet (k a)" and t: "then_step m k st = (v, st')"
  from t show "moves st st' \<and> ds_appends st' = ds_appends st"
  proof (cases rule: then_step_cases)
    case (continued a st1)
    with quietD [OF m continued(1)] quietD [OF k continued(2)] show ?thesis
      by (auto intro: moves_trans)
  qed (use quietD [OF m] in blast)+
qed

text \<open>A journal operation that only moves the journal forward.\<close>

definition forward :: "(sqlite_io \<Rightarrow> journal \<Rightarrow> 'a jresult \<times> journal) \<Rightarrow> bool" where
  "forward op \<longleftrightarrow> (\<forall>io db. later db (snd (op io db)))"

lemma forward_read [quiet_intros]: "forward (\<lambda>io db. (f io db, db))"
  by (simp add: forward_def)

lemma forward_call: "forward (\<lambda>io db. journal_call h io req db)"
  unfolding forward_def using journal_call_advance advance_later by (metis surjective_pairing)

lemma forward_calls [quiet_intros]:
  "forward (\<lambda>io db. prepare_with_limit h io op n db)" "forward (\<lambda>io db. reencode_prepared h io op s db)"
  "forward (\<lambda>io db. begin_dispatch h io op db)" "forward (\<lambda>io db. record_outcome_unknown h io i db)"
  "forward (\<lambda>io db. record_created h io i m db)" "forward (\<lambda>io db. record_rejected h io i db)"
  "forward (\<lambda>io db. record_duplicate h io i uid db)"
  using forward_call [of h "Prepare op n"] forward_call [of h "Reencode op s"] forward_call [of h "BeginDispatch op"]
    forward_call [of h "RecordOutcome i _"]
  by (simp_all add: record_outcome_unknown_def record_created_def record_rejected_def record_duplicate_def)

lemma journal_access_moves:
  assumes "forward op" and "journal_access io op st = (r, st')"
  shows "moves st st'" "ds_appends st' = ds_appends st" "ds_uncertain st' = ds_uncertain st"
    "r = fst (op (fst io) (ds_journal st))" "ds_journal st' = snd (op (fst io) (ds_journal st))"
  using assms latched_access
  by (auto simp: journal_access_def moves_def forward_def access_def split: prod.splits) 

lemma quiet_access [quiet_intros]: "forward op \<Longrightarrow> quiet (access_step io err op)"
proof (rule quietI)
  fix st v st'
  assume f: "forward op" and a: "access_step io err op st = (v, st')"
  obtain r st1 where j: "journal_access io op st = (r, st1)" by (cases "journal_access io op st")
  with a have "st' = st1" by (simp add: access_step_def lift_def)
  with journal_access_moves [OF f j] show "moves st st' \<and> ds_appends st' = ds_appends st" by simp
qed

lemma quiet_open [quiet_intros]: "quiet (open_history env attempts)"
  using latched_wait
  by (auto simp: quiet_def open_history_def lift_def moves_def split: prod.splits if_splits) (metis snd_conv)

lemma quiet_allowed [quiet_intros]: "quiet (creation_allowed env k)"
  unfolding creation_allowed_def by (intro quiet_intros)

lemma quiet_authorized [quiet_intros]: "quiet (authorized_operation h io i mailbox)"
  unfolding authorized_operation_def by (intro quiet_intros)

lemma quiet_own_writer [quiet_intros]: "quiet (own_writer h env i mailbox pending)"
  unfolding own_writer_def by (simp split: sum.split) (intro conjI impI allI quiet_intros | simp add: quiet_intros split: if_split)+

lemma quiet_recover [quiet_intros]: "quiet (recover_pending h env i err p)"
  unfolding recover_pending_def by (simp split: if_split) (intro conjI impI quiet_intros)

lemma quiet_observe [quiet_intros]: "quiet (observe_current t r)"
  by (auto simp: quiet_def observe_current_def lift_def moves_def split: prod.splits if_splits)

lemma quiet_if [quiet_intros]: "(b \<Longrightarrow> quiet m) \<Longrightarrow> (\<not> b \<Longrightarrow> quiet n) \<Longrightarrow> quiet (if b then m else n)"
  by simp

lemma quiet_option [quiet_intros]: "quiet m \<Longrightarrow> (\<And>a. quiet (k a)) \<Longrightarrow> quiet (case x of None \<Rightarrow> m | Some a \<Rightarrow> k a)"
  by (cases x) simp_all

lemma quiet_sum [quiet_intros]: "(\<And>a. quiet (m a)) \<Longrightarrow> (\<And>b. quiet (k b)) \<Longrightarrow> quiet (case x of Inl a \<Rightarrow> m a | Inr b \<Rightarrow> k b)"
  by (cases x) simp_all

lemma quiet_prod [quiet_intros]: "(\<And>a b. quiet (k a b)) \<Longrightarrow> quiet (case x of (a, b) \<Rightarrow> k a b)"
  by (cases x) simp

lemma quiet_replay [quiet_intros]: "(\<And>a. quiet (m a)) \<Longrightarrow> (\<And>b. quiet (k b)) \<Longrightarrow> quiet (case x of Replayed a \<Rightarrow> m a | Proceed b \<Rightarrow> k b)"
  by (cases x) simp_all

lemma forward_option [quiet_intros]:
  "forward m \<Longrightarrow> (\<And>a. forward (k a)) \<Longrightarrow> forward (\<lambda>io db. case x of None \<Rightarrow> m io db | Some a \<Rightarrow> k a io db)"
  by (cases x) (simp_all add: forward_def)

lemma forward_if [quiet_intros]: "forward m \<Longrightarrow> forward k \<Longrightarrow> forward (\<lambda>io db. if b then m io db else k io db)"
  by (simp add: forward_def)

lemma quiet_save_begin [quiet_intros]: "quiet (save_begin h env c input)"
  unfolding save_begin_def by (intro quiet_intros)

lemma quiet_save_replay [quiet_intros]: "quiet (save_replay h env input target l prior)"
  unfolding save_replay_def by (intro quiet_intros)

lemma quiet_save_verify [quiet_intros]: "quiet (save_verify h env)"
proof -
  have "quiet (\<lambda>st. case journal_access io (\<lambda>io db. (f io db, db)) st of (r, st') \<Rightarrow>
      lift (and_then (ensure b e) (\<lambda>_. map_err err r)) st')" for io f b e and err :: "DraftJournalError \<Rightarrow> Error"
  proof (rule quietI)
    fix st v st'
    assume a: "(case journal_access io (\<lambda>io db. (f io db, db)) st of (r, st') \<Rightarrow>
      lift (and_then (ensure b e) (\<lambda>_. map_err err r)) st') = (v, st')"
    obtain r st1 where j: "journal_access io (\<lambda>io db. (f io db, db)) st = (r, st1)"
      by (cases "journal_access io (\<lambda>io db. (f io db, db)) st")
    with a have "st' = st1" by (simp add: lift_def)
    with journal_access_moves [OF forward_read j] show "moves st st' \<and> ds_appends st' = ds_appends st" by simp
  qed
  then show ?thesis unfolding save_verify_def by (intro quiet_intros)
qed

lemma quiet_save_target [quiet_intros]: "quiet (save_target env target mailbox prior frozen)"
  unfolding save_target_def by (intro quiet_intros)

lemma quiet_save_record [quiet_intros]: "quiet (save_record h env prior reencoding op mime)"
  unfolding save_record_def by (intro quiet_intros)

lemma quiet_save_prepare [quiet_intros]: "quiet (save_prepare h env c input)"
  unfolding save_prepare_def by (intro quiet_intros)

lemma quiet_reconcile [quiet_intros]: "quiet (reconcile_draft h env target op l)"
  unfolding reconcile_draft_def Let_def by (intro quiet_intros)

lemma quiet_uncertain [quiet_intros]: "quiet (set_uncertain op)"
  by (auto simp: quiet_def set_uncertain_def moves_def)

lemma quiet_status [quiet_intros]: "quiet (draft_status_inner h env c input)"
  unfolding draft_status_inner_def status_writer_def status_recover_def by (intro quiet_intros)

section \<open>The dispatch\<close>

lemma drop_dispatch_moves: "moves st (drop_dispatch h env op st)" "ds_appends (drop_dispatch h env op st) = ds_appends st"
  "ds_uncertain (drop_dispatch h env op st) = ds_uncertain st"
proof -
  obtain r st' where "journal_access (env_drop env) (\<lambda>io db. record_outcome_unknown (dh_journal h) io (op_identity op) db) st = (r, st')"
    by (cases "journal_access (env_drop env) (\<lambda>io db. record_outcome_unknown (dh_journal h) io (op_identity op) db) st")
  with journal_access_moves [OF forward_calls(4) this]
  show "moves st (drop_dispatch h env op st)" "ds_appends (drop_dispatch h env op st) = ds_appends st"
    "ds_uncertain (drop_dispatch h env op st) = ds_uncertain st"
    by (simp_all add: drop_dispatch_def)
qed

lemma forward_outcome [quiet_intros]: "forward (outcome_call h i outcome)"
  using forward_calls by (cases outcome rule: sum.exhaust; auto simp: outcome_call_def forward_def split: AppendOutcome.splits)

lemma complete_dispatch_moves:
  assumes "complete_dispatch h env op outcome st = (v, st')"
  shows "moves st st'" "ds_appends st' = ds_appends st" "ds_uncertain st' = ds_uncertain st"
proof -
  obtain r st1 where j: "journal_access (env_outcome env) (outcome_call h (op_identity op) outcome) st = (r, st1)"
    by (cases "journal_access (env_outcome env) (outcome_call h (op_identity op) outcome) st")
  note m = journal_access_moves [OF forward_outcome j] and d = drop_dispatch_moves [where st = st1 and h = h and env = env and op = op]
  have "st' = st1 \<or> st' = drop_dispatch h env op st1"
    using assms j by (auto simp: complete_dispatch_def Let_def split: sum.splits if_splits)
  then show "moves st st'" "ds_appends st' = ds_appends st" "ds_uncertain st' = ds_uncertain st"
    using m d moves_trans by auto
qed

lemma save_append_moves:
  assumes "save_append h env op st = (v, st')"
  shows "moves st st'" "ds_appends st' = ds_appends st @ [op_identity op]" "ds_uncertain st' = Some (operation_details op)"
proof -
  let ?st = "st\<lparr>ds_uncertain := Some (operation_details op), ds_appends := ds_appends st @ [op_identity op]\<rparr>"
  have s: "moves st ?st" by (simp add: moves_def)
  show "moves st st'" "ds_appends st' = ds_appends st @ [op_identity op]" "ds_uncertain st' = Some (operation_details op)"
    using assms drop_dispatch_moves [where st = ?st and h = h and env = env and op = op] complete_dispatch_moves [of h env op "env_append env" ?st v st'] moves_trans [OF s]
    by (auto simp: save_append_def Let_def split: if_splits)
qed

lemma save_dispatch_cases:
  assumes "save_dispatch h env op l st = (v, st')"
  shows "(ds_appends st' = ds_appends st \<and> moves st st' \<and> (\<exists>e. v = Failed e)) \<or>
    (\<exists>st1 p w. begin_dispatch (dh_journal h) (fst (env_dispatch env)) op (ds_journal st) = (Inr p, ds_journal st1)
       \<and> moves st st1 \<and> ds_appends st1 = ds_appends st \<and> save_append h env op st1 = (w, st')
       \<and> v = (case w of Value p \<Rightarrow> fst (lift (draft_receipt h p l) st') | Failed e \<Rightarrow> Failed e | TimedOut \<Rightarrow> TimedOut))"
proof -
  obtain r st1 where j: "journal_access (env_dispatch env) (\<lambda>io db. begin_dispatch (dh_journal h) io op db) st = (r, st1)"
    by (cases "journal_access (env_dispatch env) (\<lambda>io db. begin_dispatch (dh_journal h) io op db) st")
  note m = journal_access_moves [OF forward_calls(3) j]
  show ?thesis
  proof (cases r)
    case (Inl e)
    with assms j have "st' = st1" "v = Failed (journal_error e)"
      by (auto simp: save_dispatch_def then_step_def access_step_def lift_def)
    with m(1,2) show ?thesis by blast
  next
    case (Inr p)
    obtain w st2 where a: "save_append h env op st1 = (w, st2)" by (cases "save_append h env op st1")
    have "begin_dispatch (dh_journal h) (fst (env_dispatch env)) op (ds_journal st) = (Inr p, ds_journal st1)"
      using m(4,5) Inr by (simp add: prod_eq_iff)
    moreover have "st' = st2" "v = (case w of Value p \<Rightarrow> fst (lift (draft_receipt h p l) st') | Failed e \<Rightarrow> Failed e | TimedOut \<Rightarrow> TimedOut)"
      using assms j Inr a by (auto simp: save_dispatch_def then_step_def access_step_def lift_def split: verdict.splits)
    ultimately show ?thesis using m(1,2) a by blast
  qed
qed

section \<open>What reaches the dispatch\<close>

lemma then_step_Value [simp]:
  "then_step m k st = (Value b, st') \<longleftrightarrow> (\<exists>a st1. m st = (Value a, st1) \<and> k a st1 = (Value b, st'))"
  by (auto simp: then_step_def split: prod.splits verdict.splits)

lemma lift_Value [simp]: "lift r st = (Value a, st') \<longleftrightarrow> r = Inr a \<and> st' = st"
  by (auto simp: lift_def split: sum.splits)

lemma ask_Value [simp]: "ask f st = (Value a, st') \<longleftrightarrow> f st = Inr a \<and> st' = st"
  by (auto simp: ask_def)

lemma await_Value [simp]: "await_at env p st = (Value a, st') \<longleftrightarrow> env_cancel env \<noteq> Some p \<and> st' = st"
  by (auto simp: await_at_def)

lemma access_Value:
  assumes "access_step io err op st = (Value a, st')"
  shows "op (fst io) (ds_journal st) = (Inr a, ds_journal st')" "ds_service st' = ds_service st"
proof -
  obtain r st1 where j: "journal_access io op st = (r, st1)" by (cases "journal_access io op st")
  with assms have r: "map_err err r = Inr a" "st' = st1" by (simp_all add: access_step_def)
  then have "r = Inr a" by (cases r) simp_all
  moreover have "op (fst io) (ds_journal st) = (r, ds_journal st1) \<and> ds_service st1 = ds_service st"
    using j by (auto simp: journal_access_def access_def split: prod.splits)
  ultimately show "op (fst io) (ds_journal st) = (Inr a, ds_journal st')" "ds_service st' = ds_service st"
    using r by simp_all
qed

lemma read_identity:
  assumes "read_by_identity h io db i = Inr (Some p)"
  shows "op_identity (per_operation p) = i"
proof -
  from assms obtain r where "decode_row h r = Inr p" "row_key r = identity_key i"
    by (rule read_by_identity_Some)
  then show ?thesis
    by (cases i) (auto simp: decode_row_def row_key_def identity_key_def)
qed

lemma record_outcome_Inr:
  assumes "record_outcome h io i outcome db = (Inr p, db')"
  obtains q where "read_by_identity h io db i = Inr (Some q)" "p = q\<lparr>per_state := outcome\<rparr>"
proof -
  from assms have "outcome_body h io i outcome db = Inr (db', p)"
    unfolding record_outcome_def by (rule commit_cases) auto
  then show thesis by (rule outcome_body_Inr) (rule that)
qed

lemma authorized_operation_Value:
  assumes "authorized_operation h io i mailbox st = (Value (Some p), st')"
  shows "op_identity (per_operation p) = i" "op_mailbox_identity (per_operation p) = mailbox_identity mailbox"
  using assms
  by (auto simp: authorized_operation_def inspect_def split: if_splits dest!: access_Value(1) read_identity)

lemma authorized_operation_service: "authorized_operation h io i mailbox st = (Value r, st') \<Longrightarrow> ds_service st' = ds_service st"
  by (auto simp: authorized_operation_def dest: access_Value(2))

lemma recover_pending_Value:
  assumes "recover_pending h env i err p st = (Value q, st')" and "op_identity (per_operation p) = i"
  shows "op_identity (per_operation q) = i"
  using assms by (auto simp: recover_pending_def record_outcome_unknown_def split: if_splits dest!: access_Value(1)
      elim!: record_outcome_Inr dest: read_identity)

lemma recover_pending_service: "recover_pending h env i err p st = (Value q, st') \<Longrightarrow> ds_service st' = ds_service st"
  by (auto simp: recover_pending_def split: if_splits dest: access_Value(2))

lemma open_history_service: "open_history env attempts st = (Value a, st') \<Longrightarrow> ds_service st' = ds_service st"
  by (auto simp: open_history_def split: if_splits prod.splits)

lemma own_writer_service: "own_writer h env i mailbox pending st = (Value a, st') \<Longrightarrow> ds_service st' = ds_service st"
  by (auto simp: own_writer_def split: sum.splits if_splits dest!: open_history_service authorized_operation_service)

lemma save_begin_Value:
  assumes "save_begin h env c input st = (Value (target, l, prior), st')"
  shows "authorize_draft (ds_service st) c (sd_identity input) (sd_mailbox input) AppendDraft = Inr target"
    and "service_limits (ds_service st) c = Inr l"
    and "prior = Some p \<Longrightarrow> op_identity (per_operation p) = sd_identity input"
  using assms
  by (auto simp: save_begin_def split: option.splits
      dest!: authorized_operation_Value(1) recover_pending_Value)

lemma replay_prior_Proceed:
  assumes "replay_prior h l sha prior = Inr (Proceed (Some op))"
  shows "\<exists>p. prior = Some p \<and> op = per_operation p \<and> per_state p = OpPrepared"
  using assms by (auto simp: replay_prior_def Let_def map_sum_def split: option.splits if_splits sum.splits)

lemma save_replay_Value:
  assumes "save_replay h env input target l prior st = (Value (Proceed (Some op), sha), st')"
  shows "\<exists>p. prior = Some p \<and> op = per_operation p"
  using assms replay_prior_Proceed by (fastforce simp: save_replay_def)

lemma save_operation_Inr:
  assumes "save_operation h i mailbox prior frozen validity mime = Inr op"
  shows "op_identity op = i" "op_mailbox_identity op = mailbox" "op_content_sha256 op = pd_sha256 mime"
    "op_reconstruction op \<noteq> None"
  using assms by (auto simp: save_operation_def Let_def)

lemma prepare_with_limit_Inr:
  assumes "prepare_with_limit h io op n db = (Inr p, db')"
  shows "per_operation p = op"
proof -
  from assms have "prepare_body h io op n db = Inr (db', p)"
    unfolding prepare_with_limit_def by (rule commit_cases) auto
  from prepare_body_Inr [OF this] show ?thesis by auto
qed

lemma reencode_prepared_Inr:
  assumes "reencode_prepared h io op sha db = (Inr p, db')"
  shows "op_identity (per_operation p) = op_identity op \<and> op_reconstruction (per_operation p) \<noteq> None"
proof -
  from assms have "reencode_body h io op sha db = Inr (db', p)"
    unfolding reencode_prepared_def by (rule commit_cases) auto
  then show ?thesis by (rule reencode_body_Inr) simp
qed

lemma save_record_Value:
  assumes "save_record h env prior reencoding op mime st = (Value op', st')"
    and "op_reconstruction op \<noteq> None" and "\<forall>p. prior = Some p \<longrightarrow> op_identity p = op_identity op"
  shows "op_identity op' = op_identity op \<and> op_reconstruction op' \<noteq> None"
  using assms
  by (auto simp: save_record_def split: option.splits if_splits dest!: access_Value(1) prepare_with_limit_Inr reencode_prepared_Inr)


section \<open>A suspended installation\<close>

definition blocked :: "'a step \<Rightarrow> bool" where
  "blocked m \<longleftrightarrow> (\<forall>st v st'. latched (ds_files st) \<longrightarrow> m st \<noteq> (Value v, st'))"

lemma blockedD: "blocked m \<Longrightarrow> m st = (Value v, st') \<Longrightarrow> \<not> latched (ds_files st)"
  by (auto simp: blocked_def)

lemma blocked_allowed: "blocked (creation_allowed env k)"
  unfolding blocked_def creation_allowed_def
proof (intro allI impI notI)
  fix st v st'
  assume "latched (ds_files st)"
    and "ask (\<lambda>st. draft_creation_allowed (env_lease env) (env_allowed env k) (ds_files st)) st = (Value v, st')"
  with latched_refuses [of "ds_files st" "env_lease env" "env_allowed env k"] show False by auto
qed

lemma blocked_then_first: "blocked m \<Longrightarrow> blocked (then_step m k)"
  by (auto simp: blocked_def)

lemma blocked_save_verify: "blocked (save_verify h env)"
  unfolding save_verify_def by (intro blocked_then_first blocked_allowed)

section \<open>What the recorded operation says\<close>

text \<open>The facts of an operation that its receipt repeats.\<close>

definition receipt_facts :: "PreparedDraftOperation \<Rightarrow> DraftIdentity \<times> string \<times> sha256 \<times> u32 option" where
  "receipt_facts op = (op_identity op, op_mailbox_identity op, op_content_sha256 op, map_option rec_uid_validity (op_reconstruction op))"

lemma reencode_prepared_facts:
  assumes "reencode_prepared h io op sha db = (Inr p, db')"
  shows "receipt_facts (per_operation p) = receipt_facts (op\<lparr>op_content_sha256 := sha\<rparr>)"
proof -
  from assms have "reencode_body h io op sha db = Inr (db', p)"
    unfolding reencode_prepared_def by (rule commit_cases) auto
  then show ?thesis by (rule reencode_body_Inr) (simp add: receipt_facts_def)
qed

lemma save_record_facts:
  assumes "save_record h env prior reencoding op mime st = (Value op', st')"
    and "op_content_sha256 op = pd_sha256 mime"
    and "\<forall>p. prior = Some p \<longrightarrow> receipt_facts (p\<lparr>op_content_sha256 := pd_sha256 mime\<rparr>) = receipt_facts op"
  shows "receipt_facts op' = receipt_facts op"
  using assms
  by (auto simp: save_record_def split: option.splits if_splits dest!: access_Value(1) prepare_with_limit_Inr reencode_prepared_facts)

lemma recover_pending_prepared:
  assumes "recover_pending h env i err p st = (Value q, st')" and "per_state q = OpPrepared"
  shows "q = p"
  using assms by (auto simp: recover_pending_def record_outcome_unknown_def split: if_splits dest!: access_Value(1)
      elim!: record_outcome_Inr)

lemma save_begin_prepared:
  assumes "save_begin h env c input st = (Value (target, l, Some p), st')" and "per_state p = OpPrepared"
  shows "op_mailbox_identity (per_operation p) = mailbox_identity (sd_mailbox input)"
  using assms
  by (auto simp: save_begin_def split: option.splits dest!: authorized_operation_Value(2) recover_pending_prepared)

lemma replay_prior_reconstruction:
  "replay_prior h l sha prior = Inr (Proceed (Some op)) \<Longrightarrow> op_reconstruction op \<noteq> None"
  by (auto simp: replay_prior_def Let_def map_sum_def split: option.splits if_splits sum.splits)

lemma save_replay_prepared:
  assumes "save_replay h env input target l prior st = (Value (Proceed (Some op), sha), st')"
  shows "\<exists>p. prior = Some p \<and> op = per_operation p \<and> per_state p = OpPrepared \<and> op_reconstruction op \<noteq> None"
  using assms replay_prior_Proceed replay_prior_reconstruction by (fastforce simp: save_replay_def)

lemma save_target_validity:
  assumes "save_target env target mailbox prior frozen st = (Value validity, st')" and "prior \<noteq> None"
  shows "validity = rec_uid_validity frozen"
  using assms by (auto simp: save_target_def split: if_splits)

lemma save_compose_frozen:
  assumes "save_compose h env input target l sha (Some p) = Inr (frozen, mime, reencoding)" and "op_reconstruction p = Some r"
  shows "frozen = r"
  using assms by (auto simp: save_compose_def Let_def draft_frozen_def split: if_splits)

lemma save_operation_validity:
  assumes "save_operation h i mailbox prior frozen validity mime = Inr op"
  shows "map_option rec_uid_validity (op_reconstruction op) = Some validity"
  using assms by (auto simp: save_operation_def Let_def)

lemma case_replay_Value:
  "(case r of Replayed a \<Rightarrow> f a | Proceed b \<Rightarrow> g b) st = (Value v, st')
    \<longleftrightarrow> (\<exists>a. r = Replayed a \<and> f a st = (Value v, st')) \<or> (\<exists>b. r = Proceed b \<and> g b st = (Value v, st'))"
  by (cases r) simp_all

text \<open>What \<open>save_draft\<close> has established when it reaches the dispatch.\<close>

lemma save_prepare_Value:
  assumes "save_prepare h env c input st = (Value (Inr (op, l)), st')"
  obtains target admitted
  where "authorize_draft (ds_service st) c (sd_identity input) (sd_mailbox input) AppendDraft = Inr target"
    "service_limits (ds_service st) c = Inr l" "admit_draft_response h c admitted = Inr ()"
    "receipt_facts op = receipt_facts admitted" "op_identity op = sd_identity input" "op_reconstruction op \<noteq> None"
    "\<not> latched (ds_files st)"
proof -
  from assms obtain target prior0 st1 prior sha st2 frozen mime reencoding validity admitted st3 st4 st5 where
    begins: "save_begin h env c input st = (Value (target, l, prior0), st1)"
    and replay: "save_replay h env input target l prior0 st1 = (Value (Proceed prior, sha), st2)"
    and verify: "save_verify h env st2 = (Value (), st3)"
    and compose: "save_compose h env input target l sha prior = Inr (frozen, mime, reencoding)"
    and target: "save_target env target (mailbox_identity (sd_mailbox input)) prior frozen st3 = (Value validity, st4)"
    and operation: "save_operation h (sd_identity input) (mailbox_identity (sd_mailbox input)) prior frozen validity mime = Inr admitted"
    and admit: "admit_draft_response h c admitted = Inr ()"
    and recorded: "save_record h env prior reencoding admitted mime st4 = (Value op, st5)"
    by (auto simp: save_prepare_def case_replay_Value split: prod.splits)
  have latch: "\<not> latched (ds_files st)"
    using blockedD [OF blocked_save_verify verify] quietD [OF quiet_save_begin begins] quietD [OF quiet_save_replay replay]
    by (auto simp: moves_def)
  have prior: "receipt_facts (p\<lparr>op_content_sha256 := pd_sha256 mime\<rparr>) = receipt_facts admitted" if some: "prior = Some p" for p
  proof -
    obtain q where q: "prior0 = Some q" "p = per_operation q" "per_state q = OpPrepared" "op_reconstruction p \<noteq> None"
      using save_replay_prepared [of h env input target l prior0 st1 p sha st2] replay some by blast
    then obtain r where r: "op_reconstruction p = Some r" by blast
    have "op_identity p = sd_identity input" "op_mailbox_identity p = mailbox_identity (sd_mailbox input)"
      using save_begin_Value(3) [of h env c input st target l prior0 st1 q] save_begin_prepared [of h env c input st target l q st1] begins q by simp_all
    moreover have "validity = rec_uid_validity r"
      using save_target_validity [OF target] save_compose_frozen [OF _ r] compose some by auto
    ultimately show ?thesis
      using save_operation_Inr [OF operation] save_operation_validity [OF operation] r by (auto simp: receipt_facts_def)
  qed
  have facts: "receipt_facts op = receipt_facts admitted"
    using save_record_facts [OF recorded save_operation_Inr(3) [OF operation]] prior by blast
  show thesis
  proof (rule that [OF save_begin_Value(1,2) [OF begins] admit facts _ _ latch])
    show "op_identity op = sd_identity input"
      using facts save_operation_Inr(1) [OF operation] by (simp add: receipt_facts_def)
    show "op_reconstruction op \<noteq> None"
      using facts save_operation_Inr(4) [OF operation] by (auto simp: receipt_facts_def)
  qed
qed


section \<open>After the dispatch\<close>

lemma begin_dispatch_view:
  assumes "begin_dispatch h io op db = (Inr p, db')"
  shows "journal_view h db' (op_identity op) = Some \<lparr>per_operation = op, per_state = OpInFlight\<rparr>"
proof -
  have body: "dispatch_body h io op db = Inr (db', p)"
    using assms unfolding begin_dispatch_def by (rule commit_cases) auto
  note d = dispatch_body_Inr [OF body]
  obtain r where r: "find (\<lambda>r. row_key r = identity_key (op_identity op)) db = Some r"
    "decode_row h r = Inr \<lparr>per_operation = op, per_state = OpPrepared\<rparr>"
    using d(1) by (rule read_by_identity_Some)
  have "journal_view h db' = (journal_view h db)(op_identity op \<mapsto> \<lparr>per_operation = op, per_state = OpInFlight\<rparr>)"
    by (rule view_update_state [OF d(3) r(1) decode_dispatched(1) [OF r(2)] _ decode_dispatched(2) [OF r(2)]])
      (simp add: row_key_def)
  then show ?thesis by simp
qed

lemma read_by_identity_view:
  assumes "read_by_identity h io db i = Inr (Some q)" and "journal_view h db i = Some p"
  shows "q = p"
proof -
  from assms(1) obtain r where "find (\<lambda>r. row_key r = identity_key i) db = Some r" "decode_row h r = Inr q"
    by (rule read_by_identity_Some)
  with assms(2) show ?thesis by (simp add: journal_view_def)
qed

text \<open>The recorded outcomes of an APPEND.\<close>

definition append_state :: "DraftOperationState \<Rightarrow> bool" where
  "append_state s \<longleftrightarrow> s = OpRejected \<or> s = OpOutcomeUnknown \<or> (\<exists>m. s = OpCreated m)"

lemma outcome_call_Inr:
  assumes "outcome_call h i outcome io db = (Inr p, db')" and "journal_view (dh_journal h) db i = Some q"
  shows "per_operation p = per_operation q \<and> append_state (per_state p)"
proof -
  obtain s where s: "record_outcome (dh_journal h) io i s db = (Inr p, db')" "append_state s"
    using assms(1) by (auto simp: outcome_call_def record_created_def record_rejected_def record_outcome_unknown_def
        append_state_def split: sum.splits AppendOutcome.splits)
  from s(1) obtain q' where "read_by_identity (dh_journal h) io db i = Inr (Some q')" "p = q'\<lparr>per_state := s\<rparr>"
    by (rule record_outcome_Inr)
  with read_by_identity_view assms(2) s(2) show ?thesis by fastforce
qed

lemma complete_dispatch_result:
  assumes "complete_dispatch h env op outcome st = (v, st')"
    and "journal_view (dh_journal h) (ds_journal st) (op_identity op) = Some \<lparr>per_operation = op, per_state = OpInFlight\<rparr>"
  shows "(\<exists>p. v = Value p \<and> per_operation p = op \<and> append_state (per_state p)) \<or>
    (\<exists>e. v = Failed e \<and> err_code e = OutcomeUnknown \<and> err_draft_operation e = Some (operation_details op))"
proof -
  obtain r st1 where j: "journal_access (env_outcome env) (outcome_call h (op_identity op) outcome) st = (r, st1)"
    by (cases "journal_access (env_outcome env) (outcome_call h (op_identity op) outcome) st")
  note m = journal_access_moves [OF forward_outcome j]
  show ?thesis
  proof (cases r)
    case (Inl e)
    with assms(1) j show ?thesis by (auto simp: complete_dispatch_def Let_def)
  next
    case (Inr p)
    then have "outcome_call h (op_identity op) outcome (fst (env_outcome env)) (ds_journal st) = (Inr p, ds_journal st1)"
      using m(4,5) by (simp add: prod_eq_iff)
    from outcome_call_Inr [OF this assms(2)] Inr assms(1) j show ?thesis
      by (auto simp: complete_dispatch_def Let_def split: if_splits)
  qed
qed

lemma save_append_result:
  assumes "save_append h env op st = (v, st')"
    and "journal_view (dh_journal h) (ds_journal st) (op_identity op) = Some \<lparr>per_operation = op, per_state = OpInFlight\<rparr>"
  shows "(\<exists>p. v = Value p \<and> per_operation p = op \<and> append_state (per_state p)) \<or> v = TimedOut \<or>
    (\<exists>e. v = Failed e \<and> err_code e = OutcomeUnknown \<and> err_draft_operation e = Some (operation_details op))"
  using assms complete_dispatch_result [of h env op "env_append env"
      "st\<lparr>ds_uncertain := Some (operation_details op), ds_appends := ds_appends st @ [op_identity op]\<rparr>" v st']
  by (auto simp: save_append_def Let_def split: if_splits)

text \<open>A receipt of an APPEND, for the operation it was made from.\<close>

definition append_receipt :: "PreparedDraftOperation \<Rightarrow> DraftReceipt \<Rightarrow> bool" where
  "append_receipt op rc \<longleftrightarrow> rcpt_identity rc = op_identity op \<and> rcpt_mailbox rc = op_mailbox_identity op
     \<and> Some (rcpt_uid_validity rc) = map_option rec_uid_validity (op_reconstruction op)
     \<and> rcpt_content_sha256 rc = hex (op_content_sha256 op) \<and> rcpt_dispatched rc
     \<and> rcpt_state rc \<in> {DraftCreated, DraftCreatedReferenceUnavailable, DraftRejected}
     \<and> (rcpt_state rc = DraftCreated \<longleftrightarrow> rcpt_message_reference rc \<noteq> None)"

lemma draft_receipt_result:
  assumes "append_state (per_state p)" and "op_reconstruction (per_operation p) \<noteq> None"
  shows "(\<exists>rc. draft_receipt h p l = Inr rc \<and> append_receipt (per_operation p) rc)
    \<or> draft_receipt h p l = Inl (draft_outcome OutcomeUnknown (operation_details (per_operation p)))"
  using assms by (auto simp: draft_receipt_def append_state_def append_receipt_def Let_def)

text \<open>A call of \<open>save_draft\<close> either appends nothing or appends its own identity after a successful dispatch.\<close>

lemma save_draft_cases:
  assumes "save_draft h env c input st = (r, st')"
  obtains (quiet_call) "moves st st'" "ds_appends st' = ds_appends st"
  | (appended) op l st1 st2 p w where "save_prepare h env c input (st\<lparr>ds_uncertain := None\<rparr>) = (Value (Inr (op, l)), st1)"
    "moves st st1" "ds_appends st1 = ds_appends st"
    "begin_dispatch (dh_journal h) (fst (env_dispatch env)) op (ds_journal st1) = (Inr p, ds_journal st2)"
    "moves st1 st2" "ds_appends st2 = ds_appends st1" "save_append h env op st2 = (w, st')"
    "r = (case w of Value p \<Rightarrow> draft_receipt h p l | Failed e \<Rightarrow> Inl e
       | TimedOut \<Rightarrow> Inl ((draft_outcome OutcomeUnknown (operation_details op))
           \<lparr>err_message := ''Draft creation deadline exceeded; acceptance remains uncertain''\<rparr>))"
proof (cases "operation_duration (ds_service st) c")
  case (Inl e)
  with assms show thesis by (auto simp: save_draft_def intro: quiet_call)
next
  case (Inr seconds)
  let ?st = "st\<lparr>ds_uncertain := None\<rparr>"
  have start: "moves st ?st" "ds_appends ?st = ds_appends st" by (simp_all add: moves_def)
  obtain v where inner: "save_draft_inner h env c input ?st = (v, st')"
    using assms Inr by (auto simp: save_draft_def split: prod.splits verdict.splits)
  obtain w st1 where p: "save_prepare h env c input ?st = (w, st1)" by (cases "save_prepare h env c input ?st")
  note q = quietD [OF quiet_save_prepare p]
  show thesis
  proof (cases "\<exists>op l. w = Value (Inr (op, l))")
    case False
    then have "st' = st1"
      using inner p by (auto simp: save_draft_inner_def then_step_def lift_def split: verdict.splits sum.splits)
    with q start show thesis by (auto intro: quiet_call moves_trans)
  next
    case True
    then obtain op l where w: "w = Value (Inr (op, l))" by blast
    then have d: "save_dispatch h env op l st1 = (v, st')"
      using inner p by (simp add: save_draft_inner_def then_step_def)
    from save_dispatch_cases [OF d] show thesis
    proof (elim disjE exE conjE)
      assume "ds_appends st' = ds_appends st1" "moves st1 st'"
      with q start show thesis by (auto intro: quiet_call moves_trans)
    next
      fix st2 p' w'
      assume b: "begin_dispatch (dh_journal h) (fst (env_dispatch env)) op (ds_journal st1) = (Inr p', ds_journal st2)"
        and m: "moves st1 st2" "ds_appends st2 = ds_appends st1" and a: "save_append h env op st2 = (w', st')"
        and v: "v = (case w' of Value p \<Rightarrow> fst (lift (draft_receipt h p l) st') | Failed e \<Rightarrow> Failed e | TimedOut \<Rightarrow> TimedOut)"
      have r: "r = (case w' of Value p \<Rightarrow> draft_receipt h p l | Failed e \<Rightarrow> Inl e
         | TimedOut \<Rightarrow> Inl ((draft_outcome OutcomeUnknown (operation_details op))
             \<lparr>err_message := ''Draft creation deadline exceeded; acceptance remains uncertain''\<rparr>))"
        using assms Inr inner v save_append_moves(3) [OF a]
        by (auto simp: save_draft_def lift_def split: verdict.splits sum.splits)
      have s: "moves st st1" "ds_appends st1 = ds_appends st"
        using q start moves_trans [of st ?st st1] by simp_all
      show thesis using p w by (intro appended [OF _ s b m a r]) simp
    qed
  qed
qed


section \<open>Sequences of calls\<close>

datatype draft_call = SaveCall draft_env RequestContext SaveDraftInput | StatusCall draft_env RequestContext DraftStatusInput

fun draft_call_state :: "draft_host \<Rightarrow> draft_call \<Rightarrow> draft_state \<Rightarrow> draft_state" where
  "draft_call_state h (SaveCall env c input) st = snd (save_draft h env c input st)"
| "draft_call_state h (StatusCall env c input) st = snd (draft_status h env c input st)"

fun draft_run :: "draft_host \<Rightarrow> draft_call list \<Rightarrow> draft_state \<Rightarrow> draft_state" where
  "draft_run h [] st = st"
| "draft_run h (e # es) st = draft_run h es (draft_call_state h e st)"

text \<open>The identity a call appended, if any.\<close>

definition draft_act :: "draft_host \<Rightarrow> draft_call \<Rightarrow> draft_state \<Rightarrow> DraftIdentity option \<times> draft_state" where
  "draft_act h e st =
     (let st' = draft_call_state h e st in
      (if ds_appends st' = ds_appends st then None else Some (last (ds_appends st')), st'))"

lemma draft_status_moves:
  assumes "draft_status h env c input st = (r, st')"
  shows "moves st st'" "ds_appends st' = ds_appends st"
proof -
  obtain v st1 where i: "draft_status_inner h env c input (st\<lparr>ds_uncertain := None\<rparr>) = (v, st1)"
    by (cases "draft_status_inner h env c input (st\<lparr>ds_uncertain := None\<rparr>)")
  note q = quietD [OF quiet_status i]
  have "st' = st \<or> st' = st1"
    using assms i by (auto simp: draft_status_def split: sum.splits verdict.splits)
  with q show "moves st st'" "ds_appends st' = ds_appends st"
    by (auto simp: moves_def)
qed

lemma draft_call_cases:
  obtains (quiet_call) "moves st (draft_call_state h e st)" "ds_appends (draft_call_state h e st) = ds_appends st"
  | (appended) i where "moves st (draft_call_state h e st)" "ds_appends (draft_call_state h e st) = ds_appends st @ [i]"
      "keys_ok (ds_journal st) \<longrightarrow> \<not> dispatched (ds_journal st) i \<and> dispatched (ds_journal (draft_call_state h e st)) i"
      "\<not> latched (ds_files st)"
proof (cases e)
  case (StatusCall env c input)
  with draft_status_moves [of h env c input st] show thesis
    by (cases "draft_status h env c input st") (auto intro: quiet_call)
next
  case (SaveCall env c input)
  obtain r st' where s: "save_draft h env c input st = (r, st')" by (cases "save_draft h env c input st")
  with SaveCall have st': "draft_call_state h e st = st'" by simp
  from s show thesis
  proof (cases rule: save_draft_cases)
    case quiet_call
    with st' that(1) show thesis by simp
  next
    case (appended op l st1 st2 p w)
    note a = save_append_moves [OF appended(7)]
    have "\<not> latched (ds_files st)"
      using save_prepare_Value [OF appended(1)] by (metis draft_state.select_convs(2) draft_state.surjective draft_state.update_convs(4))
    moreover have "\<not> dispatched (ds_journal st) (op_identity op) \<and> dispatched (ds_journal st') (op_identity op)"
      if "keys_ok (ds_journal st)"
    proof -
      have "keys_ok (ds_journal st1)" using that appended(2) by (simp add: moves_def later_def)
      from begin_dispatch_marks [OF this appended(4)] appended(2) a(1) show ?thesis
        by (auto simp: moves_def later_def)
    qed
    moreover have "moves st st'" using appended(2,5) a(1) moves_trans by blast
    ultimately show thesis using that(2) a(2) appended(3,6) st' by simp
  qed
qed

interpretation draft_once: clears_once "draft_act h" "\<lambda>st. keys_ok (ds_journal st)" "\<lambda>st. dispatched (ds_journal st)" for h
proof
  fix e st a st' i
  assume act: "draft_act h e st = (a, st')" and ok: "keys_ok (ds_journal st)"
  then have st': "st' = draft_call_state h e st" by (simp add: draft_act_def Let_def)
  have "moves st st'" unfolding st' by (rule draft_call_cases) simp_all
  with ok show "keys_ok (ds_journal st')" "dispatched (ds_journal st) i \<Longrightarrow> dispatched (ds_journal st') i"
    by (simp_all add: moves_def later_def)
next
  fix e st i st'
  assume act: "draft_act h e st = (Some i, st')" and ok: "keys_ok (ds_journal st)"
  then have "st' = draft_call_state h e st" "ds_appends st' \<noteq> ds_appends st" "i = last (ds_appends st')"
    by (auto simp: draft_act_def Let_def split: if_splits)
  with ok show "\<not> dispatched (ds_journal st) i \<and> dispatched (ds_journal st') i"
    by (cases rule: draft_call_cases [of st h e]) auto
qed

lemma draft_run_appends: "ds_appends (draft_run h es st) = ds_appends st @ cleared (draft_act h) es st"
proof (induction es arbitrary: st)
  case (Cons e es)
  show ?case
    by (rule draft_call_cases [of st h e]) (simp_all add: Cons.IH draft_act_def Let_def)
qed simp

text \<open>
  C15: a draft is handed to the provider's APPEND at most once. Over any sequence of save and status
  calls, retries of the same identity included, with any storage fault, suspension, provider
  answer, lock contention or deadline at any point of any of them, the identities newly
  appended are pairwise distinct, and none was already dispatched according to the journal.
\<close>

theorem draft_appended_once:
  assumes "keys_ok (ds_journal st)"
  shows "\<exists>new. ds_appends (draft_run h calls st) = ds_appends st @ new \<and> distinct new
    \<and> (\<forall>i \<in> set new. \<not> dispatched (ds_journal st) i)"
  using draft_run_appends draft_once.cleared_distinct [OF assms] draft_once.marked_not_cleared [OF assms] by blast

text \<open>
  C19: a suspended installation never appends. Once its draft history is marked restoring or
  suspended, no sequence of calls appends anything and none of them clears the mark.
\<close>

theorem suspended_never_appends:
  assumes "latched (ds_files st)"
  shows "ds_appends (draft_run h calls st) = ds_appends st \<and> latched (ds_files (draft_run h calls st))"
  using assms
proof (induction calls arbitrary: st)
  case (Cons e es)
  from Cons.prems have "latched (ds_files (draft_call_state h e st)) \<and> ds_appends (draft_call_state h e st) = ds_appends st"
    by (cases rule: draft_call_cases [of st h e]) (simp_all add: moves_def)
  with Cons.IH [of "draft_call_state h e st"] show ?case by simp
qed simp

section \<open>The answer to an appended draft\<close>

text \<open>The end-to-end answer of a save request.\<close>

definition execute_save ::
  "draft_host \<Rightarrow> draft_env \<Rightarrow> RequestContext \<Rightarrow> SaveDraftInput \<Rightarrow> draft_state \<Rightarrow> DraftReceipt result \<times> draft_state" where
  "execute_save h env c input st =
     (case save_draft h env c input st of (r, st') \<Rightarrow> (and_then r (respond_draft h c), st'))"

lemma appended_answer:
  assumes "save_draft h env c input st = (r, st')" and "ds_appends st' \<noteq> ds_appends st"
  obtains op admitted where "op_identity op = sd_identity input" "ds_appends st' = ds_appends st @ [sd_identity input]"
    "receipt_facts op = receipt_facts admitted" "admit_draft_response h c admitted = Inr ()"
    "(\<exists>rc. r = Inr rc \<and> append_receipt op rc)
     \<or> (\<exists>e. r = Inl e \<and> err_code e = OutcomeUnknown \<and> err_draft_operation e = Some (operation_details op))"
  using assms(1)
proof (cases rule: save_draft_cases)
  case quiet_call
  with assms(2) show thesis by simp
next
  case (appended op l st1 st2 p w)
  obtain admitted where op: "receipt_facts op = receipt_facts admitted" "admit_draft_response h c admitted = Inr ()"
    "op_identity op = sd_identity input" "op_reconstruction op \<noteq> None"
    using appended(1) by (rule save_prepare_Value)
  have appends: "ds_appends st' = ds_appends st @ [sd_identity input]"
    using save_append_moves(2) [OF appended(7)] appended(3,6) op(3) by simp
  from save_append_result [OF appended(7) begin_dispatch_view [OF appended(4)]]
  show thesis
  proof (elim disjE exE conjE)
    fix p
    assume "w = Value p" "per_operation p = op" "append_state (per_state p)"
    with appended(8) draft_receipt_result [of p h l] op(4) show thesis
      by (intro that [OF op(3) appends op(1,2)]) auto
  next
    assume "w = TimedOut"
    with appended(8) show thesis by (intro that [OF op(3) appends op(1,2)]) simp
  next
    fix e
    assume "w = Failed e" "err_code e = OutcomeUnknown" "err_draft_operation e = Some (operation_details op)"
    with appended(8) show thesis by (intro that [OF op(3) appends op(1,2)]) simp
  qed
qed

text \<open>
  C16: once a draft has reached the provider, its caller is told so. Whatever the provider
  answers, whichever storage access fails and wherever the deadline cancels the call, a save that
  handed a message to APPEND appended exactly the requested identity once and answers with a
  receipt marked dispatched (created, created without reference, or rejected) or with
  the error that names this identity as outcome unknown; never with a timeout or another retryable error.
\<close>

theorem append_never_unreported:
  assumes "save_draft h env c input st = (r, st')" and "ds_appends st' \<noteq> ds_appends st"
  shows "ds_appends st' = ds_appends st @ [sd_identity input] \<and>
    (case r of
       Inr rc \<Rightarrow> rcpt_identity rc = sd_identity input \<and> rcpt_dispatched rc
         \<and> rcpt_state rc \<in> {DraftCreated, DraftCreatedReferenceUnavailable, DraftRejected}
     | Inl e \<Rightarrow> err_code e = OutcomeUnknown \<and> (\<exists>d. err_draft_operation e = Some d \<and> det_identity d = sd_identity input))"
  using assms by (rule appended_answer) (auto simp: append_receipt_def operation_details_def)

lemma respond_admitted:
  assumes "append_receipt op rc" and "rcpt_state rc \<noteq> DraftRejected" and "receipt_facts op = receipt_facts admitted"
    and "admit_draft_response h c admitted = Inr ()"
  obtains out where "respond_draft h c rc = Inr out" "rcpt_identity out = op_identity op" "rcpt_dispatched out"
    "rcpt_state out \<in> {DraftCreated, DraftCreatedReferenceUnavailable}"
    "length (emitted (dh_result h out)) \<le> response_limit c - 512"
proof -
  let ?short = "rc\<lparr>rcpt_message_reference := None, rcpt_state := DraftCreatedReferenceUnavailable\<rparr>"
  let ?max = "response_limit c - 512"
  obtain r where r: "op_reconstruction admitted = Some r"
    and fits: "is_ok (serialized_size (dh_result h
         \<lparr>rcpt_identity = op_identity admitted, rcpt_mailbox = op_mailbox_identity admitted, rcpt_uid_validity = rec_uid_validity r,
          rcpt_state = DraftCreatedReferenceUnavailable, rcpt_dispatched = True, rcpt_message_reference = None,
          rcpt_content_sha256 = hex (op_content_sha256 admitted)\<rparr>) ?max)"
    using assms(4) by (auto simp: admit_draft_response_def Let_def)
  have "\<lparr>rcpt_identity = op_identity admitted, rcpt_mailbox = op_mailbox_identity admitted, rcpt_uid_validity = rec_uid_validity r,
      rcpt_state = DraftCreatedReferenceUnavailable, rcpt_dispatched = True, rcpt_message_reference = None,
      rcpt_content_sha256 = hex (op_content_sha256 admitted)\<rparr> = ?short"
    using assms(1,3) r by (auto simp: append_receipt_def receipt_facts_def)
  with fits have short: "is_ok (serialized_size (dh_result h ?short) ?max)" by simp
  have same: "rc\<lparr>rcpt_message_reference := None\<rparr> = ?short" if "rcpt_message_reference rc = None"
    using assms(1,2) that by (auto simp: append_receipt_def)
  show thesis
  proof (cases "is_ok (serialized_size (dh_result h rc) ?max)")
    case True
    then have "respond_draft h c rc = Inr rc" by (auto simp: respond_draft_def is_ok_iff)
    moreover have "length (emitted (dh_result h rc)) \<le> ?max"
      using True by (auto simp: serialized_size_eq split: if_splits)
    ultimately show thesis using assms(1,2) by (intro that) (auto simp: append_receipt_def)
  next
    case False
    then obtain e where e: "serialized_size (dh_result h rc) ?max = Inl e"
      by (cases "serialized_size (dh_result h rc) ?max") (auto simp: is_ok_iff)
    have shortened: "(if rcpt_message_reference rc \<noteq> None \<and> rcpt_state rc = DraftCreated
        then ?short else rc\<lparr>rcpt_message_reference := None\<rparr>) = ?short"
      using same assms(1) by (auto simp: append_receipt_def)
    have "respond_draft h c rc = Inr ?short"
      by (simp only: respond_draft_def Let_def e sum.case shortened short if_True)
    moreover have "length (emitted (dh_result h ?short)) \<le> ?max"
      using short by (auto simp: serialized_size_eq split: if_splits)
    ultimately show thesis using assms(1) by (intro that) (auto simp: append_receipt_def)
  qed
qed


section \<open>Authority over appends\<close>

text \<open>The authority to append a draft: a grant with drafts, and the drafts mailbox or a listed historical scope.\<close>

definition draft_authorized :: "Service \<Rightarrow> string \<Rightarrow> Narrowing \<Rightarrow> DraftIdentity \<Rightarrow> string \<Rightarrow> bool" where
  "draft_authorized sv name n i mailbox \<longleftrightarrow>
     operation_id i \<noteq> 0 \<and> \<not> narrow_read_only n \<and>
     (\<exists>g \<in> set (cfg_grants (svc_config sv)). \<exists>a \<in> set (cfg_accounts (svc_config sv)).
        grant_name g = name \<and> grant_profile g \<noteq> ReadOnly \<and> account_selected g n a
        \<and> fst (svc_identity sv (acc_key a)) = uuid_string (account_id i)
        \<and> (if snd (svc_identity sv (acc_key a)) = account_generation i
           then scope_allows (scope_intersection (acc_mailboxes a) (grant_mailboxes g)) mailbox
             \<and> map_option mailbox_identity (acc_drafts_mailbox a) = Some (mailbox_identity mailbox)
           else \<exists>s \<in> set (grant_historical_drafts g). hist_account_id s = account_id i
             \<and> hist_account_generation s = account_generation i \<and> mailbox_identity (hist_mailbox s) = mailbox_identity mailbox))"

lemma historical_allowed_iff:
  "historical_allowed g i mailbox \<longleftrightarrow> (\<exists>s \<in> set (grant_historical_drafts g). hist_account_id s = account_id i
     \<and> hist_account_generation s = account_generation i \<and> mailbox_identity (hist_mailbox s) = mailbox_identity mailbox)"
  by (auto simp: historical_allowed_def list_ex_iff)

lemma authorize_draft_Inr:
  assumes "service_context sv session name n = Inr c0" and "authority c = authority c0"
    and "authorize_draft sv c i mailbox AppendDraft = Inr t"
  shows "draft_authorized sv name n i mailbox"
proof -
  from assms(1,2) obtain g where g: "g \<in> set (cfg_grants (svc_config sv))" "grant_name g = name"
    "service_grant sv c = Inr g" "visible_accounts sv c = filter (account_selected g n) (cfg_accounts (svc_config sv))"
    "auth_permissions (authority c) = permissions (grant_profile g) (narrow_read_only n)"
    by (rule issued_accounts)
  from assms(3) g(3) obtain t' where t: "visible_account_target sv c (uuid_string (account_id i)) = Inr t'"
    "context_permits c AppendDraft" "operation_id i \<noteq> 0"
    and rest: "tgt_generation t' \<noteq> account_generation i \<Longrightarrow> historical_allowed g i mailbox"
      "tgt_generation t' = account_generation i \<Longrightarrow> authorize_mailbox_scope g t' mailbox = Inr t'
        \<and> map_option mailbox_identity (acc_drafts_mailbox (tgt_config t')) = Some (mailbox_identity mailbox)"
    by (auto simp: authorize_draft_def authorize_mailbox_scope_def split: if_splits)
  have "\<not> narrow_read_only n" "grant_profile g \<noteq> ReadOnly"
    using t(2) g(5) by (auto simp: context_permits_def set_permissions split: if_splits)
  moreover have "tgt_config t' \<in> set (visible_accounts sv c)" "fst (svc_identity sv (acc_key (tgt_config t'))) = uuid_string (account_id i)"
    "snd (svc_identity sv (acc_key (tgt_config t'))) = tgt_generation t'"
    using visible_target_Inr [OF t(1)] by (simp_all add: prod_eq_iff)
  moreover note rest = rest [folded this(3)] and authorize_scope_Inr(2) [of g t' mailbox t']
  ultimately show ?thesis
    unfolding draft_authorized_def using g(1,2,4) t(3)
    by (intro conjI bexI [of _ g] bexI [of _ "tgt_config t'"]) (auto simp: historical_allowed_iff simp del: map_option_eq_Some)
qed



section \<open>A concrete save\<close>

definition example_frozen :: DraftReconstruction where
  "example_frozen = \<lparr>rec_uid_validity = 9, rec_input_sha256 = replicate 32 0, rec_from_configuration_sha256 = replicate 32 0,
     rec_selected_from_sha256 = Some (replicate 32 0), rec_date_unix = 100, rec_encoder = ENCODER, rec_facts_sha256 = replicate 32 0\<rparr>"

definition example_draft_host :: draft_host where
  "example_draft_host =
     (let blank = \<lparr>ser_writes = [''x''], ser_finished = True\<rparr> in
     \<lparr>dh_journal = example_journal_host\<lparr>recon_json := (\<lambda>_. ''f''), recon_parse := (\<lambda>_. Some example_frozen)\<rparr>, dh_compose = example_compose_host, dh_tokens = example_token_host,
      dh_message = (\<lambda>_. blank), dh_content = (\<lambda>_. blank), dh_text = (\<lambda>_. blank), dh_texts = (\<lambda>_. blank),
      dh_sha256 = (\<lambda>_. replicate 32 0), dh_result = (\<lambda>_. blank), dh_error = (\<lambda>_. blank)\<rparr>)"

definition example_access :: access_io where
  "example_access = (io_ok, file_io_ok)"

definition example_env :: "AppendOutcome result \<Rightarrow> draft_env" where
  "example_env outcome =
     \<lparr>env_registry = example_reconciled, env_lease = True, env_cancel = None, env_admission = Inr (), env_lock_file = True,
      env_locks = [WouldBlock, Locked], env_contended = [], env_contended_inspect = example_access,
      env_open = [(file_io_ok, Inr ())], env_inspect = example_access, env_recover = example_access, env_absent = file_io_ok,
      env_allowed = (\<lambda>_. file_io_ok), env_capacity = example_access, env_verify = example_access, env_joined = True,
      env_expired = (\<lambda>_. False), env_now = Some 100, env_backend = Inr (), env_prepare = Inr 9, env_record = example_access,
      env_dispatch = example_access, env_append = outcome, env_outcome = example_access, env_drop = example_access,
      env_evidence = Inr Absent\<rparr>"

definition example_save :: SaveDraftInput where
  "example_save =
     \<lparr>sd_mailbox = ''Drafts'', sd_identity = \<lparr>account_id = 8, account_generation = 1, operation_id = 5\<rparr>,
      sd_draft = \<lparr>dc_from = None, dc_to = [\<lparr>da_address = ''d@e.f'', da_name = None\<rparr>], dc_cc = [], dc_bcc = [],
        dc_subject = ''hello'', dc_body = ''x'', dc_in_reply_to = None, dc_references = []\<rparr>\<rparr>"

definition example_files :: draft_files where
  "example_files = \<lparr>df_suspended = None, df_marker = Some ''r'', df_journal = True, df_private = True\<rparr>"

definition example_draft_service :: Service where
  "example_draft_service = example_service\<lparr>svc_identity := (\<lambda>_. (uuid_string 8, 1))\<rparr>"

definition example_state :: draft_state where
  "example_state = \<lparr>ds_service = example_draft_service, ds_files = example_files, ds_journal = [], ds_uncertain = None, ds_appends = []\<rparr>"

definition example_draft_context :: RequestContext where
  "example_draft_context = example_context \<lparr>narrow_read_only = False, narrow_accounts = None\<rparr>"

definition example_call :: draft_call where
  "example_call = SaveCall (example_env (Inr (AppendCreated None))) example_draft_context example_save"

lemma example_save_created:
  "(case save_draft example_draft_host (example_env (Inr (AppendCreated None))) example_draft_context example_save example_state of
      (r, st') \<Rightarrow> (case r of Inr rc \<Rightarrow> rcpt_state rc = DraftCreatedReferenceUnavailable | Inl _ \<Rightarrow> False)
        \<and> ds_appends st' = [sd_identity example_save])"
  by code_simp

lemma example_save_result:
  obtains rc st' where "save_draft example_draft_host (example_env (Inr (AppendCreated None))) example_draft_context example_save
      example_state = (Inr rc, st')" "rcpt_state rc = DraftCreatedReferenceUnavailable" "ds_appends st' \<noteq> ds_appends example_state"
  using example_save_created by (auto simp: example_state_def split: prod.splits sum.splits)

theorem draft_appended_once_witness:
  "distinct (ds_appends (draft_run example_draft_host [example_call, example_call] example_state))"
proof -
  have "keys_ok (ds_journal example_state)" "ds_appends example_state = []"
    by (simp_all add: example_state_def keys_ok_def)
  with draft_appended_once [of example_state] show ?thesis by (metis append_Nil)
qed

theorem suspended_never_appends_witness:
  "ds_appends (draft_run example_draft_host [example_call]
     (example_state\<lparr>ds_files := example_files\<lparr>df_suspended := Some ''restoring''\<rparr>\<rparr>)) = []"
proof -
  have "latched (ds_files (example_state\<lparr>ds_files := example_files\<lparr>df_suspended := Some ''restoring''\<rparr>\<rparr>))"
    by (simp add: latched_def)
  from suspended_never_appends [OF this, of example_draft_host "[example_call]"] show ?thesis
    by (simp add: example_state_def del: draft_run.simps)
qed

theorem append_never_unreported_witness:
  "ds_appends (snd (save_draft example_draft_host (example_env (Inr (AppendCreated None))) example_draft_context example_save
     example_state)) = [sd_identity example_save]"
proof (rule example_save_result)
  fix rc st'
  assume s: "save_draft example_draft_host (example_env (Inr (AppendCreated None))) example_draft_context example_save
      example_state = (Inr rc, st')" and a: "ds_appends st' \<noteq> ds_appends example_state"
  from append_never_unreported [OF s a] s show ?thesis by (simp add: example_state_def)
qed


lemma service_context_cong:
  "svc_config a = svc_config b \<Longrightarrow> svc_context_id a = svc_context_id b \<Longrightarrow>
    service_context a session name n = service_context b session name n"
  by (cases "find (\<lambda>g. grant_name g = name) (cfg_grants (svc_config b))") (simp_all add: service_context_def)


end
