(* ===== verification/DraftMemory.thy ===== *)
theory DraftMemory
  imports DraftService
begin

text \<open>
  The in-memory draft provider (\<open>src/src/service/drafts.rs\<close>): preparing a target, appending a
  composed draft, and reconciling an uncertain one. Reading the Message-ID back from the
  encoded header is a parameter.
\<close>

record MemoryMessage =
  dm_message_id :: string
  dm_content_sha256 :: sha256
  dm_mime_bytes :: nat
  dm_header_bytes :: nat

record MemoryMailbox =
  dm_validity :: u32
  dm_messages :: "MemoryMessage list"

type_synonym memory_drafts = "string \<rightharpoonup> string \<rightharpoonup> MemoryMailbox"

record MemoryAppend =
  ma_account :: string
  ma_mailbox :: string
  ma_validity :: u32

definition memory_set :: "string \<Rightarrow> string \<Rightarrow> u32 \<Rightarrow> memory_drafts \<Rightarrow> memory_drafts" where
  "memory_set account mailbox validity m =
     m(account \<mapsto> (case m account of None \<Rightarrow> Map.empty | Some boxes \<Rightarrow> boxes)
         (mailbox_identity mailbox \<mapsto> \<lparr>dm_validity = validity, dm_messages = []\<rparr>))"

definition memory_mailbox :: "memory_drafts \<Rightarrow> string \<Rightarrow> string \<Rightarrow> MemoryMailbox result" where
  "memory_mailbox m account mailbox =
     ok_or (error_new DraftMailboxUnavailable) (Option.bind (m account) (\<lambda>boxes. boxes mailbox))"

definition memory_prepare :: "memory_drafts \<Rightarrow> string \<Rightarrow> string \<Rightarrow> MemoryAppend result" where
  "memory_prepare m account mailbox =
     (let mailbox = mailbox_identity mailbox in
      and_then (memory_mailbox m account mailbox) (\<lambda>box.
        if dm_validity box = 0 then Inl (error_new DraftMailboxUnavailable)
        else Inr \<lparr>ma_account = account, ma_mailbox = mailbox, ma_validity = dm_validity box\<rparr>))"

definition stored_message :: "string \<Rightarrow> PreparedDraft \<Rightarrow> MemoryMessage" where
  "stored_message i draft =
     \<lparr>dm_message_id = i, dm_content_sha256 = pd_sha256 draft, dm_mime_bytes = length (pd_bytes draft),
      dm_header_bytes = pd_header_bytes draft\<rparr>"

definition memory_append ::
  "(bytes \<Rightarrow> string option) \<Rightarrow> MemoryAppend \<Rightarrow> PreparedDraft \<Rightarrow> memory_drafts \<Rightarrow> AppendOutcome result \<times> memory_drafts" where
  "memory_append parsed_id a draft m =
     (case parsed_id (pd_bytes draft) of None \<Rightarrow> (Inl (error_new InvalidRequest), m)
      | Some i \<Rightarrow>
          (case (m (ma_account a)) of None \<Rightarrow> (Inl (error_new DraftMailboxUnavailable), m)
           | Some boxes \<Rightarrow>
               (case boxes (ma_mailbox a) of None \<Rightarrow> (Inl (error_new DraftMailboxUnavailable), m)
                | Some box \<Rightarrow>
                    (Inr (AppendCreated None), m(ma_account a \<mapsto> boxes(ma_mailbox a \<mapsto>
                       box\<lparr>dm_messages := dm_messages box @ [stored_message i draft]\<rparr>))))))"

definition memory_reconcile ::
  "memory_drafts \<Rightarrow> string \<Rightarrow> string \<Rightarrow> DraftVerification \<Rightarrow> Limits \<Rightarrow> DraftEvidence result" where
  "memory_reconcile m account mailbox expected l =
     and_then (memory_mailbox m account (mailbox_identity mailbox)) (\<lambda>box.
       if dm_validity box \<noteq> ver_uid_validity expected then Inl (error_new StaleReference)
       else if length (dm_messages box) > l_search_windows l * l_search_uid_window l then Inl (error_new ResponseTooLarge)
       else (case filter (\<lambda>(_, message). str_contains (dm_message_id message) (ver_message_id expected))
                  (enumerate 0 (dm_messages box)) of
           [] \<Rightarrow> Inr Absent
         | (index, message) # others \<Rightarrow>
             if others \<noteq> [] then Inr Ambiguous
             else if dm_mime_bytes message > l_draft_mime_bytes l \<or> dm_mime_bytes message > l_wire_fetch_bytes l
               \<or> dm_header_bytes message > l_header_bytes l
             then Inl (error_new ResponseTooLarge)
             else if dm_message_id message \<noteq> ver_message_id expected
               \<or> dm_content_sha256 message \<noteq> ver_content_sha256 expected
             then Inr ContentMismatch
             else Inr (Verified \<lparr>dm_uid_validity = dm_validity box, dm_uid = of_nat index + 1\<rparr>)))"

section \<open>Reconciling what was appended\<close>

lemma str_contains_self [simp]: "str_contains s s"
  by (cases s) simp_all

lemma filter_enumerate_empty:
  "filter (\<lambda>(_, x). P x) (enumerate n xs) = [] \<longleftrightarrow> (\<forall>x \<in> set xs. \<not> P x)"
  by (induction xs arbitrary: n) simp_all

lemma memory_reconcile_sound:
  assumes "memory_reconcile m account mailbox expected l = Inr (Verified u)"
  obtains box n where "memory_mailbox m account (mailbox_identity mailbox) = Inr box"
    "dm_validity box = ver_uid_validity expected" "n < length (dm_messages box)"
    "u = \<lparr>dm_uid_validity = ver_uid_validity expected, dm_uid = of_nat n + 1\<rparr>"
    "dm_message_id (dm_messages box ! n) = ver_message_id expected"
    "dm_content_sha256 (dm_messages box ! n) = ver_content_sha256 expected"
    "\<forall>k < length (dm_messages box). str_contains (dm_message_id (dm_messages box ! k)) (ver_message_id expected) \<longrightarrow> k = n"
proof -
  let ?P = "\<lambda>(_, message). str_contains (dm_message_id message) (ver_message_id expected)"
  from assms obtain box where box: "memory_mailbox m account (mailbox_identity mailbox) = Inr box"
      "dm_validity box = ver_uid_validity expected"
    by (auto simp: memory_reconcile_def split: if_splits)
  obtain n message where found: "filter ?P (enumerate 0 (dm_messages box)) = [(n, message)]"
    and same: "dm_message_id message = ver_message_id expected" "dm_content_sha256 message = ver_content_sha256 expected"
      "u = \<lparr>dm_uid_validity = ver_uid_validity expected, dm_uid = of_nat n + 1\<rparr>"
  proof (cases "filter ?P (enumerate 0 (dm_messages box))")
    case Nil
    with assms box show ?thesis by (simp add: memory_reconcile_def split: if_splits)
  next
    case (Cons x others)
    with assms box that show ?thesis by (cases x) (auto simp: memory_reconcile_def split: if_splits)
  qed
  have member: "(k, message) \<in> set (enumerate 0 xs) \<longleftrightarrow> k < length xs \<and> message = xs ! k" for k message and xs :: "MemoryMessage list"
    by (auto simp: in_set_enumerate_eq)
  have in_found: "(k, dm_messages box ! k) \<in> set (filter ?P (enumerate 0 (dm_messages box)))"
    if "k < length (dm_messages box)" "str_contains (dm_message_id (dm_messages box ! k)) (ver_message_id expected)" for k
    using that by (simp add: member)
  have "(n, message) \<in> set (filter ?P (enumerate 0 (dm_messages box)))" by (simp add: found)
  then have n: "n < length (dm_messages box)" "message = dm_messages box ! n"
    by (simp_all add: member)
  show thesis
  proof (rule that [OF box n(1) same(3)])
    show "dm_message_id (dm_messages box ! n) = ver_message_id expected" "dm_content_sha256 (dm_messages box ! n) = ver_content_sha256 expected"
      using same n(2) by simp_all
    show "\<forall>k < length (dm_messages box). str_contains (dm_message_id (dm_messages box ! k)) (ver_message_id expected) \<longrightarrow> k = n"
      using in_found unfolding found by auto
  qed
qed

text \<open>
  reconciliation confirms exactly the draft that was appended. After a draft was appended to a
  mailbox, reconciling with the mailbox incarnation, the Message-ID and the digest of that draft
  verifies it under its own UID, unless an earlier message already carried the identifier
  (then the evidence is ambiguous) or the work limits of the caller are exceeded; and any
  verified evidence names the only stored message that carries the identifier, with the expected digest.
\<close>

theorem memory_reconcile_appended:
  assumes "memory_prepare m account mailbox = Inr a" and "memory_append parsed_id a draft m = (Inr outcome, m')"
    and "expected = \<lparr>ver_uid_validity = ma_validity a, ver_message_id = i, ver_content_sha256 = pd_sha256 draft\<rparr>"
    and "parsed_id (pd_bytes draft) = Some i" and "memory_mailbox m account (ma_mailbox a) = Inr box"
  shows "memory_reconcile m' account mailbox expected l =
     (if length (dm_messages box) \<ge> l_search_windows l * l_search_uid_window l then Inl (error_new ResponseTooLarge)
      else if \<exists>message \<in> set (dm_messages box). str_contains (dm_message_id message) i then Inr Ambiguous
      else if length (pd_bytes draft) > l_draft_mime_bytes l \<or> length (pd_bytes draft) > l_wire_fetch_bytes l
        \<or> pd_header_bytes draft > l_header_bytes l then Inl (error_new ResponseTooLarge)
      else Inr (Verified \<lparr>dm_uid_validity = ma_validity a, dm_uid = of_nat (length (dm_messages box)) + 1\<rparr>))
   \<and> (memory_reconcile m'' account mailbox expected l = Inr (Verified u) \<longrightarrow>
        (\<exists>box n. memory_mailbox m'' account (mailbox_identity mailbox) = Inr box \<and> n < length (dm_messages box)
          \<and> u = \<lparr>dm_uid_validity = dm_validity box, dm_uid = of_nat n + 1\<rparr>
          \<and> dm_message_id (dm_messages box ! n) = i \<and> dm_content_sha256 (dm_messages box ! n) = pd_sha256 draft
          \<and> (\<forall>k < length (dm_messages box). str_contains (dm_message_id (dm_messages box ! k)) i \<longrightarrow> k = n)))"
    (is "?appended \<and> ?sound")
proof
  show ?sound
  proof
    assume "memory_reconcile m'' account mailbox expected l = Inr (Verified u)"
    then obtain b n where b: "memory_mailbox m'' account (mailbox_identity mailbox) = Inr b" "dm_validity b = ver_uid_validity expected"
      "n < length (dm_messages b)" "u = \<lparr>dm_uid_validity = ver_uid_validity expected, dm_uid = of_nat n + 1\<rparr>"
      "dm_message_id (dm_messages b ! n) = ver_message_id expected"
      "dm_content_sha256 (dm_messages b ! n) = ver_content_sha256 expected"
      "\<forall>k < length (dm_messages b). str_contains (dm_message_id (dm_messages b ! k)) (ver_message_id expected) \<longrightarrow> k = n"
      by (rule memory_reconcile_sound)
    have e: "ver_message_id expected = i" "ver_content_sha256 expected = pd_sha256 draft" by (simp_all add: assms(3))
    from b(1,3-7) show "\<exists>box n. memory_mailbox m'' account (mailbox_identity mailbox) = Inr box \<and> n < length (dm_messages box)
          \<and> u = \<lparr>dm_uid_validity = dm_validity box, dm_uid = of_nat n + 1\<rparr>
          \<and> dm_message_id (dm_messages box ! n) = i \<and> dm_content_sha256 (dm_messages box ! n) = pd_sha256 draft
          \<and> (\<forall>k < length (dm_messages box). str_contains (dm_message_id (dm_messages box ! k)) i \<longrightarrow> k = n)"
      unfolding b(2) [symmetric] e by (intro exI [of _ b] exI [of _ n] conjI)
  qed
  show ?appended
  proof -
    let ?box = "box\<lparr>dm_messages := dm_messages box @ [stored_message i draft]\<rparr>"
    let ?found = "filter (\<lambda>(_, message). str_contains (dm_message_id message) i) (enumerate 0 (dm_messages box))"
    have a: "a = \<lparr>ma_account = account, ma_mailbox = mailbox_identity mailbox, ma_validity = dm_validity box\<rparr>"
      using assms(1,5) by (auto simp: memory_prepare_def memory_mailbox_def Let_def split: if_splits)
    have "memory_mailbox m' account (mailbox_identity mailbox) = Inr ?box"
      using assms(2,4,5) a by (auto simp: memory_append_def memory_mailbox_def bind_eq_Some_conv split: option.splits)
    moreover have "filter (\<lambda>(_, message). str_contains (dm_message_id message) i) (enumerate 0 (dm_messages ?box))
        = ?found @ [(length (dm_messages box), stored_message i draft)]"
      by (simp add: enumerate_append_eq stored_message_def)
    moreover have "?found = [] \<longleftrightarrow> \<not> (\<exists>message \<in> set (dm_messages box). str_contains (dm_message_id message) i)"
      by (simp add: filter_enumerate_empty)
    ultimately have found: "memory_mailbox m' account (mailbox_identity mailbox) = Inr ?box"
      "filter (\<lambda>(_, message). str_contains (dm_message_id message) i) (enumerate 0 (dm_messages ?box))
        = ?found @ [(length (dm_messages box), stored_message i draft)]"
      "(\<exists>message \<in> set (dm_messages box). str_contains (dm_message_id message) i) \<longleftrightarrow> ?found \<noteq> []"
      by simp_all
    show ?thesis
    proof (cases ?found)
      case Nil
      with found show ?thesis
        using a assms(3) by (simp add: memory_reconcile_def stored_message_def not_less Suc_le_eq)
    next
      case (Cons x others)
      with found show ?thesis
        using a assms(3) by (cases x) (simp add: memory_reconcile_def not_less Suc_le_eq)
    qed
  qed
qed

section \<open>A concrete mailbox\<close>

definition example_drafts :: memory_drafts where
  "example_drafts = memory_set ''work'' ''Drafts'' 9 Map.empty"

definition example_mime :: PreparedDraft where
  "example_mime = \<lparr>pd_bytes = ''x'', pd_sha256 = replicate 32 7, pd_header_bytes = 1\<rparr>"

theorem memory_reconcile_appended_witness:
  "memory_reconcile (snd (memory_append (\<lambda>_. Some ''i@d'') \<lparr>ma_account = ''work'', ma_mailbox = ''Drafts'', ma_validity = 9\<rparr>
      example_mime example_drafts)) ''work'' ''Drafts''
      \<lparr>ver_uid_validity = 9, ver_message_id = ''i@d'', ver_content_sha256 = replicate 32 7\<rparr> limits_default
    = Inr (Verified \<lparr>dm_uid_validity = 9, dm_uid = 1\<rparr>)"
proof -
  let ?a = "\<lparr>ma_account = ''work'', ma_mailbox = ''Drafts'', ma_validity = 9\<rparr> :: MemoryAppend"
  have "memory_prepare example_drafts ''work'' ''Drafts'' = Inr ?a" by code_simp
  moreover have append: "fst (memory_append (\<lambda>_. Some ''i@d'') ?a example_mime example_drafts) = Inr (AppendCreated None)"
    by code_simp
  moreover obtain outcome m' where "memory_append (\<lambda>_. Some ''i@d'') ?a example_mime example_drafts = (Inr outcome, m')"
    using append by (cases "memory_append (\<lambda>_. Some ''i@d'') ?a example_mime example_drafts") auto
  moreover have "memory_mailbox example_drafts ''work'' (ma_mailbox ?a) = Inr \<lparr>dm_validity = 9, dm_messages = []\<rparr>"
    by code_simp
  ultimately show ?thesis
    using memory_reconcile_appended [of example_drafts "''work''" "''Drafts''" ?a "\<lambda>_. Some ''i@d''" example_mime outcome m' _ "''i@d''" _ limits_default]
    by (simp add: example_mime_def limits_default_def)
qed

end
