(* ===== verification/Fetch.thy ===== *)
theory Fetch
  imports Imap
begin

text \<open>
  FETCH requests and the validation of their answers (\<open>src/src/imap/fetch.rs\<close>), over the part of
  the parsed responses of \<open>imap_proto\<close> that the client looks at; \<open>AttrOther\<close> and \<open>OtherResponse\<close> stand for
  the rest.
\<close>

section \<open>Parsed responses\<close>

datatype MessageSection = SectionHeader | SectionMime | SectionText

datatype SectionPath = SectionFull MessageSection | SectionPart "nat list" "MessageSection option"

record Address =
  wa_name :: "bytes option"
  wa_adl :: "bytes option"
  wa_mailbox :: "bytes option"
  wa_host :: "bytes option"

record WireEnvelope =
  wenv_date :: "bytes option"
  wenv_subject :: "bytes option"
  wenv_from :: "Address list option"
  wenv_sender :: "Address list option"
  wenv_reply_to :: "Address list option"
  wenv_to :: "Address list option"
  wenv_cc :: "Address list option"
  wenv_bcc :: "Address list option"
  wenv_in_reply_to :: "bytes option"
  wenv_message_id :: "bytes option"

datatype AttributeValue =
    AttrUid u32
  | AttrSize u32
  | AttrStructure BodyStructure
  | AttrSection "SectionPath option" "u32 option" "bytes option"
  | AttrEnvelope WireEnvelope
  | AttrFlags "string list"
  | AttrInternalDate string
  | AttrOther

datatype Status = StatusOk | StatusNo | StatusBad | StatusPreAuth | StatusBye

text \<open>A member of a UID set is one UID or a range.\<close>

datatype UidSetMember = MemberUid u32 | MemberRange u32 u32

datatype ResponseCode =
    CodeReadOnly | CodeReadWrite | CodeUidValidity u32 | CodeUidNext u32
  | CodeAppendUid u32 "UidSetMember list" | CodeOther

record Outcome =
  out_code :: "ResponseCode option"
  out_information :: "string option"

datatype Capability = CapImap4rev1 | CapAtom string | CapAuth string

datatype NameAttribute =
    NameNoInferiors | NameNoSelect | NameMarked | NameUnmarked | NameAll | NameArchive | NameDrafts | NameFlagged
  | NameJunk | NameSent | NameTrash | NameExtension string | NameOther

datatype MailboxDatum =
    DatumList string "NameAttribute list" | DatumSearch "u32 list" | DatumFlags | DatumExists | DatumRecent | DatumOther

datatype Response =
    RespDone string Status Outcome
  | RespData Status Outcome
  | RespContinue Outcome
  | RespCapabilities "Capability list"
  | RespMailbox MailboxDatum
  | RespFetch u32 "AttributeValue list"
  | RespExpunge u32
  | OtherResponse

section \<open>Requests\<close>

datatype Section = FetchHeader | FetchMime Part | FetchPart Part

definition section_name :: "Section \<Rightarrow> string" where
  "section_name s =
     (case s of FetchHeader \<Rightarrow> ''HEADER'' | FetchMime p \<Rightarrow> part_name p @ ''.MIME'' | FetchPart p \<Rightarrow> part_name p)"

fun section_matches :: "Section \<Rightarrow> SectionPath \<Rightarrow> bool" where
  "section_matches FetchHeader (SectionFull SectionHeader) = True"
| "section_matches (FetchMime part) (SectionPart path (Some SectionMime)) = (part = path)"
| "section_matches (FetchPart part) (SectionPart path None) = (part = path)"
| "section_matches _ _ = False"

datatype Fetch =
    FetchMetadata u32
  | FetchBytes (fetch_target: u32) (fetch_section: "Section option") (fetch_offset: u32) (fetch_count: u32)

definition fetch_items :: "Response \<Rightarrow> AttributeValue list imap" where
  "fetch_items row =
     (case row of RespFetch sequence items \<Rightarrow> if sequence \<noteq> 0 then Inr items else Inl ImapProtocol
      | _ \<Rightarrow> Inl ImapProtocol)"

fun fetch_uid :: "Fetch \<Rightarrow> u32" where
  "fetch_uid (FetchMetadata uid) = uid"
| "fetch_uid (FetchBytes uid section offset cnt) = uid"

text \<open>What the admission layer lets the server answer.\<close>

datatype FrameContract =
    ContractOther | ContractList | ContractMetadata
  | ContractBody (contract_section: string) (contract_offset: u32) (contract_count: nat)

fun fetch_contract :: "Fetch \<Rightarrow> FrameContract" where
  "fetch_contract (FetchMetadata uid) = ContractMetadata"
| "fetch_contract (FetchBytes uid section offset cnt) =
     ContractBody (case section of None \<Rightarrow> [] | Some s \<Rightarrow> section_name s) offset (unat cnt)"

fun metadata_items :: "AttributeValue list \<Rightarrow> u32 option \<Rightarrow> BodyStructure option \<Rightarrow> (u32 option \<times> BodyStructure option) imap" where
  "metadata_items [] sz str = Inr (sz, str)"
| "metadata_items (item # items) sz str =
     (case item of
        AttrUid _ \<Rightarrow> metadata_items items sz str
      | AttrSize v \<Rightarrow> if sz = None then metadata_items items (Some v) str else Inl ImapProtocol
      | AttrStructure v \<Rightarrow> if str = None then metadata_items items sz (Some v) else Inl ImapProtocol
      | _ \<Rightarrow> Inl ImapProtocol)"

definition fetch_metadata :: "AttributeValue list \<Rightarrow> (u32 \<times> BodyStructure) imap" where
  "fetch_metadata items =
     (if length items \<noteq> 3 then Inl ImapProtocol
      else and_then (metadata_items items None None) (\<lambda>(sz, str).
        and_then (ok_or ImapProtocol sz) (\<lambda>sz.
        and_then (ok_or ImapProtocol str) (\<lambda>str. Inr (sz, str)))))"

definition section_returned :: "Section option \<Rightarrow> SectionPath option \<Rightarrow> bool" where
  "section_returned expected returned =
     (case (expected, returned) of
        (None, None) \<Rightarrow> True | (Some e, Some r) \<Rightarrow> section_matches e r | _ \<Rightarrow> False)"

fun data_items :: "Section option \<Rightarrow> u32 \<Rightarrow> u32 \<Rightarrow> AttributeValue list \<Rightarrow> bytes option \<Rightarrow> bytes option imap" where
  "data_items section offset cnt [] found = Inr found"
| "data_items section offset cnt (item # items) found =
     (case item of
        AttrUid _ \<Rightarrow> data_items section offset cnt items found
      | AttrSection returned index (Some v) \<Rightarrow>
          if found = None \<and> section_returned section returned \<and> index = Some offset \<and> length v \<le> unat cnt
          then data_items section offset cnt items (Some v) else Inl ImapProtocol
      | _ \<Rightarrow> Inl ImapProtocol)"

fun fetch_data :: "Fetch \<Rightarrow> AttributeValue list \<Rightarrow> bytes imap" where
  "fetch_data (FetchMetadata uid) items = Inl ImapInvalidInput"
| "fetch_data (FetchBytes uid section offset cnt) items =
     (if length items \<noteq> 2 then Inl ImapProtocol
      else and_then (data_items section offset cnt items None) (ok_or ImapProtocol))"

fun single_uid :: "AttributeValue list \<Rightarrow> u32 option \<Rightarrow> u32 option imap" where
  "single_uid [] uid = Inr uid"
| "single_uid (AttrUid v # items) uid = (if uid \<noteq> None then Inl ImapProtocol else single_uid items (Some v))"
| "single_uid (_ # items) uid = single_uid items uid"

definition fetch_validate :: "Fetch \<Rightarrow> AttributeValue list \<Rightarrow> unit imap" where
  "fetch_validate f items =
     and_then (single_uid items None) (\<lambda>uid.
       if uid \<noteq> Some (fetch_uid f) \<or> fetch_uid f = 0 then Inl ImapProtocol
       else case f of
           FetchMetadata _ \<Rightarrow> and_then (fetch_metadata items) (\<lambda>_. Inr ())
         | FetchBytes _ _ _ _ \<Rightarrow> and_then (fetch_data f items) (\<lambda>_. Inr ()))"

definition fetch_query :: "Fetch \<Rightarrow> string" where
  "fetch_query f =
     (case f of
        FetchMetadata _ \<Rightarrow> ''UID RFC822.SIZE BODYSTRUCTURE''
      | FetchBytes _ section offset cnt \<Rightarrow>
          ''UID BODY.PEEK['' @ (case section of None \<Rightarrow> [] | Some s \<Rightarrow> section_name s) @ '']<'' @ show_nat (unat offset)
            @ ''.'' @ show_nat (unat cnt) @ ''>'')"

definition fetch_command :: "Fetch \<Rightarrow> string" where
  "fetch_command f = ''UID FETCH '' @ show_nat (unat (fetch_uid f)) @ '' ('' @ fetch_query f @ '')''"

section \<open>What a valid answer says\<close>

lemma data_items_Some: "data_items section offset cnt items (Some v) = Inr found \<Longrightarrow> found = Some v"
  by (induction items) (auto split: AttributeValue.splits option.splits)

lemma data_items_Inr:
  "data_items section offset cnt items None = Inr (Some v) \<Longrightarrow>
     \<exists>returned. AttrSection returned (Some offset) (Some v) \<in> set items \<and> section_returned section returned \<and> length v \<le> unat cnt"
  by (induction items) (auto split: AttributeValue.splits option.splits if_splits dest: data_items_Some)

text \<open>Accepted data is the data of the section and offset asked for, and no longer than asked.\<close>

lemma fetch_data_Inr:
  assumes "fetch_data f items = Inr v"
  shows "length v \<le> unat (fetch_count f) \<and> (\<exists>returned. AttrSection returned (Some (fetch_offset f)) (Some v) \<in> set items
    \<and> section_returned (fetch_section f) returned)"
proof (cases f)
  case (FetchBytes uid sec offset cnt)
  with assms have "data_items sec offset cnt items None = Inr (Some v)"
    by (auto simp: and_then_def ok_or_def split: if_splits sum.splits option.splits)
  with data_items_Inr [OF this] show ?thesis by (auto simp: FetchBytes)
qed (use assms in \<open>simp\<close>)

lemma single_uid_Some: "single_uid items (Some v) = Inr u \<Longrightarrow> u = Some v"
  by (induction items "Some v" rule: single_uid.induct) auto

end
