(* ===== verification/Criteria.thy ===== *)
theory Criteria
  imports Domain "HOL-Library.Product_Lexorder"
begin

text \<open>
  Typed AND-only search criteria and message metadata (\<open>src/src/domain/search.rs\<close>). The
  calendar of \<open>chrono\<close> is a parameter where a date is parsed.
\<close>

section \<open>Dates, flags and predicates\<close>

datatype SearchDate = SearchDate (date_str: string)

text \<open>The byte syntax \<open>dddd-dd-dd\<close> that \<open>SearchDate::try_from\<close> checks first.\<close>

definition date_syntax :: "string \<Rightarrow> bool" where
  "date_syntax v =
     (length v = 10
      \<and> list_all (\<lambda>(i, b). if i = 4 \<or> i = 7 then b = CHR ''-'' else is_ascii_digit b)
          (enumerate 0 v))"

text \<open>\<open>year\<close> is the calendar's year of a date text, \<open>None\<close> for a day that does not exist.\<close>

definition search_date_try_from :: "(string \<Rightarrow> int option) \<Rightarrow> string \<Rightarrow> SearchDate result" where
  "search_date_try_from year v =
     (if \<not> date_syntax v then Inl (error_new InvalidRequest)
      else and_then (ok_or (error_new InvalidRequest) (year v)) (\<lambda>y.
        if \<not> (1 \<le> y \<and> y \<le> 9999) then Inl (error_new InvalidRequest) else Inr (SearchDate v)))"

datatype StandardFlag = Answered | Deleted | Draft | Flagged | Recent | Seen

fun imap_name :: "StandardFlag \<Rightarrow> string" where
  "imap_name Answered = CHR 0x5C # ''Answered''"
| "imap_name Deleted = CHR 0x5C # ''Deleted''"
| "imap_name Draft = CHR 0x5C # ''Draft''"
| "imap_name Flagged = CHR 0x5C # ''Flagged''"
| "imap_name Recent = CHR 0x5C # ''Recent''"
| "imap_name Seen = CHR 0x5C # ''Seen''"

datatype SearchPredicate =
    ReceivedAfter SearchDate | ReceivedBefore SearchDate
  | SentAfter SearchDate | SentBefore SearchDate
  | FromText string | ToText string | CcText string | BccText string
  | SubjectText string | BodyText string
  | RequiredFlag StandardFlag | ForbiddenFlag StandardFlag

text \<open>
  The derived \<open>Ord\<close>: first the variant's position, then its payload (bytes of a string,
  position of a flag).
\<close>

fun flag_index :: "StandardFlag \<Rightarrow> nat" where
  "flag_index Answered = 0"
| "flag_index Deleted = 1"
| "flag_index Draft = 2"
| "flag_index Flagged = 3"
| "flag_index Recent = 4"
| "flag_index Seen = 5"

fun predicate_key :: "SearchPredicate \<Rightarrow> nat \<times> string \<times> nat" where
  "predicate_key (ReceivedAfter d) = (0, date_str d, 0)"
| "predicate_key (ReceivedBefore d) = (1, date_str d, 0)"
| "predicate_key (SentAfter d) = (2, date_str d, 0)"
| "predicate_key (SentBefore d) = (3, date_str d, 0)"
| "predicate_key (FromText v) = (4, v, 0)"
| "predicate_key (ToText v) = (5, v, 0)"
| "predicate_key (CcText v) = (6, v, 0)"
| "predicate_key (BccText v) = (7, v, 0)"
| "predicate_key (SubjectText v) = (8, v, 0)"
| "predicate_key (BodyText v) = (9, v, 0)"
| "predicate_key (RequiredFlag f) = (10, [], flag_index f)"
| "predicate_key (ForbiddenFlag f) = (11, [], flag_index f)"

lemma flag_index_inject: "flag_index f = flag_index g \<Longrightarrow> f = g"
  by (cases f; cases g) simp_all

lemma predicate_key_inject: "predicate_key p = predicate_key q \<Longrightarrow> p = q"
  by (cases p; cases q) (auto intro: SearchDate.expand dest: flag_index_inject)

instantiation SearchPredicate :: linorder
begin

definition less_eq_SearchPredicate :: "SearchPredicate \<Rightarrow> SearchPredicate \<Rightarrow> bool" where
  "less_eq_SearchPredicate p q \<longleftrightarrow> predicate_key p \<le> predicate_key q"

definition less_SearchPredicate :: "SearchPredicate \<Rightarrow> SearchPredicate \<Rightarrow> bool" where
  "less_SearchPredicate p q \<longleftrightarrow> predicate_key p < predicate_key q"

instance
  by standard
    (auto simp: less_eq_SearchPredicate_def less_SearchPredicate_def intro: predicate_key_inject)

end

section \<open>Criteria\<close>

type_synonym SearchCriteria = "SearchPredicate list"

definition valid_search_text :: "string \<Rightarrow> bool" where
  "valid_search_text v = (length v \<le> 4096 \<and> CHR 0x00 \<notin> set v)"

text \<open>
  The state of the loop in \<open>SearchCriteria::try_from\<close>: the required and forbidden flags,
  and the latest lower and earliest upper bound of the received and of the sent date.
\<close>

record criteria_scan =
  required :: "StandardFlag set"
  forbidden :: "StandardFlag set"
  after_received :: "string option"
  after_sent :: "string option"
  before_received :: "string option"
  before_sent :: "string option"

definition latest :: "string option \<Rightarrow> SearchDate \<Rightarrow> string option" where
  "latest old d = Some (case old of None \<Rightarrow> date_str d | Some o' \<Rightarrow> max o' (date_str d))"

definition earliest :: "string option \<Rightarrow> SearchDate \<Rightarrow> string option" where
  "earliest old d = Some (case old of None \<Rightarrow> date_str d | Some o' \<Rightarrow> min o' (date_str d))"

definition text_step :: "criteria_scan \<Rightarrow> string \<Rightarrow> criteria_scan result" where
  "text_step s v = (if \<not> valid_search_text v then Inl (error_new InvalidRequest) else Inr s)"

fun criteria_step :: "criteria_scan \<Rightarrow> SearchPredicate \<Rightarrow> criteria_scan result" where
  "criteria_step s (FromText v) = text_step s v"
| "criteria_step s (ToText v) = text_step s v"
| "criteria_step s (CcText v) = text_step s v"
| "criteria_step s (BccText v) = text_step s v"
| "criteria_step s (SubjectText v) = text_step s v"
| "criteria_step s (BodyText v) = text_step s v"
| "criteria_step s (RequiredFlag f) = Inr (s\<lparr>required := insert f (required s)\<rparr>)"
| "criteria_step s (ForbiddenFlag f) = Inr (s\<lparr>forbidden := insert f (forbidden s)\<rparr>)"
| "criteria_step s (ReceivedAfter d) = Inr (s\<lparr>after_received := latest (after_received s) d\<rparr>)"
| "criteria_step s (SentAfter d) = Inr (s\<lparr>after_sent := latest (after_sent s) d\<rparr>)"
| "criteria_step s (ReceivedBefore d) = Inr (s\<lparr>before_received := earliest (before_received s) d\<rparr>)"
| "criteria_step s (SentBefore d) = Inr (s\<lparr>before_sent := earliest (before_sent s) d\<rparr>)"

definition empty_window :: "string option \<Rightarrow> string option \<Rightarrow> bool" where
  "empty_window after before =
     (case (after, before) of (Some a, Some b) \<Rightarrow> a \<ge> b | _ \<Rightarrow> False)"

definition criteria_try_from :: "SearchPredicate list \<Rightarrow> SearchCriteria result" where
  "criteria_try_from ps =
     (if length ps > 32 then Inl (error_new InvalidRequest)
      else and_then
        (try_fold criteria_step
          \<lparr>required = {}, forbidden = {}, after_received = None, after_sent = None,
           before_received = None, before_sent = None\<rparr> ps) (\<lambda>s.
        if required s \<inter> forbidden s \<noteq> {}
           \<or> empty_window (after_received s) (before_received s)
           \<or> empty_window (after_sent s) (before_sent s)
        then Inl (error_new InvalidRequest)
        else Inr (sort ps)))"

section \<open>Message metadata\<close>

datatype 'a Metadata = Present 'a | Missing | Malformed

fun metadata_value :: "'a Metadata \<Rightarrow> 'a option" where
  "metadata_value (Present v) = Some v"
| "metadata_value Missing = None"
| "metadata_value Malformed = None"

record MessageAddress =
  addr_name :: "string option"
  addr_address :: string

record MessageMetadata =
  md_subject :: "string Metadata"
  md_from :: "MessageAddress list Metadata"
  md_to :: "MessageAddress list Metadata"
  md_cc :: "MessageAddress list Metadata"
  md_received_date :: string
  md_sent_date :: "string Metadata"
  md_flags :: "string list"
  md_message_id :: "string Metadata"
  md_size :: u32

section \<open>Criteria that no message can satisfy are refused\<close>

lemma criteria_step_required:
  "criteria_step s p = Inr t \<Longrightarrow> required t = required s \<union> {f. p = RequiredFlag f}"
  by (cases p) (auto simp: text_step_def split: if_splits)

lemma criteria_step_forbidden:
  "criteria_step s p = Inr t \<Longrightarrow> forbidden t = forbidden s \<union> {f. p = ForbiddenFlag f}"
  by (cases p) (auto simp: text_step_def split: if_splits)

lemma criteria_fold_flags:
  "try_fold criteria_step s ps = Inr t \<Longrightarrow>
     required t = required s \<union> {f. RequiredFlag f \<in> set ps}
     \<and> forbidden t = forbidden s \<union> {f. ForbiddenFlag f \<in> set ps}"
proof (induction ps arbitrary: s)
  case (Cons p ps)
  then obtain s' where "criteria_step s p = Inr s'" "try_fold criteria_step s' ps = Inr t"
    by auto
  then show ?case
    using Cons.IH criteria_step_required [of s p s'] criteria_step_forbidden [of s p s'] by auto
qed simp

text \<open>The bounds the scan keeps are met by every date that meets all the predicates.\<close>

definition within_after :: "string option \<Rightarrow> string \<Rightarrow> bool" where
  "within_after a x = (case a of None \<Rightarrow> True | Some b \<Rightarrow> b \<le> x)"

definition within_before :: "string option \<Rightarrow> string \<Rightarrow> bool" where
  "within_before a x = (case a of None \<Rightarrow> True | Some b \<Rightarrow> x < b)"

lemma within_latest [simp]: "within_after (latest a d) x \<longleftrightarrow> within_after a x \<and> date_str d \<le> x"
  by (auto simp: within_after_def latest_def split: option.splits)

lemma within_earliest [simp]: "within_before (earliest a d) x \<longleftrightarrow> within_before a x \<and> x < date_str d"
  by (auto simp: within_before_def earliest_def split: option.splits)

lemma criteria_step_dates:
  "criteria_step s p = Inr t \<Longrightarrow>
     (within_after (after_received t) x \<longleftrightarrow>
        within_after (after_received s) x \<and> (\<forall>d. p = ReceivedAfter d \<longrightarrow> date_str d \<le> x))
     \<and> (within_before (before_received t) x \<longleftrightarrow>
        within_before (before_received s) x \<and> (\<forall>d. p = ReceivedBefore d \<longrightarrow> x < date_str d))"
  by (cases p) (auto simp: text_step_def split: if_splits)

lemma criteria_fold_dates:
  "try_fold criteria_step s ps = Inr t \<Longrightarrow>
     (within_after (after_received t) x \<longleftrightarrow>
        within_after (after_received s) x \<and> (\<forall>d. ReceivedAfter d \<in> set ps \<longrightarrow> date_str d \<le> x))
     \<and> (within_before (before_received t) x \<longleftrightarrow>
        within_before (before_received s) x \<and> (\<forall>d. ReceivedBefore d \<in> set ps \<longrightarrow> x < date_str d))"
proof (induction ps arbitrary: s)
  case (Cons p ps)
  then obtain s' where s': "criteria_step s p = Inr s'" "try_fold criteria_step s' ps = Inr t"
    by auto
  show ?case
    using Cons.IH [OF s'(2)] criteria_step_dates [OF s'(1), of x] by auto
qed simp

lemma empty_window_iff:
  "\<not> empty_window a b \<longleftrightarrow> a = None \<or> b = None \<or> (\<exists>x. within_after a x \<and> within_before b x)"
  by (cases a; cases b) (auto simp: empty_window_def within_after_def within_before_def)

text \<open>Accepted criteria are the given predicates in canonical order.\<close>

lemma criteria_try_from_sorted:
  assumes "criteria_try_from ps = Inr cs"
  shows "sorted cs \<and> mset cs = mset ps \<and> length cs \<le> 32"
  using assms by (auto simp: criteria_try_from_def split: if_splits)

text \<open>Two spellings of the same predicates are canonicalized to the same criteria.\<close>

lemma criteria_canonical:
  assumes "criteria_try_from ps = Inr cs" and "criteria_try_from qs = Inr ds" and "mset ps = mset qs"
  shows "cs = ds"
proof -
  have "sort ps = sort qs"
    using assms(3) by (metis properties_for_sort sorted_sort mset_sort)
  with assms(1,2) show ?thesis
    by (auto simp: criteria_try_from_def split: if_splits)
qed

end
