(* ===== verification/Search.thy ===== *)
theory Search
  imports Limits Criteria
begin

text \<open>
  Bounded descending-UID traversal (\<open>src/src/search.rs\<close>) and the in-memory message adapter that
  implements its provider interface (\<open>src/src/service/search/memory.rs\<close>). The trait
  \<open>SelectedMailbox\<close> is a record of its methods over an explicit provider state, so a provider
  may change between two calls and may answer anything.
\<close>

section \<open>Positions, requests and providers\<close>

record SearchPosition =
  pos_uid_validity :: u32
  pos_upper_uid :: u32
  pos_next_uid :: u32
  pos_fuzzy :: bool

record SearchRequest =
  req_mailbox :: string
  req_criteria :: SearchCriteria
  req_fuzzy :: bool
  req_position :: "SearchPosition option"
  req_limit :: nat
  req_response_bytes :: nat

record LocatedMessage =
  row_uid :: u32
  row_metadata :: MessageMetadata

record SearchBatch =
  batch_position :: SearchPosition
  batch_messages :: "LocatedMessage list"

record 's SelectedMailbox =
  sel_uid_validity :: "'s \<Rightarrow> u32"
  sel_fuzzy :: "'s \<Rightarrow> bool"
  sel_upper_uid :: "'s \<Rightarrow> u32 result \<times> 's"
  sel_matches :: "'s \<Rightarrow> u32 \<Rightarrow> u32 \<Rightarrow> SearchCriteria \<Rightarrow> u32 list result \<times> 's"
  sel_fetch :: "'s \<Rightarrow> u32 list \<Rightarrow> LocatedMessage list result \<times> 's"

section \<open>One window\<close>

definition window_first :: "nat \<Rightarrow> u32 \<Rightarrow> u32" where
  "window_first window upto_uid = max (saturating_sub upto_uid (of_nat window - 1)) 1"

text \<open>
  The provider's answer for one window is checked, put in descending order and cut to the
  rows still wanted; the next window starts below the last UID consumed.
\<close>

definition plan_window :: "nat \<Rightarrow> u32 \<Rightarrow> u32 \<Rightarrow> nat \<Rightarrow> u32 list \<Rightarrow> (u32 list \<times> u32) result" where
  "plan_window window from_uid upto_uid wanted uids =
     (if length uids > window \<or> (\<exists>u \<in> set uids. \<not> (from_uid \<le> u \<and> u \<le> upto_uid))
      then Inl (error_new ProviderUnavailable)
      else let uids = sort_desc uids in
        if adjacent_equal uids then Inl (error_new ProviderUnavailable)
        else Inr (take wanted uids,
                  if length uids > wanted then uids ! (wanted - 1) - 1 else from_uid - 1))"

text \<open>
  Fetched rows are sorted by descending UID; \<open>binary_search_by\<close> in the descending list
  \<open>uids\<close> decides membership.
\<close>

definition check_rows :: "u32 list \<Rightarrow> LocatedMessage list \<Rightarrow> LocatedMessage list result" where
  "check_rows uids rows =
     (let rows = rev (sort_key row_uid rows) in
      if length rows > length uids \<or> adjacent_equal (map row_uid rows)
         \<or> (\<exists>r \<in> set rows. row_uid r \<notin> set uids)
      then Inl (error_new ProviderUnavailable) else Inr rows)"

definition push_row ::
  "(MessageMetadata \<Rightarrow> serialization) \<Rightarrow> OutputBudget \<times> LocatedMessage list
   \<Rightarrow> LocatedMessage \<Rightarrow> (OutputBudget \<times> LocatedMessage list) result" where
  "push_row ser bm r =
     and_then (budget_count (fst bm) (ser (row_metadata r))) (\<lambda>b.
     and_then (reserve b 1024) (\<lambda>b. Inr (b, snd bm @ [r])))"

section \<open>One page\<close>

text \<open>The state of the loop: the position, the output budget and the rows so far.\<close>

record page_state =
  ps_position :: SearchPosition
  ps_budget :: OutputBudget
  ps_messages :: "LocatedMessage list"

definition window_step ::
  "'s SelectedMailbox \<Rightarrow> (MessageMetadata \<Rightarrow> serialization) \<Rightarrow> SearchRequest \<Rightarrow> Limits
   \<Rightarrow> page_state \<Rightarrow> 's \<Rightarrow> page_state result \<times> 's" where
  "window_step sel ser req l ps s =
     (let upto_uid = pos_next_uid (ps_position ps);
          from_uid = window_first (l_search_uid_window l) upto_uid in
      case sel_matches sel s from_uid upto_uid (req_criteria req) of
        (Inl e, s) \<Rightarrow> (Inl e, s)
      | (Inr uids, s) \<Rightarrow>
          (case plan_window (l_search_uid_window l) from_uid upto_uid
                  (req_limit req - length (ps_messages ps)) uids of
             Inl e \<Rightarrow> (Inl e, s)
           | Inr (uids, next_uid) \<Rightarrow>
               let ps = ps\<lparr>ps_position := (ps_position ps)\<lparr>pos_next_uid := next_uid\<rparr>\<rparr> in
               if uids = [] then (Inr ps, s)
               else case sel_fetch sel s uids of
                 (Inl e, s) \<Rightarrow> (Inl e, s)
               | (Inr rows, s) \<Rightarrow>
                   (and_then (check_rows uids rows) (\<lambda>rows.
                    and_then (try_fold (push_row ser) (ps_budget ps, ps_messages ps) rows) (\<lambda>(b, msgs).
                      Inr (ps\<lparr>ps_budget := b, ps_messages := msgs\<rparr>))), s)))"

fun page_loop ::
  "'s SelectedMailbox \<Rightarrow> (MessageMetadata \<Rightarrow> serialization) \<Rightarrow> SearchRequest \<Rightarrow> Limits \<Rightarrow> nat
   \<Rightarrow> page_state \<Rightarrow> 's \<Rightarrow> SearchBatch result \<times> 's" where
  "page_loop sel ser req l 0 ps s =
     (Inr \<lparr>batch_position = ps_position ps, batch_messages = ps_messages ps\<rparr>, s)"
| "page_loop sel ser req l (Suc windows) ps s =
     (if pos_next_uid (ps_position ps) = 0 \<or> length (ps_messages ps) = req_limit req
      then (Inr \<lparr>batch_position = ps_position ps, batch_messages = ps_messages ps\<rparr>, s)
      else case window_step sel ser req l ps s of
        (Inl e, s) \<Rightarrow> (Inl e, s)
      | (Inr ps, s) \<Rightarrow> page_loop sel ser req l windows ps s)"

definition start_position ::
  "'s SelectedMailbox \<Rightarrow> 's \<Rightarrow> SearchPosition option \<Rightarrow> SearchPosition result \<times> 's" where
  "start_position sel s p =
     (case p of
        Some p \<Rightarrow>
          (if pos_uid_validity p \<noteq> sel_uid_validity sel s \<or> pos_fuzzy p \<noteq> sel_fuzzy sel s
           then (Inl (error_new StaleCursor), s) else (Inr p, s))
      | None \<Rightarrow>
          (case sel_upper_uid sel s of
             (Inl e, s') \<Rightarrow> (Inl e, s')
           | (Inr upper, s') \<Rightarrow>
               (Inr \<lparr>pos_uid_validity = sel_uid_validity sel s, pos_upper_uid = upper,
                     pos_next_uid = upper, pos_fuzzy = sel_fuzzy sel s'\<rparr>, s')))"

definition page ::
  "'s SelectedMailbox \<Rightarrow> (MessageMetadata \<Rightarrow> serialization) \<Rightarrow> SearchRequest \<Rightarrow> Limits
   \<Rightarrow> 's \<Rightarrow> SearchBatch result \<times> 's" where
  "page sel ser req l s =
     (case limits_validate l of Inl e \<Rightarrow> (Inl e, s) | Inr _ \<Rightarrow>
      if req_limit req = 0 \<or> req_limit req > l_search_page l
      then (Inl (error_new InvalidRequest), s)
      else if sel_uid_validity sel s = 0 then (Inl (error_new ProviderUnavailable), s)
      else case start_position sel s (req_position req) of
        (Inl e, s) \<Rightarrow> (Inl e, s)
      | (Inr pos, s) \<Rightarrow>
          page_loop sel ser req l (l_search_windows l)
            \<lparr>ps_position = pos, ps_budget = output_budget_new (req_response_bytes req),
             ps_messages = []\<rparr> s)"

section \<open>What any provider can make a page return\<close>

lemma unat_window_minus:
  "0 < w \<Longrightarrow> w \<le> 10000 \<Longrightarrow> unat (of_nat w - 1 :: u32) = w - 1"
proof -
  assume w: "0 < w" "w \<le> 10000"
  then have eq: "of_nat w - 1 = (of_nat (w - 1) :: u32)"
    by (simp add: of_nat_diff)
  have "unat (of_nat (w - 1) :: u32) = w - 1"
    using w by (subst unat_of_nat) simp
  then show ?thesis
    by (simp only: eq)
qed

lemma window_first_bounds:
  assumes "0 < w" "w \<le> 10000" "upto_uid \<noteq> 0"
  shows "1 \<le> window_first w upto_uid" "window_first w upto_uid \<le> upto_uid"
    and "unat upto_uid - unat (window_first w upto_uid) < w"
proof -
  have u: "unat (saturating_sub upto_uid (of_nat w - 1)) = unat upto_uid - (w - 1)"
    using assms by (simp add: unat_window_minus)
  have pos: "1 \<le> unat upto_uid"
    using assms(3) by (simp add: Suc_le_eq unat_gt_0)
  show "1 \<le> window_first w upto_uid"
    by (simp add: window_first_def)
  show "window_first w upto_uid \<le> upto_uid"
    using u pos by (simp add: window_first_def max_def word_le_nat_alt)
  show "unat upto_uid - unat (window_first w upto_uid) < w"
    using u pos assms(1) by (auto simp: window_first_def max_def word_le_nat_alt)
qed

lemma unat_minus_one_u32: "(x :: u32) \<noteq> 0 \<Longrightarrow> unat (x - 1) = unat x - 1"
  by (simp add: unat_minus_one)

lemma less_minus_one_u32: "(x :: u32) \<noteq> 0 \<Longrightarrow> y \<le> x - 1 \<longleftrightarrow> y < x"
  using unat_minus_one_u32 [of x] unat_gt_0 [of x]
  by (auto simp: word_le_nat_alt word_less_nat_alt)

text \<open>
  A planned window: its rows are the largest UIDs the provider reported, and what lies above
  the new position is exactly what was taken.
\<close>

lemma plan_window_Inr:
  assumes "plan_window w from_uid upto_uid n uids = Inr (taken, next_uid)"
    and "1 \<le> from_uid" "from_uid \<le> upto_uid" "0 < n"
  shows "sorted_wrt (>) taken" "set taken = {u \<in> set uids. next_uid < u}"
    and "length taken \<le> n" "\<forall>u \<in> set uids. from_uid \<le> u \<and> u \<le> upto_uid"
    and "next_uid < upto_uid" "from_uid - 1 \<le> next_uid" "distinct uids"
    and "taken = sort_desc (filter (\<lambda>u. next_uid < u) uids)"
proof -
  let ?us = "sort_desc uids"
  from assms(1) have range: "\<forall>u \<in> set uids. from_uid \<le> u \<and> u \<le> upto_uid"
    and ne: "\<not> adjacent_equal ?us" and taken: "taken = take n ?us"
    and nxt: "next_uid = (if length uids > n then ?us ! (n - 1) - 1 else from_uid - 1)"
    by (auto simp: plan_window_def Let_def split: if_splits)
  have sorted: "sorted_wrt (>) ?us"
    using sorted_sort_desc ne by (rule adjacent_equal_sorted)
  then have dist: "distinct uids"
    using sorted_desc_distinct by fastforce
  have nz: "u \<noteq> 0" if "u \<in> set uids" for u
    using range that assms(2) by (auto simp: word_le_nat_alt)
  have split: "set taken = {u \<in> set uids. next_uid < u} \<and> next_uid < upto_uid \<and> from_uid - 1 \<le> next_uid"
  proof (cases "length uids > n")
    case True
    let ?x = "?us ! (n - 1)"
    have x: "?x \<in> set uids"
      using True assms(4) by (metis Suc_diff_1 Suc_lessD length_sort_desc nth_mem set_sort_desc)
    have next_x: "next_uid < u \<longleftrightarrow> ?x \<le> u" for u
      using less_minus_one_u32 [OF nz [OF x], of u] nxt True by (auto simp: not_le [symmetric])
    have "set taken = {u \<in> set uids. next_uid < u}"
      using set_take_desc [OF sorted, of n] True assms(4) taken next_x by simp
    moreover have "from_uid \<noteq> 0"
      using assms(2) by (auto simp: word_le_nat_alt)
    then have "next_uid < upto_uid" "from_uid - 1 \<le> next_uid"
      using next_x range x nz [OF x] nxt True
      by (auto simp: word_le_nat_alt word_less_nat_alt unat_minus_one_u32 unat_minus_one)
    ultimately show ?thesis by simp
  next
    case False
    have "from_uid \<noteq> 0"
      using assms(2) by (auto simp: word_le_nat_alt)
    then have "next_uid < u \<longleftrightarrow> from_uid \<le> u" for u
      using less_minus_one_u32 [of from_uid u] nxt False by (auto simp: not_le [symmetric])
    with False taken nxt range assms(3) show ?thesis by auto
  qed
  then show "set taken = {u \<in> set uids. next_uid < u}" "next_uid < upto_uid" "from_uid - 1 \<le> next_uid"
    by simp_all
  show "sorted_wrt (>) taken"
    using sorted taken by (simp add: sorted_wrt_take)
  then show "taken = sort_desc (filter (\<lambda>u. next_uid < u) uids)"
  proof (rule sort_desc_unique)
    have "distinct (sort_desc (filter (\<lambda>u. next_uid < u) uids))"
      using dist by simp
    then show "sorted_wrt (>) (sort_desc (filter (\<lambda>u. next_uid < u) uids))"
      by (intro adjacent_equal_sorted sorted_sort_desc not_adjacent_equal_distinct)
    show "set taken = set (sort_desc (filter (\<lambda>u. next_uid < u) uids))"
      using split by auto
  qed
  show "length taken \<le> n" "\<forall>u \<in> set uids. from_uid \<le> u \<and> u \<le> upto_uid" "distinct uids"
    using taken range dist by simp_all
qed

lemma check_rows_Inr:
  assumes "check_rows uids rows = Inr rs"
  shows "sorted_wrt (>) (map row_uid rs)" "row_uid ` set rs \<subseteq> set uids" "length rs \<le> length uids"
    and "set rs = set rows" "length rs = length rows"
proof -
  from assms have rs: "rs = rev (sort_key row_uid rows)" "\<not> adjacent_equal (map row_uid rs)"
    "length rs \<le> length uids" "row_uid ` set rs \<subseteq> set uids"
    by (auto simp: check_rows_def Let_def split: if_splits)
  have "sorted_wrt (\<ge>) (map row_uid rs)"
    using sorted_sort_key [of row_uid rows] by (simp add: rs(1) rev_map [symmetric] sorted_wrt_rev)
  with rs show "sorted_wrt (>) (map row_uid rs)"
    by (simp add: adjacent_equal_sorted)
  show "row_uid ` set rs \<subseteq> set uids" "length rs \<le> length uids"
    "set rs = set rows" "length rs = length rows"
    using rs by simp_all
qed

lemma push_row_Inr: "push_row ser bm r = Inr bm' \<Longrightarrow> snd bm' = snd bm @ [r]"
  by (auto simp: push_row_def)

lemma push_rows_Inr: "try_fold (push_row ser) bm rows = Inr bm' \<Longrightarrow> snd bm' = snd bm @ rows"
  by (induction rows arbitrary: bm) (auto dest: push_row_Inr)

text \<open>
  What one window adds: rows between the new and the old position, in order, and the position
  strictly decreases.
\<close>

definition page_progress :: "page_state \<Rightarrow> page_state \<Rightarrow> LocatedMessage list \<Rightarrow> bool" where
  "page_progress ps ps' new \<longleftrightarrow>
     ps_messages ps' = ps_messages ps @ new
     \<and> (\<exists>n \<le> pos_next_uid (ps_position ps). ps_position ps' = (ps_position ps)\<lparr>pos_next_uid := n\<rparr>
        \<and> (\<forall>m \<in> set new. n < row_uid m \<and> row_uid m \<le> pos_next_uid (ps_position ps)))
     \<and> sorted_wrt (>) (map row_uid new)"

lemma window_step_Inr:
  assumes "window_step sel ser req l ps s = (Inr ps', s')"
    and l: "limits_valid l" and nz: "pos_next_uid (ps_position ps) \<noteq> 0"
    and room: "length (ps_messages ps) < req_limit req"
  obtains new where "page_progress ps ps' new"
    and "pos_next_uid (ps_position ps') < pos_next_uid (ps_position ps)"
    and "length (ps_messages ps') \<le> req_limit req"
proof -
  let ?hi = "pos_next_uid (ps_position ps)" and ?w = "l_search_uid_window l"
  let ?lo = "window_first ?w ?hi" and ?n = "req_limit req - length (ps_messages ps)"
  note bounds = window_first_bounds [OF limits_valid_fields(3,4) [OF l] nz]
  from assms(1) obtain uids s1 taken n where
    plan: "plan_window ?w ?lo ?hi ?n uids = Inr (taken, n)"
    and pos: "ps_position ps' = (ps_position ps)\<lparr>pos_next_uid := n\<rparr>"
    and rest: "taken = [] \<and> ps_messages ps' = ps_messages ps \<or>
      (\<exists>rows rs b. check_rows taken rows = Inr rs
         \<and> try_fold (push_row ser) (ps_budget ps, ps_messages ps) rs = Inr (b, ps_messages ps'))"
    by (auto simp: window_step_def Let_def split: prod.splits sum.splits if_splits) blast
  note planned = plan_window_Inr [OF plan bounds(1,2)]
  have "0 < ?n" using room by simp
  note planned = planned [OF this]
  from rest obtain new where new: "ps_messages ps' = ps_messages ps @ new"
    "row_uid ` set new \<subseteq> set taken" "length new \<le> length taken" "sorted_wrt (>) (map row_uid new)"
  proof (elim disjE exE conjE)
    fix rows rs b
    assume c: "check_rows taken rows = Inr rs"
      and p: "try_fold (push_row ser) (ps_budget ps, ps_messages ps) rs = Inr (b, ps_messages ps')"
    show thesis
      by (rule that [of rs]) (use check_rows_Inr [OF c] push_rows_Inr [OF p] in auto)
  qed (use that [of "[]"] in simp)
  have "page_progress ps ps' new"
    unfolding page_progress_def
    using new pos planned(2,4,5) by (auto intro!: exI [of _ n])
  moreover have "pos_next_uid (ps_position ps') < ?hi"
    using pos planned(5) by simp
  moreover have "length (ps_messages ps') \<le> req_limit req"
    using new planned(3) room by simp
  ultimately show thesis by (rule that)
qed

lemma page_progress_refl: "page_progress ps ps []"
  by (auto simp: page_progress_def intro!: exI [of _ "pos_next_uid (ps_position ps)"])

lemma page_progress_trans:
  assumes "page_progress a b xs" and "page_progress b c ys"
  shows "page_progress a c (xs @ ys)"
proof -
  from assms obtain n m where
    n: "n \<le> pos_next_uid (ps_position a)" "ps_position b = (ps_position a)\<lparr>pos_next_uid := n\<rparr>"
       "\<forall>x \<in> set xs. n < row_uid x \<and> row_uid x \<le> pos_next_uid (ps_position a)"
    and m: "m \<le> n" "ps_position c = (ps_position a)\<lparr>pos_next_uid := m\<rparr>"
       "\<forall>y \<in> set ys. m < row_uid y \<and> row_uid y \<le> n"
    by (auto simp: page_progress_def)
  have "sorted_wrt (>) (map row_uid (xs @ ys))"
    using assms n(3) m(3) by (force simp: page_progress_def sorted_wrt_append)
  moreover have "m < row_uid x \<and> row_uid x \<le> pos_next_uid (ps_position a)" if "x \<in> set (xs @ ys)" for x
    using that n(1,3) m(1,3) by force
  ultimately show ?thesis
    using assms n m unfolding page_progress_def
    by (auto intro!: exI [of _ m])
qed

lemma page_loop_Inr:
  assumes "page_loop sel ser req l windows ps s = (Inr batch, s')"
    and "limits_valid l" and "length (ps_messages ps) \<le> req_limit req"
  shows "\<exists>ps' new. page_progress ps ps' new \<and> length (ps_messages ps') \<le> req_limit req
     \<and> batch = \<lparr>batch_position = ps_position ps', batch_messages = ps_messages ps'\<rparr>
     \<and> (0 < windows \<and> pos_next_uid (ps_position ps) \<noteq> 0 \<and> length (ps_messages ps) < req_limit req
        \<longrightarrow> pos_next_uid (ps_position ps') < pos_next_uid (ps_position ps))"
  using assms
proof (induction windows arbitrary: ps s)
  case 0
  then show ?case
    using page_progress_refl [of ps] by auto
next
  case (Suc windows)
  show ?case
  proof (cases "pos_next_uid (ps_position ps) = 0 \<or> length (ps_messages ps) = req_limit req")
    case True
    with Suc.prems show ?thesis
      using page_progress_refl [of ps] by auto
  next
    case False
    with Suc.prems obtain ps1 s1 where step: "window_step sel ser req l ps s = (Inr ps1, s1)"
      and rest: "page_loop sel ser req l windows ps1 s1 = (Inr batch, s')"
      by (auto split: prod.splits sum.splits)
    from step Suc.prems(2) False Suc.prems(3) obtain new where new: "page_progress ps ps1 new"
      "pos_next_uid (ps_position ps1) < pos_next_uid (ps_position ps)"
      "length (ps_messages ps1) \<le> req_limit req"
      by (auto elim: window_step_Inr)
    from Suc.IH [OF rest Suc.prems(2) new(3)] obtain ps' new' where
      "page_progress ps1 ps' new'" "length (ps_messages ps') \<le> req_limit req"
      "batch = \<lparr>batch_position = ps_position ps', batch_messages = ps_messages ps'\<rparr>"
      by blast
    moreover from this have "pos_next_uid (ps_position ps') \<le> pos_next_uid (ps_position ps1)"
      by (auto simp: page_progress_def)
    ultimately show ?thesis
      using new page_progress_trans [of ps ps1 new ps' new'] by (auto simp del: One_nat_def)
  qed
qed

lemma start_position_Inr:
  assumes "start_position sel s p = (Inr pos, s')"
  shows "pos_uid_validity pos = sel_uid_validity sel s"
    and "p = Some q \<Longrightarrow> pos = q \<and> s' = s"
    and "p = None \<Longrightarrow> pos_next_uid pos = pos_upper_uid pos"
  using assms by (auto simp: start_position_def split: option.splits prod.splits sum.splits if_splits)

lemma page_Inr:
  assumes "page sel ser req l s = (Inr batch, s')"
  shows "limits_valid l" "0 < req_limit req" "req_limit req \<le> l_search_page l"
    and "sel_uid_validity sel s \<noteq> 0"
    and "\<exists>pos s1. start_position sel s (req_position req) = (Inr pos, s1)
      \<and> page_loop sel ser req l (l_search_windows l)
          \<lparr>ps_position = pos, ps_budget = output_budget_new (req_response_bytes req), ps_messages = []\<rparr>
          s1 = (Inr batch, s')"
  using assms
  by (auto simp: page_def limits_valid_def split: sum.splits if_splits prod.splits)

lemma page_progress_from:
  assumes "page sel ser req l s = (Inr batch, s')" and "req_position req = Some pos"
  obtains n where "batch_position batch = pos\<lparr>pos_next_uid := n\<rparr>" and "n \<le> pos_next_uid pos"
    and "pos_next_uid pos \<noteq> 0 \<Longrightarrow> n < pos_next_uid pos"
    and "\<forall>m \<in> set (batch_messages batch). n < row_uid m \<and> row_uid m \<le> pos_next_uid pos"
    and "sorted_wrt (>) (map row_uid (batch_messages batch))"
    and "length (batch_messages batch) \<le> req_limit req"
    and "pos_uid_validity pos = sel_uid_validity sel s"
proof -
  from page_Inr [OF assms(1)] assms(2) obtain p s1 where
    start: "start_position sel s (Some pos) = (Inr p, s1)" and
    loop: "page_loop sel ser req l (l_search_windows l)
      \<lparr>ps_position = p, ps_budget = output_budget_new (req_response_bytes req), ps_messages = []\<rparr>
      s1 = (Inr batch, s')"
    by auto
  have l: "limits_valid l" and limit: "0 < req_limit req" and windows: "0 < l_search_windows l"
    using page_Inr [OF assms(1)] limits_valid_fields(5) by auto
  have "p = pos" "pos_uid_validity pos = sel_uid_validity sel s"
    using start_position_Inr [OF start] by auto
  then show thesis
    using page_loop_Inr [OF loop l] limit windows
    by (intro that [of "pos_next_uid (batch_position batch)"]) (auto simp: page_progress_def)
qed

text \<open>
  whatever the provider answers, a page that succeeds is well formed. It carries at most the
  requested number of messages, in strictly descending UID order, all above the returned
  position and not above the position it resumed from; the mailbox incarnation and upper bound
  are kept; and unless the traversal was already finished the position strictly decreases, so
  every continuation makes progress.
\<close>

theorem page_safe:
  assumes "page sel ser req l s = (Inr batch, s')" and "req_position req = Some pos"
  shows "length (batch_messages batch) \<le> req_limit req
    \<and> sorted_wrt (>) (map row_uid (batch_messages batch))
    \<and> (\<forall>m \<in> set (batch_messages batch).
          pos_next_uid (batch_position batch) < row_uid m \<and> row_uid m \<le> pos_next_uid pos)
    \<and> batch_position batch = pos\<lparr>pos_next_uid := pos_next_uid (batch_position batch)\<rparr>
    \<and> pos_uid_validity pos = sel_uid_validity sel s
    \<and> (pos_next_uid pos \<noteq> 0 \<longrightarrow> pos_next_uid (batch_position batch) < pos_next_uid pos)"
  by (rule page_progress_from [OF assms]) auto

section \<open>Stable providers: nothing is lost or repeated\<close>

definition desc_upto :: "u32 set \<Rightarrow> u32 \<Rightarrow> u32 list" where
  "desc_upto M n = rev (sorted_list_of_set {u \<in> M. u \<le> n})"

lemma desc_upto_props:
  "set (desc_upto M n) = {u \<in> M. u \<le> n}" "sorted_wrt (>) (desc_upto M n)" "distinct (desc_upto M n)"
  by (simp_all add: desc_upto_def sorted_wrt_rev)

lemma desc_upto_split:
  assumes "sorted_wrt (>) xs" and "set xs = {u \<in> M. m < u \<and> u \<le> n}" and "m \<le> n"
  shows "xs @ desc_upto M m = desc_upto M n"
proof (rule sort_desc_unique)
  show "sorted_wrt (>) (xs @ desc_upto M m)"
    using assms desc_upto_props [of M m] by (force simp: sorted_wrt_append)
  show "set (xs @ desc_upto M m) = set (desc_upto M n)"
    using assms desc_upto_props by auto
qed (rule desc_upto_props)

lemma desc_upto_zero: "0 \<notin> M \<Longrightarrow> desc_upto M 0 = []"
proof -
  assume "0 \<notin> M"
  then have "{u \<in> M. u \<le> 0} = {}" by auto
  then show ?thesis by (simp add: desc_upto_def)
qed

lemma card_word_interval: "card {lo..hi :: u32} \<le> Suc (unat hi - unat lo)"
proof -
  have "card {lo..hi} = card (unat ` {lo..hi})"
    by (rule card_image [symmetric]) (auto simp: inj_on_def word_unat_eq_iff)
  also have "\<dots> \<le> card {unat lo..unat hi}"
    by (intro card_mono) (auto simp: word_le_nat_alt)
  finally show ?thesis by simp
qed

text \<open>A row costs its serialized metadata and 1024 bytes for its reference.\<close>

definition row_fits :: "(MessageMetadata \<Rightarrow> serialization) \<Rightarrow> nat \<Rightarrow> LocatedMessage \<Rightarrow> bool" where
  "row_fits ser k m \<longleftrightarrow>
     ser_finished (ser (row_metadata m)) \<and> length (emitted (ser (row_metadata m))) + 1024 \<le> k"

lemma push_row_fits:
  assumes "row_fits ser k m" and "k \<le> budget_remaining b"
  shows "\<exists>b'. push_row ser (b, ms) m = Inr (b', ms @ [m])
     \<and> budget_remaining b - k \<le> budget_remaining b'"
  using assms by (auto simp: push_row_def row_fits_def budget_count_eq reserve_iff)

lemma push_rows_fit:
  assumes "\<forall>m \<in> set rows. row_fits ser k m" and "length rows * k \<le> budget_remaining b"
  shows "\<exists>b'. try_fold (push_row ser) (b, ms) rows = Inr (b', ms @ rows)
     \<and> budget_remaining b - length rows * k \<le> budget_remaining b'"
  using assms
proof (induction rows arbitrary: b ms)
  case (Cons m rows)
  then obtain b1 where b1: "push_row ser (b, ms) m = Inr (b1, ms @ [m])"
    "budget_remaining b - k \<le> budget_remaining b1"
    using push_row_fits [of ser k m b ms] by auto
  have "length rows * k \<le> budget_remaining b1"
    using Cons.prems(2) b1(2) by simp
  with Cons.IH [of b1 "ms @ [m]"] Cons.prems(1) obtain b2 where
    "try_fold (push_row ser) (b1, ms @ [m]) rows = Inr (b2, (ms @ [m]) @ rows)"
    "budget_remaining b1 - length rows * k \<le> budget_remaining b2"
    by auto
  with b1 show ?case by auto
qed simp

text \<open>
  Following the cursor: \<open>drained sel ser req l p s msgs\<close> holds when paging from position \<open>p\<close>
  until the provider is exhausted delivers \<open>msgs\<close>.
\<close>

inductive drained ::
  "'s SelectedMailbox \<Rightarrow> (MessageMetadata \<Rightarrow> serialization) \<Rightarrow> SearchRequest \<Rightarrow> Limits
   \<Rightarrow> SearchPosition option \<Rightarrow> 's \<Rightarrow> LocatedMessage list \<Rightarrow> bool"
  for sel :: "'s SelectedMailbox" and ser req l where
  drained_last:
    "page sel ser (req\<lparr>req_position := p\<rparr>) l s = (Inr batch, s') \<Longrightarrow>
     pos_next_uid (batch_position batch) = 0 \<Longrightarrow> drained sel ser req l p s (batch_messages batch)"
| drained_more:
    "page sel ser (req\<lparr>req_position := p\<rparr>) l s = (Inr batch, s') \<Longrightarrow>
     pos_next_uid (batch_position batch) \<noteq> 0 \<Longrightarrow>
     drained sel ser req l (Some (batch_position batch)) s' rest \<Longrightarrow>
     drained sel ser req l p s (batch_messages batch @ rest)"

text \<open>
  The contract of a provider whose mailbox does not change while it is paged: it reports
  exactly the matching UIDs of every range it is asked for and returns the rows it is asked for.
\<close>

locale stable_mailbox =
  fixes sel :: "'s SelectedMailbox"
    and inv :: "'s \<Rightarrow> bool"
    and v :: u32
    and fz :: bool
    and matching :: "SearchCriteria \<Rightarrow> u32 set"
    and msg :: "u32 \<Rightarrow> LocatedMessage"
  assumes validity: "inv s \<Longrightarrow> sel_uid_validity sel s = v \<and> sel_fuzzy sel s = fz"
    and upper: "inv s \<Longrightarrow> \<exists>u s'. sel_upper_uid sel s = (Inr u, s') \<and> inv s' \<and> (\<forall>c. \<forall>m \<in> matching c. m \<le> u)"
    and matches: "inv s \<Longrightarrow> 1 \<le> lo \<Longrightarrow> lo \<le> hi \<Longrightarrow>
      \<exists>xs s'. sel_matches sel s lo hi c = (Inr xs, s') \<and> inv s' \<and> distinct xs
        \<and> set xs = {u \<in> matching c. lo \<le> u \<and> u \<le> hi}"
    and fetch: "inv s \<Longrightarrow> distinct uids \<Longrightarrow> set uids \<subseteq> matching c \<Longrightarrow>
      \<exists>rows s'. sel_fetch sel s uids = (Inr rows, s') \<and> inv s' \<and> mset rows = mset (map msg uids)"
    and msg_uid: "inv s \<Longrightarrow> u \<in> matching c \<Longrightarrow> row_uid (msg u) = u"
    and nonzero: "0 \<notin> matching c"
begin

lemma plan_complete:
  assumes "limits_valid l" and "hi \<noteq> 0" and "0 < n"
    and "distinct xs" and "set xs = {u \<in> matching c. window_first (l_search_uid_window l) hi \<le> u \<and> u \<le> hi}"
  obtains taken m where "plan_window (l_search_uid_window l) (window_first (l_search_uid_window l) hi) hi n xs
      = Inr (taken, m)"
    and "taken @ desc_upto (matching c) m = desc_upto (matching c) hi"
    and "sorted_wrt (>) taken" "set taken \<subseteq> matching c"
proof -
  let ?w = "l_search_uid_window l"
  let ?lo = "window_first ?w hi"
  note b = window_first_bounds [OF limits_valid_fields(3,4) [OF assms(1)] assms(2)]
  have "length xs = card (set xs)"
    using assms(4) by (simp add: distinct_card)
  also have "\<dots> \<le> card {?lo..hi}"
    using assms(5) by (intro card_mono) auto
  also have "\<dots> \<le> ?w"
    using card_word_interval [of ?lo hi] b(3) by simp
  finally have len: "length xs \<le> ?w" .
  have "\<not> adjacent_equal (sort_desc xs)"
    using assms(4) by (simp add: not_adjacent_equal_distinct)
  then obtain taken m where plan: "plan_window ?w ?lo hi n xs = Inr (taken, m)"
    using len assms(5) by (auto simp: plan_window_def Let_def)
  note p = plan_window_Inr [OF plan b(1,2) assms(3)]
  have below: "u \<in> set xs" if "u \<in> matching c" "m < u" "u \<le> hi" for u
  proof -
    have "?lo - 1 < u" using that(2) p(6) by simp
    moreover have "?lo \<noteq> 0"
      using b(1) by (auto simp: word_le_nat_alt)
    ultimately have "?lo \<le> u"
      using less_minus_one_u32 [of ?lo u] by (auto simp: not_le [symmetric])
    with that assms(5) show ?thesis by simp
  qed
  have "taken @ desc_upto (matching c) m = desc_upto (matching c) hi"
    using p(1,2,5) below assms(5) by (intro desc_upto_split) auto
  with plan p(1,2) assms(5) show thesis
    by (intro that [of taken m]) auto
qed

lemma rows_complete:
  assumes "mset rows = mset (map msg taken)" and "sorted_wrt (>) taken" and "set taken \<subseteq> matching c"
    and "inv s"
  shows "check_rows taken rows = Inr (map msg taken)"
proof -
  have uid: "row_uid (msg u) = u" if "u \<in> set taken" for u
    using that assms(3) msg_uid [OF assms(4)] by blast
  then have m: "map row_uid (map msg taken) = taken"
    by (simp add: map_idI)
  have set: "set rows = msg ` set taken"
    using assms(1) by (metis list.set_map set_mset_mset)
  have "sort_key row_uid rows = rev (map msg taken)"
  proof (rule sort_key_inj_key_eq)
    show "mset rows = mset (rev (map msg taken))"
      using assms(1) by simp
    show "inj_on row_uid (set rows)"
      using uid by (auto simp: inj_on_def set)
    have "map row_uid (rev (map msg taken)) = rev taken"
      by (metis m rev_map)
    then show "sorted (map row_uid (rev (map msg taken)))"
      using assms(2) by (simp add: sorted_wrt_rev) (metis (no_types, lifting) less_imp_le sorted_wrt_mono_rel)
  qed
  moreover have "\<not> adjacent_equal taken"
    using assms(2) sorted_desc_distinct not_adjacent_equal_distinct by blast
  ultimately show ?thesis
    using m uid by (auto simp: check_rows_def Let_def)
qed

text \<open>With room in the budget, a window succeeds and consumes a prefix of what is left.\<close>

definition step_room :: "(MessageMetadata \<Rightarrow> serialization) \<Rightarrow> nat \<Rightarrow> SearchRequest \<Rightarrow> page_state \<Rightarrow> bool" where
  "step_room ser k req ps \<longleftrightarrow>
     (\<forall>u \<in> matching (req_criteria req). row_fits ser k (msg u))
     \<and> length (ps_messages ps) \<le> req_limit req
     \<and> (req_limit req - length (ps_messages ps)) * k \<le> budget_remaining (ps_budget ps)"

definition consumed :: "SearchRequest \<Rightarrow> page_state \<Rightarrow> SearchPosition \<Rightarrow> LocatedMessage list \<Rightarrow> bool" where
  "consumed req ps pos msgs \<longleftrightarrow>
     (\<exists>new m. msgs = ps_messages ps @ map msg new \<and> pos = (ps_position ps)\<lparr>pos_next_uid := m\<rparr>
       \<and> set new \<subseteq> matching (req_criteria req)
       \<and> new @ desc_upto (matching (req_criteria req)) m
           = desc_upto (matching (req_criteria req)) (pos_next_uid (ps_position ps)))"

lemma consumed_refl: "consumed req ps (ps_position ps) (ps_messages ps)"
  by (auto simp: consumed_def intro!: exI [of _ "[]"] exI [of _ "pos_next_uid (ps_position ps)"])

lemma consumed_trans:
  assumes "consumed req ps (ps_position ps1) (ps_messages ps1)" and "consumed req ps1 pos msgs"
  shows "consumed req ps pos msgs"
proof -
  from assms obtain new m new' m' where
    "ps_messages ps1 = ps_messages ps @ map msg new" "ps_position ps1 = (ps_position ps)\<lparr>pos_next_uid := m\<rparr>"
    "set new \<subseteq> matching (req_criteria req)"
    "new @ desc_upto (matching (req_criteria req)) m
      = desc_upto (matching (req_criteria req)) (pos_next_uid (ps_position ps))"
    "msgs = ps_messages ps1 @ map msg new'" "pos = (ps_position ps1)\<lparr>pos_next_uid := m'\<rparr>"
    "set new' \<subseteq> matching (req_criteria req)"
    "new' @ desc_upto (matching (req_criteria req)) m' = desc_upto (matching (req_criteria req)) m"
    by (auto simp: consumed_def)
  then show ?thesis
    by (auto simp: consumed_def intro!: exI [of _ "new @ new'"] exI [of _ m'])
qed

lemma room_rows:
  assumes "step_room ser k req ps" and "set new \<subseteq> matching (req_criteria req)"
    and "length (ps_messages ps) + length new \<le> req_limit req"
  obtains b where
    "try_fold (push_row ser) (ps_budget ps, ps_messages ps) (map msg new)
       = Inr (b, ps_messages ps @ map msg new)"
    and "\<And>p. step_room ser k req (ps\<lparr>ps_position := p, ps_budget := b,
           ps_messages := ps_messages ps @ map msg new\<rparr>)"
proof -
  have "length new * k \<le> (req_limit req - length (ps_messages ps)) * k"
    using assms(3) by (intro mult_right_mono) auto
  then have "length (map msg new) * k \<le> budget_remaining (ps_budget ps)"
    using assms(1) by (simp only: step_room_def length_map) (meson order.trans)
  moreover have "\<forall>m \<in> set (map msg new). row_fits ser k m"
    using assms(1,2) by (auto simp: step_room_def)
  ultimately obtain b where b: "try_fold (push_row ser) (ps_budget ps, ps_messages ps) (map msg new)
       = Inr (b, ps_messages ps @ map msg new)"
    "budget_remaining (ps_budget ps) - length new * k \<le> budget_remaining b"
    using push_rows_fit [of "map msg new" ser k "ps_budget ps" "ps_messages ps"] by auto
  moreover have "(req_limit req - (length (ps_messages ps) + length new)) * k \<le> budget_remaining b"
  proof -
    have "(req_limit req - (length (ps_messages ps) + length new)) * k
        = (req_limit req - length (ps_messages ps)) * k - length new * k"
      by (metis diff_diff_left diff_mult_distrib)
    also have "\<dots> \<le> budget_remaining (ps_budget ps) - length new * k"
      using assms(1) by (simp add: step_room_def diff_le_mono)
    finally show ?thesis using b(2) by (rule order.trans)
  qed
  ultimately show thesis
    using assms by (intro that [of b]) (auto simp: step_room_def)
qed

lemma step_complete:
  assumes "limits_valid l" and "inv s" and "pos_next_uid (ps_position ps) \<noteq> 0"
    and "length (ps_messages ps) < req_limit req" and "step_room ser k req ps"
  obtains ps1 s1 where "window_step sel ser req l ps s = (Inr ps1, s1)" and "inv s1"
    and "step_room ser k req ps1" and "consumed req ps (ps_position ps1) (ps_messages ps1)"
proof -
  let ?c = "req_criteria req" and ?hi = "pos_next_uid (ps_position ps)" and ?w = "l_search_uid_window l"
  let ?n = "req_limit req - length (ps_messages ps)"
  note b = window_first_bounds [OF limits_valid_fields(3,4) [OF assms(1)] assms(3)]
  obtain xs s1 where xs: "sel_matches sel s (window_first ?w ?hi) ?hi ?c = (Inr xs, s1)" "inv s1"
    "distinct xs" "set xs = {u \<in> matching ?c. window_first ?w ?hi \<le> u \<and> u \<le> ?hi}"
    using matches [OF assms(2) b(1,2)] by blast
  obtain taken m where plan: "plan_window ?w (window_first ?w ?hi) ?hi ?n xs = Inr (taken, m)"
    and split: "taken @ desc_upto (matching ?c) m = desc_upto (matching ?c) ?hi"
    and taken: "sorted_wrt (>) taken" "set taken \<subseteq> matching ?c"
    by (rule plan_complete [OF assms(1,3) _ xs(3,4), of ?n]) (use assms(4) in auto)
  have "length (ps_messages ps) + length taken \<le> req_limit req"
    using plan_window_Inr(3) [OF plan b(1,2)] assms(4) by simp
  then obtain bb where bb: "try_fold (push_row ser) (ps_budget ps, ps_messages ps) (map msg taken)
       = Inr (bb, ps_messages ps @ map msg taken)"
    "\<And>p. step_room ser k req (ps\<lparr>ps_position := p, ps_budget := bb,
           ps_messages := ps_messages ps @ map msg taken\<rparr>)"
    using room_rows [OF assms(5) taken(2)] by blast
  let ?ps = "ps\<lparr>ps_position := (ps_position ps)\<lparr>pos_next_uid := m\<rparr>, ps_budget := bb,
                 ps_messages := ps_messages ps @ map msg taken\<rparr>"
  have consumed: "consumed req ps (ps_position ?ps) (ps_messages ?ps)"
    using split taken(2) by (auto simp: consumed_def intro!: exI [of _ taken] exI [of _ m])
  show thesis
  proof (cases "taken = []")
    case True
    then have "window_step sel ser req l ps s = (Inr ?ps, s1)"
      using xs(1) plan bb(1) by (auto simp: window_step_def Let_def)
    then show thesis using xs(2) bb(2) consumed by (rule that)
  next
    case False
    obtain rows s2 where rows: "sel_fetch sel s1 taken = (Inr rows, s2)" "inv s2"
      "mset rows = mset (map msg taken)"
      using fetch [OF xs(2) sorted_desc_distinct [OF taken(1)] taken(2)] by blast
    then have "window_step sel ser req l ps s = (Inr ?ps, s2)"
      using xs(1) plan False bb(1) rows_complete [OF rows(3) taken xs(2)]
      by (simp add: window_step_def Let_def)
    then show thesis using rows(2) bb(2) consumed by (rule that)
  qed
qed

lemma loop_complete:
  assumes "limits_valid l" and "inv s" and "step_room ser k req ps"
  shows "\<exists>batch s'. page_loop sel ser req l windows ps s = (Inr batch, s') \<and> inv s'
     \<and> consumed req ps (batch_position batch) (batch_messages batch)"
  using assms(2,3)
proof (induction windows arbitrary: ps s)
  case 0
  then show ?case using consumed_refl by auto
next
  case (Suc windows)
  show ?case
  proof (cases "pos_next_uid (ps_position ps) = 0 \<or> length (ps_messages ps) = req_limit req")
    case True
    with Suc.prems show ?thesis using consumed_refl by auto
  next
    case False
    then have "pos_next_uid (ps_position ps) \<noteq> 0" "length (ps_messages ps) < req_limit req"
      using Suc.prems(2) by (auto simp: step_room_def)
    then obtain ps1 s1 where step: "window_step sel ser req l ps s = (Inr ps1, s1)" "inv s1"
      "step_room ser k req ps1" "consumed req ps (ps_position ps1) (ps_messages ps1)"
      using step_complete [OF assms(1) Suc.prems(1) _ _ Suc.prems(2)] by blast
    then show ?thesis
      using Suc.IH [OF step(2,3)] consumed_trans [OF step(4)] False by auto
  qed
qed

text \<open>A page from an accepted position succeeds and consumes a prefix of what is left.\<close>

lemma page_complete:
  assumes "limits_valid l" and "inv s" and "v \<noteq> 0"
    and "0 < req_limit req" "req_limit req \<le> l_search_page l"
    and "\<forall>u \<in> matching (req_criteria req). row_fits ser k (msg u)"
    and "req_limit req * k \<le> req_response_bytes req"
    and "\<And>p. req_position req = Some p \<Longrightarrow> pos_uid_validity p = v \<and> pos_fuzzy p = fz"
  obtains batch s' new from_uid where "page sel ser req l s = (Inr batch, s')" and "inv s'"
    and "batch_messages batch = map msg new" and "set new \<subseteq> matching (req_criteria req)"
    and "new @ desc_upto (matching (req_criteria req)) (pos_next_uid (batch_position batch))
       = desc_upto (matching (req_criteria req)) from_uid"
    and "pos_uid_validity (batch_position batch) = v" "pos_fuzzy (batch_position batch) = fz"
    and "\<And>p. req_position req = Some p \<Longrightarrow> from_uid = pos_next_uid p"
    and "req_position req = None \<Longrightarrow> \<forall>m \<in> matching (req_criteria req). m \<le> from_uid"
proof -
  obtain pos s1 where start: "start_position sel s (req_position req) = (Inr pos, s1)" "inv s1"
    "pos_uid_validity pos = v" "pos_fuzzy pos = fz"
    "\<And>p. req_position req = Some p \<Longrightarrow> pos = p"
    "req_position req = None \<Longrightarrow> \<forall>m \<in> matching (req_criteria req). m \<le> pos_next_uid pos"
  proof (cases "req_position req")
    case None
    obtain u s1 where "sel_upper_uid sel s = (Inr u, s1)" "inv s1" "\<forall>c. \<forall>m \<in> matching c. m \<le> u"
      using upper [OF assms(2)] by blast
    then show thesis
      using None validity [OF assms(2)] validity [of s1] by (intro that) (auto simp: start_position_def)
  next
    case (Some p)
    then show thesis
      using assms(2,8) validity by (intro that [of p s]) (auto simp: start_position_def)
  qed
  let ?ps = "\<lparr>ps_position = pos, ps_budget = output_budget_new (req_response_bytes req), ps_messages = []\<rparr>"
  have "step_room ser k req ?ps"
    using assms(6,7) by (simp add: step_room_def output_budget_new_def)
  from loop_complete [OF assms(1) start(2) this] obtain batch s' where
    loop: "page_loop sel ser req l (l_search_windows l) ?ps s1 = (Inr batch, s')" "inv s'"
    "consumed req ?ps (batch_position batch) (batch_messages batch)"
    by blast
  have "page sel ser req l s = (Inr batch, s')"
    using assms(1-5) start(1) loop(1) validity by (simp add: page_def limits_validate_eq)
  with loop(2,3) start(3-6) show thesis
    by (auto simp: consumed_def intro!: that)
qed

lemma drained_from:
  assumes "limits_valid l" and "v \<noteq> 0"
    and "0 < req_limit req" "req_limit req \<le> l_search_page l"
    and "\<forall>u \<in> matching (req_criteria req). row_fits ser k (msg u)"
    and "req_limit req * k \<le> req_response_bytes req"
    and "inv s" "pos_uid_validity p = v" "pos_fuzzy p = fz"
  shows "drained sel ser req l (Some p) s (map msg (desc_upto (matching (req_criteria req)) (pos_next_uid p)))"
  using assms(7-9)
proof (induction "unat (pos_next_uid p)" arbitrary: p s rule: less_induct)
  case less
  let ?M = "matching (req_criteria req)"
  obtain batch s' new from_uid where
    page: "page sel ser (req\<lparr>req_position := Some p\<rparr>) l s = (Inr batch, s')" "inv s'"
    "batch_messages batch = map msg new"
    "new @ desc_upto ?M (pos_next_uid (batch_position batch)) = desc_upto ?M from_uid"
    "pos_uid_validity (batch_position batch) = v" "pos_fuzzy (batch_position batch) = fz"
    "from_uid = pos_next_uid p"
    by (rule page_complete [of l s "req\<lparr>req_position := Some p\<rparr>" ser k]) (use assms less.prems in auto)
  show ?case
  proof (cases "pos_next_uid (batch_position batch) = 0")
    case True
    then have "map msg (desc_upto ?M (pos_next_uid p)) = batch_messages batch"
      using page(3,4,7) desc_upto_zero [OF nonzero] by (metis append_Nil2)
    then show ?thesis
      using drained_last [OF page(1) True] by simp
  next
    case False
    obtain n where n: "batch_position batch = p\<lparr>pos_next_uid := n\<rparr>" "n \<le> pos_next_uid p"
      "pos_next_uid p \<noteq> 0 \<Longrightarrow> n < pos_next_uid p"
      by (rule page_progress_from [OF page(1), of p]) auto
    with False have "pos_next_uid p \<noteq> 0" by auto
    with n have "pos_next_uid (batch_position batch) < pos_next_uid p" by simp
    then have "drained sel ser req l (Some (batch_position batch)) s'
        (map msg (desc_upto ?M (pos_next_uid (batch_position batch))))"
      using less.hyps page(2,5,6) by (simp add: word_less_nat_alt)
    from drained_more [OF page(1) False this] show ?thesis
      using page(3,4,7) by (metis map_append)
  qed
qed

lemma drained_all:
  assumes "limits_valid l" and "v \<noteq> 0"
    and "0 < req_limit req" "req_limit req \<le> l_search_page l"
    and "\<forall>u \<in> matching (req_criteria req). row_fits ser k (msg u)"
    and "req_limit req * k \<le> req_response_bytes req"
    and "inv s"
  shows "drained sel ser req l None s (map msg (rev (sorted_list_of_set (matching (req_criteria req)))))"
proof -
  let ?M = "matching (req_criteria req)"
  obtain batch s' new from_uid where
    page: "page sel ser (req\<lparr>req_position := None\<rparr>) l s = (Inr batch, s')" "inv s'"
    "batch_messages batch = map msg new"
    "new @ desc_upto ?M (pos_next_uid (batch_position batch)) = desc_upto ?M from_uid"
    "pos_uid_validity (batch_position batch) = v" "pos_fuzzy (batch_position batch) = fz"
    "\<forall>m \<in> ?M. m \<le> from_uid"
    by (rule page_complete [of l s "req\<lparr>req_position := None\<rparr>" ser k]) (use assms in auto)
  have "{u \<in> ?M. u \<le> from_uid} = ?M"
    using page(7) by auto
  then have all: "desc_upto ?M from_uid = rev (sorted_list_of_set ?M)"
    by (simp add: desc_upto_def)
  show ?thesis
  proof (cases "pos_next_uid (batch_position batch) = 0")
    case True
    then have "map msg (rev (sorted_list_of_set ?M)) = batch_messages batch"
      using page(3,4) all desc_upto_zero [OF nonzero] by (metis append_Nil2)
    then show ?thesis
      using drained_last [OF page(1) True] by simp
  next
    case False
    have "drained sel ser req l (Some (batch_position batch)) s'
        (map msg (desc_upto ?M (pos_next_uid (batch_position batch))))"
      using drained_from [OF assms(1-6) page(2,5,6)] .
    from drained_more [OF page(1) False this] show ?thesis
      using page(3,4) all by (metis map_append)
  qed
qed

end

text \<open>Paging is deterministic, so what it delivers is unique.\<close>

lemma drained_unique: "drained sel ser req l p s xs \<Longrightarrow> drained sel ser req l p s ys \<Longrightarrow> xs = ys"
proof (induction arbitrary: ys rule: drained.induct)
  case (drained_last p s batch s')
  show ?case
    using drained_last(3)
    by (cases rule: drained.cases) (use drained_last(1,2) in auto)
next
  case (drained_more p s batch s' rest)
  show ?case
    using drained_more(5)
  proof (cases rule: drained.cases)
    case (drained_last b t)
    with drained_more(1,2) show ?thesis by simp
  next
    case (drained_more b t rest')
    with \<open>page sel ser (req\<lparr>req_position := p\<rparr>) l s = (Inr batch, s')\<close> have "b = batch" "t = s'"
      by simp_all
    with drained_more \<open>\<And>ys. drained sel ser req l (Some (batch_position batch)) s' ys \<Longrightarrow> rest = ys\<close>
    show ?thesis by simp
  qed
qed

section \<open>The in-memory message adapter\<close>

record MemoryMessage =
  mm_uid :: u32
  mm_metadata :: MessageMetadata
  mm_bcc :: "string list"
  mm_text :: string

record MemoryMailbox =
  mbox_validity :: u32
  mbox_messages :: "(u32, MemoryMessage) btree"

type_synonym MemoryMessages = "string \<Rightarrow> (string \<Rightarrow> MemoryMailbox option) option"

text \<open>
  Text services of the host: Unicode lower-casing, the calendar day of an RFC 3339 instant, and
  the day of a validated search date.
\<close>

record text_host =
  lowercase :: "string \<Rightarrow> string"
  rfc3339_day :: "string \<Rightarrow> int option"
  search_day :: "string \<Rightarrow> int"

definition memory_messages_set ::
  "MemoryMessages \<Rightarrow> string \<Rightarrow> string \<Rightarrow> u32 \<Rightarrow> MemoryMessage list \<Rightarrow> MemoryMessages" where
  "memory_messages_set store key mailbox validity msgs =
     (let mailboxes = (case store key of None \<Rightarrow> Map.empty | Some m \<Rightarrow> m)
      in store(key \<mapsto> mailboxes(mailbox_identity mailbox \<mapsto>
           \<lparr>mbox_validity = validity,
            mbox_messages = btree_of (map (\<lambda>m. (mm_uid m, m)) msgs)\<rparr>)))"

definition contains_text :: "text_host \<Rightarrow> string \<Rightarrow> string \<Rightarrow> bool" where
  "contains_text h haystack needle = str_contains (lowercase h haystack) (lowercase h needle)"

definition address_match :: "text_host \<Rightarrow> MessageAddress list Metadata \<Rightarrow> string \<Rightarrow> bool" where
  "address_match h addresses v =
     is_some_and (metadata_value addresses) (\<lambda>as.
       \<exists>a \<in> set as. contains_text h (addr_address a) v
         \<or> is_some_and (addr_name a) (\<lambda>name. contains_text h name v))"

definition has_flag :: "MemoryMessage \<Rightarrow> StandardFlag \<Rightarrow> bool" where
  "has_flag m f = (\<exists>v \<in> set (md_flags (mm_metadata m)). eq_ignore_ascii_case v (imap_name f))"

definition sent_day :: "text_host \<Rightarrow> MemoryMessage \<Rightarrow> int option" where
  "sent_day h m = Option.bind (metadata_value (md_sent_date (mm_metadata m))) (rfc3339_day h)"

fun predicate_holds :: "text_host \<Rightarrow> MemoryMessage \<Rightarrow> SearchPredicate \<Rightarrow> bool" where
  "predicate_holds h m (RequiredFlag f) = has_flag m f"
| "predicate_holds h m (ForbiddenFlag f) = (\<not> has_flag m f)"
| "predicate_holds h m (ReceivedAfter d) =
     is_some_and (rfc3339_day h (md_received_date (mm_metadata m))) (\<lambda>x. x \<ge> search_day h (date_str d))"
| "predicate_holds h m (ReceivedBefore d) =
     is_some_and (rfc3339_day h (md_received_date (mm_metadata m))) (\<lambda>x. x < search_day h (date_str d))"
| "predicate_holds h m (SentAfter d) =
     is_some_and (sent_day h m) (\<lambda>x. x \<ge> search_day h (date_str d))"
| "predicate_holds h m (SentBefore d) =
     is_some_and (sent_day h m) (\<lambda>x. x < search_day h (date_str d))"
| "predicate_holds h m (SubjectText v) =
     is_some_and (metadata_value (md_subject (mm_metadata m))) (\<lambda>s. contains_text h s v)"
| "predicate_holds h m (BodyText v) = contains_text h (mm_text m) v"
| "predicate_holds h m (FromText v) = address_match h (md_from (mm_metadata m)) v"
| "predicate_holds h m (ToText v) = address_match h (md_to (mm_metadata m)) v"
| "predicate_holds h m (CcText v) = address_match h (md_cc (mm_metadata m)) v"
| "predicate_holds h m (BccText v) = (\<exists>a \<in> set (mm_bcc m). contains_text h a v)"

definition memory_upper_uid :: "MemoryMailbox \<Rightarrow> u32 result \<times> MemoryMailbox" where
  "memory_upper_uid m =
     (Inr (if mbox_messages m = [] then 0 else fst (last (mbox_messages m))), m)"

definition memory_matches ::
  "text_host \<Rightarrow> MemoryMailbox \<Rightarrow> u32 \<Rightarrow> u32 \<Rightarrow> SearchCriteria \<Rightarrow> u32 list result \<times> MemoryMailbox" where
  "memory_matches h m lo hi criteria =
     (Inr (map fst (filter (\<lambda>(_, x). list_all (predicate_holds h x) criteria)
        (btree_range lo hi (mbox_messages m)))), m)"

definition located :: "MemoryMessage \<Rightarrow> LocatedMessage" where
  "located x = \<lparr>row_uid = mm_uid x, row_metadata = mm_metadata x\<rparr>"

definition memory_fetch :: "MemoryMailbox \<Rightarrow> u32 list \<Rightarrow> LocatedMessage list result \<times> MemoryMailbox" where
  "memory_fetch m uids =
     (Inr (map located (List.map_filter (map_of (mbox_messages m)) uids)), m)"

definition memory_selection :: "text_host \<Rightarrow> MemoryMailbox SelectedMailbox" where
  "memory_selection h =
     \<lparr>sel_uid_validity = mbox_validity, sel_fuzzy = (\<lambda>_. False),
      sel_upper_uid = memory_upper_uid, sel_matches = memory_matches h, sel_fetch = memory_fetch\<rparr>"

definition memory_search ::
  "text_host \<Rightarrow> (MessageMetadata \<Rightarrow> serialization) \<Rightarrow> MemoryMessages \<Rightarrow> string \<Rightarrow> string
   \<Rightarrow> SearchRequest \<Rightarrow> Limits \<Rightarrow> SearchBatch result" where
  "memory_search h ser store key mailbox req l =
     and_then (ok_or (error_new StaleReference)
        (Option.bind (store key) (\<lambda>ms. ms (mailbox_identity mailbox))))
       (\<lambda>m. fst (page (memory_selection h) ser req l m))"

text \<open>A mailbox as \<open>set\<close> builds it: entries in key order, each under its own UID.\<close>

definition memory_wf :: "MemoryMailbox \<Rightarrow> bool" where
  "memory_wf m \<longleftrightarrow> btree_wf (mbox_messages m) \<and> (\<forall>(k, x) \<in> set (mbox_messages m). k = mm_uid x)"

definition memory_matching :: "text_host \<Rightarrow> MemoryMailbox \<Rightarrow> SearchCriteria \<Rightarrow> u32 set" where
  "memory_matching h m c =
     {u. u \<noteq> 0 \<and> is_some_and (map_of (mbox_messages m) u) (\<lambda>x. list_all (predicate_holds h x) c)}"

definition memory_row :: "MemoryMailbox \<Rightarrow> u32 \<Rightarrow> LocatedMessage" where
  "memory_row m u = located (the (map_of (mbox_messages m) u))"

lemma memory_messages_set_wf:
  assumes "memory_messages_set store key mailbox validity msgs key = Some ms"
    and "ms (mailbox_identity mailbox) = Some m"
  shows "memory_wf m \<and> mbox_validity m = validity"
proof -
  have m: "m = \<lparr>mbox_validity = validity, mbox_messages = btree_of (map (\<lambda>m. (mm_uid m, m)) msgs)\<rparr>"
    using assms by (auto simp: memory_messages_set_def Let_def)
  have "k = mm_uid x" if "(k, x) \<in> set (btree_of (map (\<lambda>m. (mm_uid m, m)) msgs))" for k x
  proof -
    have "map_of (btree_of (map (\<lambda>m. (mm_uid m, m)) msgs)) k = Some x"
      using that by (simp add: btree_wf_distinct)
    then have "(k, x) \<in> set (rev (map (\<lambda>m. (mm_uid m, m)) msgs))"
      unfolding map_of_btree_of by (rule map_of_SomeD)
    then show ?thesis by auto
  qed
  with m show ?thesis
    by (auto simp: memory_wf_def)
qed

lemma memory_wf_lookup:
  assumes "memory_wf m"
  shows "map_of (mbox_messages m) u = Some x \<longleftrightarrow> (u, x) \<in> set (mbox_messages m)"
    and "map_of (mbox_messages m) u = Some x \<Longrightarrow> mm_uid x = u"
  using assms btree_wf_distinct [of "mbox_messages m"]
  by (auto simp: memory_wf_def dest!: map_of_SomeD)

text \<open>Every snapshot of the in-memory store meets the provider contract.\<close>

lemma memory_matches_correct:
  assumes "memory_wf m" and "1 \<le> lo"
  shows "\<exists>xs. memory_matches h m lo hi c = (Inr xs, m) \<and> distinct xs
    \<and> set xs = {u \<in> memory_matching h m c. lo \<le> u \<and> u \<le> hi}"
proof -
  let ?xs = "filter (\<lambda>(_, x). list_all (predicate_holds h x) c) (btree_range lo hi (mbox_messages m))"
  have "distinct (map fst ?xs)"
    using assms(1) by (simp add: btree_range_def memory_wf_def btree_wf_distinct distinct_map_filter)
  moreover have "u \<noteq> 0" if "lo \<le> u" for u
    using that assms(2) by (auto simp: word_le_nat_alt)
  then have "set (map fst ?xs) = {u \<in> memory_matching h m c. lo \<le> u \<and> u \<le> hi}"
    using memory_wf_lookup(1) [OF assms(1)]
    by (auto simp: btree_range_def memory_matching_def is_some_and_iff image_iff)
  ultimately show ?thesis
    by (auto simp: memory_matches_def)
qed

lemma memory_fetch_correct:
  assumes "set uids \<subseteq> memory_matching h m c"
  shows "memory_fetch m uids = (Inr (map (memory_row m) uids), m)"
proof -
  have "List.map_filter (map_of (mbox_messages m)) uids = map (\<lambda>u. the (map_of (mbox_messages m) u)) uids"
    using assms by (induction uids) (auto simp: List.map_filter_def memory_matching_def is_some_and_iff)
  then show ?thesis
    by (simp add: memory_fetch_def memory_row_def)
qed

lemma memory_upper_correct:
  assumes "memory_wf m"
  shows "\<exists>u. memory_upper_uid m = (Inr u, m) \<and> (\<forall>c. \<forall>x \<in> memory_matching h m c. x \<le> u)"
proof (cases "mbox_messages m" rule: rev_cases)
  case Nil
  then show ?thesis by (auto simp: memory_upper_uid_def memory_matching_def)
next
  case (snoc ys y)
  have "x \<le> fst y" if "(x, z) \<in> set (mbox_messages m)" for x z
    using that assms snoc by (force simp: memory_wf_def btree_wf_def sorted_wrt_append)
  then show ?thesis
    using snoc memory_wf_lookup(1) [OF assms]
    by (auto simp: memory_upper_uid_def memory_matching_def is_some_and_iff)
qed

interpretation mem: stable_mailbox "memory_selection h" "\<lambda>s. s = m \<and> memory_wf m" "mbox_validity m"
    False "memory_matching h m" "memory_row m" for h m
proof
  fix s u c
  assume "s = m \<and> memory_wf m" "u \<in> memory_matching h m c"
  then show "row_uid (memory_row m u) = u"
    using memory_wf_lookup(2) [of m]
    by (auto simp: memory_matching_def memory_row_def located_def is_some_and_iff)
next
  fix s :: MemoryMailbox and lo hi :: u32 and c :: SearchCriteria
  assume "s = m \<and> memory_wf m" "1 \<le> lo"
  then show "\<exists>xs s'. sel_matches (memory_selection h) s lo hi c = (Inr xs, s')
      \<and> (s' = m \<and> memory_wf m) \<and> distinct xs
      \<and> set xs = {u \<in> memory_matching h m c. lo \<le> u \<and> u \<le> hi}"
    using memory_matches_correct [of m lo h hi c] by (auto simp: memory_selection_def)
next
  fix s
  assume "s = m \<and> memory_wf m"
  then show "\<exists>u s'. sel_upper_uid (memory_selection h) s = (Inr u, s')
      \<and> (s' = m \<and> memory_wf m) \<and> (\<forall>c. \<forall>x \<in> memory_matching h m c. x \<le> u)"
    using memory_upper_correct [of m h] by (auto simp: memory_selection_def)
qed (use memory_fetch_correct in \<open>auto simp: memory_selection_def memory_matching_def\<close>)

text \<open>
  C4: over an unchanged mailbox, following the search cursor delivers every matching message
  exactly once, newest UID first, and then ends, for every admissible page size, window size and
  window count. The response budget has only to hold one page of the largest row.
\<close>

theorem memory_paging_complete:
  assumes "memory_wf m" and "mbox_validity m \<noteq> 0" and "limits_valid l"
    and "0 < req_limit req" and "req_limit req \<le> l_search_page l"
    and "\<forall>u \<in> memory_matching h m (req_criteria req). row_fits ser k (memory_row m u)"
    and "req_limit req * k \<le> req_response_bytes req"
  shows "drained (memory_selection h) ser req l None m msgs \<longleftrightarrow>
     msgs = map (memory_row m) (rev (sorted_list_of_set (memory_matching h m (req_criteria req))))"
proof -
  let ?all = "map (memory_row m) (rev (sorted_list_of_set (memory_matching h m (req_criteria req))))"
  have d: "drained (memory_selection h) ser req l None m ?all"
    by (rule mem.drained_all [OF assms(3,2,4,5,6,7)]) (simp add: assms(1))
  show ?thesis
    by (rule iffI) (rule drained_unique [OF _ d], assumption, simp add: d)
qed

text \<open>A mailbox of three messages, paged two at a time.\<close>

definition example_metadata :: MessageMetadata where
  "example_metadata =
     \<lparr>md_subject = Present ''Report'', md_from = Missing, md_to = Missing, md_cc = Missing,
      md_received_date = ''2026-01-02T03:04:05Z'', md_sent_date = Missing, md_flags = [],
      md_message_id = Missing, md_size = 10\<rparr>"

definition example_message :: "u32 \<Rightarrow> MemoryMessage" where
  "example_message u = \<lparr>mm_uid = u, mm_metadata = example_metadata, mm_bcc = [], mm_text = []\<rparr>"

definition example_mailbox :: MemoryMailbox where
  "example_mailbox = \<lparr>mbox_validity = 7, mbox_messages = map (\<lambda>u. (u, example_message u)) [2, 5, 9]\<rparr>"

definition example_host :: text_host where
  "example_host = \<lparr>lowercase = (\<lambda>s. s), rfc3339_day = (\<lambda>_. Some 0), search_day = (\<lambda>_. 0)\<rparr>"

definition example_writer :: "MessageMetadata \<Rightarrow> serialization" where
  "example_writer m = \<lparr>ser_writes = [''{'', ''}'', ''!''], ser_finished = True\<rparr>"

definition example_request :: SearchRequest where
  "example_request = \<lparr>req_mailbox = ''INBOX'', req_criteria = [], req_fuzzy = False, req_position = None,
     req_limit = 2, req_response_bytes = 4096\<rparr>"

lemmas example_search_defs = example_metadata_def example_message_def example_mailbox_def
  example_host_def example_writer_def example_request_def

lemma example_matching: "memory_matching example_host example_mailbox [] = {2, 5, 9}"
  by (auto simp: memory_matching_def example_search_defs is_some_and_iff split: if_splits)

theorem memory_paging_complete_witness:
  "drained (memory_selection example_host) example_writer example_request limits_default None example_mailbox
     (map (memory_row example_mailbox) [9, 5, 2])"
proof -
  have "drained (memory_selection example_host) example_writer example_request limits_default None example_mailbox
      (map (memory_row example_mailbox)
        (rev (sorted_list_of_set (memory_matching example_host example_mailbox (req_criteria example_request)))))"
  proof (subst memory_paging_complete [where k = 1027 and h = example_host and m = example_mailbox])
    show "memory_wf example_mailbox"
      by (auto simp: memory_wf_def btree_wf_def example_search_defs)
    show "limits_valid limits_default" by (rule limits_default_valid)
  qed (auto simp: example_search_defs row_fits_def emitted_def limits_default_def)
  then show ?thesis
    by (simp add: example_request_def example_matching)
qed

theorem page_safe_witness:
  "let req = example_request\<lparr>req_position :=
         Some \<lparr>pos_uid_validity = 7, pos_upper_uid = 9, pos_next_uid = 9, pos_fuzzy = False\<rparr>\<rparr>
   in (case fst (page (memory_selection example_host) example_writer req limits_default example_mailbox) of
         Inl _ \<Rightarrow> False
       | Inr batch \<Rightarrow> pos_next_uid (batch_position batch) < 9
           \<and> map row_uid (batch_messages batch) = [9, 5])"
proof -
  let ?pos = "\<lparr>pos_uid_validity = 7, pos_upper_uid = 9, pos_next_uid = 9, pos_fuzzy = False\<rparr>"
  let ?page = "page (memory_selection example_host) example_writer
    (example_request\<lparr>req_position := Some ?pos\<rparr>) limits_default example_mailbox"
  have rows: "map_sum (\<lambda>_. ()) (map row_uid \<circ> batch_messages) (fst ?page) = Inr [9, 5]"
    by code_simp
  then obtain batch s' where p: "?page = (Inr batch, s')"
    by (cases "fst ?page") (auto simp: prod_eq_iff)
  show ?thesis
    using page_safe [OF p, of ?pos] rows p by simp
qed

end
