(* ===== verification/Unicode.thy ===== *)
theory Unicode
  imports Prelude
begin

text \<open>
  UTF-8 and UTF-16 as the standard library reads and writes them: \<open>str::from_utf8\<close>, \<open>str::chars\<close>,
  \<open>encode_utf16\<close> and \<open>char::decode_utf16\<close>. A character is its scalar value.
\<close>

section \<open>UTF-8\<close>

definition scalar :: "nat \<Rightarrow> bool" where
  "scalar c \<longleftrightarrow> c < 0xD800 \<or> 0xE000 \<le> c \<and> c \<le> 0x10FFFF"

definition utf8_char :: "nat \<Rightarrow> bytes" where
  "utf8_char c =
     (if c < 0x80 then [chr c]
      else if c < 0x800 then [chr (0xC0 + c div 64), chr (0x80 + c mod 64)]
      else if c < 0x10000 then [chr (0xE0 + c div 4096), chr (0x80 + c div 64 mod 64), chr (0x80 + c mod 64)]
      else [chr (0xF0 + c div 262144), chr (0x80 + c div 4096 mod 64), chr (0x80 + c div 64 mod 64), chr (0x80 + c mod 64)])"

definition continuation :: "byte \<Rightarrow> bool" where
  "continuation b \<longleftrightarrow> 128 \<le> ord b \<and> ord b \<le> 191"

text \<open>The first character, and the bytes after it; \<open>None\<close> at an ill-formed sequence.\<close>

definition utf8_next :: "bytes \<Rightarrow> (nat \<times> bytes) option" where
  "utf8_next s =
     (case s of
        [] \<Rightarrow> None
      | a # s \<Rightarrow>
          if ord a < 128 then Some (ord a, s)
          else if 194 \<le> ord a \<and> ord a \<le> 223 then
            (case s of b # s \<Rightarrow> if continuation b then Some ((ord a - 192) * 64 + (ord b - 128), s) else None | [] \<Rightarrow> None)
          else if 224 \<le> ord a \<and> ord a \<le> 239 then
            (case s of b # c # s \<Rightarrow>
               let v = (ord a - 224) * 4096 + (ord b - 128) * 64 + (ord c - 128) in
               if continuation b \<and> continuation c \<and> 0x800 \<le> v \<and> scalar v then Some (v, s) else None
             | _ \<Rightarrow> None)
          else if 240 \<le> ord a \<and> ord a \<le> 244 then
            (case s of b # c # d # s \<Rightarrow>
               let v = (ord a - 240) * 262144 + (ord b - 128) * 4096 + (ord c - 128) * 64 + (ord d - 128) in
               if continuation b \<and> continuation c \<and> continuation d \<and> 0x10000 \<le> v \<and> scalar v then Some (v, s) else None
             | _ \<Rightarrow> None)
          else None)"

lemma utf8_next_shorter: "utf8_next s = Some (c, r) \<Longrightarrow> length r < length s"
  by (auto simp: utf8_next_def Let_def split: list.splits if_splits)

function utf8_decode :: "bytes \<Rightarrow> nat list option" where
  "utf8_decode [] = Some []"
| "utf8_decode (a # s) =
     (case utf8_next (a # s) of None \<Rightarrow> None | Some (c, r) \<Rightarrow> map_option ((#) c) (utf8_decode r))"
  by pat_completeness auto

termination
  by (relation "measure length") (use utf8_next_shorter in fastforce)+

definition utf8_encode :: "nat list \<Rightarrow> bytes" where
  "utf8_encode cs = concat (map utf8_char cs)"

lemma utf8_encode_simps [simp]:
  "utf8_encode [] = []" "utf8_encode (c # cs) = utf8_char c @ utf8_encode cs" "utf8_encode (cs @ ds) = utf8_encode cs @ utf8_encode ds"
  by (simp_all add: utf8_encode_def)

lemma utf8_next_two:
  "2 \<le> h \<Longrightarrow> h < 32 \<Longrightarrow> l < 64 \<Longrightarrow> utf8_next (chr (192 + h) # chr (128 + l) # s) = Some (h * 64 + l, s)"
  by (simp add: utf8_next_def continuation_def)

lemma utf8_next_three:
  "h < 16 \<Longrightarrow> m < 64 \<Longrightarrow> l < 64 \<Longrightarrow> 0x800 \<le> h * 4096 + m * 64 + l \<Longrightarrow> scalar (h * 4096 + m * 64 + l) \<Longrightarrow>
    utf8_next (chr (224 + h) # chr (128 + m) # chr (128 + l) # s) = Some (h * 4096 + m * 64 + l, s)"
  by (simp add: utf8_next_def continuation_def Let_def)

lemma utf8_next_four:
  "h < 5 \<Longrightarrow> k < 64 \<Longrightarrow> m < 64 \<Longrightarrow> l < 64 \<Longrightarrow> 0x10000 \<le> h * 262144 + k * 4096 + m * 64 + l \<Longrightarrow>
    scalar (h * 262144 + k * 4096 + m * 64 + l) \<Longrightarrow>
    utf8_next (chr (240 + h) # chr (128 + k) # chr (128 + m) # chr (128 + l) # s) = Some (h * 262144 + k * 4096 + m * 64 + l, s)"
  by (simp add: utf8_next_def continuation_def Let_def)

lemma sextets:
  "(c::nat) = c div 64 * 64 + c mod 64"
  "c = c div 4096 * 4096 + c div 64 mod 64 * 64 + c mod 64"
  "c = c div 262144 * 262144 + c div 4096 mod 64 * 4096 + c div 64 mod 64 * 64 + c mod 64"
proof -
  have 1: "c div 64 = c div 4096 * 64 + c div 64 mod 64"
    using div_mult2_eq [of c 64 64] by simp
  have 2: "c div 4096 = c div 262144 * 64 + c div 4096 mod 64"
    using div_mult2_eq [of c 4096 64] by simp
  show 3: "c = c div 64 * 64 + c mod 64" by simp
  show 4: "c = c div 4096 * 4096 + c div 64 mod 64 * 64 + c mod 64" using 1 3 by linarith
  show "c = c div 262144 * 262144 + c div 4096 mod 64 * 4096 + c div 64 mod 64 * 64 + c mod 64" using 2 4 by linarith
qed

lemma utf8_next_char:
  assumes "scalar c"
  shows "utf8_next (utf8_char c @ s) = Some (c, s)"
proof -
  have low: "c mod 64 < 64" "c div 64 mod 64 < 64" "c div 4096 mod 64 < 64" by simp_all
  consider "c < 0x80" | "\<not> c < 0x80" "c < 0x800" | "\<not> c < 0x800" "c < 0x10000" | "\<not> c < 0x10000" by linarith
  then show ?thesis
  proof cases
    case 1
    then show ?thesis by (simp add: utf8_char_def utf8_next_def)
  next
    case 2
    then have "2 \<le> c div 64" "c div 64 < 32" by simp_all
    from utf8_next_two [OF this low(1), of s] 2 sextets(1) [of c] show ?thesis by (simp add: utf8_char_def)
  next
    case 3
    then have "c div 4096 < 16" by simp
    from utf8_next_three [OF this low(2) low(1), of s, folded sextets(2) [of c]] 3 assms show ?thesis
      by (simp add: utf8_char_def)
  next
    case 4
    have "c < 5 * 262144" using assms by (auto simp: scalar_def)
    then have "c div 262144 < 5" by (simp add: less_mult_imp_div_less)
    from utf8_next_four [OF this low(3) low(2) low(1), of s, folded sextets(3) [of c]] 4 assms show ?thesis
      by (simp add: utf8_char_def)
  qed
qed

lemma utf8_decode_encode: "list_all scalar cs \<Longrightarrow> utf8_decode (utf8_encode cs) = Some cs"
proof (induction cs)
  case (Cons c cs)
  obtain a s where a: "utf8_char c = a # s"
    by (cases "utf8_char c") (auto simp: utf8_char_def split: if_splits)
  show ?case using Cons utf8_next_char [of c "utf8_encode cs"] by (simp add: a)
qed simp

lemma sextet_split: "l < 64 \<Longrightarrow> (x * 64 + l) div 64 = x \<and> (x * 64 + l) mod 64 = (l::nat)"
  by simp

lemma utf8_next_Some:
  assumes "utf8_next s = Some (c, r)"
  shows "scalar c \<and> s = utf8_char c @ r"
proof -
  obtain a t where s: "s = a # t" using assms by (cases s) (auto simp: utf8_next_def)
  have ranges: "\<exists>l<64. ord b = 128 + l" if "continuation b" for b
    using that by (intro exI [of _ "ord b - 128"]) (auto simp: continuation_def)
  consider (one) "ord a < 128" | (two) "194 \<le> ord a" "ord a \<le> 223" | (three) "224 \<le> ord a" "ord a \<le> 239"
    | (four) "240 \<le> ord a" "ord a \<le> 244"
    using assms by (auto simp: s utf8_next_def split: if_splits)
  then show ?thesis
  proof cases
    case one
    then show ?thesis using assms by (auto simp: s utf8_next_def utf8_char_def scalar_def)
  next
    case two
    then obtain b where t: "t = b # r" "continuation b" and c: "c = (ord a - 192) * 64 + (ord b - 128)"
      using assms by (auto simp: s utf8_next_def split: list.splits if_splits)
    obtain l where l: "l < 64" "ord b = 128 + l" using ranges [OF t(2)] by blast
    obtain h where h: "2 \<le> h" "h < 32" "ord a = 192 + h" using two by (intro that [of "ord a - 192"]) auto
    have "c div 64 = h" "c mod 64 = l" "\<not> c < 128" "c < 2048" using l h by (auto simp: c)
    then show ?thesis using l h t by (simp add: s utf8_char_def scalar_def flip: ord_inject)
  next
    case three
    then obtain b d where t: "t = b # d # r" "continuation b" "continuation d"
      and c: "c = (ord a - 224) * 4096 + (ord b - 128) * 64 + (ord d - 128)" "0x800 \<le> c" "scalar c"
      using assms by (auto simp: s utf8_next_def Let_def split: list.splits if_splits)
    obtain l where l: "l < 64" "ord d = 128 + l" using ranges [OF t(3)] by blast
    obtain m where m: "m < 64" "ord b = 128 + m" using ranges [OF t(2)] by blast
    obtain h where h: "h < 16" "ord a = 224 + h" using three by (intro that [of "ord a - 224"]) auto
    have v: "c = (h * 64 + m) * 64 + l" using l m h by (simp add: c(1))
    have d: "c div 64 = h * 64 + m" "c mod 64 = l" unfolding v using sextet_split [OF l(1)] by blast+
    moreover have "c div 4096 = c div 64 div 64" by (simp add: div_mult2_eq [symmetric])
    then have "c div 4096 = h" using sextet_split [OF m(1)] by (simp only: d)
    ultimately show ?thesis using l m h t c(2,3) v by (simp add: s utf8_char_def flip: ord_inject)
  next
    case four
    then obtain b d e where t: "t = b # d # e # r" "continuation b" "continuation d" "continuation e"
      and c: "c = (ord a - 240) * 262144 + (ord b - 128) * 4096 + (ord d - 128) * 64 + (ord e - 128)" "0x10000 \<le> c" "scalar c"
      using assms by (auto simp: s utf8_next_def Let_def split: list.splits if_splits)
    obtain l where l: "l < 64" "ord e = 128 + l" using ranges [OF t(4)] by blast
    obtain m where m: "m < 64" "ord d = 128 + m" using ranges [OF t(3)] by blast
    obtain k where k: "k < 64" "ord b = 128 + k" using ranges [OF t(2)] by blast
    obtain h where h: "h < 5" "ord a = 240 + h" using four by (intro that [of "ord a - 240"]) auto
    have v: "c = ((h * 64 + k) * 64 + m) * 64 + l" using l m k h by (simp add: c(1))
    have d: "c div 64 = (h * 64 + k) * 64 + m" "c mod 64 = l" unfolding v using sextet_split [OF l(1)] by blast+
    have "c div 4096 = c div 64 div 64" "c div 262144 = c div 64 div 64 div 64"
      by (simp_all add: div_mult2_eq [symmetric])
    then have "c div 4096 = h * 64 + k" "c div 262144 = h"
      using sextet_split [OF m(1)] sextet_split [OF k(1)] by (simp_all only: d)
    moreover have "c div 64 mod 64 = m" "c div 4096 mod 64 = k"
      using sextet_split [OF m(1)] sextet_split [OF k(1)] \<open>c div 4096 = h * 64 + k\<close> by (simp_all only: d)
    ultimately show ?thesis using l m k h t c(2,3) d(2) by (simp add: s utf8_char_def flip: ord_inject)
  qed
qed

lemma utf8_decode_Some: "utf8_decode s = Some cs \<Longrightarrow> list_all scalar cs \<and> s = utf8_encode cs"
proof (induction s arbitrary: cs rule: utf8_decode.induct)
  case (2 a s)
  then obtain c r ds where "utf8_next (a # s) = Some (c, r)" "utf8_decode r = Some ds" "cs = c # ds"
    by (auto split: option.splits)
  with "2.IH" [of "(c, r)" c r ds] utf8_next_Some [of "a # s" c r] show ?case by auto
qed simp

lemma utf8_decode_iff: "utf8_decode s = Some cs \<longleftrightarrow> list_all scalar cs \<and> s = utf8_encode cs"
  using utf8_decode_Some utf8_decode_encode by blast

section \<open>UTF-16\<close>

definition utf16_units :: "nat \<Rightarrow> nat list" where
  "utf16_units c =
     (if c < 0x10000 then [c] else [0xD800 + (c - 0x10000) div 1024, 0xDC00 + (c - 0x10000) mod 1024])"

definition utf16_bytes :: "nat list \<Rightarrow> bytes" where
  "utf16_bytes cs = concat (map (\<lambda>u. [chr (u div 256), chr (u mod 256)]) (concat (map utf16_units cs)))"

fun byte_pairs :: "bytes \<Rightarrow> nat list" where
  "byte_pairs (a # b # s) = (ord a * 256 + ord b) # byte_pairs s"
| "byte_pairs _ = []"

fun decode_utf16 :: "nat list \<Rightarrow> nat list option" where
  "decode_utf16 [] = Some []"
| "decode_utf16 (u # us) =
     (if u < 0xD800 \<or> 0xDFFF < u then map_option ((#) u) (decode_utf16 us)
      else if 0xDC00 \<le> u then None
      else (case us of [] \<Rightarrow> None
            | v # vs \<Rightarrow> if 0xDC00 \<le> v \<and> v \<le> 0xDFFF
                then map_option ((#) (0x10000 + (u - 0xD800) * 1024 + (v - 0xDC00))) (decode_utf16 vs) else None))"

lemma byte_pairs_units: "list_all (\<lambda>u. u < 65536) us \<Longrightarrow> byte_pairs (concat (map (\<lambda>u. [chr (u div 256), chr (u mod 256)]) us)) = us"
  by (induction us) auto

lemma units_bound: "scalar c \<Longrightarrow> list_all (\<lambda>u. u < 65536) (utf16_units c)"
  by (auto simp: utf16_units_def scalar_def)

lemma byte_pairs_utf16: "list_all scalar cs \<Longrightarrow> byte_pairs (utf16_bytes cs) = concat (map utf16_units cs)"
proof -
  assume "list_all scalar cs"
  then have "list_all (\<lambda>u. u < 65536) (concat (map utf16_units cs))"
    by (induction cs) (auto simp: units_bound)
  then show ?thesis by (simp add: utf16_bytes_def byte_pairs_units)
qed

lemma decode_units: "scalar c \<Longrightarrow> decode_utf16 (utf16_units c @ us) = map_option ((#) c) (decode_utf16 us)"
  by (auto simp: utf16_units_def scalar_def)

lemma decode_utf16_round: "list_all scalar cs \<Longrightarrow> decode_utf16 (concat (map utf16_units cs)) = Some cs"
  by (induction cs) (simp_all add: decode_units)

lemma utf16_bytes_even: "length (utf16_bytes cs) mod 2 = 0"
proof -
  have "length (concat (map (\<lambda>u. [chr (u div 256), chr (u mod 256)]) us)) = 2 * length us" for us
    by (induction us) auto
  then show ?thesis by (simp add: utf16_bytes_def)
qed

end
