(* ===== verification/Projection.thy ===== *)
theory Projection
  imports Fetch Search Compose Unicode
begin

text \<open>
  The envelope FETCH contract (\<open>src/src/imap/projection.rs\<close>): which fields a row must have, their
  bounded normalization into message metadata, and what counts as malformed. The date parsers and the decoder of
  folded or encoded headers belong to other packages and are parameters.
\<close>

section \<open>Rows\<close>

record metadata_host =
  mh_internal_date :: "string \<Rightarrow> string option"
  mh_sent_date :: "string \<Rightarrow> string option"
  mh_header_text :: "bytes \<Rightarrow> string option"

record Projection =
  prj_uid :: u32
  prj_envelope :: WireEnvelope
  prj_flags :: "string list"
  prj_internal_date :: string
  prj_size :: u32

definition PROJECTION_FIELDS :: string where
  "PROJECTION_FIELDS = ''UID ENVELOPE FLAGS INTERNALDATE RFC822.SIZE''"

text \<open>The fields of a row, in the order of the source: UID, envelope, flags, internal date, size.\<close>

type_synonym row_fields = "u32 option \<times> WireEnvelope option \<times> string list option \<times> string option \<times> u32 option"

definition put_field :: "'a option \<Rightarrow> ('a option \<Rightarrow> row_fields) \<Rightarrow> 'a \<Rightarrow> row_fields imap" where
  "put_field old rebuild v = (if old \<noteq> None then Inl ImapProtocol else Inr (rebuild (Some v)))"

fun projection_item :: "row_fields \<Rightarrow> AttributeValue \<Rightarrow> row_fields imap" where
  "projection_item (u, e, f, d, n) item =
     (case item of
        AttrUid v \<Rightarrow> put_field u (\<lambda>u. (u, e, f, d, n)) v
      | AttrEnvelope v \<Rightarrow> put_field e (\<lambda>e. (u, e, f, d, n)) v
      | AttrFlags v \<Rightarrow> put_field f (\<lambda>f. (u, e, f, d, n)) v
      | AttrInternalDate v \<Rightarrow> put_field d (\<lambda>d. (u, e, f, d, n)) v
      | AttrSize v \<Rightarrow> put_field n (\<lambda>n. (u, e, f, d, n)) v
      | _ \<Rightarrow> Inl ImapUnsupported)"

definition projection_parse :: "metadata_host \<Rightarrow> AttributeValue list \<Rightarrow> Projection imap" where
  "projection_parse h items =
     and_then (try_fold projection_item (None, None, None, None, None) items) (\<lambda>(u, e, f, d, n).
     and_then (ok_or ImapProtocol u) (\<lambda>uid.
     and_then (ensure (uid \<noteq> 0) ImapProtocol) (\<lambda>_.
     and_then (ok_or ImapProtocol e) (\<lambda>envelope.
     and_then (ok_or ImapProtocol f) (\<lambda>flags.
     and_then (ok_or ImapProtocol d) (\<lambda>date.
     and_then (ok_or ImapProtocol (mh_internal_date h date)) (\<lambda>date.
     and_then (ok_or ImapProtocol n) (\<lambda>sz.
       Inr \<lparr>prj_uid = uid, prj_envelope = envelope, prj_flags = flags, prj_internal_date = date, prj_size = sz\<rparr>))))))))"

definition count_header :: "nat \<Rightarrow> bytes option \<Rightarrow> nat imap" where
  "count_header remaining v = ok_or ImapLimit (checked_sub remaining (case v of None \<Rightarrow> 0 | Some v \<Rightarrow> length v))"

definition address_fields :: "Address list option \<Rightarrow> bytes option list" where
  "address_fields as =
     (case as of None \<Rightarrow> [] | Some as \<Rightarrow> concat (map (\<lambda>a. [wa_name a, wa_adl a, wa_mailbox a, wa_host a]) as))"

definition envelope_fields :: "WireEnvelope \<Rightarrow> bytes option list" where
  "envelope_fields e =
     [wenv_date e, wenv_subject e, wenv_in_reply_to e, wenv_message_id e]
     @ concat (map address_fields [wenv_from e, wenv_sender e, wenv_reply_to e, wenv_to e, wenv_cc e, wenv_bcc e])"

definition check_header_bytes :: "Projection \<Rightarrow> nat \<Rightarrow> unit imap" where
  "check_header_bytes p maximum = and_then (try_fold count_header maximum (envelope_fields (prj_envelope p))) (\<lambda>_. Inr ())"

section \<open>Header values\<close>

definition header_metadata :: "bytes option \<Rightarrow> (bytes \<Rightarrow> 'a option) \<Rightarrow> 'a Metadata" where
  "header_metadata v parse =
     (case v of None \<Rightarrow> Missing | Some v \<Rightarrow> (case parse v of None \<Rightarrow> Malformed | Some x \<Rightarrow> Present x))"

definition from_utf8 :: "bytes \<Rightarrow> string option" where
  "from_utf8 v = (if utf8_decode v = None then None else Some v)"

definition trim_start_in :: "char set \<Rightarrow> string \<Rightarrow> string" where
  "trim_start_in cs v = dropWhile (\<lambda>c. c \<in> cs) v"

definition trim_in :: "char set \<Rightarrow> string \<Rightarrow> string" where
  "trim_in cs v = rev (trim_start_in cs (rev (trim_start_in cs v)))"

text \<open>The category of control characters.\<close>

definition control_char :: "nat \<Rightarrow> bool" where
  "control_char c \<longleftrightarrow> c \<le> 31 \<or> 127 \<le> c \<and> c \<le> 159"

fun line_breaks_fold :: "bytes \<Rightarrow> bool" where
  "line_breaks_fold [] = True"
| "line_breaks_fold (b # bs) =
     (\<not> (b = LF \<and> \<not> (case bs of [] \<Rightarrow> False | c # _ \<Rightarrow> c = CHR '' '' \<or> c = CHR 0x09))
      \<and> \<not> (b = CR \<and> \<not> (case bs of [] \<Rightarrow> False | c # _ \<Rightarrow> c = LF))
      \<and> line_breaks_fold bs)"

definition header_text :: "metadata_host \<Rightarrow> bytes \<Rightarrow> string option" where
  "header_text h bs =
     (case utf8_decode bs of
        None \<Rightarrow> None
      | Some cs \<Rightarrow>
          if list_ex (\<lambda>c. control_char c \<and> c \<notin> {13, 10, 9}) cs then None
          else if \<not> (CR \<in> set bs \<or> LF \<in> set bs) \<and> \<not> str_contains bs ''=?'' then Some (trim_in {CHR '' '', CHR 0x09} bs)
          else if \<not> line_breaks_fold bs then None
          else mh_header_text h bs)"

definition header_domain :: "string \<Rightarrow> bool" where
  "header_domain v \<longleftrightarrow> dot_atom v
     \<or> (case v of
          a # rest \<Rightarrow> a = CHR ''['' \<and> rest \<noteq> [] \<and> last rest = CHR '']''
            \<and> (let literal = butlast rest in
                literal \<noteq> [] \<and> list_all (\<lambda>b. 33 \<le> ord b \<and> ord b \<le> 126 \<and> b \<notin> {CHR ''['', CHR '']'', CHR 0x5C}) literal)
        | [] \<Rightarrow> False)"

text \<open>The position after a balanced comment: at most 20 levels, a backslash hides the next octet.\<close>

fun comment_end :: "bytes \<Rightarrow> nat \<Rightarrow> bool \<Rightarrow> nat \<Rightarrow> nat option" where
  "comment_end [] depth escaped i = None"
| "comment_end (b # bs) depth escaped i =
     (if escaped then comment_end bs depth False (i + 1)
      else if b = CHR 0x5C then comment_end bs depth True (i + 1)
      else if b = CHR ''('' then (if depth + 1 > 20 then None else comment_end bs (depth + 1) False (i + 1))
      else if b = CHR '')'' then (if depth = 1 then Some (i + 1) else comment_end bs (depth - 1) False (i + 1))
      else comment_end bs depth False (i + 1))"

lemma comment_end_positive: "comment_end bs depth escaped i = Some n \<Longrightarrow> i < n"
  by (induction bs depth escaped i rule: comment_end.induct) (auto split: if_splits)

function skip_comments :: "string \<Rightarrow> string option" where
  "skip_comments v =
     (let v = trim_start_in {CHR '' '', CHR 0x09, CR, LF} v in
      if take 1 v \<noteq> ''('' then Some v
      else (case comment_end v 0 False 0 of None \<Rightarrow> None | Some n \<Rightarrow> skip_comments (drop n v)))"
  by pat_completeness auto

termination
proof (relation "measure length", goal_cases)
  case (2 v x n)
  then have "length x \<le> length v" by (simp add: trim_start_in_def length_dropWhile_le)
  moreover have "x \<noteq> []" using 2 by auto
  moreover have "0 < n" using 2 by (blast dest: comment_end_positive)
  ultimately show ?case by (cases x) auto
qed simp

declare skip_comments.simps [simp del]

definition header_message_id :: "bytes \<Rightarrow> string option" where
  "header_message_id bs =
     Option.bind (from_utf8 bs) (\<lambda>v.
     Option.bind (skip_comments v) (\<lambda>v.
     Option.bind (case v of a # r \<Rightarrow> if a = CHR ''<'' then Some r else None | [] \<Rightarrow> None) (\<lambda>v.
     Option.bind (rsplit_once CHR ''>'' v) (\<lambda>(identifier, after).
     Option.bind (skip_comments after) (\<lambda>after.
       if after \<noteq> [] then None
       else Option.bind (split_once CHR ''@'' identifier) (\<lambda>(local, host).
         if \<not> dot_atom local \<or> \<not> header_domain host then None else Some (''<'' @ identifier @ ''>'')))))))"

section \<open>Addresses\<close>

definition quoted_local :: "string \<Rightarrow> string" where
  "quoted_local v =
     ''\"'' @ concat (map (\<lambda>c. if c = CHR 0x22 \<or> c = CHR 0x5C then [CHR 0x5C, c] else [c]) v) @ ''\"@''"

definition parsed_address :: "metadata_host \<Rightarrow> Address \<Rightarrow> bytes \<Rightarrow> bytes \<Rightarrow> MessageAddress option" where
  "parsed_address h a local host =
     (case (from_utf8 local, from_utf8 host) of
        (Some local, Some host) \<Rightarrow>
          if local = [] \<or> any_control local \<or> \<not> header_domain host then None
          else (case header_metadata (wa_name a) (header_text h) of
              Malformed \<Rightarrow> None
            | name \<Rightarrow> Some \<lparr>addr_name = metadata_value name,
                addr_address = (if dot_atom local then local @ ''@'' @ host else quoted_local local @ host)\<rparr>)
      | _ \<Rightarrow> None)"

fun parse_address_list :: "metadata_host \<Rightarrow> Address list \<Rightarrow> MessageAddress list \<Rightarrow> bool \<Rightarrow> MessageAddress list Metadata" where
  "parse_address_list h [] addresses in_group = (if in_group then Malformed else Present addresses)"
| "parse_address_list h (a # as) addresses in_group =
     (case (wa_mailbox a, wa_host a) of
        (Some name, None) \<Rightarrow>
          if in_group \<or> is_none_or (from_utf8 name) (\<lambda>v. v = []) then Malformed else parse_address_list h as addresses True
      | (None, None) \<Rightarrow> if in_group then parse_address_list h as addresses False else Malformed
      | (Some local, Some host) \<Rightarrow>
          (case parsed_address h a local host of None \<Rightarrow> Malformed
           | Some x \<Rightarrow> parse_address_list h as (addresses @ [x]) in_group)
      | _ \<Rightarrow> Malformed)"

definition parsed_addresses :: "metadata_host \<Rightarrow> Address list option \<Rightarrow> MessageAddress list Metadata" where
  "parsed_addresses h vs =
     (case vs of None \<Rightarrow> Missing | Some [] \<Rightarrow> Missing | Some vs \<Rightarrow> parse_address_list h vs [] False)"

section \<open>Messages\<close>

definition standard_flag :: "string \<Rightarrow> string" where
  "standard_flag f =
     (case find (\<lambda>name. eq_ignore_ascii_case name f) (map imap_name [Answered, Deleted, Draft, Flagged, Recent, Seen]) of
        None \<Rightarrow> f | Some name \<Rightarrow> name)"

definition projection_message :: "metadata_host \<Rightarrow> Projection \<Rightarrow> LocatedMessage" where
  "projection_message h p =
     (let e = prj_envelope p in
      \<lparr>row_uid = prj_uid p,
       row_metadata =
         \<lparr>md_subject = header_metadata (wenv_subject e) (header_text h),
          md_from = parsed_addresses h (wenv_from e),
          md_to = parsed_addresses h (wenv_to e),
          md_cc = parsed_addresses h (wenv_cc e),
          md_received_date = prj_internal_date p,
          md_sent_date = header_metadata (wenv_date e) (\<lambda>v. Option.bind (from_utf8 v) (mh_sent_date h)),
          md_flags = remdups_adj (sort (map standard_flag (prj_flags p))),
          md_message_id = header_metadata (wenv_message_id e) header_message_id,
          md_size = prj_size p\<rparr>\<rparr>)"

end
