(* ===== verification/MailboxNames.thy ===== *)
theory MailboxNames
  imports Imap Unicode
begin

text \<open>
  Mailbox names on the wire (\<open>src/src/imap.rs\<close>): canonical modified UTF-7, both directions, and the quoted
  strings of commands (\<open>quote\<close> of \<open>src/src/imap/wire.rs\<close>). The base64 engine with the IMAP alphabet
  and no padding is the parameter pair \<open>enc\<close>, \<open>dec\<close>.
\<close>

section \<open>Encoding and decoding\<close>

definition is_ascii :: "byte \<Rightarrow> bool" where
  "is_ascii b = (ord b < 128)"

text \<open>A Rust string is well-formed UTF-8, so that its characters exist.\<close>

definition chars_of :: "string \<Rightarrow> nat list" where
  "chars_of s = (case utf8_decode s of Some cs \<Rightarrow> cs | None \<Rightarrow> [])"

function mailbox_pattern :: "(bytes \<Rightarrow> string) \<Rightarrow> string \<Rightarrow> string" where
  "mailbox_pattern enc [] = []"
| "mailbox_pattern enc (b # bs) =
     (let end = takeWhile (\<lambda>b. \<not> is_ascii b) (b # bs); rest = dropWhile (\<lambda>b. \<not> is_ascii b) (b # bs) in
      (if end \<noteq> [] then ''&'' @ enc (utf16_bytes (chars_of end)) @ ''-'' else [])
      @ (case rest of [] \<Rightarrow> [] | a # rest \<Rightarrow> a # (if a = CHR ''&'' then ''-'' else []) @ mailbox_pattern enc rest))"
  by pat_completeness auto

termination
proof (relation "measure (length \<circ> snd)", goal_cases)
  case (2 enc b bs e rest a rest')
  then have "length (a # rest') \<le> length (b # bs)" using length_dropWhile_le by metis
  then show ?case by simp
qed simp

definition push_char :: "string \<Rightarrow> nat \<Rightarrow> string imap" where
  "push_char decoded c =
     (if length (utf8_char c) > 1024 - length decoded then Inl ImapProtocol else Inr (decoded @ utf8_char c))"

definition shifted_chars :: "(string \<Rightarrow> bytes option) \<Rightarrow> string \<Rightarrow> string \<Rightarrow> string imap" where
  "shifted_chars dec decoded payload =
     (case dec payload of None \<Rightarrow> Inl ImapProtocol
      | Some bs \<Rightarrow>
          if length bs mod 2 \<noteq> 0 then Inl ImapProtocol
          else and_then (ok_or ImapProtocol (decode_utf16 (byte_pairs bs))) (try_fold push_char decoded))"

function decode_shifts :: "(string \<Rightarrow> bytes option) \<Rightarrow> string \<Rightarrow> string \<Rightarrow> string imap" where
  "decode_shifts dec decoded remaining =
     (case split_once CHR ''&'' remaining of
        None \<Rightarrow> if length remaining > 1024 - length decoded then Inl ImapProtocol else Inr (decoded @ remaining)
      | Some (plain, shifted) \<Rightarrow>
          if length plain > 1024 - length decoded then Inl ImapProtocol
          else (case split_once CHR ''-'' shifted of None \<Rightarrow> Inl ImapProtocol
            | Some (payload, after) \<Rightarrow>
                and_then (if payload = [] then Inr (decoded @ plain @ ''&'') else shifted_chars dec (decoded @ plain) payload)
                  (\<lambda>decoded. if length decoded > 1024 then Inl ImapProtocol else decode_shifts dec decoded after)))"
  by pat_completeness auto

termination
  by (relation "measure (\<lambda>(_, _, remaining). length remaining)") (auto simp: split_once_Some_iff)

definition decode_wire_mailbox_name :: "(bytes \<Rightarrow> string) \<Rightarrow> (string \<Rightarrow> bytes option) \<Rightarrow> string \<Rightarrow> string imap" where
  "decode_wire_mailbox_name enc dec wire =
     (if length wire > 4096 \<or> list_ex (\<lambda>b. \<not> (32 \<le> ord b \<and> ord b \<le> 126)) wire then Inl ImapProtocol
      else and_then (decode_shifts dec [] wire) (\<lambda>decoded.
        if any_control decoded \<or> mailbox_pattern enc decoded \<noteq> wire then Inl ImapProtocol else Inr decoded))"

definition quote :: "string \<Rightarrow> string imap" where
  "quote v =
     (if list_ex (\<lambda>b. ord b < 32 \<or> ord b = 127) v then Inl ImapUnsupported
      else Inr (''\"'' @ concat (map (\<lambda>c. if c = CHR 0x22 \<or> c = CHR 0x5C then [CHR 0x5C, c] else [c]) v) @ ''\"''))"

section \<open>Names survive the wire\<close>

text \<open>The documented behaviour of the base64 engine with the IMAP alphabet and no padding.\<close>

definition utf7_letter :: "byte \<Rightarrow> bool" where
  "utf7_letter b = (is_ascii_alphanumeric b \<or> b = CHR ''+'' \<or> b = CHR '','')"

definition utf7_engine :: "(bytes \<Rightarrow> string) \<Rightarrow> (string \<Rightarrow> bytes option) \<Rightarrow> bool" where
  "utf7_engine enc dec \<longleftrightarrow> (\<forall>bs. dec (enc bs) = Some bs \<and> list_all utf7_letter (enc bs) \<and> length (enc bs) \<le> 2 * length bs)"

lemma utf7_engineD:
  assumes "utf7_engine enc dec"
  shows "dec (enc bs) = Some bs" "list_all utf7_letter (enc bs)" "length (enc bs) \<le> 2 * length bs" "enc bs = [] \<Longrightarrow> bs = []"
proof -
  have all: "\<And>bs. dec (enc bs) = Some bs \<and> list_all utf7_letter (enc bs) \<and> length (enc bs) \<le> 2 * length bs"
    using assms by (simp add: utf7_engine_def)
  show "dec (enc bs) = Some bs" "list_all utf7_letter (enc bs)" "length (enc bs) \<le> 2 * length bs" using all by blast+
  show "bs = []" if "enc bs = []"
  proof -
    have "enc [] = []" using all [of "[]"] by simp
    with that all [of bs] all [of "[]"] show ?thesis by simp
  qed
qed

lemma utf7_letter_bounds: "utf7_letter b \<Longrightarrow> 32 \<le> ord b \<and> ord b \<le> 126 \<and> b \<noteq> CHR ''-'' \<and> b \<noteq> CHR ''&''"
proof -
  have codes: "ord CHR ''+'' = 43" "ord CHR '','' = 44" "ord CHR ''-'' = 45" "ord CHR ''&'' = 38" by code_simp+
  assume "utf7_letter b"
  then show ?thesis
    by (auto simp: utf7_letter_def is_ascii_alphanumeric_def is_ascii_digit_def is_ascii_upper_def is_ascii_lower_def codes)
qed

lemma char_bytes:
  assumes "scalar c"
  shows "c < 128 \<Longrightarrow> utf8_char c = [chr c] \<and> is_ascii (chr c)"
    and "\<not> c < 128 \<Longrightarrow> list_all (\<lambda>b. \<not> is_ascii b) (utf8_char c) \<and> utf8_char c \<noteq> []"
proof -
  show "utf8_char c = [chr c] \<and> is_ascii (chr c)" if "c < 128"
    using that by (simp add: utf8_char_def is_ascii_def)
  have "c div 262144 < 5" using assms by (auto simp: scalar_def)
  then show "list_all (\<lambda>b. \<not> is_ascii b) (utf8_char c) \<and> utf8_char c \<noteq> []" if "\<not> c < 128"
    using that by (auto simp: utf8_char_def is_ascii_def less_mult_imp_div_less)
qed

lemma takeWhile_chars:
  assumes "list_all scalar cs"
  shows "takeWhile (\<lambda>b. \<not> is_ascii b) (utf8_encode cs) = utf8_encode (takeWhile (\<lambda>c. \<not> c < 128) cs)
    \<and> dropWhile (\<lambda>b. \<not> is_ascii b) (utf8_encode cs) = utf8_encode (dropWhile (\<lambda>c. \<not> c < 128) cs)"
  using assms
proof (induction cs)
  case (Cons c cs)
  show ?case
  proof (cases "c < 128")
    case True
    with char_bytes(1) [of c] Cons.prems show ?thesis by simp
  next
    case False
    with char_bytes(2) [of c] Cons show ?thesis by (simp add: list_all_iff)
  qed
qed simp

lemma chars_of_encode: "list_all scalar cs \<Longrightarrow> chars_of (utf8_encode cs) = cs"
  by (simp add: chars_of_def utf8_decode_encode)

lemma pattern_step:
  assumes "list_all scalar cs" and "cs \<noteq> []"
  defines "run \<equiv> takeWhile (\<lambda>c. \<not> c < 128) cs"
  shows "mailbox_pattern enc (utf8_encode cs) =
    (if run \<noteq> [] then ''&'' @ enc (utf16_bytes run) @ ''-'' else [])
    @ (case dropWhile (\<lambda>c. \<not> c < 128) cs of [] \<Rightarrow> []
       | c # rest \<Rightarrow> chr c # (if chr c = CHR ''&'' then ''-'' else []) @ mailbox_pattern enc (utf8_encode rest))"
proof -
  have chars: "list_all scalar run" "list_all scalar (dropWhile (\<lambda>c. \<not> c < 128) cs)"
    using assms(1) by (auto simp: run_def list_all_iff dest: set_takeWhileD set_dropWhileD)
  have nonempty: "utf8_encode ds = [] \<longleftrightarrow> ds = []" if "list_all scalar ds" for ds
    using that char_bytes by (cases ds; force)
  obtain b bs where b: "utf8_encode cs = b # bs" using nonempty [OF assms(1)] assms(2) by (cases "utf8_encode cs") auto
  have t: "takeWhile (\<lambda>b. \<not> is_ascii b) (b # bs) = utf8_encode run"
    and d: "dropWhile (\<lambda>b. \<not> is_ascii b) (b # bs) = utf8_encode (dropWhile (\<lambda>c. \<not> c < 128) cs)"
    using takeWhile_chars [OF assms(1), folded run_def] by (simp_all only: b)
  note unfold = b mailbox_pattern.simps(2) Let_def t d chars_of_encode [OF chars(1)] nonempty [OF chars(1)]
  show ?thesis
  proof (cases "dropWhile (\<lambda>c. \<not> c < 128) cs")
    case Nil
    show ?thesis unfolding unfold unfolding Nil by simp
  next
    case (Cons c rest)
    then have "c < 128" by (auto simp: dropWhile_eq_Cons_conv)
    moreover have "scalar c" using chars(2) Cons by simp
    ultimately have "utf8_encode (c # rest) = chr c # utf8_encode rest" using char_bytes(1) by simp
    then show ?thesis unfolding unfold unfolding Cons by simp
  qed
qed

declare decode_shifts.simps [simp del] mailbox_pattern.simps [simp del]

lemma shifts_plain:
  assumes "a \<noteq> CHR ''&''" and "length d < 1024"
  shows "decode_shifts dec d (a # w) = decode_shifts dec (d @ [a]) w"
proof (cases "split_once CHR ''&'' w")
  case None
  with assms show ?thesis by (auto simp: decode_shifts.simps [of dec d] decode_shifts.simps [of dec "d @ [a]"])
next
  case (Some ps)
  obtain plain shifted where "ps = (plain, shifted)" by force
  with Some assms show ?thesis
    by (auto simp: decode_shifts.simps [of dec d] decode_shifts.simps [of dec "d @ [a]"] split: option.split)
qed

lemma shifts_ampersand:
  "length d < 1024 \<Longrightarrow> decode_shifts dec d (CHR ''&'' # CHR ''-'' # w) = decode_shifts dec (d @ ''&'') w"
  by (simp add: decode_shifts.simps [of dec d])

lemma push_chars:
  "length d + length (utf8_encode cs) \<le> 1024 \<Longrightarrow> try_fold push_char d cs = Inr (d @ utf8_encode cs)"
  by (induction cs arbitrary: d) (auto simp: push_char_def and_then_def)

lemma shifts_run:
  assumes "utf7_engine enc dec" and "list_all scalar cs" and "cs \<noteq> []" and "length d + length (utf8_encode cs) \<le> 1024"
  shows "decode_shifts dec d (''&'' @ enc (utf16_bytes cs) @ ''-'' @ w) = decode_shifts dec (d @ utf8_encode cs) w"
proof -
  let ?p = "enc (utf16_bytes cs)"
  have "CHR ''-'' \<notin> set ?p" using utf7_engineD(2) [OF assms(1)] utf7_letter_bounds by (fastforce simp: list_all_iff)
  then have once: "split_once CHR ''-'' (?p @ ''-'' @ w) = Some (?p, w)" by (simp add: split_once_Some_iff)
  have "utf16_bytes cs \<noteq> []" using assms(3) by (cases cs) (auto simp: utf16_bytes_def utf16_units_def)
  then have ne: "?p \<noteq> []" using utf7_engineD(4) [OF assms(1)] by blast
  have "shifted_chars dec d ?p = Inr (d @ utf8_encode cs)"
    using utf7_engineD(1) [OF assms(1)] assms(2,4)
    by (simp add: shifted_chars_def utf16_bytes_even byte_pairs_utf16 decode_utf16_round push_chars)
  with once ne assms(4) show ?thesis by (simp add: decode_shifts.simps [of dec d])
qed

lemma decode_pattern:
  assumes "utf7_engine enc dec"
  shows "list_all scalar cs \<Longrightarrow> length d + length (utf8_encode cs) \<le> 1024 \<Longrightarrow>
    decode_shifts dec d (mailbox_pattern enc (utf8_encode cs)) = Inr (d @ utf8_encode cs)"
proof (induction "length cs" arbitrary: cs d rule: less_induct)
  case less
  show ?case
  proof (cases "cs = []")
    case True
    then show ?thesis by (simp add: decode_shifts.simps mailbox_pattern.simps)
  next
    case False
    define run where "run = takeWhile (\<lambda>c. \<not> c < 128) cs"
    define rest where "rest = dropWhile (\<lambda>c. \<not> c < 128) cs"
    define tail where "tail = (case rest of [] \<Rightarrow> [] | c # rest \<Rightarrow> chr c # (if chr c = CHR ''&'' then ''-'' else []) @ mailbox_pattern enc (utf8_encode rest))"
    have cs: "cs = run @ rest" by (simp add: run_def rest_def)
    have ok: "list_all scalar run" "list_all scalar rest" using less.prems(1) by (simp_all add: cs)
    have len: "length d + length (utf8_encode run) + length (utf8_encode rest) \<le> 1024" using less.prems(2) by (simp add: cs)
    have pattern: "mailbox_pattern enc (utf8_encode cs) = (if run \<noteq> [] then ''&'' @ enc (utf16_bytes run) @ ''-'' else []) @ tail"
      using pattern_step [OF less.prems(1) False] by (simp only: run_def rest_def tail_def)
    have "decode_shifts dec d (mailbox_pattern enc (utf8_encode cs)) = decode_shifts dec (d @ utf8_encode run) tail"
      using shifts_run [OF assms ok(1)] len by (auto simp: pattern)
    also have "\<dots> = Inr (d @ utf8_encode run @ utf8_encode rest)"
    proof (cases rest)
      case Nil
      then show ?thesis by (simp add: tail_def decode_shifts.simps)
    next
      case (Cons c ds)
      have "dropWhile (\<lambda>c. \<not> c < 128) cs = c # ds" using Cons rest_def by simp
      then have c: "c < 128" by (simp add: dropWhile_eq_Cons_conv)
      have u: "utf8_char c = [chr c]" using char_bytes(1) ok(2) c Cons by auto
      have "decode_shifts dec (d @ utf8_encode run) tail = decode_shifts dec (d @ utf8_encode run @ [chr c]) (mailbox_pattern enc (utf8_encode ds))"
        using shifts_plain [of "chr c" "d @ utf8_encode run"] shifts_ampersand [of "d @ utf8_encode run"] len u
        by (auto simp: tail_def Cons)
      also have "\<dots> = Inr ((d @ utf8_encode run @ [chr c]) @ utf8_encode ds)"
        by (rule less.hyps) (use ok(2) len u in \<open>auto simp: Cons cs\<close>)
      finally show ?thesis by (simp add: Cons u)
    qed
    finally show ?thesis by (simp add: cs)
  qed
qed

lemma any_control_ascii: "any_control s = False \<Longrightarrow> b \<in> set s \<Longrightarrow> is_ascii b \<Longrightarrow> 32 \<le> ord b \<and> ord b \<le> 126"
  by (induction s) (auto simp: is_ascii_def)

definition printable :: "byte \<Rightarrow> bool" where
  "printable b \<longleftrightarrow> 32 \<le> ord b \<and> ord b \<le> 126"

lemma utf16_length: "list_all (\<lambda>c. scalar c \<and> \<not> c < 128) cs \<Longrightarrow> length (utf16_bytes cs) \<le> length (utf8_encode cs)"
proof -
  have "length (concat (map (\<lambda>u. [chr (u div 256), chr (u mod 256)]) us)) = 2 * length us" for us
    by (induction us) auto
  then show "list_all (\<lambda>c. scalar c \<and> \<not> c < 128) cs \<Longrightarrow> length (utf16_bytes cs) \<le> length (utf8_encode cs)"
    unfolding utf16_bytes_def by (induction cs) (auto simp: utf16_units_def utf8_char_def)
qed

text \<open>On the wire a name is printable ASCII, at most four times as long.\<close>

lemma pattern_wire:
  assumes "utf7_engine enc dec"
  shows "list_all scalar cs \<Longrightarrow> (\<forall>b \<in> set (utf8_encode cs). is_ascii b \<longrightarrow> printable b) \<Longrightarrow>
    list_all printable (mailbox_pattern enc (utf8_encode cs)) \<and> length (mailbox_pattern enc (utf8_encode cs)) \<le> 4 * length (utf8_encode cs)"
proof (induction "length cs" arbitrary: cs rule: less_induct)
  case less
  show ?case
  proof (cases "cs = []")
    case True
    then show ?thesis by (simp add: mailbox_pattern.simps)
  next
    case False
    define run where "run = takeWhile (\<lambda>c. \<not> c < 128) cs"
    define rest where "rest = dropWhile (\<lambda>c. \<not> c < 128) cs"
    have cs: "cs = run @ rest" by (simp add: run_def rest_def)
    have ok: "list_all scalar run" "list_all scalar rest" using less.prems(1) by (simp_all add: cs)
    have high: "list_all (\<lambda>c. scalar c \<and> \<not> c < 128) run"
      using ok(1) by (auto simp: run_def list_all_iff dest: set_takeWhileD)
    let ?p = "enc (utf16_bytes run)"
    have p: "list_all printable ?p" "length ?p \<le> 2 * length (utf8_encode run)"
      using utf7_engineD(2,3) [OF assms, of "utf16_bytes run"] utf16_length [OF high] utf7_letter_bounds
      by (auto simp: list_all_iff printable_def dest: order_trans)
    have run_len: "run \<noteq> [] \<Longrightarrow> 2 \<le> length (utf8_encode run)"
      using high by (cases run) (auto simp: utf8_char_def)
    have codes: "printable CHR ''&''" "printable CHR ''-''" by code_simp+
    have pattern: "mailbox_pattern enc (utf8_encode cs) = (if run \<noteq> [] then ''&'' @ ?p @ ''-'' else [])
        @ (case rest of [] \<Rightarrow> [] | c # rest \<Rightarrow> chr c # (if chr c = CHR ''&'' then ''-'' else []) @ mailbox_pattern enc (utf8_encode rest))"
      using pattern_step [OF less.prems(1) False] by (simp only: run_def rest_def)
    show ?thesis
    proof (cases rest)
      case Nil
      then have "length (utf8_encode cs) = length (utf8_encode run)" by (simp add: cs)
      then show ?thesis unfolding pattern using p run_len codes Nil by auto
    next
      case (Cons c ds)
      have "dropWhile (\<lambda>c. \<not> c < 128) cs = c # ds" using Cons rest_def by simp
      then have c: "c < 128" by (simp add: dropWhile_eq_Cons_conv)
      have u: "utf8_char c = [chr c]" "is_ascii (chr c)" using char_bytes(1) ok(2) c Cons by auto
      have "printable (chr c)" using less.prems(2) u by (auto simp: cs Cons)
      moreover have "list_all printable (mailbox_pattern enc (utf8_encode ds))
          \<and> length (mailbox_pattern enc (utf8_encode ds)) \<le> 4 * length (utf8_encode ds)"
        by (rule less.hyps) (use less.prems ok(2) in \<open>auto simp: Cons cs\<close>)
      moreover have "length (utf8_encode cs) = length (utf8_encode run) + 1 + length (utf8_encode ds)"
        by (simp add: cs Cons u(1))
      ultimately show ?thesis unfolding pattern using p run_len codes Cons by auto
    qed
  qed
qed

text \<open>
  C23: A mailbox name that the client accepts reaches the server as a printable string that quotes
  without error, and the server's listing of it decodes to the same name.
\<close>

theorem mailbox_name_round_trip:
  assumes "utf7_engine enc dec" and "utf8_decode name \<noteq> None" and "mailbox_argument name = Inr ()"
  shows "decode_wire_mailbox_name enc dec (mailbox_pattern enc name) = Inr name \<and> is_ok (quote (mailbox_pattern enc name))"
proof -
  obtain cs where cs: "list_all scalar cs" "name = utf8_encode cs" using assms(2) utf8_decode_Some by blast
  have ok: "length name \<le> 1024" "\<not> any_control name"
    using assms(3) by (auto simp: mailbox_argument_def split: if_splits)
  have wire: "list_all printable (mailbox_pattern enc name) \<and> length (mailbox_pattern enc name) \<le> 4 * length name"
    using pattern_wire [OF assms(1) cs(1)] any_control_ascii [of name] ok(2) by (auto simp: printable_def cs(2))
  have "decode_shifts dec [] (mailbox_pattern enc name) = Inr name"
    using decode_pattern [OF assms(1) cs(1), of "[]"] ok(1) by (simp add: cs(2))
  with wire ok show ?thesis
    by (auto simp: decode_wire_mailbox_name_def quote_def is_ok_def list_ex_iff list_all_iff printable_def)
qed

section \<open>A concrete engine\<close>

text \<open>Base64 with the IMAP alphabet, used to run the example.\<close>

definition utf7_digit :: "nat \<Rightarrow> byte" where
  "utf7_digit n =
     (if n < 26 then chr (n + 65) else if n < 52 then chr (n - 26 + 97) else if n < 62 then chr (n - 52 + 48)
      else if n = 62 then CHR ''+'' else CHR '','')"

definition utf7_value :: "byte \<Rightarrow> nat option" where
  "utf7_value b =
     (if is_ascii_upper b then Some (ord b - 65)
      else if is_ascii_lower b then Some (ord b - 97 + 26)
      else if is_ascii_digit b then Some (ord b - 48 + 52)
      else if b = CHR ''+'' then Some 62
      else if b = CHR '','' then Some 63 else None)"

fun utf7_encode :: "bytes \<Rightarrow> string" where
  "utf7_encode [] = []"
| "utf7_encode [a] = [utf7_digit (ord a div 4), utf7_digit (ord a mod 4 * 16)]"
| "utf7_encode [a, b] = [utf7_digit (ord a div 4), utf7_digit (ord a mod 4 * 16 + ord b div 16), utf7_digit (ord b mod 16 * 4)]"
| "utf7_encode (a # b # c # s) =
     [utf7_digit (ord a div 4), utf7_digit (ord a mod 4 * 16 + ord b div 16), utf7_digit (ord b mod 16 * 4 + ord c div 64),
      utf7_digit (ord c mod 64)] @ utf7_encode s"

fun utf7_decode :: "string \<Rightarrow> bytes option" where
  "utf7_decode [] = Some []"
| "utf7_decode [w] = None"
| "utf7_decode [w, x] =
     (case (utf7_value w, utf7_value x) of
        (Some w, Some x) \<Rightarrow> if x mod 16 = 0 then Some [chr (w * 4 + x div 16)] else None
      | _ \<Rightarrow> None)"
| "utf7_decode [w, x, y] =
     (case (utf7_value w, utf7_value x, utf7_value y) of
        (Some w, Some x, Some y) \<Rightarrow> if y mod 4 = 0 then Some [chr (w * 4 + x div 16), chr (x mod 16 * 16 + y div 4)] else None
      | _ \<Rightarrow> None)"
| "utf7_decode (w # x # y # z # s) =
     (case (utf7_value w, utf7_value x, utf7_value y, utf7_value z) of
        (Some w, Some x, Some y, Some z) \<Rightarrow>
          map_option ((@) [chr (w * 4 + x div 16), chr (x mod 16 * 16 + y div 4), chr (y mod 4 * 64 + z)]) (utf7_decode s)
      | _ \<Rightarrow> None)"

lemma utf7_digit:
  assumes "n < 64"
  shows "utf7_value (utf7_digit n) = Some n" "utf7_letter (utf7_digit n)"
proof -
  have codes: "ord CHR ''+'' = 43" "ord CHR '','' = 44" by code_simp+
  note classes = is_ascii_alphanumeric_def is_ascii_digit_def is_ascii_upper_def is_ascii_lower_def codes
  show "utf7_value (utf7_digit n) = Some n" using assms by (auto simp: utf7_value_def utf7_digit_def classes)
  show "utf7_letter (utf7_digit n)" by (auto simp: utf7_letter_def utf7_digit_def classes)
qed

lemma byte_digits:
  "ord a div 4 < 64" "ord a mod 4 * 16 < 64" "ord a mod 4 * 16 + ord b div 16 < 64" "ord b mod 16 * 4 < 64"
  "ord b mod 16 * 4 + ord c div 64 < 64" "ord c mod 64 < 64"
proof -
  have "ord b div 16 < 16" "ord c div 64 < 4" "ord a div 4 < 64"
    by (simp_all add: less_mult_imp_div_less)
  moreover have "ord a mod 4 < 4" "ord b mod 16 < 16" "ord c mod 64 < 64" by simp_all
  moreover have "w < 4 \<Longrightarrow> x < 16 \<Longrightarrow> w * 16 + x < 64" "x < 16 \<Longrightarrow> w < 4 \<Longrightarrow> x * 4 + w < 64" "w < 4 \<Longrightarrow> w * 16 < 64" "x < 16 \<Longrightarrow> x * 4 < 64"
    for w x :: nat by simp_all
  ultimately show "ord a div 4 < 64" "ord a mod 4 * 16 < 64" "ord a mod 4 * 16 + ord b div 16 < 64" "ord b mod 16 * 4 < 64"
    "ord b mod 16 * 4 + ord c div 64 < 64" "ord c mod 64 < 64"
    by blast+
qed

lemma digit_split:
  "y < 16 \<Longrightarrow> (x * 16 + y) div 16 = x \<and> (x * 16 + y) mod 16 = (y::nat)" "y < 4 \<Longrightarrow> (x * 4 + y) div 4 = x \<and> (x * 4 + y) mod 4 = (y::nat)"
  by simp_all

lemma byte_join:
  "chr (ord a div 4 * 4 + (ord a mod 4 * 16 + ord b div 16) div 16) = a"
  "chr ((ord a mod 4 * 16 + ord b div 16) mod 16 * 16 + (ord b mod 16 * 4 + ord c div 64) div 4) = b"
  "chr ((ord b mod 16 * 4 + ord c div 64) mod 4 * 64 + ord c mod 64) = c"
proof -
  have "ord b div 16 < 16" "ord c div 64 < 4" by (simp_all add: less_mult_imp_div_less)
  note parts = digit_split(1) [OF this(1)] digit_split(2) [OF this(2)]
  show "chr (ord a div 4 * 4 + (ord a mod 4 * 16 + ord b div 16) div 16) = a"
    by (simp only: parts div_mult_mod_eq chr_ord)
  show "chr ((ord a mod 4 * 16 + ord b div 16) mod 16 * 16 + (ord b mod 16 * 4 + ord c div 64) div 4) = b"
    by (simp only: parts div_mult_mod_eq chr_ord)
  show "chr ((ord b mod 16 * 4 + ord c div 64) mod 4 * 64 + ord c mod 64) = c"
    by (simp only: parts div_mult_mod_eq chr_ord)
qed

lemma utf7_engine_concrete: "utf7_engine utf7_encode utf7_decode"
proof -
  have "utf7_decode (utf7_encode bs) = Some bs \<and> list_all utf7_letter (utf7_encode bs) \<and> length (utf7_encode bs) \<le> 2 * length bs" for bs
  proof (induction bs rule: utf7_encode.induct)
    case (2 a)
    have "chr (ord a div 4 * 4 + ord a mod 4 * 16 div 16) = a" "ord a mod 4 * 16 mod 16 = 0" by simp_all
    then show ?case by (simp only: utf7_encode.simps utf7_decode.simps) (simp add: utf7_digit byte_digits del: mod_mult_self2_is_0)
  next
    case (3 a b)
    have "(ord b mod 16 * 4) div 4 = ord b mod 16" "ord b mod 16 * 4 mod 4 = 0" by simp_all
    then have "chr ((ord a mod 4 * 16 + ord b div 16) mod 16 * 16 + (ord b mod 16 * 4) div 4) = b"
      using digit_split(1) [of "ord b div 16" "ord a mod 4"] by (simp add: less_mult_imp_div_less)
    with byte_join(1) [of a b] show ?case by (simp add: utf7_digit byte_digits)
  next
    case (4 a b c s)
    note joined = byte_join(1) [of a b] byte_join(2) [of a b c] byte_join(3) [of b c]
    have "utf7_decode (utf7_encode (a # b # c # s)) = Some (a # b # c # s)"
      using 4 by (simp only: utf7_encode.simps append_Cons append_Nil utf7_decode.simps utf7_digit byte_digits option.case prod.case
          joined option.map)
    with 4 show ?case by (simp add: utf7_digit byte_digits)
  qed simp
  then show ?thesis by (simp add: utf7_engine_def)
qed

lemma mailbox_name_round_trip_witness:
  "decode_wire_mailbox_name utf7_encode utf7_decode (mailbox_pattern utf7_encode [CHR 0xC3, CHR 0xA9, CHR ''&'', CHR ''x''])
     = Inr [CHR 0xC3, CHR 0xA9, CHR ''&'', CHR ''x'']"
proof -
  have "utf8_decode [CHR 0xC3, CHR 0xA9, CHR ''&'', CHR ''x''] \<noteq> None"
    "mailbox_argument [CHR 0xC3, CHR 0xA9, CHR ''&'', CHR ''x''] = Inr ()"
    by code_simp+
  from mailbox_name_round_trip [OF utf7_engine_concrete this] show ?thesis by blast
qed

end
