(* ===== verification/Wire.thy ===== *)
theory Wire
  imports Projection MailboxNames
begin

text \<open>
  Commands over one IMAP connection (\<open>src/src/imap/wire.rs\<close>). What the response parser yields and how
  writes fail are inputs of the connection state: the list of future reads, each with the wire octets it
  consumed, and the list of future write results. Everything written is logged in \<open>conn_sent\<close>, also when the write fails
  half-way.
\<close>

section \<open>The connection\<close>

text \<open>\<open>ReadFailed\<close> carries the failure that the admission layer recorded, if any.\<close>

datatype ReadResult = ReadPanic | ReadFailed "ImapError option" | ReadEof | ReadOk Response

record WireRead =
  wr_bytes :: nat
  wr_result :: ReadResult

record Connection =
  conn_reads :: "WireRead list"
  conn_faults :: "ImapError option list"
  conn_sent :: "bytes list"
  conn_limits :: ImapLimits
  conn_contract :: FrameContract
  conn_metrics :: Metrics
  conn_next_tag :: u64
  conn_uid_validity :: "u32 option"
  conn_fuzzy :: bool

type_synonym 'a wire = "Connection \<Rightarrow> 'a imap \<times> Connection"

definition wire_return :: "'a \<Rightarrow> 'a wire" where
  "wire_return x c = (Inr x, c)"

definition wire_lift :: "'a imap \<Rightarrow> 'a wire" where
  "wire_lift r c = (r, c)"

definition wire_bind :: "'a wire \<Rightarrow> ('a \<Rightarrow> 'b wire) \<Rightarrow> 'b wire" where
  "wire_bind m k c = (case m c of (Inl e, c) \<Rightarrow> (Inl e, c) | (Inr x, c) \<Rightarrow> k x c)"

definition prepare :: "FrameContract \<Rightarrow> Connection \<Rightarrow> Connection" where
  "prepare contract c = c\<lparr>conn_contract := contract\<rparr>"

definition literal_limit :: "Connection \<Rightarrow> nat" where
  "literal_limit c = il_literal_bytes (conn_limits c)"

definition limit_body :: "ImapLimits \<Rightarrow> Connection \<Rightarrow> Connection" where
  "limit_body l c = c\<lparr>conn_limits := l\<rparr>"

definition limit_search :: "Limits \<Rightarrow> Connection \<Rightarrow> Connection" where
  "limit_search l c = c\<lparr>conn_limits := (conn_limits c)\<lparr>il_literal_bytes := l_header_bytes l,
     il_response_bytes := min (max (saturating_add (saturating_mul (l_header_bytes l) 2) (16 * 1024)) 120000) (l_wire_fetch_bytes l),
     il_operation_bytes := l_wire_fetch_bytes l\<rparr>\<rparr>"

definition first_word :: "string \<Rightarrow> string" where
  "first_word v = takeWhile (\<lambda>b. \<not> is_ascii_whitespace b) (dropWhile is_ascii_whitespace v)"

definition check_outcome :: "u32 option \<Rightarrow> Outcome \<Rightarrow> unit imap" where
  "check_outcome validity r =
     (if out_code r = Some CodeReadWrite then Inl ImapUnsafeSelection
      else if is_some_and (out_information r) (\<lambda>t. eq_ignore_ascii_case (first_word t) ''[REFERRAL'') then Inl ImapUnsupported
      else case out_code r of
          Some (CodeUidValidity v) \<Rightarrow>
            if v = 0 \<or> is_some_and validity (\<lambda>expected. v \<noteq> expected) then Inl ImapUnsafeSelection else Inr ()
        | _ \<Rightarrow> Inr ())"

fun response_outcome :: "Response \<Rightarrow> Outcome option" where
  "response_outcome (RespDone t s r) = Some r"
| "response_outcome (RespData s r) = Some r"
| "response_outcome (RespContinue r) = Some r"
| "response_outcome _ = None"

definition conn_read :: "Response wire" where
  "conn_read c =
     (case conn_reads c of
        [] \<Rightarrow> (Inl ImapEof, c)
      | r # rs \<Rightarrow>
          let c = c\<lparr>conn_reads := rs,
            conn_metrics := (conn_metrics c)\<lparr>met_wire_bytes := met_wire_bytes (conn_metrics c) + wr_bytes r\<rparr>\<rparr> in
          (case wr_result r of
             ReadPanic \<Rightarrow> (Inl ImapParserPanic, c)
           | ReadFailed f \<Rightarrow> (Inl (case f of None \<Rightarrow> ImapProtocol | Some e \<Rightarrow> e), c)
           | ReadEof \<Rightarrow> (Inl ImapEof, c)
           | ReadOk response \<Rightarrow>
               (case response_outcome response of
                  None \<Rightarrow> (Inr response, c)
                | Some r \<Rightarrow> (and_then (check_outcome (conn_uid_validity c) r) (\<lambda>_. Inr response), c))))"

text \<open>The fault of a write is the failure the admission layer recorded, or the mapped I/O error.\<close>

definition conn_write :: "bytes \<Rightarrow> unit wire" where
  "conn_write bs c =
     (let d = c\<lparr>conn_sent := conn_sent c @ [bs], conn_faults := drop 1 (conn_faults c)\<rparr> in
      case conn_faults c of Some e # _ \<Rightarrow> (Inl e, d) | _ \<Rightarrow> (Inr (), d))"

definition conn_tag :: "string wire" where
  "conn_tag c =
     (if conn_next_tag c = - 1 then (Inl ImapLimit, c)
      else (Inr (''M'' @ show_nat (unat (conn_next_tag c + 1))), c\<lparr>conn_next_tag := conn_next_tag c + 1\<rparr>))"

section \<open>Requests\<close>

datatype Kind =
    KindCapability | KindLogin | KindStartTls | KindList | KindExamine | KindSearch | KindProjection
  | KindBody Fetch | KindLogout

fun kind_contract :: "Kind \<Rightarrow> FrameContract" where
  "kind_contract KindList = ContractList"
| "kind_contract KindProjection = ContractMetadata"
| "kind_contract (KindBody f) = fetch_contract f"
| "kind_contract _ = ContractOther"

record collect_state =
  cs_rows :: "Response list"
  cs_sequences :: "u32 list"
  cs_uids :: "u32 list"
  cs_validity :: "u32 option"
  cs_bye :: bool

definition collect_start :: collect_state where
  "collect_start = \<lparr>cs_rows = [], cs_sequences = [], cs_uids = [], cs_validity = None, cs_bye = False\<rparr>"

definition push_response :: "Response \<Rightarrow> collect_state \<Rightarrow> collect_state" where
  "push_response row s = s\<lparr>cs_rows := cs_rows s @ [row]\<rparr>"

definition collect_done :: "string \<Rightarrow> Kind \<Rightarrow> collect_state \<Rightarrow> string \<Rightarrow> Status \<Rightarrow> Outcome \<Rightarrow> unit imap" where
  "collect_done tag kind s returned status r =
     (if returned \<noteq> tag then Inl ImapProtocol
      else if status \<noteq> StatusOk then Inl (if kind = KindLogin then ImapAuthentication else ImapProtocol)
      else case kind of
          KindExamine \<Rightarrow> if out_code r \<noteq> Some CodeReadOnly \<or> cs_validity s = None then Inl ImapUnsafeSelection else Inr ()
        | KindBody _ \<Rightarrow> if cs_rows s = [] then Inl ImapMessageNotFound else Inr ()
        | KindSearch \<Rightarrow> if length (cs_rows s) \<noteq> 1 then Inl ImapProtocol else Inr ()
        | KindLogout \<Rightarrow> if \<not> cs_bye s then Inl ImapProtocol else Inr ()
        | _ \<Rightarrow> Inr ())"

definition collect_ok :: "Kind \<Rightarrow> collect_state \<Rightarrow> Response \<Rightarrow> Outcome \<Rightarrow> collect_state imap" where
  "collect_ok kind s row r =
     (if kind \<noteq> KindExamine then Inr s
      else case out_code r of
          Some (CodeUidValidity v) \<Rightarrow>
            if v = 0 \<or> cs_validity s \<noteq> None then Inl ImapProtocol else Inr (push_response row (s\<lparr>cs_validity := Some v\<rparr>))
        | _ \<Rightarrow> Inr (push_response row s))"

fun first_uid :: "AttributeValue list \<Rightarrow> u32 option" where
  "first_uid [] = None"
| "first_uid (AttrUid v # items) = Some v"
| "first_uid (_ # items) = first_uid items"

definition collect_fetch ::
  "metadata_host \<Rightarrow> Kind \<Rightarrow> collect_state \<Rightarrow> Response \<Rightarrow> u32 \<Rightarrow> AttributeValue list \<Rightarrow> collect_state imap" where
  "collect_fetch h kind s row sequence items =
     (if sequence = 0 \<or> sequence \<in> set (cs_sequences s) then Inl ImapProtocol
      else and_then
        (case kind of
           KindProjection \<Rightarrow> and_then (projection_parse h items) (\<lambda>_. Inr ())
         | KindBody f \<Rightarrow> if cs_rows s = [] then fetch_validate f items else Inl ImapProtocol
         | _ \<Rightarrow> Inl ImapProtocol) (\<lambda>_.
        and_then (ok_or ImapProtocol (first_uid items)) (\<lambda>uid.
          if uid = 0 \<or> uid \<in> set (cs_uids s) then Inl ImapProtocol
          else Inr (push_response row (s\<lparr>cs_sequences := sequence # cs_sequences s, cs_uids := uid # cs_uids s\<rparr>)))))"

definition collect_mailbox :: "Kind \<Rightarrow> ImapLimits \<Rightarrow> collect_state \<Rightarrow> Response \<Rightarrow> MailboxDatum \<Rightarrow> collect_state imap" where
  "collect_mailbox kind l s row d =
     (case d of
        DatumList _ _ \<Rightarrow>
          if kind \<noteq> KindList then Inl ImapUnsupported
          else if length (cs_rows s) = il_mailboxes l then Inl ImapLimit else Inr (push_response row s)
      | DatumSearch ids \<Rightarrow>
          if kind \<noteq> KindSearch then Inl ImapUnsupported
          else if cs_rows s \<noteq> [] \<or> 0 \<in> set ids \<or> \<not> distinct (ids @ cs_uids s) then Inl ImapProtocol
          else Inr (push_response row (s\<lparr>cs_uids := ids @ cs_uids s\<rparr>))
      | DatumOther \<Rightarrow> Inl ImapUnsupported
      | _ \<Rightarrow> Inr s)"

text \<open>One untagged row; \<open>None\<close> is the tagged completion.\<close>

definition collect_row ::
  "metadata_host \<Rightarrow> string \<Rightarrow> Kind \<Rightarrow> ImapLimits \<Rightarrow> collect_state \<Rightarrow> Response \<Rightarrow> collect_state option imap" where
  "collect_row h tag kind l s row =
     (case row of
        RespDone returned status r \<Rightarrow> and_then (collect_done tag kind s returned status r) (\<lambda>_. Inr None)
      | RespData StatusBye _ \<Rightarrow>
          if kind \<noteq> KindLogout then Inl ImapEof else if cs_bye s then Inl ImapProtocol else Inr (Some (s\<lparr>cs_bye := True\<rparr>))
      | RespData StatusOk r \<Rightarrow> and_then (collect_ok kind s row r) (\<lambda>s. Inr (Some s))
      | RespCapabilities _ \<Rightarrow>
          if kind = KindCapability \<or> kind = KindLogin then Inr (Some (push_response row s)) else Inl ImapUnsupported
      | RespMailbox d \<Rightarrow> and_then (collect_mailbox kind l s row d) (\<lambda>s. Inr (Some s))
      | RespFetch sequence items \<Rightarrow> and_then (collect_fetch h kind s row sequence items) (\<lambda>s. Inr (Some s))
      | RespExpunge _ \<Rightarrow> Inr (Some s)
      | _ \<Rightarrow> Inl ImapUnsupported)"

lemma conn_read_shorter: "conn_read c = (Inr row, d) \<Longrightarrow> length (conn_reads d) < length (conn_reads c)"
  by (auto simp: conn_read_def Let_def split: list.splits ReadResult.splits option.splits)

function collect :: "metadata_host \<Rightarrow> string \<Rightarrow> Kind \<Rightarrow> collect_state \<Rightarrow> Response list wire" where
  "collect h tag kind s c =
     (case conn_read c of
        (Inl e, d) \<Rightarrow> (Inl e, d)
      | (Inr row, d) \<Rightarrow>
          (case collect_row h tag kind (conn_limits d) s row of
             Inl e \<Rightarrow> (Inl e, d)
           | Inr None \<Rightarrow> (Inr (cs_rows s), if kind = KindExamine then d\<lparr>conn_uid_validity := cs_validity s\<rparr> else d)
           | Inr (Some s) \<Rightarrow> collect h tag kind s d))"
  by pat_completeness auto

termination
  by (relation "measure (\<lambda>(_, _, _, _, c). length (conn_reads c))") (auto dest: conn_read_shorter [OF sym])

declare collect.simps [simp del]

definition command_line :: "string \<Rightarrow> string \<Rightarrow> bytes" where
  "command_line tag command = tag @ '' '' @ command @ [CR, LF]"

definition request :: "metadata_host \<Rightarrow> string \<Rightarrow> Kind \<Rightarrow> Response list wire" where
  "request h command kind =
     (\<lambda>c. wire_bind conn_tag (\<lambda>tag.
            wire_bind (conn_write (command_line tag command)) (\<lambda>_. collect h tag kind collect_start))
          (prepare (kind_contract kind) c))"

section \<open>Commands\<close>

definition has_capability :: "Capability list \<Rightarrow> string \<Rightarrow> bool" where
  "has_capability caps name = list_ex (\<lambda>c. case c of CapAtom v \<Rightarrow> eq_ignore_ascii_case v name | _ \<Rightarrow> False) caps"

definition greeting :: "unit wire" where
  "greeting c =
     wire_bind conn_read (\<lambda>row. case row of RespData StatusOk _ \<Rightarrow> wire_return () | _ \<Rightarrow> wire_lift (Inl ImapProtocol))
       (prepare ContractOther c)"

definition capabilities :: "metadata_host \<Rightarrow> Capability list wire" where
  "capabilities h =
     wire_bind (request h ''CAPABILITY'' KindCapability) (\<lambda>rows c.
       case rows of
         [RespCapabilities vs] \<Rightarrow> (Inr vs, c\<lparr>conn_fuzzy := has_capability vs ''SEARCH=FUZZY''\<rparr>)
       | _ \<Rightarrow> (Inl ImapProtocol, c))"

definition login :: "metadata_host \<Rightarrow> string \<Rightarrow> string \<Rightarrow> unit wire" where
  "login h user password =
     wire_bind (wire_lift (quote password)) (\<lambda>password.
     wire_bind (wire_lift (quote user)) (\<lambda>user.
     wire_bind (request h (''LOGIN '' @ user @ '' '' @ password) KindLogin) (\<lambda>_. wire_return ())))"

definition logout :: "metadata_host \<Rightarrow> unit wire" where
  "logout h = wire_bind (request h ''LOGOUT'' KindLogout) (\<lambda>_. wire_return ())"

definition uid_next_step :: "u32 option \<Rightarrow> Response \<Rightarrow> u32 option imap" where
  "uid_next_step next row =
     (case row of
        RespData _ r \<Rightarrow>
          (case out_code r of
             Some (CodeUidNext v) \<Rightarrow> if v = 0 \<or> next \<noteq> None then Inl ImapProtocol else Inr (Some v)
           | _ \<Rightarrow> Inr next)
      | _ \<Rightarrow> Inr next)"

definition examine_selection :: "(bytes \<Rightarrow> string) \<Rightarrow> metadata_host \<Rightarrow> string \<Rightarrow> (u32 \<times> u32 option) wire" where
  "examine_selection enc h name =
     wire_bind (wire_lift (quote (mailbox_pattern enc name))) (\<lambda>quoted.
     wire_bind (request h (''EXAMINE '' @ quoted) KindExamine) (\<lambda>rows.
     wire_bind (wire_lift (try_fold uid_next_step None rows)) (\<lambda>next c.
       (case conn_uid_validity c of None \<Rightarrow> Inl ImapUnsafeSelection | Some v \<Rightarrow> Inr (v, next), c))))"

definition examine :: "(bytes \<Rightarrow> string) \<Rightarrow> metadata_host \<Rightarrow> string \<Rightarrow> u32 wire" where
  "examine enc h name = wire_bind (examine_selection enc h name) (\<lambda>(v, _). wire_return v)"

subsection \<open>Search\<close>

datatype SearchTerm = TermAtom string | TermText string string

definition COMMAND_LIMIT :: nat where
  "COMMAND_LIMIT = 32 * 8192 + 2048"

text \<open>
  Text that is not printable goes as a literal: the command so far is sent with the length, and the
  value after the server's continuation.
\<close>

fun send_terms :: "SearchTerm list \<Rightarrow> string \<Rightarrow> nat \<Rightarrow> (string \<times> nat) wire" where
  "send_terms [] pending n = wire_return (pending, n)"
| "send_terms (TermAtom v # ts) pending n = send_terms ts (pending @ '' '' @ v) n"
| "send_terms (TermText key v # ts) pending n =
     (let pending = pending @ '' '' @ key @ '' '' in
      if list_all (\<lambda>b. 32 \<le> ord b \<and> ord b \<le> 126) v
      then wire_bind (wire_lift (quote v)) (\<lambda>q. send_terms ts (pending @ q) n)
      else let pending = pending @ ''{'' @ show_nat (length v) @ ''}'' @ [CR, LF];
               n = saturating_add (saturating_add n (length pending)) (length v) in
        if n > COMMAND_LIMIT then wire_lift (Inl ImapLimit)
        else wire_bind (conn_write pending) (\<lambda>_.
             wire_bind conn_read (\<lambda>row. case row of
                 RespContinue _ \<Rightarrow> wire_bind (conn_write v) (\<lambda>_. send_terms ts [] n)
               | _ \<Rightarrow> wire_lift (Inl ImapProtocol))))"

definition search_start :: "string \<Rightarrow> bool \<Rightarrow> string" where
  "search_start tag utf8 = tag @ '' UID SEARCH'' @ (if utf8 then '' CHARSET UTF-8'' else [])"

definition wire_search :: "metadata_host \<Rightarrow> SearchTerm list \<Rightarrow> bool \<Rightarrow> u32 list wire" where
  "wire_search h terms utf8 c =
     wire_bind conn_tag (\<lambda>tag.
     wire_bind (send_terms terms (search_start tag utf8) (length (search_start tag utf8))) (\<lambda>(pending, n).
     let pending = pending @ [CR, LF] in
     if saturating_add n (length pending) > COMMAND_LIMIT then wire_lift (Inl ImapLimit)
     else wire_bind (conn_write pending) (\<lambda>_.
          wire_bind (collect h tag KindSearch collect_start) (\<lambda>rows.
            case rows of RespMailbox (DatumSearch ids) # _ \<Rightarrow> wire_return ids | _ \<Rightarrow> wire_lift (Inl ImapProtocol)))))
       (prepare ContractOther c)"

definition wire_upper_uid :: "metadata_host \<Rightarrow> u32 option \<Rightarrow> u32 wire" where
  "wire_upper_uid h next =
     (case next of
        Some n \<Rightarrow> wire_lift (if n = 0 then Inl ImapProtocol else Inr (n - 1))
      | None \<Rightarrow> wire_bind (wire_search h [TermAtom ''UID *''] False) (\<lambda>ids.
          wire_lift (if length ids > 1 then Inl ImapProtocol else Inr (case ids of [] \<Rightarrow> 0 | u # _ \<Rightarrow> u))))"

subsection \<open>Append\<close>

definition set_append_outcome :: "AppendOutcome \<Rightarrow> Connection \<Rightarrow> Connection" where
  "set_append_outcome r c = c\<lparr>conn_metrics := (conn_metrics c)\<lparr>met_append_outcome := Some r\<rparr>\<rparr>"

definition append_write :: "bytes \<Rightarrow> unit wire" where
  "append_write bs c =
     (let m = conn_metrics c in
      if length bs > il_operation_bytes (conn_limits c) - met_wire_bytes m - met_append_wire_bytes m then (Inl ImapLimit, c)
      else conn_write bs (c\<lparr>conn_metrics := m\<lparr>met_append_wire_bytes := met_append_wire_bytes m + length bs\<rparr>\<rparr>))"

definition append_done :: "bool \<Rightarrow> Status \<Rightarrow> Outcome \<Rightarrow> AppendOutcome imap" where
  "append_done streamed status r =
     (if status = StatusNo \<or> status = StatusBad then Inr AppendRejected
      else if status = StatusOk \<and> streamed then
        (case out_code r of
           Some (CodeAppendUid validity members) \<Rightarrow>
             (case members of
                [MemberUid uid] \<Rightarrow>
                  if validity \<noteq> 0 \<and> uid \<noteq> 0 then Inr (AppendCreated (Some \<lparr>dm_uid_validity = validity, dm_uid = uid\<rparr>))
                  else Inl ImapProtocol
              | _ \<Rightarrow> Inl ImapProtocol)
         | _ \<Rightarrow> Inr (AppendCreated None))
      else Inl ImapProtocol)"

definition append_body :: "bytes \<Rightarrow> unit wire" where
  "append_body mime = wire_bind (append_write mime) (\<lambda>_. append_write [CR, LF])"

lemma append_body_reads: "(r, d) = append_body mime c \<Longrightarrow> conn_reads d = conn_reads c"
  by (auto simp: append_body_def wire_bind_def append_write_def conn_write_def Let_def
      split: prod.splits sum.splits list.splits option.splits if_splits)

function append_loop :: "string \<Rightarrow> bytes \<Rightarrow> bool \<Rightarrow> unit wire" where
  "append_loop tag mime streamed c =
     (case conn_read c of
        (Inl e, d) \<Rightarrow> (Inl e, d)
      | (Inr row, d) \<Rightarrow>
          (case row of
             RespContinue _ \<Rightarrow>
               if streamed then (Inl ImapProtocol, d)
               else (case append_body mime d of
                   (Inl e, d') \<Rightarrow> (Inl e, d')
                 | (Inr _, d') \<Rightarrow> append_loop tag mime True d')
           | RespDone returned status r \<Rightarrow>
               if returned = tag
               then (case append_done streamed status r of
                   Inl e \<Rightarrow> (Inl e, d) | Inr result \<Rightarrow> (Inr (), set_append_outcome result d))
               else (Inl ImapProtocol, d)
           | RespMailbox DatumFlags \<Rightarrow> append_loop tag mime streamed d
           | RespMailbox DatumExists \<Rightarrow> append_loop tag mime streamed d
           | RespMailbox DatumRecent \<Rightarrow> append_loop tag mime streamed d
           | RespExpunge _ \<Rightarrow> append_loop tag mime streamed d
           | RespData StatusOk _ \<Rightarrow> append_loop tag mime streamed d
           | _ \<Rightarrow> (Inl ImapProtocol, d)))"
  by pat_completeness auto

termination
  by (relation "measure (\<lambda>(_, _, _, c). length (conn_reads c))")
    (auto dest: conn_read_shorter [OF sym] simp: append_body_reads)

declare append_loop.simps [simp del]

definition append_header :: "string \<Rightarrow> string \<Rightarrow> bytes \<Rightarrow> bytes" where
  "append_header tag target mime =
     tag @ '' APPEND '' @ target @ '' ('' @ [CHR 0x5C] @ ''Draft) {'' @ show_nat (length mime) @ ''}'' @ [CR, LF]"

definition wire_append :: "(bytes \<Rightarrow> string) \<Rightarrow> string \<Rightarrow> bytes \<Rightarrow> unit wire" where
  "wire_append enc target mime c =
     wire_bind conn_tag (\<lambda>tag.
     wire_bind (wire_lift (quote (mailbox_pattern enc target))) (\<lambda>quoted.
     wire_bind (\<lambda>c. append_write (append_header tag quoted mime) (set_append_outcome AppendUnknown c)) (\<lambda>_.
       append_loop tag mime False)))
       (prepare ContractOther c)"

section \<open>FETCH\<close>

definition fetch_execute :: "metadata_host \<Rightarrow> Fetch \<Rightarrow> Response wire" where
  "fetch_execute h f c =
     (if fetch_uid f = 0 then (Inl ImapInvalidInput, c)
      else if (case f of FetchMetadata _ \<Rightarrow> False | FetchBytes _ _ _ n \<Rightarrow> n = 0 \<or> unat n > literal_limit c)
      then (Inl ImapLimit, c)
      else wire_bind (request h (fetch_command f) (KindBody f)) (\<lambda>rows.
        wire_lift (case rows of [row] \<Rightarrow> Inr row | _ \<Rightarrow> Inl ImapMessageNotFound)) c)"

definition fetch_bytes :: "metadata_host \<Rightarrow> Fetch \<Rightarrow> bytes wire" where
  "fetch_bytes h f =
     wire_bind (fetch_execute h f) (\<lambda>row. wire_lift (and_then (fetch_items row) (fetch_data f)))"

section \<open>Reading consumes the stream\<close>

lemma wire_bind_Inr: "wire_bind m k c = (Inr y, d) \<longleftrightarrow> (\<exists>x c'. m c = (Inr x, c') \<and> k x c' = (Inr y, d))"
  by (auto simp: wire_bind_def split: prod.splits sum.splits)

lemma wire_bind_Inl:
  "wire_bind m k c = (Inl e, d) \<longleftrightarrow> m c = (Inl e, d) \<or> (\<exists>x c'. m c = (Inr x, c') \<and> k x c' = (Inl e, d))"
  by (auto simp: wire_bind_def split: prod.splits sum.splits)

lemma wire_return_iff [simp]: "wire_return x c = (r, d) \<longleftrightarrow> r = Inr x \<and> d = c"
  by (auto simp: wire_return_def)

lemma wire_lift_iff [simp]: "wire_lift m c = (r, d) \<longleftrightarrow> r = m \<and> d = c"
  by (auto simp: wire_lift_def)

lemma conn_tag_reads: "conn_tag c = (r, d) \<Longrightarrow> conn_reads d = conn_reads c"
  by (auto simp: conn_tag_def split: if_splits)

lemma conn_write_reads: "conn_write bs c = (r, d) \<Longrightarrow> conn_reads d = conn_reads c"
  by (auto simp: conn_write_def Let_def split: list.splits option.splits)

lemma collect_shorter: "collect h tag kind s c = (Inr rows, d) \<Longrightarrow> length (conn_reads d) < length (conn_reads c)"
proof (induction h tag kind s c rule: collect.induct)
  case (1 h tag kind s c)
  obtain r c1 where read: "conn_read c = (r, c1)" by force
  show ?case
  proof (cases r)
    case (Inl e)
    then show ?thesis using "1.prems" read by (simp add: collect.simps)
  next
    case (Inr row)
    have less: "length (conn_reads c1) < length (conn_reads c)" using conn_read_shorter read Inr by blast
    show ?thesis
    proof (cases "collect_row h tag kind (conn_limits c1) s row")
      case (Inl e)
      then show ?thesis using "1.prems" read Inr by (simp add: collect.simps)
    next
      case (Inr step)
      note row = Inr
      show ?thesis
      proof (cases step)
        case None
        then show ?thesis using "1.prems" read \<open>r = Inr row\<close> row less by (auto simp: collect.simps [of h tag kind s c] split: if_splits)
      next
        case (Some s')
        then have "collect h tag kind s' c1 = (Inr rows, d)"
          using "1.prems" read \<open>r = Inr row\<close> row by (simp add: collect.simps [of h tag kind s c])
        from "1.IH" [OF read [symmetric] \<open>r = Inr row\<close> row Some this] less show ?thesis by simp
      qed
    qed
  qed
qed

lemma request_shorter: "request h command kind c = (Inr rows, d) \<Longrightarrow> length (conn_reads d) < length (conn_reads c)"
  by (auto simp: request_def wire_bind_Inr prepare_def dest!: conn_tag_reads conn_write_reads collect_shorter)

lemma fetch_execute_shorter: "fetch_execute h f c = (Inr row, d) \<Longrightarrow> length (conn_reads d) < length (conn_reads c)"
  by (auto simp: fetch_execute_def wire_bind_Inr dest!: request_shorter split: if_splits)

lemma fetch_bytes_shorter: "fetch_bytes h f c = (Inr bs, d) \<Longrightarrow> length (conn_reads d) < length (conn_reads c)"
  by (auto simp: fetch_bytes_def wire_bind_Inr dest!: fetch_execute_shorter)

end
