(* ===== verification/ImapOps.thy ===== *)
theory ImapOps
  imports Wire
begin

text \<open>
  The operations of an authenticated connection (\<open>src/src/imap.rs\<close>, \<open>src/src/imap/append.rs\<close>,
  \<open>src/src/imap/search.rs\<close>, \<open>src/src/imap/header.rs\<close>, \<open>src/src/imap/reconcile.rs\<close>): opening, mailbox
  discovery, append targets, envelope search and the verification of uncertain drafts. Timeouts are not modelled.
\<close>

section \<open>Failures as the service sees them\<close>

fun imap_code :: "ImapError \<Rightarrow> ErrorCode \<times> ErrorReason" where
  "imap_code ImapParserPanic = (InternalError, ErrorReason.ImapParserPanic)"
| "imap_code ImapAuthentication = (AuthenticationFailed, ErrorReason.ImapAuthentication)"
| "imap_code ImapTls = (TlsFailed, ErrorReason.ImapTls)"
| "imap_code ImapTimeout = (Timeout, ErrorReason.ImapTimeout)"
| "imap_code ImapUnsupported = (UnsupportedCapability, ErrorReason.ImapUnsupported)"
| "imap_code ImapLimit = (ResponseTooLarge, ErrorReason.ImapResourceLimit)"
| "imap_code ImapInvalidInput = (InvalidRequest, ErrorReason.ImapInvalidInput)"
| "imap_code ImapStaleReference = (StaleReference, ErrorReason.ImapStaleReference)"
| "imap_code ImapStaleCursor = (StaleCursor, ErrorReason.ImapStaleCursor)"
| "imap_code ImapTransferExpired = (TransferExpired, ErrorReason.ImapTransferExpired)"
| "imap_code ImapMessageNotFound = (MessageNotFound, ErrorReason.ImapMessageNotFound)"
| "imap_code ImapTransport = (ProviderUnavailable, ErrorReason.ImapTransport)"
| "imap_code ImapEof = (ProviderUnavailable, ErrorReason.ImapConnectionClosed)"
| "imap_code ImapProtocol = (ProviderUnavailable, ErrorReason.ImapInvalidResponse)"
| "imap_code ImapUnsafeSelection = (ProviderUnavailable, ErrorReason.ImapUnsafeSelection)"

fun imap_text :: "ImapError \<Rightarrow> string" where
  "imap_text ImapInvalidInput = ''invalid IMAP input''"
| "imap_text ImapUnsupported = ''unsupported IMAP route''"
| "imap_text ImapTransport = ''IMAP transport failed''"
| "imap_text ImapTls = ''IMAP TLS verification failed''"
| "imap_text ImapTimeout = ''IMAP operation timed out''"
| "imap_text ImapEof = ''IMAP connection closed''"
| "imap_text ImapProtocol = ''invalid IMAP response''"
| "imap_text ImapParserPanic =
     ''IMAP response parser panicked; report this problem with the request ID and application version''"
| "imap_text ImapLimit = ''IMAP resource limit exceeded''"
| "imap_text ImapAuthentication = ''IMAP authentication failed''"
| "imap_text ImapUnsafeSelection = ''IMAP read-only selection was not established''"
| "imap_text ImapStaleReference = ''message reference is stale''"
| "imap_text ImapMessageNotFound = ''message was not found''"
| "imap_text ImapStaleCursor = ''message body continuation is stale''"
| "imap_text ImapTransferExpired = ''attachment transfer expired''"

definition imap_error :: "ImapError \<Rightarrow> Error" where
  "imap_error e = (case imap_code e of (code, reason) \<Rightarrow>
     (with_reason (error_new code) reason)\<lparr>err_message := imap_text e\<rparr>)"

section \<open>Opening\<close>

text \<open>What the code hands to the modified UTF-7 engine and the metadata parsers.\<close>

record imap_host =
  ih_encode :: "bytes \<Rightarrow> string"
  ih_decode :: "string \<Rightarrow> bytes option"
  ih_metadata :: metadata_host

definition resume :: "Metrics \<Rightarrow> Connection \<Rightarrow> Connection" where
  "resume m c = c\<lparr>conn_metrics := m\<rparr>"

definition AuthenticatedConnection_disconnect :: "imap_host \<Rightarrow> unit wire" where
  "AuthenticatedConnection_disconnect ih c = logout (ih_metadata ih) (resume metrics_default c)"

datatype TlsMode = TlsImplicit | TlsStartTls

text \<open>
  \<open>secured\<close> is the connection after the handshake; it starts from the bytes of the new transport, and exists
  only when nothing was buffered before it.
\<close>

definition upgrade :: "imap_host \<Rightarrow> bool \<Rightarrow> (Connection \<Rightarrow> Connection imap) \<Rightarrow> unit wire" where
  "upgrade ih buffered handshake =
     wire_bind (request (ih_metadata ih) ''STARTTLS'' KindStartTls) (\<lambda>_ c.
       if buffered then (Inl ImapProtocol, c)
       else (case handshake c of Inl e \<Rightarrow> (Inl e, c) | Inr d \<Rightarrow> (Inr (), d)))"

definition authenticate ::
  "imap_host \<Rightarrow> TlsMode \<Rightarrow> bool \<Rightarrow> (Connection \<Rightarrow> Connection imap) \<Rightarrow> string \<Rightarrow> string \<Rightarrow> unit wire" where
  "authenticate ih mode buffered handshake user password =
     (let h = ih_metadata ih in
      wire_bind greeting (\<lambda>_.
      wire_bind (capabilities h) (\<lambda>caps.
      wire_bind
        (if mode = TlsStartTls
         then (if \<not> has_capability caps ''STARTTLS'' then wire_lift (Inl ImapUnsupported)
               else wire_bind (upgrade ih buffered handshake) (\<lambda>_. capabilities h))
         else wire_return caps) (\<lambda>caps.
      if CapImap4rev1 \<notin> set caps \<or> has_capability caps ''LOGINDISABLED'' then wire_lift (Inl ImapUnsupported)
      else wire_bind (login h user password) (\<lambda>_.
           wire_bind (capabilities h) (\<lambda>caps.
             if CapImap4rev1 \<notin> set caps then wire_lift (Inl ImapUnsupported) else wire_return ()))))))"

section \<open>Discovery\<close>

record ImapMailbox =
  imb_name :: string
  imb_selectable :: bool
  imb_attributes :: "string list"

fun attribute_text :: "NameAttribute \<Rightarrow> string imap" where
  "attribute_text NameNoInferiors = Inr (CHR 0x5C # ''Noinferiors'')"
| "attribute_text NameNoSelect = Inr (CHR 0x5C # ''Noselect'')"
| "attribute_text NameMarked = Inr (CHR 0x5C # ''Marked'')"
| "attribute_text NameUnmarked = Inr (CHR 0x5C # ''Unmarked'')"
| "attribute_text NameAll = Inr (CHR 0x5C # ''All'')"
| "attribute_text NameArchive = Inr (CHR 0x5C # ''Archive'')"
| "attribute_text NameDrafts = Inr (CHR 0x5C # ''Drafts'')"
| "attribute_text NameFlagged = Inr (CHR 0x5C # ''Flagged'')"
| "attribute_text NameJunk = Inr (CHR 0x5C # ''Junk'')"
| "attribute_text NameSent = Inr (CHR 0x5C # ''Sent'')"
| "attribute_text NameTrash = Inr (CHR 0x5C # ''Trash'')"
| "attribute_text (NameExtension v) = Inr v"
| "attribute_text NameOther = Inl ImapUnsupported"

definition push_attribute :: "string list \<Rightarrow> NameAttribute \<Rightarrow> string list imap" where
  "push_attribute vs a = and_then (attribute_text a) (\<lambda>v. Inr (vs @ [v]))"

definition decode_mailbox :: "imap_host \<Rightarrow> string \<Rightarrow> NameAttribute list \<Rightarrow> ImapMailbox option imap" where
  "decode_mailbox ih returned attrs =
     and_then (decode_wire_mailbox_name (ih_encode ih) (ih_decode ih) returned) (\<lambda>returned.
     and_then (try_fold push_attribute [] attrs) (\<lambda>attributes.
     let attributes = remdups_adj (sort attributes);
         selectable = \<not> list_ex (\<lambda>a. eq_ignore_ascii_case a (CHR 0x5C # ''Noselect'')) attributes in
     if returned = [] \<and> \<not> selectable then Inr None
     else if returned = [] \<or> length returned > 1024 \<or> any_control returned then Inl ImapProtocol
     else Inr (Some \<lparr>imb_name = mailbox_identity returned, imb_selectable = selectable, imb_attributes = attributes\<rparr>)))"

definition listed_mailbox :: "imap_host \<Rightarrow> Response \<Rightarrow> ImapMailbox option imap" where
  "listed_mailbox ih row =
     (case row of RespMailbox (DatumList name attrs) \<Rightarrow> decode_mailbox ih name attrs | _ \<Rightarrow> Inl ImapProtocol)"

definition push_mailbox :: "imap_host \<Rightarrow> ImapMailbox list \<Rightarrow> Response \<Rightarrow> ImapMailbox list imap" where
  "push_mailbox ih ms row =
     and_then (listed_mailbox ih row) (\<lambda>m. Inr (case m of None \<Rightarrow> ms | Some m \<Rightarrow> ms @ [m]))"

text \<open>Sorted by name; rows that agree in everything collapse, rows that only share the name are refused.\<close>

definition mailbox_inventory :: "imap_host \<Rightarrow> nat \<Rightarrow> Response list \<Rightarrow> ImapMailbox list imap" where
  "mailbox_inventory ih maximum rows =
     (if length rows > maximum then Inl ImapLimit
      else and_then (try_fold (push_mailbox ih) [] rows) (\<lambda>ms.
        let ms = remdups_adj (sort_key imb_name ms) in
        if adjacent_equal (map imb_name ms) then Inl ImapProtocol else Inr ms))"

definition list_all_command :: string where
  "list_all_command = ''LIST \"\" \"*\"''"

definition conn_discover_all :: "imap_host \<Rightarrow> nat \<Rightarrow> ImapMailbox list wire" where
  "conn_discover_all ih maximum =
     wire_bind (request (ih_metadata ih) list_all_command KindList) (\<lambda>rows. wire_lift (mailbox_inventory ih maximum rows))"

definition found_mailbox :: "imap_host \<Rightarrow> string \<Rightarrow> ImapMailbox option \<Rightarrow> Response \<Rightarrow> ImapMailbox option imap" where
  "found_mailbox ih expected found row =
     and_then (listed_mailbox ih row) (\<lambda>m.
     and_then (ok_or ImapProtocol m) (\<lambda>m.
       if imb_name m \<noteq> expected \<or> is_some_and found (\<lambda>previous. previous \<noteq> m) then Inl ImapProtocol else Inr (Some m)))"

fun conn_discover_names :: "imap_host \<Rightarrow> nat \<Rightarrow> (string \<times> string) list \<Rightarrow> ImapMailbox list \<Rightarrow> nat \<Rightarrow> ImapMailbox list wire" where
  "conn_discover_names ih maximum [] ms n = wire_return ms"
| "conn_discover_names ih maximum ((expected, name) # names) ms n =
     wire_bind (wire_lift (quote (mailbox_pattern (ih_encode ih) name))) (\<lambda>pattern.
     wire_bind (request (ih_metadata ih) (''LIST \"\" '' @ pattern) KindList) (\<lambda>rows.
     let n = saturating_add n (length rows) in
     if n > maximum then wire_lift (Inl ImapLimit)
     else wire_bind (wire_lift (try_fold (found_mailbox ih expected) None rows)) (\<lambda>found.
       conn_discover_names ih maximum names (case found of None \<Rightarrow> ms | Some m \<Rightarrow> ms @ [m]) n)))"

definition discover_all :: "imap_host \<Rightarrow> ImapLimits \<Rightarrow> ImapMailbox list wire" where
  "discover_all ih l =
     wire_bind (wire_lift (imap_limits_validate l)) (\<lambda>_ c.
     wire_bind (conn_discover_all ih (il_mailboxes l)) (\<lambda>ms.
     wire_bind (logout (ih_metadata ih)) (\<lambda>_. wire_return ms)) (limit_body l c))"

definition discover :: "imap_host \<Rightarrow> string list \<Rightarrow> ImapLimits \<Rightarrow> ImapMailbox list wire" where
  "discover ih allowlist l =
     wire_bind (wire_lift (imap_limits_validate l)) (\<lambda>_.
     if length allowlist > il_mailboxes l then wire_lift (Inl ImapLimit)
     else wire_bind (wire_lift (try_fold (\<lambda>_ name. mailbox_argument name) () allowlist)) (\<lambda>_ c.
       let names = btree_of (map (\<lambda>name. (mailbox_identity name, name)) allowlist) in
       wire_bind
         (if list_ex (\<lambda>(key, _). CHR ''*'' \<in> set key \<or> CHR ''%'' \<in> set key) names
          then wire_bind (conn_discover_all ih (il_mailboxes l)) (\<lambda>ms.
            wire_return (filter (\<lambda>m. map_of names (imb_name m) \<noteq> None) ms))
          else conn_discover_names ih (il_mailboxes l) names [] 0) (\<lambda>ms.
       wire_bind (logout (ih_metadata ih)) (\<lambda>_. wire_return ms)) (limit_body l c)))"

section \<open>Appending drafts\<close>

definition select_draft_target :: "imap_host \<Rightarrow> string \<Rightarrow> ImapLimits \<Rightarrow> u32 wire" where
  "select_draft_target ih mailbox l =
     wire_bind (wire_lift (mailbox_argument mailbox)) (\<lambda>_.
     wire_bind (wire_lift (imap_limits_validate l)) (\<lambda>_ c.
       examine (ih_encode ih) (ih_metadata ih) mailbox (limit_body l c)))"

definition inspect_draft_target :: "imap_host \<Rightarrow> string \<Rightarrow> ImapLimits \<Rightarrow> u32 wire" where
  "inspect_draft_target ih mailbox l =
     wire_bind (select_draft_target ih mailbox l) (\<lambda>v. wire_bind (logout (ih_metadata ih)) (\<lambda>_. wire_return v))"

text \<open>
  The outcome is what the connection recorded, whatever the exchange returned; only a failure
  before anything was sent is an error.
\<close>

definition append_draft :: "imap_host \<Rightarrow> string \<Rightarrow> PreparedDraft \<Rightarrow> ImapLimits \<Rightarrow> AppendOutcome wire" where
  "append_draft ih target d l c =
     (let c = c\<lparr>conn_metrics := (conn_metrics c)\<lparr>met_append_outcome := None, met_append_error := None,
        met_append_wire_bytes := 0, met_mime_bytes := 0\<rparr>\<rparr> in
      wire_bind (wire_lift (mailbox_argument target)) (\<lambda>_.
      wire_bind (wire_lift (imap_limits_validate l)) (\<lambda>_ c.
      if pd_header_bytes d > il_header_bytes l
        \<or> saturating_add (saturating_add (length (pd_bytes d)) (length target)) 128 > il_operation_bytes l
      then (Inl ImapLimit, c)
      else
        (case wire_append (ih_encode ih) target (pd_bytes d)
                (limit_body l (c\<lparr>conn_metrics := (conn_metrics c)\<lparr>met_mime_bytes := length (pd_bytes d)\<rparr>\<rparr>)) of
           (r, c) \<Rightarrow>
             let c = c\<lparr>conn_metrics := (conn_metrics c)\<lparr>met_append_error := (case r of Inl e \<Rightarrow> Some e | Inr _ \<Rightarrow> None)\<rparr>\<rparr> in
             (case met_append_outcome (conn_metrics c) of
                Some result \<Rightarrow> (Inr result, c)
              | None \<Rightarrow> (Inl (case r of Inl e \<Rightarrow> e | Inr _ \<Rightarrow> ImapProtocol), c))))) c)"

section \<open>Envelope search\<close>

text \<open>\<open>date_str\<close> is \<open>YYYY-MM-DD\<close>; IMAP wants \<open>DD-Mon-YYYY\<close>.\<close>

definition month_names :: "string list" where
  "month_names = [''Jan'', ''Feb'', ''Mar'', ''Apr'', ''May'', ''Jun'', ''Jul'', ''Aug'', ''Sep'', ''Oct'', ''Nov'', ''Dec'']"

definition imap_date :: "SearchDate \<Rightarrow> string" where
  "imap_date d =
     (let v = date_str d; m = (ord (v ! 5) - 48) * 10 + (ord (v ! 6) - 48) in
      drop 8 v @ ''-'' @ month_names ! (m - 1) @ ''-'' @ take 4 v)"

fun search_text :: "SearchPredicate \<Rightarrow> (string \<times> string) option" where
  "search_text (FromText v) = Some (''FROM'', v)"
| "search_text (ToText v) = Some (''TO'', v)"
| "search_text (CcText v) = Some (''CC'', v)"
| "search_text (BccText v) = Some (''BCC'', v)"
| "search_text (SubjectText v) = Some (''SUBJECT'', v)"
| "search_text (BodyText v) = Some (''TEXT'', v)"
| "search_text _ = None"

fun required_key :: "StandardFlag \<Rightarrow> string" where
  "required_key Answered = ''ANSWERED''"
| "required_key Deleted = ''DELETED''"
| "required_key Draft = ''DRAFT''"
| "required_key Flagged = ''FLAGGED''"
| "required_key Recent = ''RECENT''"
| "required_key Seen = ''SEEN''"

fun forbidden_key :: "StandardFlag \<Rightarrow> string" where
  "forbidden_key Answered = ''UNANSWERED''"
| "forbidden_key Deleted = ''UNDELETED''"
| "forbidden_key Draft = ''UNDRAFT''"
| "forbidden_key Flagged = ''UNFLAGGED''"
| "forbidden_key Recent = ''OLD''"
| "forbidden_key Seen = ''UNSEEN''"

definition search_key :: "bool \<Rightarrow> SearchPredicate \<Rightarrow> SearchTerm" where
  "search_key fuzzy p =
     (case p of
        ReceivedAfter d \<Rightarrow> TermAtom (''SINCE '' @ imap_date d)
      | ReceivedBefore d \<Rightarrow> TermAtom (''BEFORE '' @ imap_date d)
      | SentAfter d \<Rightarrow> TermAtom (''SENTSINCE '' @ imap_date d)
      | SentBefore d \<Rightarrow> TermAtom (''SENTBEFORE '' @ imap_date d)
      | FromText v \<Rightarrow> TermText ''FROM'' v
      | ToText v \<Rightarrow> TermText ''TO'' v
      | CcText v \<Rightarrow> TermText ''CC'' v
      | BccText v \<Rightarrow> TermText ''BCC'' v
      | SubjectText v \<Rightarrow> TermText (if fuzzy then ''FUZZY SUBJECT'' else ''SUBJECT'') v
      | BodyText v \<Rightarrow> TermText (if fuzzy then ''FUZZY TEXT'' else ''TEXT'') v
      | RequiredFlag f \<Rightarrow> TermAtom (required_key f)
      | ForbiddenFlag f \<Rightarrow> TermAtom (forbidden_key f))"

text \<open>The charset is announced when any text is not ASCII.\<close>

definition search_utf8 :: "SearchCriteria \<Rightarrow> bool" where
  "search_utf8 ps = list_ex (\<lambda>p. case search_text p of None \<Rightarrow> False | Some (_, v) \<Rightarrow> \<not> list_all is_ascii v) ps"

record Selection =
  slt_connection :: Connection
  slt_validity :: u32
  slt_uid_next :: "u32 option"
  slt_header_bytes :: nat
  slt_fuzzy :: bool

text \<open>One step on the connection of a selection; its failures become service errors.\<close>

definition on_connection :: "'a wire \<Rightarrow> Selection \<Rightarrow> 'a result \<times> Selection" where
  "on_connection m s =
     (case m (slt_connection s) of (r, c) \<Rightarrow> (map_err imap_error r, s\<lparr>slt_connection := c\<rparr>))"

definition uid_range :: "nat \<Rightarrow> nat \<Rightarrow> string" where
  "uid_range first upper = ''UID '' @ show_nat first @ '':'' @ show_nat upper"

definition selection_matches :: "imap_host \<Rightarrow> Selection \<Rightarrow> u32 \<Rightarrow> u32 \<Rightarrow> SearchCriteria \<Rightarrow> u32 list result \<times> Selection" where
  "selection_matches ih s first upper criteria =
     on_connection (wire_search (ih_metadata ih)
       (TermAtom (uid_range (unat first) (unat upper)) # map (search_key (slt_fuzzy s)) criteria) (search_utf8 criteria)) s"

definition located_row :: "imap_host \<Rightarrow> nat \<Rightarrow> u32 list \<Rightarrow> LocatedMessage list \<Rightarrow> Response \<Rightarrow> LocatedMessage list result" where
  "located_row ih header_bytes uids ms row =
     and_then (map_err imap_error
       (and_then (fetch_items row) (\<lambda>items.
        and_then (projection_parse (ih_metadata ih) items) (\<lambda>p.
        and_then (check_header_bytes p header_bytes) (\<lambda>_. Inr p))))) (\<lambda>p.
     let m = projection_message (ih_metadata ih) p in
     if row_uid m \<notin> set uids then Inl (error_new ProviderUnavailable) else Inr (ms @ [m]))"

definition fetch_rows_command :: "u32 list \<Rightarrow> string" where
  "fetch_rows_command uids =
     ''UID FETCH '' @ join_with CHR '','' (map (\<lambda>u. show_nat (unat u)) (rev uids)) @ '' ('' @ PROJECTION_FIELDS @ '')''"

text \<open>The requested UIDs descend, so that \<open>binary_search_by\<close> is membership.\<close>

definition selection_fetch :: "imap_host \<Rightarrow> Selection \<Rightarrow> u32 list \<Rightarrow> LocatedMessage list result \<times> Selection" where
  "selection_fetch ih s uids =
     (if uids = [] \<or> 0 \<in> set uids then (Inl (error_new InvalidRequest), s)
      else case on_connection (request (ih_metadata ih) (fetch_rows_command uids) KindProjection) s of
          (Inl e, s) \<Rightarrow> (Inl e, s)
        | (Inr rows, s) \<Rightarrow> (try_fold (located_row ih (slt_header_bytes s) uids) [] rows, s))"

definition imap_selection :: "imap_host \<Rightarrow> Selection SelectedMailbox" where
  "imap_selection ih =
     \<lparr>sel_uid_validity = slt_validity, sel_fuzzy = slt_fuzzy,
      sel_upper_uid = (\<lambda>s. on_connection (wire_upper_uid (ih_metadata ih) (slt_uid_next s)) s),
      sel_matches = selection_matches ih, sel_fetch = selection_fetch ih\<rparr>"

definition imap_search ::
  "imap_host \<Rightarrow> (MessageMetadata \<Rightarrow> serialization) \<Rightarrow> SearchRequest \<Rightarrow> Limits \<Rightarrow> Connection \<Rightarrow> SearchBatch result \<times> Connection" where
  "imap_search ih ser req l c =
     (case and_then (map_err imap_error (mailbox_argument (req_mailbox req))) (\<lambda>_. limits_validate l) of
        Inl e \<Rightarrow> (Inl e, c)
      | Inr _ \<Rightarrow>
          let c = limit_search l c;
              fuzzy = (req_fuzzy req \<and> conn_fuzzy c
                \<and> list_ex (\<lambda>p. case p of SubjectText _ \<Rightarrow> True | BodyText _ \<Rightarrow> True | _ \<Rightarrow> False) (req_criteria req)) in
          (case examine_selection (ih_encode ih) (ih_metadata ih) (req_mailbox req) c of
             (Inl e, c) \<Rightarrow> (Inl (imap_error e), c)
           | (Inr (validity, uid_next), c) \<Rightarrow>
               (case page (imap_selection ih) ser req l
                   \<lparr>slt_connection = c, slt_validity = validity, slt_uid_next = uid_next,
                    slt_header_bytes = l_header_bytes l, slt_fuzzy = fuzzy\<rparr> of
                  (Inl e, s) \<Rightarrow> (Inl e, slt_connection s)
                | (Inr batch, s) \<Rightarrow>
                    (case logout (ih_metadata ih) (slt_connection s) of
                       (Inl e, c) \<Rightarrow> (Inl (imap_error e), c) | (Inr _, c) \<Rightarrow> (Inr batch, c)))))"

section \<open>Header fields\<close>

definition through_line :: "bytes \<Rightarrow> bytes \<times> bytes" where
  "through_line raw = (let n = length (takeWhile (\<lambda>b. b \<noteq> LF) raw) + 1 in (take n raw, drop n raw))"

lemma through_line_append: "through_line raw = (a, b) \<Longrightarrow> raw = a @ b"
  by (auto simp: through_line_def Let_def)

lemma through_line_shorter: "through_line raw = (a, b) \<Longrightarrow> raw \<noteq> [] \<Longrightarrow> length b < length raw"
  by (auto simp: through_line_def Let_def)

text \<open>Lines that start with a space or tab continue the field.\<close>

function folded_lines :: "bytes \<Rightarrow> bytes \<times> bytes" where
  "folded_lines raw =
     (case raw of
        b # _ \<Rightarrow>
          if b = CHR '' '' \<or> b = CHR 0x09
          then (case through_line raw of (line, raw) \<Rightarrow> case folded_lines raw of (lines, raw) \<Rightarrow> (line @ lines, raw))
          else ([], raw)
      | [] \<Rightarrow> ([], raw))"
  by pat_completeness auto

termination
  by (relation "measure length") (auto dest: through_line_shorter [OF sym])

declare folded_lines.simps [simp del]

lemma folded_lines_append: "folded_lines raw = (a, b) \<Longrightarrow> raw = a @ b"
proof (induction raw arbitrary: a b rule: folded_lines.induct)
  case (1 raw)
  show ?case
  proof (cases raw)
    case Nil
    then show ?thesis using 1(2) by (simp add: folded_lines.simps)
  next
    case (Cons x xs)
    obtain line r where line: "through_line raw = (line, r)" by force
    obtain ls r' where ls: "folded_lines r = (ls, r')" by force
    show ?thesis
    proof (cases "x = CHR '' '' \<or> x = CHR 0x09")
      case True
      have "r = ls @ r'" using 1(1) [OF Cons True line [symmetric] ls] .
      moreover have "folded_lines raw = (line @ ls, r')"
        using line ls True unfolding Cons by (subst folded_lines.simps) simp
      ultimately show ?thesis using 1(2) through_line_append [OF line] by simp
    next
      case False
      then show ?thesis using 1(2) Cons by (subst (asm) folded_lines.simps) auto
    qed
  qed
qed

definition trim_end_blank :: "bytes \<Rightarrow> bytes" where
  "trim_end_blank v = rev (dropWhile (\<lambda>b. b = CHR '' '' \<or> b = CHR 0x09) (rev v))"

definition header_field :: "(string \<Rightarrow> 'n option) \<Rightarrow> bytes \<Rightarrow> bytes \<Rightarrow> ('n \<times> bytes) option" where
  "header_field parse_name first field =
     Option.bind (split_once CHR '':'' first) (\<lambda>(name, _).
     Option.bind (from_utf8 (trim_end_blank name)) (\<lambda>n.
     Option.bind (parse_name n) (\<lambda>n. Some (n, drop (length name + 1) field))))"

lemma field_shorter:
  assumes "(first, r) = through_line raw" and "(continued, r') = folded_lines r" and "raw \<noteq> []"
  shows "length r' < length raw"
  using through_line_shorter [OF assms(1) [symmetric] assms(3)] folded_lines_append [OF assms(2) [symmetric]] by simp

function header_fields :: "(string \<Rightarrow> 'n option) \<Rightarrow> bytes \<Rightarrow> ('n \<times> bytes) list" where
  "header_fields parse_name raw =
     (if raw = [] then []
      else case through_line raw of (first, raw) \<Rightarrow>
        if first = [CR, LF] \<or> first = [LF] then []
        else case folded_lines raw of (continued, raw) \<Rightarrow>
          (case header_field parse_name first (first @ continued) of None \<Rightarrow> [] | Some f \<Rightarrow> [f])
          @ header_fields parse_name raw)"
  by pat_completeness auto

termination
  by (relation "measure (length \<circ> snd)") (auto dest: field_shorter)

declare header_fields.simps [simp del]

end
