(* ===== verification/Reconcile.thy ===== *)
theory Reconcile
  imports ImapOps
begin

text \<open>
  Verification of uncertain drafts (\<open>src/src/imap/reconcile.rs\<close>): the whole UID space is searched in
  bounded windows for the Message-ID of the draft, a unique candidate is fetched completely, and only an exact content
  digest and an exact single Message-ID count as evidence.
\<close>

section \<open>The search\<close>

record reconcile_host =
  rh_imap :: imap_host
  rh_sha256 :: "bytes \<Rightarrow> sha256"
  rh_header_name :: "string \<Rightarrow> bool option"
  rh_message_ids :: "bytes \<Rightarrow> string option"

text \<open>\<open>Inl\<close> ends the search with evidence, \<open>Inr\<close> is the candidate so far.\<close>

fun candidate_step :: "nat \<Rightarrow> nat \<Rightarrow> u32 option \<Rightarrow> u32 list \<Rightarrow> (DraftEvidence + u32 option) imap" where
  "candidate_step first upper cand [] = Inr (Inr cand)"
| "candidate_step first upper cand (u # us) =
     (if \<not> (first \<le> unat u \<and> unat u \<le> upper) then Inl ImapProtocol
      else if cand \<noteq> None then Inr (Inl Ambiguous)
      else candidate_step first upper (Some u) us)"

fun reconcile_windows ::
  "metadata_host \<Rightarrow> string \<Rightarrow> nat \<Rightarrow> nat \<Rightarrow> nat \<Rightarrow> nat \<Rightarrow> u32 option \<Rightarrow> (DraftEvidence + nat \<times> u32 option) wire" where
  "reconcile_windows h msg_id window upper 0 first cand = wire_return (Inr (first, cand))"
| "reconcile_windows h msg_id window upper (Suc n) first cand =
     (if first > upper then wire_return (Inr (first, cand))
      else let top = min (first + window - 1) upper in
        wire_bind (wire_search h [TermAtom (uid_range first top), TermText ''HEADER Message-ID'' msg_id] False) (\<lambda>uids.
        wire_bind (wire_lift (candidate_step first top cand uids)) (\<lambda>r.
          case r of Inl evidence \<Rightarrow> wire_return (Inl evidence)
          | Inr cand \<Rightarrow> reconcile_windows h msg_id window upper n (top + 1) cand)))"

section \<open>The content\<close>

definition ends_headers :: "bytes \<Rightarrow> bool" where
  "ends_headers v = (take 4 (rev v) = [LF, CR, LF, CR])"

fun header_scan :: "nat \<Rightarrow> bytes \<Rightarrow> bytes \<Rightarrow> (bytes \<times> bool) imap" where
  "header_scan limit headers [] = Inr (headers, False)"
| "header_scan limit headers (b # bs) =
     (if length headers = limit then Inl ImapLimit
      else let headers = headers @ [b] in
        if ends_headers headers then Inr (headers, True) else header_scan limit headers bs)"

text \<open>The digest is the list of the bytes fed to it. The loop ends at the first short answer.\<close>

function reconcile_content ::
  "metadata_host \<Rightarrow> Limits \<Rightarrow> nat \<Rightarrow> u32 \<Rightarrow> nat \<Rightarrow> bytes \<Rightarrow> bytes \<times> bool \<Rightarrow> (bytes \<times> bytes \<times> bool) wire" where
  "reconcile_content h l chunk uid offset digest hs c =
     (let n = min (l_draft_mime_bytes l - offset + 1) chunk in
      case fetch_bytes h (FetchBytes uid None (of_nat offset) (of_nat n)) c of
        (Inl e, d) \<Rightarrow> (Inl e, d)
      | (Inr bs, d) \<Rightarrow>
          let offset = offset + length bs in
          if offset > l_draft_mime_bytes l then (Inl ImapLimit, d)
          else (case (if snd hs then Inr hs else header_scan (l_header_bytes l) (fst hs) bs) of
              Inl e \<Rightarrow> (Inl e, d)
            | Inr hs \<Rightarrow>
                if length bs < n then (Inr (digest @ bs, hs), d)
                else reconcile_content h l chunk uid offset (digest @ bs) hs d))"
  by pat_completeness auto

termination
  by (relation "measure (\<lambda>(_, _, _, _, _, _, _, c). length (conn_reads c))") (auto dest: fetch_bytes_shorter [OF sym])

declare reconcile_content.simps [simp del]

definition message_id_evidence :: "reconcile_host \<Rightarrow> DraftVerification \<Rightarrow> bytes \<Rightarrow> bytes \<Rightarrow> bool" where
  "message_id_evidence rh expected headers content \<longleftrightarrow>
     (case filter (\<lambda>(is_id, _). is_id) (header_fields (rh_header_name rh) headers) of
        [(_, raw)] \<Rightarrow> rh_message_ids rh raw = Some (ver_message_id expected)
      | _ \<Rightarrow> False)
     \<and> rh_sha256 rh content = ver_content_sha256 expected"

definition reconcile_bounds :: "Limits \<Rightarrow> ImapLimits" where
  "reconcile_bounds l =
     (let b = body_limits l; response = min (il_response_bytes b) (l_wire_fetch_bytes l) in
      b\<lparr>il_response_bytes := response, il_literal_bytes := min (il_literal_bytes b) response,
        il_operation_bytes := l_wire_fetch_bytes l\<rparr>)"

definition reconcile_draft :: "reconcile_host \<Rightarrow> string \<Rightarrow> DraftVerification \<Rightarrow> Limits \<Rightarrow> DraftEvidence wire" where
  "reconcile_draft rh mailbox expected l =
     (let ih = rh_imap rh; h = ih_metadata ih in
      wire_bind (wire_lift (mailbox_argument mailbox)) (\<lambda>_.
      wire_bind (wire_lift (map_err (\<lambda>_. ImapInvalidInput) (limits_validate l))) (\<lambda>_.
      if ver_uid_validity expected = 0 \<or> length (ver_message_id expected) > 998 then wire_lift (Inl ImapInvalidInput)
      else
        (\<lambda>c. wire_bind (examine_selection (ih_encode ih) h mailbox) (\<lambda>(validity, next).
        if validity \<noteq> ver_uid_validity expected then wire_lift (Inl ImapStaleReference)
        else wire_bind (wire_upper_uid h next) (\<lambda>upper.
        wire_bind (reconcile_windows h (ver_message_id expected) (l_search_uid_window l) (unat upper) (l_search_windows l) 1 None) (\<lambda>r.
        case r of
          Inl evidence \<Rightarrow> wire_return evidence
        | Inr (first, cand) \<Rightarrow>
            if first \<le> unat upper then wire_lift (Inl ImapLimit)
            else (case cand of
                None \<Rightarrow> wire_return Absent
              | Some uid \<Rightarrow>
                  wire_bind (wire_lift (fetch_chunk_bytes (reconcile_bounds l))) (\<lambda>chunk.
                  wire_bind (reconcile_content h l chunk uid 0 [] ([], False)) (\<lambda>(content, headers, complete).
                    if \<not> complete \<or> \<not> message_id_evidence rh expected headers content then wire_return ContentMismatch
                    else wire_return (Verified \<lparr>dm_uid_validity = validity, dm_uid = uid\<rparr>)))))))
          (limit_body (reconcile_bounds l) c)))))"

end
