(* ===== verification/WireSafety.thy ===== *)
theory WireSafety
  imports Reconcile
begin

text \<open>
  What the protocol layer guarantees against any server: the commands it can send, what a read-only
  selection and an accepted answer are, what an APPEND outcome means, and what counts as evidence for a draft.
\<close>

section \<open>The rows of a request\<close>

definition collect_read :: "metadata_host \<Rightarrow> string \<Rightarrow> Kind \<Rightarrow> ImapLimits \<Rightarrow> collect_state \<Rightarrow> WireRead \<Rightarrow> collect_state imap" where
  "collect_read h tag kind l s w =
     (case wr_result w of
        ReadOk row \<Rightarrow> and_then (collect_row h tag kind l s row) (ok_or ImapProtocol)
      | _ \<Rightarrow> Inl ImapProtocol)"

text \<open>An accepted outcome never reports a read-write selection or another UIDVALIDITY.\<close>

definition outcome_accepted :: "u32 option \<Rightarrow> WireRead \<Rightarrow> bool" where
  "outcome_accepted validity w \<longleftrightarrow>
     (case wr_result w of
        ReadOk row \<Rightarrow> (case response_outcome row of None \<Rightarrow> True | Some r \<Rightarrow> check_outcome validity r = Inr ())
      | _ \<Rightarrow> False)"

lemma conn_read_Inr:
  assumes "conn_read c = (Inr row, d)"
  shows "\<exists>w. conn_reads c = w # conn_reads d \<and> wr_result w = ReadOk row \<and> outcome_accepted (conn_uid_validity c) w
    \<and> conn_uid_validity d = conn_uid_validity c \<and> conn_sent d = conn_sent c \<and> conn_limits d = conn_limits c
    \<and> conn_next_tag d = conn_next_tag c"
  using assms
  by (auto simp: conn_read_def Let_def outcome_accepted_def and_then_def
      split: list.splits ReadResult.splits option.splits sum.splits)

lemma conn_read_sent: "conn_sent (snd (conn_read c)) = conn_sent c"
  by (auto simp: conn_read_def Let_def split: list.splits ReadResult.splits option.splits)

lemma collect_Inr:
  assumes "collect h tag kind s c = (Inr rows, d)"
  shows "\<exists>pre w s' r. conn_reads c = pre @ w # conn_reads d \<and> list_all (outcome_accepted (conn_uid_validity c)) (pre @ [w])
    \<and> try_fold (collect_read h tag kind (conn_limits c)) s pre = Inr s'
    \<and> wr_result w = ReadOk (RespDone tag StatusOk r) \<and> collect_done tag kind s' tag StatusOk r = Inr () \<and> rows = cs_rows s'
    \<and> conn_uid_validity d = (if kind = KindExamine then cs_validity s' else conn_uid_validity c)
    \<and> conn_sent d = conn_sent c \<and> conn_limits d = conn_limits c"
  using assms
proof (induction h tag kind s c rule: collect.induct)
  case (1 h tag kind s c)
  obtain row c1 where read: "conn_read c = (Inr row, c1)"
    using "1.prems" by (auto simp: collect.simps [of h tag kind s c] split: prod.splits sum.splits)
  obtain w where w: "conn_reads c = w # conn_reads c1" "wr_result w = ReadOk row" "outcome_accepted (conn_uid_validity c) w"
    and c1: "conn_uid_validity c1 = conn_uid_validity c" "conn_sent c1 = conn_sent c" "conn_limits c1 = conn_limits c"
    using conn_read_Inr [OF read] by blast
  obtain step where step: "collect_row h tag kind (conn_limits c1) s row = Inr step"
    using "1.prems" read by (auto simp: collect.simps [of h tag kind s c] split: sum.splits)
  show ?case
  proof (cases step)
    case None
    then obtain r where row: "row = RespDone tag StatusOk r" and fin: "collect_done tag kind s tag StatusOk r = Inr ()"
      using step by (auto simp: collect_row_def and_then_def collect_done_def split: Response.splits Status.splits if_splits sum.splits)
    have "rows = cs_rows s" "d = (if kind = KindExamine then c1\<lparr>conn_uid_validity := cs_validity s\<rparr> else c1)"
      using "1.prems" read step None by (auto simp: collect.simps [of h tag kind s c])
    then show ?thesis using w c1 fin row by (intro exI [of _ "[]"] exI [of _ w] exI [of _ s] exI [of _ r]) simp
  next
    case (Some s1)
    then have rest: "collect h tag kind s1 c1 = (Inr rows, d)"
      using "1.prems" read step by (simp add: collect.simps [of h tag kind s c])
    obtain pre w' s' r where IH: "conn_reads c1 = pre @ w' # conn_reads d" "list_all (outcome_accepted (conn_uid_validity c1)) (pre @ [w'])"
      "try_fold (collect_read h tag kind (conn_limits c1)) s1 pre = Inr s'"
      "wr_result w' = ReadOk (RespDone tag StatusOk r)" "collect_done tag kind s' tag StatusOk r = Inr ()" "rows = cs_rows s'"
      "conn_uid_validity d = (if kind = KindExamine then cs_validity s' else conn_uid_validity c1)"
      "conn_sent d = conn_sent c1" "conn_limits d = conn_limits c1"
      using "1.IH" [OF read [symmetric] refl step Some rest] by blast
    have "try_fold (collect_read h tag kind (conn_limits c)) s (w # pre) = Inr s'"
      using IH(3) step w(2) Some by (simp add: collect_read_def c1(3) and_then_def ok_or_def)
    then show ?thesis
      using IH w c1 by (intro exI [of _ "w # pre"] exI [of _ w'] exI [of _ s'] exI [of _ r]) simp
  qed
qed

lemma collect_sent: "conn_sent (snd (collect h tag kind s c)) = conn_sent c"
proof (induction h tag kind s c rule: collect.induct)
  case (1 h tag kind s c)
  obtain r c1 where read: "conn_read c = (r, c1)" by force
  have sent: "conn_sent c1 = conn_sent c" using conn_read_sent [of c] read by simp
  show ?case
  proof (cases r)
    case (Inr row)
    then show ?thesis
      using "1.IH" [OF read [symmetric] Inr] read sent
      by (auto simp: collect.simps [of h tag kind s c] split: sum.splits option.splits)
  qed (simp add: collect.simps [of h tag kind s c] read sent)
qed

section \<open>Read-only selection\<close>

lemma collect_row_Some:
  assumes "collect_read h tag kind l s w = Inr s'"
  shows "\<exists>row. wr_result w = ReadOk row \<and> collect_row h tag kind l s row = Inr (Some s')"
  using assms by (auto simp: collect_read_def and_then_def ok_or_def split: ReadResult.splits sum.splits option.splits)

lemma examine_step:
  assumes "collect_row h tag KindExamine l s row = Inr (Some s')"
  shows "cs_validity s' = cs_validity s
    \<or> cs_validity s = None \<and> (\<exists>r v. row = RespData StatusOk r \<and> out_code r = Some (CodeUidValidity v) \<and> v \<noteq> 0 \<and> cs_validity s' = Some v)"
  using assms
  by (auto simp: collect_row_def collect_ok_def collect_mailbox_def collect_fetch_def and_then_def push_response_def Let_def
      split: Response.splits Status.splits MailboxDatum.splits option.splits ResponseCode.splits if_splits sum.splits)

lemma examine_validity:
  "try_fold (collect_read h tag KindExamine l) s pre = Inr s' \<Longrightarrow> cs_validity s = None \<Longrightarrow> cs_validity s' = Some v \<Longrightarrow>
     v \<noteq> 0 \<and> (\<exists>w \<in> set pre. \<exists>r. wr_result w = ReadOk (RespData StatusOk r) \<and> out_code r = Some (CodeUidValidity v))"
proof (induction pre arbitrary: s)
  case (Cons w pre)
  obtain s1 where s1: "collect_read h tag KindExamine l s w = Inr s1" "try_fold (collect_read h tag KindExamine l) s1 pre = Inr s'"
    using Cons.prems(1) by (auto simp: and_then_def split: sum.splits)
  obtain row where row: "wr_result w = ReadOk row" "collect_row h tag KindExamine l s row = Inr (Some s1)"
    using collect_row_Some [OF s1(1)] by blast
  show ?case
  proof (cases "cs_validity s1")
    case None
    then show ?thesis using Cons.IH [OF s1(2) _ Cons.prems(3)] by auto
  next
    case (Some u)
    have keep: "cs_validity t = Some u \<Longrightarrow> try_fold (collect_read h tag KindExamine l) t ws = Inr s' \<Longrightarrow> cs_validity s' = Some u" for t ws
    proof (induction ws arbitrary: t)
      case (Cons x ws)
      then obtain t1 where "collect_read h tag KindExamine l t x = Inr t1" "try_fold (collect_read h tag KindExamine l) t1 ws = Inr s'"
        by (auto simp: and_then_def split: sum.splits)
      with Cons collect_row_Some [of h tag KindExamine l t x t1] examine_step [of h tag l t _ t1] show ?case by fastforce
    qed simp
    have "u = v" using keep [OF Some s1(2)] Cons.prems(3) by simp
    then show ?thesis using examine_step [OF row(2)] Some Cons.prems(2) row(1) by auto
  qed
qed simp

text \<open>
  A mailbox counts as selected only when the server's tagged completion says \<open>READ-ONLY\<close> and an
  untagged response gave a nonzero UIDVALIDITY; from then on every response that reports a read-write selection or
  another UIDVALIDITY is refused.
\<close>

theorem selection_read_only:
  assumes "examine enc h name c = (Inr v, d)"
  shows "v \<noteq> 0 \<and> conn_uid_validity d = Some v
    \<and> (\<exists>pre w tag r. conn_reads c = pre @ w # conn_reads d \<and> wr_result w = ReadOk (RespDone tag StatusOk r)
          \<and> out_code r = Some CodeReadOnly
          \<and> (\<exists>u \<in> set pre. \<exists>r. wr_result u = ReadOk (RespData StatusOk r) \<and> out_code r = Some (CodeUidValidity v)))
    \<and> (\<forall>row e r. conn_read d = (Inr row, e) \<longrightarrow> response_outcome row = Some r \<longrightarrow>
          out_code r \<noteq> Some CodeReadWrite \<and> (\<forall>u. out_code r = Some (CodeUidValidity u) \<longrightarrow> u = v))"
proof -
  obtain command rows c1 where req: "request h command KindExamine c = (Inr rows, c1)" and v: "conn_uid_validity c1 = Some v"
    and d: "d = c1"
    using assms by (auto simp: examine_def examine_selection_def wire_bind_Inr split: option.splits)
  obtain tag c2 c3 where tag: "conn_tag (prepare ContractOther c) = (Inr tag, c2)"
    and wr: "conn_write (command_line tag command) c2 = (Inr (), c3)" and col: "collect h tag KindExamine collect_start c3 = (Inr rows, c1)"
    using req by (auto simp: request_def wire_bind_Inr)
  have reads: "conn_reads c3 = conn_reads c"
    using conn_tag_reads [OF tag] conn_write_reads [OF wr] by (simp add: prepare_def)
  obtain pre w s' r where c: "conn_reads c3 = pre @ w # conn_reads c1"
    "try_fold (collect_read h tag KindExamine (conn_limits c3)) collect_start pre = Inr s'"
    "wr_result w = ReadOk (RespDone tag StatusOk r)" "collect_done tag KindExamine s' tag StatusOk r = Inr ()"
    "conn_uid_validity c1 = cs_validity s'"
    using collect_Inr [OF col] by auto
  have ro: "out_code r = Some CodeReadOnly" using c(4) by (auto simp: collect_done_def split: if_splits)
  have valid: "v \<noteq> 0 \<and> (\<exists>w \<in> set pre. \<exists>r. wr_result w = ReadOk (RespData StatusOk r) \<and> out_code r = Some (CodeUidValidity v))"
    using examine_validity [OF c(2)] c(5) v by (simp add: collect_start_def)
  have "out_code r \<noteq> Some CodeReadWrite \<and> (\<forall>u. out_code r = Some (CodeUidValidity u) \<longrightarrow> u = v)"
    if read: "conn_read d = (Inr row, e)" and outcome: "response_outcome row = Some r" for row e r
  proof -
    obtain w where "outcome_accepted (Some v) w" "wr_result w = ReadOk row"
      using conn_read_Inr [OF read] v d by auto
    then have "check_outcome (Some v) r = Inr ()" using outcome by (simp add: outcome_accepted_def)
    then show ?thesis by (auto simp: check_outcome_def split: if_splits option.splits)
  qed
  with valid ro v d c(1,3) reads show ?thesis by auto
qed

definition example_reads :: "WireRead list" where
  "example_reads = [\<lparr>wr_bytes = 20, wr_result = ReadOk (RespData StatusOk \<lparr>out_code = Some (CodeUidValidity 7), out_information = None\<rparr>)\<rparr>,
     \<lparr>wr_bytes = 20, wr_result = ReadOk (RespDone ''M1'' StatusOk \<lparr>out_code = Some CodeReadOnly, out_information = None\<rparr>)\<rparr>]"

definition example_connection :: "WireRead list \<Rightarrow> Connection" where
  "example_connection reads = \<lparr>conn_reads = reads, conn_faults = [], conn_sent = [], conn_limits = imap_limits_default,
     conn_contract = ContractOther, conn_metrics = metrics_default, conn_next_tag = 0, conn_uid_validity = None, conn_fuzzy = False\<rparr>"

definition example_host :: metadata_host where
  "example_host = \<lparr>mh_internal_date = (\<lambda>_. None), mh_sent_date = (\<lambda>_. None), mh_header_text = (\<lambda>_. None)\<rparr>"

lemma example_examined: "fst (examine (\<lambda>_. []) example_host ''Drafts'' (example_connection example_reads)) = Inr 7"
  by code_simp

theorem selection_read_only_witness:
  "conn_uid_validity (snd (examine (\<lambda>_. []) example_host ''Drafts'' (example_connection example_reads))) = Some 7"
  using selection_read_only [of "\<lambda>_. []" example_host "''Drafts''" "example_connection example_reads" 7
      "snd (examine (\<lambda>_. []) example_host ''Drafts'' (example_connection example_reads))"] example_examined
  by (simp add: prod_eq_iff)

section \<open>Only read commands\<close>

definition read_only_command :: "string \<Rightarrow> bool" where
  "read_only_command cmd \<longleftrightarrow> cmd = ''LOGOUT'' \<or> (\<exists>pattern. cmd = ''LIST \"\" '' @ pattern) \<or> (\<exists>name. cmd = ''EXAMINE '' @ name)
     \<or> (\<exists>f. cmd = fetch_command f) \<or> (\<exists>uids. cmd = fetch_rows_command uids)"

text \<open>One complete line: a tag, a read command, and no line break before the end.\<close>

definition read_only_line :: "bytes \<Rightarrow> bool" where
  "read_only_line b \<longleftrightarrow> (\<exists>n cmd. b = command_line (''M'' @ show_nat n) cmd \<and> read_only_command cmd
     \<and> CR \<notin> set cmd \<and> LF \<notin> set cmd)"

definition sends :: "(bytes \<Rightarrow> bool) \<Rightarrow> 'a wire \<Rightarrow> bool" where
  "sends P m \<longleftrightarrow> (\<forall>c. \<exists>new. conn_sent (snd (m c)) = conn_sent c @ new \<and> list_all P new)"

named_theorems sends_intros

lemma sendsI:
  assumes "\<And>c r d. m c = (r, d) \<Longrightarrow> \<exists>new. conn_sent d = conn_sent c @ new \<and> list_all P new"
  shows "sends P m"
  unfolding sends_def using assms by (metis prod.collapse)

lemma sendsD: "sends P m \<Longrightarrow> m c = (r, d) \<Longrightarrow> \<exists>new. conn_sent d = conn_sent c @ new \<and> list_all P new"
  unfolding sends_def by (metis snd_conv)

lemma sends_bind [sends_intros]:
  assumes "sends P m" and "\<And>x. sends P (k x)"
  shows "sends P (wire_bind m k)"
proof (rule sendsI)
  fix c r d assume run: "wire_bind m k c = (r, d)"
  obtain x c1 where m: "m c = (x, c1)" by force
  obtain a where a: "conn_sent c1 = conn_sent c @ a" "list_all P a" using sendsD [OF assms(1) m] by blast
  show "\<exists>new. conn_sent d = conn_sent c @ new \<and> list_all P new"
  proof (cases x)
    case (Inl e)
    then show ?thesis using run m a by (auto simp: wire_bind_def)
  next
    case (Inr y)
    then have "k y c1 = (r, d)" using run m by (simp add: wire_bind_def)
    from sendsD [OF assms(2) this] a show ?thesis by fastforce
  qed
qed

lemma sends_simple [sends_intros]: "sends P (wire_return x)" "sends P (wire_lift r)"
  by (simp_all add: sends_def wire_return_def wire_lift_def)

lemma sends_adjust: "sends P m \<Longrightarrow> (\<And>c. conn_sent (f c) = conn_sent c) \<Longrightarrow> sends P (\<lambda>c. m (f c))"
  unfolding sends_def by metis

lemma sends_if [sends_intros]: "(b \<Longrightarrow> sends P m) \<Longrightarrow> (\<not> b \<Longrightarrow> sends P n) \<Longrightarrow> sends P (if b then m else n)"
  by simp

lemma conn_tag_Inr: "conn_tag c = (Inr tag, d) \<Longrightarrow> \<exists>n. tag = ''M'' @ show_nat n"
  by (auto simp: conn_tag_def split: if_splits)

lemma conn_tag_sent: "conn_tag c = (r, d) \<Longrightarrow> conn_sent d = conn_sent c"
  by (auto simp: conn_tag_def split: if_splits)

lemma conn_write_sent: "conn_write bs c = (r, d) \<Longrightarrow> conn_sent d = conn_sent c @ [bs]"
  by (auto simp: conn_write_def Let_def split: list.splits option.splits)

lemma prepare_sent [simp]: "conn_sent (prepare k c) = conn_sent c"
  by (simp add: prepare_def)

lemma limit_sent [simp]: "conn_sent (limit_body l c) = conn_sent c" "conn_sent (limit_search k c) = conn_sent c"
  by (simp_all add: limit_body_def limit_search_def)

lemma sends_request:
  assumes "\<And>n. P (command_line (''M'' @ show_nat n) command)"
  shows "sends P (request h command kind)"
proof (rule sendsI)
  fix c r d assume run: "request h command kind c = (r, d)"
  obtain t c1 where t: "conn_tag (prepare (kind_contract kind) c) = (t, c1)" by force
  have c1: "conn_sent c1 = conn_sent c" using conn_tag_sent [OF t] by simp
  show "\<exists>new. conn_sent d = conn_sent c @ new \<and> list_all P new"
  proof (cases t)
    case (Inl e)
    then show ?thesis using run t c1 by (auto simp: request_def wire_bind_def)
  next
    case (Inr tag)
    obtain n where n: "tag = ''M'' @ show_nat n" using conn_tag_Inr t Inr by blast
    obtain w c2 where w: "conn_write (command_line tag command) c1 = (w, c2)" by force
    have "conn_sent c2 = conn_sent c @ [command_line tag command]" using conn_write_sent [OF w] c1 by simp
    moreover have "conn_sent d = conn_sent c2"
      using run t Inr w collect_sent [of h tag kind collect_start c2]
      by (auto simp: request_def wire_bind_def split: sum.splits)
    ultimately show ?thesis using assms n by simp
  qed
qed

lemma sends_read_only:
  assumes "read_only_command cmd" and "CR \<notin> set cmd" and "LF \<notin> set cmd"
  shows "sends read_only_line (request h cmd kind)"
  by (rule sends_request) (use assms in \<open>auto simp: read_only_line_def\<close>)

lemma sends_logout [sends_intros]: "sends read_only_line (logout h)"
  unfolding logout_def
  by (intro sends_intros sends_read_only) (auto simp: read_only_command_def)

lemma digit_not_break: "is_ascii_digit b \<Longrightarrow> b \<noteq> CR \<and> b \<noteq> LF"
proof -
  have "ord CR = 13" "ord LF = 10" by code_simp+
  then show "is_ascii_digit b \<Longrightarrow> b \<noteq> CR \<and> b \<noteq> LF" by (auto simp: is_ascii_digit_def)
qed

lemma show_nat_line: "CR \<notin> set (show_nat n)" "LF \<notin> set (show_nat n)"
  using show_nat_digits digit_not_break by blast+

lemma part_name_line: "CR \<notin> set (part_name p)" "LF \<notin> set (part_name p)"
  using join_with_set [of "CHR ''.''" "map show_nat p"] show_nat_line by (fastforce simp: part_name_def)+

lemma fetch_command_line: "CR \<notin> set (fetch_command f)" "LF \<notin> set (fetch_command f)"
  using show_nat_line part_name_line
  by (auto simp: fetch_command_def fetch_query_def section_name_def split: Fetch.splits option.splits Section.splits)

lemma quote_line: "quote v = Inr q \<Longrightarrow> CR \<notin> set q \<and> LF \<notin> set q"
proof -
  have codes: "ord CR = 13" "ord LF = 10" by code_simp+
  assume q: "quote v = Inr q"
  then have "CR \<notin> set v" "LF \<notin> set v"
    using codes by (auto simp: quote_def list_ex_iff split: if_splits)
  with q show "CR \<notin> set q \<and> LF \<notin> set q" by (auto simp: quote_def split: if_splits)
qed

lemma sends_quoted:
  assumes "\<And>q. CR \<notin> set q \<Longrightarrow> LF \<notin> set q \<Longrightarrow> sends P (k q)"
  shows "sends P (wire_bind (wire_lift (quote v)) k)"
proof (rule sendsI)
  fix c r d assume run: "wire_bind (wire_lift (quote v)) k c = (r, d)"
  show "\<exists>new. conn_sent d = conn_sent c @ new \<and> list_all P new"
  proof (cases "quote v")
    case (Inl e)
    then show ?thesis using run by (auto simp: wire_bind_def wire_lift_def)
  next
    case (Inr q)
    then have "k q c = (r, d)" using run by (simp add: wire_bind_def wire_lift_def)
    from sendsD [OF assms this] quote_line [OF Inr] show ?thesis by blast
  qed
qed

lemma sends_examine_selection [sends_intros]: "sends read_only_line (examine_selection enc h name)"
  unfolding examine_selection_def
proof (rule sends_quoted)
  fix q :: string assume q: "CR \<notin> set q" "LF \<notin> set q"
  have req: "sends read_only_line (request h (''EXAMINE '' @ q) KindExamine)"
    by (rule sends_read_only) (use q in \<open>auto simp: read_only_command_def\<close>)
  have last: "sends read_only_line (\<lambda>c. (case conn_uid_validity c of None \<Rightarrow> Inl ImapUnsafeSelection | Some v \<Rightarrow> Inr (v, next), c))"
    for "next" :: "u32 option"
    by (simp add: sends_def)
  show "sends read_only_line (wire_bind (request h (''EXAMINE '' @ q) KindExamine)
      (\<lambda>rows. wire_bind (wire_lift (try_fold uid_next_step None rows))
        (\<lambda>next c. (case conn_uid_validity c of None \<Rightarrow> Inl ImapUnsafeSelection | Some v \<Rightarrow> Inr (v, next), c))))"
    by (intro sends_bind sends_simple req last)
qed

lemma sends_examine [sends_intros]: "sends read_only_line (examine enc h name)"
  unfolding examine_def by (auto intro!: sends_intros)

lemma sends_fetch_execute [sends_intros]: "sends read_only_line (fetch_execute h f)"
proof (rule sendsI)
  fix c r d assume run: "fetch_execute h f c = (r, d)"
  have "sends read_only_line (wire_bind (request h (fetch_command f) (KindBody f)) (\<lambda>rows.
        wire_lift (case rows of [row] \<Rightarrow> Inr row | _ \<Rightarrow> Inl ImapMessageNotFound)))"
    by (intro sends_bind sends_simple sends_read_only fetch_command_line) (auto simp: read_only_command_def)
  from sendsD [OF this, of c r d] run show "\<exists>new. conn_sent d = conn_sent c @ new \<and> list_all read_only_line new"
    by (auto simp: fetch_execute_def split: if_splits)
qed

lemma sends_fetch_bytes [sends_intros]: "sends read_only_line (fetch_bytes h f)"
  unfolding fetch_bytes_def by (auto intro!: sends_intros)

lemma sends_limited [sends_intros]: "sends P m \<Longrightarrow> sends P (\<lambda>c. m (limit_body l c))"
  by (rule sends_adjust) simp_all

lemma sends_list_all [sends_intros]: "sends read_only_line (conn_discover_all ih maximum)"
  unfolding conn_discover_all_def
proof (intro sends_bind sends_simple sends_read_only)
  show "read_only_command list_all_command"
    by (auto simp: read_only_command_def list_all_command_def)
  show "CR \<notin> set list_all_command" "LF \<notin> set list_all_command" by (simp_all add: list_all_command_def)
qed

lemma sends_list_names [sends_intros]: "sends read_only_line (conn_discover_names ih maximum names ms n)"
proof (induction names arbitrary: ms n)
  case Nil
  then show ?case by (simp add: sends_intros)
next
  case (Cons entry names)
  obtain expected name where entry: "entry = (expected, name)" by force
  have req: "sends read_only_line (request (ih_metadata ih) (''LIST \"\" '' @ q) KindList)"
    if "CR \<notin> set q" "LF \<notin> set q" for q
    by (rule sends_read_only) (use that in \<open>auto simp: read_only_command_def\<close>)
  show ?case
    unfolding entry conn_discover_names.simps Let_def
    by (intro sends_quoted sends_bind sends_if sends_simple req Cons.IH)
qed

lemma sends_discover_all: "sends read_only_line (discover_all ih l)"
  unfolding discover_all_def by (intro sends_intros)

lemma sends_discover: "sends read_only_line (discover ih allowlist l)"
  unfolding discover_def Let_def by (intro sends_intros)

lemma sends_inspect: "sends read_only_line (inspect_draft_target ih mailbox l)"
  unfolding inspect_draft_target_def select_draft_target_def by (intro sends_intros)

section \<open>Searches on the wire\<close>

lemma wire_bind_step: "m c = (Inr x, c1) \<Longrightarrow> wire_bind m k c = k x c1" "m c = (Inl e, c1) \<Longrightarrow> wire_bind m k c = (Inl e, c1)"
  by (simp_all add: wire_bind_def)

text \<open>The exact octets of a search command.\<close>

definition quoted :: "string \<Rightarrow> string" where
  "quoted v = ''\"'' @ concat (map (\<lambda>c. if c = CHR 0x22 \<or> c = CHR 0x5C then [CHR 0x5C, c] else [c]) v) @ ''\"''"

fun term_image :: "SearchTerm \<Rightarrow> bytes" where
  "term_image (TermAtom v) = '' '' @ v"
| "term_image (TermText key v) =
     '' '' @ key @ '' '' @ (if list_all (\<lambda>b. 32 \<le> ord b \<and> ord b \<le> 126) v then quoted v
       else ''{'' @ show_nat (length v) @ ''}'' @ [CR, LF] @ v)"

definition search_image :: "string \<Rightarrow> bool \<Rightarrow> SearchTerm list \<Rightarrow> bytes" where
  "search_image tag utf8 terms = search_start tag utf8 @ concat (map term_image terms) @ [CR, LF]"

lemma quote_printable: "list_all (\<lambda>b. 32 \<le> ord b \<and> ord b \<le> 126) v \<Longrightarrow> quote v = Inr (quoted v)"
  by (auto simp: quote_def quoted_def list_all_iff list_ex_iff)

lemma send_terms_image:
  "send_terms terms pending n c = (r, d) \<Longrightarrow>
     \<exists>new. conn_sent d = conn_sent c @ new \<and>
       (case r of Inr (pending', _) \<Rightarrow> concat new @ pending' = pending @ concat (map term_image terms)
        | Inl _ \<Rightarrow> \<exists>rest. concat new @ rest = pending @ concat (map term_image terms))"
proof (induction terms pending n arbitrary: c rule: send_terms.induct)
  case (1 pending n)
  then show ?case by simp
next
  case (2 v ts pending n)
  from "2.IH" [of c] "2.prems" show ?case by (cases r) auto
next
  case (3 key v ts pending n)
  let ?p = "pending @ '' '' @ key @ '' ''"
  show ?case
  proof (cases "list_all (\<lambda>b. 32 \<le> ord b \<and> ord b \<le> 126) v")
    case True
    then have "send_terms ts (?p @ quoted v) n c = (r, d)"
      using "3.prems" by (simp add: quote_printable wire_bind_def wire_lift_def Let_def)
    from "3.IH"(1) [OF refl True this] True show ?thesis by (cases r) auto
  next
    case False
    define q where "q = ?p @ ''{'' @ show_nat (length v) @ ''}'' @ [CR, LF]"
    define len where "len = saturating_add (saturating_add n (length q)) (length v)"
    define k where "k = (\<lambda>row. case row of RespContinue _ \<Rightarrow> wire_bind (conn_write v) (\<lambda>_. send_terms ts [] len)
               | _ \<Rightarrow> wire_lift (Inl ImapProtocol))"
    have step: "send_terms (TermText key v # ts) pending n =
        (if len > COMMAND_LIMIT then wire_lift (Inl ImapLimit) else wire_bind (conn_write q) (\<lambda>_. wire_bind conn_read k))"
      using False by (simp only: send_terms.simps Let_def if_False append_assoc q_def len_def k_def)
    let ?tail = "concat (map term_image ts)"
    have image1: "concat [q] @ v @ ?tail = pending @ concat (map term_image (TermText key v # ts))"
      and image2: "concat [q, v] @ ?tail = pending @ concat (map term_image (TermText key v # ts))"
      using False by (simp_all add: q_def)
    have none: ?thesis if "conn_sent d = conn_sent c" "r = Inl e" for e
      using that by (intro exI [of _ "[]"]) simp
    show ?thesis
    proof (cases "len > COMMAND_LIMIT")
      case True
      then have "wire_lift (Inl ImapLimit) c = (r, d)" using "3.prems" by (simp only: step if_True)
      then show ?thesis by (intro none [of ImapLimit]) simp_all
    next
      case small: False
      obtain w c1 where w: "conn_write q c = (w, c1)" by force
      have c1: "conn_sent c1 = conn_sent c @ [q]" by (rule conn_write_sent [OF w])
      have run: "wire_bind (conn_write q) (\<lambda>_. wire_bind conn_read k) c = (r, d)" using "3.prems" small by (simp only: step if_False)
      have one: ?thesis if "conn_sent d = conn_sent c @ [q]" "r = Inl e" for e
        unfolding that(2) sum.case by (rule exI [of _ "[q]"], rule conjI, rule that(1), rule exI, rule image1)
      have two: ?thesis if "conn_sent d = conn_sent c @ [q, v]" "r = Inl e" for e
        unfolding that(2) sum.case by (rule exI [of _ "[q, v]"], rule conjI, rule that(1), rule exI, rule image2)
      show ?thesis
      proof (cases w)
        case (Inl e)
        then have "(Inl e, c1) = (r, d)" using run w by (simp add: wire_bind_step)
        then show ?thesis using c1 by (intro one [of e]) simp_all
      next
        case (Inr u)
        have run: "wire_bind conn_read k c1 = (r, d)"
          using run w Inr by (simp add: wire_bind_step)
        obtain row c2 where row: "conn_read c1 = (row, c2)" by force
        have c2: "conn_sent c2 = conn_sent c @ [q]" using conn_read_sent [of c1] row c1 by simp
        show ?thesis
        proof (cases "\<exists>o'. row = Inr (RespContinue o')")
          case False
          then obtain e where "r = Inl e" "d = c2"
            using run row by (cases row) (auto simp: wire_bind_step k_def split: Response.splits)
          then show ?thesis using c2 by (intro one [of e]) simp_all
        next
          case True
          then obtain o' where cont: "row = Inr (RespContinue o')" by blast
          obtain w2 c3 where w2: "conn_write v c2 = (w2, c3)" by force
          have c3: "conn_sent c3 = conn_sent c @ [q, v]" using conn_write_sent [OF w2] c2 by simp
          show ?thesis
          proof (cases w2)
            case (Inl e)
            then have "(Inl e, c3) = (r, d)"
              using run row cont w2 by (simp add: wire_bind_step k_def)
            then show ?thesis using c3 by (intro two [of e]) simp_all
          next
            case (Inr u2)
            then have rest: "send_terms ts [] len c3 = (r, d)"
              using run row cont w2 by (simp add: wire_bind_step k_def)
            obtain new where new: "conn_sent d = conn_sent c3 @ new"
              "case r of Inr (pending', _) \<Rightarrow> concat new @ pending' = [] @ concat (map term_image ts)
                 | Inl _ \<Rightarrow> \<exists>rest. concat new @ rest = [] @ concat (map term_image ts)"
              using "3.IH"(2) [OF refl False q_def len_def small rest] by blast
            have "conn_sent d = conn_sent c @ [q, v] @ new" using new(1) c3 by simp
            then show ?thesis
              unfolding image2 [symmetric] using new(2) by (intro exI [of _ "[q, v] @ new"]) (auto split: sum.splits)
          qed
        qed
      qed
    qed
  qed
qed

definition search_rows_ok :: "collect_state \<Rightarrow> bool" where
  "search_rows_ok s \<longleftrightarrow> (\<forall>ids. RespMailbox (DatumSearch ids) \<in> set (cs_rows s) \<longrightarrow> distinct ids \<and> 0 \<notin> set ids)"

lemma search_rows_step:
  assumes "collect_read h tag KindSearch l s w = Inr s'" and "search_rows_ok s"
  shows "search_rows_ok s'"
proof -
  obtain row where "collect_row h tag KindSearch l s row = Inr (Some s')" using collect_row_Some [OF assms(1)] by blast
  with assms(2) show ?thesis
    by (auto simp: collect_row_def collect_ok_def collect_mailbox_def collect_fetch_def and_then_def push_response_def search_rows_ok_def
        split: Response.splits Status.splits MailboxDatum.splits if_splits sum.splits)
qed

lemma search_collected:
  assumes "collect h tag KindSearch collect_start c = (Inr (RespMailbox (DatumSearch ids) # rows), d)"
  shows "distinct ids \<and> 0 \<notin> set ids"
proof -
  obtain pre s' where fold: "try_fold (collect_read h tag KindSearch (conn_limits c)) collect_start pre = Inr s'"
    and rows: "cs_rows s' = RespMailbox (DatumSearch ids) # rows"
    using collect_Inr [OF assms] by auto
  have "search_rows_ok collect_start" by (simp add: search_rows_ok_def collect_start_def)
  with try_fold_invariant [OF fold, of search_rows_ok] search_rows_step have "search_rows_ok s'" by blast
  then show ?thesis by (auto simp: search_rows_ok_def rows)
qed

lemma wire_search_facts:
  assumes "wire_search h terms utf8 c = (r, d)"
  shows "\<exists>new k rest. conn_sent d = conn_sent c @ new \<and> concat new @ rest = search_image (''M'' @ show_nat k) utf8 terms
    \<and> (case r of Inl _ \<Rightarrow> True | Inr ids \<Rightarrow> rest = [] \<and> distinct ids \<and> 0 \<notin> set ids)"
proof -
  define k where "k = (\<lambda>tag (pending, n). let pending = pending @ [CR, LF] in
     if saturating_add n (length pending) > COMMAND_LIMIT then wire_lift (Inl ImapLimit)
     else wire_bind (conn_write pending) (\<lambda>_.
          wire_bind (collect h tag KindSearch collect_start) (\<lambda>rows.
            case rows of RespMailbox (DatumSearch ids) # _ \<Rightarrow> wire_return ids | _ \<Rightarrow> wire_lift (Inl ImapProtocol))))"
  have run: "wire_bind conn_tag (\<lambda>tag. wire_bind (send_terms terms (search_start tag utf8) (length (search_start tag utf8))) (k tag))
      (prepare ContractOther c) = (r, d)"
    using assms by (simp only: wire_search_def k_def split_def)
  obtain t c1 where t: "conn_tag (prepare ContractOther c) = (t, c1)" by force
  have c1: "conn_sent c1 = conn_sent c" using conn_tag_sent [OF t] by simp
  show ?thesis
  proof (cases t)
    case (Inl e)
    then show ?thesis using run t c1
      by (intro exI [of _ "[]"] exI [of _ 0] exI [of _ "search_image (''M'' @ show_nat 0) utf8 terms"]) (auto simp: wire_bind_step)
  next
    case (Inr tag)
    obtain m where m: "tag = ''M'' @ show_nat m" using conn_tag_Inr t Inr by blast
    obtain u c2 where u: "send_terms terms (search_start tag utf8) (length (search_start tag utf8)) c1 = (u, c2)" by force
    obtain new where new: "conn_sent c2 = conn_sent c @ new"
      "case u of Inr (pending', _) \<Rightarrow> concat new @ pending' = search_start tag utf8 @ concat (map term_image terms)
        | Inl _ \<Rightarrow> \<exists>rest. concat new @ rest = search_start tag utf8 @ concat (map term_image terms)"
      using send_terms_image [OF u] c1 by auto
    have run: "wire_bind (send_terms terms (search_start tag utf8) (length (search_start tag utf8))) (k tag) c1 = (r, d)"
      using run t Inr by (simp add: wire_bind_step)
    show ?thesis
    proof (cases u)
      case (Inl e)
      then obtain rest where "concat new @ rest = search_start tag utf8 @ concat (map term_image terms)" using new(2) by auto
      then have "concat new @ rest @ [CR, LF] = search_image tag utf8 terms" by (simp add: search_image_def)
      moreover have "r = Inl e" "d = c2" using run u Inl by (simp_all add: wire_bind_step)
      ultimately show ?thesis
        using new(1) m by (intro exI [of _ new] exI [of _ m] exI [of _ "rest @ [CR, LF]"]) simp
    next
      case (Inr pn)
      obtain p n where pn: "pn = (p, n)" by force
      have full: "concat (new @ [p @ [CR, LF]]) @ [] = search_image tag utf8 terms"
        using new(2) Inr pn by (simp add: search_image_def)
      have k: "k tag (p, n) c2 = (r, d)" using run u Inr pn by (simp add: wire_bind_step)
      show ?thesis
      proof (cases "saturating_add n (length (p @ [CR, LF])) > COMMAND_LIMIT")
        case True
        then have "r = Inl ImapLimit" "d = c2" using k by (simp_all add: k_def Let_def)
        then show ?thesis
          using new(1) full m by (intro exI [of _ new] exI [of _ m] exI [of _ "p @ [CR, LF]"]) simp
      next
        case False
        obtain w c3 where w: "conn_write (p @ [CR, LF]) c2 = (w, c3)" by force
        have c3: "conn_sent c3 = conn_sent c @ new @ [p @ [CR, LF]]" using conn_write_sent [OF w] new(1) by simp
        have "conn_sent d = conn_sent c3 \<and> (case r of Inl _ \<Rightarrow> True | Inr ids \<Rightarrow> distinct ids \<and> 0 \<notin> set ids)"
        proof (cases w)
          case (Inl e)
          then show ?thesis using k False w by (auto simp: k_def Let_def wire_bind_step)
        next
          case (Inr x)
          obtain v c4 where v: "collect h tag KindSearch collect_start c3 = (v, c4)" by force
          have "conn_sent c4 = conn_sent c3" using collect_sent [of h tag KindSearch collect_start c3] v by simp
          then show ?thesis
            using k False w Inr v search_collected [of h tag c3 _ _ c4]
            by (cases v) (auto simp: k_def Let_def wire_bind_step split: list.splits Response.splits MailboxDatum.splits)
        qed
        then show ?thesis
          using c3 full m by (intro exI [of _ "new @ [p @ [CR, LF]]"] exI [of _ m] exI [of _ "[]"]) (auto split: sum.splits)
      qed
    qed
  qed
qed

text \<open>
  C24: A search command puts on the wire exactly its keys in order, each text either as a quoted string of
  printable characters or as a literal announced with its own length, and nothing else; when the search fails, a prefix of
  that. Its answer is a list of distinct nonzero UIDs.
\<close>

theorem search_wire_exact:
  "case wire_search h terms utf8 c of (r, d) \<Rightarrow>
     \<exists>new k rest. conn_sent d = conn_sent c @ new \<and> concat new @ rest = search_image (''M'' @ show_nat k) utf8 terms
       \<and> (case r of Inl _ \<Rightarrow> True | Inr ids \<Rightarrow> rest = [] \<and> distinct ids \<and> 0 \<notin> set ids)"
proof (cases "wire_search h terms utf8 c")
  case (Pair r d)
  then show ?thesis using wire_search_facts [OF Pair] by simp
qed

section \<open>Appends\<close>

abbreviation append_outcome :: "Connection \<Rightarrow> AppendOutcome option" where
  "append_outcome c \<equiv> met_append_outcome (conn_metrics c)"

lemma conn_read_outcome: "conn_read c = (r, d) \<Longrightarrow> append_outcome d = append_outcome c"
  by (auto simp: conn_read_def Let_def split: list.splits ReadResult.splits option.splits)

lemma conn_write_outcome: "conn_write bs c = (r, d) \<Longrightarrow> append_outcome d = append_outcome c"
  by (auto simp: conn_write_def Let_def split: list.splits option.splits)

lemma append_write_facts:
  assumes "append_write bs c = (r, d)"
  shows "append_outcome d = append_outcome c \<and> (conn_sent d = conn_sent c @ [bs] \<or> conn_sent d = conn_sent c \<and> r = Inl ImapLimit)"
  using assms by (auto simp: append_write_def Let_def split: if_splits dest: conn_write_sent conn_write_outcome)

lemma append_body_facts:
  assumes "append_body mime c = (r, d)"
  shows "append_outcome d = append_outcome c
    \<and> (\<exists>new rest. conn_sent d = conn_sent c @ new \<and> new @ rest = [mime, [CR, LF]] \<and> (r = Inr () \<longrightarrow> rest = []))"
proof -
  obtain u c1 where u: "append_write mime c = (u, c1)" by force
  note first = append_write_facts [OF u]
  show ?thesis
  proof (cases u)
    case (Inl e)
    then have "r = Inl e" "d = c1" using assms u by (simp_all add: append_body_def wire_bind_step)
    then show ?thesis using first by auto
  next
    case (Inr x)
    then have "append_write [CR, LF] c1 = (r, d)" using assms u by (simp add: append_body_def wire_bind_step)
    from append_write_facts [OF this] first Inr show ?thesis by auto
  qed
qed

text \<open>
  What is left of \<open>todo\<close> was not sent. A recorded outcome is what the completion with the own tag says, where
  \<open>OK\<close> counts only when everything was sent.
\<close>

definition appended :: "string \<Rightarrow> bytes list \<Rightarrow> Connection \<Rightarrow> unit imap \<Rightarrow> Connection \<Rightarrow> bool" where
  "appended tag todo c r d \<longleftrightarrow>
     (\<exists>new rest. conn_sent d = conn_sent c @ new \<and> new @ rest = todo
        \<and> (case r of Inl e \<Rightarrow> append_outcome d = append_outcome c
           | Inr _ \<Rightarrow> \<exists>pre w status o' result. conn_reads c = pre @ w # conn_reads d
               \<and> wr_result w = ReadOk (RespDone tag status o') \<and> append_done (rest = []) status o' = Inr result
               \<and> append_outcome d = Some result))"

lemma appended_stop: "conn_sent d = conn_sent c \<Longrightarrow> append_outcome d = append_outcome c \<Longrightarrow> appended tag todo c (Inl e) d"
  by (auto simp: appended_def)

lemma appended_read:
  assumes "conn_reads c = w # conn_reads c1" and "conn_sent c1 = conn_sent c" and "append_outcome c1 = append_outcome c"
    and "appended tag todo c1 r d"
  shows "appended tag todo c r d"
  using assms by (fastforce simp: appended_def Cons_eq_append_conv split: sum.splits)

lemma appended_body:
  assumes "conn_sent c1 = conn_sent c @ todo" and "conn_reads c1 = conn_reads c" and "append_outcome c1 = append_outcome c"
    and "appended tag [] c1 r d"
  shows "appended tag todo c r d"
  using assms by (auto simp: appended_def split: sum.splits)

lemma append_loop_appended:
  assumes "append_loop tag mime streamed c = (r, d)"
  shows "appended tag (if streamed then [] else [mime, [CR, LF]]) c r d"
  using assms
proof (induction tag mime streamed c rule: append_loop.induct)
  case (1 tag mime streamed c)
  let ?todo = "if streamed then [] else [mime, [CR, LF]]"
  obtain x c1 where read: "conn_read c = (x, c1)" by force
  have c1: "conn_sent c1 = conn_sent c" "append_outcome c1 = append_outcome c"
    using conn_read_sent [of c] conn_read_outcome [OF read] read by simp_all
  note loop = append_loop.simps [of tag mime _ c]
  show ?case
  proof (cases x)
    case (Inl e)
    then have "r = Inl e" "d = c1" using "1.prems" read by (simp_all add: loop)
    then show ?thesis using c1 by (simp add: appended_stop)
  next
    case (Inr row)
    obtain w where w: "conn_reads c = w # conn_reads c1" "wr_result w = ReadOk row" using conn_read_Inr read Inr by blast
    have stop: "appended tag ?todo c r d" if "(Inl e, c1) = (r, d)" for e
      using that c1 by (auto intro: appended_stop)
    have more: "appended tag ?todo c r d" if "appended tag ?todo c1 r d"
      by (rule appended_read [OF w(1) c1 that])
    have again: "appended tag ?todo c r d" if "row \<in> {RespMailbox DatumFlags, RespMailbox DatumExists, RespMailbox DatumRecent}
        \<or> (\<exists>n. row = RespExpunge n) \<or> (\<exists>o'. row = RespData StatusOk o')"
    proof -
      have "append_loop tag mime streamed c1 = (r, d)"
        using that "1.prems" read Inr by (auto simp: loop)
      moreover have "append_loop tag mime streamed c1 = (r, d) \<Longrightarrow> appended tag ?todo c1 r d"
        using that "1.IH"(1,3-6) [OF read [symmetric] Inr] by blast
      ultimately show ?thesis using more by blast
    qed
    show ?thesis
    proof (cases row)
      case (RespContinue o')
      show ?thesis
      proof (cases streamed)
        case True
        then show ?thesis using "1.prems" read Inr RespContinue by (intro stop [of ImapProtocol]) (simp add: loop)
      next
        case False
        obtain u c2 where u: "append_body mime c1 = (u, c2)" by force
        obtain new rest where body: "append_outcome c2 = append_outcome c1" "conn_sent c2 = conn_sent c1 @ new"
          "new @ rest = [mime, [CR, LF]]" "u = Inr () \<longrightarrow> rest = []"
          using append_body_facts [OF u] by blast
        show ?thesis
        proof (cases u)
          case (Inl e)
          then have "r = Inl e" "d = c2" using "1.prems" read \<open>x = Inr row\<close> RespContinue False u by (simp_all add: loop)
          then show ?thesis using body c1 False by (auto simp: appended_def)
        next
          case (Inr y)
          then have "append_loop tag mime streamed c = append_loop tag mime True c2"
            using read \<open>x = Inr row\<close> RespContinue False u by (subst loop) simp
          then have "append_loop tag mime True c2 = (r, d)" using "1.prems" by simp
          then have "appended tag [] c2 r d"
            using "1.IH"(2) [OF read [symmetric] \<open>x = Inr row\<close> RespContinue False u [symmetric] Inr] by simp
          moreover have "new = [mime, [CR, LF]]" using body(3,4) Inr by simp
          ultimately have "appended tag [mime, [CR, LF]] c1 r d"
            using appended_body [of c2 c1 "[mime, [CR, LF]]" tag r d] body(1,2) append_body_reads [OF u [symmetric]] by simp
          then show ?thesis using more False by simp
        qed
      qed
    next
      case (RespDone returned status o')
      show ?thesis
      proof (cases "returned = tag")
        case False
        then show ?thesis using "1.prems" read Inr RespDone by (intro stop [of ImapProtocol]) (simp add: loop)
      next
        case True
        show ?thesis
        proof (cases "append_done streamed status o'")
          case (Inl e)
          then show ?thesis using "1.prems" read \<open>x = Inr row\<close> RespDone True by (intro stop [of e]) (simp add: loop)
        next
          case (Inr result)
          then have "r = Inr ()" "d = set_append_outcome result c1"
            using "1.prems" read \<open>x = Inr row\<close> RespDone True by (simp_all add: loop)
          then show ?thesis
            using w c1 RespDone True Inr
            by (auto simp: appended_def set_append_outcome_def intro!: exI [of _ "[]"])
        qed
      qed
    next
      case (RespMailbox m)
      then show ?thesis using again stop [of ImapProtocol] "1.prems" read Inr by (cases m) (simp_all add: loop)
    next
      case (RespData status o')
      then show ?thesis using again stop [of ImapProtocol] "1.prems" read Inr by (cases status) (simp_all add: loop)
    next
      case (RespExpunge n)
      then show ?thesis using again by simp
    qed (use stop [of ImapProtocol] "1.prems" read Inr in \<open>simp_all add: loop\<close>)
  qed
qed

lemma append_done_cases:
  assumes "append_done sent status r = Inr result"
  shows "result = AppendRejected \<and> status \<in> {StatusNo, StatusBad} \<or> (\<exists>u. result = AppendCreated u) \<and> status = StatusOk \<and> sent"
  using assms by (auto simp: append_done_def split: if_splits option.splits ResponseCode.splits list.splits UidSetMember.splits)

lemma wire_append_facts:
  assumes "wire_append enc target mime c = (r, d)" and "append_outcome c = None"
  shows "\<exists>new. conn_sent d = conn_sent c @ new \<and>
    (case append_outcome d of
       None \<Rightarrow> new = [] \<and> (\<exists>e. r = Inl e)
     | Some AppendUnknown \<Rightarrow> True
     | Some result \<Rightarrow> \<exists>tag q pre w status o'. conn_reads c = pre @ w # conn_reads d \<and> wr_result w = ReadOk (RespDone tag status o')
         \<and> append_done (new = [append_header tag q mime, mime, [CR, LF]]) status o' = Inr result)"
proof -
  obtain t c1 where t: "conn_tag (prepare ContractOther c) = (t, c1)" by force
  have c1: "conn_sent c1 = conn_sent c" "conn_reads c1 = conn_reads c" "append_outcome c1 = None"
    using t assms(2) by (auto simp: conn_tag_def prepare_def split: if_splits)
  note run = assms(1) [unfolded wire_append_def]
  show ?thesis
  proof (cases t)
    case (Inl e)
    then have "r = Inl e" "d = c1" using run t by (simp_all add: wire_bind_step)
    then show ?thesis using c1 by simp
  next
    case (Inr tag)
    show ?thesis
    proof (cases "quote (mailbox_pattern enc target)")
      case (Inl e)
      then have "r = Inl e" "d = c1"
        using run t \<open>t = Inr tag\<close> by (simp_all add: wire_bind_step wire_bind_def wire_lift_def)
      then show ?thesis using c1 by simp
    next
      case (Inr q)
      let ?c = "set_append_outcome AppendUnknown c1" and ?header = "append_header tag q mime"
      have start: "append_outcome ?c = Some AppendUnknown" "conn_sent ?c = conn_sent c" "conn_reads ?c = conn_reads c"
        using c1 by (simp_all add: set_append_outcome_def)
      obtain u c2 where u: "append_write ?header ?c = (u, c2)" by force
      note w = append_write_facts [OF u]
      have reads: "conn_reads c2 = conn_reads c"
        using u start(3) conn_write_reads by (auto simp: append_write_def Let_def split: if_splits)
      show ?thesis
      proof (cases u)
        case (Inl e)
        then have "d = c2" using run t \<open>t = Inr tag\<close> Inr u by (simp add: wire_bind_def wire_lift_def)
        then show ?thesis using w start by auto
      next
        case (Inr y)
        then have loop: "append_loop tag mime False c2 = (r, d)"
          using run t \<open>t = Inr tag\<close> \<open>quote (mailbox_pattern enc target) = Inr q\<close> u by (simp add: wire_bind_def wire_lift_def)
        have sent: "conn_sent c2 = conn_sent c @ [?header]" using w Inr start(2) by auto
        obtain new rest where new: "conn_sent d = conn_sent c2 @ new" "new @ rest = [mime, [CR, LF]]"
          "case r of Inl e \<Rightarrow> append_outcome d = append_outcome c2
           | Inr _ \<Rightarrow> \<exists>pre w status o' result. conn_reads c2 = pre @ w # conn_reads d
               \<and> wr_result w = ReadOk (RespDone tag status o') \<and> append_done (rest = []) status o' = Inr result
               \<and> append_outcome d = Some result"
          using append_loop_appended [OF loop] by (auto simp: appended_def)
        have total: "conn_sent d = conn_sent c @ ?header # new" using new(1) sent by simp
        have full: "rest = [] \<longleftrightarrow> ?header # new = [?header, mime, [CR, LF]]" using new(2) by auto
        show ?thesis
        proof (cases r)
          case (Inl e)
          then have "append_outcome d = Some AppendUnknown" using new(3) w start(1) by simp
          then show ?thesis using total by auto
        next
          case (Inr z)
          then obtain pre x status o' result where x: "conn_reads c = pre @ x # conn_reads d"
            "wr_result x = ReadOk (RespDone tag status o')" "append_done (rest = []) status o' = Inr result"
            "append_outcome d = Some result"
            using new(3) reads by auto
          have "\<exists>tag q pre w status o'. conn_reads c = pre @ w # conn_reads d \<and> wr_result w = ReadOk (RespDone tag status o')
              \<and> append_done (?header # new = [append_header tag q mime, mime, [CR, LF]]) status o' = Inr result"
            using x(1,2,3) unfolding full by blast
          with total x(4) show ?thesis by (cases result) (intro exI [of _ "?header # new"], simp)+
        qed
      qed
    qed
  qed
qed

lemma append_draft_steps:
  assumes "append_draft ih target m l c = (r, d)"
    and "c0 = c\<lparr>conn_metrics := (conn_metrics c)\<lparr>met_append_outcome := None, met_append_error := None,
        met_append_wire_bytes := 0, met_mime_bytes := 0\<rparr>\<rparr>"
  shows "(\<exists>e. r = Inl e \<and> d = c0) \<or>
    (\<exists>a c2. wire_append (ih_encode ih) target (pd_bytes m)
        (limit_body l (c0\<lparr>conn_metrics := (conn_metrics c0)\<lparr>met_mime_bytes := length (pd_bytes m)\<rparr>\<rparr>)) = (a, c2)
     \<and> (let c3 = c2\<lparr>conn_metrics := (conn_metrics c2)\<lparr>met_append_error := (case a of Inl e \<Rightarrow> Some e | Inr _ \<Rightarrow> None)\<rparr>\<rparr>
        in d = c3 \<and> r = (case append_outcome c3 of Some result \<Rightarrow> Inr result | None \<Rightarrow> Inl (case a of Inl e \<Rightarrow> e | Inr _ \<Rightarrow> ImapProtocol))))"
proof (cases "(\<exists>e. mailbox_argument target = Inl e) \<or> (\<exists>e. imap_limits_validate l = Inl e)
    \<or> pd_header_bytes m > il_header_bytes l
    \<or> saturating_add (saturating_add (length (pd_bytes m)) (length target)) 128 > il_operation_bytes l")
  case True
  then have "\<exists>e. r = Inl e \<and> d = c0"
    using assms(1)
    by (cases "mailbox_argument target"; cases "imap_limits_validate l")
      (auto simp: append_draft_def assms(2) [symmetric] wire_bind_def wire_lift_def Let_def)
  then show ?thesis ..
next
  case False
  then obtain u v where ok: "mailbox_argument target = Inr u" "imap_limits_validate l = Inr v"
    by (cases "mailbox_argument target"; cases "imap_limits_validate l") auto
  obtain a c2 where a: "wire_append (ih_encode ih) target (pd_bytes m)
      (limit_body l (c0\<lparr>conn_metrics := (conn_metrics c0)\<lparr>met_mime_bytes := length (pd_bytes m)\<rparr>\<rparr>)) = (a, c2)" by force
  show ?thesis
    using assms(1) False ok a
    by (auto simp: append_draft_def assms(2) [symmetric] wire_bind_def wire_lift_def Let_def split: option.splits)
qed

lemma append_draft_facts:
  assumes "append_draft ih target m l c = (r, d)"
  shows "\<exists>new. conn_sent d = conn_sent c @ new \<and>
    (case r of
       Inl e \<Rightarrow> new = []
     | Inr AppendUnknown \<Rightarrow> True
     | Inr result \<Rightarrow> \<exists>tag q pre w status o'. conn_reads c = pre @ w # conn_reads d \<and> wr_result w = ReadOk (RespDone tag status o')
         \<and> (result = AppendRejected \<and> status \<in> {StatusNo, StatusBad}
            \<or> status = StatusOk \<and> new = [append_header tag q (pd_bytes m), pd_bytes m, [CR, LF]]
              \<and> append_done True StatusOk o' = Inr result))"
proof -
  define c0 where "c0 = c\<lparr>conn_metrics := (conn_metrics c)\<lparr>met_append_outcome := None, met_append_error := None,
        met_append_wire_bytes := 0, met_mime_bytes := 0\<rparr>\<rparr>"
  have c0: "conn_sent c0 = conn_sent c" "conn_reads c0 = conn_reads c" by (simp_all add: c0_def)
  show ?thesis
  proof (cases "\<exists>e. r = Inl e \<and> d = c0")
    case True
    then show ?thesis using c0 by auto
  next
    case False
    define c1 where "c1 = limit_body l (c0\<lparr>conn_metrics := (conn_metrics c0)\<lparr>met_mime_bytes := length (pd_bytes m)\<rparr>\<rparr>)"
    obtain a c2 where a: "wire_append (ih_encode ih) target (pd_bytes m) c1 = (a, c2)" by force
    have c1: "conn_sent c1 = conn_sent c" "conn_reads c1 = conn_reads c" "append_outcome c1 = None"
      by (simp_all add: c1_def c0_def limit_body_def)
    define c3 where "c3 = c2\<lparr>conn_metrics := (conn_metrics c2)\<lparr>met_append_error := (case a of Inl e \<Rightarrow> Some e | Inr _ \<Rightarrow> None)\<rparr>\<rparr>"
    have d: "d = c3" "r = (case append_outcome c3 of Some result \<Rightarrow> Inr result | None \<Rightarrow> Inl (case a of Inl e \<Rightarrow> e | Inr _ \<Rightarrow> ImapProtocol))"
      using append_draft_steps [OF assms c0_def] a False by (auto simp: c1_def c3_def Let_def)
    have c3: "conn_sent c3 = conn_sent c2" "conn_reads c3 = conn_reads c2" "append_outcome c3 = append_outcome c2"
      by (simp_all add: c3_def)
    from wire_append_facts [OF a c1(3)] obtain new where new: "conn_sent d = conn_sent c @ new"
      "case append_outcome c2 of None \<Rightarrow> new = [] \<and> (\<exists>e. a = Inl e)
       | Some AppendUnknown \<Rightarrow> True
       | Some result \<Rightarrow> \<exists>tag q pre w status o'. conn_reads c1 = pre @ w # conn_reads c2 \<and> wr_result w = ReadOk (RespDone tag status o')
         \<and> append_done (new = [append_header tag q (pd_bytes m), pd_bytes m, [CR, LF]]) status o' = Inr result"
      by (auto simp: d(1) c1 c3)
    show ?thesis
    proof (cases "append_outcome c2")
      case None
      then show ?thesis using new d(2) c3 by auto
    next
      case (Some result)
      then have r: "r = Inr result" using d(2) c3 by simp
      show ?thesis
      proof (cases "result = AppendUnknown")
        case True
        then show ?thesis using new(1) r by auto
      next
        case False
        then obtain tag q pre w status o' where w: "conn_reads c = pre @ w # conn_reads d" "wr_result w = ReadOk (RespDone tag status o')"
          and fin: "append_done (new = [append_header tag q (pd_bytes m), pd_bytes m, [CR, LF]]) status o' = Inr result"
          using new(2) Some c1 c3 d(1) by (cases result) auto
        have "result = AppendRejected \<and> status \<in> {StatusNo, StatusBad}
            \<or> status = StatusOk \<and> new = [append_header tag q (pd_bytes m), pd_bytes m, [CR, LF]] \<and> append_done True StatusOk o' = Inr result"
          using append_done_cases [OF fin] fin by auto
        with w have "\<exists>tag q pre w status o'. conn_reads c = pre @ w # conn_reads d \<and> wr_result w = ReadOk (RespDone tag status o')
            \<and> (result = AppendRejected \<and> status \<in> {StatusNo, StatusBad}
               \<or> status = StatusOk \<and> new = [append_header tag q (pd_bytes m), pd_bytes m, [CR, LF]]
                 \<and> append_done True StatusOk o' = Inr result)"
          by (intro exI conjI)
        with new(1) r False show ?thesis by (cases result) (intro exI [of _ new], simp)+
      qed
    qed
  qed
qed


end
