(* ===== verification/ReconcileSafety.thy ===== *)
theory ReconcileSafety
  imports WireSafety "HOL-Library.Sublist"
begin

text \<open>
  What the read operations of a connection may say to the server, and what the verification of an uncertain draft
  establishes.
\<close>

section \<open>Confinement\<close>

definition line_safe :: "string \<Rightarrow> bool" where
  "line_safe v \<longleftrightarrow> CR \<notin> set v \<and> LF \<notin> set v"

fun clean_term :: "SearchTerm \<Rightarrow> bool" where
  "clean_term (TermAtom v) = line_safe v"
| "clean_term (TermText key v) = line_safe key"

text \<open>One exchange: a line with a read command, or a search command or what was sent of it.\<close>

definition read_exchange :: "bytes list \<Rightarrow> bool" where
  "read_exchange b \<longleftrightarrow> (\<exists>line. b = [line] \<and> read_only_line line)
     \<or> (\<exists>k utf8 terms rest. list_all clean_term terms \<and> concat b @ rest = search_image (''M'' @ show_nat k) utf8 terms)"

definition confined :: "'a wire \<Rightarrow> bool" where
  "confined m \<longleftrightarrow> (\<forall>c. \<exists>blocks. conn_sent (snd (m c)) = conn_sent c @ concat blocks \<and> list_all read_exchange blocks)"

named_theorems confined_intros

lemma confinedD: "confined m \<Longrightarrow> m c = (r, d) \<Longrightarrow> \<exists>blocks. conn_sent d = conn_sent c @ concat blocks \<and> list_all read_exchange blocks"
  unfolding confined_def by (metis snd_conv)

lemma confinedI:
  assumes "\<And>c r d. m c = (r, d) \<Longrightarrow> \<exists>blocks. conn_sent d = conn_sent c @ concat blocks \<and> list_all read_exchange blocks"
  shows "confined m"
  unfolding confined_def using assms by (metis prod.collapse)

lemma confined_sends: "sends read_only_line m \<Longrightarrow> confined m"
proof (rule confinedI)
  fix c r d assume "sends read_only_line m" "m c = (r, d)"
  from sendsD [OF this] obtain new where "conn_sent d = conn_sent c @ new" "list_all read_only_line new" by blast
  then show "\<exists>blocks. conn_sent d = conn_sent c @ concat blocks \<and> list_all read_exchange blocks"
    by (intro exI [of _ "map (\<lambda>line. [line]) new"]) (auto simp: list_all_iff read_exchange_def)
qed

lemma confined_bind [confined_intros]:
  assumes "confined m" and "\<And>x. confined (k x)"
  shows "confined (wire_bind m k)"
proof (rule confinedI)
  fix c r d assume run: "wire_bind m k c = (r, d)"
  obtain x c1 where m: "m c = (x, c1)" by force
  obtain a where a: "conn_sent c1 = conn_sent c @ concat a" "list_all read_exchange a" using confinedD [OF assms(1) m] by blast
  show "\<exists>blocks. conn_sent d = conn_sent c @ concat blocks \<and> list_all read_exchange blocks"
  proof (cases x)
    case (Inl e)
    then show ?thesis using run m a by (auto simp: wire_bind_def)
  next
    case (Inr y)
    then have "k y c1 = (r, d)" using run m by (simp add: wire_bind_def)
    from confinedD [OF assms(2) this] obtain b where "conn_sent d = conn_sent c1 @ concat b" "list_all read_exchange b" by blast
    with a show ?thesis by (intro exI [of _ "a @ b"]) simp
  qed
qed

lemma confined_simple [confined_intros]: "confined (wire_return x)" "confined (wire_lift r)"
  by (intro confined_sends sends_simple)+

lemma confined_if [confined_intros]: "(b \<Longrightarrow> confined m) \<Longrightarrow> (\<not> b \<Longrightarrow> confined n) \<Longrightarrow> confined (if b then m else n)"
  by simp

lemma confined_pair [confined_intros]: "(\<And>a b. x = (a, b) \<Longrightarrow> confined (f a b)) \<Longrightarrow> confined (case x of (a, b) \<Rightarrow> f a b)"
  by (cases x) simp

lemma confined_limited [confined_intros]: "confined m \<Longrightarrow> confined (\<lambda>c. m (limit_body l c))"
  unfolding confined_def by (metis limit_sent(1))

lemma confined_search:
  assumes "list_all clean_term terms"
  shows "confined (wire_search h terms utf8)"
proof (rule confinedI)
  fix c r d assume "wire_search h terms utf8 c = (r, d)"
  from wire_search_facts [OF this] obtain new k rest where
    "conn_sent d = conn_sent c @ new" "concat new @ rest = search_image (''M'' @ show_nat k) utf8 terms" by blast
  with assms show "\<exists>blocks. conn_sent d = conn_sent c @ concat blocks \<and> list_all read_exchange blocks"
    by (intro exI [of _ "[new]"]) (auto simp: read_exchange_def)
qed

lemma confined_upper [confined_intros]: "confined (wire_upper_uid h next)"
proof (cases "next")
  case None
  have "line_safe ''UID *''" by (simp add: line_safe_def)
  then show ?thesis unfolding wire_upper_uid_def None option.case by (intro confined_intros confined_search) simp
next
  case (Some n)
  then show ?thesis by (simp add: wire_upper_uid_def confined_intros)
qed

lemma confined_windows [confined_intros]: "confined (reconcile_windows h msg_id window upper n first cand)"
proof (induction n arbitrary: first cand)
  case 0
  then show ?case by (simp add: confined_intros)
next
  case (Suc n)
  have clean: "list_all clean_term [TermAtom (uid_range a b), TermText ''HEADER Message-ID'' msg_id]" for a b
    using show_nat_line by (simp add: uid_range_def line_safe_def)
  have step: "confined (case r of Inl evidence \<Rightarrow> wire_return (Inl evidence) | Inr cand \<Rightarrow> reconcile_windows h msg_id window upper n p cand)" for r p
    by (cases r) (simp_all add: confined_intros Suc.IH)
  show ?case
    unfolding reconcile_windows.simps Let_def
    by (intro confined_intros confined_search clean step)
qed

lemma reconcile_content_bind:
  "reconcile_content h l chunk uid offset digest hs =
     (let n = min (l_draft_mime_bytes l - offset + 1) chunk in
      wire_bind (fetch_bytes h (FetchBytes uid None (of_nat offset) (of_nat n))) (\<lambda>bs.
        let offset = offset + length bs in
        if offset > l_draft_mime_bytes l then wire_lift (Inl ImapLimit)
        else wire_bind (wire_lift (if snd hs then Inr hs else header_scan (l_header_bytes l) (fst hs) bs)) (\<lambda>hs.
          if length bs < n then wire_return (digest @ bs, hs)
          else reconcile_content h l chunk uid offset (digest @ bs) hs)))"
  by (rule ext) (simp add: reconcile_content.simps [of h l chunk uid offset digest hs] wire_bind_def wire_lift_def wire_return_def Let_def
      split: prod.split sum.split)

lemma confined_step:
  assumes "confined m" and "\<And>x c1. m c = (Inr x, c1) \<Longrightarrow> \<exists>blocks. conn_sent (snd (k x c1)) = conn_sent c1 @ concat blocks \<and> list_all read_exchange blocks"
  shows "\<exists>blocks. conn_sent (snd (wire_bind m k c)) = conn_sent c @ concat blocks \<and> list_all read_exchange blocks"
proof -
  obtain x c1 where m: "m c = (x, c1)" by force
  obtain a where a: "conn_sent c1 = conn_sent c @ concat a" "list_all read_exchange a" using confinedD [OF assms(1) m] by blast
  show ?thesis
  proof (cases x)
    case (Inl e)
    then show ?thesis using m a by (auto simp: wire_bind_def)
  next
    case (Inr y)
    obtain b where "conn_sent (snd (k y c1)) = conn_sent c1 @ concat b" "list_all read_exchange b" using assms(2) m Inr by blast
    with a m Inr show ?thesis by (intro exI [of _ "a @ b"]) (simp add: wire_bind_def)
  qed
qed

lemma confined_content [confined_intros]: "confined (reconcile_content h l chunk uid offset digest hs)"
proof -
  have "\<exists>blocks. conn_sent (snd (reconcile_content h l chunk uid offset digest hs c)) = conn_sent c @ concat blocks
      \<and> list_all read_exchange blocks" for c
  proof (induction "length (conn_reads c)" arbitrary: offset digest hs c rule: less_induct)
    case less
    show ?case
      unfolding reconcile_content_bind [of h l chunk uid offset digest hs] Let_def
    proof (rule confined_step)
      fix bs c1
      assume fetched: "fetch_bytes h (FetchBytes uid None (of_nat offset) (of_nat (min (l_draft_mime_bytes l - offset + 1) chunk))) c = (Inr bs, c1)"
      have shorter: "length (conn_reads c1) < length (conn_reads c)" using fetch_bytes_shorter [OF fetched] .
      have none: "\<exists>blocks. conn_sent c1 = conn_sent c1 @ concat blocks \<and> list_all read_exchange blocks"
        by (rule exI [of _ "[]"]) simp
      note again = less [OF shorter]
      show "\<exists>blocks. conn_sent (snd ((if l_draft_mime_bytes l < offset + length bs then wire_lift (Inl ImapLimit)
             else wire_bind (wire_lift (if snd hs then Inr hs else header_scan (l_header_bytes l) (fst hs) bs)) (\<lambda>hs.
               if length bs < min (l_draft_mime_bytes l - offset + 1) chunk then wire_return (digest @ bs, hs)
               else reconcile_content h l chunk uid (offset + length bs) (digest @ bs) hs)) c1)) = conn_sent c1 @ concat blocks
           \<and> list_all read_exchange blocks"
        using none again by (auto simp: wire_bind_def wire_lift_def wire_return_def split: sum.split)
    qed (intro confined_sends sends_fetch_bytes)
  qed
  then show ?thesis unfolding confined_def by blast
qed

lemma confined_examine_selection [confined_intros]: "confined (examine_selection enc h name)"
  by (intro confined_sends sends_examine_selection)

lemma confined_reconcile: "confined (reconcile_draft rh mailbox expected l)"
proof -
  have evidence: "confined (case x of (content, headers, complete) \<Rightarrow>
      if \<not> complete \<or> \<not> message_id_evidence rh expected headers content then wire_return ContentMismatch else wire_return (Verified v))" for x v
    by (intro confined_intros)
  have candidate: "confined (case cand of None \<Rightarrow> wire_return Absent | Some uid \<Rightarrow>
      wire_bind (wire_lift (fetch_chunk_bytes (reconcile_bounds l))) (\<lambda>chunk.
        wire_bind (reconcile_content (ih_metadata (rh_imap rh)) l chunk uid 0 [] ([], False)) (\<lambda>(content, headers, complete).
          if \<not> complete \<or> \<not> message_id_evidence rh expected headers content then wire_return ContentMismatch
          else wire_return (Verified \<lparr>dm_uid_validity = v, dm_uid = uid\<rparr>))))" for cand v
  proof (cases cand)
    case None
    then show ?thesis by (simp add: confined_intros)
  next
    case (Some uid)
    show ?thesis unfolding Some option.case by (intro confined_intros)
  qed
  have searched: "confined (case r of Inl evidence \<Rightarrow> wire_return evidence
      | Inr (first, cand) \<Rightarrow> if first \<le> unat upper then wire_lift (Inl ImapLimit)
          else (case cand of None \<Rightarrow> wire_return Absent | Some uid \<Rightarrow>
            wire_bind (wire_lift (fetch_chunk_bytes (reconcile_bounds l))) (\<lambda>chunk.
              wire_bind (reconcile_content (ih_metadata (rh_imap rh)) l chunk uid 0 [] ([], False)) (\<lambda>(content, headers, complete).
                if \<not> complete \<or> \<not> message_id_evidence rh expected headers content then wire_return ContentMismatch
                else wire_return (Verified \<lparr>dm_uid_validity = v, dm_uid = uid\<rparr>)))))" for r v and upper :: u32
  proof (cases r)
    case (Inl a)
    then show ?thesis by (simp add: confined_intros)
  next
    case (Inr p)
    obtain first cand where p: "p = (first, cand)" by force
    show ?thesis unfolding Inr p sum.case prod.case by (intro confined_if confined_simple candidate)
  qed
  show ?thesis
    unfolding reconcile_draft_def Let_def by (intro searched confined_intros)
qed

text \<open>
  Discovering mailboxes, inspecting a draft target and verifying an uncertain draft never change the server:
  whatever the responses and faults, everything they put on the wire is a sequence of complete command lines, each a tag with
  \<open>LIST\<close>, \<open>EXAMINE\<close>, \<open>UID FETCH\<close> of peeked data or \<open>LOGOUT\<close>, and of search commands, of which the last may be cut off;
  no name, identifier or server text breaks out of its argument.
\<close>

theorem read_operations_confined:
  "confined (discover ih allowlist l) \<and> confined (discover_all ih l) \<and> confined (inspect_draft_target ih mailbox l)
    \<and> confined (reconcile_draft rh mailbox expected limits)"
  by (intro conjI confined_reconcile confined_sends [OF sends_discover] confined_sends [OF sends_discover_all] confined_sends [OF sends_inspect])

section \<open>What verification establishes\<close>

text \<open>The windows that tile the UIDs from \<open>first\<close> to \<open>upper\<close>.\<close>

fun window_tiles :: "nat \<Rightarrow> nat \<Rightarrow> nat \<Rightarrow> (nat \<times> nat) list \<Rightarrow> bool" where
  "window_tiles window upper first [] = (first > upper)"
| "window_tiles window upper first ((a, b) # ts) = (a = first \<and> first \<le> upper \<and> b = min (first + window - 1) upper \<and> window_tiles window upper (b + 1) ts)"

text \<open>The server answered a window: some search of exactly that range for that Message-ID returned these UIDs.\<close>

definition window_answer :: "metadata_host \<Rightarrow> string \<Rightarrow> nat \<times> nat \<Rightarrow> u32 list \<Rightarrow> bool" where
  "window_answer h msg_id t uids \<longleftrightarrow>
     (\<exists>c d. wire_search h [TermAtom (uid_range (fst t) (snd t)), TermText ''HEADER Message-ID'' msg_id] False c = (Inr uids, d))
     \<and> (\<forall>u \<in> set uids. fst t \<le> unat u \<and> unat u \<le> snd t)"

lemma candidate_step_Inr:
  "candidate_step first upper cand us = Inr (Inr cand') \<Longrightarrow>
     (\<forall>u \<in> set us. first \<le> unat u \<and> unat u \<le> upper) \<and>
     (case cand of None \<Rightarrow> us = (case cand' of None \<Rightarrow> [] | Some u \<Rightarrow> [u]) | Some u \<Rightarrow> us = [] \<and> cand' = Some u)"
proof (induction us arbitrary: cand)
  case Nil
  then show ?case by (cases cand; cases cand') auto
next
  case (Cons u us)
  have u: "first \<le> unat u \<and> unat u \<le> upper" "cand = None" "candidate_step first upper (Some u) us = Inr (Inr cand')"
    using Cons.prems by (auto split: if_splits)
  from Cons.IH [OF u(3)] u show ?case by simp
qed

lemma candidate_step_Inl: "candidate_step first upper cand us = Inr (Inl e) \<Longrightarrow> e = Ambiguous"
  by (induction first upper cand us rule: candidate_step.induct) (auto split: if_splits)

definition candidate_list :: "u32 option \<Rightarrow> u32 list" where
  "candidate_list cand = (case cand of None \<Rightarrow> [] | Some u \<Rightarrow> [u])"

lemma reconcile_windows_step:
  assumes "reconcile_windows h msg_id window upper (Suc n) first cand c = (Inr r, d)" and "\<not> first > upper"
  obtains uids c1 x where
    "wire_search h [TermAtom (uid_range first (min (first + window - 1) upper)), TermText ''HEADER Message-ID'' msg_id] False c = (Inr uids, c1)"
    and "candidate_step first (min (first + window - 1) upper) cand uids = Inr x"
    and "case x of Inl e \<Rightarrow> r = Inl e \<and> d = c1
      | Inr cand \<Rightarrow> reconcile_windows h msg_id window upper n (min (first + window - 1) upper + 1) cand c1 = (Inr r, d)"
proof -
  define top where "top = min (first + window - 1) upper"
  obtain uids c1 x where "wire_search h [TermAtom (uid_range first top), TermText ''HEADER Message-ID'' msg_id] False c = (Inr uids, c1)"
    and "candidate_step first top cand uids = Inr x"
    and r: "(case x of Inl e \<Rightarrow> wire_return (Inl e) | Inr cand \<Rightarrow> reconcile_windows h msg_id window upper n (top + 1) cand) c1 = (Inr r, d)"
    using assms unfolding reconcile_windows.simps Let_def top_def [symmetric]
    by (simp only: wire_bind_Inr wire_lift_iff if_False) (elim exE conjE, metis prod.inject)
  moreover have "case x of Inl e \<Rightarrow> r = Inl e \<and> d = c1
      | Inr cand \<Rightarrow> reconcile_windows h msg_id window upper n (top + 1) cand c1 = (Inr r, d)"
    using r by (cases x) auto
  ultimately show thesis using that unfolding top_def by blast
qed

lemma reconcile_windows_Inl:
  "reconcile_windows h msg_id window upper n first cand c = (Inr (Inl e), d) \<Longrightarrow> e = Ambiguous"
proof (induction n arbitrary: first cand c)
  case 0
  then show ?case by simp
next
  case (Suc n)
  show ?case
  proof (cases "first > upper")
    case True
    then show ?thesis using Suc.prems by simp
  next
    case False
    show ?thesis
      by (rule reconcile_windows_step [OF Suc.prems False]) (auto split: sum.splits dest: candidate_step_Inl Suc.IH)
  qed
qed

lemma reconcile_windows_Inr:
  "reconcile_windows h msg_id window upper n first cand c = (Inr (Inr (stop, cand')), d) \<Longrightarrow> stop > upper \<Longrightarrow>
     \<exists>ts answers. window_tiles window upper first ts \<and> list_all2 (window_answer h msg_id) ts answers
       \<and> candidate_list cand @ concat answers = candidate_list cand'"
proof (induction n arbitrary: first cand c)
  case 0
  then show ?case by (intro exI [of _ "[]"]) auto
next
  case (Suc n)
  show ?case
  proof (cases "first > upper")
    case True
    then show ?thesis using Suc.prems by (intro exI [of _ "[]"]) auto
  next
    case False
    let ?top = "min (first + window - 1) upper"
    obtain uids c1 r where search: "wire_search h [TermAtom (uid_range first ?top), TermText ''HEADER Message-ID'' msg_id] False c = (Inr uids, c1)"
      and step: "candidate_step first ?top cand uids = Inr (Inr r)"
      and more: "reconcile_windows h msg_id window upper n (?top + 1) r c1 = (Inr (Inr (stop, cand')), d)"
      by (rule reconcile_windows_step [OF Suc.prems(1) False]) (auto split: sum.splits)
    obtain ts answers where ts: "window_tiles window upper (?top + 1) ts" "list_all2 (window_answer h msg_id) ts answers"
      "candidate_list r @ concat answers = candidate_list cand'"
      using Suc.IH [OF more Suc.prems(2)] by blast
    have "window_answer h msg_id (first, ?top) uids"
      using search candidate_step_Inr [OF step] by (auto simp: window_answer_def)
    moreover have "candidate_list cand @ uids = candidate_list r"
      using candidate_step_Inr [OF step] by (auto simp: candidate_list_def split: option.splits)
    ultimately show ?thesis
      using ts False by (intro exI [of _ "(first, ?top) # ts"] exI [of _ "uids # answers"]) (auto simp flip: append_assoc)
  qed
qed

text \<open>Consecutive chunks of one message, each answered by a fetch at its offset.\<close>

fun fetched_chunks :: "metadata_host \<Rightarrow> u32 \<Rightarrow> nat \<Rightarrow> bytes list \<Rightarrow> bool" where
  "fetched_chunks h uid offset [] = True"
| "fetched_chunks h uid offset (b # bs) =
     ((\<exists>n c d. fetch_bytes h (FetchBytes uid None (of_nat offset) n) c = (Inr b, d)) \<and> fetched_chunks h uid (offset + length b) bs)"

lemma header_scan_Inr:
  "header_scan limit headers bs = Inr (headers', complete) \<Longrightarrow>
     \<exists>k. headers' = headers @ take k bs \<and> (if complete then ends_headers headers' else take k bs = bs)"
proof (induction limit headers bs rule: header_scan.induct)
  case (2 limit headers b bs)
  show ?case
  proof (cases "ends_headers (headers @ [b])")
    case True
    then show ?thesis using "2.prems" by (intro exI [of _ 1]) (auto simp: Let_def split: if_splits)
  next
    case False
    then have "header_scan limit (headers @ [b]) bs = Inr (headers', complete)" "length headers \<noteq> limit"
      using "2.prems" by (auto simp: Let_def split: if_splits)
    then obtain k where "headers' = (headers @ [b]) @ take k bs" "if complete then ends_headers headers' else take k bs = bs"
      using "2.IH" [OF _ refl False] by blast
    then show ?thesis by (intro exI [of _ "Suc k"]) auto
  qed
qed simp

text \<open>The scanned headers are what was fed so far, or a completed header block at its start.\<close>

definition scanned :: "bytes \<Rightarrow> bytes \<times> bool \<Rightarrow> bool" where
  "scanned digest hs \<longleftrightarrow> (if snd hs then prefix (fst hs) digest \<and> ends_headers (fst hs) else fst hs = digest)"

lemma scanned_step:
  assumes "scanned digest hs" and "(if snd hs then Inr hs else header_scan limit (fst hs) bs) = Inr hs'"
  shows "scanned (digest @ bs) hs'"
proof (cases "snd hs")
  case True
  then show ?thesis using assms by (auto simp: scanned_def)
next
  case False
  then have "header_scan limit (fst hs) bs = Inr (fst hs', snd hs')" using assms(2) by simp
  from header_scan_Inr [OF this] obtain k where k: "fst hs' = fst hs @ take k bs"
    "if snd hs' then ends_headers (fst hs') else take k bs = bs" by blast
  have "prefix (fst hs @ take k bs) (fst hs @ bs)" using take_is_prefix by simp
  then show ?thesis using k False assms(1) by (auto simp: scanned_def)
qed

lemma reconcile_content_step:
  assumes "reconcile_content h l chunk uid offset digest hs c = (Inr r, d)"
  obtains bs c1 hs1 where
    "fetch_bytes h (FetchBytes uid None (of_nat offset) (of_nat (min (l_draft_mime_bytes l - offset + 1) chunk))) c = (Inr bs, c1)"
    and "(if snd hs then Inr hs else header_scan (l_header_bytes l) (fst hs) bs) = Inr hs1"
    and "if length bs < min (l_draft_mime_bytes l - offset + 1) chunk then r = (digest @ bs, hs1) \<and> d = c1
      else reconcile_content h l chunk uid (offset + length bs) (digest @ bs) hs1 c1 = (Inr r, d)"
proof -
  define n where "n = min (l_draft_mime_bytes l - offset + 1) chunk"
  define scan where "scan = (\<lambda>bs. if snd hs then Inr hs else header_scan (l_header_bytes l) (fst hs) bs)"
  define k where "k = (\<lambda>bs. if offset + length bs > l_draft_mime_bytes l then wire_lift (Inl ImapLimit)
        else wire_bind (wire_lift (scan bs)) (\<lambda>hs.
          if length bs < n then wire_return (digest @ bs, hs)
          else reconcile_content h l chunk uid (offset + length bs) (digest @ bs) hs))"
  have all: "wire_bind (fetch_bytes h (FetchBytes uid None (of_nat offset) (of_nat n))) k c = (Inr r, d)"
    using assms unfolding reconcile_content_bind [of h l chunk uid offset digest hs] Let_def n_def [symmetric] k_def scan_def .
  then obtain bs c1 where bs: "fetch_bytes h (FetchBytes uid None (of_nat offset) (of_nat n)) c = (Inr bs, c1)"
    and run: "k bs c1 = (Inr r, d)"
    unfolding wire_bind_Inr by (elim exE conjE)
  have small: "\<not> offset + length bs > l_draft_mime_bytes l" using run by (auto simp: k_def)
  obtain hs1 where hs1: "scan bs = Inr hs1" using run small by (cases "scan bs") (auto simp: k_def wire_bind_def wire_lift_def)
  have "if length bs < n then r = (digest @ bs, hs1) \<and> d = c1
      else reconcile_content h l chunk uid (offset + length bs) (digest @ bs) hs1 c1 = (Inr r, d)"
    using run small hs1 by (auto simp: k_def wire_bind_def wire_lift_def wire_return_def)
  then show thesis using that bs hs1 unfolding n_def scan_def by blast
qed

lemma reconcile_content_Inr:
  assumes "reconcile_content h l chunk uid offset digest hs c = (Inr (content, hs'), d)" and "scanned digest hs"
  shows "scanned content hs' \<and> (\<exists>bs. fetched_chunks h uid offset bs \<and> content = digest @ concat bs)"
  using assms
proof (induction "length (conn_reads c)" arbitrary: offset digest hs c rule: less_induct)
  case less
  let ?n = "min (l_draft_mime_bytes l - offset + 1) chunk"
  obtain bs c1 hs1 where fetched: "fetch_bytes h (FetchBytes uid None (of_nat offset) (of_nat ?n)) c = (Inr bs, c1)"
    and scan: "(if snd hs then Inr hs else header_scan (l_header_bytes l) (fst hs) bs) = Inr hs1"
    and rest: "if length bs < ?n then (content, hs') = (digest @ bs, hs1) \<and> d = c1
      else reconcile_content h l chunk uid (offset + length bs) (digest @ bs) hs1 c1 = (Inr (content, hs'), d)"
    by (rule reconcile_content_step [OF less.prems(1)])
  have ok: "scanned (digest @ bs) hs1" using scanned_step [OF less.prems(2) scan] .
  have one: "\<exists>n c d. fetch_bytes h (FetchBytes uid None (of_nat offset) n) c = (Inr bs, d)" using fetched by blast
  show ?case
  proof (cases "length bs < ?n")
    case True
    then have "content = digest @ bs" "hs' = hs1" using rest by simp_all
    then show ?thesis using ok one by (intro conjI exI [of _ "[bs]"]) simp_all
  next
    case False
    then have "reconcile_content h l chunk uid (offset + length bs) (digest @ bs) hs1 c1 = (Inr (content, hs'), d)" using rest by simp
    from less.hyps [OF fetch_bytes_shorter [OF fetched] this ok] obtain more where
      "scanned content hs'" "fetched_chunks h uid (offset + length bs) more" "content = (digest @ bs) @ concat more" by blast
    then show ?thesis using one by (intro conjI exI [of _ "bs # more"]) simp_all
  qed
qed


definition example_answers :: "WireRead list" where
  "example_answers = map (\<lambda>r. \<lparr>wr_bytes = 20, wr_result = ReadOk r\<rparr>)
     [RespData StatusOk \<lparr>out_code = Some (CodeUidValidity 7), out_information = None\<rparr>,
      RespData StatusOk \<lparr>out_code = Some (CodeUidNext 3), out_information = None\<rparr>,
      RespDone ''M1'' StatusOk \<lparr>out_code = Some CodeReadOnly, out_information = None\<rparr>,
      RespMailbox (DatumSearch [2]), RespDone ''M2'' StatusOk \<lparr>out_code = None, out_information = None\<rparr>,
      RespFetch 1 [AttrUid 2, AttrSection None (Some 0) (Some (''a:b'' @ [CR, LF, CR, LF] @ ''x''))],
      RespDone ''M3'' StatusOk \<lparr>out_code = None, out_information = None\<rparr>]"

definition example_reconcile_host :: reconcile_host where
  "example_reconcile_host = \<lparr>rh_imap = \<lparr>ih_encode = (\<lambda>_. []), ih_decode = (\<lambda>_. None), ih_metadata = example_host\<rparr>,
     rh_sha256 = (\<lambda>v. map of_char v), rh_header_name = (\<lambda>v. Some (v = ''a'')), rh_message_ids = (\<lambda>v. Some (take 1 v))\<rparr>"

definition example_verification :: DraftVerification where
  "example_verification = \<lparr>ver_uid_validity = 7, ver_message_id = ''b'',
     ver_content_sha256 = map of_char (''a:b'' @ [CR, LF, CR, LF] @ ''x'')\<rparr>"

lemma example_verified:
  "fst (reconcile_draft example_reconcile_host ''Drafts'' example_verification limits_default (example_connection example_answers))
     = Inr (Verified \<lparr>dm_uid_validity = 7, dm_uid = 2\<rparr>)"
  by code_simp


end
