(* ===== verification/Admission.thy ===== *)
theory Admission
  imports Fetch Unicode
begin

text \<open>
  Admission of complete responses before the IMAP parser (\<open>src/src/imap/admission.rs\<close>): framing of lines and
  literals over a fragmented byte stream with ceilings on everything, classification, and the normalization of LIST and FETCH
  responses for the parser. Capacities of buffers and failing allocations are not modelled.
\<close>

section \<open>Lexical helpers\<close>

definition MAX_PROTOCOL_NESTING :: nat where
  "MAX_PROTOCOL_NESTING = 64"

datatype FrameKind = FrameOther | FrameList | FrameFetch

fun decimal_from :: "nat \<Rightarrow> bytes \<Rightarrow> nat option" where
  "decimal_from n [] = Some n"
| "decimal_from n (b # bs) =
     (if is_ascii_digit b \<and> n * 10 \<le> usize_max \<and> n * 10 + (ord b - 48) \<le> usize_max
      then decimal_from (n * 10 + (ord b - 48)) bs else None)"

definition decimal :: "bytes \<Rightarrow> nat option" where
  "decimal bs = (if bs = [] then None else decimal_from 0 bs)"

definition strip_prefix :: "bytes \<Rightarrow> bytes \<Rightarrow> bytes option" where
  "strip_prefix p v = (if take (length p) v = p then Some (drop (length p) v) else None)"

definition prefix_ignore_case :: "bytes \<Rightarrow> bytes \<Rightarrow> bool" where
  "prefix_ignore_case p v \<longleftrightarrow> length p \<le> length v \<and> eq_ignore_ascii_case (take (length p) v) p"

definition classify :: "bytes \<Rightarrow> FrameKind" where
  "classify line =
     (if prefix_ignore_case ''* LIST '' line then FrameList
      else case strip_prefix ''* '' line of
          None \<Rightarrow> FrameOther
        | Some rest \<Rightarrow>
            let digits = length (takeWhile is_ascii_digit rest) in
            if digits > 0 \<and> prefix_ignore_case '' FETCH ('' (drop digits rest) then FrameFetch else FrameOther)"

text \<open>The words of \<open>splitn(3, ' ')\<close>.\<close>

definition three_words :: "bytes \<Rightarrow> bytes \<times> (bytes \<times> bytes) option" where
  "three_words line =
     (case split_once CHR '' '' line of
        None \<Rightarrow> (line, None)
      | Some (first, rest) \<Rightarrow>
          (first, Some (case split_once CHR '' '' rest of None \<Rightarrow> (rest, []) | Some (second, rest) \<Rightarrow> (second, rest))))"

definition status_text :: "bytes \<Rightarrow> bytes option imap" where
  "status_text line =
     (case strip_prefix ''+'' line of
        Some text \<Rightarrow> Inr (Some (case strip_prefix '' '' text of Some rest \<Rightarrow> rest | None \<Rightarrow> text))
      | None \<Rightarrow>
          (case three_words line of
             (first, None) \<Rightarrow> Inl ImapProtocol
           | (first, Some (second, rest)) \<Rightarrow>
               if list_ex (eq_ignore_ascii_case second) [''OK'', ''NO'', ''BAD'', ''BYE'', ''PREAUTH''] then Inr (Some rest)
               else if first = ''*'' \<and> (list_ex (eq_ignore_ascii_case second) [''CAPABILITY'', ''FLAGS'', ''SEARCH'']
                 \<or> decimal second \<noteq> None \<and> list_ex (eq_ignore_ascii_case rest) [''EXISTS'', ''RECENT'', ''EXPUNGE''])
               then Inr None else Inl ImapUnsupported))"

definition admit_other :: "bytes \<Rightarrow> unit imap" where
  "admit_other line =
     (if list_ex (\<lambda>b. 128 \<le> ord b) line then Inl ImapUnsupported
      else and_then (status_text line) (\<lambda>text.
        if is_some_and text (prefix_ignore_case ''[BADCHARSET'') then Inl ImapUnsupported else Inr ()))"

text \<open>\<open>reserve\<close> and \<open>extend\<close>: growth up to a maximum.\<close>

definition reserve_output :: "bytes \<Rightarrow> nat \<Rightarrow> nat \<Rightarrow> unit imap" where
  "reserve_output out additional maximum =
     (case checked_add (length out) additional of
        None \<Rightarrow> Inl ImapLimit | Some needed \<Rightarrow> if needed > maximum then Inl ImapLimit else Inr ())"

definition extend_output :: "bytes \<Rightarrow> bytes \<Rightarrow> nat \<Rightarrow> bytes imap" where
  "extend_output out bs maximum = and_then (reserve_output out (length bs) maximum) (\<lambda>_. Inr (out @ bs))"

section \<open>Tokens\<close>

datatype TokenKind = TokAtom | TokQuoted bool | TokLiteral | TokPunctuation byte

record Token =
  tok_start :: nat
  tok_end :: nat
  tok_data :: bytes
  tok_kind :: TokenKind

text \<open>The bytes of a quoted string up to its quote, and whether one was escaped.\<close>

fun quoted_run :: "bytes \<Rightarrow> bool \<Rightarrow> bytes \<Rightarrow> (bytes \<times> bool) imap" where
  "quoted_run [] escaped acc = Inl ImapProtocol"
| "quoted_run (b # bs) escaped acc =
     (if b = CHR 0x22 then Inr (rev acc, escaped)
      else if b = CHR 0x5C then
        (case bs of
           [] \<Rightarrow> Inl ImapProtocol
         | c # cs \<Rightarrow> if c = CHR 0x5C \<or> c = CHR 0x22 then quoted_run cs True (c # b # acc) else Inl ImapProtocol)
      else if b = CR \<or> b = LF \<or> b = CHR 0x00 then Inl ImapProtocol
      else quoted_run bs escaped (b # acc))"

definition atom_end :: "byte \<Rightarrow> bool" where
  "atom_end b \<longleftrightarrow> is_ascii_whitespace b \<or> b \<in> {CHR ''('', CHR '')'', CHR ''['', CHR '']'', CHR 0x7B, CHR 0x22}"

definition skip_white :: "bytes \<Rightarrow> nat \<Rightarrow> nat" where
  "skip_white frame position = position + length (takeWhile is_ascii_whitespace (drop position frame))"

definition scan_literal :: "bytes \<Rightarrow> nat \<Rightarrow> Token imap" where
  "scan_literal frame start =
     (let digits = takeWhile is_ascii_digit (drop (start + 1) frame); close = start + 1 + length digits in
      if take 1 (drop close frame) \<noteq> [CHR 0x7D] then Inl ImapProtocol
      else and_then (ok_or ImapProtocol (decimal digits)) (\<lambda>n.
        if take 2 (drop (close + 1) frame) \<noteq> [CR, LF] then Inl ImapProtocol
        else case Option.bind (checked_add close 3) (\<lambda>p. checked_add p n) of
            None \<Rightarrow> Inl ImapLimit
          | Some p \<Rightarrow>
              if p > length frame then Inl ImapProtocol
              else Inr \<lparr>tok_start = start, tok_end = p, tok_data = take n (drop (close + 3) frame), tok_kind = TokLiteral\<rparr>))"

definition scanner_next :: "bytes \<Rightarrow> nat \<Rightarrow> Token option imap" where
  "scanner_next frame position =
     (let start = skip_white frame position in
      case drop start frame of
        [] \<Rightarrow> Inr None
      | b # rest \<Rightarrow>
          if b \<in> {CHR ''('', CHR '')'', CHR ''['', CHR '']''}
          then Inr (Some \<lparr>tok_start = start, tok_end = start + 1, tok_data = [b], tok_kind = TokPunctuation b\<rparr>)
          else if b = CHR 0x22
          then and_then (quoted_run rest False []) (\<lambda>(v, escaped).
            Inr (Some \<lparr>tok_start = start, tok_end = start + length v + 2, tok_data = v, tok_kind = TokQuoted escaped\<rparr>))
          else if b = CHR 0x7B then and_then (scan_literal frame start) (\<lambda>t. Inr (Some t))
          else let v = b # takeWhile (\<lambda>b. \<not> atom_end b) rest in
            Inr (Some \<lparr>tok_start = start, tok_end = start + length v, tok_data = v, tok_kind = TokAtom\<rparr>))"

lemma scanner_next_forward: "scanner_next frame position = Inr (Some t) \<Longrightarrow> position < tok_end t \<and> position < length frame"
proof -
  assume next': "scanner_next frame position = Inr (Some t)"
  define start where "start = skip_white frame position"
  obtain b rest where rest: "drop start frame = b # rest"
    using next' by (cases "drop start frame") (auto simp: scanner_next_def start_def Let_def)
  then have "start < length frame" by (metis drop_all leI list.distinct(1))
  moreover have "position \<le> start" by (simp add: start_def skip_white_def)
  moreover have "start < tok_end t"
    using next' rest unfolding scanner_next_def start_def [symmetric] Let_def
    by (auto simp: scan_literal_def Let_def checked_add_def split: if_splits option.splits bind_splits)
  ultimately show ?thesis by simp
qed

fun unescaped :: "bytes \<Rightarrow> bytes" where
  "unescaped [] = []"
| "unescaped (b # bs) =
     (if b = CHR 0x5C then (case bs of [] \<Rightarrow> [] | c # cs \<Rightarrow> c # unescaped cs) else b # unescaped bs)"

definition unescaped_len :: "bytes \<Rightarrow> nat" where
  "unescaped_len bs = length (unescaped bs)"

section \<open>Normalization\<close>

text \<open>The loop variables of \<open>normalize\<close>: what was written, how far it was copied and scanned, and the grammar context.\<close>

record Normal =
  nm_output :: bytes
  nm_copied :: nat
  nm_position :: nat
  nm_depth :: nat
  nm_attr :: bytes
  nm_list_stage :: nat
  nm_payload :: bool
  nm_body_seen :: bool

definition closed :: "Normal \<Rightarrow> Normal imap" where
  "closed s = (if nm_depth s = 0 then Inl ImapProtocol else Inr (s\<lparr>nm_depth := nm_depth s - 1\<rparr>))"

text \<open>A token of a LIST response, and whether it is to be converted.\<close>

definition list_token :: "Token \<Rightarrow> Normal \<Rightarrow> (bool \<times> Normal) imap" where
  "list_token t s =
     (if tok_kind t = TokPunctuation CHR ''('' \<and> nm_list_stage s = 0
      then Inr (False, s\<lparr>nm_list_stage := 1, nm_depth := nm_depth s + 1\<rparr>)
      else if tok_kind t = TokPunctuation CHR ''('' then Inr (False, s\<lparr>nm_depth := nm_depth s + 1\<rparr>)
      else if tok_kind t = TokPunctuation CHR '')''
      then and_then (closed s) (\<lambda>s.
        Inr (False, if nm_depth s = 0 \<and> nm_list_stage s = 1 then s\<lparr>nm_list_stage := 2\<rparr> else s))
      else if nm_list_stage s = 2
      then (case tok_kind t of
              TokQuoted False \<Rightarrow> Inr (False, s\<lparr>nm_list_stage := 3\<rparr>)
            | TokQuoted True \<Rightarrow> Inl ImapUnsupported
            | TokAtom \<Rightarrow>
                if eq_ignore_ascii_case (tok_data t) ''NIL'' then Inr (False, s\<lparr>nm_list_stage := 3\<rparr>)
                else Inl ImapProtocol
            | _ \<Rightarrow> Inl ImapProtocol)
      else if nm_list_stage s = 3 then Inr (True, s\<lparr>nm_list_stage := 4\<rparr>)
      else if nm_list_stage s \<ge> 4 then Inl ImapProtocol
      else Inr (False, s))"

text \<open>The date of an INTERNALDATE, which the parser would unwrap.\<close>

definition date_token :: "bytes \<Rightarrow> Normal \<Rightarrow> Normal imap" where
  "date_token frame s =
     and_then (scanner_next frame (nm_position s)) (\<lambda>next'. and_then (ok_or ImapProtocol next') (\<lambda>date.
       if tok_kind date \<noteq> TokQuoted False \<or> list_ex (\<lambda>b. 128 \<le> ord b) (tok_data date) then Inl ImapProtocol
       else Inr (s\<lparr>nm_position := tok_end date, nm_attr := ''INTERNALDATE''\<rparr>)))"

text \<open>The requested partial body field, and a missing space before its literal.\<close>

definition body_token :: "bytes \<Rightarrow> FrameContract \<Rightarrow> nat \<Rightarrow> Token \<Rightarrow> Normal \<Rightarrow> Normal imap" where
  "body_token frame contract maximum t s =
     (if nm_body_seen s then Inl ImapProtocol
      else case contract of
          ContractBody section' offset cnt \<Rightarrow>
            (case Option.bind (checked_add (tok_end t) 1) (\<lambda>p. checked_add p (length section')) of
               None \<Rightarrow> Inl ImapLimit
             | Some close \<Rightarrow>
                 let origin = close + 1;
                     digits = takeWhile is_ascii_digit (drop (origin + 1) frame);
                     origin_end = origin + 1 + length digits;
                     position = origin_end + 1;
                     s = s\<lparr>nm_position := position, nm_payload := True, nm_body_seen := True, nm_attr := ''BODY[]''\<rparr> in
                 if take 1 (drop close frame) \<noteq> '']''
                   \<or> \<not> eq_ignore_ascii_case (take (length section') (drop (tok_end t + 1) frame)) section'
                   \<or> take 1 (drop origin frame) \<noteq> ''<'' \<or> take 1 (drop origin_end frame) \<noteq> ''>''
                   \<or> decimal digits \<noteq> Some (unat offset)
                 then Inl ImapProtocol
                 else if take 1 (drop position frame) = [CHR 0x7B]
                 then and_then (extend_output (nm_output s) (take (position - nm_copied s) (drop (nm_copied s) frame)) maximum) (\<lambda>output.
                   and_then (extend_output output '' '' maximum) (\<lambda>output. Inr (s\<lparr>nm_output := output, nm_copied := position\<rparr>)))
                 else if take 1 (drop position frame) = '' '' then Inr s
                 else Inl ImapProtocol)
        | _ \<Rightarrow> Inl ImapProtocol)"

text \<open>
  A token of a FETCH response: whether it is to be converted and whether it is metadata; None for a date, which is
  already dealt with.
\<close>

definition fetch_token ::
    "bytes \<Rightarrow> FrameContract \<Rightarrow> nat \<Rightarrow> Token \<Rightarrow> Normal \<Rightarrow> ((bool \<times> bool) option \<times> Normal) imap" where
  "fetch_token frame contract maximum t s =
     (case tok_kind t of
        TokPunctuation b \<Rightarrow>
          if b = CHR ''('' then Inr (Some (False, True), s\<lparr>nm_depth := nm_depth s + 1\<rparr>)
          else if b = CHR '')'' then and_then (closed s) (\<lambda>s. Inr (Some (False, True), s))
          else Inr (Some (False, True), s)
      | TokAtom \<Rightarrow>
          if nm_depth s \<noteq> 1 then Inr (Some (False, True), s)
          else if eq_ignore_ascii_case (tok_data t) ''INTERNALDATE''
          then and_then (date_token frame s) (\<lambda>s. Inr (None, s))
          else if eq_ignore_ascii_case (tok_data t) ''BODY'' \<and> take 1 (drop (tok_end t) frame) = ''[''
          then and_then (body_token frame contract maximum t s) (\<lambda>s. Inr (Some (False, True), s))
          else Inr (Some (False, True), s\<lparr>nm_attr := tok_data t\<rparr>)
      | _ \<Rightarrow>
          if nm_payload s
          then (case contract of
                  ContractBody _ _ cnt \<Rightarrow>
                    let n = (if tok_kind t = TokQuoted True then unescaped_len (tok_data t) else length (tok_data t)) in
                    if n > cnt then Inl ImapLimit else Inr (Some (True, False), s\<lparr>nm_payload := False\<rparr>)
                | _ \<Rightarrow> Inl ImapProtocol)
          else Inr (Some (list_ex (eq_ignore_ascii_case (nm_attr s)) [''ENVELOPE'', ''BODYSTRUCTURE'', ''BODY''], True), s))"

definition metadata_text :: "Token \<Rightarrow> bool" where
  "metadata_text t =
     (case tok_kind t of
        TokQuoted _ \<Rightarrow> utf8_decode (tok_data t) \<noteq> None
      | TokLiteral \<Rightarrow> utf8_decode (tok_data t) \<noteq> None
      | _ \<Rightarrow> list_all (\<lambda>b. ord b < 128) (tok_data t))"

text \<open>An escaped quoted string becomes a literal of its unescaped bytes.\<close>

definition convert_token :: "bytes \<Rightarrow> ImapLimits \<Rightarrow> Token \<Rightarrow> Normal \<Rightarrow> Normal imap" where
  "convert_token frame l t s =
     (let maximum = il_response_bytes l; text' = unescaped (tok_data t) in
      and_then (extend_output (nm_output s) (take (tok_start t - nm_copied s) (drop (nm_copied s) frame)) maximum) (\<lambda>output.
      if unescaped_len (tok_data t) > il_literal_bytes l then Inl ImapLimit
      else and_then (extend_output output (CHR 0x7B # show_nat (unescaped_len (tok_data t)) @ [CHR 0x7D, CR, LF]) maximum) (\<lambda>output.
      and_then (reserve_output output (unescaped_len (tok_data t)) maximum) (\<lambda>_.
      if length (output @ text') > maximum then Inl ImapLimit
      else Inr (s\<lparr>nm_output := output @ text', nm_copied := tok_end t\<rparr>)))))"

text \<open>One turn of the loop: the token and what follows from its kind.\<close>

definition normal_token :: "bytes \<Rightarrow> FrameKind \<Rightarrow> FrameContract \<Rightarrow> ImapLimits \<Rightarrow> Token \<Rightarrow> Normal \<Rightarrow> Normal imap" where
  "normal_token frame kind contract l t s =
     and_then
       (if kind = FrameList then and_then (list_token t s) (\<lambda>(convert, s). Inr (Some (convert, True), s))
        else fetch_token frame contract (il_response_bytes l) t s) (\<lambda>(treatment, s).
     case treatment of
       None \<Rightarrow> Inr s
     | Some (convert, metadata) \<Rightarrow>
         if metadata \<and> \<not> metadata_text t then Inl ImapUnsupported
         else if convert \<and> tok_kind t = TokQuoted True then convert_token frame l t s
         else Inr s)"

lemma extend_output_Inr: "extend_output out bs maximum = Inr out' \<longleftrightarrow> out' = out @ bs \<and> length out' \<le> maximum \<and> length out' \<le> usize_max"
  by (auto simp: extend_output_def reserve_output_def checked_add_def split: option.splits if_splits)

lemma closed_Inr: "closed s = Inr s' \<longleftrightarrow> nm_depth s \<noteq> 0 \<and> s' = s\<lparr>nm_depth := nm_depth s - 1\<rparr>"
  by (auto simp: closed_def)

lemma list_token_position: "list_token t s = Inr (c, s') \<Longrightarrow> nm_position s' = nm_position s"
  by (auto simp: list_token_def closed_Inr split: if_splits TokenKind.splits bool.splits)

lemma date_token_position: "date_token frame s = Inr s' \<Longrightarrow> nm_position s \<le> nm_position s'"
  by (auto simp: date_token_def dest!: scanner_next_forward split: if_splits)

lemma body_token_position:
  assumes "body_token frame contract maximum t s = Inr s'" and "nm_position s = tok_end t"
  shows "nm_position s \<le> nm_position s'"
proof (cases contract)
  case (ContractBody section' offset cnt)
  define close where "close = tok_end t + 1 + length section'"
  have "close \<le> usize_max" using assms ContractBody
    by (auto simp: body_token_def checked_add_def close_def split: if_splits)
  then show ?thesis using assms ContractBody
    by (auto simp: body_token_def checked_add_def close_def Let_def split: if_splits)
qed (use assms in \<open>auto simp: body_token_def split: if_splits\<close>)

lemma fetch_token_position:
  assumes "fetch_token frame contract maximum t s = Inr (v, s')" and "nm_position s = tok_end t"
  shows "nm_position s \<le> nm_position s'"
proof (cases "tok_kind t")
  case TokAtom
  then show ?thesis
    using assms by (auto simp: fetch_token_def dest!: date_token_position body_token_position split: if_splits)
next
  case (TokPunctuation b)
  then show ?thesis using assms by (auto simp: fetch_token_def closed_Inr split: if_splits)
qed (use assms in \<open>auto simp: fetch_token_def Let_def split: if_splits FrameContract.splits\<close>)

lemma convert_token_position: "convert_token frame l t s = Inr s' \<Longrightarrow> nm_position s' = nm_position s"
  by (auto simp: convert_token_def Let_def reserve_output_def split: if_splits option.splits)

lemma normal_token_position:
  assumes token: "normal_token frame kind contract l t s = Inr s'" and position: "nm_position s = tok_end t"
  shows "tok_end t \<le> nm_position s'"
proof -
  obtain r where r: "(if kind = FrameList then and_then (list_token t s) (\<lambda>(convert, s). Inr (Some (convert, True), s))
      else fetch_token frame contract (il_response_bytes l) t s) = Inr r"
    and rest: "(case r of (v, s1) \<Rightarrow> case v of None \<Rightarrow> Inr s1 | Some (convert, metadata) \<Rightarrow>
         if metadata \<and> \<not> metadata_text t then Inl ImapUnsupported
         else if convert \<and> tok_kind t = TokQuoted True then convert_token frame l t s1 else Inr s1) = Inr s'"
    using token unfolding normal_token_def and_then_eq_Inr by auto
  obtain v s1 where r_eq: "r = (v, s1)" by (cases r)
  note first = r [unfolded r_eq] and second = rest [unfolded r_eq prod.case]
  have "nm_position s \<le> nm_position s1"
    using first position by (auto split: if_splits dest: list_token_position fetch_token_position)
  moreover have "nm_position s1 \<le> nm_position s'"
    using second by (auto split: if_splits option.splits dest!: convert_token_position)
  ultimately show ?thesis using position by simp
qed

lemma normalize_forward:
  assumes "scanner_next frame (nm_position s) = Inr (Some t)"
    and "normal_token frame kind contract l t (s\<lparr>nm_position := tok_end t\<rparr>) = Inr s'"
  shows "length frame - nm_position s' < length frame - nm_position s"
  using scanner_next_forward [OF assms(1)] normal_token_position [OF assms(2)]
  by (auto intro: diff_less_mono2)

function normalize_loop :: "bytes \<Rightarrow> FrameKind \<Rightarrow> FrameContract \<Rightarrow> ImapLimits \<Rightarrow> Normal \<Rightarrow> bytes imap" where
  "normalize_loop frame kind contract l s =
     (case scanner_next frame (nm_position s) of
        Inl e \<Rightarrow> Inl e
      | Inr None \<Rightarrow> extend_output (nm_output s) (drop (nm_copied s) frame) (il_response_bytes l)
      | Inr (Some t) \<Rightarrow>
          (case normal_token frame kind contract l t (s\<lparr>nm_position := tok_end t\<rparr>) of
             Inl e \<Rightarrow> Inl e
           | Inr s \<Rightarrow> normalize_loop frame kind contract l s))"
  by pat_completeness auto
termination
  by (relation "measure (\<lambda>(frame, kind, contract, l, s). length frame - nm_position s)")
    (simp_all add: normalize_forward)

declare normalize_loop.simps [simp del]

definition normal_start :: Normal where
  "normal_start = \<lparr>nm_output = [], nm_copied = 0, nm_position = 0, nm_depth = 0, nm_attr = [], nm_list_stage = 0,
     nm_payload = False, nm_body_seen = False\<rparr>"

definition normalize :: "bytes \<Rightarrow> FrameKind \<Rightarrow> FrameContract \<Rightarrow> ImapLimits \<Rightarrow> bytes imap" where
  "normalize frame kind contract l =
     (if kind = FrameOther then extend_output [] frame (il_response_bytes l)
      else and_then (reserve_output [] (length frame) (il_response_bytes l)) (\<lambda>_.
        normalize_loop frame kind contract l normal_start))"

section \<open>Lines and frames\<close>

text \<open>The stream behind the buffer with its shared control; \<open>adm_buffer\<close> are the bytes the reader has buffered.\<close>

record Admission =
  adm_buffer :: bytes
  adm_frame :: bytes
  adm_output :: bytes
  adm_offset :: nat
  adm_line_start :: nat
  adm_literal :: nat
  adm_nesting :: nat
  adm_kind :: "FrameKind option"
  adm_limits :: ImapLimits
  adm_metrics :: Metrics
  adm_contract :: FrameContract
  adm_failure :: "ImapError option"

definition admission_new :: "ImapLimits \<Rightarrow> Metrics \<Rightarrow> Admission" where
  "admission_new l m =
     \<lparr>adm_buffer = [], adm_frame = [], adm_output = [], adm_offset = 0, adm_line_start = 0, adm_literal = 0, adm_nesting = 0,
      adm_kind = None, adm_limits = l, adm_metrics = m, adm_contract = ContractOther, adm_failure = None\<rparr>"

definition configure :: "ImapLimits \<Rightarrow> FrameContract \<Rightarrow> Admission \<Rightarrow> Admission" where
  "configure l contract a = a\<lparr>adm_limits := l, adm_contract := contract\<rparr>"

definition set_metrics :: "Metrics \<Rightarrow> Admission \<Rightarrow> Admission" where
  "set_metrics m a = a\<lparr>adm_metrics := m\<rparr>"

definition admission_fail :: "ImapError \<Rightarrow> Admission \<Rightarrow> Admission" where
  "admission_fail e a = (case adm_failure a of None \<Rightarrow> a\<lparr>adm_failure := Some e\<rparr> | Some _ \<Rightarrow> a)"

definition admission_is_empty :: "Admission \<Rightarrow> bool" where
  "admission_is_empty a \<longleftrightarrow> adm_buffer a = [] \<and> adm_frame a = [] \<and> adm_offset a = length (adm_output a)"

text \<open>The length a line announces for a literal that follows it; \<open>rest\<close> is what stands behind an opening brace.\<close>

definition announced :: "bytes \<Rightarrow> nat option \<Rightarrow> nat option imap" where
  "announced rest announcement =
     (if rest \<noteq> [] \<and> last rest = CHR 0x7D \<and> butlast rest \<noteq> [] \<and> list_all is_ascii_digit (butlast rest)
      then and_then (ok_or ImapLimit (decimal (butlast rest))) (\<lambda>n. Inr (Some n)) else Inr announcement)"

fun line_scan :: "bool \<Rightarrow> bytes \<Rightarrow> bool \<Rightarrow> bool \<Rightarrow> nat \<Rightarrow> nat option \<Rightarrow> (nat \<times> nat option) imap" where
  "line_scan data [] quoted escaped nesting announcement =
     (if quoted \<or> escaped then Inl ImapProtocol else Inr (nesting, announcement))"
| "line_scan data (b # rest) quoted escaped nesting announcement =
     (if b = CR \<or> b = LF \<or> b = CHR 0x00 then Inl ImapProtocol
      else if escaped
      then (if b = CHR 0x5C \<or> b = CHR 0x22 then line_scan data rest quoted False nesting announcement else Inl ImapProtocol)
      else if quoted \<and> b = CHR 0x5C then line_scan data rest quoted True nesting announcement
      else if b = CHR 0x22 \<and> data then line_scan data rest (\<not> quoted) False nesting announcement
      else if \<not> quoted \<and> data \<and> b = CHR ''(''
      then (if nesting + 1 > MAX_PROTOCOL_NESTING then Inl ImapLimit
            else line_scan data rest quoted False (nesting + 1) announcement)
      else if \<not> quoted \<and> data \<and> b = CHR '')''
      then (if nesting = 0 then Inl ImapProtocol else line_scan data rest quoted False (nesting - 1) announcement)
      else if \<not> quoted \<and> data \<and> b = CHR 0x7B
      then and_then (announced rest announcement) (\<lambda>announcement. line_scan data rest quoted False nesting announcement)
      else line_scan data rest quoted False nesting announcement)"

definition contract_limit :: "FrameContract \<Rightarrow> nat" where
  "contract_limit contract = (case contract of ContractBody _ _ cnt \<Rightarrow> cnt | _ \<Rightarrow> usize_max)"

text \<open>What remains of the operation's wire budget.\<close>

definition wire_room :: "Admission \<Rightarrow> nat" where
  "wire_room a =
     il_operation_bytes (adm_limits a) - met_wire_bytes (adm_metrics a) - met_append_wire_bytes (adm_metrics a)"

text \<open>
  The end of a line: whether the response is complete. After a failure nothing reads the state again, so it is left out
  of the error.
\<close>

definition admission_line :: "Admission \<Rightarrow> (bool \<times> Admission) imap" where
  "admission_line a =
     (let line = drop (adm_line_start a) (adm_frame a); content = take (length line - 2) line;
          kind = (case adm_kind a of Some kind \<Rightarrow> kind | None \<Rightarrow> classify content) in
      if length line < 2 \<or> drop (length line - 2) line \<noteq> [CR, LF] then Inl ImapProtocol
      else and_then (line_scan (kind \<noteq> FrameOther) content False False (adm_nesting a) None) (\<lambda>(nesting, announcement).
        and_then (if kind = FrameOther then admit_other content else Inr ()) (\<lambda>_.
        let a = a\<lparr>adm_kind := Some kind, adm_nesting := nesting\<rparr> in
        case announcement of
          None \<Rightarrow> Inr (True, a)
        | Some n \<Rightarrow>
            if n > il_literal_bytes (adm_limits a) \<or> n > contract_limit (adm_contract a)
              \<or> n > il_response_bytes (adm_limits a) - length (adm_frame a) \<or> n > wire_room a
            then Inl ImapLimit
            else Inr (False, a\<lparr>adm_literal := n, adm_line_start := length (adm_frame a),
              adm_metrics := (adm_metrics a)\<lparr>met_max_literal_bytes := max (met_max_literal_bytes (adm_metrics a)) n\<rparr>\<rparr>))))"

definition charge :: "nat \<Rightarrow> Admission \<Rightarrow> unit imap \<times> Admission" where
  "charge steps a =
     (if steps > il_parser_steps (adm_limits a) - met_parser_steps (adm_metrics a) then (Inl ImapLimit, a)
      else (Inr (), a\<lparr>adm_metrics := (adm_metrics a)\<lparr>met_parser_steps := met_parser_steps (adm_metrics a) + steps\<rparr>\<rparr>))"

text \<open>A complete response: paid for, normalized into the output, and the frame reset.\<close>

definition admission_finish :: "Admission \<Rightarrow> unit imap \<times> Admission" where
  "admission_finish a =
     (case charge (saturating_mul (length (adm_frame a)) 3) a of
        (Inl e, a) \<Rightarrow> (Inl e, a)
      | (Inr _, a) \<Rightarrow>
          (case normalize (adm_frame a) (case adm_kind a of Some kind \<Rightarrow> kind | None \<Rightarrow> FrameOther) (adm_contract a) (adm_limits a) of
             Inl e \<Rightarrow> (Inl e, a)
           | Inr output \<Rightarrow>
               (case (if length output > length (adm_frame a) then charge (length output - length (adm_frame a)) a
                      else (Inr (), a)) of
                  (Inl e, a) \<Rightarrow> (Inl e, a)
                | (Inr _, a) \<Rightarrow>
                    (Inr (), a\<lparr>adm_output := output, adm_offset := 0, adm_frame := [], adm_line_start := 0, adm_nesting := 0,
                       adm_literal := 0, adm_kind := None\<rparr>))))"

section \<open>Reading\<close>

text \<open>A response that begins counts against the responses of the operation.\<close>

definition admission_begin :: "Admission \<Rightarrow> Admission option" where
  "admission_begin a =
     (if adm_frame a = [] \<and> adm_kind a = None
      then (if met_responses (adm_metrics a) \<ge> il_responses (adm_limits a) then None
            else Some (a\<lparr>adm_metrics := (adm_metrics a)\<lparr>met_responses := met_responses (adm_metrics a) + 1\<rparr>\<rparr>))
      else Some a)"

text \<open>The bytes up to the end of the line or of the literal, and the room the ceilings leave.\<close>

definition desired :: "Admission \<Rightarrow> nat" where
  "desired a =
     (if adm_literal a \<noteq> 0 then min (length (adm_buffer a)) (adm_literal a)
      else min (length (adm_buffer a)) (length (takeWhile (\<lambda>b. b \<noteq> LF) (adm_buffer a)) + 1))"

definition admission_room :: "Admission \<Rightarrow> nat" where
  "admission_room a =
     min (min (il_response_bytes (adm_limits a) - length (adm_frame a)) (wire_room a))
       (il_parser_steps (adm_limits a) - met_parser_steps (adm_metrics a))"

definition taken :: "nat \<Rightarrow> Admission \<Rightarrow> Admission" where
  "taken cnt a =
     (let frame = adm_frame a @ take cnt (adm_buffer a); m = adm_metrics a in
      a\<lparr>adm_frame := frame, adm_buffer := drop cnt (adm_buffer a),
        adm_metrics := m\<lparr>met_wire_bytes := met_wire_bytes m + cnt, met_parser_steps := met_parser_steps m + cnt,
          met_max_response_bytes := max (met_max_response_bytes m) (length frame)\<rparr>\<rparr>)"

text \<open>What follows the bytes taken: the end of a literal, or of a line and with it of the response.\<close>

definition admission_advance :: "nat \<Rightarrow> Admission \<Rightarrow> unit imap \<times> Admission" where
  "admission_advance cnt a =
     (if adm_literal a \<noteq> 0
      then (Inr (), if adm_literal a = cnt then a\<lparr>adm_literal := 0, adm_line_start := length (adm_frame a)\<rparr>
                    else a\<lparr>adm_literal := adm_literal a - cnt\<rparr>)
      else if adm_frame a \<noteq> [] \<and> last (adm_frame a) = LF
      then (case admission_line a of
              Inl e \<Rightarrow> (Inl e, a)
            | Inr (True, a) \<Rightarrow> admission_finish a
            | Inr (False, a) \<Rightarrow> (Inr (), a))
      else (Inr (), a))"

text \<open>One turn of the loop of \<open>poll_read\<close>, with bytes in the buffer.\<close>

definition admission_step :: "Admission \<Rightarrow> unit imap \<times> Admission" where
  "admission_step a =
     (case admission_begin a of
        None \<Rightarrow> (Inl ImapLimit, a)
      | Some a \<Rightarrow>
          let cnt = min (desired a) (admission_room a) in
          if cnt = 0 then (Inl ImapLimit, a)
          else case extend_output (adm_frame a) (take cnt (adm_buffer a)) (il_response_bytes (adm_limits a)) of
              Inl e \<Rightarrow> (Inl e, a)
            | Inr _ \<Rightarrow> admission_advance cnt (taken cnt a))"

text \<open>What the socket does next: bytes (none at its end), nothing yet, or a failure.\<close>

datatype Fill = Arrived bytes | NotYet | Broken bool

text \<open>\<open>poll_fill_buf\<close>: buffered bytes, or why there are none (None while the socket has nothing yet).\<close>

definition admission_fill :: "Fill list \<Rightarrow> Admission \<Rightarrow> (ImapError option + unit) \<times> Fill list \<times> Admission" where
  "admission_fill fills a =
     (if adm_buffer a \<noteq> [] then (Inr (), fills, a)
      else case fills of
          [] \<Rightarrow> (Inl None, [], a)
        | fill # fills \<Rightarrow>
            (case fill of
               NotYet \<Rightarrow> (Inl None, fills, a)
             | Broken eof \<Rightarrow> (Inl (Some (if eof then ImapEof else ImapTransport)), fills, a)
             | Arrived bs \<Rightarrow>
                 if bs = [] then (Inl (Some ImapEof), fills, a) else (Inr (), fills, a\<lparr>adm_buffer := bs\<rparr>)))"

text \<open>What a poll reports; the loop fetches and admits until a response is there to be delivered.\<close>

datatype Poll = Delivered bytes | Waiting | Refused ImapError

fun pending_bytes :: "Fill list \<Rightarrow> nat" where
  "pending_bytes [] = 0"
| "pending_bytes (Arrived bs # fills) = length bs + pending_bytes fills"
| "pending_bytes (fill # fills) = pending_bytes fills"

lemma admission_line_buffer: "admission_line a = Inr (v, a') \<Longrightarrow> adm_buffer a' = adm_buffer a"
  by (auto simp: admission_line_def Let_def split: if_splits option.splits)

lemma charge_buffer: "charge k a = (r, a') \<Longrightarrow> adm_buffer a' = adm_buffer a"
  by (auto simp: charge_def split: if_splits)

lemma admission_finish_buffer: "admission_finish a = (r, a') \<Longrightarrow> adm_buffer a' = adm_buffer a"
  by (auto simp: admission_finish_def split: prod.splits sum.splits if_splits dest!: charge_buffer)

lemma admission_advance_buffer: "admission_advance cnt a = (r, a') \<Longrightarrow> adm_buffer a' = adm_buffer a"
  by (auto simp: admission_advance_def split: if_splits sum.splits prod.splits bool.splits
      dest!: admission_line_buffer admission_finish_buffer)

lemma admission_begin_Some:
  "admission_begin a = Some a' \<Longrightarrow> adm_buffer a' = adm_buffer a \<and> desired a' = desired a \<and> admission_room a' = admission_room a"
  by (auto simp: admission_begin_def desired_def admission_room_def wire_room_def split: if_splits)

lemma admission_step_shorter:
  assumes "admission_step a = (Inr x, a')"
  shows "length (adm_buffer a') < length (adm_buffer a)"
proof -
  obtain b where b: "admission_begin a = Some b" using assms by (cases "admission_begin a") (auto simp: admission_step_def)
  define cnt where "cnt = min (desired b) (admission_room b)"
  have cnt: "cnt \<noteq> 0" "cnt \<le> length (adm_buffer b)"
    and advance: "admission_advance cnt (taken cnt b) = (Inr x, a')"
    using assms b by (auto simp: admission_step_def Let_def cnt_def desired_def split: if_splits sum.splits)
  have "adm_buffer a' = drop cnt (adm_buffer a)"
    using admission_advance_buffer [OF advance] admission_begin_Some [OF b] by (simp add: taken_def Let_def)
  then show ?thesis using cnt admission_begin_Some [OF b] by auto
qed

lemma admission_fill_pending:
  "admission_fill fills a = (Inr x, fills', a') \<Longrightarrow>
     length (adm_buffer a') + pending_bytes fills' = length (adm_buffer a) + pending_bytes fills"
  by (auto simp: admission_fill_def split: if_splits list.splits Fill.splits)

function admission_loop :: "Fill list \<Rightarrow> Admission \<Rightarrow> Poll option \<times> Fill list \<times> Admission" where
  "admission_loop fills a =
     (if adm_offset a \<noteq> length (adm_output a) then (None, fills, a)
      else case admission_fill fills a of
          (Inl None, fills, a) \<Rightarrow> (Some Waiting, fills, a)
        | (Inl (Some e), fills, a) \<Rightarrow> (Some (Refused e), fills, admission_fail e a)
        | (Inr _, fills, a) \<Rightarrow>
            (case admission_step a of
               (Inl e, a) \<Rightarrow> (Some (Refused e), fills, admission_fail e a)
             | (Inr _, a) \<Rightarrow> admission_loop fills a))"
  by pat_completeness auto
termination
proof (relation "measure (\<lambda>(fills, a). length (adm_buffer a) + pending_bytes fills)", simp)
qed (auto dest!: admission_step_shorter [OF sym] admission_fill_pending [OF sym])

declare admission_loop.simps [simp del]

definition poll_read :: "nat \<Rightarrow> Fill list \<Rightarrow> Admission \<Rightarrow> Poll \<times> Fill list \<times> Admission" where
  "poll_read remaining fills a =
     (if remaining = 0 then (Delivered [], fills, a)
      else case adm_failure a of
          Some e \<Rightarrow> (Refused e, fills, a)
        | None \<Rightarrow>
            (case admission_loop fills a of
               (Some poll, fills, a) \<Rightarrow> (poll, fills, a)
             | (None, fills, a) \<Rightarrow>
                 let cnt = min remaining (length (adm_output a) - adm_offset a) in
                 (Delivered (take cnt (drop (adm_offset a) (adm_output a))), fills, a\<lparr>adm_offset := adm_offset a + cnt\<rparr>)))"

end
