(* ===== verification/AdmissionSafety.thy ===== *)
theory AdmissionSafety
  imports Admission
begin

text \<open>
  Admission is independent of how the network fragments the bytes: a reader that polls until nothing is left receives what
  a byte-at-a-time reference emits; it is bounded, and what it delivers are complete normalized responses.
\<close>

section \<open>The byte-at-a-time reference\<close>

definition core :: "Admission \<Rightarrow> Admission" where
  "core a = a\<lparr>adm_buffer := [], adm_output := [], adm_offset := 0\<rparr>"

definition undelivered :: "Admission \<Rightarrow> bytes" where
  "undelivered a = drop (adm_offset a) (adm_output a)"

fun feed :: "bytes \<Rightarrow> Admission \<Rightarrow> bytes \<times> Admission" where
  "feed [] c = ([], c)"
| "feed (b # bs) c =
     (if adm_failure c \<noteq> None then ([], c)
      else case admission_step (c\<lparr>adm_buffer := [b]\<rparr>) of
          (Inl e, a) \<Rightarrow> ([], core (admission_fail e a))
        | (Inr _, a) \<Rightarrow> (case feed bs (core a) of (out, c) \<Rightarrow> (undelivered a @ out, c)))"

lemma core_idem [simp]: "core (core a) = core a"
  by (simp add: core_def)

lemma core_sel [simp]:
  "adm_buffer (core a) = []" "adm_frame (core a) = adm_frame a" "adm_output (core a) = []" "adm_offset (core a) = 0"
  "adm_line_start (core a) = adm_line_start a" "adm_literal (core a) = adm_literal a" "adm_nesting (core a) = adm_nesting a"
  "adm_kind (core a) = adm_kind a" "adm_limits (core a) = adm_limits a" "adm_metrics (core a) = adm_metrics a"
  "adm_contract (core a) = adm_contract a" "adm_failure (core a) = adm_failure a"
  by (simp_all add: core_def)

lemma core_fail [simp]: "core (admission_fail e (core a)) = core (admission_fail e a)"
  by (auto simp: admission_fail_def core_def split: option.splits)

lemma feed_failed: "adm_failure c \<noteq> None \<Longrightarrow> feed bs c = ([], c)"
  by (cases bs) simp_all

lemma feed_append:
  "feed (xs @ ys) c = (case feed xs c of (out, c) \<Rightarrow> case feed ys c of (out', c) \<Rightarrow> (out @ out', c))"
proof (induction xs arbitrary: c)
  case (Cons x xs)
  show ?case
  proof (cases "adm_failure c = None")
    case True
    show ?thesis
    proof (cases "admission_step (c\<lparr>adm_buffer := [x]\<rparr>)")
      case (Pair r a)
      show ?thesis
      proof (cases r)
        case (Inl e)
        have "adm_failure (core (admission_fail e a)) \<noteq> None"
          by (auto simp: admission_fail_def split: option.splits)
        then show ?thesis using True Pair Inl by (simp add: feed_failed)
      qed (use True Pair Cons.IH in \<open>simp split: prod.splits\<close>)
    qed
  qed (simp add: feed_failed)
qed simp

text \<open>The buffer and what is delivered take no part in what is admitted.\<close>

definition aside :: "bytes \<Rightarrow> bytes \<Rightarrow> nat \<Rightarrow> Admission \<Rightarrow> Admission" where
  "aside buffer output offset a = a\<lparr>adm_buffer := buffer, adm_output := output, adm_offset := offset\<rparr>"

lemma aside_sel [simp]:
  "adm_buffer (aside x y z a) = x" "adm_frame (aside x y z a) = adm_frame a" "adm_output (aside x y z a) = y"
  "adm_offset (aside x y z a) = z" "adm_line_start (aside x y z a) = adm_line_start a"
  "adm_literal (aside x y z a) = adm_literal a" "adm_nesting (aside x y z a) = adm_nesting a"
  "adm_kind (aside x y z a) = adm_kind a" "adm_limits (aside x y z a) = adm_limits a"
  "adm_metrics (aside x y z a) = adm_metrics a" "adm_contract (aside x y z a) = adm_contract a"
  "adm_failure (aside x y z a) = adm_failure a"
  by (simp_all add: aside_def)

lemma core_aside [simp]: "core (aside x y z a) = core a"
  by (simp add: aside_def core_def)

lemma wire_room_aside [simp]: "wire_room (aside x y z a) = wire_room a"
  by (simp add: wire_room_def)

lemma aside_line: "admission_line (aside x y z a) = and_then (admission_line a) (\<lambda>(v, a). Inr (v, aside x y z a))"
proof -
  define line where "line = drop (adm_line_start a) (adm_frame a)"
  define content where "content = take (length line - 2) line"
  define kind where "kind = (case adm_kind a of Some kind \<Rightarrow> kind | None \<Rightarrow> classify content)"
  define scan where "scan = line_scan (kind \<noteq> FrameOther) content False False (adm_nesting a) None"
  define other where "other = (if kind = FrameOther then admit_other content else Inr ())"
  note unfolded = admission_line_def aside_sel wire_room_aside Let_def line_def [symmetric] content_def [symmetric]
    kind_def [symmetric] scan_def [symmetric] other_def [symmetric]
  show ?thesis
  proof (cases "length line < 2 \<or> drop (length line - 2) line \<noteq> [CR, LF]")
    case True
    then show ?thesis unfolding unfolded by simp
  next
    case ok: False
    show ?thesis
    proof (cases scan)
      case (Inl e)
      then show ?thesis using ok unfolding unfolded by simp
    next
      case scan: (Inr found)
      obtain nesting announcement where found: "found = (nesting, announcement)" by (cases found)
      show ?thesis
      proof (cases other)
        case (Inl e)
        then show ?thesis using ok scan found unfolding unfolded by simp
      next
        case (Inr u)
        then show ?thesis using ok scan found unfolding unfolded
          by (cases announcement) (simp_all add: aside_def wire_room_def)
      qed
    qed
  qed
qed

lemma aside_charge: "charge k (aside x y z a) = (case charge k a of (r, a) \<Rightarrow> (r, aside x y z a))"
  by (auto simp: charge_def aside_def)

text \<open>Two states that admit alike and have the same left to deliver.\<close>

definition alike :: "Admission \<Rightarrow> Admission \<Rightarrow> bool" where
  "alike a c \<longleftrightarrow> core a = core c \<and> undelivered a = undelivered c"

lemma alike_aside: "alike a c \<Longrightarrow> \<exists>x y z. c = aside x y z a \<and> drop z y = undelivered a"
  by (rule exI [of _ "adm_buffer c"], rule exI [of _ "adm_output c"], rule exI [of _ "adm_offset c"])
    (cases a, cases c, simp add: alike_def core_def aside_def undelivered_def)

lemma alike_asideI: "drop z y = undelivered a \<Longrightarrow> alike a (aside x y z a)"
  by (simp add: alike_def undelivered_def)

lemma alike_finish: "alike a c \<Longrightarrow> rel_prod (=) alike (admission_finish a) (admission_finish c)"
proof -
  assume "alike a c"
  then obtain x y z where c: "c = aside x y z a" and left: "drop z y = undelivered a" using alike_aside by blast
  define r where "r = charge (saturating_mul (length (adm_frame a)) 3) a"
  obtain v b where b: "r = (v, b)" by (cases r)
  have unchanged: "adm_output b = adm_output a \<and> adm_offset b = adm_offset a \<and> adm_frame b = adm_frame a
      \<and> adm_kind b = adm_kind a \<and> adm_contract b = adm_contract a \<and> adm_limits b = adm_limits a"
    using b by (auto simp: r_def charge_def split: if_splits)
  then have left_b: "drop z y = undelivered b" using left by (simp add: undelivered_def)
  show ?thesis
  proof (cases v)
    case (Inl e)
    then show ?thesis using b left_b unfolding admission_finish_def c
      by (simp add: aside_charge r_def alike_asideI)
  next
    case (Inr u)
    define n where "n = normalize (adm_frame a) (case adm_kind a of Some kind \<Rightarrow> kind | None \<Rightarrow> FrameOther)
      (adm_contract a) (adm_limits a)"
    show ?thesis
    proof (cases n)
      case (Inl e)
      then show ?thesis using b Inr left_b unchanged unfolding admission_finish_def c
        by (simp add: aside_charge r_def n_def alike_asideI)
    next
      case n: (Inr out)
      define r' where "r' = (if length out > length (adm_frame b) then charge (length out - length (adm_frame b)) b else (Inr (), b))"
      obtain v' b' where b': "r' = (v', b')" by (cases r')
      have left_b': "drop z y = undelivered b'"
        using b' left_b by (auto simp: r'_def charge_def undelivered_def split: if_splits)
      have aside': "(if length out > length (adm_frame b) then charge (length out - length (adm_frame b)) (aside x y z b)
          else (Inr (), aside x y z b)) = (v', aside x y z b')"
        using b' by (auto simp: r'_def aside_charge)
      show ?thesis
      proof (cases v')
        case (Inl e)
        then show ?thesis using b Inr n left_b' unchanged b' aside' unfolding admission_finish_def c
          by (simp add: aside_charge r_def n_def r'_def alike_asideI cong: if_cong)
      next
        case v': (Inr u')
        define done' where "done' b = b\<lparr>adm_output := out, adm_offset := 0, adm_frame := [], adm_line_start := 0,
          adm_nesting := 0, adm_literal := 0, adm_kind := None\<rparr>" for b :: Admission
        have "admission_finish a = (Inr (), done' b')" "admission_finish c = (Inr (), done' (aside x y z b'))"
          using b Inr n unchanged b' aside' v' unfolding admission_finish_def c done'_def
          by (simp_all add: aside_charge r_def n_def r'_def cong: if_cong)
        then show ?thesis by (simp add: done'_def alike_def core_def undelivered_def aside_def)
      qed
    qed
  qed
qed

text \<open>A step depends on the buffer only by the bytes it takes.\<close>

lemma alike_line:
  assumes "alike a c"
  shows "rel_sum (=) (rel_prod (=) alike) (admission_line a) (admission_line c)"
proof -
  obtain x y z where c: "c = aside x y z a" and left: "drop z y = undelivered a" using assms alike_aside by blast
  have kept: "undelivered b = undelivered a" if "admission_line a = Inr (v, b)" for v b
    using that by (auto simp: admission_line_def Let_def undelivered_def split: if_splits option.splits)
  show ?thesis
    using left kept by (cases "admission_line a") (auto simp: c aside_line intro!: alike_asideI)
qed

lemma alike_sel:
  "alike a c \<Longrightarrow> adm_frame a = adm_frame c \<and> adm_literal a = adm_literal c \<and> adm_kind a = adm_kind c
     \<and> adm_limits a = adm_limits c \<and> adm_metrics a = adm_metrics c \<and> adm_failure a = adm_failure c
     \<and> adm_line_start a = adm_line_start c \<and> adm_nesting a = adm_nesting c \<and> adm_contract a = adm_contract c
     \<and> undelivered a = undelivered c"
  by (cases a, cases c, simp add: alike_def core_def)

lemma alike_refl [simp]: "alike a a"
  by (simp add: alike_def)

lemma alike_advance:
  assumes alike: "alike a c"
  shows "rel_prod (=) alike (admission_advance k a) (admission_advance k c)"
proof -
  have literal: "alike (a\<lparr>adm_literal := n\<rparr>) (c\<lparr>adm_literal := n\<rparr>)"
    "alike (a\<lparr>adm_literal := n, adm_line_start := m\<rparr>) (c\<lparr>adm_literal := n, adm_line_start := m\<rparr>)" for n m
    using alike by (cases a, cases c, simp add: alike_def core_def undelivered_def)+
  show ?thesis
    using alike_line [OF alike] alike alike_sel [OF alike] literal
    by (cases "admission_line a"; cases "admission_line c")
      (auto simp: admission_advance_def intro: alike_finish split: prod.splits bool.splits)
qed

text \<open>Bytes before the end of the line or of the literal, all at once.\<close>

definition absorb :: "bytes \<Rightarrow> Admission \<Rightarrow> Admission" where
  "absorb bs c =
     (let frame = adm_frame c @ bs; m = adm_metrics c in
      c\<lparr>adm_frame := frame, adm_literal := adm_literal c - length bs,
        adm_metrics := m\<lparr>met_wire_bytes := met_wire_bytes m + length bs, met_parser_steps := met_parser_steps m + length bs,
          met_max_response_bytes := max (met_max_response_bytes m) (length frame)\<rparr>\<rparr>)"

lemma absorb_absorb: "xs \<noteq> [] \<Longrightarrow> absorb ys (absorb xs c) = absorb (xs @ ys) c"
  by (simp add: absorb_def Let_def max_def)

lemma absorb_sel [simp]:
  "adm_frame (absorb bs c) = adm_frame c @ bs" "adm_literal (absorb bs c) = adm_literal c - length bs"
  "adm_limits (absorb bs c) = adm_limits c" "adm_failure (absorb bs c) = adm_failure c" "adm_kind (absorb bs c) = adm_kind c"
  "adm_contract (absorb bs c) = adm_contract c" "adm_buffer (absorb bs c) = adm_buffer c"
  "adm_output (absorb bs c) = adm_output c" "adm_offset (absorb bs c) = adm_offset c"
  by (simp_all add: absorb_def Let_def)

lemma core_absorb: "core (absorb bs c) = absorb bs (core c)"
  by (simp add: core_def absorb_def Let_def)

lemma core_literal: "core (a\<lparr>adm_literal := l\<rparr>) = (core a)\<lparr>adm_literal := l\<rparr>"
  by (simp add: core_def)

lemma record_literal: "a\<lparr>adm_literal := adm_literal a\<rparr> = a"
  by simp

lemma core_line_start: "core (a\<lparr>adm_line_start := m\<rparr>) = (core a)\<lparr>adm_line_start := m\<rparr>"
  by (simp add: core_def)

lemma room_absorb: "admission_room (absorb bs c) = admission_room c - length bs"
  by (auto simp: absorb_def Let_def admission_room_def wire_room_def min_def ac_simps)

lemma begin_absorb: "bs \<noteq> [] \<Longrightarrow> admission_begin (absorb bs c) = Some (absorb bs c)"
  by (simp add: admission_begin_def)

lemma begin_aside: "admission_begin (aside x y z a) = map_option (aside x y z) (admission_begin a)"
  by (simp add: admission_begin_def aside_def)

lemma room_aside [simp]: "admission_room (aside x y z a) = admission_room a"
  by (simp add: admission_room_def wire_room_def)

lemma room_core [simp]: "admission_room (core a) = admission_room a"
  by (simp add: admission_room_def wire_room_def)

lemma core_as_aside: "core a = aside [] [] 0 a"
  by (simp add: core_def aside_def)

lemma begin_core: "admission_begin (core a) = map_option core (admission_begin a)"
  by (simp add: core_as_aside [abs_def] begin_aside)

lemma begin_sel:
  "admission_begin a = Some b \<Longrightarrow> adm_frame b = adm_frame a \<and> adm_literal b = adm_literal a \<and> adm_limits b = adm_limits a
     \<and> adm_failure b = adm_failure a \<and> adm_buffer b = adm_buffer a \<and> adm_output b = adm_output a \<and> adm_offset b = adm_offset a
     \<and> adm_kind b = adm_kind a \<and> adm_contract b = adm_contract a \<and> adm_line_start b = adm_line_start a"
  by (auto simp: admission_begin_def split: if_splits)

definition sane :: "Admission \<Rightarrow> bool" where
  "sane a \<longleftrightarrow> il_response_bytes (adm_limits a) \<le> usize_max"

lemma step_taken:
  assumes "admission_begin a = Some b" and "0 < min (desired b) (admission_room b)" and "sane a"
  shows "admission_step a = admission_advance (min (desired b) (admission_room b)) (taken (min (desired b) (admission_room b)) b)"
proof -
  define cnt where "cnt = min (desired b) (admission_room b)"
  have "length (adm_frame b) + cnt \<le> il_response_bytes (adm_limits b)"
    using assms by (auto simp: cnt_def admission_room_def)
  then have "extend_output (adm_frame b) (take cnt (adm_buffer b)) (il_response_bytes (adm_limits b))
      = Inr (adm_frame b @ take cnt (adm_buffer b))"
    using assms begin_sel [OF assms(1)] by (auto simp: extend_output_Inr sane_def)
  moreover have "cnt \<noteq> 0" using assms(2) by (simp add: cnt_def)
  ultimately show ?thesis unfolding cnt_def [symmetric] using assms(1) by (simp add: admission_step_def cnt_def [symmetric] Let_def)
qed

lemma step_single:
  assumes started: "admission_begin c = Some c'" and room: "0 < admission_room c'" and "sane c" and core: "core c = c"
  shows "admission_step (c\<lparr>adm_buffer := [b]\<rparr>) = admission_advance 1 (taken 1 (c'\<lparr>adm_buffer := [b]\<rparr>))"
proof -
  have as: "a\<lparr>adm_buffer := [b]\<rparr> = aside [b] (adm_output a) (adm_offset a) a" for a
    by (simp add: aside_def)
  have out: "adm_output c' = adm_output c" "adm_offset c' = adm_offset c" using begin_sel [OF started] by auto
  have beg: "admission_begin (c\<lparr>adm_buffer := [b]\<rparr>) = Some (c'\<lparr>adm_buffer := [b]\<rparr>)"
    using started out by (simp add: as begin_aside)
  have one: "min (desired (c'\<lparr>adm_buffer := [b]\<rparr>)) (admission_room (c'\<lparr>adm_buffer := [b]\<rparr>)) = 1"
    using room by (auto simp: desired_def as)
  show ?thesis using \<open>sane c\<close> step_taken [OF beg, unfolded one] by (simp add: sane_def)
qed

lemma taken_single: "core c = c \<Longrightarrow> core (taken 1 (c\<lparr>adm_buffer := [b]\<rparr>)) = (absorb [b] c)\<lparr>adm_literal := adm_literal c\<rparr>"
  by (cases c) (simp add: core_def taken_def absorb_def Let_def)

lemma feed_absorb:
  assumes "admission_begin c = Some c'" and "bs \<noteq> []" and "length bs \<le> admission_room c'" and "core c = c"
    and "adm_failure c = None" and "sane c" and "adm_literal c \<noteq> 0 \<Longrightarrow> length bs < adm_literal c"
    and "adm_literal c = 0 \<Longrightarrow> LF \<notin> set bs"
  shows "feed bs c = ([], absorb bs c')"
  using assms
proof (induction bs arbitrary: c c')
  case (Cons b bs)
  have core: "core c' = c'" using Cons.prems begin_sel [OF Cons.prems(1)] begin_core [of c] by simp
  define t where "t = taken (Suc 0) (c'\<lparr>adm_buffer := [b]\<rparr>)"
  have t: "adm_literal t = adm_literal c" "adm_frame t = adm_frame c @ [b]" "adm_output t = []" "adm_offset t = 0"
    using begin_sel [OF Cons.prems(1)] Cons.prems(4) core_sel(3,4) [of c]
    by (simp_all add: t_def taken_def Let_def)
  have step: "admission_step (c\<lparr>adm_buffer := [b]\<rparr>) = (Inr (), t\<lparr>adm_literal := adm_literal c - 1\<rparr>)"
  proof (cases "adm_literal c = 0")
    case True
    then have "t\<lparr>adm_literal := 0\<rparr> = t" using t by (cases t) simp
    then show ?thesis
      using True Cons.prems t step_single [OF Cons.prems(1)] by (auto simp: t_def [symmetric] admission_advance_def)
  next
    case False
    then have "adm_literal c \<noteq> 1" using Cons.prems(7) by simp
    then show ?thesis
      using False Cons.prems t step_single [OF Cons.prems(1)] by (auto simp: t_def [symmetric] admission_advance_def)
  qed
  have next': "core (t\<lparr>adm_literal := adm_literal c - 1\<rparr>) = absorb [b] c'"
  proof -
    have "core t = (absorb [b] c')\<lparr>adm_literal := adm_literal c'\<rparr>"
      using taken_single [OF core, of b] by (simp add: t_def)
    moreover have "core (t\<lparr>adm_literal := adm_literal c - 1\<rparr>) = (core t)\<lparr>adm_literal := adm_literal c - 1\<rparr>"
      by (rule core_literal)
    ultimately show ?thesis using begin_sel [OF Cons.prems(1)] by (simp add: absorb_def Let_def)
  qed
  have rest: "feed bs (absorb [b] c') = ([], absorb (b # bs) c')"
  proof (cases "bs = []")
    case False
    have "core (absorb [b] c') = absorb [b] c'" using next' by (metis core_idem)
    then show ?thesis
      using False Cons.prems begin_sel [OF Cons.prems(1)]
      by (subst Cons.IH [of _ "absorb [b] c'"]) (auto simp: begin_absorb room_absorb absorb_absorb sane_def)
  qed simp
  show ?case
    using Cons.prems step next' rest t by (simp add: undelivered_def)
qed simp

section \<open>A step takes what the reference takes byte by byte\<close>

text \<open>The last byte of a line or of a literal, after the bytes before it.\<close>

lemma feed_last:
  assumes started: "admission_begin c = Some c'" and core: "core c = c" and fresh: "adm_failure c = None" and sane: "sane c"
    and fits: "length bs + 1 \<le> admission_room c'"
    and literal: "adm_literal c \<noteq> 0 \<Longrightarrow> length bs + 1 = adm_literal c"
    and line: "adm_literal c = 0 \<Longrightarrow> LF \<notin> set bs \<and> z = LF"
    and step: "rel_prod (=) alike (admission_advance (length bs + 1) ((absorb (bs @ [z]) c')\<lparr>adm_literal := adm_literal c\<rparr>)) (r, a)"
  shows "feed (bs @ [z]) c = (case r of Inl e \<Rightarrow> ([], core (admission_fail e a)) | Inr _ \<Rightarrow> (undelivered a, core a))"
proof -
  define d where "d = (if bs = [] then c else absorb bs c')"
  define d' where "d' = (if bs = [] then c' else absorb bs c')"
  have c': "core c' = c'" using core begin_sel [OF started] begin_core [of c] started by simp
  have before: "feed bs c = ([], d)"
  proof (cases "bs = []")
    case False
    then show ?thesis using assms(1-7) by (auto simp: d_def intro: feed_absorb)
  qed (simp add: d_def)
  have d: "admission_begin d = Some d'" "core d = d" "adm_failure d = None" "sane d" "core d' = d'"
    using started core fresh sane c' begin_sel [OF started] begin_absorb [of bs c']
    by (auto simp: d_def d'_def sane_def core_absorb)
  have room: "0 < admission_room d'" using fits by (auto simp: d'_def room_absorb)
  have single: "admission_step (d\<lparr>adm_buffer := [z]\<rparr>) = admission_advance 1 (taken 1 (d'\<lparr>adm_buffer := [z]\<rparr>))"
    using step_single [OF d(1) room d(4) d(2)] .
  have taken: "core (taken 1 (d'\<lparr>adm_buffer := [z]\<rparr>)) = (absorb [z] d')\<lparr>adm_literal := adm_literal d'\<rparr>"
    using taken_single [OF d(5)] .
  have both: "(absorb [z] d')\<lparr>adm_literal := l\<rparr> = (absorb (bs @ [z]) c')\<lparr>adm_literal := l\<rparr>" for l
    by (auto simp: d'_def absorb_def Let_def max_def)
  define t where "t = taken 1 (d'\<lparr>adm_buffer := [z]\<rparr>)"
  define w where "w = (absorb (bs @ [z]) c')\<lparr>adm_literal := adm_literal c\<rparr>"
  have t: "undelivered t = []" using d(5) core_sel(3,4) [of d'] by (simp add: t_def taken_def Let_def undelivered_def)
  have w: "undelivered w = []" "core w = w" using c' core_sel(3,4) [of c']
    by (simp_all add: w_def undelivered_def core_literal core_absorb)
  have eq: "core (t\<lparr>adm_literal := l\<rparr>) = core (w\<lparr>adm_literal := l\<rparr>)" for l
  proof -
    have "core (t\<lparr>adm_literal := l\<rparr>) = (core t)\<lparr>adm_literal := l\<rparr>" by (rule core_literal)
    also have "\<dots> = (absorb (bs @ [z]) c')\<lparr>adm_literal := l\<rparr>" using taken both by (simp add: t_def)
    also have "\<dots> = core (w\<lparr>adm_literal := l\<rparr>)" using c' by (simp add: w_def core_literal core_absorb)
    finally show ?thesis .
  qed
  have "rel_prod (=) alike (admission_advance 1 t) (admission_advance (length bs + 1) w)"
  proof (cases "adm_literal c = 0")
    case True
    then have "adm_literal t = 0" "adm_literal w = 0"
      using begin_sel [OF started] by (auto simp: t_def w_def d'_def taken_def Let_def)
    then have "t\<lparr>adm_literal := 0\<rparr> = t" "w\<lparr>adm_literal := 0\<rparr> = w" using record_literal by metis+
    then have "alike t w" using eq [of 0] t w by (simp add: alike_def)
    then have "rel_prod (=) alike (admission_advance 1 t) (admission_advance 1 w)" by (rule alike_advance)
    moreover have "admission_advance 1 w = admission_advance (length bs + 1) w"
      using True by (simp add: admission_advance_def w_def)
    ultimately show ?thesis by simp
  next
    case False
    have lit: "adm_literal d' = 1" using literal [OF False] begin_sel [OF started] by (auto simp: d'_def)
    have frames: "adm_frame t = adm_frame w" using arg_cong [OF eq, of adm_frame] by simp
    have "adm_literal t = 1" using lit by (simp add: t_def taken_def Let_def)
    then have 1: "admission_advance 1 t = (Inr (), t\<lparr>adm_literal := 0, adm_line_start := length (adm_frame t)\<rparr>)"
      by (simp add: admission_advance_def)
    have 2: "admission_advance (length bs + 1) w = (Inr (), w\<lparr>adm_literal := 0, adm_line_start := length (adm_frame t)\<rparr>)"
      using literal [OF False] False frames by (simp add: admission_advance_def w_def)
    have "core (t\<lparr>adm_literal := 0, adm_line_start := m\<rparr>) = core (w\<lparr>adm_literal := 0, adm_line_start := m\<rparr>)" for m
      unfolding core_line_start eq ..
    then show ?thesis unfolding 1 2 using t w by (simp add: alike_def undelivered_def)
  qed
  then obtain r1 a1 where adv: "admission_advance 1 t = (r1, a1)" and "r1 = r" "core a1 = core a" "undelivered a1 = undelivered a"
    using step unfolding w_def [symmetric]
    by (cases "admission_advance 1 t"; cases "admission_advance (length bs + 1) w") (auto simp: alike_def)
  moreover have "core (admission_fail e a1) = core (admission_fail e a)" for e
    using \<open>core a1 = core a\<close> core_fail by metis
  ultimately show ?thesis
    using d(3) before single [folded t_def, unfolded adv] by (auto simp: feed_append split: sum.splits)
qed

text \<open>The line a step reads ends at the first line feed, a literal where its length says.\<close>

lemma taken_core:
  "adm_literal a = 0 \<or> cnt \<le> adm_literal a \<Longrightarrow>
     core (taken cnt a) = (absorb (take cnt (adm_buffer a)) (core a))\<lparr>adm_literal := adm_literal a\<rparr>"
  if "cnt \<le> length (adm_buffer a)"
  using that by (simp add: core_def taken_def absorb_def Let_def)

lemma desired_shape:
  assumes "adm_buffer a \<noteq> []"
  shows "0 < desired a \<and> desired a \<le> length (adm_buffer a)
    \<and> (adm_literal a \<noteq> 0 \<longrightarrow> desired a \<le> adm_literal a)
    \<and> (adm_literal a = 0 \<longrightarrow> (\<forall>k < desired a. LF \<notin> set (take k (adm_buffer a)))
        \<and> (LF \<in> set (take (desired a) (adm_buffer a)) \<longrightarrow> adm_buffer a ! (desired a - 1) = LF))"
proof -
  define w where "w = takeWhile (\<lambda>b. b \<noteq> LF) (adm_buffer a)"
  have w: "LF \<notin> set w" by (auto simp: w_def dest: set_takeWhileD)
  have eq: "adm_buffer a = w @ drop (length w) (adm_buffer a)"
    by (metis w_def takeWhile_eq_take append_take_drop_id)
  have short: "LF \<notin> set (take k (adm_buffer a))" if "k \<le> length w" for k
  proof -
    have "take k (adm_buffer a) = take k w" using that by (subst eq) simp
    then show ?thesis using w by (auto dest: in_set_takeD)
  qed
  have hit: "adm_buffer a ! length w = LF" if "length w < length (adm_buffer a)"
    using nth_length_takeWhile [of "\<lambda>b. b \<noteq> LF" "adm_buffer a"] that by (simp add: w_def)
  show ?thesis
  proof (cases "adm_literal a = 0")
    case True
    then have d: "desired a = min (length (adm_buffer a)) (length w + 1)" by (simp add: desired_def w_def)
    show ?thesis
    proof (cases "length w < length (adm_buffer a)")
      case True
      then show ?thesis using d hit short \<open>adm_literal a = 0\<close> by auto
    next
      case False
      then have "length w = length (adm_buffer a)" using eq by (metis append_eq_conv_conj drop_eq_Nil leI length_append length_takeWhile_le nat_le_linear w_def antisym)
      then show ?thesis using d short [of "length (adm_buffer a)"] short \<open>adm_literal a = 0\<close> assms by auto
    qed
  qed (use assms in \<open>auto simp: desired_def\<close>)
qed

lemma taken_alike:
  assumes "cnt \<le> length (adm_buffer b)" and "undelivered b = []"
  shows "alike ((absorb (take cnt (adm_buffer b)) (core b))\<lparr>adm_literal := adm_literal b\<rparr>) (taken cnt b)"
  using assms by (simp add: alike_def undelivered_def taken_def absorb_def core_def Let_def)

lemma feed_stopped:
  assumes "bs \<noteq> []" and "adm_failure a = None"
    and "\<And>z. admission_step ((core a)\<lparr>adm_buffer := [z]\<rparr>) = (Inl ImapLimit, aside [z] [] 0 b)"
  shows "feed bs (core a) = ([], core (admission_fail ImapLimit b))"
proof -
  have "core (admission_fail ImapLimit (aside x y z b)) = core (admission_fail ImapLimit b)" for x y z
    by (metis core_aside core_fail)
  then show ?thesis using assms by (cases bs) simp_all
qed

lemma core_with_buffer: "(core a)\<lparr>adm_buffer := [z]\<rparr> = aside [z] [] 0 a"
  by (simp add: core_def aside_def)

lemma step_feed:
  assumes buffer: "adm_buffer a \<noteq> []" and fresh: "adm_failure a = None" and drained: "undelivered a = []" and sane: "sane a"
    and step: "admission_step a = (r, a')"
  shows "case r of Inl e \<Rightarrow> feed (adm_buffer a) (core a) = ([], core (admission_fail e a'))
    | Inr _ \<Rightarrow> (\<exists>k. 0 < k \<and> k \<le> length (adm_buffer a) \<and> adm_buffer a' = drop k (adm_buffer a)
        \<and> feed (take k (adm_buffer a)) (core a) = (undelivered a', core a'))"
proof (cases "admission_begin a")
  case None
  then show ?thesis
    using step feed_stopped [OF buffer fresh, of a]
    by (auto simp: admission_step_def core_with_buffer begin_aside)
next
  case (Some b)
  note kept = begin_sel [OF Some]
  define cnt where "cnt = min (desired b) (admission_room b)"
  show ?thesis
  proof (cases "cnt = 0")
    case True
    then have stuck: "admission_room b = 0" using desired_shape [of b] buffer kept by (auto simp: cnt_def)
    then have "feed (adm_buffer a) (core a) = ([], core (admission_fail ImapLimit b))"
      using Some by (intro feed_stopped [OF buffer fresh]) (simp add: admission_step_def core_with_buffer begin_aside)
    then show ?thesis using step Some True by (auto simp: admission_step_def cnt_def Let_def)
  next
    case False
    define bs where "bs = take cnt (adm_buffer b)"
    have shape: "0 < desired b \<and> desired b \<le> length (adm_buffer b) \<and> (adm_literal b \<noteq> 0 \<longrightarrow> desired b \<le> adm_literal b)
        \<and> (adm_literal b = 0 \<longrightarrow> (\<forall>k < desired b. LF \<notin> set (take k (adm_buffer b)))
          \<and> (LF \<in> set (take (desired b) (adm_buffer b)) \<longrightarrow> adm_buffer b ! (desired b - 1) = LF))"
      using desired_shape [of b] buffer kept by simp
    have bs: "bs \<noteq> []" "length bs = cnt" "cnt \<le> length (adm_buffer b)" "cnt \<le> admission_room b"
      using False shape by (auto simp: bs_def cnt_def)
    have advance: "admission_advance cnt (taken cnt b) = (r, a')"
      using step_taken [OF Some _ sane] False step by (simp add: cnt_def)
    have rest: "adm_buffer a' = drop cnt (adm_buffer a)"
      using admission_advance_buffer [OF advance] kept by (simp add: taken_def Let_def)
    have c: "admission_begin (core a) = Some (core b)" "core (core a) = core a" "adm_failure (core a) = None" "sane (core a)"
      using Some fresh sane by (simp_all add: begin_core sane_def)
    have none: "undelivered b = []" using drained kept by (simp add: undelivered_def)
    show ?thesis
    proof (cases "(adm_literal b \<noteq> 0 \<longrightarrow> cnt < adm_literal b) \<and> (adm_literal b = 0 \<longrightarrow> LF \<notin> set bs)")
      case short: True
      have "feed bs (core a) = ([], absorb bs (core b))"
        using short bs kept by (intro feed_absorb [OF c(1) _ _ c(2,3,4)]) auto
      moreover have "r = Inr () \<and> core a' = absorb bs (core b) \<and> undelivered a' = []"
      proof (cases "adm_literal b = 0")
        case True
        have "last bs \<noteq> LF" using bs(1) True short by (metis last_in_set)
        then have "last (adm_frame b @ bs) \<noteq> LF" using bs(1) by simp
        then have "r = Inr () \<and> a' = taken cnt b"
          using advance True bs by (auto simp: admission_advance_def taken_def Let_def bs_def [symmetric])
        moreover have "core (taken cnt b) = absorb bs (core b)"
          using taken_core [OF bs(3)] True record_literal [of "absorb bs (core b)"] by (simp add: bs_def)
        ultimately show ?thesis using none by (simp add: undelivered_def taken_def Let_def)
      next
        case False
        then have "r = Inr () \<and> a' = (taken cnt b)\<lparr>adm_literal := adm_literal b - cnt\<rparr>"
          using advance short by (auto simp: admission_advance_def taken_def Let_def)
        moreover have "core ((taken cnt b)\<lparr>adm_literal := adm_literal b - cnt\<rparr>) = absorb bs (core b)"
          using taken_core [OF bs(3)] False short bs by (simp add: core_literal bs_def [symmetric] absorb_def Let_def)
        ultimately show ?thesis using none by (simp add: undelivered_def taken_def Let_def)
      qed
      ultimately show ?thesis using rest bs kept by (auto simp: bs_def intro!: exI [of _ cnt])
    next
      case last: False
      have full: "cnt = desired b" using last shape bs by (auto simp: cnt_def bs_def min_def split: if_splits)
      obtain xs z where xs: "bs = xs @ [z]" using bs(1) by (cases bs rule: rev_cases) auto
      have line: "LF \<notin> set xs \<and> z = LF" if "adm_literal b = 0"
      proof -
        have "xs = take (cnt - 1) (adm_buffer b)" using xs bs by (metis append_eq_conv_conj bs_def butlast_snoc butlast_take)
        moreover have "z = bs ! (cnt - 1)" using xs bs by (metis diff_Suc_1 length_append_singleton nth_append_length)
        ultimately show ?thesis using shape that full last bs False by (auto simp: bs_def)
      qed
      have "rel_prod (=) alike (admission_advance cnt ((absorb bs (core b))\<lparr>adm_literal := adm_literal b\<rparr>)) (r, a')"
        using alike_advance [OF taken_alike [OF bs(3) none], of cnt] unfolding bs_def advance .
      then have "feed (xs @ [z]) (core a) = (case r of Inl e \<Rightarrow> ([], core (admission_fail e a')) | Inr _ \<Rightarrow> (undelivered a', core a'))"
        using xs bs kept line last shape full
        by (intro feed_last [OF c]) auto
      then have fed: "feed bs (core a) = (case r of Inl e \<Rightarrow> ([], core (admission_fail e a')) | Inr _ \<Rightarrow> (undelivered a', core a'))"
        by (simp add: xs)
      show ?thesis
      proof (cases r)
        case (Inl e)
        have "adm_failure (core (admission_fail e a')) \<noteq> None" by (auto simp: admission_fail_def split: option.splits)
        then have "feed (bs @ drop cnt (adm_buffer b)) (core a) = ([], core (admission_fail e a'))"
          using fed Inl by (simp add: feed_append feed_failed)
        then show ?thesis using Inl kept by (simp add: bs_def)
      next
        case (Inr u)
        then show ?thesis using fed rest bs kept by (auto simp: bs_def intro!: exI [of _ cnt])
      qed
    qed
  qed
qed

section \<open>Reading everything\<close>

lemma line_kept:
  "admission_line a = Inr (v, a') \<Longrightarrow> adm_limits a' = adm_limits a \<and> adm_contract a' = adm_contract a
     \<and> adm_failure a' = adm_failure a \<and> adm_output a' = adm_output a \<and> adm_offset a' = adm_offset a \<and> adm_frame a' = adm_frame a"
  by (auto simp: admission_line_def Let_def split: if_splits option.splits)

lemma charge_kept:
  "charge k a = (r, a') \<Longrightarrow> adm_limits a' = adm_limits a \<and> adm_contract a' = adm_contract a
     \<and> adm_failure a' = adm_failure a \<and> adm_output a' = adm_output a \<and> adm_offset a' = adm_offset a \<and> adm_frame a' = adm_frame a"
  by (auto simp: charge_def split: if_splits)

lemma finish_kept:
  "admission_finish a = (Inr x, a') \<Longrightarrow> adm_limits a' = adm_limits a \<and> adm_contract a' = adm_contract a
     \<and> adm_failure a' = adm_failure a \<and> adm_offset a' \<le> length (adm_output a')"
  by (auto simp: admission_finish_def split: prod.splits sum.splits if_splits dest!: charge_kept)

lemma advance_kept:
  assumes "admission_advance k a = (Inr x, a')"
  shows "adm_limits a' = adm_limits a \<and> adm_contract a' = adm_contract a \<and> adm_failure a' = adm_failure a
    \<and> (adm_offset a \<le> length (adm_output a) \<longrightarrow> adm_offset a' \<le> length (adm_output a'))"
  using assms
  by (auto simp: admission_advance_def split: if_splits sum.splits prod.splits bool.splits dest!: line_kept finish_kept)

lemma step_kept:
  assumes "admission_step a = (Inr x, a')"
  shows "adm_limits a' = adm_limits a \<and> adm_contract a' = adm_contract a \<and> adm_failure a' = adm_failure a
    \<and> (adm_offset a \<le> length (adm_output a) \<longrightarrow> adm_offset a' \<le> length (adm_output a'))"
proof -
  obtain b where b: "admission_begin a = Some b" using assms by (cases "admission_begin a") (auto simp: admission_step_def)
  define cnt where "cnt = min (desired b) (admission_room b)"
  have "admission_advance cnt (taken cnt b) = (Inr x, a')"
    using assms b by (auto simp: admission_step_def Let_def cnt_def split: if_splits sum.splits)
  then show ?thesis using advance_kept begin_sel [OF b] by (fastforce simp: taken_def Let_def)
qed

text \<open>What a network that neither closes nor fails delivers, with pauses anywhere.\<close>

fun quiet_fills :: "Fill list \<Rightarrow> bool" where
  "quiet_fills [] = True"
| "quiet_fills (Arrived bs # fills) = (bs \<noteq> [] \<and> quiet_fills fills)"
| "quiet_fills (NotYet # fills) = quiet_fills fills"
| "quiet_fills (Broken eof # fills) = False"

fun arrived :: "Fill list \<Rightarrow> bytes" where
  "arrived [] = []"
| "arrived (Arrived bs # fills) = bs @ arrived fills"
| "arrived (fill # fills) = arrived fills"

definition ready :: "Admission \<Rightarrow> bool" where
  "ready a \<longleftrightarrow> adm_failure a = None \<and> sane a \<and> adm_offset a \<le> length (adm_output a)"

lemma ready_step: "ready a \<Longrightarrow> admission_step a = (Inr x, a') \<Longrightarrow> ready a'"
  using step_kept [of a x a'] by (simp add: ready_def sane_def)

lemma fill_arrived:
  assumes "admission_fill fills a = (r, fills', a')" and "quiet_fills fills"
  shows "quiet_fills fills' \<and> (r = Inl None \<or> r = Inr ()) \<and> adm_buffer a' @ arrived fills' = adm_buffer a @ arrived fills
    \<and> core a' = core a \<and> undelivered a' = undelivered a \<and> (ready a \<longrightarrow> ready a') \<and> (r = Inr () \<longleftrightarrow> adm_buffer a' \<noteq> [])
    \<and> adm_offset a' = adm_offset a \<and> adm_output a' = adm_output a"
  using assms
  by (cases fills rule: quiet_fills.cases)
    (auto simp: admission_fill_def core_def undelivered_def ready_def sane_def split: if_splits)

lemma loop_feed:
  assumes "admission_loop fills a = (p, fills', a')" and "quiet_fills fills" and "ready a"
  shows "quiet_fills fills' \<and>
    (case p of
       Some (Refused e) \<Rightarrow> feed (adm_buffer a @ arrived fills) (core a) = ([], core a') \<and> undelivered a = []
     | _ \<Rightarrow> ready a' \<and> (p = Some Waiting \<and> adm_buffer a' = [] \<and> undelivered a' = [] \<or> p = None \<and> undelivered a' \<noteq> [])
         \<and> (\<exists>xs out. adm_buffer a @ arrived fills = xs @ adm_buffer a' @ arrived fills'
           \<and> feed xs (core a) = (out, core a') \<and> undelivered a' = undelivered a @ out))"
  using assms
proof (induction fills a arbitrary: p fills' a' rule: admission_loop.induct)
  case (1 fills a)
  show ?case
  proof (cases "adm_offset a = length (adm_output a)")
    case False
    then show ?thesis using 1(2-) by (subst (asm) admission_loop.simps) (auto simp: ready_def undelivered_def)
  next
    case True
    obtain r f b where fill: "admission_fill fills a = (r, f, b)" by (metis prod_cases3)
    note facts = fill_arrived [OF fill 1(3)]
    have none: "undelivered a = []" using True by (simp add: undelivered_def)
    show ?thesis
    proof (cases "r = Inr ()")
      case False
      then have "r = Inl None" using facts by blast
      then have "p = Some Waiting \<and> fills' = f \<and> a' = b"
        using 1(2) fill True by (subst (asm) admission_loop.simps) auto
      then show ?thesis using facts False none 1(4) by (auto intro!: exI [of _ "[]"])
    next
      case r: True
      obtain v d where step: "admission_step b = (v, d)" by (cases "admission_step b")
      have b: "adm_buffer b \<noteq> []" "adm_failure b = None" "undelivered b = []" "sane b"
        using facts r none 1(4) by (auto simp: ready_def)
      note fed = step_feed [OF b step]
      show ?thesis
      proof (cases v)
        case (Inl e)
        then have "p = Some (Refused e) \<and> fills' = f \<and> a' = admission_fail e d"
          using 1(2) fill True r step by (subst (asm) admission_loop.simps) auto
        moreover have "adm_failure (core (admission_fail e d)) \<noteq> None"
          by (auto simp: admission_fail_def split: option.splits)
        moreover have "adm_buffer a @ arrived fills = adm_buffer b @ arrived f" "core a = core b" using facts by auto
        ultimately have "feed (adm_buffer b @ arrived f) (core a) = ([], core a')"
          using fed Inl by (simp add: feed_append feed_failed)
        then show ?thesis using facts none \<open>p = _ \<and> _\<close> by simp
      next
        case (Inr u)
        then obtain k where k: "0 < k" "k \<le> length (adm_buffer b)" "adm_buffer d = drop k (adm_buffer b)"
          "feed (take k (adm_buffer b)) (core b) = (undelivered d, core d)" using fed by auto
        have loop: "admission_loop f d = (p, fills', a')"
          using 1(2) fill True r step Inr by (subst (asm) admission_loop.simps) auto
        have "ready d" using ready_step [of b u d] step Inr facts 1(4) by simp
        note IH = 1(1) [OF _ fill [symmetric] r refl step [symmetric] Inr loop _ this]
        have split: "adm_buffer a @ arrived fills = take k (adm_buffer b) @ adm_buffer d @ arrived f"
          using facts k by (metis append.assoc append_take_drop_id)
        show ?thesis
          using IH facts True k split none
          by (auto simp: feed_append split: option.splits Poll.splits)
      qed
    qed
  qed
qed

definition waiting_size :: "Fill list \<Rightarrow> Admission \<Rightarrow> nat" where
  "waiting_size fills a = length (adm_buffer a) + pending_bytes fills + length fills"

lemma fill_size:
  assumes "admission_fill fills a = (r, fills', a')"
  shows "waiting_size fills' a' \<le> waiting_size fills a \<and> (r = Inl None \<longrightarrow> fills' = [] \<or> waiting_size fills' a' < waiting_size fills a)
    \<and> adm_output a' = adm_output a \<and> adm_offset a' = adm_offset a"
  using assms
  by (cases fills rule: quiet_fills.cases) (auto simp: admission_fill_def waiting_size_def split: if_splits)

lemma loop_size:
  assumes "admission_loop fills a = (p, fills', a')"
  shows "case p of
      None \<Rightarrow> adm_offset a' \<noteq> length (adm_output a') \<and> (fills' = fills \<and> a' = a \<or> waiting_size fills' a' < waiting_size fills a)
    | Some Waiting \<Rightarrow> fills' = [] \<or> waiting_size fills' a' < waiting_size fills a
    | Some (Refused e) \<Rightarrow> True
    | Some (Delivered bs) \<Rightarrow> False"
  using assms
proof (induction fills a arbitrary: p fills' a' rule: admission_loop.induct)
  case (1 fills a)
  show ?case
  proof (cases "adm_offset a = length (adm_output a)")
    case False
    then show ?thesis using 1(2-) by (subst (asm) admission_loop.simps) auto
  next
    case True
    obtain r f b where fill: "admission_fill fills a = (r, f, b)" by (metis prod_cases3)
    note facts = fill_size [OF fill]
    show ?thesis
    proof (cases r)
      case (Inl e)
      then show ?thesis
        using 1(2) fill True facts by (subst (asm) admission_loop.simps) (auto split: option.splits)
    next
      case r: (Inr x)
      obtain v d where step: "admission_step b = (v, d)" by (cases "admission_step b")
      show ?thesis
      proof (cases v)
        case (Inl e)
        then show ?thesis using 1(2) fill True r step by (subst (asm) admission_loop.simps) auto
      next
        case (Inr u)
        have loop: "admission_loop f d = (p, fills', a')"
          using 1(2) fill True r step Inr by (subst (asm) admission_loop.simps) auto
        have less: "waiting_size f d < waiting_size fills a"
          using facts admission_step_shorter [of b u d] step Inr by (simp add: waiting_size_def)
        note IH = 1(1) [OF _ fill [symmetric] r refl step [symmetric] Inr loop]
        show ?thesis using IH True less by (auto split: option.splits Poll.splits)
      qed
    qed
  qed
qed

lemma poll_size:
  assumes "poll_read n fills a = (p, fills', a')"
  shows "case p of
      Delivered bs \<Rightarrow> bs \<noteq> [] \<longrightarrow> waiting_size fills' a' < waiting_size fills a
        \<or> waiting_size fills' a' = waiting_size fills a \<and> length (undelivered a') < length (undelivered a)
    | Waiting \<Rightarrow> fills' = [] \<or> waiting_size fills' a' < waiting_size fills a
    | Refused e \<Rightarrow> True"
proof (cases "n = 0 \<or> adm_failure a \<noteq> None")
  case True
  then show ?thesis using assms by (auto simp: poll_read_def split: if_splits option.splits)
next
  case False
  obtain q f b where loop: "admission_loop fills a = (q, f, b)" by (metis prod_cases3)
  note facts = loop_size [OF loop]
  show ?thesis
  proof (cases q)
    case None
    then show ?thesis
      using assms False loop facts
      by (auto simp: poll_read_def Let_def waiting_size_def undelivered_def min_def split: if_splits)
  next
    case (Some x)
    then show ?thesis using assms False loop facts by (auto simp: poll_read_def split: Poll.splits)
  qed
qed

text \<open>A reader that polls with a buffer of \<open>n\<close> bytes until nothing is left to arrive or it is refused.\<close>

function read_all :: "nat \<Rightarrow> Fill list \<Rightarrow> Admission \<Rightarrow> bytes \<times> Admission" where
  "read_all n fills a =
     (case poll_read n fills a of
        (Delivered bs, fills, a) \<Rightarrow> if bs = [] then ([], a) else (case read_all n fills a of (out, a) \<Rightarrow> (bs @ out, a))
      | (Waiting, fills, a) \<Rightarrow> if fills = [] then ([], a) else read_all n fills a
      | (Refused e, fills, a) \<Rightarrow> ([], a))"
  by pat_completeness auto
termination
proof (relation "measures [\<lambda>(n, fills, a). waiting_size fills a, \<lambda>(n, fills, a). length (undelivered a)]", simp)
qed (clarsimp, drule poll_size [OF sym], force)+

declare read_all.simps [simp del]

lemma poll_feed:
  assumes poll: "poll_read n fills a = (p, fills', a')" and "quiet_fills fills" and "ready a" and "0 < n"
  shows "quiet_fills fills' \<and>
    (case p of
       Refused e \<Rightarrow> feed (adm_buffer a @ arrived fills) (core a) = ([], core a') \<and> undelivered a = []
     | Waiting \<Rightarrow> ready a' \<and> adm_buffer a' = [] \<and> undelivered a' = []
         \<and> (\<exists>xs out. adm_buffer a @ arrived fills = xs @ arrived fills'
           \<and> feed xs (core a) = (out, core a') \<and> undelivered a @ out = [])
     | Delivered bs \<Rightarrow> ready a' \<and> bs \<noteq> []
         \<and> (\<exists>xs out. adm_buffer a @ arrived fills = xs @ adm_buffer a' @ arrived fills'
           \<and> feed xs (core a) = (out, core a') \<and> undelivered a @ out = bs @ undelivered a'))"
proof -
  obtain q f b where loop: "admission_loop fills a = (q, f, b)" by (metis prod_cases3)
  note facts = loop_feed [OF loop assms(2,3)]
  show ?thesis
  proof (cases q)
    case None
    define cnt where "cnt = min n (length (adm_output b) - adm_offset b)"
    define bs where "bs = take cnt (drop (adm_offset b) (adm_output b))"
    have a': "a' = b\<lparr>adm_offset := adm_offset b + cnt\<rparr>" and p: "p = Delivered bs" and f: "fills' = f"
      using poll loop None assms(3,4) by (auto simp: poll_read_def ready_def Let_def cnt_def bs_def)
    have "undelivered a' = drop cnt (undelivered b)" "bs = take cnt (undelivered b)"
      by (simp_all add: a' bs_def undelivered_def add.commute)
    moreover have "0 < cnt" using facts None assms(4) by (auto simp: cnt_def undelivered_def)
    ultimately have left: "undelivered b = bs @ undelivered a'" "bs \<noteq> []" using facts None by auto
    have "core a' = core b" "ready a'" "adm_buffer a' = adm_buffer b"
      using facts None by (auto simp: a' core_def ready_def sane_def cnt_def)
    then show ?thesis using facts None left by (auto simp: p f)
  next
    case (Some x)
    then have "p = x \<and> fills' = f \<and> a' = b" using poll loop assms(3,4) by (auto simp: poll_read_def ready_def)
    then show ?thesis using facts Some by (auto split: Poll.splits)
  qed
qed

lemma read_all_feed:
  assumes "quiet_fills fills" and "ready a" and "0 < n"
  shows "case feed (adm_buffer a @ arrived fills) (core a) of
    (out, c) \<Rightarrow> fst (read_all n fills a) = undelivered a @ out \<and> core (snd (read_all n fills a)) = c"
  using assms
proof (induction n fills a rule: read_all.induct)
  case (1 n fills a)
  obtain p f b where poll: "poll_read n fills a = (p, f, b)" by (metis prod_cases3)
  note facts = poll_feed [OF poll 1(3,4,5)]
  show ?case
  proof (cases p)
    case (Refused e)
    then show ?thesis using poll facts by (subst read_all.simps, subst (2) read_all.simps) simp
  next
    case Waiting
    obtain xs out where xs: "adm_buffer a @ arrived fills = xs @ arrived f" "feed xs (core a) = (out, core b)"
      "undelivered a @ out = []" using facts Waiting by auto
    show ?thesis
    proof (cases "f = []")
      case True
      then show ?thesis using poll Waiting facts xs by (subst read_all.simps, subst (2) read_all.simps) simp
    next
      case False
      have "read_all n fills a = read_all n f b" using poll Waiting False by (subst read_all.simps) simp
      then show ?thesis
        using 1(2) [OF poll [symmetric] Waiting refl False] 1(5) facts Waiting xs
        by (auto simp: feed_append split: prod.splits)
    qed
  next
    case (Delivered bs)
    obtain xs out where xs: "adm_buffer a @ arrived fills = xs @ adm_buffer b @ arrived f" "feed xs (core a) = (out, core b)"
      "undelivered a @ out = bs @ undelivered b" "bs \<noteq> []" using facts Delivered by auto
    have "read_all n fills a = (case read_all n f b of (out, a) \<Rightarrow> (bs @ out, a))"
      using poll Delivered xs by (subst read_all.simps) simp
    moreover have "case feed (adm_buffer b @ arrived f) (core b) of
        (out, c) \<Rightarrow> fst (read_all n f b) = undelivered b @ out \<and> core (snd (read_all n f b)) = c"
      using 1(1) [OF poll [symmetric] Delivered refl xs(4)] 1(5) facts Delivered by auto
    moreover have "undelivered a @ out @ ys = bs @ undelivered b @ ys" for ys
      using arg_cong [OF xs(3), of "\<lambda>v. v @ ys"] by simp
    ultimately show ?thesis
      using xs(2) unfolding xs(1) by (simp add: feed_append split: prod.splits)
  qed
qed

section \<open>Complete responses\<close>

text \<open>The kind of a response by its first line.\<close>

definition frame_kind :: "bytes \<Rightarrow> FrameKind" where
  "frame_kind frame = classify (butlast (takeWhile (\<lambda>b. b \<noteq> LF) frame))"

definition framed :: "Admission \<Rightarrow> bool" where
  "framed a \<longleftrightarrow>
     (case adm_kind a of
        None \<Rightarrow> LF \<notin> set (adm_frame a) \<and> adm_line_start a = 0 \<and> adm_literal a = 0
      | Some kind \<Rightarrow> LF \<in> set (adm_frame a) \<and> kind = frame_kind (adm_frame a))"

text \<open>A complete response and what the parser is given of it.\<close>

definition admitted :: "FrameContract \<Rightarrow> ImapLimits \<Rightarrow> bytes \<Rightarrow> bytes \<Rightarrow> bool" where
  "admitted contract l frame output \<longleftrightarrow>
     (\<exists>front. frame = front @ [CR, LF]) \<and> normalize frame (frame_kind frame) contract l = Inr output"

lemma frame_kind_later: "LF \<in> set frame \<Longrightarrow> frame_kind (frame @ bs) = frame_kind frame"
  by (auto simp: frame_kind_def takeWhile_append)

lemma framed_core [simp]: "framed (core a) = framed a"
  by (auto simp: framed_def split: option.splits)

lemma framed_begin: "admission_begin a = Some b \<Longrightarrow> framed b = framed a"
  by (auto simp: admission_begin_def framed_def split: if_splits option.splits)

lemma framed_sel:
  "framed a \<Longrightarrow> adm_frame b = adm_frame a @ [z] \<Longrightarrow> adm_kind b = adm_kind a \<Longrightarrow> adm_line_start b = adm_line_start a
     \<Longrightarrow> adm_literal b = adm_literal a \<Longrightarrow> z \<noteq> LF \<or> adm_kind a \<noteq> None \<Longrightarrow> framed b"
  by (auto simp: framed_def frame_kind_later split: option.splits)

lemma line_framed:
  assumes line: "admission_line b = Inr (v, d)" and framed: "framed a"
    and b: "adm_frame b = adm_frame a @ [z]" "adm_kind b = adm_kind a" "adm_line_start b = adm_line_start a"
  shows "(\<exists>front. adm_frame b = front @ [CR, LF]) \<and> adm_frame d = adm_frame b \<and> framed d \<and> adm_kind d \<noteq> None"
proof -
  define l where "l = drop (adm_line_start b) (adm_frame b)"
  have l: "2 \<le> length l" "drop (length l - 2) l = [CR, LF]"
    using line by (auto simp: admission_line_def Let_def l_def split: if_splits)
  have front: "adm_frame b = (take (adm_line_start b) (adm_frame b) @ take (length l - 2) l) @ [CR, LF]"
    using l by (metis append.assoc append_take_drop_id l_def)
  have kind: "adm_kind d = Some (case adm_kind b of Some kind \<Rightarrow> kind | None \<Rightarrow> classify (take (length l - 2) l))"
    and same: "adm_frame d = adm_frame b"
    using line by (auto simp: admission_line_def Let_def l_def split: if_splits option.splits)
  have "framed d"
  proof (cases "adm_kind a")
    case (Some kind')
    then show ?thesis using kind same framed b frame_kind_later by (auto simp: framed_def)
  next
    case None
    then have start: "adm_line_start b = 0" "LF \<notin> set (adm_frame a)" using framed b by (auto simp: framed_def)
    then have whole: "l = adm_frame a @ [z]" "l = take (length l - 2) l @ [CR, LF]"
      using b l by (simp_all add: l_def) (metis append_take_drop_id)
    have split: "adm_frame a = take (length l - 2) l @ [CR]" "z = LF"
      using whole by (metis append.assoc append_Cons append_Nil append1_eq_conv)+
    have "takeWhile (\<lambda>b. b \<noteq> LF) (adm_frame b) = adm_frame a"
    proof -
      have "takeWhile (\<lambda>b. b \<noteq> LF) (adm_frame a @ LF # []) = adm_frame a @ takeWhile (\<lambda>b. b \<noteq> LF) [LF]"
        using start by (intro takeWhile_append2) auto
      then show ?thesis using b split(2) by simp
    qed
    then have "frame_kind (adm_frame b) = classify (take (length l - 2) l)"
      using split by (simp add: frame_kind_def)
    then show ?thesis using kind same None b split by (simp add: framed_def)
  qed
  moreover have "\<exists>front. adm_frame b = front @ [CR, LF]" using front by blast
  ultimately show ?thesis using kind same by simp
qed

lemma finish_frame:
  assumes "admission_finish a = (r, a')"
  shows "case r of
      Inl e \<Rightarrow> adm_frame a' = adm_frame a
    | Inr _ \<Rightarrow> adm_frame a' = [] \<and> framed a' \<and> adm_limits a' = adm_limits a \<and> adm_contract a' = adm_contract a
        \<and> (\<forall>kind. adm_kind a = Some kind \<longrightarrow>
             normalize (adm_frame a) kind (adm_contract a) (adm_limits a) = Inr (undelivered a'))"
  using assms
  by (auto simp: admission_finish_def framed_def undelivered_def charge_def split: prod.splits sum.splits if_splits)

text \<open>A byte either extends the response or completes it.\<close>

lemma step_frames:
  assumes step: "admission_step (c\<lparr>adm_buffer := [z]\<rparr>) = (r, a)" and framed: "framed c" and core: "core c = c" and "sane c"
  shows "case r of
      Inl e \<Rightarrow> adm_frame a = adm_frame c \<or> adm_frame a = adm_frame c @ [z]
    | Inr _ \<Rightarrow> framed a \<and> adm_limits a = adm_limits c \<and> adm_contract a = adm_contract c
        \<and> (adm_frame a = adm_frame c @ [z] \<and> undelivered a = []
          \<or> adm_frame a = [] \<and> admitted (adm_contract c) (adm_limits c) (adm_frame c @ [z]) (undelivered a))"
proof (cases "admission_begin c")
  case None
  then have "admission_begin (c\<lparr>adm_buffer := [z]\<rparr>) = None" by (auto simp: admission_begin_def split: if_splits)
  then show ?thesis using step by (auto simp: admission_step_def)
next
  case (Some c')
  note kept = begin_sel [OF Some]
  have as: "a\<lparr>adm_buffer := [z]\<rparr> = aside [z] (adm_output a) (adm_offset a) a" for a by (simp add: aside_def)
  have begun: "admission_begin (c\<lparr>adm_buffer := [z]\<rparr>) = Some (c'\<lparr>adm_buffer := [z]\<rparr>)"
    using Some kept by (simp add: as begin_aside)
  show ?thesis
  proof (cases "admission_room c' = 0")
    case True
    then have "admission_room (c'\<lparr>adm_buffer := [z]\<rparr>) = 0" by (simp add: as)
    then show ?thesis using step begun kept by (auto simp: admission_step_def Let_def)
  next
    case False
    define b where "b = taken (Suc 0) (c'\<lparr>adm_buffer := [z]\<rparr>)"
    have advance: "admission_advance (Suc 0) b = (r, a)"
      using step_single [OF Some _ \<open>sane c\<close> core, of z] False step by (simp add: b_def)
    have b: "adm_frame b = adm_frame c @ [z]" "adm_kind b = adm_kind c" "adm_line_start b = adm_line_start c"
      "adm_literal b = adm_literal c" "adm_limits b = adm_limits c" "adm_contract b = adm_contract c" "undelivered b = []"
      using kept core core_sel(3,4) [of c] Some
      by (auto simp: b_def taken_def Let_def undelivered_def admission_begin_def split: if_splits)
    show ?thesis
    proof (cases "adm_literal c \<noteq> 0 \<or> z \<noteq> LF")
      case True
      have a: "r = Inr () \<and> adm_frame a = adm_frame b \<and> adm_kind a = adm_kind b \<and> undelivered a = []
          \<and> adm_limits a = adm_limits b \<and> adm_contract a = adm_contract b
          \<and> (adm_literal c = 0 \<longrightarrow> adm_literal a = 0 \<and> adm_line_start a = adm_line_start b)"
        using advance b True by (auto simp: admission_advance_def undelivered_def split: if_splits)
      have "framed a"
      proof (cases "adm_literal c = 0")
        case True
        then show ?thesis using a b framed \<open>adm_literal c \<noteq> 0 \<or> z \<noteq> LF\<close> by (intro framed_sel [of c a z]) auto
      next
        case False
        then have "adm_kind c \<noteq> None" using framed by (auto simp: framed_def split: option.splits)
        then show ?thesis using a b framed frame_kind_later by (auto simp: framed_def)
      qed
      then show ?thesis using a b by simp
    next
      case False
      then have line: "adm_literal b = 0" "adm_frame b \<noteq> []" "last (adm_frame b) = LF" using b by auto
      show ?thesis
      proof (cases "admission_line b")
        case (Inl e)
        then show ?thesis using advance line b by (auto simp: admission_advance_def)
      next
        case (Inr p)
        obtain v d where p: "p = (v, d)" by (cases p)
        note facts = line_framed [OF Inr [unfolded p] framed b(1,2,3)] line_kept [OF Inr [unfolded p]]
        show ?thesis
        proof (cases v)
          case False
          have "undelivered d = []" using facts b by (simp add: undelivered_def)
          then show ?thesis using advance line Inr p False facts b by (auto simp: admission_advance_def)
        next
          case True
          have fin: "admission_finish d = (r, a)" using advance line Inr p True by (auto simp: admission_advance_def)
          have "adm_kind d = Some (frame_kind (adm_frame b))" using facts by (auto simp: framed_def split: option.splits)
          then show ?thesis
            using finish_frame [OF fin] facts b by (cases r) (auto simp: admitted_def)
        qed
      qed
    qed
  qed
qed

lemma feed_frames:
  assumes "feed bs c = (out, c')" and "framed c" and "core c = c" and "sane c" and "adm_failure c = None"
  shows "\<exists>frames outs rest. list_all2 (admitted (adm_contract c) (adm_limits c)) frames outs \<and> out = concat outs
    \<and> adm_frame c @ bs = concat frames @ adm_frame c' @ rest \<and> (adm_failure c' = None \<longrightarrow> rest = [])"
  using assms
proof (induction bs arbitrary: c out c')
  case (Cons z bs)
  obtain r a where step: "admission_step (c\<lparr>adm_buffer := [z]\<rparr>) = (r, a)" by (cases "admission_step (c\<lparr>adm_buffer := [z]\<rparr>)")
  note facts = step_frames [OF step Cons.prems(2,3,4)]
  show ?case
  proof (cases r)
    case (Inl e)
    have c': "out = [] \<and> c' = core (admission_fail e a)" using Cons.prems step Inl by simp
    moreover have "adm_frame c' = adm_frame a" "adm_failure c' \<noteq> None"
      using c' by (auto simp: admission_fail_def split: option.splits)
    ultimately show ?thesis
      using facts Inl by (intro exI [of _ "[]"] exI [of _ "if adm_frame a = adm_frame c then z # bs else bs"]) auto
  next
    case (Inr u)
    obtain out' where rest: "feed bs (core a) = (out', c')" "out = undelivered a @ out'"
      using Cons.prems step Inr by (auto split: prod.splits)
    have "adm_failure a = None" "sane a" "framed (core a)"
      using step_kept [OF step [unfolded Inr]] Cons.prems(4,5) facts Inr by (auto simp: sane_def)
    then obtain frames outs left where IH: "list_all2 (admitted (adm_contract c) (adm_limits c)) frames outs"
      "out' = concat outs" "adm_frame a @ bs = concat frames @ adm_frame c' @ left" "adm_failure c' = None \<longrightarrow> left = []"
      using Cons.IH [OF rest(1)] facts Inr by (auto simp: sane_def)
    show ?thesis
    proof (cases "adm_frame a = adm_frame c @ [z] \<and> undelivered a = []")
      case True
      then show ?thesis using IH rest by (intro exI [of _ frames] exI [of _ outs] exI [of _ left]) auto
    next
      case False
      then have "adm_frame a = []" "admitted (adm_contract c) (adm_limits c) (adm_frame c @ [z]) (undelivered a)"
        using facts Inr by auto
      then show ?thesis
        using IH rest
        by (intro exI [of _ "(adm_frame c @ [z]) # frames"] exI [of _ "undelivered a # outs"] exI [of _ left]) auto
    qed
  qed
qed (auto intro!: exI [of _ "[]"])

section \<open>Ceilings\<close>

lemma normalize_loop_bounded: "normalize_loop frame kind contract l s = Inr out \<Longrightarrow> length out \<le> il_response_bytes l"
proof (induction frame kind contract l s rule: normalize_loop.induct)
  case (1 frame kind contract l s)
  show ?case
    using 1(2) by (subst (asm) normalize_loop.simps) (auto simp: extend_output_Inr intro: 1(1) split: sum.splits option.splits)
qed

lemma normalize_bounded: "normalize frame kind contract l = Inr out \<Longrightarrow> length out \<le> il_response_bytes l"
  by (auto simp: normalize_def extend_output_Inr dest: normalize_loop_bounded split: if_splits)

lemma line_scan_nesting:
  "line_scan data bs quoted escaped nesting announcement = Inr (nesting', announcement') \<Longrightarrow> nesting \<le> MAX_PROTOCOL_NESTING
     \<Longrightarrow> nesting' \<le> MAX_PROTOCOL_NESTING"
proof (induction bs arbitrary: quoted escaped nesting announcement)
  case (Cons b bs)
  show ?case using Cons.prems by (auto split: if_splits intro: Cons.IH)
qed (simp split: if_splits)

definition within_ceilings :: "Admission \<Rightarrow> bool" where
  "within_ceilings a \<longleftrightarrow>
     length (adm_frame a) + adm_literal a \<le> il_response_bytes (adm_limits a)
     \<and> adm_offset a \<le> length (adm_output a) \<and> length (adm_output a) \<le> il_response_bytes (adm_limits a)
     \<and> met_wire_bytes (adm_metrics a) + met_append_wire_bytes (adm_metrics a) \<le> il_operation_bytes (adm_limits a)
     \<and> met_parser_steps (adm_metrics a) \<le> il_parser_steps (adm_limits a)
     \<and> met_responses (adm_metrics a) \<le> il_responses (adm_limits a)
     \<and> adm_nesting a \<le> MAX_PROTOCOL_NESTING"

lemma within_begin: "admission_begin a = Some b \<Longrightarrow> within_ceilings a \<Longrightarrow> within_ceilings b"
  by (auto simp: admission_begin_def within_ceilings_def split: if_splits)

lemma within_charge: "charge k a = (r, b) \<Longrightarrow> within_ceilings a \<Longrightarrow> within_ceilings b"
  by (auto simp: charge_def within_ceilings_def split: if_splits)

lemma within_line: "admission_line a = Inr (v, b) \<Longrightarrow> within_ceilings a \<Longrightarrow> within_ceilings b"
  by (auto simp: admission_line_def Let_def within_ceilings_def dest!: line_scan_nesting split: if_splits option.splits)

lemma within_finish:
  assumes "admission_finish a = (r, b)" and "within_ceilings a"
  shows "within_ceilings b"
proof -
  obtain v c where c: "charge (saturating_mul (length (adm_frame a)) 3) a = (v, c)" by fastforce
  have within: "within_ceilings c" "adm_limits c = adm_limits a" using within_charge [OF c] charge_kept [OF c] assms by auto
  have done': "within_ceilings (d\<lparr>adm_output := out, adm_offset := 0, adm_frame := [], adm_line_start := 0,
      adm_nesting := 0, adm_literal := 0, adm_kind := None\<rparr>)"
    if "within_ceilings d" "length out \<le> il_response_bytes (adm_limits d)" for d out
    using that by (simp add: within_ceilings_def)
  show ?thesis
    using assms(1) c within
    by (auto simp: admission_finish_def split: sum.splits prod.splits if_splits
        intro!: done' dest!: normalize_bounded intro: within_charge dest: charge_kept)
qed

lemma within_advance:
  assumes advance: "admission_advance k a = (r, b)"
    and within: "within_ceilings (a\<lparr>adm_literal := adm_literal a - k\<rparr>)" and literal: "adm_literal a \<noteq> 0 \<Longrightarrow> k \<le> adm_literal a"
  shows "within_ceilings b"
proof (cases "adm_literal a = 0")
  case False
  then show ?thesis using advance within literal by (auto simp: admission_advance_def within_ceilings_def split: if_splits)
next
  case True
  then have "within_ceilings a" using within by (simp add: within_ceilings_def)
  then show ?thesis
    using advance True
    by (auto simp: admission_advance_def split: if_splits sum.splits prod.splits bool.splits
        dest: within_line within_finish)
qed

lemma within_step:
  assumes step: "admission_step a = (r, a')" and within: "within_ceilings a" and buffer: "adm_buffer a \<noteq> []"
  shows "within_ceilings a'"
proof (cases "admission_begin a")
  case None
  then show ?thesis using step within by (simp add: admission_step_def)
next
  case (Some b)
  define cnt where "cnt = min (desired b) (admission_room b)"
  have b: "within_ceilings b" using within_begin [OF Some within] .
  consider "a' = b" | "admission_advance cnt (taken cnt b) = (r, a')"
    using step Some by (auto simp: admission_step_def Let_def cnt_def split: if_splits sum.splits)
  then show ?thesis
  proof cases
    case 2
    have cnt: "cnt \<le> length (adm_buffer b)" "cnt \<le> admission_room b" "adm_literal b \<noteq> 0 \<Longrightarrow> cnt \<le> adm_literal b"
      using desired_shape [of b] begin_sel [OF Some] buffer by (auto simp: cnt_def)
    have "within_ceilings ((taken cnt b)\<lparr>adm_literal := adm_literal b - cnt\<rparr>)"
      using b cnt by (cases "adm_literal b = 0")
        (auto simp: within_ceilings_def taken_def Let_def admission_room_def wire_room_def)
    then show ?thesis
      using within_advance [OF 2] cnt(3) by (simp add: taken_def Let_def)
  qed (use b in simp)
qed

lemma within_loop:
  assumes "admission_loop fills a = (p, fills', a')" and "within_ceilings a"
  shows "within_ceilings a'"
  using assms
proof (induction fills a arbitrary: p fills' a' rule: admission_loop.induct)
  case (1 fills a)
  have failed: "within_ceilings (admission_fail e b) = within_ceilings b" for e b
    by (auto simp: admission_fail_def within_ceilings_def split: option.splits)
  show ?case
  proof (cases "adm_offset a = length (adm_output a)")
    case False
    then show ?thesis using 1(2-) by (subst (asm) admission_loop.simps) auto
  next
    case True
    obtain r f b where fill: "admission_fill fills a = (r, f, b)" by (metis prod_cases3)
    have b: "within_ceilings b" "r = Inr () \<Longrightarrow> adm_buffer b \<noteq> []"
      using fill 1(3) by (auto simp: admission_fill_def within_ceilings_def split: if_splits list.splits Fill.splits)
    show ?thesis
    proof (cases r)
      case (Inl e)
      then show ?thesis
        using 1(2) fill True b by (subst (asm) admission_loop.simps) (auto simp: failed split: option.splits)
    next
      case r: (Inr x)
      obtain v d where step: "admission_step b = (v, d)" by (cases "admission_step b")
      have d: "within_ceilings d" using within_step [OF step] b r by simp
      show ?thesis
      proof (cases v)
        case (Inl e)
        then show ?thesis using 1(2) fill True r step d by (subst (asm) admission_loop.simps) (auto simp: failed)
      next
        case (Inr u)
        have "admission_loop f d = (p, fills', a')"
          using 1(2) fill True r step Inr by (subst (asm) admission_loop.simps) auto
        then show ?thesis using 1(1) [OF _ fill [symmetric] r refl step [symmetric] Inr] True d by simp
      qed
    qed
  qed
qed

section \<open>Properties\<close>

text \<open>
  C38: Admission does not depend on how the network cuts the bytes into reads, where it pauses, or how large the buffers of
  the reader are: two connections in the same state that receive the same bytes deliver the same bytes to the parser, charge
  the same metrics, and end with the same failure or the same partial response.
\<close>

theorem admission_fragmentation:
  assumes "ready a" and "0 < n" and "0 < m" and "quiet_fills fills" and "quiet_fills gills" and "arrived fills = arrived gills"
  shows "fst (read_all n fills a) = fst (read_all m gills a) \<and> core (snd (read_all n fills a)) = core (snd (read_all m gills a))"
  using read_all_feed [OF assms(4,1,2)] read_all_feed [OF assms(5,1,3)] assms(6) by (auto split: prod.splits)

text \<open>
  What the parser reads is complete: the bytes delivered are the normalized forms of whole responses, each ending with
  CRLF, in the order the server sent them; what follows the last of them is held back in the frame, and when admission
  refuses a response nothing of it, nor of anything behind it, is delivered.
\<close>

theorem admission_delivers_complete:
  assumes "ready a" and "framed a" and "undelivered a = []" and "0 < n" and "quiet_fills fills"
  shows "\<exists>frames outs rest. list_all2 (admitted (adm_contract a) (adm_limits a)) frames outs
    \<and> fst (read_all n fills a) = concat outs
    \<and> adm_frame a @ adm_buffer a @ arrived fills = concat frames @ adm_frame (snd (read_all n fills a)) @ rest
    \<and> (adm_failure (snd (read_all n fills a)) = None \<longrightarrow> rest = [])"
proof -
  obtain out c where feed: "feed (adm_buffer a @ arrived fills) (core a) = (out, c)" by fastforce
  have all: "fst (read_all n fills a) = out" "core (snd (read_all n fills a)) = c"
    using read_all_feed [OF assms(5,1,4)] feed assms(3) by auto
  have "adm_frame c = adm_frame (snd (read_all n fills a))" "adm_failure c = adm_failure (snd (read_all n fills a))"
    using all(2) by auto
  then show ?thesis
    using feed_frames [OF feed] assms(1,2) all(1) by (auto simp: ready_def sane_def)
qed

text \<open>
  C39: Admission keeps every ceiling at every poll, whatever the network does: the partial response together with an announced
  literal, and the output, stay within the response bytes, the wire and parser-step budgets and the number of responses are
  never exceeded, parentheses never nest deeper than the protocol's bound, and a poll delivers no more than it was asked for.
\<close>

theorem admission_bounded:
  assumes "within_ceilings a" and "poll_read n fills a = (p, fills', a')"
  shows "within_ceilings a' \<and> (case p of Delivered bs \<Rightarrow> length bs \<le> n | _ \<Rightarrow> True)"
proof (cases "n = 0 \<or> adm_failure a \<noteq> None")
  case True
  then show ?thesis using assms by (auto simp: poll_read_def split: if_splits option.splits)
next
  case False
  obtain q f b where loop: "admission_loop fills a = (q, f, b)" by (metis prod_cases3)
  have b: "within_ceilings b" using within_loop [OF loop assms(1)] .
  show ?thesis
  proof (cases q)
    case None
    then show ?thesis using assms(2) False loop b
      by (auto simp: poll_read_def Let_def within_ceilings_def)
  next
    case (Some x)
    then show ?thesis using assms(2) False loop b loop_size [OF loop] by (auto simp: poll_read_def split: Poll.splits)
  qed
qed

section \<open>An example\<close>

definition example_admission :: Admission where
  "example_admission = admission_new imap_limits_default metrics_default"

text \<open>A LIST response whose name is an escaped quoted string, cut in the middle of the escape.\<close>

definition example_whole :: "Fill list" where
  "example_whole = [Arrived (''* LIST () NIL '' @ [CHR 0x22, CHR ''a'', CHR 0x5C, CHR 0x22, CHR 0x22, CR, LF])]"

definition example_cut :: "Fill list" where
  "example_cut =
     [Arrived ''* LIST ('', NotYet, Arrived ('') NIL '' @ [CHR 0x22, CHR ''a'', CHR 0x5C]), NotYet,
      Arrived [CHR 0x22], Arrived [CHR 0x22, CR], NotYet, Arrived [LF]]"

lemma example_ready: "ready example_admission \<and> framed example_admission \<and> undelivered example_admission = []"
  by code_simp

lemma example_fed:
  "fst (feed (arrived example_whole) (core example_admission)) = ''* LIST () NIL {2}'' @ [CR, LF, CHR ''a'', CHR 0x22, CR, LF]"
  by code_simp

lemma example_quiet:
  "quiet_fills example_cut" "quiet_fills example_whole" "arrived example_cut = arrived example_whole"
  by (simp_all add: example_cut_def example_whole_def)

lemma admission_fragmentation_witness:
  "fst (read_all 1 example_cut example_admission) = fst (read_all 64 example_whole example_admission)
   \<and> core (snd (read_all 1 example_cut example_admission)) = core (snd (read_all 64 example_whole example_admission))"
  by (rule admission_fragmentation) (simp_all add: example_ready example_quiet)

lemma example_empty: "adm_buffer example_admission = []" "adm_frame example_admission = []"
  by (simp_all add: example_admission_def admission_new_def)

lemma example_delivered:
  "fst (read_all 3 example_cut example_admission) = ''* LIST () NIL {2}'' @ [CR, LF, CHR ''a'', CHR 0x22, CR, LF]"
  using read_all_feed [OF example_quiet(1), of example_admission 3] example_ready example_fed example_quiet(3) example_empty
  by (auto split: prod.splits)

lemma admission_delivers_complete_witness:
  "\<exists>frames outs rest. list_all2 (admitted ContractOther imap_limits_default) frames outs
    \<and> ''* LIST () NIL {2}'' @ [CR, LF, CHR ''a'', CHR 0x22, CR, LF] = concat outs
    \<and> arrived example_cut = concat frames @ adm_frame (snd (read_all 3 example_cut example_admission)) @ rest"
proof -
  have "ready example_admission" "framed example_admission" "undelivered example_admission = []"
    using example_ready by auto
  from admission_delivers_complete [OF this _ example_quiet(1), of 3]
  show ?thesis
    unfolding example_delivered example_empty by (auto simp: example_admission_def admission_new_def)
qed

lemma example_within: "within_ceilings example_admission"
  by code_simp

lemma admission_bounded_witness:
  "within_ceilings (snd (snd (poll_read 4 example_cut example_admission)))"
  using admission_bounded [OF example_within, of 4 example_cut "fst (poll_read 4 example_cut example_admission)"
    "fst (snd (poll_read 4 example_cut example_admission))" "snd (snd (poll_read 4 example_cut example_admission))"]
  by simp

end
