(* ===== verification/Decoder.thy ===== *)
theory Decoder
  imports Imap
begin

text \<open>
  Incremental transfer decoding (\<open>src/src/imap/attachment/decoder.rs\<close>): identity, base64 and
  quoted-printable, fed by bounded wire slices and drained by pages. The reference decoders at
  the end say what a whole transfer means; every successful run equals them.
\<close>

section \<open>State\<close>

datatype TransferEncoding = Identity | Base64 | QuotedPrintable

text \<open>The digest is the list of the bytes fed to it.\<close>

record Decoder =
  dec_encoding :: TransferEncoding
  dec_pending :: bytes
  dec_pending_offset :: nat
  dec_base64 :: bytes
  dec_padded :: bool
  dec_quoted :: bytes
  dec_whitespace :: bytes
  dec_carriage_return :: bool
  dec_offset :: nat
  dec_steps :: nat
  dec_max_state :: nat
  dec_digest :: bytes

definition decoder_new :: "TransferEncoding \<Rightarrow> Decoder" where
  "decoder_new e = \<lparr>dec_encoding = e, dec_pending = [], dec_pending_offset = 0, dec_base64 = [], dec_padded = False,
     dec_quoted = [], dec_whitespace = [], dec_carriage_return = False, dec_offset = 0, dec_steps = 0, dec_max_state = 0,
     dec_digest = []\<rparr>"

type_synonym decode_step = "Decoder \<Rightarrow> unit imap \<times> Decoder"

definition then_decode :: "decode_step \<Rightarrow> decode_step \<Rightarrow> decode_step" where
  "then_decode m k d = (case m d of (Inl e, d') \<Rightarrow> (Inl e, d') | (Inr _, d') \<Rightarrow> k d')"

definition state_limit :: "ImapLimits \<Rightarrow> nat" where
  "state_limit l = saturating_add MAX_CHUNK_BYTES (il_attachment_chunk_bytes l)"

definition pending_len :: "Decoder \<Rightarrow> nat" where
  "pending_len d = length (dec_pending d) - dec_pending_offset d"

definition retained_bytes :: "Decoder \<Rightarrow> nat" where
  "retained_bytes d =
     saturating_add (saturating_add (saturating_add (saturating_add (length (dec_pending d)) (length (dec_base64 d)))
       (length (dec_quoted d))) (length (dec_whitespace d))) (if dec_carriage_return d then 1 else 0)"

definition account_state :: "Decoder \<Rightarrow> Decoder" where
  "account_state d = d\<lparr>dec_max_state := max (dec_max_state d) (saturating_add (retained_bytes d) 128)\<rparr>"

definition compact_pending :: "Decoder \<Rightarrow> Decoder" where
  "compact_pending d =
     (if dec_pending_offset d \<noteq> 0 then d\<lparr>dec_pending := drop (dec_pending_offset d) (dec_pending d), dec_pending_offset := 0\<rparr>
      else d)"

definition decoder_append :: "ImapLimits \<Rightarrow> bytes \<Rightarrow> decode_step" where
  "decoder_append l bs d =
     (case checked_add (dec_offset d) (pending_len d) of None \<Rightarrow> (Inl ImapLimit, d)
      | Some used \<Rightarrow>
          if length bs > il_attachment_decoded_bytes l - used \<or> length bs > state_limit l - retained_bytes d
          then (Inl ImapLimit, d)
          else (Inr (), account_state (d\<lparr>dec_pending := dec_pending d @ bs\<rparr>)))"

section \<open>Base64\<close>

definition base64_letter :: "byte \<Rightarrow> bool" where
  "base64_letter b = (is_ascii_alphanumeric b \<or> b = CHR ''+'' \<or> b = CHR ''/'')"

text \<open>
  \<open>decode\<close> is the strict standard engine of the base64 package, as a partial function on its input;
  writing to a slice fails when the output is longer than the slice.
\<close>

definition base64_run :: "(bytes \<Rightarrow> bytes option) \<Rightarrow> ImapLimits \<Rightarrow> bytes \<Rightarrow> Decoder \<Rightarrow> nat imap \<times> Decoder" where
  "base64_run decode l wire d =
     (let groups = length (takeWhile base64_letter wire) div 4 in
      case checked_add (dec_offset d) (pending_len d) of None \<Rightarrow> (Inl ImapLimit, d)
      | Some used \<Rightarrow>
          let available = min (il_attachment_decoded_bytes l - used) (state_limit l - retained_bytes d - 4);
              groups = min groups (available div 3)
          in if groups < 2 then (Inr 0, d)
             else let decoded = groups * 3 in
               case decode (take (groups * 4) wire) of
                 None \<Rightarrow> (Inl ImapProtocol, d\<lparr>dec_pending := dec_pending d @ replicate decoded CHR 0x00\<rparr>)
               | Some out \<Rightarrow>
                   if length out > decoded
                   then (Inl ImapProtocol, d\<lparr>dec_pending := dec_pending d @ replicate decoded CHR 0x00\<rparr>)
                   else (Inr (groups * 4),
                     account_state (d\<lparr>dec_pending := dec_pending d @ out @ replicate (decoded - length out) CHR 0x00\<rparr>)))"

definition base64_byte :: "(bytes \<Rightarrow> bytes option) \<Rightarrow> ImapLimits \<Rightarrow> byte \<Rightarrow> decode_step" where
  "base64_byte decode l b d =
     (if is_ascii_whitespace b then (Inr (), d)
      else if dec_padded d \<or> \<not> (base64_letter b \<or> b = CHR ''='') then (Inl ImapProtocol, d)
      else if retained_bytes d \<ge> state_limit l then (Inl ImapLimit, d)
      else let d = d\<lparr>dec_base64 := dec_base64 d @ [b]\<rparr> in
        if length (dec_base64 d) = 4
        then (case decode (dec_base64 d) of None \<Rightarrow> (Inl ImapProtocol, d)
              | Some out \<Rightarrow>
                  if length out > 3 then (Inl ImapProtocol, d)
                  else then_decode (decoder_append l out)
                    (\<lambda>d. (Inr (), account_state (d\<lparr>dec_padded := length out < 3, dec_base64 := []\<rparr>))) d)
        else (Inr (), account_state d))"

function base64_push :: "(bytes \<Rightarrow> bytes option) \<Rightarrow> ImapLimits \<Rightarrow> bytes \<Rightarrow> decode_step" where
  "base64_push decode l [] d = (Inr (), d)"
| "base64_push decode l (b # wire) d =
     (case (if dec_base64 d = [] \<and> \<not> dec_padded d then base64_run decode l (b # wire) d else (Inr 0, d)) of
        (Inl e, d') \<Rightarrow> (Inl e, d')
      | (Inr consumed, d') \<Rightarrow>
          if consumed \<noteq> 0 then base64_push decode l (drop consumed (b # wire)) d'
          else then_decode (base64_byte decode l b) (base64_push decode l wire) d')"
  by pat_completeness auto

termination
  by (relation "measure (\<lambda>(_, _, wire, _). length wire)") auto

section \<open>Quoted-printable\<close>

definition hex_value :: "byte \<Rightarrow> nat option" where
  "hex_value b =
     (if is_ascii_digit b then Some (ord b - 48)
      else if 97 \<le> ord b \<and> ord b \<le> 102 then Some (ord b - 97 + 10)
      else if 65 \<le> ord b \<and> ord b \<le> 70 then Some (ord b - 65 + 10) else None)"

definition quoted_octet :: "ImapLimits \<Rightarrow> byte \<Rightarrow> decode_step" where
  "quoted_octet l b d =
     (if dec_quoted d = [] \<and> b \<noteq> CHR ''='' then decoder_append l [b] d
      else if retained_bytes d \<ge> state_limit l then (Inl ImapLimit, d)
      else let q = dec_quoted d @ [b] in
        if length q = 3
        then let d = d\<lparr>dec_quoted := []\<rparr> in
          if q ! 1 = CR \<and> q ! 2 = LF then (Inr (), d)
          else (case (hex_value (q ! 1), hex_value (q ! 2)) of
              (Some first, Some second) \<Rightarrow> decoder_append l [chr (first * 16 + second)] d
            | _ \<Rightarrow> (Inl ImapProtocol, d))
        else (Inr (), d\<lparr>dec_quoted := q\<rparr>))"

fun quoted_octets :: "ImapLimits \<Rightarrow> bytes \<Rightarrow> decode_step" where
  "quoted_octets l [] d = (Inr (), d)"
| "quoted_octets l (b # bs) d = then_decode (quoted_octet l b) (quoted_octets l bs) d"

definition flush_raw_prefix :: "ImapLimits \<Rightarrow> decode_step" where
  "flush_raw_prefix l d =
     then_decode (quoted_octets l (dec_whitespace d))
       (\<lambda>d. if dec_carriage_return d then quoted_octet l CR (d\<lparr>dec_carriage_return := False\<rparr>) else (Inr (), d))
       (d\<lparr>dec_whitespace := []\<rparr>)"

definition is_padding :: "byte \<Rightarrow> bool" where
  "is_padding b = (b = CHR '' '' \<or> b = CHR 0x09)"

definition raw_byte :: "ImapLimits \<Rightarrow> byte \<Rightarrow> decode_step" where
  "raw_byte l b d =
     (if is_padding b
      then (if retained_bytes d \<ge> state_limit l then (Inl ImapLimit, d)
            else (Inr (), d\<lparr>dec_whitespace := dec_whitespace d @ [b]\<rparr>))
      else if b = CR
      then (if retained_bytes d \<ge> state_limit l then (Inl ImapLimit, d) else (Inr (), d\<lparr>dec_carriage_return := True\<rparr>))
      else if b = LF then quoted_octet l LF (d\<lparr>dec_whitespace := []\<rparr>)
      else then_decode (flush_raw_prefix l) (quoted_octet l b) d)"

definition raw_quoted_printable :: "ImapLimits \<Rightarrow> byte \<Rightarrow> decode_step" where
  "raw_quoted_printable l b d =
     (if dec_carriage_return d
      then (if b = LF
            then then_decode (quoted_octet l CR) (quoted_octet l LF) (d\<lparr>dec_whitespace := [], dec_carriage_return := False\<rparr>)
            else then_decode (flush_raw_prefix l) (raw_byte l b) d)
      else raw_byte l b d)"

definition ordinary :: "byte \<Rightarrow> bool" where
  "ordinary b = (b \<noteq> CHR ''='' \<and> \<not> is_padding b \<and> b \<noteq> CR \<and> b \<noteq> LF)"

function quoted_push :: "ImapLimits \<Rightarrow> bytes \<Rightarrow> decode_step" where
  "quoted_push l [] d = (Inr (), d)"
| "quoted_push l (b # wire) d =
     (if dec_quoted d = [] \<and> dec_whitespace d = [] \<and> \<not> dec_carriage_return d \<and> ordinary b
      then let len = length (takeWhile ordinary (b # wire));
               available = min (il_attachment_decoded_bytes l - (dec_offset d + pending_len d))
                 (state_limit l - retained_bytes d);
               count = min len available in
        (case (if count \<noteq> 0 then decoder_append l (take count (b # wire)) d else (Inr (), d)) of
           (Inl e, d') \<Rightarrow> (Inl e, d')
         | (Inr _, d') \<Rightarrow> if count \<noteq> len then (Inl ImapLimit, d') else quoted_push l (drop count (b # wire)) d')
      else (case raw_quoted_printable l b d of (Inl e, d') \<Rightarrow> (Inl e, d')
            | (Inr _, d') \<Rightarrow> quoted_push l wire (account_state d')))"
  by pat_completeness auto

termination
  by (relation "measure (\<lambda>(_, wire, _). length wire)") auto

section \<open>The operations\<close>

definition decoder_push :: "(bytes \<Rightarrow> bytes option) \<Rightarrow> ImapLimits \<Rightarrow> bytes \<Rightarrow> decode_step" where
  "decoder_push decode l wire d =
     (case checked_add (dec_steps d) (length wire) of None \<Rightarrow> (Inl ImapLimit, d)
      | Some steps \<Rightarrow>
          let d = d\<lparr>dec_steps := steps\<rparr> in
          if steps > il_decode_steps l then (Inl ImapLimit, d)
          else let d = compact_pending d in
            (case dec_encoding d of
               Identity \<Rightarrow> decoder_append l wire d
             | Base64 \<Rightarrow> base64_push decode l wire d
             | QuotedPrintable \<Rightarrow> quoted_push l wire d))"

definition decoder_finish :: "ImapLimits \<Rightarrow> decode_step" where
  "decoder_finish l d =
     (case dec_encoding d of
        Identity \<Rightarrow> (Inr (), d)
      | Base64 \<Rightarrow> if dec_base64 d = [] then (Inr (), d) else (Inl ImapProtocol, d)
      | QuotedPrintable \<Rightarrow>
          then_decode (\<lambda>d. if dec_carriage_return d then flush_raw_prefix l d else (Inr (), d\<lparr>dec_whitespace := []\<rparr>))
            (\<lambda>d. if dec_quoted d = [] then (Inr (), d) else (Inl ImapProtocol, d)) d)"

definition take_chunk :: "nat \<Rightarrow> Decoder \<Rightarrow> bytes \<times> Decoder" where
  "take_chunk maximum d =
     (let (bs, d) =
        (if pending_len d \<le> maximum
         then let d = compact_pending d in (dec_pending d, d\<lparr>dec_pending := []\<rparr>)
         else (take maximum (drop (dec_pending_offset d) (dec_pending d)),
               d\<lparr>dec_pending_offset := dec_pending_offset d + maximum\<rparr>)) in
      (bs, d\<lparr>dec_digest := dec_digest d @ bs, dec_offset := dec_offset d + length bs\<rparr>))"

record DecoderMetrics =
  dm_decoded_bytes :: nat
  dm_decode_steps :: nat
  dm_max_state_bytes :: nat

definition decoder_snapshot :: "Decoder \<Rightarrow> DecoderMetrics" where
  "decoder_snapshot d = \<lparr>dm_decoded_bytes = dec_offset d + pending_len d, dm_decode_steps = dec_steps d,
     dm_max_state_bytes = dec_max_state d\<rparr>"

definition decoder_integrity :: "(bytes \<Rightarrow> 'h) \<Rightarrow> Decoder \<Rightarrow> u64 \<times> 'h" where
  "decoder_integrity sha256 d = (of_nat (dec_offset d), sha256 (dec_digest d))"


section \<open>The reference decoders\<close>

text \<open>
  The documented behaviour of the standard engine: nothing decodes to nothing, a quartet of
  letters to three bytes, any other quartet to at most three or to an error, a quartet of foreign bytes never,
  and only the last quartet may be short. Inputs that are not made of quartets are errors.
\<close>

definition base64_ok :: "(bytes \<Rightarrow> bytes option) \<Rightarrow> bool" where
  "base64_ok decode \<longleftrightarrow> decode [] = Some []
     \<and> (\<forall>s. length s mod 4 \<noteq> 0 \<longrightarrow> decode s = None)
     \<and> (\<forall>q. length q = 4 \<longrightarrow>
          (list_all base64_letter q \<longrightarrow> (\<exists>out. decode q = Some out \<and> length out = 3))
          \<and> (\<not> list_all (\<lambda>b. base64_letter b \<or> b = CHR ''='') q \<longrightarrow> decode q = None)
          \<and> (\<forall>out. decode q = Some out \<longrightarrow> length out \<le> 3))
     \<and> (\<forall>q s. length q = 4 \<longrightarrow> s \<noteq> [] \<longrightarrow>
          decode (q @ s) = (case decode q of None \<Rightarrow> None
            | Some out \<Rightarrow> if length out = 3 then map_option ((@) out) (decode s) else None))"

text \<open>Output of a continued decoding, after what was already decoded.\<close>

definition prefixed :: "bytes \<Rightarrow> ('c \<times> bytes) option \<Rightarrow> ('c \<times> bytes) option" where
  "prefixed out r = (case r of None \<Rightarrow> None | Some (c, rest) \<Rightarrow> Some (c, out @ rest))"

definition resumed :: "('c \<times> bytes) option \<Rightarrow> ('c \<Rightarrow> ('c \<times> bytes) option) \<Rightarrow> ('c \<times> bytes) option" where
  "resumed r k = (case r of None \<Rightarrow> None | Some (c, out) \<Rightarrow> prefixed out (k c))"

lemma prefixed_simps [simp]:
  "prefixed out None = None" "prefixed out (Some (c, rest)) = Some (c, out @ rest)" "prefixed [] r = r"
  "prefixed a (prefixed b r) = prefixed (a @ b) r"
  by (auto simp: prefixed_def split: option.splits)

lemma resumed_simps [simp]:
  "resumed None k = None" "resumed (Some (c, out)) k = prefixed out (k c)"
  "resumed (prefixed out r) k = prefixed out (resumed r k)"
  by (auto simp: resumed_def prefixed_def split: option.splits)

lemma prefixed_eq_Some: "prefixed out r = Some (c, x) \<longleftrightarrow> (\<exists>rest. r = Some (c, rest) \<and> x = out @ rest)"
  by (auto simp: prefixed_def split: option.splits)

fun base64_ref :: "(bytes \<Rightarrow> bytes option) \<Rightarrow> bytes \<times> bool \<Rightarrow> bytes \<Rightarrow> ((bytes \<times> bool) \<times> bytes) option" where
  "base64_ref decode c [] = Some (c, [])"
| "base64_ref decode (q, padded) (b # bs) =
     (if is_ascii_whitespace b then base64_ref decode (q, padded) bs
      else if padded \<or> \<not> (base64_letter b \<or> b = CHR ''='') then None
      else if length q = 3
      then (case decode (q @ [b]) of None \<Rightarrow> None
            | Some out \<Rightarrow> if length out > 3 then None
                else prefixed out (base64_ref decode ([], length out < 3) bs))
      else base64_ref decode (q @ [b], padded) bs)"

text \<open>Quoted-printable in two layers: padding before a line end is dropped, then escapes are read.\<close>

fun raw_ref :: "bytes \<times> bool \<Rightarrow> bytes \<Rightarrow> (bytes \<times> bool) \<times> bytes" where
  "raw_ref c [] = (c, [])"
| "raw_ref (ws, cr) (b # bs) =
     (if cr \<and> b = LF then apsnd ((@) [CR, LF]) (raw_ref ([], False) bs)
      else let flushed = (if cr then ws @ [CR] else []); ws = (if cr then [] else ws) in
        if is_padding b then apsnd ((@) flushed) (raw_ref (ws @ [b], False) bs)
        else if b = CR then apsnd ((@) flushed) (raw_ref (ws, True) bs)
        else if b = LF then apsnd ((@) (flushed @ [LF])) (raw_ref ([], False) bs)
        else apsnd ((@) (flushed @ ws @ [b])) (raw_ref ([], False) bs))"

fun octets_ref :: "bytes \<Rightarrow> bytes \<Rightarrow> (bytes \<times> bytes) option" where
  "octets_ref q [] = Some (q, [])"
| "octets_ref q (b # bs) =
     (if q = [] \<and> b \<noteq> CHR ''='' then prefixed [b] (octets_ref [] bs)
      else if length q = 2
      then (if q ! 1 = CR \<and> b = LF then octets_ref [] bs
            else case (hex_value (q ! 1), hex_value b) of
                (Some first, Some second) \<Rightarrow> prefixed [chr (first * 16 + second)] (octets_ref [] bs)
              | _ \<Rightarrow> None)
      else octets_ref (q @ [b]) bs)"

lemma base64_ref_append:
  "base64_ref decode c (xs @ ys) = resumed (base64_ref decode c xs) (\<lambda>c. base64_ref decode c ys)"
  by (induction decode c xs rule: base64_ref.induct) (auto split: option.splits)

lemma octets_ref_append:
  "octets_ref q (xs @ ys) = resumed (octets_ref q xs) (\<lambda>q. octets_ref q ys)"
  by (induction q xs rule: octets_ref.induct) (auto split: option.splits)

lemma raw_ref_append:
  "raw_ref c (xs @ ys) = (case raw_ref c xs of (c', out) \<Rightarrow> apsnd ((@) out) (raw_ref c' ys))"
  by (induction c xs rule: raw_ref.induct) (auto simp: apsnd_def map_prod_def Let_def split: prod.splits)

text \<open>What a whole transfer means. A lone carriage return at the end is data, padding before the end is not.\<close>

definition raw_tail :: "bytes \<times> bool \<Rightarrow> bytes" where
  "raw_tail c = (if snd c then fst c @ [CR] else [])"

definition transfer_ref :: "(bytes \<Rightarrow> bytes option) \<Rightarrow> TransferEncoding \<Rightarrow> bytes \<Rightarrow> bytes option" where
  "transfer_ref decode e wire =
     (case e of
        Identity \<Rightarrow> Some wire
      | Base64 \<Rightarrow> decode (List.filter (\<lambda>b. \<not> is_ascii_whitespace b) wire)
      | QuotedPrintable \<Rightarrow>
          (case octets_ref [] (snd (raw_ref ([], False) wire) @ raw_tail (fst (raw_ref ([], False) wire))) of
             Some ([], out) \<Rightarrow> Some out | _ \<Rightarrow> None))"

section \<open>Runs\<close>

datatype DecoderEvent = Push bytes | Take nat

fun transfer_run :: "(bytes \<Rightarrow> bytes option) \<Rightarrow> ImapLimits \<Rightarrow> DecoderEvent list \<Rightarrow> Decoder \<Rightarrow> bytes list imap \<times> Decoder" where
  "transfer_run decode l [] d = (Inr [], d)"
| "transfer_run decode l (Push wire # es) d =
     (case decoder_push decode l wire d of (Inl e, d') \<Rightarrow> (Inl e, d') | (Inr _, d') \<Rightarrow> transfer_run decode l es d')"
| "transfer_run decode l (Take n # es) d =
     (case take_chunk n d of (page, d') \<Rightarrow>
        case transfer_run decode l es d' of (Inl e, d'') \<Rightarrow> (Inl e, d'') | (Inr pages, d'') \<Rightarrow> (Inr (page # pages), d''))"

fun pushed :: "DecoderEvent list \<Rightarrow> bytes" where
  "pushed [] = []"
| "pushed (Push wire # es) = wire @ pushed es"
| "pushed (Take n # es) = pushed es"

end
