(* ===== verification/Decoding.thy ===== *)
theory Decoding
  imports Decoder
begin

text \<open>
  Correctness of the transfer decoder (\<open>src/src/imap/attachment/decoder.rs\<close>): every step of the
  decoder is a step of the reference decoders of \<open>Decoder\<close>, and what it keeps is bounded.
\<close>

section \<open>The decoder refines the reference\<close>

text \<open>
  \<open>writes d out d'\<close>: the unread output has grown by \<open>out\<close>, and what was taken is untouched.
\<close>

definition unread :: "Decoder \<Rightarrow> bytes" where
  "unread d = drop (dec_pending_offset d) (dec_pending d)"

definition writes :: "Decoder \<Rightarrow> bytes \<Rightarrow> Decoder \<Rightarrow> bool" where
  "writes d out d' \<longleftrightarrow> dec_encoding d' = dec_encoding d \<and> dec_pending d' = dec_pending d @ out
     \<and> dec_pending_offset d' = dec_pending_offset d \<and> dec_offset d' = dec_offset d \<and> dec_digest d' = dec_digest d
     \<and> dec_steps d' = dec_steps d"

definition carry :: "Decoder \<Rightarrow> bytes \<times> bool \<times> bytes \<times> bytes \<times> bool" where
  "carry d = (dec_base64 d, dec_padded d, dec_quoted d, dec_whitespace d, dec_carriage_return d)"

lemma writes_refl [simp]: "writes d [] d"
  by (simp add: writes_def)

lemma writes_trans: "writes d a d1 \<Longrightarrow> writes d1 b d2 \<Longrightarrow> writes d (a @ b) d2"
  by (simp add: writes_def)

lemma account_state_sel [simp]:
  "writes d out (account_state d') \<longleftrightarrow> writes d out d'" "carry (account_state d) = carry d"
  "dec_base64 (account_state d) = dec_base64 d" "dec_padded (account_state d) = dec_padded d"
  "dec_quoted (account_state d) = dec_quoted d" "dec_whitespace (account_state d) = dec_whitespace d"
  "dec_carriage_return (account_state d) = dec_carriage_return d" "dec_pending (account_state d) = dec_pending d"
  by (simp_all add: account_state_def writes_def carry_def)

lemma then_decode_Inr [simp]:
  "then_decode m k d = (Inr u, d'') \<longleftrightarrow> (\<exists>d'. m d = (Inr (), d') \<and> k d' = (Inr u, d''))"
  by (auto simp: then_decode_def split: prod.splits sum.splits)

lemma then_decode_Inl:
  "then_decode m k d = (Inl e, d'') \<longleftrightarrow> m d = (Inl e, d'') \<or> (\<exists>d'. m d = (Inr (), d') \<and> k d' = (Inl e, d''))"
  by (auto simp: then_decode_def split: prod.splits sum.splits)

lemma append_Inr:
  "decoder_append l bs d = (Inr u, d') \<Longrightarrow> writes d bs d' \<and> carry d' = carry d"
  by (auto simp: decoder_append_def writes_def carry_def account_state_def split: option.splits if_splits)

lemma append_Inl: "decoder_append l bs d = (Inl e, d') \<Longrightarrow> e = ImapLimit"
  by (auto simp: decoder_append_def split: option.splits if_splits)


subsection \<open>Base64\<close>

lemma letter_codes: "ord CHR ''+'' = 43" "ord CHR ''/'' = 47"
  by code_simp+

lemma letter_not_whitespace: "base64_letter b \<Longrightarrow> \<not> is_ascii_whitespace b"
  by (auto simp: base64_letter_def is_ascii_whitespace_def is_ascii_alphanumeric_def is_ascii_digit_def
      is_ascii_upper_def is_ascii_lower_def letter_codes)

lemma base64_letters:
  assumes "base64_ok decode" and "list_all base64_letter xs" and "length xs = g * 4"
  shows "\<exists>out. decode xs = Some out \<and> length out = g * 3
    \<and> (\<forall>rest. base64_ref decode ([], False) (xs @ rest) = prefixed out (base64_ref decode ([], False) rest))"
  using assms(2,3)
proof (induction g arbitrary: xs)
  case 0
  with assms(1) show ?case by (simp add: base64_ok_def)
next
  case (Suc g)
  define q ys where "q = take 4 xs" and "ys = drop 4 xs"
  have xs: "xs = q @ ys" "length q = 4" "length ys = g * 4"
    using Suc.prems(2) by (simp_all add: q_def ys_def)
  then have letters: "list_all base64_letter q" "list_all base64_letter ys"
    using Suc.prems(1) by simp_all
  obtain out where out: "decode q = Some out" "length out = 3"
    using assms(1) letters(1) xs(2) by (auto simp: base64_ok_def)
  obtain a b c e where q: "q = [a, b, c, e]"
    using xs(2) by (auto simp: numeral_eq_Suc length_Suc_conv)
  have step: "base64_ref decode ([], False) (q @ rest) = prefixed out (base64_ref decode ([], False) rest)" for rest
    using letters(1) out letter_not_whitespace unfolding q by simp
  obtain out' where rest: "decode ys = Some out'" "length out' = g * 3"
    "\<forall>rest. base64_ref decode ([], False) (ys @ rest) = prefixed out' (base64_ref decode ([], False) rest)"
    using Suc.IH [OF letters(2) xs(3)] by blast
  have "decode xs = Some (out @ out')"
    using assms(1) xs out rest(1) by (cases "ys = []") (auto simp: base64_ok_def)
  with out rest step show ?case by (simp add: xs(1))
qed

definition base64_view :: "Decoder \<Rightarrow> bytes \<times> bool" where
  "base64_view d = (dec_base64 d, dec_padded d)"

definition quoted_view :: "Decoder \<Rightarrow> bytes \<times> bytes \<times> bool" where
  "quoted_view d = (dec_quoted d, dec_whitespace d, dec_carriage_return d)"

lemma carry_views: "carry d' = carry d \<longleftrightarrow> base64_view d' = base64_view d \<and> quoted_view d' = quoted_view d"
  by (auto simp: carry_def base64_view_def quoted_view_def)

lemma base64_byte_Inr:
  assumes "base64_byte decode l b d = (Inr u, d')"
  shows "\<exists>out. base64_ref decode (base64_view d) [b] = Some (base64_view d', out) \<and> writes d out d' \<and> quoted_view d' = quoted_view d"
proof (cases "is_ascii_whitespace b \<or> length (dec_base64 d) \<noteq> 3")
  case True
  with assms show ?thesis
    by (auto simp: base64_byte_def base64_view_def quoted_view_def writes_def account_state_def Let_def split: if_splits)
next
  case False
  with assms obtain out d1 where b: "\<not> dec_padded d" "base64_letter b \<or> b = CHR ''=''"
    and out: "decode (dec_base64 d @ [b]) = Some out" "\<not> length out > 3"
    and a: "decoder_append l out (d\<lparr>dec_base64 := dec_base64 d @ [b]\<rparr>) = (Inr (), d1)"
    and d': "d' = account_state (d1\<lparr>dec_padded := length out < 3, dec_base64 := []\<rparr>)"
    by (auto simp: base64_byte_def Let_def split: if_splits option.splits)
  have "writes d out d'" "quoted_view d' = quoted_view d"
    using append_Inr [OF a] by (auto simp: d' writes_def carry_def quoted_view_def account_state_def)
  with False b out show ?thesis by (auto simp: d' base64_view_def)
qed

lemma base64_byte_Inl:
  assumes "base64_byte decode l b d = (Inl e, d')"
  shows "e = ImapLimit \<or> e = ImapProtocol \<and> base64_ref decode (base64_view d) [b] = None"
  using assms
  by (auto simp: base64_byte_def base64_view_def then_decode_Inl Let_def dest!: append_Inl split: if_splits option.splits)

lemma base64_run_Inr:
  assumes "base64_ok decode" and "base64_run decode l wire d = (r, d')"
  shows "(\<exists>e. r = Inl e \<and> e = ImapLimit) \<or> (r = Inr 0 \<and> d' = d)
    \<or> (\<exists>n out. r = Inr n \<and> 0 < n \<and> n \<le> length wire \<and> writes d out d' \<and> carry d' = carry d
        \<and> (\<forall>rest. base64_ref decode ([], False) (take n wire @ rest) = prefixed out (base64_ref decode ([], False) rest)))"
proof -
  define groups where "groups = length (takeWhile base64_letter wire) div 4"
  have letters: "list_all base64_letter (take (g * 4) wire)" "length (take (g * 4) wire) = g * 4" if "g \<le> groups" for g
  proof -
    have "g * 4 \<le> length (takeWhile base64_letter wire)" using that by (auto simp: groups_def)
    then have "take (g * 4) wire = take (g * 4) (takeWhile base64_letter wire)"
      by (metis takeWhile_eq_take take_take min.absorb1)
    then show "list_all base64_letter (take (g * 4) wire)"
      by (metis in_set_takeD list_all_iff set_takeWhileD)
    show "length (take (g * 4) wire) = g * 4"
      using \<open>g * 4 \<le> length (takeWhile base64_letter wire)\<close> length_takeWhile_le le_trans by fastforce
  qed
  show ?thesis
  proof (cases "checked_add (dec_offset d) (pending_len d)")
    case None
    with assms(2) show ?thesis by (simp add: base64_run_def Let_def)
  next
    case (Some used)
    define g where "g = min groups (min (il_attachment_decoded_bytes l - used) (state_limit l - retained_bytes d - 4) div 3)"
    have run: "base64_run decode l wire d =
      (if g < 2 then (Inr 0, d)
       else case decode (take (g * 4) wire) of
           None \<Rightarrow> (Inl ImapProtocol, d\<lparr>dec_pending := dec_pending d @ replicate (g * 3) CHR 0x00\<rparr>)
         | Some out \<Rightarrow>
             if length out > g * 3 then (Inl ImapProtocol, d\<lparr>dec_pending := dec_pending d @ replicate (g * 3) CHR 0x00\<rparr>)
             else (Inr (g * 4),
               account_state (d\<lparr>dec_pending := dec_pending d @ out @ replicate (g * 3 - length out) CHR 0x00\<rparr>)))"
      by (simp only: base64_run_def Let_def Some option.case g_def groups_def)
    show ?thesis
    proof (cases "g < 2")
      case True
      with assms(2) run show ?thesis by simp
    next
      case False
      obtain out where out: "decode (take (g * 4) wire) = Some out" "length out = g * 3"
        "\<forall>rest. base64_ref decode ([], False) (take (g * 4) wire @ rest) = prefixed out (base64_ref decode ([], False) rest)"
        using base64_letters [OF assms(1) letters(1,2)] by (metis g_def min.cobounded1)
      have "r = Inr (g * 4)" "d' = account_state (d\<lparr>dec_pending := dec_pending d @ out\<rparr>)"
        using assms(2) False out(1,2) by (simp_all add: run)
      moreover have "g * 4 \<le> length wire"
        using letters(2) [of g] by (metis g_def length_take min.cobounded1)
      ultimately show ?thesis
        using out(3) False by (intro disjI2 exI [of _ "g * 4"] exI [of _ out]) (simp add: writes_def carry_def account_state_def)
    qed
  qed
qed

lemma base64_push_Inr:
  assumes "base64_ok decode"
  shows "base64_push decode l wire d = (Inr u, d') \<Longrightarrow>
      \<exists>out. base64_ref decode (base64_view d) wire = Some (base64_view d', out) \<and> writes d out d' \<and> quoted_view d' = quoted_view d"
  using assms
proof (induction decode l wire d rule: base64_push.induct)
  case (1 decode l d)
  then show ?case by simp
next
  case (2 decode l b wire d)
  let ?run = "if dec_base64 d = [] \<and> \<not> dec_padded d then base64_run decode l (b # wire) d else (Inr 0, d)"
  obtain n d1 where run: "?run = (Inr n, d1)"
    using "2.prems"(1) by (auto split: prod.splits sum.splits)
  show ?case
  proof (cases "n = 0")
    case True
    have d1: "d1 = d"
      using run True base64_run_Inr [OF "2.prems"(2), of l "b # wire" d] by (auto split: if_splits)
    obtain d2 where byte: "base64_byte decode l b d = (Inr (), d2)" and rest: "base64_push decode l wire d2 = (Inr u, d')"
      using "2.prems"(1) run by (auto simp: True d1)
    obtain a where a: "base64_ref decode (base64_view d) [b] = Some (base64_view d2, a)" "writes d a d2" "quoted_view d2 = quoted_view d"
      using base64_byte_Inr [OF byte] by blast
    obtain c where c: "base64_ref decode (base64_view d2) wire = Some (base64_view d', c)" "writes d2 c d'" "quoted_view d' = quoted_view d2"
      using "2.IH"(2) [OF run [symmetric] refl] True rest "2.prems"(2) byte d1 by blast
    have "base64_ref decode (base64_view d) (b # wire) = Some (base64_view d', a @ c)"
      using base64_ref_append [of decode "base64_view d" "[b]" wire] a(1) c(1) by simp
    with writes_trans [OF a(2) c(2)] a(3) c(3) show ?thesis by auto
  next
    case False
    then have fresh: "dec_base64 d = []" "\<not> dec_padded d" and r: "base64_run decode l (b # wire) d = (Inr n, d1)"
      using run by (auto split: if_splits)
    obtain a where a: "writes d a d1" "carry d1 = carry d"
      "\<forall>rest. base64_ref decode ([], False) (take n (b # wire) @ rest) = prefixed a (base64_ref decode ([], False) rest)"
      using base64_run_Inr [OF "2.prems"(2) r] False by auto
    have rest: "base64_push decode l (drop n (b # wire)) d1 = (Inr u, d')"
      using "2.prems"(1) False by (simp only: base64_push.simps run) simp
    obtain c where c: "base64_ref decode (base64_view d1) (drop n (b # wire)) = Some (base64_view d', c)"
      "writes d1 c d'" "quoted_view d' = quoted_view d1"
      using "2.IH"(1) [OF run [symmetric] refl False rest "2.prems"(2)] by blast
    have view: "base64_view d = ([], False)" "base64_view d1 = ([], False)" "quoted_view d1 = quoted_view d"
      using fresh a(2) by (simp_all add: carry_views base64_view_def)
    have "base64_ref decode (base64_view d) (b # wire) = Some (base64_view d', a @ c)"
      using a(3) [rule_format, of "drop n (b # wire)"] c(1) by (simp add: view)
    with writes_trans [OF a(1) c(2)] c(3) view show ?thesis by auto
  qed
qed

lemma base64_push_Inl:
  assumes "base64_ok decode"
  shows "base64_push decode l wire d = (Inl e, d') \<Longrightarrow> e = ImapLimit \<or> e = ImapProtocol \<and> base64_ref decode (base64_view d) wire = None"
  using assms
proof (induction decode l wire d rule: base64_push.induct)
  case (1 decode l d)
  then show ?case by simp
next
  case (2 decode l b wire d)
  let ?run = "if dec_base64 d = [] \<and> \<not> dec_padded d then base64_run decode l (b # wire) d else (Inr 0, d)"
  obtain r d1 where run: "?run = (r, d1)" by force
  show ?case
  proof (cases r)
    case (Inl e')
    then have "base64_run decode l (b # wire) d = (Inl e', d1)" "e = e'"
      using run "2.prems"(1) by (auto split: if_splits)
    then show ?thesis using base64_run_Inr [OF "2.prems"(2)] by force
  next
    case (Inr n)
    show ?thesis
    proof (cases "n = 0")
      case True
      have d1: "d1 = d"
        using run Inr True base64_run_Inr [OF "2.prems"(2), of l "b # wire" d] by (auto split: if_splits)
      have step: "then_decode (base64_byte decode l b) (base64_push decode l wire) d = (Inl e, d')"
        using "2.prems"(1) run by (auto simp: Inr True d1)
      show ?thesis
      proof (cases "base64_byte decode l b d = (Inl e, d')")
        case True
        then show ?thesis
          using base64_byte_Inl [OF True] base64_ref_append [of decode "base64_view d" "[b]" wire] by auto
      next
        case False
        then obtain d2 where byte: "base64_byte decode l b d = (Inr (), d2)" and rest: "base64_push decode l wire d2 = (Inl e, d')"
          using step by (auto simp: then_decode_Inl)
        show ?thesis
          using base64_byte_Inr [OF byte] base64_ref_append [of decode "base64_view d" "[b]" wire] "2.IH"(2) [OF run [symmetric] Inr]
            True rest byte d1 "2.prems"(2) \<open>n = 0\<close> by fastforce
      qed
    next
      case False
      then have fresh: "dec_base64 d = []" "\<not> dec_padded d" and r: "base64_run decode l (b # wire) d = (Inr n, d1)"
        using run Inr by (auto split: if_splits)
      obtain a where a: "writes d a d1" "carry d1 = carry d"
        "\<forall>rest. base64_ref decode ([], False) (take n (b # wire) @ rest) = prefixed a (base64_ref decode ([], False) rest)"
        using base64_run_Inr [OF "2.prems"(2) r] False by auto
      have rest: "base64_push decode l (drop n (b # wire)) d1 = (Inl e, d')"
        using "2.prems"(1) False by (simp only: base64_push.simps run Inr) simp
      have view: "base64_view d = ([], False)" "base64_view d1 = ([], False)"
        using fresh a(2) by (simp_all add: carry_views base64_view_def)
      from "2.IH"(1) [OF run [symmetric] Inr False rest "2.prems"(2)] show ?thesis
        using a(3) [rule_format, of "drop n (b # wire)"] by (auto simp: view)
    qed
  qed
qed

subsection \<open>Quoted-printable\<close>

definition raw_view :: "Decoder \<Rightarrow> bytes \<times> bool" where
  "raw_view d = (dec_whitespace d, dec_carriage_return d)"

text \<open>
  \<open>octets_run d bs c r\<close>: the result \<open>r\<close> of a step from \<open>d\<close> is the reading of the octets \<open>bs\<close>, after
  which the undecided line prefix is \<open>c\<close>; a failure is a limit, or the reference rejects the octets.
\<close>

fun octets_run :: "Decoder \<Rightarrow> bytes \<Rightarrow> bytes \<times> bool \<Rightarrow> unit imap \<times> Decoder \<Rightarrow> bool" where
  "octets_run d bs c (Inl e, d') \<longleftrightarrow> e = ImapLimit \<or> e = ImapProtocol \<and> octets_ref (dec_quoted d) bs = None"
| "octets_run d bs c (Inr u, d') \<longleftrightarrow> raw_view d' = c \<and> base64_view d' = base64_view d
     \<and> (\<exists>out. octets_ref (dec_quoted d) bs = Some (dec_quoted d', out) \<and> writes d out d')"

lemma octets_run_then:
  assumes "octets_run d xs c (m d)" and "\<And>d1. m d = (Inr (), d1) \<Longrightarrow> raw_view d1 = c \<Longrightarrow> octets_run d1 ys c' (k d1)"
  shows "octets_run d (xs @ ys) c' (then_decode m k d)"
proof -
  obtain r d1 where m: "m d = (r, d1)" by force
  show ?thesis
  proof (cases r)
    case (Inl e)
    with assms(1) m show ?thesis by (auto simp: then_decode_def octets_ref_append)
  next
    case (Inr u)
    obtain r' d2 where k: "k d1 = (r', d2)" by force
    have "octets_run d1 ys c' (r', d2)" using assms m Inr k by auto
    then show ?thesis
      using assms(1) m Inr k by (cases r') (auto simp: then_decode_def octets_ref_append dest: writes_trans)
  qed
qed

lemma octets_run_pending [simp]:
  "octets_run (d\<lparr>dec_whitespace := ws\<rparr>) bs c r = octets_run d bs c r"
  "octets_run (d\<lparr>dec_carriage_return := cr\<rparr>) bs c r = octets_run d bs c r"
  by (cases "(d, bs, c, r)" rule: octets_run.cases; simp add: writes_def base64_view_def)+

lemma quoted_octet_run: "octets_run d [b] (raw_view d) (quoted_octet l b d)"
proof (cases "dec_quoted d = [] \<and> b \<noteq> CHR ''='' \<or> length (dec_quoted d) = 2")
  case True
  obtain r d' where r: "quoted_octet l b d = (r, d')" by force
  show ?thesis
    using True r unfolding quoted_octet_def
    by (cases r) (auto simp: Let_def nth_append raw_view_def base64_view_def writes_def carry_def
        dest!: append_Inr append_Inl split: if_splits option.splits)
next
  case False
  then show ?thesis by (auto simp: quoted_octet_def Let_def raw_view_def base64_view_def writes_def)
qed

lemma quoted_octets_run: "octets_run d bs (raw_view d) (quoted_octets l bs d)"
proof (induction bs arbitrary: d)
  case (Cons b bs)
  have "octets_run d ([b] @ bs) (raw_view d) (then_decode (quoted_octet l b) (quoted_octets l bs) d)"
    by (rule octets_run_then [OF quoted_octet_run]) (metis Cons.IH)
  then show ?case by simp
qed (simp add: raw_view_def base64_view_def)

lemma flush_run:
  "octets_run d (dec_whitespace d @ (if dec_carriage_return d then [CR] else [])) ([], False) (flush_raw_prefix l d)"
proof -
  have "octets_run (d\<lparr>dec_whitespace := []\<rparr>) (dec_whitespace d @ (if dec_carriage_return d then [CR] else [])) ([], False)
      (flush_raw_prefix l d)"
    unfolding flush_raw_prefix_def
  proof (rule octets_run_then [OF quoted_octets_run])
    fix d1 assume "raw_view d1 = raw_view (d\<lparr>dec_whitespace := []\<rparr>)"
    then show "octets_run d1 (if dec_carriage_return d then [CR] else []) ([], False)
        (if dec_carriage_return d1 then quoted_octet l CR (d1\<lparr>dec_carriage_return := False\<rparr>) else (Inr (), d1))"
      using quoted_octet_run [of "d1\<lparr>dec_carriage_return := False\<rparr>" CR l]
      by (auto simp: raw_view_def base64_view_def)
  qed
  then show ?thesis by simp
qed

lemma octet_codes: "CR \<noteq> CHR '' ''" "CR \<noteq> CHR 0x09" "LF \<noteq> CHR '' ''" "LF \<noteq> CHR 0x09" "CR \<noteq> LF"
  by simp_all

lemma raw_byte_run:
  assumes "\<not> dec_carriage_return d"
  shows "octets_run d (snd (raw_ref (raw_view d) [b])) (fst (raw_ref (raw_view d) [b])) (raw_byte l b d)"
proof -
  have lf: "octets_run d [LF] ([], False) (quoted_octet l LF (d\<lparr>dec_whitespace := []\<rparr>))"
    using quoted_octet_run [of "d\<lparr>dec_whitespace := []\<rparr>" LF l] assms by (simp add: raw_view_def)
  have other: "octets_run d (dec_whitespace d @ [b]) ([], False) (then_decode (flush_raw_prefix l) (quoted_octet l b) d)"
    using flush_run [of d l] assms by (auto intro: octets_run_then) (metis octets_run_then quoted_octet_run)
  show ?thesis
    using assms lf other by (auto simp: raw_byte_def raw_view_def is_padding_def base64_view_def writes_def)
qed

lemma raw_quoted_printable_run:
  "octets_run d (snd (raw_ref (raw_view d) [b])) (fst (raw_ref (raw_view d) [b])) (raw_quoted_printable l b d)"
proof (cases "dec_carriage_return d")
  case False
  then show ?thesis using raw_byte_run [OF False, of b l] by (simp add: raw_quoted_printable_def)
next
  case True
  show ?thesis
  proof (cases "b = LF")
    case True
    define d0 where "d0 = d\<lparr>dec_whitespace := [], dec_carriage_return := False\<rparr>"
    have "octets_run d0 ([CR] @ [LF]) ([], False) (then_decode (quoted_octet l CR) (quoted_octet l LF) d0)"
    proof (rule octets_run_then)
      show "octets_run d0 [CR] ([], False) (quoted_octet l CR d0)"
        using quoted_octet_run [of d0 CR l] by (simp add: d0_def raw_view_def)
      show "octets_run d1 [LF] ([], False) (quoted_octet l LF d1)" if "raw_view d1 = ([], False)" for d1
        using quoted_octet_run [of d1 LF l] that by simp
    qed
    then show ?thesis
      using \<open>dec_carriage_return d\<close> True by (simp add: raw_quoted_printable_def d0_def raw_view_def)
  next
    case False
    define xs where "xs = dec_whitespace d @ [CR]"
    have "octets_run d (xs @ snd (raw_ref ([], False) [b])) (fst (raw_ref ([], False) [b]))
        (then_decode (flush_raw_prefix l) (raw_byte l b) d)"
    proof (rule octets_run_then)
      show "octets_run d xs ([], False) (flush_raw_prefix l d)"
        using flush_run [of d l] \<open>dec_carriage_return d\<close> by (simp add: xs_def)
      show "octets_run d1 (snd (raw_ref ([], False) [b])) (fst (raw_ref ([], False) [b])) (raw_byte l b d1)"
        if "raw_view d1 = ([], False)" for d1
        using raw_byte_run [of d1 b l] that by (simp add: raw_view_def)
    qed
    then show ?thesis
      using \<open>dec_carriage_return d\<close> False
      by (auto simp: raw_quoted_printable_def xs_def raw_view_def split: if_splits)
  qed
qed

lemma raw_view_account [simp]: "raw_view (account_state d) = raw_view d"
  by (simp add: raw_view_def)

lemma account_run [simp]:
  "octets_run d bs c (Inr u, account_state d') = octets_run d bs c (Inr u, d')"
  "octets_run (account_state d) bs c r = octets_run d bs c r"
proof -
  show "octets_run d bs c (Inr u, account_state d') = octets_run d bs c (Inr u, d')"
    by (simp add: base64_view_def)
  show "octets_run (account_state d) bs c r = octets_run d bs c r"
    by (cases "(d, bs, c, r)" rule: octets_run.cases) (auto simp: writes_def base64_view_def account_state_def)
qed

lemma raw_ref_ordinary: "list_all ordinary xs \<Longrightarrow> raw_ref ([], False) (xs @ ys) = apsnd ((@) xs) (raw_ref ([], False) ys)"
  by (induction xs) (auto simp: ordinary_def apsnd_def map_prod_def split: prod.splits)

lemma octets_ref_ordinary: "list_all ordinary xs \<Longrightarrow> octets_ref [] xs = Some ([], xs)"
  by (induction xs) (auto simp: ordinary_def)

lemma octets_run_limit [simp]: "octets_run d bs c (Inl ImapLimit, d')"
  by simp

lemma octets_run_plain:
  assumes "dec_quoted d = []" and "list_all ordinary xs"
  shows "octets_run d xs (raw_view d) (if xs \<noteq> [] then decoder_append l xs d else (Inr (), d))"
proof (cases "decoder_append l xs d")
  case (Pair r d')
  then show ?thesis
    using assms octets_ref_ordinary [OF assms(2)]
    by (cases r) (auto simp: raw_view_def base64_view_def carry_def dest!: append_Inr append_Inl)
qed

lemma run_cases_then:
  "(case m d of (Inl e, d') \<Rightarrow> (Inl e, d') | (Inr _, d') \<Rightarrow> k d') = then_decode m k d"
  by (simp add: then_decode_def)

lemma raw_ref_snoc:
  "snd (raw_ref c (xs @ ys)) = snd (raw_ref c xs) @ snd (raw_ref (fst (raw_ref c xs)) ys)"
  "fst (raw_ref c (xs @ ys)) = fst (raw_ref (fst (raw_ref c xs)) ys)"
  by (simp_all add: raw_ref_append split: prod.splits)

lemma quoted_push_run:
  "octets_run d (snd (raw_ref (raw_view d) wire)) (fst (raw_ref (raw_view d) wire)) (quoted_push l wire d)"
proof (induction l wire d rule: quoted_push.induct)
  case (1 l d)
  then show ?case by (simp add: base64_view_def)
next
  case (2 l b wire d)
  let ?w = "b # wire" and ?plain = "dec_quoted d = [] \<and> dec_whitespace d = [] \<and> \<not> dec_carriage_return d \<and> ordinary b"
  show ?case
  proof (cases ?plain)
    case True
    define len where "len = length (takeWhile ordinary ?w)"
    define available where "available = min (il_attachment_decoded_bytes l - (dec_offset d + pending_len d)) (state_limit l - retained_bytes d)"
    define count where "count = min len available"
    define m where "m = (\<lambda>d. if count \<noteq> 0 then decoder_append l (take count ?w) d else (Inr (), d))"
    define k where "k = (\<lambda>d'. if count \<noteq> len then (Inl ImapLimit, d') else quoted_push l (drop count ?w) d')"
    have plain: "list_all ordinary (take count ?w)"
    proof -
      have "take count ?w = take count (takeWhile ordinary ?w)"
        unfolding count_def len_def by (metis min.cobounded1 takeWhile_eq_take take_take min.absorb1)
      then show ?thesis by (metis in_set_takeD list_all_iff set_takeWhileD)
    qed
    have push: "quoted_push l ?w d = then_decode m k d"
      unfolding quoted_push.simps(2) if_P [OF True] Let_def m_def k_def then_decode_def count_def available_def len_def
      by simp
    have c: "raw_view d = ([], False)" using True by (simp add: raw_view_def)
    have run: "octets_run d (take count ?w @ snd (raw_ref ([], False) (drop count ?w))) (fst (raw_ref ([], False) (drop count ?w)))
        (then_decode m k d)"
    proof (rule octets_run_then)
      show "octets_run d (take count ?w) ([], False) (m d)"
        using octets_run_plain [OF _ plain, of d l] True c by (auto simp: m_def)
      fix d1 assume m: "m d = (Inr (), d1)" and "raw_view d1 = ([], False)"
      moreover have "octets_run d1 (snd (raw_ref (raw_view d1) (drop count ?w))) (fst (raw_ref (raw_view d1) (drop count ?w)))
          (quoted_push l (drop count ?w) d1)" if "count = len"
        using "2.IH"(1) [OF True len_def available_def count_def _ refl] m that by (simp add: m_def)
      ultimately show "octets_run d1 (snd (raw_ref ([], False) (drop count ?w))) (fst (raw_ref ([], False) (drop count ?w))) (k d1)"
        by (simp add: k_def)
    qed
    have "raw_ref (raw_view d) ?w = apsnd ((@) (take count ?w)) (raw_ref ([], False) (drop count ?w))"
      using raw_ref_ordinary [OF plain, of "drop count ?w"] by (simp only: append_take_drop_id c)
    with run show ?thesis by (simp only: push snd_apsnd fst_apsnd)
  next
    case False
    have push: "quoted_push l ?w d = then_decode (raw_quoted_printable l b) (\<lambda>d'. quoted_push l wire (account_state d')) d"
      unfolding quoted_push.simps(2) if_not_P [OF False] by (simp add: then_decode_def)
    have "octets_run d (snd (raw_ref (raw_view d) [b]) @ snd (raw_ref (fst (raw_ref (raw_view d) [b])) wire))
       (fst (raw_ref (fst (raw_ref (raw_view d) [b])) wire))
       (then_decode (raw_quoted_printable l b) (\<lambda>d'. quoted_push l wire (account_state d')) d)"
    proof (rule octets_run_then [OF raw_quoted_printable_run])
      fix d1 assume r: "raw_quoted_printable l b d = (Inr (), d1)" and "raw_view d1 = fst (raw_ref (raw_view d) [b])"
      then show "octets_run d1 (snd (raw_ref (fst (raw_ref (raw_view d) [b])) wire)) (fst (raw_ref (fst (raw_ref (raw_view d) [b])) wire))
         (quoted_push l wire (account_state d1))"
        using "2.IH"(2) [OF False r [symmetric] refl]
        by (simp only: raw_view_account account_run)
    qed
    then show ?thesis
      using raw_ref_snoc [of "raw_view d" "[b]" wire] by (simp only: push append_Cons append_Nil)
  qed
qed

subsection \<open>Whole transfers\<close>

lemma base64_ref_filter: "base64_ref decode c (List.filter (\<lambda>b. \<not> is_ascii_whitespace b) wire) = base64_ref decode c wire"
  by (induction decode c wire rule: base64_ref.induct) (auto split: option.splits)

lemma base64_ref_padded: "bs \<noteq> [] \<Longrightarrow> list_all (\<lambda>b. \<not> is_ascii_whitespace b) bs \<Longrightarrow> base64_ref decode (q, True) bs = None"
  by (cases bs) auto

lemma base64_ref_quartet:
  assumes "base64_ok decode" and "length q = 4" and "list_all (\<lambda>b. \<not> is_ascii_whitespace b) q"
  shows "base64_ref decode ([], False) (q @ s) =
    (case decode q of None \<Rightarrow> None | Some out \<Rightarrow> prefixed out (base64_ref decode ([], length out < 3) s))"
proof -
  obtain a b c e where q: "q = [a, b, c, e]"
    using assms(2) by (auto simp: numeral_eq_Suc length_Suc_conv)
  have law: "\<And>out. decode q = Some out \<Longrightarrow> length out \<le> 3"
    "\<not> list_all (\<lambda>b. base64_letter b \<or> b = CHR ''='') q \<Longrightarrow> decode q = None"
    using assms(1,2) by (auto simp: base64_ok_def)
  show ?thesis
  proof (cases "list_all (\<lambda>b. base64_letter b \<or> b = CHR ''='') q")
    case True
    with assms(3) law(1) show ?thesis unfolding q by (auto split: option.splits)
  next
    case False
    with assms(3) law(2) show ?thesis unfolding q by auto
  qed
qed

definition completed :: "(('b list \<times> 'c) \<times> bytes) option \<Rightarrow> bytes option" where
  "completed r = (case r of Some (([], _), out) \<Rightarrow> Some out | _ \<Rightarrow> None)"

lemma completed_prefixed: "completed (prefixed out r) = map_option ((@) out) (completed r)"
  by (auto simp: completed_def prefixed_def split: option.splits list.splits)

lemma base64_ref_short:
  "length q + length xs < 4 \<Longrightarrow> list_all (\<lambda>b. \<not> is_ascii_whitespace b) xs \<Longrightarrow>
    base64_ref decode (q, False) xs = None \<or> base64_ref decode (q, False) xs = Some ((q @ xs, False), [])"
proof (induction xs arbitrary: q)
  case (Cons x xs)
  then show ?case using Cons.IH [of "q @ [x]"] by auto
qed simp

lemma base64_complete:
  assumes "base64_ok decode" and "list_all (\<lambda>b. \<not> is_ascii_whitespace b) xs"
  shows "decode xs = completed (base64_ref decode ([], False) xs)"
  using assms(2)
proof (induction "length xs" arbitrary: xs rule: less_induct)
  case less
  show ?case
  proof (cases "length xs < 4")
    case True
    have "xs \<noteq> [] \<Longrightarrow> length xs mod 4 \<noteq> 0" using True by auto
    then have "xs \<noteq> [] \<Longrightarrow> decode xs = None" using assms(1) by (auto simp: base64_ok_def)
    moreover have "decode [] = Some []" using assms(1) by (simp add: base64_ok_def)
    ultimately show ?thesis
      using base64_ref_short [of "[]" xs decode] True less.prems
      by (cases xs) (auto simp: completed_def)
  next
    case False
    define q s where "q = take 4 xs" and "s = drop 4 xs"
    have xs: "xs = q @ s" "length q = 4" "length s < length xs"
      using False by (auto simp: q_def s_def)
    have ws: "list_all (\<lambda>b. \<not> is_ascii_whitespace b) q" "list_all (\<lambda>b. \<not> is_ascii_whitespace b) s"
      using less.prems xs(1) by auto
    have ref: "base64_ref decode ([], False) xs =
        (case decode q of None \<Rightarrow> None | Some out \<Rightarrow> prefixed out (base64_ref decode ([], length out < 3) s))"
      using base64_ref_quartet [OF assms(1) xs(2) ws(1)] by (simp add: xs(1))
    have law: "\<And>out. decode q = Some out \<Longrightarrow> length out \<le> 3"
      "s \<noteq> [] \<Longrightarrow> decode (q @ s) = (case decode q of None \<Rightarrow> None
            | Some out \<Rightarrow> if length out = 3 then map_option ((@) out) (decode s) else None)"
      using assms(1) xs(2) by (auto simp: base64_ok_def)
    show ?thesis
    proof (cases "s = []")
      case True
      then show ?thesis using ref xs(1) by (simp add: completed_def split: option.splits)
    next
      case False
      have "decode s = completed (base64_ref decode ([], False) s)" by (rule less.hyps [OF xs(3) ws(2)])
      then show ?thesis
        using ref law base64_ref_padded [OF False ws(2), of decode "[]"] False
        by (auto simp: xs(1) completed_prefixed completed_def [of None] split: option.splits)
    qed
  qed
qed

definition whole :: "Decoder \<Rightarrow> bytes" where
  "whole d = dec_digest d @ unread d"

definition decoder_wf :: "Decoder \<Rightarrow> bool" where
  "decoder_wf d \<longleftrightarrow> dec_pending_offset d \<le> length (dec_pending d) \<and> dec_offset d = length (dec_digest d)"

text \<open>\<open>decoded decode W d\<close>: the decoder has read exactly the wire \<open>W\<close>.\<close>

definition decoded :: "(bytes \<Rightarrow> bytes option) \<Rightarrow> bytes \<Rightarrow> Decoder \<Rightarrow> bool" where
  "decoded decode W d \<longleftrightarrow>
     (case dec_encoding d of
        Identity \<Rightarrow> whole d = W
      | Base64 \<Rightarrow> base64_ref decode ([], False) W = Some (base64_view d, whole d)
      | QuotedPrintable \<Rightarrow> raw_view d = fst (raw_ref ([], False) W)
          \<and> octets_ref [] (snd (raw_ref ([], False) W)) = Some (dec_quoted d, whole d))"

lemma writes_whole: "writes d out d' \<Longrightarrow> decoder_wf d \<Longrightarrow> decoder_wf d' \<and> whole d' = whole d @ out"
  by (auto simp: writes_def decoder_wf_def whole_def unread_def)

lemma decoder_new_wf: "decoder_wf (decoder_new e)" "decoded decode [] (decoder_new e)"
  by (simp_all add: decoder_wf_def decoded_def decoder_new_def whole_def unread_def base64_view_def raw_view_def
      split: TransferEncoding.split)

lemma compact_views [simp]:
  "dec_encoding (compact_pending d) = dec_encoding d" "base64_view (compact_pending d) = base64_view d"
  "raw_view (compact_pending d) = raw_view d" "dec_quoted (compact_pending d) = dec_quoted d"
  "unread (compact_pending d) = unread d" "dec_digest (compact_pending d) = dec_digest d"
  "dec_pending_offset (compact_pending d) = 0" "dec_offset (compact_pending d) = dec_offset d"
  "dec_pending (compact_pending d) = unread d" "dec_steps (compact_pending d) = dec_steps d"
  by (simp_all add: compact_pending_def base64_view_def raw_view_def unread_def)

lemma compact_decoded: "decoder_wf d \<Longrightarrow> decoder_wf (compact_pending d)" "decoded decode W (compact_pending d) = decoded decode W d"
  by (simp_all add: decoder_wf_def decoded_def whole_def cong: TransferEncoding.case_cong)

lemma steps_views [simp]:
  "base64_view (dec_steps_update f d) = base64_view d" "raw_view (dec_steps_update f d) = raw_view d"
  "whole (dec_steps_update f d) = whole d" "decoder_wf (dec_steps_update f d) = decoder_wf d"
  "decoded decode W (dec_steps_update f d) = decoded decode W d"
  by (simp_all add: base64_view_def raw_view_def whole_def unread_def decoder_wf_def decoded_def
      cong: TransferEncoding.case_cong)

definition decoder_read :: "(bytes \<Rightarrow> bytes option) \<Rightarrow> ImapLimits \<Rightarrow> bytes \<Rightarrow> decode_step" where
  "decoder_read decode l wire d =
     (case dec_encoding d of Identity \<Rightarrow> decoder_append l wire d
      | Base64 \<Rightarrow> base64_push decode l wire d
      | QuotedPrintable \<Rightarrow> quoted_push l wire d)"

lemma push_cases:
  "decoder_push decode l wire d = (Inl ImapLimit, d)
   \<or> decoder_push decode l wire d = (Inl ImapLimit, d\<lparr>dec_steps := dec_steps d + length wire\<rparr>)
   \<or> dec_steps d + length wire \<le> il_decode_steps l
     \<and> decoder_push decode l wire d = decoder_read decode l wire (compact_pending (d\<lparr>dec_steps := dec_steps d + length wire\<rparr>))"
  by (auto simp: decoder_push_def decoder_read_def checked_add_def Let_def split: option.splits)

lemma read_decoded:
  assumes "base64_ok decode" and "decoder_wf d" and "decoded decode W d" and "decoder_read decode l wire d = (Inr u, d')"
  shows "decoder_wf d' \<and> decoded decode (W @ wire) d' \<and> dec_encoding d' = dec_encoding d \<and> dec_digest d' = dec_digest d
    \<and> dec_steps d' = dec_steps d"
proof (cases "dec_encoding d")
  case Identity
  then have w: "writes d wire d'" using assms(4) append_Inr by (simp add: decoder_read_def)
  then show ?thesis using writes_whole [OF w assms(2)] Identity assms(3) by (simp add: writes_def decoded_def)
next
  case Base64
  then obtain out where ref: "base64_ref decode (base64_view d) wire = Some (base64_view d', out)" and w: "writes d out d'"
    using assms(4) base64_push_Inr [OF assms(1), of l wire d u d'] by (simp add: decoder_read_def) blast
  then show ?thesis
    using writes_whole [OF w assms(2)] Base64 assms(3) base64_ref_append [of decode "([], False)" W wire]
    by (simp add: writes_def decoded_def)
next
  case QuotedPrintable
  then have "octets_run d (snd (raw_ref (raw_view d) wire)) (fst (raw_ref (raw_view d) wire)) (Inr u, d')"
    using assms(4) quoted_push_run [of d wire l] by (simp add: decoder_read_def)
  then obtain out where ref: "octets_ref (dec_quoted d) (snd (raw_ref (raw_view d) wire)) = Some (dec_quoted d', out)"
    and w: "writes d out d'" and raw: "raw_view d' = fst (raw_ref (raw_view d) wire)"
    by auto
  then show ?thesis
    using writes_whole [OF w assms(2)] QuotedPrintable assms(3)
      octets_ref_append [of "[]" "snd (raw_ref ([], False) W)" "snd (raw_ref (raw_view d) wire)"]
    by (simp add: writes_def decoded_def raw_ref_snoc)
qed

lemma transfer_ref_Base64:
  assumes "base64_ok decode"
  shows "transfer_ref decode Base64 wire = completed (base64_ref decode ([], False) wire)"
  using base64_complete [OF assms, of "List.filter (\<lambda>b. \<not> is_ascii_whitespace b) wire"]
  by (simp add: transfer_ref_def base64_ref_filter list_all_iff)

lemma octets_ref_reject: "octets_ref q xs = None \<Longrightarrow> octets_ref q (xs @ ys) = None"
  by (simp add: octets_ref_append)

lemma transfer_ref_rejects:
  assumes "octets_ref [] (snd (raw_ref ([], False) W)) = None"
  shows "transfer_ref decode QuotedPrintable (W @ later) = None"
  using octets_ref_reject [OF assms] by (simp add: transfer_ref_def raw_ref_snoc)

lemma read_fails:
  assumes "base64_ok decode" and "decoded decode W d" and "decoder_read decode l wire d = (Inl e, d')"
  shows "e = ImapLimit \<or> e = ImapProtocol \<and> transfer_ref decode (dec_encoding d) (W @ wire @ later) = None"
proof (cases "dec_encoding d")
  case Identity
  then show ?thesis using assms(3) append_Inl by (simp add: decoder_read_def)
next
  case Base64
  then have "e = ImapLimit \<or> e = ImapProtocol \<and> base64_ref decode (base64_view d) wire = None"
    using assms(3) base64_push_Inl [OF assms(1)] by (auto simp: decoder_read_def)
  then show ?thesis
    using Base64 assms(2) base64_ref_append [of decode "([], False)" W "wire @ later"] base64_ref_append [of decode _ wire later]
    by (auto simp: decoded_def transfer_ref_Base64 [OF assms(1)] completed_def)
next
  case QuotedPrintable
  then have "e = ImapLimit \<or> e = ImapProtocol \<and> octets_ref (dec_quoted d) (snd (raw_ref (raw_view d) wire)) = None"
    using assms(3) quoted_push_run [of d wire l] by (simp add: decoder_read_def)
  moreover have "octets_ref [] (snd (raw_ref ([], False) (W @ wire))) = None"
    if "octets_ref (dec_quoted d) (snd (raw_ref (raw_view d) wire)) = None"
    using QuotedPrintable assms(2) that by (simp add: decoded_def raw_ref_snoc octets_ref_append)
  ultimately show ?thesis
    using transfer_ref_rejects [of "W @ wire" decode later] QuotedPrintable by auto
qed

lemma push_decoded:
  assumes "base64_ok decode" and "decoder_wf d" and "decoded decode W d" and "decoder_push decode l wire d = (Inr u, d')"
  shows "decoder_wf d' \<and> decoded decode (W @ wire) d' \<and> dec_encoding d' = dec_encoding d \<and> dec_digest d' = dec_digest d
    \<and> dec_steps d' = dec_steps d + length wire \<and> dec_steps d' \<le> il_decode_steps l"
proof -
  let ?d = "compact_pending (d\<lparr>dec_steps := dec_steps d + length wire\<rparr>)"
  have "decoder_read decode l wire ?d = (Inr u, d')" "dec_steps d + length wire \<le> il_decode_steps l"
    using push_cases [of decode l wire d] assms(4) by auto
  then show ?thesis
    using read_decoded [OF assms(1), of ?d W l wire u d'] assms(2,3) by (simp add: compact_decoded)
qed

lemma push_fails:
  assumes "base64_ok decode" and "decoded decode W d" and "decoder_push decode l wire d = (Inl e, d')"
  shows "e = ImapLimit \<or> e = ImapProtocol \<and> transfer_ref decode (dec_encoding d) (W @ wire @ later) = None"
proof -
  let ?d = "compact_pending (d\<lparr>dec_steps := dec_steps d + length wire\<rparr>)"
  from push_cases [of decode l wire d] assms(3) have "e = ImapLimit \<or> decoder_read decode l wire ?d = (Inl e, d')"
    by auto
  then show ?thesis
    using read_fails [OF assms(1), of W ?d l wire e d' later] assms(2) by (auto simp: compact_decoded)
qed

lemma take_decoded:
  assumes "take_chunk n d = (page, d')" and "decoder_wf d"
  shows "decoder_wf d'" "decoded decode W d' = decoded decode W d" "dec_digest d' = dec_digest d @ page"
    "unread d = page @ unread d'" "dec_encoding d' = dec_encoding d" "length page \<le> n" "dec_steps d' = dec_steps d"
proof -
  have *: "page = take n (unread d) \<and> unread d' = drop n (unread d) \<and> dec_digest d' = dec_digest d @ page
      \<and> dec_offset d' = dec_offset d + length page \<and> dec_pending_offset d' \<le> length (dec_pending d')
      \<and> dec_encoding d' = dec_encoding d \<and> base64_view d' = base64_view d \<and> raw_view d' = raw_view d
      \<and> dec_quoted d' = dec_quoted d \<and> dec_steps d' = dec_steps d"
    using assms
    by (auto simp: take_chunk_def Let_def pending_len_def unread_def decoder_wf_def base64_view_def raw_view_def
        compact_pending_def add.commute split: if_splits)
  then show "decoder_wf d'" "dec_digest d' = dec_digest d @ page" "unread d = page @ unread d'" "dec_encoding d' = dec_encoding d"
    "length page \<le> n" "dec_steps d' = dec_steps d"
    using assms(2) by (auto simp: decoder_wf_def)
  from * have "whole d' = whole d" by (simp add: whole_def)
  with * show "decoded decode W d' = decoded decode W d"
    by (simp add: decoded_def cong: TransferEncoding.case_cong)
qed

lemma finish_run:
  "octets_run d (raw_tail (raw_view d)) ([], False)
     (if dec_carriage_return d then flush_raw_prefix l d else (Inr (), d\<lparr>dec_whitespace := []\<rparr>))"
proof (cases "dec_carriage_return d")
  case True
  then show ?thesis using flush_run [of d l] by (simp only: raw_tail_def raw_view_def fst_conv snd_conv if_True)
qed (simp add: raw_tail_def raw_view_def base64_view_def writes_def)

lemma finish_decoded:
  assumes "base64_ok decode" and "decoder_wf d" and "decoded decode W d" and "decoder_finish l d = (Inr u, d')"
  shows "decoder_wf d' \<and> transfer_ref decode (dec_encoding d) W = Some (whole d') \<and> dec_digest d' = dec_digest d
    \<and> dec_encoding d' = dec_encoding d"
proof (cases "dec_encoding d")
  case Identity
  with assms show ?thesis by (simp add: decoder_finish_def decoded_def transfer_ref_def)
next
  case Base64
  with assms show ?thesis
    by (auto simp: decoder_finish_def decoded_def transfer_ref_Base64 completed_def base64_view_def split: if_splits)
next
  case QuotedPrintable
  let ?raw = "raw_ref ([], False) W"
  have ref: "octets_ref [] (snd ?raw @ raw_tail (fst ?raw)) =
      prefixed (whole d) (octets_ref (dec_quoted d) (raw_tail (raw_view d)))"
    using QuotedPrintable assms(3) by (simp add: decoded_def octets_ref_append)
  define m where "m = (\<lambda>d. if dec_carriage_return d then flush_raw_prefix l d else (Inr (), d\<lparr>dec_whitespace := []\<rparr>))"
  have run: "octets_run d (raw_tail (raw_view d)) ([], False) (m d)"
    unfolding m_def by (rule finish_run)
  have "m d = (Inr (), d')" "dec_quoted d' = []"
    using assms(4) QuotedPrintable by (auto simp: decoder_finish_def m_def then_decode_def split: prod.splits sum.splits if_splits)
  with run obtain out where out: "octets_ref (dec_quoted d) (raw_tail (raw_view d)) = Some ([], out)" and w: "writes d out d'"
    by auto
  then show ?thesis
    using writes_whole [OF w assms(2)] QuotedPrintable ref by (simp add: transfer_ref_def writes_def)
qed

lemma finish_fails:
  assumes "base64_ok decode" and "decoded decode W d" and "decoder_finish l d = (Inl e, d')"
  shows "e = ImapLimit \<or> e = ImapProtocol \<and> transfer_ref decode (dec_encoding d) W = None"
proof (cases "dec_encoding d")
  case Identity
  with assms show ?thesis by (simp add: decoder_finish_def)
next
  case Base64
  with assms show ?thesis
    by (auto simp: decoder_finish_def decoded_def transfer_ref_Base64 completed_def base64_view_def split: if_splits list.splits)
next
  case QuotedPrintable
  let ?raw = "raw_ref ([], False) W"
  have ref: "octets_ref [] (snd ?raw @ raw_tail (fst ?raw)) =
      prefixed (whole d) (octets_ref (dec_quoted d) (raw_tail (raw_view d)))"
    using QuotedPrintable assms(2) by (simp add: decoded_def octets_ref_append)
  define m where "m = (\<lambda>d. if dec_carriage_return d then flush_raw_prefix l d else (Inr (), d\<lparr>dec_whitespace := []\<rparr>))"
  have run: "octets_run d (raw_tail (raw_view d)) ([], False) (m d)"
    unfolding m_def by (rule finish_run)
  have "m d = (Inl e, d') \<or> m d = (Inr (), d') \<and> dec_quoted d' \<noteq> [] \<and> e = ImapProtocol"
    using assms(3) QuotedPrintable by (auto simp: decoder_finish_def m_def then_decode_def split: prod.splits sum.splits if_splits)
  then show ?thesis
    using run ref QuotedPrintable by (auto simp: transfer_ref_def split: list.splits)
qed

lemma run_decoded:
  assumes "base64_ok decode" and "transfer_run decode l es d = (Inr pages, d')" and "decoder_wf d" and "decoded decode W d"
  shows "decoder_wf d' \<and> decoded decode (W @ pushed es) d' \<and> dec_encoding d' = dec_encoding d
    \<and> dec_digest d' = dec_digest d @ concat pages
    \<and> dec_steps d' = dec_steps d + length (pushed es) \<and> (dec_steps d \<le> il_decode_steps l \<longrightarrow> dec_steps d' \<le> il_decode_steps l)"
  using assms
proof (induction decode l es d arbitrary: W pages rule: transfer_run.induct)
  case (2 decode l wire es d)
  then obtain u d1 where push: "decoder_push decode l wire d = (Inr u, d1)" and run: "transfer_run decode l es d1 = (Inr pages, d')"
    by (auto split: prod.splits sum.splits)
  have d1: "decoder_wf d1 \<and> decoded decode (W @ wire) d1 \<and> dec_encoding d1 = dec_encoding d \<and> dec_digest d1 = dec_digest d
      \<and> dec_steps d1 = dec_steps d + length wire \<and> dec_steps d1 \<le> il_decode_steps l"
    using push_decoded [OF "2.prems"(1,3,4) push] .
  show ?case
    using "2.IH" [OF push [symmetric] refl "2.prems"(1) run, of "W @ wire"] d1 by simp
next
  case (3 decode l n es d)
  obtain page d1 where take: "take_chunk n d = (page, d1)" by force
  then obtain ps where run: "transfer_run decode l es d1 = (Inr ps, d')" and pages: "pages = page # ps"
    using "3.prems"(2) by (auto split: prod.splits sum.splits)
  note facts = take_decoded [OF take "3.prems"(3)]
  show ?case
    using "3.IH" [OF take [symmetric] "3.prems"(1) run facts(1), of W] "3.prems"(4) facts(2,3,5,7)
    by (auto simp: pages)
qed simp

lemma run_fails:
  assumes "base64_ok decode" and "transfer_run decode l es d = (Inl e, d')" and "decoder_wf d" and "decoded decode W d"
  shows "e = ImapLimit \<or> e = ImapProtocol \<and> transfer_ref decode (dec_encoding d) (W @ pushed es) = None"
  using assms
proof (induction decode l es d arbitrary: W rule: transfer_run.induct)
  case (2 decode l wire es d)
  show ?case
  proof (cases "decoder_push decode l wire d")
    case (Pair r d1)
    show ?thesis
    proof (cases r)
      case (Inl e')
      with "2.prems" Pair show ?thesis
        using push_fails [OF "2.prems"(1,4), of l wire e' d1 "pushed es"] by simp
    next
      case (Inr u)
      with "2.prems"(2) Pair have run: "transfer_run decode l es d1 = (Inl e, d')" by simp
      have d1: "decoder_wf d1 \<and> decoded decode (W @ wire) d1 \<and> dec_encoding d1 = dec_encoding d"
        using push_decoded [OF "2.prems"(1,3,4), of l wire u d1] Pair Inr by simp
      show ?thesis
        using "2.IH" [OF Pair [symmetric] Inr "2.prems"(1) run, of "W @ wire"] d1 by simp
    qed
  qed
next
  case (3 decode l n es d)
  obtain page d1 where take: "take_chunk n d = (page, d1)" by force
  then have run: "transfer_run decode l es d1 = (Inl e, d')"
    using "3.prems"(2) by (auto split: prod.splits sum.splits)
  note facts = take_decoded [OF take "3.prems"(3)]
  show ?case
    using "3.IH" [OF take [symmetric] "3.prems"(1) run facts(1), of W] "3.prems"(4) facts(2,5) by simp
qed simp

lemma run_takes:
  "transfer_run decode l (map Take sizes) d = (Inr pages, d') \<Longrightarrow> decoder_wf d \<Longrightarrow>
     decoder_wf d' \<and> dec_digest d' = dec_digest d @ concat pages \<and> whole d' = whole d"
proof (induction sizes arbitrary: d pages)
  case (Cons n sizes)
  obtain page d1 where take: "take_chunk n d = (page, d1)" by force
  then obtain ps where run: "transfer_run decode l (map Take sizes) d1 = (Inr ps, d')" and pages: "pages = page # ps"
    using Cons.prems(1) by (auto split: prod.splits sum.splits)
  note facts = take_decoded [OF take Cons.prems(2)]
  have "whole d1 = whole d" using facts(3,4) by (simp add: whole_def)
  then show ?case using Cons.IH [OF run facts(1)] facts(3) by (simp add: pages)
qed simp

subsection \<open>Bounds\<close>

definition retained :: "Decoder \<Rightarrow> nat" where
  "retained d = length (dec_pending d) + length (dec_base64 d) + length (dec_quoted d) + length (dec_whitespace d)
     + (if dec_carriage_return d then 1 else 0)"

definition decoder_bounded :: "ImapLimits \<Rightarrow> Decoder \<Rightarrow> bool" where
  "decoder_bounded l d \<longleftrightarrow> dec_pending_offset d \<le> length (dec_pending d) \<and> retained d \<le> state_limit l
     \<and> dec_offset d + pending_len d \<le> il_attachment_decoded_bytes l \<and> dec_max_state d \<le> state_limit l + 128"

lemma retained_bytes_exact: "retained d \<le> state_limit l \<Longrightarrow> retained_bytes d = retained d"
  by (simp add: retained_def retained_bytes_def state_limit_def saturating_add_def)

lemma account_bounded [simp]: "decoder_bounded l (account_state d) \<longleftrightarrow> decoder_bounded l d"
  by (auto simp: decoder_bounded_def account_state_def retained_def pending_len_def retained_bytes_exact saturating_add_def)

lemmas bounded_defs = decoder_bounded_def retained_def pending_len_def

lemma room:
  assumes "decoder_bounded l d" and "\<not> retained_bytes d \<ge> state_limit l"
  shows "retained d < state_limit l"
  using assms by (auto simp: decoder_bounded_def retained_bytes_exact)

lemma bounded_exact: "decoder_bounded l d \<Longrightarrow> retained_bytes d = retained d"
  using retained_bytes_exact [of d l] by (simp add: decoder_bounded_def)

lemma output_bounded:
  assumes "decoder_bounded l d" and "length xs \<le> state_limit l - retained_bytes d"
    and "length xs \<le> il_attachment_decoded_bytes l - (dec_offset d + pending_len d)"
  shows "decoder_bounded l (d\<lparr>dec_pending := dec_pending d @ xs\<rparr>)"
  using assms bounded_exact [OF assms(1)] by (auto simp: bounded_defs)

lemma append_bounded: "decoder_bounded l d \<Longrightarrow> decoder_bounded l (snd (decoder_append l bs d))"
  by (auto simp: decoder_append_def checked_add_def Let_def split: option.splits intro!: output_bounded)

lemma then_bounded:
  "decoder_bounded l (snd (m d)) \<Longrightarrow> (\<And>d. decoder_bounded l d \<Longrightarrow> decoder_bounded l (snd (k d)))
    \<Longrightarrow> decoder_bounded l (snd (then_decode m k d))"
  by (auto simp: then_decode_def split: prod.splits sum.splits)

lemma shrink_bounded [intro]:
  "decoder_bounded l d \<Longrightarrow> decoder_bounded l (d\<lparr>dec_base64 := []\<rparr>)"
  "decoder_bounded l d \<Longrightarrow> decoder_bounded l (d\<lparr>dec_padded := p\<rparr>)"
  "decoder_bounded l d \<Longrightarrow> decoder_bounded l (d\<lparr>dec_quoted := []\<rparr>)"
  "decoder_bounded l d \<Longrightarrow> decoder_bounded l (d\<lparr>dec_whitespace := []\<rparr>)"
  "decoder_bounded l d \<Longrightarrow> decoder_bounded l (d\<lparr>dec_carriage_return := False\<rparr>)"
  "decoder_bounded l d \<Longrightarrow> decoder_bounded l (d\<lparr>dec_steps := n\<rparr>)"
  by (auto simp: bounded_defs)

lemma grow_bounded [intro]:
  "decoder_bounded l d \<Longrightarrow> \<not> retained_bytes d \<ge> state_limit l \<Longrightarrow> decoder_bounded l (d\<lparr>dec_base64 := dec_base64 d @ [b]\<rparr>)"
  "decoder_bounded l d \<Longrightarrow> \<not> retained_bytes d \<ge> state_limit l \<Longrightarrow> decoder_bounded l (d\<lparr>dec_quoted := dec_quoted d @ [b]\<rparr>)"
  "decoder_bounded l d \<Longrightarrow> \<not> retained_bytes d \<ge> state_limit l \<Longrightarrow> decoder_bounded l (d\<lparr>dec_whitespace := dec_whitespace d @ [b]\<rparr>)"
  "decoder_bounded l d \<Longrightarrow> \<not> retained_bytes d \<ge> state_limit l \<Longrightarrow> decoder_bounded l (d\<lparr>dec_carriage_return := True\<rparr>)"
  by (frule (1) room; auto simp: bounded_defs split: if_splits)+

lemma base64_run_bounded:
  assumes "decoder_bounded l d"
  shows "decoder_bounded l (snd (base64_run decode l wire d))"
proof (cases "checked_add (dec_offset d) (pending_len d)")
  case None
  with assms show ?thesis by (simp add: base64_run_def Let_def)
next
  case (Some used)
  define available where "available = min (il_attachment_decoded_bytes l - used) (state_limit l - retained_bytes d - 4)"
  define g where "g = min (length (takeWhile base64_letter wire) div 4) (available div 3)"
  have "g * 3 \<le> available" unfolding g_def by (metis min.cobounded2 div_times_less_eq_dividend le_trans mult_le_mono1)
  moreover have "used = dec_offset d + pending_len d" using Some by (simp add: checked_add_def split: if_splits)
  ultimately have grown: "decoder_bounded l (d\<lparr>dec_pending := dec_pending d @ xs\<rparr>)" if "length xs = g * 3" for xs
    using assms that by (auto simp: available_def intro!: output_bounded)
  have run: "base64_run decode l wire d =
      (if g < 2 then (Inr 0, d)
       else case decode (take (g * 4) wire) of
           None \<Rightarrow> (Inl ImapProtocol, d\<lparr>dec_pending := dec_pending d @ replicate (g * 3) CHR 0x00\<rparr>)
         | Some out \<Rightarrow>
             if length out > g * 3 then (Inl ImapProtocol, d\<lparr>dec_pending := dec_pending d @ replicate (g * 3) CHR 0x00\<rparr>)
             else (Inr (g * 4),
               account_state (d\<lparr>dec_pending := dec_pending d @ out @ replicate (g * 3 - length out) CHR 0x00\<rparr>)))"
    by (simp only: base64_run_def Let_def Some option.case g_def available_def)
  show ?thesis
    using assms by (auto simp: run split: option.splits intro!: grown)
qed

lemma base64_byte_bounded: "decoder_bounded l d \<Longrightarrow> decoder_bounded l (snd (base64_byte decode l b d))"
  unfolding base64_byte_def Let_def
  by (auto split: option.splits intro!: then_bounded append_bounded shrink_bounded grow_bounded)

lemma base64_push_bounded: "decoder_bounded l d \<Longrightarrow> decoder_bounded l (snd (base64_push decode l wire d))"
proof (induction decode l wire d rule: base64_push.induct)
  case (2 decode l b wire d)
  let ?run = "if dec_base64 d = [] \<and> \<not> dec_padded d then base64_run decode l (b # wire) d else (Inr 0, d)"
  obtain r d1 where run: "?run = (r, d1)" by force
  have d1: "decoder_bounded l d1"
    using base64_run_bounded [OF "2.prems", of decode "b # wire"] "2.prems" run by (auto split: if_splits)
  show ?case
  proof (cases r)
    case (Inr n)
    show ?thesis
    proof (cases "n = 0")
      case True
      have "decoder_bounded l (snd (then_decode (base64_byte decode l b) (base64_push decode l wire) d1))"
        using base64_byte_bounded [OF d1] "2.IH"(2) [OF run [symmetric] Inr]
        by (auto simp: then_decode_def True split: prod.splits sum.splits) (metis snd_conv)+
      then show ?thesis by (simp only: base64_push.simps run Inr True) simp
    next
      case False
      then show ?thesis
        using "2.IH"(1) [OF run [symmetric] Inr False d1] by (simp only: base64_push.simps run Inr) simp
    qed
  qed (use d1 run in \<open>simp only: base64_push.simps, simp\<close>)
qed simp

lemma quoted_octet_bounded: "decoder_bounded l d \<Longrightarrow> decoder_bounded l (snd (quoted_octet l b d))"
  unfolding quoted_octet_def Let_def
  by (auto split: option.splits intro!: append_bounded grow_bounded(2) intro: shrink_bounded(3))

lemma quoted_octets_bounded: "decoder_bounded l d \<Longrightarrow> decoder_bounded l (snd (quoted_octets l bs d))"
proof (induction bs arbitrary: d)
  case (Cons b bs)
  then show ?case
    by (simp only: quoted_octets.simps) (rule then_bounded [OF quoted_octet_bounded])
qed simp

lemma flush_bounded: "decoder_bounded l d \<Longrightarrow> decoder_bounded l (snd (flush_raw_prefix l d))"
  unfolding flush_raw_prefix_def
  by (rule then_bounded) (auto intro: quoted_octets_bounded quoted_octet_bounded shrink_bounded)

lemma raw_byte_bounded: "decoder_bounded l d \<Longrightarrow> decoder_bounded l (snd (raw_byte l b d))"
  by (auto simp: raw_byte_def intro: then_bounded flush_bounded quoted_octet_bounded shrink_bounded grow_bounded)

lemma raw_quoted_printable_bounded: "decoder_bounded l d \<Longrightarrow> decoder_bounded l (snd (raw_quoted_printable l b d))"
proof -
  assume d: "decoder_bounded l d"
  then have "decoder_bounded l (d\<lparr>dec_whitespace := [], dec_carriage_return := False\<rparr>)"
    using shrink_bounded(5) [OF shrink_bounded(4)] by simp
  with d show ?thesis
    by (auto simp: raw_quoted_printable_def intro!: then_bounded flush_bounded raw_byte_bounded quoted_octet_bounded)
qed

lemma quoted_push_bounded: "decoder_bounded l d \<Longrightarrow> decoder_bounded l (snd (quoted_push l wire d))"
proof (induction l wire d rule: quoted_push.induct)
  case (2 l b wire d)
  let ?w = "b # wire" and ?plain = "dec_quoted d = [] \<and> dec_whitespace d = [] \<and> \<not> dec_carriage_return d \<and> ordinary b"
  show ?case
  proof (cases ?plain)
    case True
    define len where "len = length (takeWhile ordinary ?w)"
    define available where "available = min (il_attachment_decoded_bytes l - (dec_offset d + pending_len d)) (state_limit l - retained_bytes d)"
    define count where "count = min len available"
    define m where "m = (if count \<noteq> 0 then decoder_append l (take count ?w) d else (Inr (), d))"
    have m: "decoder_bounded l (snd m)" using append_bounded [OF "2.prems"] "2.prems" by (simp add: m_def)
    have push: "quoted_push l ?w d = (case m of (Inl e, d') \<Rightarrow> (Inl e, d')
         | (Inr _, d') \<Rightarrow> if count \<noteq> len then (Inl ImapLimit, d') else quoted_push l (drop count ?w) d')"
      unfolding quoted_push.simps(2) if_P [OF True] Let_def m_def count_def available_def len_def by simp
    show ?thesis
    proof (cases "\<exists>d1. m = (Inr (), d1) \<and> count = len")
      case True
      then obtain d1 where d1: "m = (Inr (), d1)" "count = len" by blast
      then have "decoder_bounded l (snd (quoted_push l (drop count ?w) d1))"
        using "2.IH"(1) [OF \<open>?plain\<close> len_def available_def count_def _ refl] m by (simp add: m_def)
      then show ?thesis by (simp add: push d1 del: quoted_push.simps)
    next
      case False
      then show ?thesis
        using m by (auto simp: push simp del: quoted_push.simps split: prod.splits sum.splits)
    qed
  next
    case False
    have "decoder_bounded l (snd (then_decode (raw_quoted_printable l b) (\<lambda>d'. quoted_push l wire (account_state d')) d))"
    proof (cases "raw_quoted_printable l b d")
      case (Pair r d1)
      then have "decoder_bounded l d1" using raw_quoted_printable_bounded [OF "2.prems", of b] by simp
      then show ?thesis
        using "2.IH"(2) [OF False Pair [symmetric]] Pair by (cases r) (auto simp: then_decode_def)
    qed
    then show ?thesis unfolding quoted_push.simps(2) if_not_P [OF False] by (simp add: then_decode_def)
  qed
qed simp

lemma compact_bounded: "decoder_bounded l d \<Longrightarrow> decoder_bounded l (compact_pending d)"
  by (auto simp: compact_pending_def bounded_defs)

lemma push_bounded:
  assumes "decoder_bounded l d"
  shows "decoder_bounded l (snd (decoder_push decode l wire d))"
proof -
  let ?d = "d\<lparr>dec_steps := dec_steps d + length wire\<rparr>"
  have d: "decoder_bounded l ?d" using assms by (rule shrink_bounded)
  then have "decoder_bounded l (snd (decoder_read decode l wire (compact_pending ?d)))"
    unfolding decoder_read_def
    by (auto split: TransferEncoding.split intro!: append_bounded base64_push_bounded quoted_push_bounded compact_bounded)
  with assms d push_cases [of decode l wire d] show ?thesis by auto
qed

lemma finish_bounded:
  assumes "decoder_bounded l d"
  shows "decoder_bounded l (snd (decoder_finish l d))"
proof -
  have "decoder_bounded l (snd (then_decode (\<lambda>d. if dec_carriage_return d then flush_raw_prefix l d else (Inr (), d\<lparr>dec_whitespace := []\<rparr>))
      (\<lambda>d. if dec_quoted d = [] then (Inr (), d) else (Inl ImapProtocol, d)) d))"
    by (rule then_bounded) (use assms in \<open>auto intro: flush_bounded shrink_bounded\<close>)
  with assms show ?thesis by (auto simp: decoder_finish_def split: TransferEncoding.split)
qed

lemma take_bounded:
  assumes "decoder_bounded l d" and "take_chunk n d = (page, d')"
  shows "decoder_bounded l d'"
proof (cases "pending_len d \<le> n")
  case True
  then have "d' = (compact_pending d)\<lparr>dec_pending := [], dec_digest := dec_digest d @ unread d, dec_offset := dec_offset d + length (unread d)\<rparr>"
    using assms(2) by (auto simp: take_chunk_def Let_def)
  moreover have "retained (compact_pending d) \<le> state_limit l \<and> dec_max_state (compact_pending d) = dec_max_state d"
    using assms(1) compact_bounded [OF assms(1)] by (simp add: decoder_bounded_def compact_pending_def)
  ultimately show ?thesis
    using assms(1) by (auto simp: decoder_bounded_def retained_def pending_len_def unread_def)
next
  case False
  then show ?thesis
    using assms by (auto simp: take_chunk_def bounded_defs)
qed

lemma run_bounded: "decoder_bounded l d \<Longrightarrow> decoder_bounded l (snd (transfer_run decode l es d))"
proof (induction decode l es d rule: transfer_run.induct)
  case (2 decode l wire es d)
  show ?case
  proof (cases "decoder_push decode l wire d")
    case (Pair r d1)
    then have "decoder_bounded l d1" using push_bounded [OF "2.prems", of decode wire] by simp
    then show ?thesis using "2.IH" [OF Pair [symmetric]] Pair by (cases r) auto
  qed
next
  case (3 decode l n es d)
  obtain page d1 where take: "take_chunk n d = (page, d1)" by force
  have "decoder_bounded l (snd (transfer_run decode l es d1))"
    using "3.IH" [OF take [symmetric] take_bounded [OF "3.prems" take]] .
  then show ?case by (auto simp: take split: prod.splits sum.splits)
qed simp

subsection \<open>Properties\<close>


text \<open>
  A transfer that does not finish fails with the limit error, or with the protocol error, and then
  the reference rejects the wire and everything that could have followed it.
\<close>

theorem transfer_rejects:
  assumes "base64_ok decode"
    and "transfer_run decode l es (decoder_new e) = (Inl err, d1)
      \<or> transfer_run decode l es (decoder_new e) = (Inr pages, d1) \<and> decoder_finish l d1 = (Inl err, d2)"
  shows "err = ImapLimit \<or> err = ImapProtocol \<and> transfer_ref decode e (pushed es) = None"
  using assms(2)
proof
  assume "transfer_run decode l es (decoder_new e) = (Inl err, d1)"
  from run_fails [OF assms(1) this decoder_new_wf] show ?thesis by (simp add: decoder_new_def)
next
  assume "transfer_run decode l es (decoder_new e) = (Inr pages, d1) \<and> decoder_finish l d1 = (Inl err, d2)"
  then have run: "transfer_run decode l es (decoder_new e) = (Inr pages, d1)" and fin: "decoder_finish l d1 = (Inl err, d2)"
    by simp_all
  have d1: "decoded decode (pushed es) d1" "dec_encoding d1 = e"
    using run_decoded [OF assms(1) run decoder_new_wf] by (simp_all add: decoder_new_def)
  show ?thesis using finish_fails [OF assms(1) d1(1) fin] by (simp add: d1(2))
qed

text \<open>
  Whatever the wire, the slices and the pages, the decoder never holds more than one wire slice
  and one page, never has more decoded bytes than the limit, accounts at most that state plus its own 128
  bytes, and does not read more wire octets than the step limit without failing.
\<close>

theorem transfer_bounded:
  assumes "base64_ok decode" and "transfer_run decode l es (decoder_new e) = (r, d)"
  shows "retained_bytes d \<le> state_limit l \<and> dec_offset d + pending_len d \<le> il_attachment_decoded_bytes l
    \<and> dm_max_state_bytes (decoder_snapshot d) \<le> state_limit l + 128
    \<and> (case r of Inl _ \<Rightarrow> True | Inr _ \<Rightarrow> length (pushed es) \<le> il_decode_steps l)"
proof -
  have "decoder_bounded l (decoder_new e)" by (simp add: bounded_defs decoder_new_def)
  from run_bounded [OF this, of decode es] have "decoder_bounded l d" by (simp add: assms)
  moreover have "length (pushed es) \<le> il_decode_steps l" if "r = Inr pages" for pages
    using run_decoded [OF assms(1) _ decoder_new_wf, of l es e pages d] assms(2) that by (simp add: decoder_new_def)
  ultimately show ?thesis
    using bounded_exact [of l d] by (auto simp: decoder_bounded_def decoder_snapshot_def split: sum.split)
qed

subsection \<open>A concrete engine\<close>

text \<open>Strict standard base64 with canonical padding, used to run the examples.\<close>

definition sextet :: "byte \<Rightarrow> nat option" where
  "sextet b =
     (if is_ascii_upper b then Some (ord b - 65)
      else if is_ascii_lower b then Some (ord b - 97 + 26)
      else if is_ascii_digit b then Some (ord b - 48 + 52)
      else if b = CHR ''+'' then Some 62
      else if b = CHR ''/'' then Some 63 else None)"

definition quartet :: "byte \<Rightarrow> byte \<Rightarrow> byte \<Rightarrow> byte \<Rightarrow> bytes option" where
  "quartet a b c d =
     (case (sextet a, sextet b) of
        (Some x, Some y) \<Rightarrow>
          (case (sextet c, sextet d) of
             (Some z, Some w) \<Rightarrow> Some [chr (x * 4 + y div 16), chr (y mod 16 * 16 + z div 4), chr (z mod 4 * 64 + w)]
           | (Some z, None) \<Rightarrow>
               if d = CHR ''='' \<and> z mod 4 = 0 then Some [chr (x * 4 + y div 16), chr (y mod 16 * 16 + z div 4)] else None
           | (None, _) \<Rightarrow>
               if c = CHR ''='' \<and> d = CHR ''='' \<and> y mod 16 = 0 then Some [chr (x * 4 + y div 16)] else None)
      | _ \<Rightarrow> None)"

fun strict_base64 :: "bytes \<Rightarrow> bytes option" where
  "strict_base64 [] = Some []"
| "strict_base64 (a # b # c # d # s) =
     (case quartet a b c d of None \<Rightarrow> None
      | Some out \<Rightarrow> if s = [] then Some out
          else if length out = 3 then map_option ((@) out) (strict_base64 s) else None)"
| "strict_base64 _ = None"

lemma sextet_letter: "base64_letter b \<longleftrightarrow> (\<exists>x. sextet b = Some x)"
  by (auto simp: base64_letter_def sextet_def is_ascii_alphanumeric_def)

lemma not_pad_letter: "\<not> base64_letter CHR ''=''"
  by code_simp

lemma strict_base64_length: "length s mod 4 \<noteq> 0 \<Longrightarrow> strict_base64 s = None"
  by (induction s rule: strict_base64.induct) (auto split: option.splits)

lemma strict_base64_ok: "base64_ok strict_base64"
proof -
  have quartets: "\<exists>a b c d. q = [a, b, c, d]" if "length q = 4" for q :: bytes
    using that by (auto simp: numeral_eq_Suc length_Suc_conv)
  have letters: "\<exists>out. strict_base64 q = Some out \<and> length out = 3" if "length q = 4" "list_all base64_letter q" for q
    using quartets [OF that(1)] that(2) by (auto simp: quartet_def sextet_letter)
  have foreign: "strict_base64 q = None" if "length q = 4" "\<not> list_all (\<lambda>b. base64_letter b \<or> b = CHR ''='') q" for q
    using quartets [OF that(1)] that(2) by (auto simp: quartet_def sextet_letter split: option.splits)
  have short: "length out \<le> 3" if "length q = 4" "strict_base64 q = Some out" for q out
    using quartets [OF that(1)] that(2) by (auto simp: quartet_def split: option.splits if_splits)
  have more: "strict_base64 (q @ s) = (case strict_base64 q of None \<Rightarrow> None
       | Some out \<Rightarrow> if length out = 3 then map_option ((@) out) (strict_base64 s) else None)"
    if "length q = 4" "s \<noteq> []" for q s
    using quartets [OF that(1)] that(2) by (auto split: option.splits)
  show ?thesis
    unfolding base64_ok_def using letters foreign short more strict_base64_length by simp
qed

text \<open>Two slices of a folded line, pages of three bytes.\<close>

definition example_limits :: ImapLimits where
  "example_limits = imap_limits_default\<lparr>il_attachment_chunk_bytes := 3\<rparr>"

definition example_events :: "DecoderEvent list" where
  "example_events = [Push ''aGVs'', Take 2, Push (''bG8'' @ [CR, LF]), Push ''='']"

definition example_read :: "bytes list imap \<times> Decoder" where
  "example_read = transfer_run strict_base64 example_limits example_events (decoder_new Base64)"

definition example_finished :: "unit imap \<times> Decoder" where
  "example_finished = decoder_finish example_limits (snd example_read)"

definition example_drained :: "bytes list imap \<times> Decoder" where
  "example_drained = transfer_run strict_base64 example_limits (map Take [3]) (snd example_finished)"

lemma example_read_pages: "fst example_read = Inr [''he'']"
  by code_simp

lemma example_finished_ok: "fst example_finished = Inr ()"
  by code_simp

lemma example_drained_pages: "fst example_drained = Inr [''llo'']"
  by code_simp

lemma example_drained_empty: "pending_len (snd example_drained) = 0"
  by code_simp


definition example_cut :: "bytes list imap \<times> Decoder" where
  "example_cut = transfer_run strict_base64 example_limits [Push ''aGVsb'', Take 3] (decoder_new Base64)"

lemma example_cut_pages: "fst example_cut = Inr [''hel'']"
  by code_simp

lemma example_cut_fails: "fst (decoder_finish example_limits (snd example_cut)) = Inl ImapProtocol"
  by code_simp

lemma transfer_rejects_witness:
  "transfer_ref strict_base64 Base64 (pushed [Push ''aGVsb'', Take 3]) = None"
proof -
  have "transfer_run strict_base64 example_limits [Push ''aGVsb'', Take 3] (decoder_new Base64) = (Inr [''hel''], snd example_cut)"
    using example_cut_pages by (simp only: example_cut_def [symmetric] prod_eq_iff fst_conv snd_conv)
  moreover have "decoder_finish example_limits (snd example_cut) =
      (Inl ImapProtocol, snd (decoder_finish example_limits (snd example_cut)))"
    using example_cut_fails by (simp only: prod_eq_iff fst_conv snd_conv)
  ultimately show ?thesis
    using transfer_rejects [OF strict_base64_ok, of example_limits "[Push ''aGVsb'', Take 3]" Base64 ImapProtocol] by blast
qed

lemma transfer_bounded_witness:
  "retained_bytes (snd example_read) \<le> state_limit example_limits \<and> length (pushed example_events) \<le> il_decode_steps example_limits"
proof -
  have "transfer_run strict_base64 example_limits example_events (decoder_new Base64) = (Inr [''he''], snd example_read)"
    using example_read_pages by (simp only: example_read_def [symmetric] prod_eq_iff fst_conv snd_conv)
  from transfer_bounded [OF strict_base64_ok this] show ?thesis by simp
qed

end
