(* ===== verification/Attachment.thy ===== *)
theory Attachment
  imports Wire Decoding
begin

text \<open>
  Attachments over IMAP (\<open>src/src/imap/attachment.rs\<close>): which parts of a structure are attachments, and the
  incremental, authenticated transfer of one part through the transfer decoder. A digest is the list of the
  bytes fed to it.
\<close>

section \<open>Attachment parts\<close>

record AttachmentMetadata =
  atm_part :: string
  atm_filename :: "string option"
  atm_media_type :: string
  atm_declared_size :: "u64 option"
  atm_available :: bool

record AttachmentDefinition =
  def_part :: Part
  def_filename :: "string option"
  def_media_type :: string
  def_declared_size :: "u64 option"
  def_encoding :: "TransferEncoding option"

text \<open>The white space that \<open>str::trim\<close> removes.\<close>

definition white_space :: "nat \<Rightarrow> bool" where
  "white_space c \<longleftrightarrow> 9 \<le> c \<and> c \<le> 13 \<or> 0x2000 \<le> c \<and> c \<le> 0x200A
     \<or> c \<in> {0x20, 0x85, 0xA0, 0x1680, 0x2028, 0x2029, 0x202F, 0x205F, 0x3000}"

definition str_chars :: "string \<Rightarrow> nat list" where
  "str_chars v = (case utf8_decode v of Some cs \<Rightarrow> cs | None \<Rightarrow> map ord v)"

definition trim_chars :: "nat list \<Rightarrow> nat list" where
  "trim_chars cs = rev (dropWhile white_space (rev (dropWhile white_space cs)))"

definition parse_part_step :: "ImapLimits \<Rightarrow> Part \<Rightarrow> string \<Rightarrow> Part imap" where
  "parse_part_step l values v =
     (if v = [] \<or> length v > 10 \<or> \<not> list_all is_ascii_digit v then Inl ImapInvalidInput
      else let n = foldl (\<lambda>n b. n * 10 + (ord b - 48)) 0 v in
        if n = 0 \<or> n \<ge> 2 ^ 32 then Inl ImapInvalidInput
        else if length values + 1 > il_nesting l then Inl ImapLimit else Inr (values @ [n]))"

definition parse_part :: "string \<Rightarrow> ImapLimits \<Rightarrow> Part imap" where
  "parse_part part l =
     (if part = [] \<or> length part > saturating_mul (il_nesting l) 11 then Inl ImapInvalidInput
      else try_fold (parse_part_step l) [] (split_on CHR ''.'' part))"

text \<open>A trimmed name of at most 256 characters, none of which is a control or a bidirectional override.\<close>

definition bidi_control :: "nat \<Rightarrow> bool" where
  "bidi_control c \<longleftrightarrow> c \<in> {0x061C, 0x200E, 0x200F} \<or> 0x202A \<le> c \<and> c \<le> 0x202E \<or> 0x2066 \<le> c \<and> c \<le> 0x2069"

definition safe_filename :: "string \<Rightarrow> string option" where
  "safe_filename v =
     (let cs = trim_chars (str_chars v) in
      if cs = [] \<or> length (take 257 cs) > 256 \<or> list_ex (\<lambda>c. control_char c \<or> bidi_control c) cs then None
      else Some (utf8_encode cs))"

definition attachment_encoding :: "ContentEncoding \<Rightarrow> TransferEncoding option" where
  "attachment_encoding e =
     (let v = utf8_encode (trim_chars (str_chars (encoding_name e))) in
      if eq_ignore_ascii_case v ''7bit'' \<or> eq_ignore_ascii_case v ''8bit'' \<or> eq_ignore_ascii_case v ''binary'' then Some Identity
      else if eq_ignore_ascii_case v ''base64'' then Some Base64
      else if eq_ignore_ascii_case v ''quoted-printable'' then Some QuotedPrintable
      else None)"

definition attachment_definition :: "Part \<Rightarrow> BodyStructure \<Rightarrow> Part option \<Rightarrow> AttachmentDefinition option imap" where
  "attachment_definition path s wanted =
     (let fields = structure_common s in
      and_then (ok_or ImapProtocol (structure_single s)) (\<lambda>body.
        let path = (if path = [] then [1] else path) in
        if is_some_and wanted (\<lambda>wanted. wanted \<noteq> path) then Inr None
        else Inr (Some
          \<lparr>def_part = path,
           def_filename = Option.bind (common_disposition fields) (\<lambda>d. Option.bind (disp_params d) (\<lambda>params.
             Option.bind (List.find (\<lambda>(name, _). eq_ignore_ascii_case name ''filename'') params) (\<lambda>(_, v). safe_filename v))),
           def_media_type = map to_ascii_lowercase (common_type fields @ ''/'' @ common_subtype fields),
           def_declared_size = Some (ucast (single_octets body)),
           def_encoding = attachment_encoding (single_encoding body)\<rparr>)))"

text \<open>Attached messages are parts of their own; only multiparts are descended into.\<close>

fun attachment_visit :: "Part option \<Rightarrow> Part \<Rightarrow> BodyStructure \<Rightarrow> AttachmentDefinition list imap"
  and attachment_visits :: "Part option \<Rightarrow> Part \<Rightarrow> nat \<Rightarrow> BodyStructure list \<Rightarrow> AttachmentDefinition list imap" where
  "attachment_visit wanted path s =
     (case s of
        MultipartStructure c bodies \<Rightarrow> attachment_visits wanted path 1 bodies
      | _ \<Rightarrow> if is_attachment (common_disposition (structure_common s))
          then and_then (attachment_definition path s wanted) (\<lambda>d. Inr (case d of None \<Rightarrow> [] | Some d \<Rightarrow> [d]))
          else Inr [])"
| "attachment_visits wanted path number [] = Inr []"
| "attachment_visits wanted path number (s # ss) =
     (if number \<ge> 2 ^ 32 then Inl ImapLimit
      else and_then (attachment_visit wanted (path @ [number]) s) (\<lambda>a.
        and_then (attachment_visits wanted path (number + 1) ss) (\<lambda>b. Inr (a @ b))))"

definition attachments :: "BodyStructure \<Rightarrow> ImapLimits \<Rightarrow> Part option \<Rightarrow> AttachmentDefinition list imap" where
  "attachments s l wanted = and_then (validate_structure s l) (\<lambda>_. attachment_visit wanted [] s)"

definition into_metadata :: "AttachmentDefinition \<Rightarrow> AttachmentMetadata" where
  "into_metadata d = \<lparr>atm_part = part_name (def_part d), atm_filename = def_filename d, atm_media_type = def_media_type d,
     atm_declared_size = def_declared_size d, atm_available = (def_encoding d \<noteq> None)\<rparr>"

definition attachment_definitions :: "metadata_host \<Rightarrow> u32 \<Rightarrow> ImapLimits \<Rightarrow> Part option \<Rightarrow> AttachmentDefinition list wire" where
  "attachment_definitions h uid l wanted =
     wire_bind (fetch_execute h (FetchMetadata uid)) (\<lambda>row.
       wire_lift (and_then (fetch_items row) (\<lambda>items.
         and_then (fetch_metadata items) (\<lambda>(_, structure). attachments structure l wanted))))"

record AttachmentListRequest =
  alr_uid :: u32
  alr_uid_validity :: u32

definition list_attachments ::
  "(bytes \<Rightarrow> string) \<Rightarrow> metadata_host \<Rightarrow> string \<Rightarrow> AttachmentListRequest \<Rightarrow> ImapLimits \<Rightarrow> AttachmentMetadata list wire" where
  "list_attachments enc h name req l =
     wire_bind (wire_lift (imap_limits_validate l)) (\<lambda>_ c.
       wire_bind (wire_lift (mailbox_argument name)) (\<lambda>_.
       if alr_uid req = 0 \<or> alr_uid_validity req = 0 then wire_lift (Inl ImapInvalidInput)
       else wire_bind (examine enc h name) (\<lambda>validity.
         if validity \<noteq> alr_uid_validity req then wire_lift (Inl ImapStaleReference)
         else wire_bind (attachment_definitions h (alr_uid req) l None) (\<lambda>definitions.
           wire_bind (logout h) (\<lambda>_. wire_return (map into_metadata definitions))))) (limit_body l c))"

section \<open>Transfers\<close>

record TransferState =
  ts_identity :: "sha256 option"
  ts_mailbox :: string
  ts_uid :: u32
  ts_uid_validity :: u32
  ts_part :: Part
  ts_decoder :: Decoder
  ts_wire_bytes :: nat
  ts_eof :: bool

definition publish :: "TransferState \<Rightarrow> Connection \<Rightarrow> Connection" where
  "publish s c =
     (let m = decoder_snapshot (ts_decoder s) in
      c\<lparr>conn_metrics := (conn_metrics c)\<lparr>met_transfer_wire_bytes := ts_wire_bytes s,
        met_transfer_decoded_bytes := dm_decoded_bytes m, met_transfer_decode_steps := dm_decode_steps m,
        met_max_transfer_state_bytes := dm_max_state_bytes m\<rparr>\<rparr>)"

text \<open>One wire slice: how much to ask for, then accounting, decoding, and the end at a short answer.\<close>

definition slice_request :: "TransferState \<Rightarrow> ImapLimits \<Rightarrow> (nat \<times> Fetch) imap" where
  "slice_request s l =
     and_then (ok_or ImapLimit (checked_sub (il_attachment_wire_bytes l) (ts_wire_bytes s))) (\<lambda>remaining.
     and_then (fetch_chunk_bytes l) (\<lambda>chunk.
     let cnt = min chunk (saturating_add remaining 1) in
     if ts_wire_bytes s \<ge> 2 ^ 32 then Inl ImapLimit
     else Inr (remaining, FetchBytes (ts_uid s) (Some (FetchPart (ts_part s))) (of_nat (ts_wire_bytes s)) (of_nat cnt))))"

definition slice_decode ::
  "(bytes \<Rightarrow> bytes option) \<Rightarrow> ImapLimits \<Rightarrow> nat \<Rightarrow> nat \<Rightarrow> bytes \<Rightarrow> TransferState \<Rightarrow> TransferState wire" where
  "slice_decode decode l remaining cnt wire s c =
     (case checked_add (ts_wire_bytes s) (length wire) of
        None \<Rightarrow> (Inl ImapLimit, c)
      | Some n \<Rightarrow>
          let s = s\<lparr>ts_wire_bytes := n\<rparr>; c = publish s c in
          if length wire > remaining then (Inl ImapLimit, c)
          else (case decoder_push decode l wire (ts_decoder s) of
              (outcome, d) \<Rightarrow>
                let s = s\<lparr>ts_decoder := d\<rparr>; c = publish s c in
                (case outcome of
                   Inl e \<Rightarrow> (Inl e, c)
                 | Inr _ \<Rightarrow>
                     if length wire < cnt
                     then (case decoder_finish l (ts_decoder s) of
                         (finished, d) \<Rightarrow>
                           let s = s\<lparr>ts_eof := True, ts_decoder := d\<rparr>; c = publish s c in
                           (case finished of Inl e \<Rightarrow> (Inl e, c) | Inr _ \<Rightarrow> (Inr s, c)))
                     else (Inr s, c))))"

definition page_boundary :: "ImapLimits \<Rightarrow> bool \<Rightarrow> TransferState \<Rightarrow> Connection \<Rightarrow> bool" where
  "page_boundary l fetched s c \<longleftrightarrow> fetched \<and> pending_len (ts_decoder s) \<noteq> 0
     \<and> il_operation_bytes l - met_wire_bytes (conn_metrics c) < saturating_mul (il_response_bytes l) 2"

lemma slice_decode_reads: "slice_decode decode l remaining cnt wire s c = (r, d) \<Longrightarrow> conn_reads d = conn_reads c \<and> conn_sent d = conn_sent c"
  by (auto simp: slice_decode_def publish_def Let_def split: option.splits if_splits prod.splits sum.splits)

function read_slices ::
  "(bytes \<Rightarrow> bytes option) \<Rightarrow> metadata_host \<Rightarrow> ImapLimits \<Rightarrow> bool \<Rightarrow> TransferState \<Rightarrow> TransferState wire" where
  "read_slices decode h l fetched s c =
     (if pending_len (ts_decoder s) \<ge> il_attachment_chunk_bytes l \<or> ts_eof s \<or> page_boundary l fetched s c then (Inr s, c)
      else case slice_request s l of
          Inl e \<Rightarrow> (Inl e, c)
        | Inr (remaining, f) \<Rightarrow>
            (case fetch_bytes h f c of
               (Inl e, c) \<Rightarrow> (Inl e, c)
             | (Inr wire, c) \<Rightarrow>
                 (case slice_decode decode l remaining (unat (fetch_count f)) wire s c of
                    (Inl e, c) \<Rightarrow> (Inl e, c)
                  | (Inr s, c) \<Rightarrow> read_slices decode h l True s c)))"
  by pat_completeness auto

termination
  by (relation "measure (\<lambda>(_, _, _, _, _, c). length (conn_reads c))")
    (auto dest!: fetch_bytes_shorter [OF sym] slice_decode_reads [OF sym])

declare read_slices.simps [simp del]

text \<open>The definition of the part is looked up before the first slice, which also fixes the encoding.\<close>

definition transfer_start :: "metadata_host \<Rightarrow> ImapLimits \<Rightarrow> TransferState \<Rightarrow> TransferState wire" where
  "transfer_start h l s =
     (if ts_wire_bytes s = 0 \<and> \<not> ts_eof s
      then wire_bind (attachment_definitions h (ts_uid s) l (Some (ts_part s))) (\<lambda>definitions.
        wire_lift (case definitions of
            [] \<Rightarrow> Inl ImapStaleReference
          | d # _ \<Rightarrow> and_then (ok_or ImapUnsupported (def_encoding d)) (\<lambda>e. Inr (s\<lparr>ts_decoder := decoder_new e\<rparr>))))
      else wire_return s)"

definition read_selected ::
  "(bytes \<Rightarrow> bytes option) \<Rightarrow> metadata_host \<Rightarrow> ImapLimits \<Rightarrow> TransferState \<Rightarrow> (bytes \<times> TransferState) wire" where
  "read_selected decode h l s =
     wire_bind (transfer_start h l s) (\<lambda>s.
     wire_bind (read_slices decode h l False s) (\<lambda>s c.
       (case take_chunk (il_attachment_chunk_bytes l) (ts_decoder s) of
          (chunk, d) \<Rightarrow>
            let s = s\<lparr>ts_decoder := d\<rparr> in
            wire_bind (logout h) (\<lambda>_. wire_return (chunk, s)) (publish s c))))"

record AttachmentIntegrity =
  ai_total_decoded_bytes :: u64
  ai_sha256 :: sha256

record AttachmentData =
  ad_bytes :: bytes
  ad_decoded_offset :: u64
  ad_integrity :: "AttachmentIntegrity option"

text \<open>\<open>AttachmentDecoder\<close> owns the state of a transfer that can continue.\<close>

type_synonym AttachmentDecoder = "TransferState option"

definition attachment_decoder_new :: "string \<Rightarrow> u32 \<Rightarrow> u32 \<Rightarrow> string \<Rightarrow> ImapLimits \<Rightarrow> AttachmentDecoder imap" where
  "attachment_decoder_new mailbox uid validity part l =
     and_then (imap_limits_validate l) (\<lambda>_.
     and_then (mailbox_argument mailbox) (\<lambda>_.
     if uid = 0 \<or> validity = 0 then Inl ImapInvalidInput
     else and_then (parse_part part l) (\<lambda>part.
       Inr (Some \<lparr>ts_identity = None, ts_mailbox = mailbox, ts_uid = uid, ts_uid_validity = validity, ts_part = part,
         ts_decoder = decoder_new Identity, ts_wire_bytes = 0, ts_eof = False\<rparr>))))"

record attachment_host =
  ah_encode :: "bytes \<Rightarrow> string"
  ah_metadata :: metadata_host
  ah_base64 :: "bytes \<Rightarrow> bytes option"
  ah_sha256 :: "bytes \<Rightarrow> sha256"

text \<open>The state is taken before anything is checked, so that every failure ends the transfer.\<close>

definition read_attachment ::
  "attachment_host \<Rightarrow> sha256 \<Rightarrow> ImapLimits \<Rightarrow> AttachmentDecoder \<Rightarrow> Connection \<Rightarrow>
     (AttachmentData imap \<times> AttachmentDecoder) \<times> Connection" where
  "read_attachment ah identity l decoder c =
     (case decoder of
        None \<Rightarrow> ((Inl ImapTransferExpired, None), c)
      | Some s \<Rightarrow>
          (case imap_limits_validate l of
             Inl e \<Rightarrow> ((Inl e, None), c)
           | Inr _ \<Rightarrow>
               if is_some_and (ts_identity s) (\<lambda>i. i \<noteq> identity) then ((Inl ImapTransferExpired, None), c)
               else let s = s\<lparr>ts_identity := Some identity\<rparr> in
                 (case wire_bind (examine (ah_encode ah) (ah_metadata ah) (ts_mailbox s)) (\<lambda>validity.
                     if validity \<noteq> ts_uid_validity s then wire_lift (Inl ImapStaleReference)
                     else read_selected (ah_base64 ah) (ah_metadata ah) l s) (limit_body l c) of
                    (Inl e, c) \<Rightarrow> ((Inl e, None), c)
                  | (Inr (chunk, s), c) \<Rightarrow>
                      let complete = (ts_eof s \<and> pending_len (ts_decoder s) = 0) in
                      ((Inr \<lparr>ad_bytes = chunk, ad_decoded_offset = of_nat (dec_offset (ts_decoder s) - length chunk),
                          ad_integrity = (if complete
                            then (case decoder_integrity (ah_sha256 ah) (ts_decoder s) of
                                (n, digest) \<Rightarrow> Some \<lparr>ai_total_decoded_bytes = n, ai_sha256 = digest\<rparr>)
                            else None)\<rparr>,
                        if complete then None else Some s), c))))"

end
