(* ===== verification/HtmlPolicy.thy ===== *)
theory HtmlPolicy
  imports Attachment
begin

text \<open>
  The policy on parsed HTML before it is rendered as text (\<open>src/src/imap/body/representation/html_policy.rs\<close>): what is
  hidden, active or not text is removed, and link destinations are restricted. Text is a list of characters (scalar values);
  the tree is the one the HTML parser builds.
\<close>

section \<open>Characters\<close>

type_synonym chars = "nat list"

definition lit :: "string \<Rightarrow> chars" where
  "lit v = map ord v"

definition char_lower :: "nat \<Rightarrow> nat" where
  "char_lower c = (if 65 \<le> c \<and> c \<le> 90 then c + 32 else c)"

definition chars_eq_ignore_case :: "chars \<Rightarrow> string \<Rightarrow> bool" where
  "chars_eq_ignore_case v w \<longleftrightarrow> map char_lower v = map char_lower (lit w)"

definition split_once_at :: "(nat \<Rightarrow> bool) \<Rightarrow> chars \<Rightarrow> (chars \<times> chars) option" where
  "split_once_at p v =
     (case dropWhile (\<lambda>c. \<not> p c) v of [] \<Rightarrow> None | c # rest \<Rightarrow> Some (takeWhile (\<lambda>c. \<not> p c) v, rest))"

definition rsplit_once_at :: "(nat \<Rightarrow> bool) \<Rightarrow> chars \<Rightarrow> (chars \<times> chars) option" where
  "rsplit_once_at p v = map_option (\<lambda>(back, front). (rev front, rev back)) (split_once_at p (rev v))"

definition strip_first :: "(nat \<Rightarrow> bool) \<Rightarrow> chars \<Rightarrow> chars" where
  "strip_first p v = (case v of [] \<Rightarrow> [] | c # cs \<Rightarrow> if p c then cs else v)"

definition is_digit_char :: "nat \<Rightarrow> bool" where
  "is_digit_char c \<longleftrightarrow> 48 \<le> c \<and> c \<le> 57"

section \<open>Links\<close>

definition allowed_link_destination :: "chars \<Rightarrow> bool" where
  "allowed_link_destination v \<longleftrightarrow>
     \<not> list_ex (\<lambda>c. control_char c \<or> white_space c \<or> c = 0x5C \<or> bidi_control c) v
     \<and> (case split_once_at (\<lambda>c. c = 0x3A) v of
          None \<Rightarrow> False
        | Some (scheme, destination) \<Rightarrow>
            if chars_eq_ignore_case scheme ''http'' \<or> chars_eq_ignore_case scheme ''https''
            then (case destination of
                    a # b # host \<Rightarrow> a = 0x2F \<and> b = 0x2F \<and> takeWhile (\<lambda>c. c \<notin> {0x2F, 0x3F, 0x23}) host \<noteq> []
                  | _ \<Rightarrow> False)
            else chars_eq_ignore_case scheme ''mailto'' \<and> destination \<noteq> [] \<and> hd destination \<notin> {0x2F, 0x3F, 0x23})"

section \<open>Inline styles\<close>

text \<open>A comment after its opening, up to and with its end.\<close>

fun css_comment :: "chars \<Rightarrow> chars \<times> chars" where
  "css_comment [] = ([], [])"
| "css_comment (c # cs) =
     (if c = 0x2A \<and> take 1 cs = [0x2F] then ([c, 0x2F], drop 1 cs)
      else case css_comment cs of (comment, rest) \<Rightarrow> (c # comment, rest))"

lemma css_comment_append: "css_comment cs = (comment, rest) \<Longrightarrow> comment @ rest = cs"
proof (induction cs arbitrary: comment rest)
  case (Cons c cs)
  show ?case
  proof (cases "c = 0x2A \<and> take 1 cs = [0x2F]")
    case True
    then show ?thesis using Cons.prems by (cases cs) auto
  qed (use Cons in \<open>auto split: prod.splits\<close>)
qed simp

lemma css_comment_shorter: "css_comment cs = (comment, rest) \<Longrightarrow> length rest \<le> length cs"
  using css_comment_append [of cs comment rest] by auto

text \<open>The effect of an ordinary character: the open quote, the depth of brackets, the property and the piece being read.\<close>

definition css_step :: "nat \<Rightarrow> nat option \<Rightarrow> nat \<Rightarrow> chars option \<Rightarrow> chars \<Rightarrow> nat option \<times> nat \<times> chars option \<times> chars" where
  "css_step c q depth property acc =
     (if q \<noteq> None then (if q = Some c then None else q, depth, property, c # acc)
      else if c = 0x27 \<or> c = 0x22 then (Some c, depth, property, c # acc)
      else if c \<in> {0x28, 0x5B, 0x7B} then (q, depth + 1, property, c # acc)
      else if c \<in> {0x29, 0x5D, 0x7D} then (q, depth - 1, property, c # acc)
      else if c = 0x3A \<and> depth = 0 \<and> property = None then (q, depth, Some (rev acc), [])
      else if c = 0x3B \<and> depth = 0 then (q, depth, None, [])
      else (q, depth, property, c # acc))"

text \<open>
  The next declaration, property and value, and what remains behind it. The property is set once its colon was read;
  \<open>acc\<close> is the piece being read, backwards. Delimiters in strings, comments and brackets do not count.
\<close>

function css_scan :: "chars \<Rightarrow> nat option \<Rightarrow> nat \<Rightarrow> chars option \<Rightarrow> chars \<Rightarrow> (chars \<times> chars) option \<times> chars" where
  "css_scan [] q depth property acc = (map_option (\<lambda>p. (p, rev acc)) property, [])"
| "css_scan (c # cs) q depth property acc =
     (if c = 0x5C then css_scan (drop 1 cs) q depth property (rev (take 1 cs) @ c # acc)
      else if q = None \<and> c = 0x2F \<and> take 1 cs = [0x2A]
      then (case css_comment (drop 1 cs) of (comment, rest) \<Rightarrow>
        css_scan rest q depth property (rev comment @ [0x2A, 0x2F] @ acc))
      else if q = None \<and> c = 0x3B \<and> depth = 0 \<and> property \<noteq> None then (Some (the property, rev acc), cs)
      else case css_step c q depth property acc of (q, depth, property, acc) \<Rightarrow> css_scan cs q depth property acc)"
  by pat_completeness auto
termination
  by (relation "measure (\<lambda>(cs, _). length cs)") (auto dest!: css_comment_shorter [OF sym])

definition css_declaration :: "chars \<Rightarrow> (chars \<times> chars) option \<times> chars" where
  "css_declaration remaining = (if remaining = [] then (None, []) else css_scan remaining None 0 None [])"

lemma css_scan_step:
  "snd (css_scan (c # cs) q depth property acc) = cs
   \<or> (\<exists>ds q' depth' property' acc'. length ds \<le> length cs
        \<and> css_scan (c # cs) q depth property acc = css_scan ds q' depth' property' acc')"
proof -
  obtain comment rest where comment: "css_comment (drop 1 cs) = (comment, rest)" by fastforce
  have again: ?thesis
    if "css_scan (c # cs) q depth property acc = css_scan ds q' depth' property' acc'" "length ds \<le> length cs"
    for ds q' depth' property' acc' using that by blast
  show ?thesis
  proof (cases "c = 0x5C")
    case True
    show ?thesis by (rule again [of "drop 1 cs"]) (use True in simp_all)
  next
    case plain: False
    show ?thesis
    proof (cases "q = None \<and> c = 0x2F \<and> take 1 cs = [0x2A]")
      case True
      then show ?thesis using comment css_comment_shorter [OF comment] by (intro again [of rest]) simp_all
    next
      case False
      show ?thesis
      proof (cases "q = None \<and> c = 0x3B \<and> depth = 0 \<and> property \<noteq> None")
        case True
        then show ?thesis by auto
      next
        case stays: False
        have "\<exists>q' depth' property' acc'. css_scan (c # cs) q depth property acc = css_scan cs q' depth' property' acc'"
          using plain False stays by (cases "css_step c q depth property acc") (auto simp del: One_nat_def)
        then show ?thesis using again [of cs] by blast
      qed
    qed
  qed
qed

lemma css_scan_length: "length (snd (css_scan cs q depth property acc)) \<le> length cs"
proof (induction "length cs" arbitrary: cs q depth property acc rule: less_induct)
  case less
  show ?case
  proof (cases cs)
    case (Cons c ds)
    from css_scan_step [of c ds q depth property acc] show ?thesis
    proof
      assume "\<exists>es q' depth' property' acc'. length es \<le> length ds
          \<and> css_scan (c # ds) q depth property acc = css_scan es q' depth' property' acc'"
      then obtain es q' depth' property' acc' where es: "length es \<le> length ds"
        "css_scan cs q depth property acc = css_scan es q' depth' property' acc'" unfolding Cons by blast
      then have "length (snd (css_scan es q' depth' property' acc')) \<le> length es" using less Cons by simp
      then show ?thesis using es Cons by simp
    qed (simp add: Cons del: css_scan.simps)
  qed simp
qed

lemma css_declaration_shorter: "css_declaration v = (r, rest) \<Longrightarrow> v \<noteq> [] \<Longrightarrow> length rest < length v"
proof -
  assume declared: "css_declaration v = (r, rest)" and "v \<noteq> []"
  then obtain c cs where v: "v = c # cs" by (cases v) auto
  have rest: "rest = snd (css_scan (c # cs) None 0 None [])" using declared by (simp add: css_declaration_def v del: css_scan.simps)
  show "length rest < length v"
    using css_scan_step [of c cs None 0 None "[]"]
  proof
    assume "\<exists>ds q' depth' property' acc'. length ds \<le> length cs
        \<and> css_scan (c # cs) None 0 None [] = css_scan ds q' depth' property' acc'"
    then obtain ds q' depth' property' acc' where "length ds \<le> length cs" "rest = snd (css_scan ds q' depth' property' acc')"
      unfolding rest by metis
    then show ?thesis using css_scan_length [of ds q' depth' property' acc'] by (simp add: v)
  qed (simp add: rest v)
qed

text \<open>Comments become a space and escapes the characters they stand for.\<close>

definition hex_char :: "nat \<Rightarrow> nat option" where
  "hex_char c =
     (if 48 \<le> c \<and> c \<le> 57 then Some (c - 48)
      else if 65 \<le> c \<and> c \<le> 70 then Some (c - 55)
      else if 97 \<le> c \<and> c \<le> 102 then Some (c - 87) else None)"

definition css_blank :: "nat \<Rightarrow> bool" where
  "css_blank c \<longleftrightarrow> c \<in> {0x20, 0x09, 0x0D, 0x0A, 0x0C}"

definition skip_css_blank :: "chars \<Rightarrow> chars" where
  "skip_css_blank v =
     (case v of
        [] \<Rightarrow> []
      | c # cs \<Rightarrow> if c = 0x0D \<and> take 1 cs = [0x0A] then drop 1 cs else if css_blank c then cs else v)"

definition css_escape :: "chars \<Rightarrow> nat \<times> chars" where
  "css_escape cs =
     (let digits = takeWhile (\<lambda>c. hex_char c \<noteq> None) (take 6 cs);
          v = foldl (\<lambda>n c. n * 16 + the (hex_char c)) 0 digits in
      if digits \<noteq> []
      then (if scalar v \<and> v \<noteq> 0 then v else 0xFFFD, skip_css_blank (drop (length digits) cs))
      else (case cs of [] \<Rightarrow> (0xFFFD, []) | c # rest \<Rightarrow> (c, rest)))"

lemma skip_css_blank_shorter: "length (skip_css_blank v) \<le> length v"
  by (auto simp: skip_css_blank_def split: list.split)

lemma css_escape_shorter: "length (snd (css_escape cs)) \<le> length cs"
proof -
  define digits where "digits = takeWhile (\<lambda>c. hex_char c \<noteq> None) (take 6 cs)"
  have "length (skip_css_blank (drop (length digits) cs)) \<le> length cs"
    using skip_css_blank_shorter [of "drop (length digits) cs"] by simp
  then show ?thesis unfolding css_escape_def digits_def [symmetric] Let_def by (simp split: list.split)
qed

lemma css_comment_skip: "length (snd (css_comment (drop 1 cs))) < Suc (length cs)"
  using css_comment_shorter [of "drop 1 cs" "fst (css_comment (drop 1 cs))" "snd (css_comment (drop 1 cs))"] by simp

function css_text :: "chars \<Rightarrow> chars" where
  "css_text [] = []"
| "css_text (c # cs) =
     (if c = 0x2F \<and> take 1 cs = [0x2A] then 0x20 # css_text (snd (css_comment (drop 1 cs)))
      else if c = 0x5C then (case css_escape cs of (v, rest) \<Rightarrow> v # css_text rest)
      else c # css_text cs)"
  by pat_completeness auto
termination
proof (relation "measure length", simp, use css_comment_skip in simp)
  fix c :: nat and cs x :: chars and v rest
  assume "(v, rest) = css_escape cs"
  then show "(rest, c # cs) \<in> measure length" using css_escape_shorter [of cs] by (metis in_measure le_imp_less_Suc length_Cons snd_conv)
qed simp

definition inline_css_text :: "chars \<Rightarrow> chars" where
  "inline_css_text v = (if list_ex (\<lambda>c. c = 0x5C \<or> c = 0x2F) v then css_text v else v)"

definition all_zero :: "chars \<Rightarrow> bool" where
  "all_zero v \<longleftrightarrow> list_all (\<lambda>c. c = 0x30) v"

definition zero_opacity :: "chars \<Rightarrow> bool" where
  "zero_opacity v =
     (let number = (if v \<noteq> [] \<and> last v = 0x25 then butlast v else v);
          number = strip_first (\<lambda>c. c = 0x2B \<or> c = 0x2D) number;
          zero = (\<lambda>mantissa. case split_once_at (\<lambda>c. c = 0x2E) mantissa of
            Some (integer, fraction) \<Rightarrow> fraction \<noteq> [] \<and> all_zero integer \<and> all_zero fraction
          | None \<Rightarrow> mantissa \<noteq> [] \<and> all_zero mantissa) in
      case split_once_at (\<lambda>c. c = 0x65 \<or> c = 0x45) number of
        None \<Rightarrow> zero number
      | Some (mantissa, exponent) \<Rightarrow>
          let exponent = strip_first (\<lambda>c. c = 0x2B \<or> c = 0x2D) exponent in
          exponent \<noteq> [] \<and> list_all is_digit_char exponent \<and> zero mantissa)"

definition declaration_hides :: "chars \<Rightarrow> chars \<Rightarrow> bool" where
  "declaration_hides property v =
     (let property = trim_chars (inline_css_text property); v = inline_css_text v;
          v = trim_chars (case rsplit_once_at (\<lambda>c. c = 0x21) v of
            Some (v', priority) \<Rightarrow> if chars_eq_ignore_case (trim_chars priority) ''important'' then v' else v
          | None \<Rightarrow> v) in
      chars_eq_ignore_case property ''display'' \<and> chars_eq_ignore_case v ''none''
      \<or> chars_eq_ignore_case property ''visibility'' \<and> (chars_eq_ignore_case v ''hidden'' \<or> chars_eq_ignore_case v ''collapse'')
      \<or> chars_eq_ignore_case property ''mso-hide'' \<and> chars_eq_ignore_case v ''all''
      \<or> chars_eq_ignore_case property ''opacity'' \<and> zero_opacity v)"

function inline_style_hides :: "chars \<Rightarrow> bool" where
  "inline_style_hides style =
     (if style = [] then False
      else case css_declaration style of
          (None, rest) \<Rightarrow> False
        | (Some (property, v), rest) \<Rightarrow> declaration_hides property v \<or> inline_style_hides rest)"
  by pat_completeness auto
termination
  by (relation "measure length") (auto dest!: css_declaration_shorter [OF sym])

declare inline_style_hides.simps [simp del]

section \<open>The tree\<close>

text \<open>Elements with their local name and attributes; a comment; documents, doctypes and text are other nodes.\<close>

datatype Html =
    HtmlElement (html_name: string) (html_attributes: "(string \<times> chars) list") (html_template: "Html option") (html_children: "Html list")
  | HtmlComment (html_children: "Html list")
  | HtmlOther (html_text: chars) (html_children: "Html list")

definition removed_elements :: "string list" where
  "removed_elements =
     [''head'', ''script'', ''style'', ''template'', ''noscript'', ''iframe'', ''object'', ''embed'', ''svg'', ''math'',
      ''canvas'', ''audio'', ''video'']"

definition hiding_attribute :: "string \<times> chars \<Rightarrow> bool" where
  "hiding_attribute = (\<lambda>(name, v). name = ''hidden'' \<or> name = ''style'' \<and> inline_style_hides v)"

definition retained_attribute :: "string \<times> chars \<Rightarrow> bool" where
  "retained_attribute = (\<lambda>(name, v). name \<noteq> ''href'' \<or> allowed_link_destination v)"

fun retained_child :: "Html \<Rightarrow> bool" where
  "retained_child (HtmlElement name attributes template cs) \<longleftrightarrow>
     name \<notin> set removed_elements \<and> \<not> list_ex hiding_attribute attributes"
| "retained_child (HtmlComment cs) \<longleftrightarrow> False"
| "retained_child (HtmlOther v cs) \<longleftrightarrow> True"

text \<open>The walk visits every node that is retained; the contents of a template are not visited, but a template is removed.\<close>

fun apply_policy :: "Html \<Rightarrow> Html" and apply_children :: "Html list \<Rightarrow> Html list" where
  "apply_policy (HtmlElement name attributes template cs) =
     HtmlElement name (filter retained_attribute attributes) template (apply_children cs)"
| "apply_policy (HtmlComment cs) = HtmlComment (apply_children cs)"
| "apply_policy (HtmlOther v cs) = HtmlOther v (apply_children cs)"
| "apply_children [] = []"
| "apply_children (c # cs) = (if retained_child c then apply_policy c # apply_children cs else apply_children cs)"

section \<open>What the policy leaves\<close>

text \<open>No node below the root is one the policy removes, and every link anywhere is an allowed one.\<close>

fun policy_clean :: "Html \<Rightarrow> bool" and children_clean :: "Html list \<Rightarrow> bool" where
  "policy_clean (HtmlElement name attributes template cs) \<longleftrightarrow> list_all retained_attribute attributes \<and> children_clean cs"
| "policy_clean (HtmlComment cs) \<longleftrightarrow> children_clean cs"
| "policy_clean (HtmlOther v cs) \<longleftrightarrow> children_clean cs"
| "children_clean [] \<longleftrightarrow> True"
| "children_clean (c # cs) \<longleftrightarrow> retained_child c \<and> policy_clean c \<and> children_clean cs"

lemma retained_applied: "retained_child c \<Longrightarrow> retained_child (apply_policy c)"
  by (cases c) (auto simp: list_ex_iff)

lemma applied_clean: "policy_clean (apply_policy t)" "children_clean (apply_children ts)"
  by (induction t and ts rule: apply_policy_apply_children.induct)
    (auto simp: list_all_iff retained_applied)

lemma length_apply_children: "length (apply_children cs) \<le> length cs"
  by (induction cs) auto

lemma clean_unchanged: "apply_policy t = t \<longleftrightarrow> policy_clean t" "apply_children ts = ts \<longleftrightarrow> children_clean ts"
proof (induction t and ts rule: apply_policy_apply_children.induct)
  case (5 c cs)
  then show ?case using length_apply_children [of cs] by (auto dest: arg_cong [of _ _ length])
qed (auto simp: filter_id_conv list_all_iff)


end
