(* ===== verification/BodySelection.thy ===== *)
theory BodySelection
  imports HtmlPolicy ImapOps "HOL-Library.Sublist"
begin

text \<open>
  The selection of the body of a message (\<open>src/src/imap/body/representation.rs\<close>): the part to read from a MIME structure,
  the headers needed to find the root of related parts, and the agreement of fetched headers with the structure.
\<close>

section \<open>Fields of a structure\<close>

record Selected =
  sel_part :: Part
  sel_media_type :: string
  sel_charset :: string
  sel_transfer_encoding :: string
  sel_wire_size :: nat

record Candidate =
  cand_path :: Part
  cand_media_type :: string
  cand_charset :: string
  cand_transfer_encoding :: string
  cand_wire_size :: nat

definition trim_text :: "string \<Rightarrow> string" where
  "trim_text v = utf8_encode (trim_chars (str_chars v))"

definition is_ascii_control :: "byte \<Rightarrow> bool" where
  "is_ascii_control b \<longleftrightarrow> ord b \<le> 31 \<or> ord b = 127"

text \<open>The trimmed identifier without its angle brackets.\<close>

definition normalize_content_id :: "string \<Rightarrow> string imap" where
  "normalize_content_id v =
     (let v = trim_text v;
          v = (if 2 \<le> length v \<and> hd v = CHR ''<'' \<and> last v = CHR ''>'' then butlast (tl v) else v) in
      if v = [] \<or> length v > 998 \<or> list_ex is_ascii_control v then Inl ImapProtocol else Inr v)"

definition content_id :: "string option \<Rightarrow> string option imap" where
  "content_id v = (case v of None \<Rightarrow> Inr None | Some v \<Rightarrow> and_then (normalize_content_id v) (\<lambda>v. Inr (Some v)))"

definition parameter :: "(string \<times> string) list option \<Rightarrow> string \<Rightarrow> string option" where
  "parameter parameters wanted =
     Option.bind parameters (\<lambda>ps. map_option snd (List.find (\<lambda>(name, _). eq_ignore_ascii_case name wanted) ps))"

definition structure_content_id :: "BodyStructure \<Rightarrow> string option imap" where
  "structure_content_id s = content_id (Option.bind (structure_single s) single_id)"

fun text_media_type :: "BodyStructure \<Rightarrow> string option" where
  "text_media_type (TextStructure c p) =
     (if eq_ignore_ascii_case (common_subtype c) ''plain'' then Some ''text/plain''
      else if eq_ignore_ascii_case (common_subtype c) ''html'' then Some ''text/html'' else None)"
| "text_media_type s = None"

definition candidate_leaf :: "BodyStructure \<Rightarrow> Candidate option imap" where
  "candidate_leaf s =
     (case text_media_type s of
        None \<Rightarrow> Inr None
      | Some media_type \<Rightarrow>
          and_then (ok_or ImapProtocol (structure_single s)) (\<lambda>other.
            Inr (Some \<lparr>cand_path = [], cand_media_type = media_type,
              cand_charset = (case parameter (common_params (structure_common s)) ''charset'' of None \<Rightarrow> ''us-ascii'' | Some v \<Rightarrow> v),
              cand_transfer_encoding = encoding_name (single_encoding other), cand_wire_size = unat (single_octets other)\<rparr>)))"

definition related_root :: "BodyContentCommon \<Rightarrow> string option imap" where
  "related_root own =
     (if eq_ignore_ascii_case (common_subtype own) ''related'' then content_id (parameter (common_params own) ''start'')
      else Inr None)"

definition is_alternative :: "BodyContentCommon \<Rightarrow> bool" where
  "is_alternative own = eq_ignore_ascii_case (common_subtype own) ''alternative''"

section \<open>Selection\<close>

text \<open>What the loop over the children of a multipart keeps: the selection so far and the root, once found.\<close>

record Choice =
  ch_selected :: "Candidate option"
  ch_root :: "Candidate option"
  ch_matched :: bool

definition add_number :: "nat \<Rightarrow> Candidate \<Rightarrow> Candidate" where
  "add_number number c = c\<lparr>cand_path := cand_path c @ [number]\<rparr>"

text \<open>The identifier of a child, from its fetched headers or from the structure.\<close>

definition child_content_id :: "(Part \<Rightarrow> string option) \<Rightarrow> Part \<Rightarrow> BodyStructure \<Rightarrow> string option imap" where
  "child_content_id ids path child =
     and_then (content_id (ids path)) (\<lambda>fetched. and_then (structure_content_id child) (\<lambda>own.
       Inr (case fetched of None \<Rightarrow> own | Some v \<Rightarrow> Some v)))"

definition match_root :: "string option \<Rightarrow> string option imap \<Rightarrow> nat \<Rightarrow> Candidate option \<Rightarrow> Choice \<Rightarrow> (Candidate option \<times> Choice) imap" where
  "match_root root child_id number candidate st =
     (if root = None \<or> ch_matched st then Inr (candidate, st)
      else and_then child_id (\<lambda>v.
        if v = root then Inr (None, st\<lparr>ch_matched := True,
          ch_root := (case candidate of None \<Rightarrow> ch_root st | Some c \<Rightarrow> Some (add_number number c))\<rparr>)
        else Inr (candidate, st)))"

definition prefer_candidate :: "bool \<Rightarrow> nat \<Rightarrow> Candidate option \<Rightarrow> Choice \<Rightarrow> Choice" where
  "prefer_candidate alternative number candidate st =
     (case candidate of
        None \<Rightarrow> st
      | Some c \<Rightarrow>
          if ch_selected st = None
             \<or> alternative \<and> cand_media_type c = ''text/plain''
               \<and> is_some_and (ch_selected st) (\<lambda>s. cand_media_type s \<noteq> ''text/plain'')
          then st\<lparr>ch_selected := Some (add_number number c)\<rparr> else st)"

fun select_part :: "(Part \<Rightarrow> string option) \<Rightarrow> Part \<Rightarrow> BodyStructure \<Rightarrow> Candidate option imap"
  and select_children ::
    "(Part \<Rightarrow> string option) \<Rightarrow> Part \<Rightarrow> bool \<Rightarrow> string option \<Rightarrow> nat \<Rightarrow> BodyStructure list \<Rightarrow> Choice \<Rightarrow> Choice imap" where
  "select_part ids path s =
     (let own = structure_common s in
      if is_attachment (common_disposition own) then Inr None
      else case s of
          MultipartStructure c bodies \<Rightarrow>
            and_then (related_root own) (\<lambda>root.
            and_then (select_children ids path (is_alternative own) root 1 bodies
                \<lparr>ch_selected = None, ch_root = None, ch_matched = False\<rparr>) (\<lambda>st.
              Inr (case ch_root st of None \<Rightarrow> ch_selected st | Some c \<Rightarrow> Some c)))
        | _ \<Rightarrow> candidate_leaf s)"
| "select_children ids path alternative root number [] st = Inr st"
| "select_children ids path alternative root number (child # rest) st =
     (if number \<ge> 2 ^ 32 then Inl ImapLimit
      else and_then (select_part ids (path @ [number]) child) (\<lambda>candidate.
        and_then (match_root root (child_content_id ids (path @ [number]) child) number candidate st) (\<lambda>(candidate, st).
          select_children ids path alternative root (number + 1) rest (prefer_candidate alternative number candidate st))))"

definition select_body :: "BodyStructure \<Rightarrow> ImapLimits \<Rightarrow> (Part \<Rightarrow> string option) \<Rightarrow> Selected option imap" where
  "select_body s l ids =
     and_then (validate_structure s l) (\<lambda>_.
     and_then (select_part ids [] s) (\<lambda>candidate.
       Inr (map_option (\<lambda>c.
         \<lparr>sel_part = (if cand_path c = [] then [1] else rev (cand_path c)), sel_media_type = cand_media_type c,
          sel_charset = cand_charset c, sel_transfer_encoding = map to_ascii_lowercase (cand_transfer_encoding c),
          sel_wire_size = cand_wire_size c\<rparr>) candidate)))"

section \<open>The headers that are needed\<close>

text \<open>What the loop over the children keeps: the media type expected, and whether the structure itself names the root.\<close>

record Forecast =
  fc_selected :: "string option"
  fc_matched :: bool
  fc_paths :: "Part list"

definition forecast_step ::
    "bool \<Rightarrow> string option \<Rightarrow> string option imap \<Rightarrow> string option \<Rightarrow> Forecast \<Rightarrow> Forecast imap" where
  "forecast_step alternative root child_id candidate st =
     (let st = (if fc_selected st = None \<or> alternative \<and> candidate = Some ''text/plain''
                then st\<lparr>fc_selected := candidate\<rparr> else st) in
      if root = None \<or> fc_matched st then Inr st
      else and_then child_id (\<lambda>v.
        Inr (if v = root then st\<lparr>fc_matched := True,
               fc_selected := (case candidate of None \<Rightarrow> fc_selected st | Some c \<Rightarrow> Some c)\<rparr> else st)))"

fun is_multipart :: "BodyStructure \<Rightarrow> bool" where
  "is_multipart (MultipartStructure c bs) = True"
| "is_multipart s = False"

definition forecast_stop :: "bool \<Rightarrow> string option \<Rightarrow> string option \<Rightarrow> bool \<Rightarrow> Forecast \<Rightarrow> bool" where
  "forecast_stop alternative root candidate settled st \<longleftrightarrow>
     (\<not> alternative \<and> root = None \<or> fc_matched st) \<and> fc_selected st \<noteq> None
     \<or> alternative \<and> settled \<and> candidate = Some ''text/plain''"

fun related_headers :: "Part \<Rightarrow> BodyStructure \<Rightarrow> Part list \<Rightarrow> (string option \<times> Part list) imap"
  and related_children ::
    "Part \<Rightarrow> bool \<Rightarrow> string option \<Rightarrow> nat \<Rightarrow> BodyStructure list \<Rightarrow> Forecast \<Rightarrow> Forecast imap" where
  "related_headers path s paths =
     (let own = structure_common s in
      if is_attachment (common_disposition own) then Inr (None, paths)
      else case s of
          MultipartStructure c bodies \<Rightarrow>
            and_then (related_root own) (\<lambda>root.
            and_then (related_children path (is_alternative own) root 1 bodies
                \<lparr>fc_selected = None, fc_matched = False, fc_paths = paths\<rparr>) (\<lambda>st.
              Inr (fc_selected st, fc_paths st)))
        | _ \<Rightarrow> Inr (text_media_type s, paths))"
| "related_children path alternative root number [] st = Inr st"
| "related_children path alternative root number (child # rest) st =
     (if number \<ge> 2 ^ 32 then Inl ImapLimit
      else let named = (if root \<noteq> None \<and> is_multipart child then [path @ [number]] else []) in
        and_then (related_headers (path @ [number]) child (fc_paths st @ named)) (\<lambda>(candidate, paths).
        and_then (forecast_step alternative root (structure_content_id child) candidate (st\<lparr>fc_paths := paths\<rparr>)) (\<lambda>st'.
          if forecast_stop alternative root candidate (length paths = length (fc_paths st)) st' then Inr st'
          else related_children path alternative root (number + 1) rest st')))"

definition related_multipart_headers :: "BodyStructure \<Rightarrow> ImapLimits \<Rightarrow> Part list imap" where
  "related_multipart_headers s l =
     and_then (validate_structure s l) (\<lambda>_. and_then (related_headers [] s []) (\<lambda>(_, paths). Inr paths))"

declare select_part.simps [simp del] select_children.simps(2) [simp del]
declare related_headers.simps [simp del] related_children.simps(2) [simp del]

section \<open>Work\<close>

definition require_work :: "nat \<Rightarrow> ImapLimits \<Rightarrow> unit imap" where
  "require_work work l = (if work > il_decode_steps l then Inl ImapLimit else Inr ())"

definition add_work :: "nat \<Rightarrow> nat \<Rightarrow> ImapLimits \<Rightarrow> nat imap" where
  "add_work work additional l =
     and_then (ok_or ImapLimit (checked_add work additional)) (\<lambda>work. and_then (require_work work l) (\<lambda>_. Inr work))"

definition checked_mul :: "nat \<Rightarrow> nat \<Rightarrow> nat option" where
  "checked_mul a b = (if a * b \<le> usize_max then Some (a * b) else None)"

section \<open>Projection of header values\<close>

definition is_hexdigit :: "byte \<Rightarrow> bool" where
  "is_hexdigit b \<longleftrightarrow> is_ascii_digit b \<or> 65 \<le> ord b \<and> ord b \<le> 70 \<or> 97 \<le> ord b \<and> ord b \<le> 102"

definition header_token :: "string \<Rightarrow> bool" where
  "header_token v \<longleftrightarrow> v \<noteq> [] \<and> list_all (\<lambda>b. 32 < ord b \<and> ord b < 128
     \<and> b \<notin> {CHR ''('', CHR '')'', CHR ''<'', CHR ''>'', CHR ''@'', CHR '','', CHR '';'', CHR '':'', CHR 0x5C, CHR 0x22, CHR ''/'',
            CHR ''['', CHR '']'', CHR ''?'', CHR ''=''}) v"

fun percent_encoded :: "string \<Rightarrow> bool" where
  "percent_encoded [] = True"
| "percent_encoded (b # bs) =
     (if b = CHR 0x25 then (case bs of h # l # rest \<Rightarrow> is_hexdigit h \<and> is_hexdigit l \<and> percent_encoded rest | _ \<Rightarrow> False)
      else b \<noteq> CHR 0x27 \<and> b \<noteq> CHR ''*'' \<and> percent_encoded bs)"

definition encoded_parameter :: "string \<Rightarrow> nat \<Rightarrow> bool" where
  "encoded_parameter v position \<longleftrightarrow>
     (let payload = (if position = 0
        then Option.bind (split_once CHR 0x27 v) (\<lambda>(charset, rest).
          Option.bind (split_once CHR 0x27 rest) (\<lambda>(language, payload).
            if header_token charset \<and> list_all (\<lambda>b. is_ascii_alphanumeric b \<or> b = CHR ''-'') language then Some payload else None))
        else Some v) in
      is_some_and payload (\<lambda>payload. payload \<noteq> [] \<and> percent_encoded payload))"

definition trim_ascii :: "string \<Rightarrow> string" where
  "trim_ascii v = rev (dropWhile is_ascii_whitespace (rev (dropWhile is_ascii_whitespace v)))"

definition quoted_scalar :: "string \<Rightarrow> bool" where
  "quoted_scalar v \<longleftrightarrow> 2 \<le> length v \<and> hd v = CHR 0x22 \<and> last v = CHR 0x22
     \<and> list_all (\<lambda>b. 32 \<le> ord b \<and> ord b \<le> 126 \<and> b \<notin> {CHR 0x22, CHR 0x5C, CHR '';''}) (butlast (tl v))"

text \<open>The number of a continuation; \<open>parse::<u32>\<close> of a string of digits.\<close>

definition parse_u32 :: "string \<Rightarrow> nat option" where
  "parse_u32 v = (let n = foldl (\<lambda>n b. n * 10 + (ord b - 48)) 0 v in if n \<le> u32_max then Some n else None)"

definition parameter_base :: "string \<Rightarrow> string option" where
  "parameter_base segment =
     Option.bind (split_once CHR ''='' (trim_ascii segment)) (\<lambda>(name, v).
       let name = trim_in {CHR '' '', CHR 0x09} name; v = trim_in {CHR '' '', CHR 0x09} v in
       if \<not> header_token name then None
       else if CHR ''*'' \<notin> set name \<and> (v = [] \<or> quoted_scalar v) then Some name
       else
         Option.bind (if take 1 v = [CHR 0x22] then (if 2 \<le> length v \<and> last v = CHR 0x22 then Some (butlast (tl v)) else None)
           else Some v) (\<lambda>v.
         if \<not> header_token v then None
         else case split_once CHR ''*'' name of
             None \<Rightarrow> Some name
           | Some (base, number) \<Rightarrow>
               if base = [] then None
               else if number = [] then (if encoded_parameter v 0 then Some base else None)
               else let encoded = (last number = CHR ''*''); number = (if encoded then butlast number else number) in
                 if number = [] \<or> \<not> list_all is_ascii_digit number then None
                 else Option.bind (parse_u32 number) (\<lambda>position.
                   if encoded \<and> \<not> encoded_parameter v position then None else Some base)))"

definition keep_segment :: "string \<Rightarrow> bool \<Rightarrow> string option \<Rightarrow> bool option" where
  "keep_segment segment first wanted =
     (if first
      then (case split_on CHR ''/'' (trim_ascii segment) of
              [v] \<Rightarrow> if header_token v then Some True else None
            | [v, w] \<Rightarrow> if header_token v \<and> header_token w then Some True else None
            | _ \<Rightarrow> None)
      else if trim_ascii segment = [] then Some False
      else map_option (\<lambda>name. is_some_and wanted (\<lambda>wanted.
          eq_ignore_ascii_case name wanted \<or> eq_ignore_ascii_case name (wanted @ ''-language''))) (parameter_base segment))"

fun projected_segments :: "string option \<Rightarrow> nat \<Rightarrow> string list \<Rightarrow> string option" where
  "projected_segments wanted index [] = Some []"
| "projected_segments wanted index (segment # rest) =
     Option.bind (keep_segment segment (index = 0) wanted) (\<lambda>keep.
     Option.bind (projected_segments wanted (index + 1) rest) (\<lambda>v.
       Some ((if keep then (if index \<noteq> 0 then '';'' else []) @ segment else []) @ v)))"

fun contains_encoded_word :: "string \<Rightarrow> bool" where
  "contains_encoded_word (a # b # v) = (a = CHR ''='' \<and> b = CHR ''?'' \<or> contains_encoded_word (b # v))"
| "contains_encoded_word _ = False"

text \<open>Anything uncertain keeps the whole value.\<close>

definition projected_mime_value :: "bytes \<Rightarrow> string option \<Rightarrow> bytes" where
  "projected_mime_value raw wanted =
     (if contains_encoded_word raw
        \<or> list_ex (\<lambda>b. 128 \<le> ord b \<or> is_ascii_control b \<and> b \<notin> {CHR 0x09, CR, LF}) raw
      then raw
      else case projected_segments wanted 0 (split_on CHR '';'' (trim_ascii raw)) of
          None \<Rightarrow> raw | Some v \<Rightarrow> v @ [CR, LF])"

section \<open>Validation of headers\<close>

text \<open>\<open>HeaderName\<close> and \<open>HeaderForm\<close> of the mail parser: names, message identifiers, content types and raw values.\<close>

datatype MimeHeader = ContentId | ContentTypeField | ContentDispositionField | ContentTransferEncodingField | OtherField

record ParsedContentType =
  pct_type :: string
  pct_subtype :: "string option"
  pct_attribute :: "string \<Rightarrow> string option"

record header_host =
  hh_name :: "string \<Rightarrow> MimeHeader option"
  hh_message_ids :: "bytes \<Rightarrow> string option"
  hh_content_type :: "bytes \<Rightarrow> ParsedContentType option"
  hh_raw :: "bytes \<Rightarrow> string option"

definition complete_headers :: "bytes \<Rightarrow> bool" where
  "complete_headers raw \<longleftrightarrow> raw = [CR, LF] \<or> suffix [CR, LF, CR, LF] raw \<or> suffix [LF, LF] raw"

text \<open>Every trigger counts: stars, quotes and openings of encoded words.\<close>

fun identity_attempts :: "bytes \<Rightarrow> nat \<Rightarrow> nat imap" where
  "identity_attempts [] n = Inr n"
| "identity_attempts (b # bs) n =
     (if b = CHR ''*'' \<or> b = CHR 0x27 \<or> b = CHR ''='' \<and> take 1 bs = ''?''
      then and_then (ok_or ImapLimit (checked_add n 1)) (identity_attempts bs) else identity_attempts bs n)"

definition mime_identity_parser_work :: "bytes \<Rightarrow> nat imap" where
  "mime_identity_parser_work v =
     and_then (identity_attempts v 1) (\<lambda>attempts.
       ok_or ImapLimit (Option.bind (checked_mul (length v) attempts) (\<lambda>work. checked_mul work 16)))"

text \<open>The last field of a name counts.\<close>

definition last_field :: "MimeHeader \<Rightarrow> (MimeHeader \<times> bytes) list \<Rightarrow> bytes option" where
  "last_field name fs = map_option snd (List.find (\<lambda>(n, _). n = name) (rev fs))"

definition media_of :: "ParsedContentType option \<Rightarrow> string \<times> string" where
  "media_of v =
     (case v of
        None \<Rightarrow> (''text/plain'', ''us-ascii'')
      | Some t \<Rightarrow>
          (map to_ascii_lowercase (pct_type t @ ''/'' @ (case pct_subtype t of None \<Rightarrow> ''plain'' | Some v \<Rightarrow> v)),
           case pct_attribute t ''charset'' of None \<Rightarrow> ''us-ascii'' | Some v \<Rightarrow> v))"

definition headers_agree :: "header_host \<Rightarrow> Selected \<Rightarrow> ImapLimits \<Rightarrow> (MimeHeader \<times> bytes) list \<Rightarrow> unit imap" where
  "headers_agree h sel l fs =
     (let bytes_of = (\<lambda>v. case v of None \<Rightarrow> [] | Some v \<Rightarrow> v);
          content_type = projected_mime_value (bytes_of (last_field ContentTypeField fs)) (Some ''charset'');
          disposition = projected_mime_value (bytes_of (last_field ContentDispositionField fs)) None in
      and_then (mime_identity_parser_work content_type) (\<lambda>w. and_then (add_work 0 w l) (\<lambda>work.
      and_then (mime_identity_parser_work disposition) (\<lambda>w. and_then (add_work work w l) (\<lambda>_.
        let (media_type, charset) = media_of (hh_content_type h content_type);
            encoding = (case Option.bind (last_field ContentTransferEncodingField fs) (hh_raw h) of
              None \<Rightarrow> ''7bit'' | Some v \<Rightarrow> if v = [] then ''7bit'' else v) in
        if media_type \<noteq> sel_media_type sel
           \<or> \<not> eq_ignore_ascii_case (trim_text charset) (sel_charset sel)
           \<or> \<not> eq_ignore_ascii_case (trim_text encoding) (sel_transfer_encoding sel)
           \<or> is_some_and (hh_content_type h disposition) (\<lambda>v. eq_ignore_ascii_case (pct_type v) ''attachment'')
        then Inl ImapProtocol else Inr ())))))"

definition validate_headers :: "header_host \<Rightarrow> bytes \<Rightarrow> Selected option \<Rightarrow> ImapLimits \<Rightarrow> string option imap" where
  "validate_headers h raw selected l =
     (if raw = [] \<or> length raw > il_header_bytes l \<or> \<not> complete_headers raw then Inl ImapLimit
      else if raw = [CR, LF]
      then (if is_some_and selected (\<lambda>sel. sel_media_type sel \<noteq> ''text/plain''
              \<or> \<not> eq_ignore_ascii_case (sel_charset sel) ''us-ascii''
              \<or> \<not> eq_ignore_ascii_case (sel_transfer_encoding sel) ''7bit'') then Inl ImapProtocol else Inr None)
      else let fs = header_fields (hh_name h) raw in
        and_then (content_id (Option.bind (last_field ContentId fs) (hh_message_ids h))) (\<lambda>id'.
        and_then (case selected of None \<Rightarrow> Inr () | Some sel \<Rightarrow> headers_agree h sel l fs) (\<lambda>_. Inr id')))"

end
