(* ===== verification/BodyRendering.thy ===== *)
theory BodyRendering
  imports BodySelection
begin

text \<open>
  Bounded rendering of a selected body (\<open>src/src/imap/body/representation.rs\<close>): transfer decoding with a visible mark for
  recovery, the character set, and HTML as text. The decoders of the mail parser, the character sets and the HTML parser and
  renderer are parameters. Capacities of buffers are not modelled.
\<close>

section \<open>Parameters\<close>

text \<open>
  \<open>Encoding::decode\<close> of the mail parser, the strict base64 engine, \<open>encoding_rs\<close> by label with whether there were errors,
  and \<open>html2text\<close>.
\<close>

record render_host =
  rn_base64 :: "bytes \<Rightarrow> bytes"
  rn_quoted_printable :: "bytes \<Rightarrow> bytes"
  rn_strict_base64 :: "bytes \<Rightarrow> bytes option"
  rn_charset :: "string \<Rightarrow> (bytes \<Rightarrow> string \<times> bool) option"
  rn_parse_html :: "string \<Rightarrow> Html option"
  rn_render_html :: "Html \<Rightarrow> nat \<Rightarrow> string option"

record Rendered =
  rnd_text :: string
  rnd_converted :: bool
  rnd_replacements :: bool
  rnd_work :: nat

section \<open>Transfer decoding\<close>

definition base64_alphabet :: "byte \<Rightarrow> bool" where
  "base64_alphabet b \<longleftrightarrow> is_ascii_alphanumeric b \<or> b = CHR ''+'' \<or> b = CHR ''/''"

definition transport_blank :: "byte \<Rightarrow> bool" where
  "transport_blank b \<longleftrightarrow> b \<in> {CHR '' '', CHR 0x09, CR, LF}"

text \<open>The end of the prefix that decodes on its own, and whether the whole is well formed.\<close>

fun scan_base64_from :: "(bytes \<Rightarrow> bytes option) \<Rightarrow> bytes \<Rightarrow> nat \<Rightarrow> nat \<Rightarrow> bytes \<Rightarrow> bool \<Rightarrow> nat \<times> bool" where
  "scan_base64_from decode [] index complete quad padded = (complete, quad = [])"
| "scan_base64_from decode (b # bs) index complete quad padded =
     (if transport_blank b then scan_base64_from decode bs (index + 1) complete quad padded
      else if padded \<or> \<not> (base64_alphabet b \<or> b = CHR ''='') then (complete, False)
      else let quad = quad @ [b] in
        if length quad = 4
        then (if CHR ''='' \<in> set quad \<and> decode quad = None then (complete, False)
              else scan_base64_from decode bs (index + 1) (index + 1) [] (quad ! 2 = CHR ''='' \<or> quad ! 3 = CHR ''=''))
        else scan_base64_from decode bs (index + 1) complete quad padded)"

definition scan_base64 :: "(bytes \<Rightarrow> bytes option) \<Rightarrow> bytes \<Rightarrow> nat \<times> bool" where
  "scan_base64 decode wire = scan_base64_from decode wire 0 0 [] False"

definition decode_base64 :: "render_host \<Rightarrow> bytes \<Rightarrow> bytes \<times> bool" where
  "decode_base64 h wire =
     (case scan_base64 (rn_strict_base64 h) wire of (complete, well_formed) \<Rightarrow>
        let input = (if list_all (\<lambda>b. base64_alphabet b \<or> b = CHR ''='' \<or> transport_blank b) wire then wire
                     else take complete wire) in
        (rn_base64 h input, \<not> well_formed))"

text \<open>The length of the prefix that is strictly quoted-printable.\<close>

fun quoted_printable_prefix_len :: "bytes \<Rightarrow> nat" where
  "quoted_printable_prefix_len [] = 0"
| "quoted_printable_prefix_len (b # bs) =
     (if b \<noteq> CHR ''=''
      then (if b = CR \<and> take 1 bs = [LF] then 2 + quoted_printable_prefix_len (drop 1 bs)
            else if b = CHR 0x09 \<or> 32 \<le> ord b \<and> ord b \<le> 126 then 1 + quoted_printable_prefix_len bs else 0)
      else case bs of
          next' # last' # rest \<Rightarrow>
            if next' = CR \<and> last' = LF \<or> is_hexdigit next' \<and> is_hexdigit last' then 3 + quoted_printable_prefix_len rest else 0
        | _ \<Rightarrow> 0)"

text \<open>The length of the prefix whose escapes are valid, soft line breaks with trailing blanks included.\<close>

definition blank_run :: "bytes \<Rightarrow> nat" where
  "blank_run bs = length (takeWhile (\<lambda>b. b = CHR '' '' \<or> b = CHR 0x09) bs)"

function escape_prefix_len :: "bytes \<Rightarrow> nat" where
  "escape_prefix_len [] = 0"
| "escape_prefix_len (b # bs) =
     (if b \<noteq> CHR ''='' then 1 + escape_prefix_len bs
      else if 2 \<le> length bs \<and> (take 2 bs = [CR, LF] \<or> list_all is_hexdigit (take 2 bs)) then 3 + escape_prefix_len (drop 2 bs)
      else if take 1 bs = [LF] then 2 + escape_prefix_len (drop 1 bs)
      else let blanks = blank_run bs; rest = drop blanks bs in
        if take 2 rest = [CR, LF] then 1 + blanks + 2 + escape_prefix_len (drop 2 rest)
        else if take 1 rest = [LF] then 1 + blanks + 1 + escape_prefix_len (drop 1 rest)
        else 0)"
  by pat_completeness auto
termination
  by (relation "measure length") auto

definition decode_quoted_printable :: "render_host \<Rightarrow> bytes \<Rightarrow> bytes \<times> bool" where
  "decode_quoted_printable h wire =
     (rn_quoted_printable h (take (escape_prefix_len wire) wire), quoted_printable_prefix_len wire \<noteq> length wire)"

definition decode_transfer :: "render_host \<Rightarrow> bytes \<Rightarrow> string \<Rightarrow> bytes \<times> bool" where
  "decode_transfer h wire encoding =
     (let encoding = trim_text encoding in
      if encoding = ''7bit'' \<or> encoding = ''8bit'' \<or> encoding = ''binary'' then (wire, False)
      else if encoding = ''base64'' then decode_base64 h wire
      else if encoding = ''quoted-printable'' then decode_quoted_printable h wire
      else (wire, True))"

section \<open>Character sets\<close>

text \<open>
  \<open>String::from_utf8_lossy\<close>: each maximal subpart of an ill-formed sequence becomes one U+FFFD. A subpart is a first byte
  with the continuation bytes that can follow it.
\<close>

definition second_byte :: "nat \<Rightarrow> nat \<Rightarrow> bool" where
  "second_byte a b \<longleftrightarrow>
     (if a = 0xE0 then 0xA0 \<le> b \<and> b \<le> 0xBF else if a = 0xED then 0x80 \<le> b \<and> b \<le> 0x9F
      else if a = 0xF0 then 0x90 \<le> b \<and> b \<le> 0xBF else if a = 0xF4 then 0x80 \<le> b \<and> b \<le> 0x8F else 0x80 \<le> b \<and> b \<le> 0xBF)"

definition ill_formed_len :: "bytes \<Rightarrow> nat" where
  "ill_formed_len v =
     (case v of
        a # b # rest \<Rightarrow>
          if 0xE0 \<le> ord a \<and> ord a \<le> 0xF4 \<and> second_byte (ord a) (ord b)
          then (case rest of
                  c # _ \<Rightarrow> if 0xF0 \<le> ord a \<and> continuation c then 3 else 2
                | [] \<Rightarrow> 2)
          else 1
      | _ \<Rightarrow> 1)"

function utf8_lossy :: "bytes \<Rightarrow> string" where
  "utf8_lossy [] = []"
| "utf8_lossy (a # v) =
     (case utf8_next (a # v) of
        Some (c, rest) \<Rightarrow> utf8_char c @ utf8_lossy rest
      | None \<Rightarrow> utf8_char 0xFFFD @ utf8_lossy (drop (ill_formed_len (a # v)) (a # v)))"
  by pat_completeness auto
termination
proof (relation "measure length", simp)
  fix a v x and c :: nat and rest
  assume "utf8_next (a # v) = Some x" "(c, rest) = x"
  then show "(rest, a # v) \<in> measure length" using utf8_next_shorter [of "a # v" c rest] by simp
next
  fix a v
  have "0 < ill_formed_len (a # v)" by (auto simp: ill_formed_len_def split: list.splits)
  then show "(drop (ill_formed_len (a # v)) (a # v), a # v) \<in> measure length" by simp
qed

definition decode_charset :: "render_host \<Rightarrow> bytes \<Rightarrow> string \<Rightarrow> string \<times> bool" where
  "decode_charset h bs charset =
     (case rn_charset h (trim_text charset) of None \<Rightarrow> (utf8_lossy bs, True) | Some decode \<Rightarrow> decode bs)"

section \<open>HTML\<close>

definition HTML_TABLE_SPAN_LIMIT :: nat where
  "HTML_TABLE_SPAN_LIMIT = 8"

definition HTML_TABLE_CELL_LIMIT :: nat where
  "HTML_TABLE_CELL_LIMIT = 128"

definition HTML_RENDER_WIDTH :: nat where
  "HTML_RENDER_WIDTH = 80"

text \<open>\<open>parse::<usize>\<close> of an attribute.\<close>

definition parse_usize :: "chars \<Rightarrow> nat option" where
  "parse_usize v =
     (let digits = strip_first (\<lambda>c. c = 0x2B) v; n = foldl (\<lambda>n c. n * 10 + (c - 48)) 0 digits in
      if digits \<noteq> [] \<and> list_all is_digit_char digits \<and> n \<le> usize_max then Some n else None)"

definition clamp_span :: "string \<times> chars \<Rightarrow> string \<times> chars" where
  "clamp_span = (\<lambda>(name, v).
     if name = ''colspan'' \<or> name = ''rowspan''
     then (name, lit (show_nat (min HTML_TABLE_SPAN_LIMIT (max 1 (case parse_usize v of None \<Rightarrow> 1 | Some n \<Rightarrow> n))))) else (name, v))"

definition table_cell :: "string \<Rightarrow> bool" where
  "table_cell name \<longleftrightarrow> name = ''td'' \<or> name = ''th''"

record Preflight =
  pf_nodes :: nat
  pf_attributes :: nat
  pf_cells :: nat
  pf_work :: nat

definition node_limit :: "ImapLimits \<Rightarrow> nat" where
  "node_limit l = min 4096 (max 1 (il_decode_steps l div 32))"

definition preflight_node :: "ImapLimits \<Rightarrow> nat \<Rightarrow> Html \<Rightarrow> Preflight \<Rightarrow> Preflight imap" where
  "preflight_node l depth t p =
     (let nodes = pf_nodes p + 1 in
      if nodes > node_limit l \<or> depth > il_nesting l then Inl ImapLimit
      else and_then (add_work (pf_work p) 1 l) (\<lambda>work.
        let p = p\<lparr>pf_nodes := nodes, pf_work := work\<rparr> in
        case t of
          HtmlElement name attributes template cs \<Rightarrow>
            let n = pf_attributes p + length attributes; cells = (if table_cell name then pf_cells p + 1 else pf_cells p) in
            if n > saturating_mul (node_limit l) 4 \<or> cells > HTML_TABLE_CELL_LIMIT then Inl ImapLimit
            else Inr (p\<lparr>pf_attributes := n, pf_cells := cells\<rparr>)
        | _ \<Rightarrow> Inr p))"

text \<open>
  The walk counts every node, contents of templates included. The source keeps the nodes to visit on a stack; every
  failure is the same, so the order of the visits is not observable.
\<close>

fun preflight_html :: "ImapLimits \<Rightarrow> nat \<Rightarrow> Html \<Rightarrow> Preflight \<Rightarrow> Preflight imap"
  and preflight_template :: "ImapLimits \<Rightarrow> nat \<Rightarrow> Html option \<Rightarrow> Preflight \<Rightarrow> Preflight imap"
  and preflight_children :: "ImapLimits \<Rightarrow> nat \<Rightarrow> Html list \<Rightarrow> Preflight \<Rightarrow> Preflight imap" where
  "preflight_html l depth (HtmlElement name attributes template cs) p =
     and_then (preflight_node l depth (HtmlElement name attributes template cs) p) (\<lambda>p.
     and_then (preflight_template l (depth + 1) template p) (preflight_children l (depth + 1) cs))"
| "preflight_html l depth (HtmlComment cs) p =
     and_then (preflight_node l depth (HtmlComment cs) p) (preflight_children l (depth + 1) cs)"
| "preflight_html l depth (HtmlOther v cs) p =
     and_then (preflight_node l depth (HtmlOther v cs) p) (preflight_children l (depth + 1) cs)"
| "preflight_template l depth None p = Inr p"
| "preflight_template l depth (Some t) p = preflight_html l depth t p"
| "preflight_children l depth [] p = Inr p"
| "preflight_children l depth (c # cs) p = and_then (preflight_html l depth c p) (preflight_children l depth cs)"

text \<open>The same walk clamps the spans of table cells.\<close>

fun clamp_spans :: "Html \<Rightarrow> Html" and clamp_template :: "Html option \<Rightarrow> Html option" and clamp_children :: "Html list \<Rightarrow> Html list" where
  "clamp_spans (HtmlElement name attributes template cs) =
     HtmlElement name (if table_cell name then map clamp_span attributes else attributes) (clamp_template template) (clamp_children cs)"
| "clamp_spans (HtmlComment cs) = HtmlComment (clamp_children cs)"
| "clamp_spans (HtmlOther v cs) = HtmlOther v (clamp_children cs)"
| "clamp_template None = None"
| "clamp_template (Some t) = Some (clamp_spans t)"
| "clamp_children [] = []"
| "clamp_children (c # cs) = clamp_spans c # clamp_children cs"

definition render_html :: "render_host \<Rightarrow> string \<Rightarrow> ImapLimits \<Rightarrow> nat \<Rightarrow> (string \<times> nat) imap" where
  "render_html h v l work =
     (let source_limit = min (il_decoded_bytes l div 16) (64 * 1024) in
      if source_limit = 0 \<or> length v > source_limit then Inl ImapLimit
      else and_then (ok_or ImapLimit (checked_mul (length v) (length (filter (\<lambda>b. b = CHR ''<'') v) + 1))) (\<lambda>parser_work.
        and_then (add_work work parser_work l) (\<lambda>work.
        and_then (ok_or ImapProtocol (rn_parse_html h v)) (\<lambda>dom.
        and_then (preflight_html l 1 dom \<lparr>pf_nodes = 0, pf_attributes = 0, pf_cells = 0, pf_work = work\<rparr>) (\<lambda>p.
        and_then (ok_or ImapLimit (Option.bind (checked_mul (length v) 16) (\<lambda>n. checked_add n (pf_nodes p)))) (\<lambda>policy_work.
        and_then (add_work (pf_work p) policy_work l) (\<lambda>work.
        and_then (ok_or ImapLimit (Option.bind (checked_mul (length v) (il_nesting l)) (\<lambda>n.
            Option.bind (checked_add n (pf_nodes p * HTML_RENDER_WIDTH)) (\<lambda>n.
              checked_add n (HTML_TABLE_CELL_LIMIT * HTML_TABLE_SPAN_LIMIT * HTML_RENDER_WIDTH))))) (\<lambda>render_bound.
        if render_bound > il_decoded_bytes l then Inl ImapLimit
        else and_then (add_work work render_bound l) (\<lambda>work.
          and_then (ok_or ImapProtocol (rn_render_html h (apply_policy (clamp_spans dom)) HTML_RENDER_WIDTH)) (\<lambda>v.
          and_then (add_work work (length v) l) (\<lambda>work. Inr (v, work))))))))))))"

section \<open>Rendering\<close>

definition render :: "render_host \<Rightarrow> Selected \<Rightarrow> bytes \<Rightarrow> ImapLimits \<Rightarrow> Rendered imap" where
  "render h sel wire l =
     (if length wire > il_body_wire_bytes l \<or> sel_wire_size sel > il_body_wire_bytes l then Inl ImapLimit
      else and_then (require_work (length wire) l) (\<lambda>_.
        if length wire > il_decoded_bytes l then Inl ImapLimit
        else and_then (ok_or ImapLimit (checked_mul (length wire) 4)) (\<lambda>transfer_work.
          and_then (add_work (length wire) transfer_work l) (\<lambda>work.
          case decode_transfer h wire (sel_transfer_encoding sel) of (content, transfer_replacements) \<Rightarrow>
          if length content > il_decoded_bytes l then Inl ImapLimit
          else and_then (add_work work (length content) l) (\<lambda>work.
            if length content > il_decoded_bytes l div 3 then Inl ImapLimit
            else and_then (ok_or ImapLimit (checked_add work (length content * 3))) (\<lambda>admitted.
              and_then (require_work admitted l) (\<lambda>_.
              case decode_charset h content (sel_charset sel) of (v, charset_replacements) \<Rightarrow>
              let replacements = (transfer_replacements \<or> charset_replacements);
                  v = (if replacements then utf8_char 0xFFFD @ v else v);
                  converted = (sel_media_type sel = ''text/html'') in
              and_then (add_work work (length v) l) (\<lambda>work.
              and_then (if converted then render_html h v l work else Inr (v, work)) (\<lambda>(v, work).
                if length v > il_decoded_bytes l then Inl ImapLimit
                else Inr \<lparr>rnd_text = v, rnd_converted = converted, rnd_replacements = replacements, rnd_work = work\<rparr>)))))))))"

section \<open>Bounds and marks\<close>

lemma add_work_Inr: "add_work work n l = Inr work' \<longleftrightarrow> work' = work + n \<and> work' \<le> usize_max \<and> work' \<le> il_decode_steps l"
  by (auto simp: add_work_def require_work_def checked_add_def ok_or_def split: if_splits)

lemma require_work_Inr: "require_work work l = Inr u \<longleftrightarrow> work \<le> il_decode_steps l"
  by (simp add: require_work_def)

lemma escape_prefix_strict: "quoted_printable_prefix_len wire = length wire \<Longrightarrow> escape_prefix_len wire = length wire"
proof (induction wire rule: quoted_printable_prefix_len.induct)
  case (2 b bs)
  show ?case
  proof (cases "b = CHR ''=''")
    case False
    show ?thesis
    proof (cases "b = CR \<and> take 1 bs = [LF]")
      case True
      then obtain cs where cs: "bs = LF # cs" by (cases bs) auto
      have "quoted_printable_prefix_len cs = length cs" using 2(4) True False by (simp add: cs)
      then have "escape_prefix_len cs = length cs" using 2(1) False True by (simp add: cs)
      then show ?thesis using True by (simp add: cs)
    next
      case plain: False
      then have "quoted_printable_prefix_len bs = length bs" using 2(4) False by (auto split: if_splits)
      then show ?thesis using 2(2) plain False 2(4) by (auto split: if_splits)
    qed
  next
    case True
    then obtain c d cs where bs: "bs = c # d # cs" "c = CR \<and> d = LF \<or> is_hexdigit c \<and> is_hexdigit d"
      "quoted_printable_prefix_len cs = length cs"
      using 2(4) by (auto split: list.splits if_splits)
    then have "escape_prefix_len cs = length cs" using 2(3) True by (auto simp: numeral_eq_Suc)
    then show ?thesis using bs True by auto
  qed
qed simp

lemma scan_base64_alphabet:
  "scan_base64_from decode wire index complete quad padded = (n, True) \<Longrightarrow>
     list_all (\<lambda>b. base64_alphabet b \<or> b = CHR ''='' \<or> transport_blank b) wire"
  by (induction wire arbitrary: index complete quad padded) (auto simp: Let_def split: if_splits)

text \<open>What decodes without a mark was decoded as a whole.\<close>

definition whole_transfer :: "render_host \<Rightarrow> bytes \<Rightarrow> string \<Rightarrow> bytes" where
  "whole_transfer h wire encoding =
     (if trim_text encoding = ''base64'' then rn_base64 h wire
      else if trim_text encoding = ''quoted-printable'' then rn_quoted_printable h wire else wire)"

lemma decode_transfer_whole:
  assumes "decode_transfer h wire encoding = (content, False)"
  shows "content = whole_transfer h wire encoding
    \<and> trim_text encoding \<in> {''7bit'', ''8bit'', ''binary'', ''base64'', ''quoted-printable''}"
proof -
  have "decode_base64 h wire = (content, False) \<Longrightarrow> content = rn_base64 h wire"
    using scan_base64_alphabet [of "rn_strict_base64 h" wire 0 0 "[]" False]
    by (auto simp: decode_base64_def scan_base64_def Let_def split: prod.splits if_splits)
  moreover have "decode_quoted_printable h wire = (content, False) \<Longrightarrow> content = rn_quoted_printable h wire"
    using escape_prefix_strict [of wire] by (auto simp: decode_quoted_printable_def)
  ultimately show ?thesis using assms by (auto simp: decode_transfer_def whole_transfer_def Let_def split: if_splits)
qed

lemma render_html_Inr:
  "render_html h v l work = Inr (v', work') \<Longrightarrow>
     work' \<le> il_decode_steps l
     \<and> (\<exists>dom. rn_parse_html h v = Some dom
         \<and> rn_render_html h (apply_policy (clamp_spans dom)) HTML_RENDER_WIDTH = Some v')"
  by (auto simp: render_html_def Let_def add_work_Inr ok_or_def split: if_splits option.splits)


section \<open>An example\<close>

definition example_render_host :: render_host where
  "example_render_host = \<lparr>rn_base64 = id, rn_quoted_printable = id, rn_strict_base64 = Some,
     rn_charset = (\<lambda>name. if name = ''utf-8'' then Some (\<lambda>v. (v, False)) else None),
     rn_parse_html = (\<lambda>v. None), rn_render_html = (\<lambda>t width. None)\<rparr>"

definition example_selection :: Selected where
  "example_selection = \<lparr>sel_part = [1], sel_media_type = ''text/plain'', sel_charset = '' utf-8 '', sel_transfer_encoding = ''8bit'',
     sel_wire_size = 5\<rparr>"

lemma example_rendered:
  "render example_render_host example_selection ''hello'' imap_limits_default =
     Inr \<lparr>rnd_text = ''hello'', rnd_converted = False, rnd_replacements = False, rnd_work = 35\<rparr>"
  by code_simp


end
