(* ===== verification/BodySelected.thy ===== *)
theory BodySelected
  imports BodyRendering
begin

text \<open>
  What the selection of a body means: the selected part is a text leaf of the structure outside every attachment, there is one
  exactly if there is such a leaf, and the headers asked for are all that can change the selection.
\<close>

section \<open>Leaves\<close>

text \<open>The leaf at a path, if no part on the way is an attachment.\<close>

fun body_leaf :: "Part \<Rightarrow> BodyStructure \<Rightarrow> BodyStructure option" where
  "body_leaf p s =
     (if is_attachment (common_disposition (structure_common s)) then None
      else case s of
          MultipartStructure c bodies \<Rightarrow>
            (case p of
               [] \<Rightarrow> None
             | n # p \<Rightarrow> if 1 \<le> n \<and> n \<le> length bodies then body_leaf p (bodies ! (n - 1)) else None)
        | _ \<Rightarrow> if p = [] then Some s else None)"

declare body_leaf.simps [simp del]

text \<open>A candidate and the leaf it stands for.\<close>

definition candidate_of :: "BodyStructure \<Rightarrow> Candidate \<Rightarrow> bool" where
  "candidate_of s c \<longleftrightarrow>
     (\<exists>leaf. body_leaf (rev (cand_path c)) s = Some leaf \<and> candidate_leaf leaf = Inr (Some (c\<lparr>cand_path := []\<rparr>)))"

definition has_text :: "BodyStructure \<Rightarrow> bool" where
  "has_text s \<longleftrightarrow> (\<exists>p leaf. body_leaf p s = Some leaf \<and> text_media_type leaf \<noteq> None)"

lemma candidate_leaf_Inr:
  "candidate_leaf s = Inr r \<Longrightarrow> (case r of
      None \<Rightarrow> text_media_type s = None
    | Some c \<Rightarrow> cand_path c = [] \<and> text_media_type s = Some (cand_media_type c))"
  by (auto simp: candidate_leaf_def split: option.splits)

lemma candidate_of_child:
  assumes "candidate_of (bodies ! k) c" and "k < length bodies"
    and "\<not> is_attachment (common_disposition com)"
  shows "candidate_of (MultipartStructure com bodies) (add_number (k + 1) c)"
  using assms by (auto simp: candidate_of_def add_number_def body_leaf.simps [of "_ # _"])

lemma has_text_multipart:
  assumes "\<not> is_attachment (common_disposition com)"
  shows "has_text (MultipartStructure com bodies) \<longleftrightarrow> (\<exists>s \<in> set bodies. has_text s)"
proof
  assume "has_text (MultipartStructure com bodies)"
  then obtain p leaf where p: "body_leaf p (MultipartStructure com bodies) = Some leaf" "text_media_type leaf \<noteq> None"
    unfolding has_text_def by blast
  then obtain n q where "p = n # q" "1 \<le> n" "n \<le> length bodies" "body_leaf q (bodies ! (n - 1)) = Some leaf"
    using assms by (subst (asm) body_leaf.simps) (auto split: list.splits if_splits)
  then have "has_text (bodies ! (n - 1))" "bodies ! (n - 1) \<in> set bodies" unfolding has_text_def using p(2) by auto
  then show "\<exists>s \<in> set bodies. has_text s" by blast
next
  assume "\<exists>s \<in> set bodies. has_text s"
  then obtain k p leaf where "k < length bodies" "body_leaf p (bodies ! k) = Some leaf" "text_media_type leaf \<noteq> None"
    by (auto simp: has_text_def in_set_conv_nth)
  then have "body_leaf ((k + 1) # p) (MultipartStructure com bodies) = Some leaf"
    using assms by (subst body_leaf.simps) simp
  then show "has_text (MultipartStructure com bodies)" using \<open>text_media_type leaf \<noteq> None\<close> by (auto simp: has_text_def)
qed

section \<open>Selection\<close>

definition choice_result :: "Choice \<Rightarrow> Candidate option" where
  "choice_result st = (case ch_root st of None \<Rightarrow> ch_selected st | Some c \<Rightarrow> Some c)"

lemma match_root_Inr:
  assumes "match_root root v number candidate st = Inr (candidate', st')"
  shows "(candidate' = candidate \<and> st' = st)
    \<or> (candidate' = None \<and> ch_selected st' = ch_selected st \<and> ch_matched st'
       \<and> ch_root st' = (case candidate of None \<Rightarrow> ch_root st | Some c \<Rightarrow> Some (add_number number c)))"
  using assms by (auto simp: match_root_def split: if_splits)

lemma selection_sound:
  "select_part ids path s = Inr r \<Longrightarrow> (case r of None \<Rightarrow> \<not> has_text s | Some c \<Rightarrow> candidate_of s c)"
  "select_children ids path alternative root number bodies st = Inr st' \<Longrightarrow>
     \<not> is_attachment (common_disposition com) \<Longrightarrow> number = length before + 1 \<Longrightarrow>
     (\<forall>c. ch_root st = Some c \<or> ch_selected st = Some c \<longrightarrow> candidate_of (MultipartStructure com (before @ bodies)) c) \<Longrightarrow>
     (\<forall>c. ch_root st' = Some c \<or> ch_selected st' = Some c \<longrightarrow> candidate_of (MultipartStructure com (before @ bodies)) c)
     \<and> (choice_result st' = None \<longrightarrow> choice_result st = None \<and> (\<forall>s \<in> set bodies. \<not> has_text s))"
proof (induction ids path s and ids path alternative root number bodies st arbitrary: r and st' before com
    rule: select_part_select_children.induct)
  case (1 ids path s)
  show ?case
  proof (cases "is_attachment (common_disposition (structure_common s))")
    case True
    then have "body_leaf p s = None" for p by (subst body_leaf.simps) simp
    then show ?thesis using True 1(2) by (subst (asm) select_part.simps) (auto simp: has_text_def Let_def)
  next
    case open': False
    show ?thesis
    proof (cases "is_multipart s")
      case True
      then obtain com bodies where s: "s = MultipartStructure com bodies" by (cases s) auto
      define st0 where "st0 = \<lparr>ch_selected = None, ch_root = None, ch_matched = False\<rparr>"
      obtain root st' where root: "related_root com = Inr root"
        and st': "select_children ids path (is_alternative com) root 1 bodies st0 = Inr st'"
        and r: "r = choice_result st'"
        using 1(2) open' by (subst (asm) select_part.simps) (auto simp: s Let_def st0_def choice_result_def)
      have IH: "(\<forall>c. ch_root st' = Some c \<or> ch_selected st' = Some c \<longrightarrow> candidate_of (MultipartStructure com ([] @ bodies)) c)
          \<and> (choice_result st' = None \<longrightarrow> choice_result st0 = None \<and> (\<forall>s \<in> set bodies. \<not> has_text s))"
        using 1(1) [OF refl open' s, where before = "[]" and com = com and st' = st'] root st' open'
        by (auto simp: s st0_def)
      show ?thesis
        using IH open' has_text_multipart [of com bodies]
        by (auto simp: r s choice_result_def split: option.splits)
    next
      case False
      have leaf: "candidate_leaf s = Inr r"
        using 1(2) open' False by (subst (asm) select_part.simps, cases s) (auto simp: Let_def)
      have not: "body_leaf p s = (if p = [] then Some s else None)" for p
        using open' False by (subst body_leaf.simps, cases s) auto
      show ?thesis
        using candidate_leaf_Inr [OF leaf] leaf
        by (cases r) (auto simp: has_text_def candidate_of_def not split: if_splits)
    qed
  qed
next
  case (2 ids path alternative root number st)
  then show ?case by simp
next
  case (3 ids path alternative root number child rest st)
  obtain candidate candidate' st1 where child: "select_part ids (path @ [number]) child = Inr candidate"
    and match: "match_root root (child_content_id ids (path @ [number]) child) number candidate st = Inr (candidate', st1)"
    and rest: "select_children ids path alternative root (number + 1) rest (prefer_candidate alternative number candidate' st1) = Inr st'"
    and number: "\<not> number \<ge> 2 ^ 32"
    using 3(3) by (subst (asm) select_children.simps) (auto split: if_splits)
  define st2 where "st2 = prefer_candidate alternative number candidate' st1"
  define whole where "whole = MultipartStructure com (before @ child # rest)"
  note sound = 3(1) [OF number child]
  have mine: "candidate_of whole (add_number number c)" if "candidate = Some c" for c
    using candidate_of_child [of "before @ child # rest" "length before" c com] sound that 3(4,5)
    by (simp add: whole_def nth_append)
  have st1: "\<forall>c. ch_root st1 = Some c \<or> ch_selected st1 = Some c \<longrightarrow> candidate_of whole c"
    using match_root_Inr [OF match] mine 3(6) by (auto simp: whole_def split: option.splits)
  have cand': "candidate' = candidate \<or> candidate' = None" using match_root_Inr [OF match] by blast
  have st2: "\<forall>c. ch_root st2 = Some c \<or> ch_selected st2 = Some c \<longrightarrow> candidate_of whole c"
    using st1 mine cand' by (auto simp: st2_def prefer_candidate_def split: option.splits if_splits)
  have kept: "choice_result st2 = None \<longrightarrow> choice_result st = None \<and> candidate = None"
    using match_root_Inr [OF match]
    by (auto simp: st2_def prefer_candidate_def choice_result_def split: option.splits if_splits)
  have len: "number + 1 = length (before @ [child]) + 1" using 3(5) by simp
  have st2': "\<forall>c. ch_root st2 = Some c \<or> ch_selected st2 = Some c \<longrightarrow>
      candidate_of (MultipartStructure com ((before @ [child]) @ rest)) c" using st2 by (simp add: whole_def)
  have IH: "(\<forall>c. ch_root st' = Some c \<or> ch_selected st' = Some c \<longrightarrow> candidate_of (MultipartStructure com ((before @ [child]) @ rest)) c)
     \<and> (choice_result st' = None \<longrightarrow> choice_result st2 = None \<and> (\<forall>s \<in> set rest. \<not> has_text s))"
    by (rule 3(2) [OF number child match refl rest 3(4) len st2' [unfolded st2_def], folded st2_def])
  have eq: "(before @ [child]) @ rest = before @ child # rest" by simp
  have none: "\<not> has_text child" if "candidate = None" using sound that by simp
  have "\<forall>s \<in> set (child # rest). \<not> has_text s" if "choice_result st' = None"
    using IH kept none that by (metis set_ConsD)
  then show ?case using IH [unfolded eq] kept by blast
qed

text \<open>
  C34: The selected body is a text part of the message. It is a plain or HTML leaf of the structure that is reached without
  entering an attachment, at the path that is then fetched, with the character set, encoding and size the structure states
  for it; nothing is selected exactly when the message has no such leaf.
\<close>

theorem body_selection_sound:
  assumes "select_body s l ids = Inr r"
  shows "case r of
      None \<Rightarrow> \<not> has_text s
    | Some sel \<Rightarrow> \<exists>p leaf other. body_leaf p s = Some leaf \<and> sel_part sel = (if p = [] then [1] else p)
        \<and> text_media_type leaf = Some (sel_media_type sel) \<and> structure_single leaf = Some other
        \<and> sel_charset sel = (case parameter (common_params (structure_common leaf)) ''charset'' of None \<Rightarrow> ''us-ascii'' | Some v \<Rightarrow> v)
        \<and> sel_transfer_encoding sel = map to_ascii_lowercase (encoding_name (single_encoding other))
        \<and> sel_wire_size sel = unat (single_octets other)"
proof -
  obtain candidate where select: "select_part ids [] s = Inr candidate"
    and r: "r = map_option (\<lambda>c. \<lparr>sel_part = (if cand_path c = [] then [1] else rev (cand_path c)),
      sel_media_type = cand_media_type c, sel_charset = cand_charset c,
      sel_transfer_encoding = map to_ascii_lowercase (cand_transfer_encoding c), sel_wire_size = cand_wire_size c\<rparr>) candidate"
    using assms by (auto simp: select_body_def)
  note sound = selection_sound(1) [OF select]
  show ?thesis
  proof (cases candidate)
    case (Some c)
    then obtain leaf where leaf: "body_leaf (rev (cand_path c)) s = Some leaf"
      and c: "candidate_leaf leaf = Inr (Some (c\<lparr>cand_path := []\<rparr>))" using sound by (auto simp: candidate_of_def)
    then show ?thesis
      by (cases c) (auto simp: r Some candidate_leaf_def ok_or_def split: option.splits
          intro!: exI [of _ "rev (cand_path c)"])
  qed (use sound r in simp)
qed

section \<open>The headers asked for suffice\<close>

text \<open>
  Structures whose identifiers are well formed and whose multiparts have fewer than \<open>2 ^ 32\<close> parts, and identifiers fetched
  from headers of multiparts, which is where the structure has none.
\<close>

fun identified :: "BodyStructure \<Rightarrow> bool" and identified_all :: "BodyStructure list \<Rightarrow> bool" where
  "identified (MultipartStructure com bodies) \<longleftrightarrow>
     is_ok (related_root com) \<and> length bodies < 2 ^ 32 \<and> identified_all bodies"
| "identified s \<longleftrightarrow> is_ok (structure_content_id s)"
| "identified_all [] \<longleftrightarrow> True"
| "identified_all (s # ss) \<longleftrightarrow> identified s \<and> identified_all ss"

definition ids_ok :: "(Part \<Rightarrow> string option) \<Rightarrow> bool" where
  "ids_ok ids \<longleftrightarrow> (\<forall>p. is_ok (content_id (ids p)))"

fun multipart_ids :: "(Part \<Rightarrow> string option) \<Rightarrow> Part \<Rightarrow> BodyStructure \<Rightarrow> bool"
  and multipart_ids_all :: "(Part \<Rightarrow> string option) \<Rightarrow> Part \<Rightarrow> nat \<Rightarrow> BodyStructure list \<Rightarrow> bool" where
  "multipart_ids ids path (MultipartStructure com bodies) \<longleftrightarrow> multipart_ids_all ids path 1 bodies"
| "multipart_ids ids path s \<longleftrightarrow> True"
| "multipart_ids_all ids path number [] \<longleftrightarrow> True"
| "multipart_ids_all ids path number (s # ss) \<longleftrightarrow>
     (ids (path @ [number]) = None \<or> is_multipart s) \<and> multipart_ids ids (path @ [number]) s
     \<and> multipart_ids_all ids path (number + 1) ss"

lemma multipart_no_id: "is_multipart s \<Longrightarrow> structure_content_id s = Inr None"
  by (cases s) (simp_all add: structure_content_id_def content_id_def)

lemma identified_id: "identified s \<Longrightarrow> \<exists>v. structure_content_id s = Inr v"
  by (cases "is_multipart s") (auto simp: multipart_no_id, cases s, auto simp: is_ok_iff)

lemma child_id_ok:
  assumes "ids_ok ids" and "identified child"
  shows "\<exists>v. child_content_id ids p child = Inr v"
proof -
  obtain v where "content_id (ids p) = Inr v" using assms(1) by (auto simp: ids_ok_def is_ok_iff)
  moreover obtain w where "structure_content_id child = Inr w" using assms(2) identified_id by blast
  ultimately show ?thesis by (simp add: child_content_id_def)
qed

lemma child_id_own: "ids p = None \<Longrightarrow> child_content_id ids p child = structure_content_id child"
  by (cases "structure_content_id child") (simp_all add: child_content_id_def content_id_def)

lemma related_not_alternative: "\<not> eq_ignore_ascii_case ''related'' ''alternative''"
  by (simp add: eq_ignore_ascii_case_def)

lemma alternative_no_root:
  assumes "is_alternative com" and "related_root com = Inr root"
  shows "root = None"
proof -
  have "\<not> eq_ignore_ascii_case (common_subtype com) ''related''"
    using assms(1) related_not_alternative unfolding is_alternative_def eq_ignore_ascii_case_def by simp
  then show ?thesis using assms(2) by (simp add: related_root_def)
qed

lemma select_total:
  "identified s \<Longrightarrow> ids_ok ids \<Longrightarrow> \<exists>r. select_part ids path s = Inr r"
  "identified_all bodies \<Longrightarrow> ids_ok ids \<Longrightarrow> number + length bodies \<le> 2 ^ 32 \<Longrightarrow>
     \<exists>st'. select_children ids path alternative root number bodies st = Inr st'"
proof (induction ids path s and ids path alternative root number bodies st rule: select_part_select_children.induct)
  case (1 ids path s)
  show ?case
  proof (cases "is_multipart s \<and> \<not> is_attachment (common_disposition (structure_common s))")
    case True
    then obtain com bodies where s: "s = MultipartStructure com bodies" by (cases s) auto
    obtain root where root: "related_root com = Inr root" using 1(2) by (auto simp: s is_ok_iff)
    then show ?thesis
      using 1(1) [OF refl _ s, of root] 1(2,3) True
      by (subst select_part.simps) (auto simp: s)
  next
    case False
    have "\<exists>r. candidate_leaf t = Inr r" for t
      by (cases t) (auto simp: candidate_leaf_def)
    then show ?thesis using False by (subst select_part.simps, cases s) (auto simp: Let_def)
  qed
next
  case (3 ids path alternative root number child rest st)
  have number: "\<not> number \<ge> 2 ^ 32" using 3(5) by simp
  obtain candidate where child: "select_part ids (path @ [number]) child = Inr candidate"
    using 3(1) [OF number] 3(3,4) by auto
  obtain v where v: "child_content_id ids (path @ [number]) child = Inr v" using child_id_ok 3(3,4) by force
  obtain candidate' st1 where match: "match_root root (child_content_id ids (path @ [number]) child) number candidate st = Inr (candidate', st1)"
    by (cases "match_root root (child_content_id ids (path @ [number]) child) number candidate st")
      (auto simp: match_root_def v split: if_splits)
  then show ?case
    using 3(2) [OF number child match refl] 3(3-5) number child by (subst select_children.simps) simp
qed simp

text \<open>A choice that later children cannot change.\<close>

definition settled :: "bool \<Rightarrow> string option \<Rightarrow> Choice \<Rightarrow> bool" where
  "settled alternative root c \<longleftrightarrow>
     (root = None \<or> ch_matched c)
     \<and> (\<not> alternative \<and> choice_result c \<noteq> None
        \<or> ch_root c = None \<and> is_some_and (ch_selected c) (\<lambda>s. cand_media_type s = ''text/plain''))"

lemma settled_children:
  "select_children ids path alternative root number bodies c = Inr c' \<Longrightarrow> settled alternative root c \<Longrightarrow>
     choice_result c' = choice_result c"
proof (induction bodies arbitrary: number c)
  case (Cons child rest)
  obtain candidate where child: "select_part ids (path @ [number]) child = Inr candidate"
    and rest: "select_children ids path alternative root (number + 1) rest (prefer_candidate alternative number candidate c) = Inr c'"
    using Cons.prems by (subst (asm) select_children.simps) (auto simp: match_root_def settled_def split: if_splits)
  have "settled alternative root (prefer_candidate alternative number candidate c)
      \<and> choice_result (prefer_candidate alternative number candidate c) = choice_result c"
    using Cons.prems(2)
    by (auto simp: settled_def prefer_candidate_def choice_result_def is_some_and_def split: option.splits)
  then show ?case using Cons.IH [OF rest] by simp
qed simp

text \<open>How a forecast relates to the choice it forecasts; exactly as long as no headers are needed.\<close>

definition forecasts :: "string option \<Rightarrow> Forecast \<Rightarrow> Choice \<Rightarrow> bool" where
  "forecasts root st c \<longleftrightarrow>
     (fc_selected st \<noteq> None \<longleftrightarrow> choice_result c \<noteq> None) \<and> (fc_matched st \<longrightarrow> ch_matched c \<and> root \<noteq> None)
     \<and> (\<not> ch_matched c \<or> root = None \<longrightarrow> ch_root c = None)"

definition exactly :: "Forecast \<Rightarrow> Choice \<Rightarrow> bool" where
  "exactly st c \<longleftrightarrow> fc_selected st = map_option cand_media_type (choice_result c) \<and> (fc_matched st \<longleftrightarrow> ch_matched c)"

lemma forecast_child:
  assumes forecast: "forecast_step alternative root own t st = Inr st1"
    and match: "match_root root v number candidate c = Inr (candidate', c1)"
    and before: "forecasts root st c" and media: "t \<noteq> None \<longleftrightarrow> candidate \<noteq> None"
    and own: "\<And>w. own = Inr w \<Longrightarrow> w \<noteq> None \<Longrightarrow> v = own" and alternative: "alternative \<longrightarrow> root = None"
  shows "forecasts root st1 (prefer_candidate alternative number candidate' c1)"
    and "fc_paths st1 = fc_paths st"
    and "exactly st c \<Longrightarrow> t = map_option cand_media_type candidate \<Longrightarrow> v = own \<Longrightarrow>
      exactly st1 (prefer_candidate alternative number candidate' c1)"
proof -
  have kept: "prefer_candidate alternative number candidate' c1 = c1" if "candidate' = None"
    using that by (simp add: prefer_candidate_def)
  show "fc_paths st1 = fc_paths st"
    using forecast by (auto simp: forecast_step_def Let_def split: if_splits)
  show "forecasts root st1 (prefer_candidate alternative number candidate' c1)"
  proof (cases "root = None \<or> fc_matched st")
    case True
    then show ?thesis
      using forecast match before media alternative
      by (auto simp: forecast_step_def match_root_def forecasts_def prefer_candidate_def choice_result_def Let_def add_number_def
          split: if_splits option.splits)
  next
    case False
    then obtain w where w: "own = Inr w" using forecast by (cases own) (auto simp: forecast_step_def Let_def split: if_splits)
    show ?thesis
      using False forecast match before media alternative own w
      by (cases "ch_matched c"; cases "w = root")
        (auto simp: forecast_step_def match_root_def forecasts_def prefer_candidate_def choice_result_def Let_def add_number_def
          split: if_splits option.splits)
  qed
  show "exactly st1 (prefer_candidate alternative number candidate' c1)"
    if "exactly st c" "t = map_option cand_media_type candidate" "v = own"
  proof (cases "root = None \<or> fc_matched st")
    case True
    then show ?thesis
      using forecast match before alternative that
      by (auto simp: forecast_step_def match_root_def forecasts_def exactly_def prefer_candidate_def choice_result_def Let_def
          add_number_def is_some_and_def split: if_splits option.splits)
  next
    case False
    then obtain w where w: "own = Inr w" using forecast by (cases own) (auto simp: forecast_step_def Let_def split: if_splits)
    show ?thesis
      using False forecast match before alternative that w
      by (cases "w = root")
        (auto simp: forecast_step_def match_root_def forecasts_def exactly_def prefer_candidate_def choice_result_def Let_def
          add_number_def split: if_splits option.splits)
  qed
qed

text \<open>Two sources of identifiers that agree on the headers asked for.\<close>

definition agree :: "Part list \<Rightarrow> (Part \<Rightarrow> string option) \<Rightarrow> (Part \<Rightarrow> string option) \<Rightarrow> bool" where
  "agree new ids ids' \<longleftrightarrow> ids_ok ids \<and> ids_ok ids' \<and> (\<forall>p \<in> set new. ids p = ids' p)"

lemma agree_append: "agree (xs @ ys) ids ids' \<longleftrightarrow> agree xs ids ids' \<and> agree ys ids ids'"
  by (auto simp: agree_def)

lemma forecast_none: "related_headers path s paths = Inr (t, paths') \<Longrightarrow> \<not> is_multipart s \<Longrightarrow>
    paths' = paths \<and> (t = None \<or> t = text_media_type s)"
  by (subst (asm) related_headers.simps, cases s) (auto simp: Let_def split: if_splits)

lemma settled_stop:
  assumes stop: "forecast_stop alternative root t own st1" and c: "forecasts root st1 c" and alternative: "alternative \<longrightarrow> root = None"
    and plain: "own \<Longrightarrow> alternative \<Longrightarrow> t = Some ''text/plain'' \<Longrightarrow> is_some_and (ch_selected c) (\<lambda>s. cand_media_type s = ''text/plain'')"
  shows "settled alternative root c"
  using stop c alternative plain by (auto simp: forecast_stop_def settled_def forecasts_def)

lemma prefers_plain:
  "cand_media_type x = ''text/plain'' \<Longrightarrow>
     is_some_and (ch_selected (prefer_candidate True number (Some x) c)) (\<lambda>s. cand_media_type s = ''text/plain'')"
  by (auto simp: prefer_candidate_def is_some_and_def add_number_def split: option.splits)

lemma headers_suffice:
  "related_headers path s paths = Inr (t, paths') \<Longrightarrow> identified s \<Longrightarrow>
     \<exists>new. paths' = paths @ new \<and>
       (\<forall>ids ids'. agree new ids ids' \<and> multipart_ids ids path s \<and> multipart_ids ids' path s \<longrightarrow>
         (\<exists>r. select_part ids path s = Inr r \<and> select_part ids' path s = Inr r \<and> (t \<noteq> None \<longleftrightarrow> r \<noteq> None)
            \<and> (new = [] \<longrightarrow> t = map_option cand_media_type r)))"
  "related_children path alternative root number bodies st = Inr st' \<Longrightarrow> identified_all bodies \<Longrightarrow>
     number + length bodies \<le> 2 ^ 32 \<Longrightarrow> (alternative \<longrightarrow> root = None) \<Longrightarrow>
     \<exists>new. fc_paths st' = fc_paths st @ new \<and>
       (\<forall>ids ids' c. agree new ids ids' \<and> multipart_ids_all ids path number bodies \<and> multipart_ids_all ids' path number bodies
           \<and> forecasts root st c \<longrightarrow>
         (\<exists>d d'. select_children ids path alternative root number bodies c = Inr d
            \<and> select_children ids' path alternative root number bodies c = Inr d' \<and> choice_result d = choice_result d'
            \<and> (fc_selected st' \<noteq> None \<longleftrightarrow> choice_result d \<noteq> None)
            \<and> (new = [] \<and> exactly st c \<longrightarrow> fc_selected st' = map_option cand_media_type (choice_result d))))"
proof (induction path s paths and path alternative root number bodies st arbitrary: t paths' and st'
    rule: related_headers_related_children.induct)
  case (1 path s paths)
  show ?case
  proof (cases "is_multipart s \<and> \<not> is_attachment (common_disposition (structure_common s))")
    case False
    have leaf: "t = map_option cand_media_type r \<and> paths' = paths"
      if "select_part ids path s = Inr r" for ids r
      using that 1(2) False
      by (subst (asm) related_headers.simps, subst (asm) select_part.simps, cases s)
        (auto simp: Let_def candidate_leaf_def split: if_splits option.splits)
    obtain r0 where "select_part (\<lambda>_. None) path s = Inr r0"
      using select_total(1) [OF 1(3), of "\<lambda>_. None"] by (auto simp: ids_ok_def content_id_def)
    then have paths': "paths' = paths" using leaf by blast
    have same: "select_part ids path s = select_part ids' path s" for ids ids'
      using False by (subst select_part.simps, subst select_part.simps, cases s) (auto simp: Let_def)
    show ?thesis
    proof (intro exI [of _ "[]"] conjI allI impI)
      fix ids ids' assume "agree [] ids ids' \<and> multipart_ids ids path s \<and> multipart_ids ids' path s"
      then obtain r where r: "select_part ids path s = Inr r" using select_total(1) [OF 1(3)] by (auto simp: agree_def)
      moreover have "select_part ids' path s = Inr r" using r same [of ids' ids] by simp
      ultimately show "\<exists>r. select_part ids path s = Inr r \<and> select_part ids' path s = Inr r \<and> (t \<noteq> None \<longleftrightarrow> r \<noteq> None)
          \<and> ([] = [] \<longrightarrow> t = map_option cand_media_type r)"
        using leaf [OF r] by simp
    qed (simp add: paths')
  next
    case True
    then obtain com bodies where s: "s = MultipartStructure com bodies" by (cases s) auto
    define st0 where "st0 = \<lparr>fc_selected = None, fc_matched = False, fc_paths = paths\<rparr>"
    define c0 where "c0 = \<lparr>ch_selected = None, ch_root = None, ch_matched = False\<rparr>"
    obtain root st' where root: "related_root com = Inr root"
      and st': "related_children path (is_alternative com) root 1 bodies st0 = Inr st'"
      and t: "t = fc_selected st'" "paths' = fc_paths st'"
      using 1(2) True by (subst (asm) related_headers.simps) (auto simp: s st0_def)
    have start: "forecasts root st0 c0" "exactly st0 c0"
      by (simp_all add: forecasts_def exactly_def st0_def c0_def choice_result_def)
    have select: "select_part ids path s = and_then (select_children ids path (is_alternative com) root 1 bodies c0) (\<lambda>st. Inr (choice_result st))" for ids
      using True root by (subst select_part.simps) (simp add: s c0_def choice_result_def)
    have IH: "\<exists>new. fc_paths st' = fc_paths st0 @ new \<and>
       (\<forall>ids ids' c. agree new ids ids' \<and> multipart_ids_all ids path 1 bodies \<and> multipart_ids_all ids' path 1 bodies
           \<and> forecasts root st0 c \<longrightarrow>
         (\<exists>d d'. select_children ids path (is_alternative com) root 1 bodies c = Inr d
            \<and> select_children ids' path (is_alternative com) root 1 bodies c = Inr d' \<and> choice_result d = choice_result d'
            \<and> (fc_selected st' \<noteq> None \<longleftrightarrow> choice_result d \<noteq> None)
            \<and> (new = [] \<and> exactly st0 c \<longrightarrow> fc_selected st' = map_option cand_media_type (choice_result d))))"
    proof -
      have com: "structure_common s = com" by (simp add: s)
      have open': "\<not> is_attachment (common_disposition (structure_common s))" using True by simp
      have root': "related_root (structure_common s) = Inr root" using root com by simp
      have "related_children path (is_alternative (structure_common s)) root 1 bodies st0 = Inr st'" using st' com by simp
      from 1(1) [OF refl open' s root' this [unfolded st0_def], folded st0_def, unfolded com] show ?thesis
        using 1(3) alternative_no_root [OF _ root] by (simp add: s)
    qed
    then obtain new where new: "fc_paths st' = paths @ new" and all: "\<And>ids ids' c. agree new ids ids' \<and> multipart_ids_all ids path 1 bodies \<and> multipart_ids_all ids' path 1 bodies
           \<and> forecasts root st0 c \<Longrightarrow>
         (\<exists>d d'. select_children ids path (is_alternative com) root 1 bodies c = Inr d
            \<and> select_children ids' path (is_alternative com) root 1 bodies c = Inr d' \<and> choice_result d = choice_result d'
            \<and> (fc_selected st' \<noteq> None \<longleftrightarrow> choice_result d \<noteq> None)
            \<and> (new = [] \<and> exactly st0 c \<longrightarrow> fc_selected st' = map_option cand_media_type (choice_result d)))"
      by (auto simp: st0_def)
    show ?thesis
    proof (intro exI [of _ new] conjI allI impI)
      fix ids ids' assume "agree new ids ids' \<and> multipart_ids ids path s \<and> multipart_ids ids' path s"
      then have "agree new ids ids' \<and> multipart_ids_all ids path 1 bodies \<and> multipart_ids_all ids' path 1 bodies \<and> forecasts root st0 c0"
        using start by (simp add: s)
      from all [OF this] show "\<exists>r. select_part ids path s = Inr r \<and> select_part ids' path s = Inr r \<and> (t \<noteq> None \<longleftrightarrow> r \<noteq> None)
            \<and> (new = [] \<longrightarrow> t = map_option cand_media_type r)"
        using start by (auto simp: select t)
    qed (use new t in simp)
  qed
next
  case (2 path alternative root number st)
  then show ?case by (auto simp: forecasts_def exactly_def intro!: exI [of _ "[]"])
next
  case (3 path alternative root number child rest st)
  define p where "p = path @ [number]"
  define named where "named = (if root \<noteq> None \<and> is_multipart child then [p] else [])"
  define own where "own = structure_content_id child"
  have number: "\<not> number \<ge> 2 ^ 32" using 3(5) by simp
  obtain t paths st1 where child: "related_headers p child (fc_paths st @ named) = Inr (t, paths)"
    and step: "forecast_step alternative root own t (st\<lparr>fc_paths := paths\<rparr>) = Inr st1"
    and next': "(if forecast_stop alternative root t (length paths = length (fc_paths st)) st1 then Inr st1
        else related_children path alternative root (number + 1) rest st1) = Inr st'"
    using 3(3) number unfolding named_def p_def own_def
    by (subst (asm) related_children.simps) (auto simp: Let_def)
  have IH1: "\<exists>new. paths = (fc_paths st @ named) @ new \<and>
       (\<forall>ids ids'. agree new ids ids' \<and> multipart_ids ids p child \<and> multipart_ids ids' p child \<longrightarrow>
         (\<exists>r. select_part ids p child = Inr r \<and> select_part ids' p child = Inr r \<and> (t \<noteq> None \<longleftrightarrow> r \<noteq> None)
            \<and> (new = [] \<longrightarrow> t = map_option cand_media_type r)))"
    using 3(1) [OF number named_def [unfolded p_def] child [unfolded p_def], folded p_def] 3(4) by simp
  then obtain new1 where paths: "paths = fc_paths st @ named @ new1"
    and first: "\<And>ids ids'. agree new1 ids ids' \<and> multipart_ids ids p child \<and> multipart_ids ids' p child \<Longrightarrow>
         (\<exists>r. select_part ids p child = Inr r \<and> select_part ids' p child = Inr r \<and> (t \<noteq> None \<longleftrightarrow> r \<noteq> None)
            \<and> (new1 = [] \<longrightarrow> t = map_option cand_media_type r))" by auto
  have st1_paths: "fc_paths st1 = paths"
    using step by (auto simp: forecast_step_def Let_def split: if_splits)
  have turn: "\<exists>c2. forecasts root st1 c2
      \<and> select_children ids path alternative root number (child # rest) c = select_children ids path alternative root (number + 1) rest c2
      \<and> select_children ids' path alternative root number (child # rest) c = select_children ids' path alternative root (number + 1) rest c2
      \<and> (named @ new1 = [] \<and> exactly st c \<longrightarrow> exactly st1 c2)
      \<and> (alternative \<and> new1 = [] \<and> t = Some ''text/plain'' \<longrightarrow>
          is_some_and (ch_selected c2) (\<lambda>s. cand_media_type s = ''text/plain''))"
    if ids: "agree (named @ new1) ids ids'" "multipart_ids_all ids path number (child # rest)"
      "multipart_ids_all ids' path number (child # rest)" and c: "forecasts root st c" for ids ids' c
  proof -
    obtain r where r: "select_part ids p child = Inr r" "select_part ids' p child = Inr r" "t \<noteq> None \<longleftrightarrow> r \<noteq> None"
      "new1 = [] \<longrightarrow> t = map_option cand_media_type r"
      using first [of ids ids'] ids by (auto simp: agree_append p_def)
    define v where "v = child_content_id ids p child"
    have identified: "identified child" using 3(4) by simp
    have same: "match_root root (child_content_id ids' p child) number r c = match_root root v number r c"
    proof (cases "root \<noteq> None \<and> is_multipart child")
      case True
      then have "ids p = ids' p" using ids by (simp add: agree_def named_def)
      then show ?thesis by (simp add: v_def child_content_id_def)
    next
      case False
      then show ?thesis using ids child_id_own [of ids p child] child_id_own [of ids' p child]
        by (auto simp: v_def p_def match_root_def)
    qed
    obtain w where w: "v = Inr w" using child_id_ok [OF _ identified, of ids p] ids(1) by (auto simp: v_def agree_def)
    obtain candidate' c1 where match: "match_root root v number r c = Inr (candidate', c1)"
      by (cases "match_root root v number r c") (auto simp: match_root_def w split: if_splits)
    have mine: "v = own" if "own = Inr x" "x \<noteq> None" for x
    proof -
      have "\<not> is_multipart child" using that multipart_no_id [of child] by (auto simp: own_def)
      then show ?thesis using ids child_id_own [of ids p child] by (auto simp: v_def own_def p_def)
    qed
    have c': "forecasts root (st\<lparr>fc_paths := paths\<rparr>) c" using c by (simp add: forecasts_def)
    define c2 where "c2 = prefer_candidate alternative number candidate' c1"
    note f = forecast_child [OF step match c' r(3) mine 3(6), folded c2_def]
    have exact: "exactly st1 c2" if "named @ new1 = []" "exactly st c"
    proof (cases "root = None")
      case False
      then have "\<not> is_multipart child" using that(1) by (auto simp: named_def split: if_splits)
      then have "v = own" using ids child_id_own [of ids p child] by (auto simp: v_def own_def p_def)
      then show ?thesis using f(3) that r(4) by (simp add: exactly_def)
    next
      case True
      have "forecast_step alternative root v t (st\<lparr>fc_paths := paths\<rparr>) = Inr st1" using step True by (simp add: forecast_step_def Let_def)
      from forecast_child(3) [OF this match c' r(3) _ 3(6)] show ?thesis using that r(4) by (simp add: exactly_def c2_def)
    qed
    have plain: "is_some_and (ch_selected c2) (\<lambda>s. cand_media_type s = ''text/plain'')"
      if plainly: "alternative" "new1 = []" "t = Some ''text/plain''"
    proof -
      obtain x where "r = Some x" "cand_media_type x = ''text/plain''" using r(4) plainly by (cases r) auto
      moreover have "candidate' = r \<and> c1 = c" using match plainly(1) 3(6) by (simp add: match_root_def)
      ultimately show ?thesis using prefers_plain [of x number c] plainly(1) by (simp add: c2_def)
    qed
    have "select_children ids path alternative root number (child # rest) c = select_children ids path alternative root (number + 1) rest c2"
      using number r match by (subst select_children.simps) (simp add: p_def [symmetric] v_def [symmetric] c2_def)
    moreover have "select_children ids' path alternative root number (child # rest) c = select_children ids' path alternative root (number + 1) rest c2"
      using number r match same by (subst select_children.simps) (simp add: p_def [symmetric] c2_def)
    ultimately show ?thesis using f(1) exact plain by (intro exI [of _ c2] conjI impI) simp_all
  qed
  show ?case
  proof (cases "forecast_stop alternative root t (length paths = length (fc_paths st)) st1")
    case True
    then have st': "st' = st1" using next' by simp
    show ?thesis
    proof (intro exI [of _ "named @ new1"] conjI allI impI)
      show "fc_paths st' = fc_paths st @ named @ new1" using st' st1_paths paths by simp
    next
      fix ids ids' c
      assume a: "agree (named @ new1) ids ids' \<and> multipart_ids_all ids path number (child # rest)
          \<and> multipart_ids_all ids' path number (child # rest) \<and> forecasts root st c"
      then obtain c2 where c2: "forecasts root st1 c2"
        "select_children ids path alternative root number (child # rest) c = select_children ids path alternative root (number + 1) rest c2"
        "select_children ids' path alternative root number (child # rest) c = select_children ids' path alternative root (number + 1) rest c2"
        "named @ new1 = [] \<and> exactly st c \<longrightarrow> exactly st1 c2"
        "alternative \<and> new1 = [] \<and> t = Some ''text/plain'' \<longrightarrow> is_some_and (ch_selected c2) (\<lambda>s. cand_media_type s = ''text/plain'')"
        using turn [of ids ids' c] by blast
      have settled: "settled alternative root c2"
        using c2(5) paths by (intro settled_stop [OF True c2(1) 3(6)]) simp
      have total: "\<exists>d. select_children i path alternative root (number + 1) rest c2 = Inr d" if "ids_ok i" for i
        using select_total(2) [of rest i "number + 1"] 3(4,5) that by simp
      obtain d d' where d: "select_children ids path alternative root (number + 1) rest c2 = Inr d"
        "select_children ids' path alternative root (number + 1) rest c2 = Inr d'"
        using total a by (meson agree_def)
      have "choice_result d = choice_result c2" "choice_result d' = choice_result c2"
        using settled_children [OF d(1) settled] settled_children [OF d(2) settled] by auto
      then show "\<exists>d d'. select_children ids path alternative root number (child # rest) c = Inr d
            \<and> select_children ids' path alternative root number (child # rest) c = Inr d' \<and> choice_result d = choice_result d'
            \<and> (fc_selected st' \<noteq> None \<longleftrightarrow> choice_result d \<noteq> None)
            \<and> (named @ new1 = [] \<and> exactly st c \<longrightarrow> fc_selected st' = map_option cand_media_type (choice_result d))"
        using d c2(1,2,3,4) st' by (simp add: forecasts_def exactly_def)
    qed
  next
    case False
    then have more: "related_children path alternative root (number + 1) rest st1 = Inr st'" using next' by simp
    obtain new2 where new2: "fc_paths st' = fc_paths st1 @ new2"
      and later: "\<And>ids ids' c. agree new2 ids ids' \<and> multipart_ids_all ids path (number + 1) rest \<and> multipart_ids_all ids' path (number + 1) rest
           \<and> forecasts root st1 c \<Longrightarrow>
         (\<exists>d d'. select_children ids path alternative root (number + 1) rest c = Inr d
            \<and> select_children ids' path alternative root (number + 1) rest c = Inr d' \<and> choice_result d = choice_result d'
            \<and> (fc_selected st' \<noteq> None \<longleftrightarrow> choice_result d \<noteq> None)
            \<and> (new2 = [] \<and> exactly st1 c \<longrightarrow> fc_selected st' = map_option cand_media_type (choice_result d)))"
      using 3(2) [OF number named_def [unfolded p_def] child [unfolded p_def] refl step [unfolded own_def] False more] 3(4-6) by auto
    show ?thesis
    proof (intro exI [of _ "named @ new1 @ new2"] conjI allI impI)
      show "fc_paths st' = fc_paths st @ named @ new1 @ new2" using new2 st1_paths paths by simp
    next
      fix ids ids' c
      assume a: "agree (named @ new1 @ new2) ids ids' \<and> multipart_ids_all ids path number (child # rest)
          \<and> multipart_ids_all ids' path number (child # rest) \<and> forecasts root st c"
      then obtain c2 where c2: "forecasts root st1 c2"
        "select_children ids path alternative root number (child # rest) c = select_children ids path alternative root (number + 1) rest c2"
        "select_children ids' path alternative root number (child # rest) c = select_children ids' path alternative root (number + 1) rest c2"
        "named @ new1 = [] \<and> exactly st c \<longrightarrow> exactly st1 c2"
        using turn [of ids ids' c] by (auto simp: agree_append)
      from a c2(1) have "agree new2 ids ids' \<and> multipart_ids_all ids path (number + 1) rest
          \<and> multipart_ids_all ids' path (number + 1) rest \<and> forecasts root st1 c2" by (simp add: agree_append)
      from later [OF this] show "\<exists>d d'. select_children ids path alternative root number (child # rest) c = Inr d
            \<and> select_children ids' path alternative root number (child # rest) c = Inr d' \<and> choice_result d = choice_result d'
            \<and> (fc_selected st' \<noteq> None \<longleftrightarrow> choice_result d \<noteq> None)
            \<and> (named @ new1 @ new2 = [] \<and> exactly st c \<longrightarrow> fc_selected st' = map_option cand_media_type (choice_result d))"
        using c2 by auto
    qed
  qed
qed

lemma multipart_ids_weaken:
  "multipart_ids ids path s \<Longrightarrow> (\<And>p. ids' p = None \<or> ids' p = ids p) \<Longrightarrow> multipart_ids ids' path s"
  "multipart_ids_all ids path number ss \<Longrightarrow> (\<And>p. ids' p = None \<or> ids' p = ids p) \<Longrightarrow> multipart_ids_all ids' path number ss"
  by (induction ids path s and ids path number ss rule: multipart_ids_multipart_ids_all.induct) (auto, metis)

text \<open>
  C35: The headers asked for are enough: for a structure with well-formed identifiers, selecting the body with the Content-IDs
  of any multiparts gives what it gives with those of the requested multiparts alone, so that no other header of the message
  has to be fetched to find its body.
\<close>

theorem related_headers_sufficient:
  assumes "related_multipart_headers s l = Inr needed" and "identified s" and "ids_ok ids" and "multipart_ids ids [] s"
  shows "select_body s l ids = select_body s l (\<lambda>p. if p \<in> set needed then ids p else None)"
proof -
  define ids' where "ids' = (\<lambda>p. if p \<in> set needed then ids p else None)"
  obtain t where headers: "related_headers [] s [] = Inr (t, needed)"
    using assms(1) by (auto simp: related_multipart_headers_def)
  have "ids_ok ids'" using assms(3) by (auto simp: ids'_def ids_ok_def content_id_def)
  then have "agree needed ids ids'" using assms(3) by (simp add: agree_def ids'_def)
  moreover have "multipart_ids ids' [] s"
    using assms(4) by (rule multipart_ids_weaken(1)) (simp add: ids'_def)
  ultimately have "select_part ids [] s = select_part ids' [] s"
    using headers_suffice(1) [OF headers assms(2)] assms(4) by force
  then show ?thesis by (simp add: select_body_def ids'_def)
qed

section \<open>An example\<close>

text \<open>A related message whose root is named: the alternatives, if their header says so, else the part that carries the name.\<close>

definition example_common :: "string \<Rightarrow> string \<Rightarrow> (string \<times> string) list \<Rightarrow> BodyContentCommon" where
  "example_common ty subtype params = \<lparr>common_type = ty, common_subtype = subtype, common_params = Some params, common_disposition = None\<rparr>"

definition example_leaf :: "string \<Rightarrow> string option \<Rightarrow> BodyStructure" where
  "example_leaf subtype name = TextStructure (example_common ''TEXT'' subtype [(''charset'', ''utf-8'')])
     \<lparr>single_encoding = SevenBit, single_id = name, single_octets = 12\<rparr>"

definition example_related :: BodyStructure where
  "example_related = MultipartStructure (example_common ''MULTIPART'' ''related'' [(''start'', ''<root>'')])
     [MultipartStructure (example_common ''MULTIPART'' ''alternative'' []) [example_leaf ''html'' None, example_leaf ''plain'' None],
      example_leaf ''html'' (Some ''<root>'')]"

definition example_ids :: "Part \<Rightarrow> string option" where
  "example_ids p = (if p = [1] then Some ''root'' else None)"

lemma example_needed: "related_multipart_headers example_related imap_limits_default = Inr [[1]]"
  by code_simp

lemma example_selected:
  "select_body example_related imap_limits_default example_ids =
     Inr (Some \<lparr>sel_part = [1, 2], sel_media_type = ''text/plain'', sel_charset = ''utf-8'', sel_transfer_encoding = ''7bit'',
       sel_wire_size = 12\<rparr>)"
  by code_simp

lemma body_selection_sound_witness:
  "\<exists>p leaf other. body_leaf p example_related = Some leaf \<and> [1, 2] = (if p = [] then [1] else p)
     \<and> text_media_type leaf = Some ''text/plain'' \<and> structure_single leaf = Some other"
  using body_selection_sound [OF example_selected] by (simp only: option.case Selected.simps) blast

lemma related_headers_sufficient_witness:
  "select_body example_related imap_limits_default example_ids =
     select_body example_related imap_limits_default (\<lambda>p. if p \<in> set [[1]] then example_ids p else None)"
proof (rule related_headers_sufficient [OF example_needed])
  show "identified example_related" by code_simp
  have "is_ok (content_id (Some ''root''))" "is_ok (content_id None)" by code_simp+
  then have "is_ok (content_id (example_ids p))" for p by (cases "p = [1]") (simp_all add: example_ids_def)
  then show "ids_ok example_ids" by (simp add: ids_ok_def)
  show "multipart_ids example_ids [] example_related" by code_simp
qed

end
