(* ===== verification/BodyPages.thy ===== *)
theory BodyPages
  imports Fetch Unicode Journal
begin

text \<open>
  Pages of a body (\<open>BodyCursor::page\<close> in \<open>src/src/imap/body.rs\<close>): a page ends at a character boundary of the UTF-8 text, and a
  position is accepted only for the representation it was taken from.
\<close>

section \<open>Pages\<close>

record BodyCursor =
  bc_fingerprint :: sha256
  bc_offset :: nat

definition is_char_boundary :: "bytes \<Rightarrow> nat \<Rightarrow> bool" where
  "is_char_boundary v k \<longleftrightarrow> k = 0 \<or> k = length v \<or> k < length v \<and> \<not> continuation (v ! k)"

fun boundary_below :: "bytes \<Rightarrow> nat \<Rightarrow> nat" where
  "boundary_below v 0 = 0"
| "boundary_below v (Suc k) = (if is_char_boundary v (Suc k) then Suc k else boundary_below v k)"

definition floor_char_boundary :: "bytes \<Rightarrow> nat \<Rightarrow> nat" where
  "floor_char_boundary v k = (if k \<ge> length v then length v else boundary_below v k)"

definition page_offset :: "BodyCursor option \<Rightarrow> bytes \<Rightarrow> sha256 \<Rightarrow> nat imap" where
  "page_offset previous v fingerprint =
     (case previous of
        None \<Rightarrow> Inr 0
      | Some k \<Rightarrow>
          if bc_fingerprint k = fingerprint \<and> is_char_boundary v (bc_offset k) \<and> bc_offset k < length v
          then Inr (bc_offset k) else Inl ImapStaleCursor)"

definition body_page :: "BodyCursor option \<Rightarrow> bytes \<Rightarrow> sha256 \<Rightarrow> nat \<Rightarrow> ((nat \<times> nat) \<times> BodyCursor option) imap" where
  "body_page previous v fingerprint maximum =
     and_then (page_offset previous v fingerprint) (\<lambda>offset.
       let stop = floor_char_boundary v (saturating_add offset maximum) in
       Inr ((offset, stop), if stop < length v then Some \<lparr>bc_fingerprint = fingerprint, bc_offset = stop\<rparr> else None))"

definition text_range :: "bytes \<Rightarrow> nat \<times> nat \<Rightarrow> bytes" where
  "text_range v r = take (snd r - fst r) (drop (fst r) v)"

section \<open>Boundaries of a text\<close>

lemma utf8_char_shape:
  assumes "scalar c"
  obtains a t where "utf8_char c = a # t" "\<not> continuation a" "list_all continuation t" "length t \<le> 3"
proof -
  have "\<exists>a t. utf8_char c = a # t \<and> \<not> continuation a \<and> list_all continuation t \<and> length t \<le> 3"
    using assms by (auto simp: utf8_char_def continuation_def scalar_def)
  then show thesis using that by blast
qed

lemma boundary_split:
  "list_all scalar cs \<Longrightarrow> is_char_boundary (utf8_encode cs) k \<Longrightarrow>
     \<exists>a b. cs = a @ b \<and> length (utf8_encode a) = k"
proof (induction cs arbitrary: k)
  case Nil
  then show ?case by (auto simp: is_char_boundary_def)
next
  case (Cons c cs)
  obtain x t where c: "utf8_char c = x # t" "list_all continuation t" using Cons.prems(1) by (auto elim: utf8_char_shape)
  show ?case
  proof (cases "k = 0")
    case True
    then show ?thesis by (intro exI [of _ "[]"] exI [of _ "c # cs"]) simp
  next
    case False
    then obtain j where k: "k = Suc j" by (cases k) auto
    show ?thesis
    proof (cases "j < length t")
      case True
      then have "continuation (utf8_encode (c # cs) ! k)" using c by (simp add: k nth_append list_all_length)
      then show ?thesis using Cons.prems(2) True by (simp add: is_char_boundary_def k c)
    next
      case after: False
      then have "is_char_boundary (utf8_encode cs) (j - length t)"
        using Cons.prems(2) by (auto simp: is_char_boundary_def k c nth_append)
      then obtain a b where "cs = a @ b" "length (utf8_encode a) = j - length t" using Cons.IH [of "j - length t"] Cons.prems(1) by auto
      then show ?thesis using after by (intro exI [of _ "c # a"] exI [of _ b]) (simp add: k c)
    qed
  qed
qed


lemma split_boundary:
  assumes "list_all scalar b"
  shows "is_char_boundary (utf8_encode (a @ b)) (length (utf8_encode a))"
proof (cases b)
  case (Cons c cs)
  then obtain x t where "utf8_char c = x # t" "\<not> continuation x" using assms by (auto elim: utf8_char_shape)
  then show ?thesis using Cons by (simp add: is_char_boundary_def)
qed (simp add: is_char_boundary_def)

lemma boundary_below_greatest: "is_char_boundary v (boundary_below v k) \<and> boundary_below v k \<le> k
    \<and> (\<forall>b \<le> k. is_char_boundary v b \<longrightarrow> b \<le> boundary_below v k)"
  by (induction k) (auto simp: is_char_boundary_def le_Suc_eq)

text \<open>The page behind a boundary holds at least one character, when four bytes are allowed.\<close>

lemma body_page_step:
  assumes v: "v = utf8_encode (a @ b)" and valid: "list_all scalar (a @ b)" and maximum: "4 \<le> maximum"
    and fits: "length v \<le> usize_max" and offset: "page_offset previous v fingerprint = Inr (length (utf8_encode a))" and "b \<noteq> []"
  obtains m rest where "b = m @ rest" "m \<noteq> []" "length (utf8_encode m) \<le> maximum"
    "body_page previous v fingerprint maximum =
       Inr ((length (utf8_encode a), length (utf8_encode (a @ m))),
         if rest = [] then None else Some \<lparr>bc_fingerprint = fingerprint, bc_offset = length (utf8_encode (a @ m))\<rparr>)"
proof -
  let ?n = "length (utf8_encode a)"
  define stop where "stop = floor_char_boundary v (saturating_add ?n maximum)"
  obtain c cs where b: "b = c # cs" using assms(6) by (cases b) auto
  obtain x t where c: "utf8_char c = x # t" "length t \<le> 3" using valid b by (auto elim: utf8_char_shape)
  let ?next = "length (utf8_encode (a @ [c]))"
  have step: "is_char_boundary v ?next" "?next \<le> ?n + maximum" "?next \<le> length v" "?n < ?next"
    using split_boundary [of cs "a @ [c]"] valid maximum c by (simp_all add: v b)
  have stops: "is_char_boundary v stop \<and> stop \<le> ?n + maximum \<and> ?n < stop"
  proof (cases "length v \<le> saturating_add ?n maximum")
    case True
    then have "stop = length v" by (simp add: stop_def floor_char_boundary_def)
    then show ?thesis
      using True order_less_le_trans [OF step(4,3)] by (simp_all add: is_char_boundary_def saturating_add_def)
  next
    case False
    then have near: "saturating_add ?n maximum = ?n + maximum" using fits by (auto simp: saturating_add_def)
    have "stop = boundary_below v (?n + maximum)" using False by (simp add: stop_def floor_char_boundary_def near)
    then show ?thesis
      using boundary_below_greatest [of v "?n + maximum"] step(1,2) order_less_le_trans [OF step(4)] by blast
  qed
  note stop = stops [THEN conjunct1] stops [THEN conjunct2, THEN conjunct1] stops [THEN conjunct2, THEN conjunct2]
  obtain p q where split: "a @ b = p @ q" "length (utf8_encode p) = stop"
    using boundary_split [OF valid] stop(1) v by blast
  obtain m where "p = a @ m"
  proof -
    have "length a \<le> length p"
    proof (rule ccontr)
      assume "\<not> length a \<le> length p"
      then obtain w where "a = p @ w" using split(1) by (auto simp: append_eq_append_conv2)
      then show False using split(2) stop(3) by simp
    qed
    then show thesis using split(1) that by (auto simp: append_eq_append_conv2)
  qed
  with split have m: "b = m @ q" "length (utf8_encode (a @ m)) = stop" by simp_all
  have scalars: "list_all scalar q" using valid m(1) by simp
  have short: "stop < length v \<longleftrightarrow> q \<noteq> []"
  proof (cases q)
    case (Cons d ds)
    then obtain y u where "utf8_char d = y # u" using scalars by (auto elim: utf8_char_shape)
    then show ?thesis using Cons m by (simp add: v)
  qed (use m in \<open>simp add: v\<close>)
  show thesis
  proof (rule that [of m q])
    show "body_page previous v fingerprint maximum =
       Inr ((?n, length (utf8_encode (a @ m))),
         if q = [] then None else Some \<lparr>bc_fingerprint = fingerprint, bc_offset = length (utf8_encode (a @ m))\<rparr>)"
      using offset short m(2) by (simp add: body_page_def Let_def stop_def [symmetric])
  qed (use m stop in auto)
qed

section \<open>Reading a body page by page\<close>

text \<open>The ranges of the pages that a caller gets who presents each position it is given, to the last page.\<close>

fun pages_read :: "bytes \<Rightarrow> sha256 \<Rightarrow> nat \<Rightarrow> BodyCursor option \<Rightarrow> (nat \<times> nat) list \<Rightarrow> bool" where
  "pages_read v fingerprint maximum previous [] = False"
| "pages_read v fingerprint maximum previous (r # rs) =
     (case body_page previous v fingerprint maximum of
        Inl e \<Rightarrow> False
      | Inr (r', k) \<Rightarrow> r' = r \<and> (if k = None then rs = [] else pages_read v fingerprint maximum k rs))"

lemma pages_read_from:
  assumes "v = utf8_encode (a @ b)" and "list_all scalar (a @ b)" and "4 \<le> maximum" and "length v \<le> usize_max"
    and "page_offset previous v fingerprint = Inr (length (utf8_encode a))" and "b \<noteq> []"
  shows "\<exists>ranges. pages_read v fingerprint maximum previous ranges \<and> concat (map (text_range v) ranges) = utf8_encode b
    \<and> list_all (\<lambda>r. snd r - fst r \<le> maximum \<and> utf8_decode (text_range v r) \<noteq> None) ranges"
  using assms
proof (induction "length b" arbitrary: a b previous rule: less_induct)
  case less
  obtain m rest where m: "b = m @ rest" "m \<noteq> []" "length (utf8_encode m) \<le> maximum"
    and page: "body_page previous v fingerprint maximum =
       Inr ((length (utf8_encode a), length (utf8_encode (a @ m))),
         if rest = [] then None else Some \<lparr>bc_fingerprint = fingerprint, bc_offset = length (utf8_encode (a @ m))\<rparr>)"
    using body_page_step [OF less(2-7)] .
  let ?r = "(length (utf8_encode a), length (utf8_encode (a @ m)))"
  have piece: "text_range v ?r = utf8_encode m" "utf8_decode (text_range v ?r) = Some m"
    using less.prems(1,2) m(1) utf8_decode_encode [of m] by (simp_all add: text_range_def)
  show ?case
  proof (cases "rest = []")
    case True
    then show ?thesis using page piece m by (intro exI [of _ "[?r]"]) simp
  next
    case False
    let ?k = "Some \<lparr>bc_fingerprint = fingerprint, bc_offset = length (utf8_encode (a @ m))\<rparr>"
    have v: "v = utf8_encode ((a @ m) @ rest)" "list_all scalar ((a @ m) @ rest)" using less.prems(1,2) m(1) by simp_all
    obtain d ds where "rest = d # ds" using False by (cases rest) auto
    then obtain y u where "utf8_char d = y # u" using v(2) by (auto elim: utf8_char_shape)
    then have "length (utf8_encode (a @ m)) < length v" using v(1) \<open>rest = d # ds\<close> by simp
    moreover have "is_char_boundary v (length (utf8_encode (a @ m)))" using split_boundary [of rest "a @ m"] v by simp
    ultimately have offset: "page_offset ?k v fingerprint = Inr (length (utf8_encode (a @ m)))" by (simp add: page_offset_def)
    have "length rest < length b" using m by simp
    from less.hyps [OF this v less.prems(3,4) offset False] obtain ranges where
      "pages_read v fingerprint maximum ?k ranges" "concat (map (text_range v) ranges) = utf8_encode rest"
      "list_all (\<lambda>r. snd r - fst r \<le> maximum \<and> utf8_decode (text_range v r) \<noteq> None) ranges" by blast
    then show ?thesis using page piece m False by (intro exI [of _ "?r # ranges"]) simp
  qed
qed

text \<open>
  C31: The pages of a body tile its text. For every valid UTF-8 text and every page size of at least four bytes, a caller that
  presents each position it was given reaches the end; the pages put together are the text, and each is valid UTF-8 within
  the page size. A position of another representation is refused as stale.
\<close>

theorem body_pages_tile:
  assumes "utf8_decode v = Some cs" and "4 \<le> maximum" and "length v \<le> usize_max"
  shows "(\<exists>ranges. pages_read v fingerprint maximum None ranges \<and> concat (map (text_range v) ranges) = v
      \<and> list_all (\<lambda>r. snd r - fst r \<le> maximum \<and> utf8_decode (text_range v r) \<noteq> None) ranges)
    \<and> (\<forall>k. bc_fingerprint k = fingerprint \<or> body_page (Some k) v fingerprint maximum = Inl ImapStaleCursor)"
proof -
  have v: "v = utf8_encode cs" "list_all scalar cs" using utf8_decode_Some [OF assms(1)] by simp_all
  have "\<exists>ranges. pages_read v fingerprint maximum None ranges \<and> concat (map (text_range v) ranges) = v
      \<and> list_all (\<lambda>r. snd r - fst r \<le> maximum \<and> utf8_decode (text_range v r) \<noteq> None) ranges"
  proof (cases "cs = []")
    case True
    then have "v = []" using v by simp
    then show ?thesis
      by (intro exI [of _ "[(0, 0)]"]) (simp add: body_page_def page_offset_def floor_char_boundary_def text_range_def)
  next
    case False
    then show ?thesis
      using pages_read_from [of v "[]" cs maximum None fingerprint] v assms(2,3) by (simp add: page_offset_def)
  qed
  moreover have "bc_fingerprint k = fingerprint \<or> body_page (Some k) v fingerprint maximum = Inl ImapStaleCursor" for k
    by (simp add: body_page_def page_offset_def)
  ultimately show ?thesis by blast
qed

text \<open>Four bytes hold either of the two characters here, never both.\<close>

definition example_body :: bytes where
  "example_body = utf8_encode [0x20AC, 0x20AC, 0x41]"

lemma body_pages_tile_witness:
  "(\<exists>ranges. pages_read example_body [] 4 None ranges \<and> concat (map (text_range example_body) ranges) = example_body)
   \<and> body_page (Some \<lparr>bc_fingerprint = [1], bc_offset = 3\<rparr>) example_body [] 4 = Inl ImapStaleCursor"
proof -
  have "utf8_decode example_body = Some [0x20AC, 0x20AC, 0x41]" by code_simp
  moreover have "length example_body \<le> usize_max" by code_simp
  ultimately have "(\<exists>ranges. pages_read example_body [] 4 None ranges \<and> concat (map (text_range example_body) ranges) = example_body
      \<and> list_all (\<lambda>r. snd r - fst r \<le> 4 \<and> utf8_decode (text_range example_body r) \<noteq> None) ranges)
    \<and> (\<forall>k. bc_fingerprint k = [] \<or> body_page (Some k) example_body [] 4 = Inl ImapStaleCursor)"
    by (intro body_pages_tile) simp_all
  then show ?thesis by (auto dest: spec [of _ "\<lparr>bc_fingerprint = [1], bc_offset = 3\<rparr>"])
qed

lemma body_page_position:
  "body_page (Some k) v fingerprint maximum = Inr r \<Longrightarrow> bc_fingerprint k = fingerprint"
  by (auto simp: body_page_def page_offset_def split: if_splits)

end
