(* ===== verification/Body.thy ===== *)
theory Body
  imports BodyPages BodyRendering
begin

text \<open>
  Reading the body of a message over IMAP (\<open>src/src/imap/body.rs\<close>): structure, headers, selection, the bytes of the selected
  part, rendering and the page. A digest is the list of the bytes fed to it.
\<close>

section \<open>Bytes of a section\<close>

text \<open>
  The loop ends at the first short answer. \<open>ceiling\<close> is the expected size, or the budget; what has arrived is within both
  before each request.
\<close>

function read_section ::
  "metadata_host \<Rightarrow> u32 \<Rightarrow> Section option \<Rightarrow> nat \<Rightarrow> nat \<Rightarrow> nat \<Rightarrow> bytes \<Rightarrow> bytes wire" where
  "read_section h uid sec ceiling budget chunk acc c =
     (let n = min chunk (ceiling + 1 - length acc) in
      case fetch_bytes h (FetchBytes uid sec (of_nat (length acc)) (of_nat n)) c of
        (Inl e, d) \<Rightarrow> (Inl e, d)
      | (Inr v, d) \<Rightarrow>
          if length v > budget - length acc then (Inl ImapLimit, d)
          else if length acc + length v > ceiling then (Inl ImapProtocol, d)
          else if length v < n then (Inr (acc @ v), d)
          else read_section h uid sec ceiling budget chunk (acc @ v) d)"
  by pat_completeness auto

termination
  by (relation "measure (\<lambda>(_, _, _, _, _, _, _, c). length (conn_reads c))") (auto dest: fetch_bytes_shorter [OF sym])

declare read_section.simps [simp del]

definition section_bytes ::
  "metadata_host \<Rightarrow> u32 \<Rightarrow> Section option \<Rightarrow> nat option \<Rightarrow> nat \<Rightarrow> ImapLimits \<Rightarrow> bytes wire" where
  "section_bytes h uid sec expected budget l =
     (let ceiling = (case expected of None \<Rightarrow> budget | Some n \<Rightarrow> n) in
      if ceiling > budget then wire_lift (Inl ImapLimit)
      else wire_bind (wire_lift (fetch_chunk_bytes l)) (\<lambda>chunk. read_section h uid sec ceiling budget chunk []))"

section \<open>Headers\<close>

text \<open>The separator some servers omit is put back, within the budget all headers share.\<close>

definition section_headers ::
  "metadata_host \<Rightarrow> u32 \<Rightarrow> Section \<Rightarrow> ImapLimits \<Rightarrow> nat \<Rightarrow> (bytes \<times> nat) wire" where
  "section_headers h uid sec l used =
     wire_bind (wire_lift (ok_or ImapLimit (checked_sub (il_header_bytes l) used))) (\<lambda>remaining.
     wire_bind (section_bytes h uid (Some sec) None remaining l) (\<lambda>v.
       let used = used + length v in
       wire_lift
         (if \<not> suffix [CR, LF] v then Inl ImapProtocol
          else if \<not> suffix [CR, LF, CR, LF] v \<and> v \<noteq> [CR, LF]
          then (if used + 2 > il_header_bytes l then Inl ImapLimit else Inr (v @ [CR, LF], used + 2))
          else Inr (v, used))))"

fun related_identifiers ::
  "header_host \<Rightarrow> metadata_host \<Rightarrow> u32 \<Rightarrow> ImapLimits \<Rightarrow> Part list \<Rightarrow> nat \<Rightarrow> (Part \<Rightarrow> string option) \<Rightarrow> (Part \<Rightarrow> string option) wire" where
  "related_identifiers hh h uid l [] used ids = wire_return ids"
| "related_identifiers hh h uid l (path # paths) used ids =
     wire_bind (section_headers h uid (FetchMime path) l used) (\<lambda>(raw, used).
     wire_bind (wire_lift (validate_headers hh raw None l)) (\<lambda>v.
       related_identifiers hh h uid l paths used (case v of None \<Rightarrow> ids | Some v \<Rightarrow> ids(path := Some v))))"

section \<open>The read\<close>

record BodyRequest =
  br_uid :: u32
  br_uid_validity :: u32
  br_continuation :: "BodyCursor option"

record BodyPage =
  bp_text :: string
  bp_selected_part :: "string option"
  bp_source_media_type :: "string option"
  bp_converted :: bool
  bp_replacements :: bool
  bp_truncated :: bool
  bp_continuation :: "BodyCursor option"
  bp_metrics :: Metrics

text \<open>\<open>bdh_limits\<close> is the debug text of the limits, which the fingerprint covers.\<close>

record body_host =
  bdh_encode :: "bytes \<Rightarrow> string"
  bdh_metadata :: metadata_host
  bdh_headers :: header_host
  bdh_render :: render_host
  bdh_limits :: "ImapLimits \<Rightarrow> string"
  bdh_sha256 :: "bytes \<Rightarrow> sha256"

definition BODY_REPRESENTATION_VERSION :: string where
  "BODY_REPRESENTATION_VERSION = ''mailctl-body/mail-parser-1.0.1/html2text-0.17.4/text-policy-1''"

fun be_bytes :: "nat \<Rightarrow> nat \<Rightarrow> bytes" where
  "be_bytes 0 v = []"
| "be_bytes (Suc n) v = be_bytes n (v div 256) @ [chr (v mod 256)]"

definition octets :: "sha256 \<Rightarrow> bytes" where
  "octets v = map (\<lambda>b. chr (unat b)) v"

text \<open>What every fingerprint starts with: the account, the mailbox and the message.\<close>

definition message_context :: "sha256 \<Rightarrow> string \<Rightarrow> BodyRequest \<Rightarrow> bytes" where
  "message_context identity name r =
     octets identity @ be_bytes 8 (length name) @ name @ be_bytes 4 (unat (br_uid r)) @ be_bytes 4 (unat (br_uid_validity r))"

text \<open>
  The bytes of the selected body. A message that is a single part and fits is fetched as a whole, and must start with the
  headers that were validated.
\<close>

definition selected_bytes :: "metadata_host \<Rightarrow> u32 \<Rightarrow> ImapLimits \<Rightarrow> nat \<Rightarrow> bool \<Rightarrow> bytes \<Rightarrow> Selected \<Rightarrow> bytes wire" where
  "selected_bytes h uid l sz single root sel =
     (if single \<and> sz \<le> il_body_wire_bytes l
      then wire_bind (section_bytes h uid None (Some sz) (il_body_wire_bytes l) l) (\<lambda>whole.
        wire_lift (if \<not> prefix root whole \<or> length whole - length root > sel_wire_size sel then Inl ImapProtocol
                   else Inr (drop (length root) whole)))
      else section_bytes h uid (Some (FetchPart (sel_part sel))) (Some (sel_wire_size sel)) (il_body_wire_bytes l) l)"

definition render_selected ::
  "body_host \<Rightarrow> u32 \<Rightarrow> ImapLimits \<Rightarrow> nat \<Rightarrow> bool \<Rightarrow> bytes \<Rightarrow> Selected option \<Rightarrow> (bytes \<times> Rendered) option wire" where
  "render_selected bh uid l sz single root selected =
     (case selected of
        None \<Rightarrow> wire_return None
      | Some sel \<Rightarrow>
          if sel_wire_size sel > il_body_wire_bytes l then wire_lift (Inl ImapLimit)
          else wire_bind (wire_lift (if single then validate_headers (bdh_headers bh) root (Some sel) l else Inr None)) (\<lambda>_.
            wire_bind (selected_bytes (bdh_metadata bh) uid l sz single root sel) (\<lambda>body.
            wire_bind (wire_lift (render (bdh_render bh) sel body l)) (\<lambda>r. wire_return (Some (body, r))))))"

text \<open>The fingerprint of the representation, and the page.\<close>

definition body_fingerprint :: "body_host \<Rightarrow> bytes \<Rightarrow> ImapLimits \<Rightarrow> Selected option \<Rightarrow> (bytes \<times> Rendered) option \<Rightarrow> sha256" where
  "body_fingerprint bh context l selected rendered =
     bdh_sha256 bh (context @ BODY_REPRESENTATION_VERSION @ bdh_limits bh l
       @ (case rendered of None \<Rightarrow> [] | Some (body, _) \<Rightarrow> body)
       @ (case selected of None \<Rightarrow> [] | Some s \<Rightarrow>
           part_name (sel_part s) @ sel_media_type s @ sel_charset s @ sel_transfer_encoding s)
       @ (case rendered of None \<Rightarrow> [] | Some (_, r) \<Rightarrow> rnd_text r))"

definition body_result ::
  "body_host \<Rightarrow> bytes \<Rightarrow> BodyCursor option \<Rightarrow> ImapLimits \<Rightarrow> Selected option \<Rightarrow> (bytes \<times> Rendered) option \<Rightarrow> Metrics \<Rightarrow> BodyPage imap" where
  "body_result bh context previous l selected rendered m =
     (let v = (case rendered of None \<Rightarrow> [] | Some (_, r) \<Rightarrow> rnd_text r) in
      and_then (body_page previous v (body_fingerprint bh context l selected rendered) (il_text_bytes l)) (\<lambda>(range, position).
        Inr \<lparr>bp_text = text_range v range, bp_selected_part = map_option (\<lambda>s. part_name (sel_part s)) selected,
             bp_source_media_type = map_option sel_media_type selected,
             bp_converted = is_some_and rendered (\<lambda>(_, r). rnd_converted r),
             bp_replacements = is_some_and rendered (\<lambda>(_, r). rnd_replacements r),
             bp_truncated = (position \<noteq> None), bp_continuation = position,
             bp_metrics = (case rendered of None \<Rightarrow> m
               | Some (_, r) \<Rightarrow> m\<lparr>met_decode_steps := rnd_work r, met_decoded_bytes := length (rnd_text r)\<rparr>)\<rparr>))"

definition read_represented ::
  "body_host \<Rightarrow> bytes \<Rightarrow> BodyRequest \<Rightarrow> ImapLimits \<Rightarrow> nat \<Rightarrow> BodyStructure \<Rightarrow> BodyPage wire" where
  "read_represented bh context r l sz structure =
     (let h = bdh_metadata bh; uid = br_uid r in
      wire_bind (wire_lift (related_multipart_headers structure l)) (\<lambda>needed.
      wire_bind (section_headers h uid FetchHeader l 0) (\<lambda>(root, used).
      wire_bind (wire_lift (validate_headers (bdh_headers bh) root None l)) (\<lambda>_.
      wire_bind (related_identifiers (bdh_headers bh) h uid l needed used (\<lambda>_. None)) (\<lambda>ids.
      wire_bind (wire_lift (select_body structure l ids)) (\<lambda>selected.
      wire_bind (render_selected bh uid l sz (\<not> is_multipart structure) root selected) (\<lambda>rendered.
      wire_bind (logout h) (\<lambda>_ c.
        (body_result bh context (br_continuation r) l selected rendered (conn_metrics c), c)))))))))"

definition read_body_selected :: "body_host \<Rightarrow> string \<Rightarrow> BodyRequest \<Rightarrow> ImapLimits \<Rightarrow> bytes \<Rightarrow> BodyPage wire" where
  "read_body_selected bh name r l context =
     wire_bind (wire_lift (mailbox_argument name)) (\<lambda>_.
     if br_uid r = 0 \<or> br_uid_validity r = 0 then wire_lift (Inl ImapInvalidInput)
     else wire_bind (examine (bdh_encode bh) (bdh_metadata bh) name) (\<lambda>validity.
       if validity \<noteq> br_uid_validity r then wire_lift (Inl ImapStaleReference)
       else wire_bind (fetch_execute (bdh_metadata bh) (FetchMetadata (br_uid r))) (\<lambda>row.
         wire_bind (wire_lift (and_then (fetch_items row) fetch_metadata)) (\<lambda>(sz, structure).
           read_represented bh context r l (unat sz) structure))))"

definition read_body :: "body_host \<Rightarrow> sha256 \<Rightarrow> string \<Rightarrow> BodyRequest \<Rightarrow> ImapLimits \<Rightarrow> BodyPage wire" where
  "read_body bh identity name r l =
     wire_bind (wire_lift (imap_limits_validate l)) (\<lambda>_ c.
       read_body_selected bh name r l (message_context identity name r) (limit_body l c))"

end
