(* ===== verification/AttachmentSafety.thy ===== *)
theory AttachmentSafety
  imports Attachment WireSafety
begin

text \<open>
  What the pages of an attachment transfer are, whatever the server answers, and how much a read may ask of it.
\<close>

section \<open>The invariant of a transfer\<close>

text \<open>Consecutive slices of one part, each answered by a fetch at its offset.\<close>

fun fetched_slices :: "metadata_host \<Rightarrow> u32 \<Rightarrow> Part \<Rightarrow> nat \<Rightarrow> bytes list \<Rightarrow> bool" where
  "fetched_slices h uid part offset [] = True"
| "fetched_slices h uid part offset (b # bs) =
     ((\<exists>n c d. fetch_bytes h (FetchBytes uid (Some (FetchPart part)) (of_nat offset) n) c = (Inr b, d))
      \<and> fetched_slices h uid part (offset + length b) bs)"

lemma fetched_slices_append:
  "fetched_slices h uid part offset (as @ bs) \<longleftrightarrow>
     fetched_slices h uid part offset as \<and> fetched_slices h uid part (offset + length (concat as)) bs"
  by (induction as arbitrary: offset) (auto simp: add.assoc)

text \<open>The server described the part with this transfer encoding.\<close>

definition described :: "metadata_host \<Rightarrow> u32 \<Rightarrow> Part \<Rightarrow> TransferEncoding \<Rightarrow> bool" where
  "described h uid part e \<longleftrightarrow>
     (\<exists>l c d df ds. attachment_definitions h uid l (Some part) c = (Inr (df # ds), d) \<and> def_encoding df = Some e)"

definition transfer_inv :: "attachment_host \<Rightarrow> u32 \<Rightarrow> Part \<Rightarrow> bytes list \<Rightarrow> bytes \<Rightarrow> TransferState \<Rightarrow> bool" where
  "transfer_inv ah uid part slices out s \<longleftrightarrow>
     ts_uid s = uid \<and> ts_part s = part \<and> decoder_wf (ts_decoder s) \<and> ts_wire_bytes s = length (concat slices)
     \<and> fetched_slices (ah_metadata ah) uid part 0 slices \<and> dec_digest (ts_decoder s) = out
     \<and> (slices \<noteq> [] \<longrightarrow> described (ah_metadata ah) uid part (dec_encoding (ts_decoder s)))
     \<and> (if ts_eof s
        then slices \<noteq> [] \<and> transfer_ref (ah_base64 ah) (dec_encoding (ts_decoder s)) (concat slices) = Some (whole (ts_decoder s))
        else decoded (ah_base64 ah) (concat slices) (ts_decoder s))"

lemma decoded_nothing: "decoded decode [] d \<Longrightarrow> whole d = []"
  by (auto simp: decoded_def split: TransferEncoding.splits)

lemma publish_simps [simp]: "conn_reads (publish s c) = conn_reads c" "conn_sent (publish s c) = conn_sent c"
  by (simp_all add: publish_def Let_def)

lemma transfer_start_inv:
  assumes "transfer_inv ah uid part slices out s" and "transfer_start (ah_metadata ah) l s c = (Inr s', d)"
  shows "transfer_inv ah uid part slices out s' \<and> described (ah_metadata ah) uid part (dec_encoding (ts_decoder s'))
    \<and> ts_identity s' = ts_identity s"
proof (cases "ts_wire_bytes s = 0 \<and> \<not> ts_eof s")
  case True
  then obtain ds c1 where ds: "attachment_definitions (ah_metadata ah) (ts_uid s) l (Some (ts_part s)) c = (Inr ds, c1)"
    and s': "(case ds of [] \<Rightarrow> Inl ImapStaleReference
        | d # _ \<Rightarrow> and_then (ok_or ImapUnsupported (def_encoding d)) (\<lambda>e. Inr (s\<lparr>ts_decoder := decoder_new e\<rparr>))) = Inr s'"
    using assms(2) by (auto simp: transfer_start_def wire_bind_Inr)
  then obtain e df rest where d: "ds = df # rest" "def_encoding df = Some e" "s' = s\<lparr>ts_decoder := decoder_new e\<rparr>"
    by (auto simp: and_then_def split: list.splits sum.splits)
  have empty: "concat slices = []" using assms(1) True by (simp add: transfer_inv_def)
  have inv: "decoded (ah_base64 ah) (concat slices) (ts_decoder s)" "dec_digest (ts_decoder s) = out"
    using assms(1) True by (simp_all add: transfer_inv_def)
  have out: "out = []"
    using decoded_nothing [OF inv(1) [unfolded empty]] inv(2) by (simp add: whole_def)
  moreover have "described (ah_metadata ah) uid part e"
  proof -
    have "ts_uid s = uid" "ts_part s = part" using assms(1) by (simp_all add: transfer_inv_def)
    with ds d show ?thesis unfolding described_def by blast
  qed
  moreover have "dec_encoding (decoder_new e) = e" "dec_digest (decoder_new e) = []" by (simp_all add: decoder_new_def)
  ultimately show ?thesis
    using assms(1) d(3) True out decoder_new_wf by (simp add: transfer_inv_def empty del: concat_eq_Nil_conv)
next
  case False
  have "slices \<noteq> []" using assms(1) False by (auto simp: transfer_inv_def)
  moreover have "s' = s" using assms(2) False by (auto simp: transfer_start_def)
  ultimately show ?thesis using assms(1) by (simp add: transfer_inv_def)
qed

lemma slice_request_Inr:
  assumes "slice_request s l = Inr (remaining, f)"
  shows "\<exists>cnt. f = FetchBytes (ts_uid s) (Some (FetchPart (ts_part s))) (of_nat (ts_wire_bytes s)) (of_nat cnt)
    \<and> ts_wire_bytes s \<le> il_attachment_wire_bytes l \<and> remaining = il_attachment_wire_bytes l - ts_wire_bytes s
    \<and> 0 < cnt \<and> unat (of_nat cnt :: u32) = cnt
    \<and> (\<exists>chunk. fetch_chunk_bytes l = Inr chunk \<and> 0 < chunk \<and> cnt = min chunk (saturating_add remaining 1))"
proof -
  obtain chunk where chunk: "fetch_chunk_bytes l = Inr chunk"
    and r: "ts_wire_bytes s \<le> il_attachment_wire_bytes l" "remaining = il_attachment_wire_bytes l - ts_wire_bytes s"
      "f = FetchBytes (ts_uid s) (Some (FetchPart (ts_part s))) (of_nat (ts_wire_bytes s)) (of_nat (min chunk (saturating_add remaining 1)))"
    using assms by (auto simp: slice_request_def Let_def split: if_splits)
  have small: "0 < chunk" "chunk \<le> MAX_CHUNK_BYTES"
    using chunk by (auto simp: fetch_chunk_bytes_def Let_def split: if_splits)
  have pos: "0 < saturating_add remaining 1" by (simp add: saturating_add_def usize_max_def)
  have "MAX_CHUNK_BYTES < 2 ^ 32" by (simp add: MAX_CHUNK_BYTES_def)
  then have "unat (of_nat (min chunk (saturating_add remaining 1)) :: u32) = min chunk (saturating_add remaining 1)"
    using small by (simp add: unat_of_nat)
  with r small pos chunk show ?thesis by (intro exI [of _ "min chunk (saturating_add remaining 1)"]) simp
qed

text \<open>One slice.\<close>

lemma slice_decode_Inr:
  assumes "slice_decode decode l remaining cnt wire s c = (Inr s', d)"
  shows "\<exists>u d1. decoder_push decode l wire (ts_decoder s) = (Inr u, d1) \<and> length wire \<le> remaining
    \<and> (if length wire < cnt
       then \<exists>u d2. decoder_finish l d1 = (Inr u, d2) \<and> s' = s\<lparr>ts_wire_bytes := ts_wire_bytes s + length wire, ts_eof := True, ts_decoder := d2\<rparr>
       else s' = s\<lparr>ts_wire_bytes := ts_wire_bytes s + length wire, ts_decoder := d1\<rparr>)"
  using assms
  by (auto simp: slice_decode_def checked_add_def Let_def split: if_splits prod.splits sum.splits)

lemma slice_decode_inv:
  assumes "base64_ok (ah_base64 ah)" and "transfer_inv ah uid part slices out s" and "\<not> ts_eof s"
    and "described (ah_metadata ah) uid part (dec_encoding (ts_decoder s))"
    and "fetch_bytes (ah_metadata ah) (FetchBytes uid (Some (FetchPart part)) (of_nat (ts_wire_bytes s)) n) c = (Inr wire, c1)"
    and "slice_decode (ah_base64 ah) l remaining cnt wire s c2 = (Inr s', d)"
  shows "transfer_inv ah uid part (slices @ [wire]) out s' \<and> described (ah_metadata ah) uid part (dec_encoding (ts_decoder s'))
    \<and> ts_identity s' = ts_identity s"
proof -
  obtain u d1 where push: "decoder_push (ah_base64 ah) l wire (ts_decoder s) = (Inr u, d1)"
    and fin: "if length wire < cnt
       then \<exists>u d2. decoder_finish l d1 = (Inr u, d2) \<and> s' = s\<lparr>ts_wire_bytes := ts_wire_bytes s + length wire, ts_eof := True, ts_decoder := d2\<rparr>
       else s' = s\<lparr>ts_wire_bytes := ts_wire_bytes s + length wire, ts_decoder := d1\<rparr>"
    using slice_decode_Inr [OF assms(6)] by blast
  have inv: "decoder_wf (ts_decoder s)" "decoded (ah_base64 ah) (concat slices) (ts_decoder s)"
    using assms(2,3) by (simp_all add: transfer_inv_def)
  have d1: "decoder_wf d1" "decoded (ah_base64 ah) (concat slices @ wire) d1" "dec_encoding d1 = dec_encoding (ts_decoder s)"
    "dec_digest d1 = dec_digest (ts_decoder s)"
    using push_decoded [OF assms(1) inv push] by simp_all
  have slices: "fetched_slices (ah_metadata ah) uid part 0 (slices @ [wire])"
    using assms(2,5) unfolding fetched_slices_append by (auto simp: transfer_inv_def)
  show ?thesis
  proof (cases "length wire < cnt")
    case True
    then obtain d2 where d2: "decoder_finish l d1 = (Inr (), d2)"
      "s' = s\<lparr>ts_wire_bytes := ts_wire_bytes s + length wire, ts_eof := True, ts_decoder := d2\<rparr>"
      using fin by auto
    from finish_decoded [OF assms(1) d1(1,2) d2(1)] d1(3,4) assms(2,4) slices d2(2) show ?thesis
      by (simp add: transfer_inv_def)
  next
    case False
    with fin d1 assms(2-4) slices show ?thesis by (simp add: transfer_inv_def)
  qed
qed

lemma read_slices_step:
  assumes "read_slices decode h l fetched s c = (Inr s', d)"
  obtains (stop) "s' = s" "d = c"
  | (slice) remaining f wire c1 s1 c2 where "\<not> ts_eof s" "slice_request s l = Inr (remaining, f)"
    "fetch_bytes h f c = (Inr wire, c1)"
    "slice_decode decode l remaining (unat (fetch_count f)) wire s c1 = (Inr s1, c2)"
    "read_slices decode h l True s1 c2 = (Inr s', d)"
proof (cases "pending_len (ts_decoder s) \<ge> il_attachment_chunk_bytes l \<or> ts_eof s \<or> page_boundary l fetched s c")
  case True
  then show ?thesis using assms stop by (simp add: read_slices.simps [of decode h l fetched s c])
next
  case False
  note run = assms [unfolded read_slices.simps [of decode h l fetched s c] if_not_P [OF False]]
  obtain remaining f where req: "slice_request s l = Inr (remaining, f)"
    using run by (cases "slice_request s l") auto
  obtain w c1 where w: "fetch_bytes h f c = (w, c1)" by force
  then obtain wire where wire: "w = Inr wire" using run req by (cases w) auto
  obtain x c2 where x: "slice_decode decode l remaining (unat (fetch_count f)) wire s c1 = (x, c2)" by force
  then obtain s1 where s1: "x = Inr s1" using run req w wire by (cases x) auto
  have "read_slices decode h l True s1 c2 = (Inr s', d)" using run req w wire x s1 by simp
  then show ?thesis using slice False req w wire x s1 by blast
qed

lemma read_slices_inv:
  assumes "base64_ok (ah_base64 ah)" and "transfer_inv ah uid part slices out s"
    and "described (ah_metadata ah) uid part (dec_encoding (ts_decoder s))"
    and "read_slices (ah_base64 ah) (ah_metadata ah) l fetched s c = (Inr s', d)"
  shows "\<exists>more. transfer_inv ah uid part (slices @ more) out s' \<and> ts_identity s' = ts_identity s"
  using assms(2-)
proof (induction "length (conn_reads c)" arbitrary: slices fetched s c rule: less_induct)
  case less
  from less.prems(3) show ?case
  proof (cases rule: read_slices_step)
    case stop
    then show ?thesis using less.prems(1) by (intro exI [of _ "[]"]) simp
  next
    case (slice remaining f wire c1 s1 c2)
    obtain cnt where f: "f = FetchBytes (ts_uid s) (Some (FetchPart (ts_part s))) (of_nat (ts_wire_bytes s)) (of_nat cnt)"
      using slice_request_Inr [OF slice(2)] by blast
    have names: "ts_uid s = uid" "ts_part s = part" using less.prems(1) by (simp_all add: transfer_inv_def)
    have s1: "transfer_inv ah uid part (slices @ [wire]) out s1" "described (ah_metadata ah) uid part (dec_encoding (ts_decoder s1))"
      "ts_identity s1 = ts_identity s"
      using slice_decode_inv [OF assms(1) less.prems(1) slice(1) less.prems(2) slice(3) [unfolded f names] slice(4)] by simp_all
    have "length (conn_reads c2) < length (conn_reads c)"
      using fetch_bytes_shorter [OF slice(3)] slice_decode_reads [OF slice(4)] by simp
    from less.hyps [OF this s1(1,2) slice(5)] s1(3) obtain more where
      "transfer_inv ah uid part ((slices @ [wire]) @ more) out s'" "ts_identity s' = ts_identity s" by auto
    then show ?thesis by (intro exI [of _ "wire # more"]) simp
  qed
qed

lemma take_inv:
  assumes "transfer_inv ah uid part slices out s" and "take_chunk n (ts_decoder s) = (chunk, d)"
  shows "transfer_inv ah uid part slices (out @ chunk) (s\<lparr>ts_decoder := d\<rparr>)"
proof -
  have wf: "decoder_wf (ts_decoder s)" using assms(1) by (simp add: transfer_inv_def)
  note facts = take_decoded [OF assms(2) wf]
  have "whole d = whole (ts_decoder s)" using facts(3,4) by (simp add: whole_def)
  with assms(1) facts show ?thesis by (simp add: transfer_inv_def)
qed

lemma read_selected_Inr:
  assumes "read_selected decode h l s c = (Inr (chunk, s'), d)"
  obtains s1 c2 s2 c3 x where "transfer_start h l s c = (Inr s1, c2)" and "read_slices decode h l False s1 c2 = (Inr s2, c3)"
    and "take_chunk (il_attachment_chunk_bytes l) (ts_decoder s2) = (chunk, x)" and "s' = s2\<lparr>ts_decoder := x\<rparr>"
proof -
  obtain a c2 where a: "transfer_start h l s c = (a, c2)" by force
  then obtain s1 where s1: "a = Inr s1" using assms by (cases a) (auto simp: read_selected_def wire_bind_step)
  obtain b c3 where b: "read_slices decode h l False s1 c2 = (b, c3)" by force
  then obtain s2 where s2: "b = Inr s2" using assms a s1 by (cases b) (auto simp: read_selected_def wire_bind_step)
  obtain page' x where x: "take_chunk (il_attachment_chunk_bytes l) (ts_decoder s2) = (page', x)" by force
  have "page' = chunk" "s' = s2\<lparr>ts_decoder := x\<rparr>"
    using assms a s1 b s2 x by (auto simp: read_selected_def wire_bind_step wire_bind_Inr Let_def)
  then show thesis using that a s1 b s2 x by blast
qed

text \<open>One call: the page extends what was handed out, and the integrity record comes with the last page.\<close>

lemma read_attachment_inv:
  assumes "base64_ok (ah_base64 ah)" and "transfer_inv ah uid part slices out s"
    and "read_attachment ah identity l (Some s) c = ((Inr data, next), d)"
  shows "\<exists>more s'. transfer_inv ah uid part (slices @ more) (out @ ad_bytes data) s'
    \<and> ad_decoded_offset data = of_nat (length out) \<and> (ts_identity s = None \<or> ts_identity s = Some identity)
    \<and> ts_identity s' = Some identity
    \<and> (if ts_eof s' \<and> pending_len (ts_decoder s') = 0
       then next = None \<and> ad_integrity data = Some \<lparr>ai_total_decoded_bytes = of_nat (length (out @ ad_bytes data)),
         ai_sha256 = ah_sha256 ah (out @ ad_bytes data)\<rparr>
       else next = Some s' \<and> ad_integrity data = None)"
proof -
  let ?s = "s\<lparr>ts_identity := Some identity\<rparr>"
  have ident: "ts_identity s = None \<or> ts_identity s = Some identity"
    using assms(3) by (cases "ts_identity s") (auto simp: read_attachment_def split: sum.splits if_splits)
  have inv: "transfer_inv ah uid part slices out ?s" using assms(2) by (simp add: transfer_inv_def)
  obtain chunk s' c1 validity where
    sel: "read_selected (ah_base64 ah) (ah_metadata ah) l ?s c1 = (Inr (chunk, s'), d)"
    and data: "data = \<lparr>ad_bytes = chunk, ad_decoded_offset = of_nat (dec_offset (ts_decoder s') - length chunk),
          ad_integrity = (if ts_eof s' \<and> pending_len (ts_decoder s') = 0
            then (case decoder_integrity (ah_sha256 ah) (ts_decoder s') of
                (n, digest) \<Rightarrow> Some \<lparr>ai_total_decoded_bytes = n, ai_sha256 = digest\<rparr>)
            else None)\<rparr>"
    and nxt: "next = (if ts_eof s' \<and> pending_len (ts_decoder s') = 0 then None else Some s')"
    using assms(3) by (auto simp: read_attachment_def wire_bind_Inr Let_def split: sum.splits if_splits prod.splits)
  obtain s1 c2 s2 c3 x where st: "transfer_start (ah_metadata ah) l ?s c1 = (Inr s1, c2)"
    and sl: "read_slices (ah_base64 ah) (ah_metadata ah) l False s1 c2 = (Inr s2, c3)"
    and tk: "take_chunk (il_attachment_chunk_bytes l) (ts_decoder s2) = (chunk, x)" and s': "s' = s2\<lparr>ts_decoder := x\<rparr>"
    by (rule read_selected_Inr [OF sel])
  have s1: "transfer_inv ah uid part slices out s1" "described (ah_metadata ah) uid part (dec_encoding (ts_decoder s1))"
    "ts_identity s1 = Some identity"
    using transfer_start_inv [OF inv st] by simp_all
  obtain more where s2: "transfer_inv ah uid part (slices @ more) out s2" "ts_identity s2 = Some identity"
    using read_slices_inv [OF assms(1) s1(1,2) sl] s1(3) by auto
  have fin: "transfer_inv ah uid part (slices @ more) (out @ chunk) s'"
    unfolding s' by (rule take_inv [OF s2(1) tk])
  have offset: "dec_offset (ts_decoder s') = length (out @ chunk)" "dec_digest (ts_decoder s') = out @ chunk"
    using fin by (auto simp: transfer_inv_def decoder_wf_def)
  show ?thesis
    using fin ident s2(2) nxt offset by (intro exI [of _ more] exI [of _ s']) (simp add: data s' decoder_integrity_def)
qed

section \<open>Whole transfers\<close>

text \<open>A transfer is a sequence of calls, each on its own connection, identity and limits.\<close>

fun transfer_calls ::
  "attachment_host \<Rightarrow> (sha256 \<times> ImapLimits \<times> Connection) list \<Rightarrow> AttachmentDecoder \<Rightarrow> AttachmentData imap list \<times> AttachmentDecoder" where
  "transfer_calls ah [] decoder = ([], decoder)"
| "transfer_calls ah ((identity, l, c) # calls) decoder =
     (case fst (read_attachment ah identity l decoder c) of
        (r, decoder) \<Rightarrow> apfst ((#) r) (transfer_calls ah calls decoder))"

text \<open>Every page starts where the previous ones ended, and only the last one carries integrity.\<close>

fun pages_continue :: "nat \<Rightarrow> AttachmentData list \<Rightarrow> bool" where
  "pages_continue n [] = True"
| "pages_continue n (p # ps) =
     (ad_decoded_offset p = of_nat n \<and> (ps \<noteq> [] \<longrightarrow> ad_integrity p = None) \<and> pages_continue (n + length (ad_bytes p)) ps)"

lemma transfer_calls_None: "transfer_calls ah calls None = (map Inr pages, d) \<Longrightarrow> calls = [] \<and> pages = []"
proof (cases calls)
  case (Cons call rest)
  assume "transfer_calls ah calls None = (map Inr pages, d)"
  then show ?thesis
    by (cases call; cases "transfer_calls ah rest None"; cases pages) (auto simp: read_attachment_def Cons)
qed simp

lemma transfer_calls_inv:
  assumes "base64_ok (ah_base64 ah)" and "transfer_inv ah uid part slices out s"
    and "transfer_calls ah calls (Some s) = (map Inr pages, decoder)"
    and "pages \<noteq> []" and "ad_integrity (last pages) = Some i"
  shows "decoder = None \<and> pages_continue (length out) pages
    \<and> (\<exists>identity. (\<forall>c \<in> set calls. fst c = identity) \<and> (ts_identity s = None \<or> ts_identity s = Some identity))
    \<and> (\<exists>e slices. fetched_slices (ah_metadata ah) uid part 0 slices \<and> described (ah_metadata ah) uid part e
        \<and> transfer_ref (ah_base64 ah) e (concat slices) = Some (out @ concat (map ad_bytes pages))
        \<and> i = \<lparr>ai_total_decoded_bytes = of_nat (length (out @ concat (map ad_bytes pages))),
            ai_sha256 = ah_sha256 ah (out @ concat (map ad_bytes pages))\<rparr>)"
  using assms(2-)
proof (induction calls arbitrary: slices out s pages)
  case Nil
  then show ?case by simp
next
  case (Cons call calls)
  obtain identity l c where call: "call = (identity, l, c)" by (cases call)
  obtain r nxt d where read: "read_attachment ah identity l (Some s) c = ((r, nxt), d)" by (metis prod.collapse)
  obtain rs where rest: "transfer_calls ah calls nxt = (rs, decoder)" and rs: "map Inr pages = r # rs"
    using Cons.prems(2) read by (cases "transfer_calls ah calls nxt") (auto simp: call)
  obtain p ps where p: "pages = p # ps" "r = Inr p" "rs = map Inr ps" using rs by (cases pages) auto
  obtain more s' where inv: "transfer_inv ah uid part (slices @ more) (out @ ad_bytes p) s'"
    and off: "ad_decoded_offset p = of_nat (length out)" and ident: "ts_identity s = None \<or> ts_identity s = Some identity"
    and id': "ts_identity s' = Some identity"
    and fin: "if ts_eof s' \<and> pending_len (ts_decoder s') = 0
       then nxt = None \<and> ad_integrity p = Some \<lparr>ai_total_decoded_bytes = of_nat (length (out @ ad_bytes p)),
         ai_sha256 = ah_sha256 ah (out @ ad_bytes p)\<rparr>
       else nxt = Some s' \<and> ad_integrity p = None"
    using read_attachment_inv [OF assms(1) Cons.prems(1), of identity l c p nxt d] read p(2) by blast
  show ?case
  proof (cases "ts_eof s' \<and> pending_len (ts_decoder s') = 0")
    case True
    then have none: "nxt = None" using fin by simp
    then have over: "calls = []" "ps = []" using transfer_calls_None rest p(3) by blast+
    have "decoder = None" using rest over none by simp
    moreover have "whole (ts_decoder s') = out @ ad_bytes p"
      using inv True by (simp add: transfer_inv_def whole_def unread_def pending_len_def)
    ultimately show ?thesis
      using inv True fin off ident over Cons.prems(4)
      by (auto simp: p(1) call transfer_inv_def intro!: exI [of _ "dec_encoding (ts_decoder s')"] exI [of _ "slices @ more"])
  next
    case False
    then have nxt: "nxt = Some s'" "ad_integrity p = None" using fin by simp_all
    have ps: "ps \<noteq> []" using Cons.prems(4) nxt(2) p(1) by auto
    note ih = Cons.IH [OF inv, of ps]
    have tail: "transfer_calls ah calls (Some s') = (map Inr ps, decoder)" "ad_integrity (last ps) = Some i"
      using rest nxt(1) p ps Cons.prems(4) by simp_all
    show ?thesis
      using ih [OF tail(1) ps tail(2)] off nxt(2) ident id' by (auto simp: p(1) call)
  qed
qed

lemma attachment_decoder_new_inv:
  assumes "attachment_decoder_new mailbox uid validity part l = Inr decoder"
  shows "\<exists>s path. decoder = Some s \<and> parse_part part l = Inr path \<and> transfer_inv ah uid path [] [] s"
proof -
  obtain path where path: "parse_part part l = Inr path" and decoder: "decoder = Some \<lparr>ts_identity = None, ts_mailbox = mailbox, ts_uid = uid,
      ts_uid_validity = validity, ts_part = path, ts_decoder = decoder_new Identity, ts_wire_bytes = 0, ts_eof = False\<rparr>"
    using assms by (auto simp: attachment_decoder_new_def split: if_splits)
  have "transfer_inv ah uid path [] [] (the decoder)"
    using decoder_new_wf [where e = Identity] by (simp add: decoder transfer_inv_def decoder_new_def)
  with path decoder show ?thesis by simp
qed


section \<open>How much a read asks\<close>

lemma conn_sent_request: "length (conn_sent (snd (request h command kind c))) \<le> length (conn_sent c) + 1"
proof -
  obtain r d where run: "request h command kind c = (r, d)" by force
  obtain t c1 where t: "conn_tag (prepare (kind_contract kind) c) = (t, c1)" by force
  have c1: "conn_sent c1 = conn_sent c" using conn_tag_sent [OF t] by simp
  show ?thesis
  proof (cases t)
    case (Inl e)
    then show ?thesis using run t c1 by (auto simp: request_def wire_bind_def)
  next
    case (Inr tag)
    obtain w c2 where w: "conn_write (command_line tag command) c1 = (w, c2)" by force
    have "conn_sent c2 = conn_sent c @ [command_line tag command]" using conn_write_sent [OF w] c1 by simp
    moreover have "conn_sent d = conn_sent c2"
      using run t Inr w collect_sent [of h tag kind collect_start c2]
      by (auto simp: request_def wire_bind_def split: sum.splits)
    ultimately show ?thesis by (simp add: run)
  qed
qed

lemma wire_bind_snd: "snd (wire_bind m k c) = (case m c of (Inl _, d) \<Rightarrow> d | (Inr x, d) \<Rightarrow> snd (k x d))"
  by (auto simp: wire_bind_def split: prod.split sum.split)

lemma conn_sent_fetch: "length (conn_sent (snd (fetch_execute h f c))) \<le> length (conn_sent c) + 1"
  using conn_sent_request [of h "fetch_command f" "KindBody f" c]
  by (auto simp: fetch_execute_def wire_bind_snd wire_lift_def split: prod.split sum.split Fetch.split)

lemma conn_sent_fetch_bytes: "length (conn_sent (snd (fetch_bytes h f c))) \<le> length (conn_sent c) + 1"
  using conn_sent_fetch [of h f c] by (auto simp: fetch_bytes_def wire_bind_snd wire_lift_def split: prod.split sum.split)

text \<open>Every slice but the last is a full chunk.\<close>

definition slices_left :: "ImapLimits \<Rightarrow> nat \<Rightarrow> nat" where
  "slices_left l remaining = (case fetch_chunk_bytes l of Inl _ \<Rightarrow> 0 | Inr chunk \<Rightarrow> remaining div chunk + 1)"

lemma slices_left_step:
  assumes "fetch_chunk_bytes l = Inr chunk" and "0 < chunk" and "min chunk (saturating_add remaining 1) \<le> n" and "n \<le> remaining"
  shows "slices_left l (remaining - n) + 1 \<le> slices_left l remaining"
proof -
  have "chunk \<le> n"
  proof (rule ccontr)
    assume "\<not> chunk \<le> n"
    then have "saturating_add remaining 1 \<le> remaining" "saturating_add remaining 1 < chunk" using assms(3,4) by simp_all
    then have "usize_max \<le> remaining" "usize_max < chunk" by (auto simp: saturating_add_def min_def split: if_splits)
    moreover have "chunk \<le> MAX_CHUNK_BYTES" using assms(1) by (auto simp: fetch_chunk_bytes_def Let_def split: if_splits)
    ultimately show False by (simp add: usize_max_def MAX_CHUNK_BYTES_def)
  qed
  then have "(remaining - n) div chunk \<le> (remaining - chunk) div chunk" by (intro div_le_mono) simp
  moreover have "remaining div chunk = (remaining - chunk) div chunk + 1"
    using \<open>chunk \<le> n\<close> assms(2,4) by (simp add: le_div_geq)
  ultimately show ?thesis using assms(1) by (simp add: slices_left_def)
qed

lemma read_slices_sent:
  "length (conn_sent (snd (read_slices decode h l fetched s c)))
     \<le> length (conn_sent c) + (if ts_eof s then 0 else slices_left l (il_attachment_wire_bytes l - ts_wire_bytes s))"
proof (induction "length (conn_reads c)" arbitrary: fetched s c rule: less_induct)
  case less
  show ?case
  proof (cases "pending_len (ts_decoder s) \<ge> il_attachment_chunk_bytes l \<or> ts_eof s \<or> page_boundary l fetched s c")
    case True
    then show ?thesis by (simp add: read_slices.simps [of decode h l fetched s c])
  next
    case False
    note run = read_slices.simps [of decode h l fetched s c, unfolded if_not_P [OF False]]
    show ?thesis
    proof (cases "slice_request s l")
      case (Inl e)
      then show ?thesis by (simp add: run)
    next
      case (Inr rf)
      obtain remaining f where rf: "rf = (remaining, f)" by force
      obtain cnt where cnt: "f = FetchBytes (ts_uid s) (Some (FetchPart (ts_part s))) (of_nat (ts_wire_bytes s)) (of_nat cnt)"
        "remaining = il_attachment_wire_bytes l - ts_wire_bytes s" "unat (of_nat cnt :: u32) = cnt"
        and chunk: "\<exists>chunk. fetch_chunk_bytes l = Inr chunk \<and> 0 < chunk \<and> cnt = min chunk (saturating_add remaining 1)"
        using slice_request_Inr [of s l remaining f] Inr rf by auto
      have one: "1 \<le> slices_left l remaining" using chunk by (auto simp: slices_left_def)
      obtain w c1 where w: "fetch_bytes h f c = (w, c1)" by force
      have c1: "length (conn_sent c1) \<le> length (conn_sent c) + 1" using conn_sent_fetch_bytes [of h f c] w by simp
      show ?thesis
      proof (cases w)
        case (Inl e)
        then show ?thesis using c1 one cnt(2) False \<open>slice_request s l = Inr rf\<close> rf w by (simp add: run)
      next
        case (Inr wire)
        obtain x c2 where x: "slice_decode decode l remaining (unat (fetch_count f)) wire s c1 = (x, c2)" by force
        have c2: "conn_sent c2 = conn_sent c1" "conn_reads c2 = conn_reads c1" using slice_decode_reads [OF x] by simp_all
        show ?thesis
        proof (cases x)
          case (Inl e)
          then show ?thesis
            using c1 c2 one cnt(2) False \<open>slice_request s l = Inr rf\<close> rf w \<open>w = Inr wire\<close> x by (simp add: run)
        next
          case (Inr s1)
          have less': "length (conn_reads c2) < length (conn_reads c)"
            using fetch_bytes_shorter [of h f c wire c1] w \<open>w = Inr wire\<close> c2 by simp
          have eq: "read_slices decode h l fetched s c = read_slices decode h l True s1 c2"
            using \<open>slice_request s l = Inr rf\<close> rf w \<open>w = Inr wire\<close> x Inr by (simp add: run)
          from slice_decode_Inr [OF x [unfolded Inr]]
          have fits: "length wire \<le> remaining" and step: "ts_eof s1 \<or> ts_wire_bytes s1 = ts_wire_bytes s + length wire \<and> cnt \<le> length wire"
            using cnt(1,3) by (auto split: if_splits)
          note ih = less.hyps [OF less', of True s1]
          show ?thesis
          proof (cases "ts_eof s1")
            case True
            then show ?thesis unfolding eq using ih c1 c2(1) one cnt(2) False by simp
          next
            case cont: False
            then have "slices_left l (il_attachment_wire_bytes l - ts_wire_bytes s1) + 1 \<le> slices_left l remaining"
              using slices_left_step [of l _ remaining "length wire"] chunk step fits cnt(2) by auto
            then show ?thesis unfolding eq using ih cont c1 c2(1) cnt(2) False by simp
          qed
        qed
      qed
    qed
  qed
qed

definition sends_at_most :: "nat \<Rightarrow> 'a wire \<Rightarrow> bool" where
  "sends_at_most n m \<longleftrightarrow> (\<forall>c. length (conn_sent (snd (m c))) \<le> length (conn_sent c) + n)"

lemma sends_at_most_bind: "sends_at_most a m \<Longrightarrow> (\<And>x. sends_at_most b (k x)) \<Longrightarrow> sends_at_most (a + b) (wire_bind m k)"
  unfolding sends_at_most_def wire_bind_snd
proof (rule allI, goal_cases)
  case (1 c)
  obtain x d where m: "m c = (x, d)" by force
  then have d: "length (conn_sent d) \<le> length (conn_sent c) + a" using 1(1) by (metis snd_conv)
  show ?case
  proof (cases x)
    case (Inl e)
    then show ?thesis using m d by simp
  next
    case (Inr y)
    have "length (conn_sent (snd (k y d))) \<le> length (conn_sent d) + b" using 1(2) by blast
    then show ?thesis using m d Inr by simp
  qed
qed

lemma sends_at_most_simple: "sends_at_most 0 (wire_return x)" "sends_at_most 0 (wire_lift r)"
  by (simp_all add: sends_at_most_def wire_return_def wire_lift_def)

lemma sends_at_most_mono: "sends_at_most a m \<Longrightarrow> a \<le> b \<Longrightarrow> sends_at_most b m"
  unfolding sends_at_most_def by (meson add_left_mono le_trans)

lemma sends_at_most_request: "sends_at_most 1 (request h command kind)"
  unfolding sends_at_most_def using conn_sent_request by blast

lemma sends_at_most_logout: "sends_at_most 1 (logout h)"
  using sends_at_most_bind [OF sends_at_most_request sends_at_most_simple(1)] unfolding logout_def add_0_right .

lemma sends_at_most_examine: "sends_at_most 1 (examine enc h name)"
proof -
  have last: "sends_at_most 0 (\<lambda>c. (case conn_uid_validity c of None \<Rightarrow> Inl ImapUnsafeSelection | Some v \<Rightarrow> Inr (v, next), c))"
    for "next" :: "u32 option"
    by (simp add: sends_at_most_def)
  have "sends_at_most (0 + (1 + (0 + 0))) (examine_selection enc h name)"
    unfolding examine_selection_def by (intro sends_at_most_bind sends_at_most_simple sends_at_most_request last)
  then have "sends_at_most (1 + 0) (examine enc h name)"
    unfolding examine_def by (intro sends_at_most_bind) (auto simp: sends_at_most_simple)
  then show ?thesis by simp
qed

lemma sends_at_most_definitions: "sends_at_most 1 (attachment_definitions h uid l wanted)"
proof -
  have "sends_at_most (1 + 0) (attachment_definitions h uid l wanted)"
    unfolding attachment_definitions_def
    by (intro sends_at_most_bind sends_at_most_simple) (unfold sends_at_most_def, use conn_sent_fetch in blast)
  then show ?thesis by simp
qed

lemma sends_at_most_slices: "sends_at_most (slices_left l (il_attachment_wire_bytes l)) (read_slices decode h l fetched s)"
  unfolding sends_at_most_def
proof
  fix c
  have "slices_left l (il_attachment_wire_bytes l - ts_wire_bytes s) \<le> slices_left l (il_attachment_wire_bytes l)"
    by (auto simp: slices_left_def div_le_mono split: sum.split)
  then show "length (conn_sent (snd (read_slices decode h l fetched s c)))
      \<le> length (conn_sent c) + slices_left l (il_attachment_wire_bytes l)"
    using read_slices_sent [of decode h l fetched s c] by (auto split: if_splits)
qed

lemma sends_at_most_start: "sends_at_most 1 (transfer_start h l s)"
proof (cases "ts_wire_bytes s = 0 \<and> \<not> ts_eof s")
  case True
  then have "transfer_start h l s = wire_bind (attachment_definitions h (ts_uid s) l (Some (ts_part s))) (\<lambda>definitions.
        wire_lift (case definitions of
            [] \<Rightarrow> Inl ImapStaleReference
          | d # _ \<Rightarrow> and_then (ok_or ImapUnsupported (def_encoding d)) (\<lambda>e. Inr (s\<lparr>ts_decoder := decoder_new e\<rparr>))))"
    by (simp add: transfer_start_def)
  then show ?thesis
    using sends_at_most_bind [OF sends_at_most_definitions sends_at_most_simple(2)] unfolding add_0_right by simp
next
  case False
  then have "transfer_start h l s = wire_return s" unfolding transfer_start_def by (rule if_not_P)
  then show ?thesis using sends_at_most_mono [OF sends_at_most_simple(1)] by simp
qed

lemma sends_at_most_selected: "sends_at_most (slices_left l (il_attachment_wire_bytes l) + 2) (read_selected decode h l s)"
proof -
  have finish: "sends_at_most 1 (\<lambda>c. case take_chunk n (ts_decoder s) of (chunk, d) \<Rightarrow>
      let s = s\<lparr>ts_decoder := d\<rparr> in wire_bind (logout h) (\<lambda>_. wire_return (chunk, s)) (publish s c))" for n s
  proof -
    obtain chunk d where take: "take_chunk n (ts_decoder s) = (chunk, d)" by force
    have "sends_at_most (1 + 0) (wire_bind (logout h) (\<lambda>_. wire_return (chunk, s\<lparr>ts_decoder := d\<rparr>)))"
      by (intro sends_at_most_bind sends_at_most_logout sends_at_most_simple)
    then show ?thesis unfolding sends_at_most_def take prod.case Let_def by (metis add_0_right publish_simps(2))
  qed
  have "sends_at_most (1 + (slices_left l (il_attachment_wire_bytes l) + 1)) (read_selected decode h l s)"
    unfolding read_selected_def by (intro sends_at_most_bind sends_at_most_start sends_at_most_slices finish)
  then show ?thesis by (simp add: add.commute)
qed

text \<open>
  C40: One call of a transfer sends at most a selection, a look-up of the part, one fetch per full chunk
  of the configured wire ceiling and one more, and a logout, whatever the server answers and even if it always has more data.
\<close>

theorem attachment_read_terminates:
  "length (conn_sent (snd (read_attachment ah identity l decoder c)))
     \<le> length (conn_sent c) + slices_left l (il_attachment_wire_bytes l) + 3"
proof -
  have "sends_at_most (1 + (slices_left l (il_attachment_wire_bytes l) + 2))
      (wire_bind (examine (ah_encode ah) (ah_metadata ah) m) (\<lambda>validity.
         if validity \<noteq> v then wire_lift (Inl ImapStaleReference) else read_selected (ah_base64 ah) (ah_metadata ah) l s))" for m v s
  proof (rule sends_at_most_bind [OF sends_at_most_examine])
    fix validity
    show "sends_at_most (slices_left l (il_attachment_wire_bytes l) + 2)
        (if validity \<noteq> v then wire_lift (Inl ImapStaleReference) else read_selected (ah_base64 ah) (ah_metadata ah) l s)"
      by (cases "validity \<noteq> v") (simp_all only: if_True if_False sends_at_most_selected sends_at_most_mono [OF sends_at_most_simple(2)] simp_thms le0)
  qed
  note bound = this [unfolded sends_at_most_def, rule_format]
  have run: "length (conn_sent (snd (wire_bind (examine (ah_encode ah) (ah_metadata ah) m) (\<lambda>validity.
         if validity \<noteq> v then wire_lift (Inl ImapStaleReference) else read_selected (ah_base64 ah) (ah_metadata ah) l s) (limit_body l c))))
      \<le> length (conn_sent c) + slices_left l (il_attachment_wire_bytes l) + 3" for m v s
    using bound [of m v s "limit_body l c"] by simp
  show ?thesis
  proof (cases decoder)
    case (Some s)
    show ?thesis
      using run [of "ts_mailbox s" "ts_uid_validity s" "s\<lparr>ts_identity := Some identity\<rparr>"]
      by (auto simp: read_attachment_def Some Let_def split: sum.split prod.split)
  qed (simp add: read_attachment_def)
qed

section \<open>An example\<close>

text \<open>A base64 part of one slice, read in two pages of three bytes.\<close>

definition example_host' :: attachment_host where
  "example_host' = \<lparr>ah_encode = (\<lambda>_. []), ah_metadata = example_host, ah_base64 = strict_base64, ah_sha256 = map of_char\<rparr>"

definition example_structure :: BodyStructure where
  "example_structure = BasicStructure
     \<lparr>common_type = ''TEXT'', common_subtype = ''PLAIN'', common_params = None,
      common_disposition = Some \<lparr>disp_type = ''attachment'', disp_params = None\<rparr>\<rparr>
     \<lparr>single_encoding = Base64Encoding, single_id = None, single_octets = 8\<rparr>"

definition example_replies :: "Response list \<Rightarrow> Connection" where
  "example_replies rs = example_connection (map (\<lambda>r. \<lparr>wr_bytes = 20, wr_result = ReadOk r\<rparr>) rs)"

definition plain_done :: "string \<Rightarrow> Response" where
  "plain_done tag = RespDone tag StatusOk \<lparr>out_code = None, out_information = None\<rparr>"

definition example_select :: "Response list" where
  "example_select = [RespData StatusOk \<lparr>out_code = Some (CodeUidValidity 7), out_information = None\<rparr>,
     RespDone ''M1'' StatusOk \<lparr>out_code = Some CodeReadOnly, out_information = None\<rparr>]"

definition example_bye :: Response where
  "example_bye = RespData StatusBye \<lparr>out_code = None, out_information = None\<rparr>"

definition example_page_limits :: ImapLimits where
  "example_page_limits = imap_limits_default\<lparr>il_attachment_chunk_bytes := 3\<rparr>"

definition example_calls :: "(sha256 \<times> ImapLimits \<times> Connection) list" where
  "example_calls = [([], example_page_limits, example_replies (example_select @
      [RespFetch 1 [AttrUid 5, AttrSize 9, AttrStructure example_structure], plain_done ''M2'',
       RespFetch 1 [AttrUid 5, AttrSection (Some (SectionPart [1] None)) (Some 0) (Some ''aGVsbG8='')], plain_done ''M3'',
       example_bye, plain_done ''M4''])),
    ([], example_page_limits, example_replies (example_select @ [example_bye, plain_done ''M2'']))]"

definition example_pages :: "AttachmentData list" where
  "example_pages = [\<lparr>ad_bytes = ''hel'', ad_decoded_offset = 0, ad_integrity = None\<rparr>,
     \<lparr>ad_bytes = ''lo'', ad_decoded_offset = 3,
      ad_integrity = Some \<lparr>ai_total_decoded_bytes = 5, ai_sha256 = map of_char ''hello''\<rparr>\<rparr>]"

lemma example_transfer:
  "case attachment_decoder_new ''INBOX'' 5 7 ''1'' example_page_limits of
     Inr decoder \<Rightarrow> transfer_calls example_host' example_calls decoder = (map Inr example_pages, None) | Inl _ \<Rightarrow> False"
  by code_simp


end
