(* ===== verification/BodySafety.thy ===== *)
theory BodySafety
  imports Body AttachmentSafety
begin

text \<open>
  What a body read returns, what reading bodies and attachments may say to the server, and what the position in a body is
  bound to.
\<close>

section \<open>Only read commands\<close>

definition lines_at :: "'a wire \<Rightarrow> Connection \<Rightarrow> bool" where
  "lines_at m c \<longleftrightarrow> (\<exists>new. conn_sent (snd (m c)) = conn_sent c @ new \<and> list_all read_only_line new)"

lemma lines_at_iff: "sends read_only_line m \<longleftrightarrow> (\<forall>c. lines_at m c)"
  by (simp add: sends_def lines_at_def)

lemma lines_at_same: "conn_sent (snd (m c)) = conn_sent c \<Longrightarrow> lines_at m c"
  unfolding lines_at_def by (rule exI [of _ "[]"]) simp

lemma lines_at_simple: "lines_at (wire_return x) c" "lines_at (wire_lift r) c"
  by (simp_all add: lines_at_same wire_return_def wire_lift_def)

lemma lines_at_bind:
  assumes "lines_at m c" and "\<And>x c1. m c = (Inr x, c1) \<Longrightarrow> lines_at (k x) c1"
  shows "lines_at (wire_bind m k) c"
proof -
  obtain r c1 where m: "m c = (r, c1)" by force
  obtain a where a: "conn_sent c1 = conn_sent c @ a" "list_all read_only_line a" using assms(1) m by (auto simp: lines_at_def)
  show ?thesis
  proof (cases r)
    case (Inl e)
    then show ?thesis using m a by (auto simp: lines_at_def wire_bind_def)
  next
    case (Inr x)
    then obtain b where "conn_sent (snd (k x c1)) = conn_sent c1 @ b" "list_all read_only_line b"
      using assms(2) m by (auto simp: lines_at_def)
    with a Inr m show ?thesis by (auto simp: lines_at_def wire_bind_def)
  qed
qed

text \<open>A loop that reads before it continues.\<close>

lemma sends_loop:
  assumes "\<And>x c. (\<And>y d. length (conn_reads d) < length (conn_reads c) \<Longrightarrow> lines_at (f y) d) \<Longrightarrow> lines_at (f x) c"
  shows "sends read_only_line (f x)"
proof -
  have "lines_at (f x) c" for c
    by (induction "length (conn_reads c)" arbitrary: x c rule: less_induct) (use assms in blast)
  then show ?thesis by (simp add: lines_at_iff)
qed

lemma lines_at_fetch: "lines_at (fetch_bytes h f) c"
  using sends_fetch_bytes by (simp add: lines_at_iff)

lemma sends_pair [sends_intros]: "(\<And>a b. x = (a, b) \<Longrightarrow> sends P (f a b)) \<Longrightarrow> sends P (case x of (a, b) \<Rightarrow> f a b)"
  by (cases x) simp

lemma sends_result [sends_intros]: "sends P (\<lambda>c. (f c, c))"
  by (simp add: sends_def)

section \<open>Bodies\<close>

lemma read_section_bind:
  "read_section h uid sec ceiling budget chunk acc =
     (let n = min chunk (ceiling + 1 - length acc) in
      wire_bind (fetch_bytes h (FetchBytes uid sec (of_nat (length acc)) (of_nat n))) (\<lambda>v.
        if length v > budget - length acc then wire_lift (Inl ImapLimit)
        else if length acc + length v > ceiling then wire_lift (Inl ImapProtocol)
        else if length v < n then wire_return (acc @ v)
        else read_section h uid sec ceiling budget chunk (acc @ v)))"
  by (rule ext) (simp add: read_section.simps [of h uid sec ceiling budget chunk acc] wire_bind_def wire_lift_def wire_return_def Let_def
      split: prod.split sum.split)

lemma sends_section [sends_intros]: "sends read_only_line (read_section h uid sec ceiling budget chunk acc)"
proof (rule sends_loop [where f = "read_section h uid sec ceiling budget chunk"])
  fix acc and c :: Connection
  assume again: "\<And>acc d. length (conn_reads d) < length (conn_reads c) \<Longrightarrow> lines_at (read_section h uid sec ceiling budget chunk acc) d"
  show "lines_at (read_section h uid sec ceiling budget chunk acc) c"
    unfolding read_section_bind [of h uid sec ceiling budget chunk acc] Let_def
    by (rule lines_at_bind [OF lines_at_fetch]) (auto intro!: lines_at_simple again dest: fetch_bytes_shorter)
qed

lemma sends_section_bytes [sends_intros]: "sends read_only_line (section_bytes h uid sec expected budget l)"
  unfolding section_bytes_def Let_def by (intro sends_intros)

lemma sends_section_headers [sends_intros]: "sends read_only_line (section_headers h uid sec l used)"
  unfolding section_headers_def Let_def by (intro sends_intros)

lemma sends_identifiers [sends_intros]: "sends read_only_line (related_identifiers hh h uid l paths used ids)"
proof (induction paths arbitrary: used ids)
  case (Cons path paths)
  show ?case unfolding related_identifiers.simps by (intro sends_intros Cons.IH)
qed (simp add: sends_intros)

lemma sends_selected_bytes [sends_intros]: "sends read_only_line (selected_bytes h uid l sz single root sel)"
  unfolding selected_bytes_def by (intro sends_intros)

lemma sends_render [sends_intros]: "sends read_only_line (render_selected bh uid l sz single root selected)"
proof (cases selected)
  case None
  then show ?thesis by (simp add: render_selected_def sends_intros)
next
  case (Some sel)
  show ?thesis unfolding render_selected_def Some option.case by (intro sends_intros)
qed

lemma sends_represented [sends_intros]: "sends read_only_line (read_represented bh context r l sz structure)"
  unfolding read_represented_def Let_def by (intro sends_intros)

lemma sends_read_body: "sends read_only_line (read_body bh identity name r l)"
  unfolding read_body_def read_body_selected_def by (intro sends_intros)

section \<open>Attachments\<close>

lemma sends_definitions [sends_intros]: "sends read_only_line (attachment_definitions h uid l wanted)"
  unfolding attachment_definitions_def by (intro sends_intros)

lemma sends_list_attachments: "sends read_only_line (list_attachments enc h name req l)"
  unfolding list_attachments_def by (intro sends_intros)

lemma read_slices_bind:
  "read_slices decode h l fetched s c =
     (if pending_len (ts_decoder s) \<ge> il_attachment_chunk_bytes l \<or> ts_eof s \<or> page_boundary l fetched s c then (Inr s, c)
      else wire_bind (wire_lift (slice_request s l)) (\<lambda>(remaining, f).
        wire_bind (fetch_bytes h f) (\<lambda>wire.
        wire_bind (slice_decode decode l remaining (unat (fetch_count f)) wire s) (read_slices decode h l True))) c)"
  by (simp add: read_slices.simps [of decode h l fetched s c] wire_bind_def wire_lift_def split: prod.split sum.split)

lemma lines_at_decode: "lines_at (slice_decode decode l remaining cnt wire s) c"
  by (rule lines_at_same) (metis prod.collapse slice_decode_reads)

lemma slices_step:
  assumes "\<And>fetched s d. length (conn_reads d) < length (conn_reads c) \<Longrightarrow> lines_at (read_slices decode h l fetched s) d"
  shows "lines_at (read_slices decode h l fetched s) c"
proof -
  have "lines_at (wire_bind (wire_lift (slice_request s l)) (\<lambda>(remaining, f).
      wire_bind (fetch_bytes h f) (\<lambda>wire.
      wire_bind (slice_decode decode l remaining (unat (fetch_count f)) wire s) (read_slices decode h l True)))) c"
  proof (rule lines_at_bind [OF lines_at_simple(2)], clarify, rule lines_at_bind [OF lines_at_fetch],
      rule lines_at_bind [OF lines_at_decode])
    fix remaining f wire s' c1 c2 c3
    assume "wire_lift (slice_request s l) c = (Inr (remaining, f), c1)" "fetch_bytes h f c1 = (Inr wire, c2)"
      and "slice_decode decode l remaining (unat (fetch_count f)) wire s c2 = (Inr s', c3)"
    then have "length (conn_reads c3) < length (conn_reads c)" using fetch_bytes_shorter slice_decode_reads by fastforce
    from assms [OF this] show "lines_at (read_slices decode h l True s') c3" .
  qed
  then show ?thesis
    using lines_at_same [of "\<lambda>c. (Inr s, c)" c] unfolding lines_at_def read_slices_bind [of decode h l fetched s c] by simp
qed

lemma sends_slices [sends_intros]: "sends read_only_line (read_slices decode h l fetched s)"
proof -
  have "lines_at (read_slices decode h l fetched s) c" for c
    by (induction "length (conn_reads c)" arbitrary: fetched s c rule: less_induct) (use slices_step in blast)
  then show ?thesis by (simp add: lines_at_iff)
qed

lemma sends_transfer_start [sends_intros]: "sends read_only_line (transfer_start h l s)"
  unfolding transfer_start_def by (intro sends_intros)

lemma sends_publish [sends_intros]: "sends P m \<Longrightarrow> sends P (\<lambda>c. m (publish s c))"
  by (rule sends_adjust) (simp_all add: publish_def Let_def)

lemma sends_part [sends_intros]: "sends read_only_line (read_selected decode h l s)"
  unfolding read_selected_def
proof (intro sends_bind sends_transfer_start sends_slices)
  fix s :: TransferState
  show "sends read_only_line (\<lambda>c. case take_chunk (il_attachment_chunk_bytes l) (ts_decoder s) of (chunk, d) \<Rightarrow>
      let s = s\<lparr>ts_decoder := d\<rparr> in wire_bind (logout h) (\<lambda>_. wire_return (chunk, s)) (publish s c))"
    unfolding split_def Let_def by (intro sends_intros)
qed

text \<open>The result of an attachment read without the state that continues it.\<close>

definition attachment_wire :: "attachment_host \<Rightarrow> sha256 \<Rightarrow> ImapLimits \<Rightarrow> AttachmentDecoder \<Rightarrow> AttachmentData wire" where
  "attachment_wire ah identity l decoder c =
     (case read_attachment ah identity l decoder c of ((r, _), d) \<Rightarrow> (r, d))"

lemma sends_read_attachment: "sends read_only_line (attachment_wire ah identity l decoder)"
proof (cases decoder)
  case None
  then show ?thesis by (simp add: sends_def attachment_wire_def read_attachment_def)
next
  case (Some s)
  let ?s = "s\<lparr>ts_identity := Some identity\<rparr>"
  let ?m = "\<lambda>c. wire_bind (examine (ah_encode ah) (ah_metadata ah) (ts_mailbox s)) (\<lambda>validity.
      if validity \<noteq> ts_uid_validity s then wire_lift (Inl ImapStaleReference)
      else read_selected (ah_base64 ah) (ah_metadata ah) l ?s) (limit_body l c)"
  have m: "sends read_only_line ?m" by (intro sends_intros)
  have "lines_at (attachment_wire ah identity l decoder) c" for c
  proof (cases "imap_limits_validate l = Inr () \<and> \<not> is_some_and (ts_identity s) (\<lambda>i. i \<noteq> identity)")
    case True
    then have "snd (attachment_wire ah identity l decoder c) = snd (?m c)"
      by (simp add: attachment_wire_def read_attachment_def Some Let_def split: sum.split prod.split)
    then show ?thesis using m by (simp add: lines_at_iff lines_at_def)
  next
    case False
    then show ?thesis
      by (intro lines_at_same) (auto simp: attachment_wire_def read_attachment_def Some split: sum.split)
  qed
  then show ?thesis by (simp add: lines_at_iff)
qed



section \<open>What a read returns\<close>

text \<open>Consecutive answers to fetches of one section, each full but the last.\<close>

fun section_answers :: "metadata_host \<Rightarrow> u32 \<Rightarrow> Section option \<Rightarrow> nat \<Rightarrow> bytes list \<Rightarrow> bool" where
  "section_answers h uid sec offset [] = False"
| "section_answers h uid sec offset (b # bs) \<longleftrightarrow>
     (\<exists>n c d. fetch_bytes h (FetchBytes uid sec (of_nat offset) (of_nat n)) c = (Inr b, d) \<and> (bs = [] \<longleftrightarrow> length b < n))
     \<and> (bs = [] \<or> section_answers h uid sec (offset + length b) bs)"

lemma read_section_Inr:
  "read_section h uid sec ceiling budget chunk acc c = (Inr v, d) \<Longrightarrow>
     (\<exists>bs. section_answers h uid sec (length acc) bs \<and> v = acc @ concat bs) \<and> length v \<le> ceiling"
proof (induction "length (conn_reads c)" arbitrary: acc c rule: less_induct)
  case less
  define n where "n = min chunk (ceiling + 1 - length acc)"
  obtain b c1 where b: "fetch_bytes h (FetchBytes uid sec (of_nat (length acc)) (of_nat n)) c = (Inr b, c1)"
    and fits: "length acc + length b \<le> ceiling"
    and rest: "(if length b < n then wire_return (acc @ b) else read_section h uid sec ceiling budget chunk (acc @ b)) c1 = (Inr v, d)"
    using less.prems unfolding read_section_bind [of h uid sec ceiling budget chunk acc] Let_def n_def [symmetric]
    by (auto simp: wire_bind_Inr not_less split: if_splits)
  show ?case
  proof (cases "length b < n")
    case True
    then have "section_answers h uid sec (length acc) [b]" using b by auto
    then show ?thesis using True rest fits by (intro conjI exI [of _ "[b]"]) (simp_all del: section_answers.simps)
  next
    case False
    have "length (conn_reads c1) < length (conn_reads c)" by (rule fetch_bytes_shorter [OF b])
    from less.hyps [OF this, of "acc @ b"] rest False obtain bs where
      bs: "section_answers h uid sec (length acc + length b) bs" "v = acc @ b @ concat bs" "length v \<le> ceiling" by auto
    then have "bs \<noteq> []" by auto
    then have "section_answers h uid sec (length acc) (b # bs)" using b bs(1) False by auto
    then show ?thesis using bs(2,3) by (intro conjI exI [of _ "b # bs"]) simp_all
  qed
qed

lemma section_bytes_Inr:
  assumes "section_bytes h uid sec (Some n) budget l c = (Inr v, d)"
  shows "(\<exists>bs. section_answers h uid sec 0 bs \<and> v = concat bs) \<and> length v \<le> n"
  using assms read_section_Inr [where acc = "[]"] by (fastforce simp: section_bytes_def wire_bind_Inr split: if_splits)

text \<open>The bytes of the selected part: its own section, or the message behind its headers.\<close>

definition part_content :: "metadata_host \<Rightarrow> u32 \<Rightarrow> Selected \<Rightarrow> bytes \<Rightarrow> bool" where
  "part_content h uid sel body \<longleftrightarrow> length body \<le> sel_wire_size sel
     \<and> ((\<exists>bs. section_answers h uid (Some (FetchPart (sel_part sel))) 0 bs \<and> body = concat bs)
        \<or> (\<exists>bs root. section_answers h uid None 0 bs \<and> root @ body = concat bs \<and> complete_headers root))"

lemma validated_complete: "validate_headers hh root sel l = Inr v \<Longrightarrow> complete_headers root"
  by (auto simp: validate_headers_def split: if_splits)

lemma selected_bytes_Inr:
  assumes "selected_bytes h uid l sz single root sel c = (Inr body, d)" and "complete_headers root"
  shows "part_content h uid sel body"
proof (cases "single \<and> sz \<le> il_body_wire_bytes l")
  case True
  then obtain whole c1 where whole: "section_bytes h uid None (Some sz) (il_body_wire_bytes l) l c = (Inr whole, c1)"
    and root: "prefix root whole" "length whole - length root \<le> sel_wire_size sel" "body = drop (length root) whole"
    using assms(1) by (auto simp: selected_bytes_def wire_bind_Inr split: if_splits)
  then obtain bs where "section_answers h uid None 0 bs" "whole = concat bs" using section_bytes_Inr [OF whole] by blast
  moreover have "root @ body = whole" "length body \<le> sel_wire_size sel" using root by (auto simp: prefix_def)
  ultimately show ?thesis using assms(2) unfolding part_content_def by blast
next
  case False
  then show ?thesis using assms(1) section_bytes_Inr by (fastforce simp: selected_bytes_def part_content_def)
qed

lemma render_selected_Inr:
  assumes "render_selected bh uid l sz single root selected c = (Inr rendered, d)" and "complete_headers root"
  shows "case selected of None \<Rightarrow> rendered = None
    | Some sel \<Rightarrow> (\<exists>body r. rendered = Some (body, r) \<and> part_content (bdh_metadata bh) uid sel body
        \<and> render (bdh_render bh) sel body l = Inr r)"
proof (cases selected)
  case (Some sel)
  then obtain body c1 c2 r where "selected_bytes (bdh_metadata bh) uid l sz single root sel c1 = (Inr body, c2)"
    and r: "render (bdh_render bh) sel body l = Inr r" "rendered = Some (body, r)"
    using assms(1) by (auto simp: render_selected_def wire_bind_Inr split: if_splits)
  from selected_bytes_Inr [OF this(1) assms(2)] r show ?thesis by (simp add: Some)
qed (use assms in \<open>simp add: render_selected_def\<close>)

lemma lifted: "wire_lift m c = (Inr x, d) \<longleftrightarrow> m = Inr x \<and> d = c"
  by auto

lemma read_body_Inr:
  assumes "read_body bh identity name r l c = (Inr p, d)"
  obtains c1 c2 row sz str ids selected rendered m where
    "examine (bdh_encode bh) (bdh_metadata bh) name (limit_body l c) = (Inr (br_uid_validity r), c1)"
    and "fetch_execute (bdh_metadata bh) (FetchMetadata (br_uid r)) c1 = (Inr row, c2)"
    and "and_then (fetch_items row) fetch_metadata = Inr (sz, str)"
    and "select_body str l ids = Inr selected"
    and "case selected of None \<Rightarrow> rendered = None
      | Some sel \<Rightarrow> (\<exists>body v. rendered = Some (body, v) \<and> part_content (bdh_metadata bh) (br_uid r) sel body
          \<and> render (bdh_render bh) sel body l = Inr v)"
    and "body_result bh (message_context identity name r) (br_continuation r) l selected rendered m = Inr p"
    and "mailbox_argument name = Inr ()"
proof -
  obtain c1 c2 row sz str where arg: "mailbox_argument name = Inr ()"
    and 1: "examine (bdh_encode bh) (bdh_metadata bh) name (limit_body l c) = (Inr (br_uid_validity r), c1)"
    and 2: "fetch_execute (bdh_metadata bh) (FetchMetadata (br_uid r)) c1 = (Inr row, c2)"
    and 3: "and_then (fetch_items row) fetch_metadata = Inr (sz, str)"
    and run: "read_represented bh (message_context identity name r) r l (unat sz) str c2 = (Inr p, d)"
    using assms by (auto simp: read_body_def read_body_selected_def wire_bind_Inr lifted simp del: wire_lift_iff split: if_splits)
  obtain root c3 c4 c5 ids selected rendered v where root: "validate_headers (bdh_headers bh) root None l = Inr v"
    and 4: "select_body str l ids = Inr selected"
    and 5: "render_selected bh (br_uid r) l (unat sz) (\<not> is_multipart str) root selected c3 = (Inr rendered, c4)"
    and 6: "body_result bh (message_context identity name r) (br_continuation r) l selected rendered (conn_metrics (c5 :: Connection)) = Inr p"
    using run unfolding read_represented_def Let_def
    by (auto simp: wire_bind_Inr lifted simp del: wire_lift_iff)
  from that [OF 1 2 3 4 render_selected_Inr [OF 5 validated_complete [OF root]] 6 arg] show thesis .
qed



section \<open>What a position is bound to\<close>

lemma be_bytes_length [simp]: "length (be_bytes n v) = n"
  by (induction n arbitrary: v) simp_all

lemma be_bytes_inj: "be_bytes n v = be_bytes n w \<Longrightarrow> v < 256 ^ n \<Longrightarrow> w < 256 ^ n \<Longrightarrow> v = w"
proof (induction n arbitrary: v w)
  case (Suc n)
  have "chr (v mod 256) = chr (w mod 256)" "v div 256 = w div 256"
    using Suc by (auto simp: less_mult_imp_div_less mult.commute)
  then have "v mod 256 = w mod 256" by (metis mod_less_divisor ord_chr zero_less_numeral)
  with \<open>v div 256 = w div 256\<close> show ?case by (metis div_mult_mod_eq)
qed simp

lemma octets_inj: "octets a = octets b \<Longrightarrow> a = b"
proof -
  have "inj (\<lambda>b :: u8. chr (unat b))"
  proof (rule injI)
    fix v w :: u8 assume "chr (unat v) = chr (unat w)"
    then have "ord (chr (unat v)) = ord (chr (unat w))" by simp
    moreover have "unat v < 256" "unat w < 256" using unsigned_less [of v] unsigned_less [of w] by simp_all
    ultimately show "v = w" by (simp add: unsigned_word_eqI)
  qed
  then show "octets a = octets b \<Longrightarrow> a = b" by (simp add: octets_def inj_map_eq_map)
qed

lemma message_context_inj:
  assumes "message_context i n r @ x = message_context i' n' r' @ y" and "length i = length i'"
    and "length n \<le> 1024" "length n' \<le> 1024"
  shows "i = i' \<and> n = n' \<and> br_uid r = br_uid r' \<and> br_uid_validity r = br_uid_validity r'"
proof -
  have word: "unat (w :: u32) < 256 ^ 4" for w using unsigned_less [of w] by simp
  have i: "octets i = octets i'" "be_bytes 8 (length n) = be_bytes 8 (length n')"
    and rest: "n @ be_bytes 4 (unat (br_uid r)) @ be_bytes 4 (unat (br_uid_validity r)) @ x
      = n' @ be_bytes 4 (unat (br_uid r')) @ be_bytes 4 (unat (br_uid_validity r')) @ y"
    using assms(1,2) by (simp_all add: message_context_def octets_def)
  have "length n = length n'" using be_bytes_inj [OF i(2)] assms(3,4) by simp
  with rest have "n = n'" "be_bytes 4 (unat (br_uid r)) = be_bytes 4 (unat (br_uid r'))"
    "be_bytes 4 (unat (br_uid_validity r)) = be_bytes 4 (unat (br_uid_validity r'))" by simp_all
  moreover have "v = w" if "be_bytes 4 (unat v) = be_bytes 4 (unat w)" for v w :: u32
    using be_bytes_inj [OF that word word] by (rule unsigned_word_eqI)
  ultimately show ?thesis using octets_inj [OF i(1)] by blast
qed

lemma body_result_position:
  "body_result bh context previous l selected rendered m = Inr p \<Longrightarrow> bp_continuation p = Some k \<Longrightarrow>
     bc_fingerprint k = body_fingerprint bh context l selected rendered"
  by (auto simp: body_result_def body_page_def Let_def split: if_splits)

lemma body_result_accepted:
  "body_result bh context (Some k) l selected rendered m = Inr p \<Longrightarrow>
     bc_fingerprint k = body_fingerprint bh context l selected rendered"
  by (auto simp: body_result_def Let_def dest: body_page_position)

text \<open>
  C32: A position in a body never crosses messages. If a position returned for one read is accepted by another one, the account,
  the mailbox, the UID and the UID validity are the same, unless two different inputs of SHA-256 collide. The position
  itself need not be secret or signed for this.
\<close>

theorem body_position_bound:
  assumes "read_body bh identity name r l c = (Inr p, d)" and "bp_continuation p = Some k"
    and "read_body bh identity' name' r' l' c' = (Inr p', d')" and "br_continuation r' = Some k"
    and "length identity = length identity'"
  shows "identity = identity' \<and> name = name' \<and> br_uid r = br_uid r' \<and> br_uid_validity r = br_uid_validity r'
    \<or> (\<exists>x y. x \<noteq> y \<and> bdh_sha256 bh x = bdh_sha256 bh y)"
proof -
  obtain selected rendered m where 1: "mailbox_argument name = Inr ()"
    "body_result bh (message_context identity name r) (br_continuation r) l selected rendered m = Inr p"
    using read_body_Inr [OF assms(1)] by metis
  obtain selected' rendered' m' where 2: "mailbox_argument name' = Inr ()"
    "body_result bh (message_context identity' name' r') (Some k) l' selected' rendered' m' = Inr p'"
    using read_body_Inr [OF assms(3)] assms(4) by metis
  have "body_fingerprint bh (message_context identity name r) l selected rendered
      = body_fingerprint bh (message_context identity' name' r') l' selected' rendered'"
    using body_result_position [OF 1(2) assms(2)] body_result_accepted [OF 2(2)] by simp
  then obtain x y where "bdh_sha256 bh (message_context identity name r @ x) = bdh_sha256 bh (message_context identity' name' r' @ y)"
    unfolding body_fingerprint_def by blast
  moreover have "length name \<le> 1024" "length name' \<le> 1024" using 1(1) 2(1) by (auto simp: mailbox_argument_def split: if_splits)
  ultimately show ?thesis using message_context_inj [of identity name r x identity' name' r' y] assms(5) by metis
qed


section \<open>An example\<close>

text \<open>A single text part, read in two pages of at most four bytes.\<close>

definition example_body_host :: body_host where
  "example_body_host = \<lparr>bdh_encode = (\<lambda>_. []), bdh_metadata = example_host,
     bdh_headers = \<lparr>hh_name = (\<lambda>_. None), hh_message_ids = (\<lambda>_. None), hh_content_type = (\<lambda>_. None), hh_raw = (\<lambda>_. None)\<rparr>,
     bdh_render = example_render_host\<lparr>rn_charset := (\<lambda>_. Some (\<lambda>v. (v, False)))\<rparr>, bdh_limits = (\<lambda>_. []), bdh_sha256 = map of_char\<rparr>"

definition example_text_structure :: BodyStructure where
  "example_text_structure = TextStructure
     \<lparr>common_type = ''TEXT'', common_subtype = ''PLAIN'', common_params = Some [(''charset'', ''us-ascii'')],
      common_disposition = None\<rparr>
     \<lparr>single_encoding = SevenBit, single_id = None, single_octets = 5\<rparr>"

definition example_body_limits :: ImapLimits where
  "example_body_limits = imap_limits_default\<lparr>il_text_bytes := 4\<rparr>"

definition example_body_replies :: Connection where
  "example_body_replies = example_replies (example_select @
     [RespFetch 1 [AttrUid 5, AttrSize 7, AttrStructure example_text_structure], plain_done ''M2'',
      RespFetch 1 [AttrUid 5, AttrSection (Some (SectionFull SectionHeader)) (Some 0) (Some [CR, LF])], plain_done ''M3'',
      RespFetch 1 [AttrUid 5, AttrSection None (Some 0) (Some (CR # LF # ''hello''))], plain_done ''M4'',
      example_bye, plain_done ''M5''])"

definition example_request :: "BodyCursor option \<Rightarrow> BodyRequest" where
  "example_request previous = \<lparr>br_uid = 5, br_uid_validity = 7, br_continuation = previous\<rparr>"

definition example_read :: "BodyCursor option \<Rightarrow> BodyPage imap \<times> Connection" where
  "example_read previous = read_body example_body_host [] ''INBOX'' (example_request previous) example_body_limits example_body_replies"

definition example_position :: "BodyCursor option" where
  "example_position = (case fst (example_read None) of Inl e \<Rightarrow> None | Inr p \<Rightarrow> bp_continuation p)"

lemma example_first: "map_sum id bp_text (fst (example_read None)) = Inr ''hell''" "map_option bc_offset example_position = Some 4"
  by code_simp+

lemma example_second: "map_sum id bp_text (fst (example_read example_position)) = Inr ''o''"
  by code_simp

lemma example_pages_read:
  obtains p d p' d' where "example_read None = (Inr p, d)" "bp_continuation p = example_position" "bp_text p = ''hell''"
    "example_read example_position = (Inr p', d')" "bp_text p' = ''o''"
proof -
  obtain r d where r: "example_read None = (r, d)" by force
  obtain r' d' where r': "example_read example_position = (r', d')" by force
  obtain p where p: "r = Inr p" "bp_text p = ''hell''" using example_first(1) r by (cases r) auto
  obtain p' where p': "r' = Inr p'" "bp_text p' = ''o''" using example_second r' by (cases r') auto
  show thesis by (rule that [of p d p' d']) (use r r' p p' in \<open>simp_all add: example_position_def\<close>)
qed


lemma body_position_bound_witness:
  "br_uid (example_request None) = br_uid (example_request example_position)
   \<or> (\<exists>x y. x \<noteq> y \<and> bdh_sha256 example_body_host x = bdh_sha256 example_body_host y)"
proof -
  obtain p d p' d' where p: "example_read None = (Inr p, d)" "bp_continuation p = example_position"
    "example_read example_position = (Inr p', d')" by (rule example_pages_read)
  obtain k where k: "example_position = Some k" using example_first(2) by auto
  show ?thesis
    using body_position_bound [OF p(1) [unfolded example_read_def] _ p(3) [unfolded example_read_def], of k] p(2) k
    by (auto simp: example_request_def)
qed

end
