(* ===== verification/Mailboxes.thy ===== *)
theory Mailboxes
  imports Service
begin

text \<open>
  Authorized mailbox inventories (\<open>src/src/service/mailboxes.rs\<close>): the in-memory inventory, the
  canonical inventory built from whatever a provider reports, and its pages. The provider is a
  function from the authorized target to its rows.
\<close>

section \<open>Metadata and inventories\<close>

record MailboxMetadata =
  mb_name :: string
  mb_selectable :: bool
  mb_special_use :: "string list"

definition validate_metadata :: "MailboxMetadata \<Rightarrow> unit result" where
  "validate_metadata r =
     ensure (\<not> ((mb_name r = [] \<and> mb_selectable r) \<or> length (mb_name r) > 1024 \<or> any_control (mb_name r)
        \<or> length (mb_special_use r) > 16 \<or> (\<exists>f \<in> set (mb_special_use r). length f > 64)))
       (error_new ProviderUnavailable)"

text \<open>\<open>MemoryMailboxes::inventory\<close>: a full inventory must be free of contradictory duplicates.\<close>

definition seen_step ::
  "(string \<times> (bool \<times> string set)) list \<Rightarrow> MailboxMetadata \<Rightarrow> (string \<times> (bool \<times> string set)) list result" where
  "seen_step seen r =
     and_then (validate_metadata r) (\<lambda>_.
       if mb_name r = [] then Inr seen
       else let attributes = (mb_selectable r, set (mb_special_use r)) in
         case map_of seen (mailbox_identity (mb_name r)) of
           None \<Rightarrow> Inr ((mailbox_identity (mb_name r), attributes) # seen)
         | Some a \<Rightarrow> if a \<noteq> attributes then Inl (error_new ProviderUnavailable) else Inr seen)"

definition memory_inventory ::
  "(string \<Rightarrow> MailboxMetadata list option) \<Rightarrow> MailboxTarget \<Rightarrow> string list option \<Rightarrow> Limits
   \<Rightarrow> MailboxMetadata list result" where
  "memory_inventory store t names l =
     (case store (acc_key (tgt_config t)) of None \<Rightarrow> Inr []
      | Some rows \<Rightarrow>
          let full = is_none_or names (\<lambda>ns. \<exists>n \<in> set ns. CHR ''*'' \<in> set n \<or> CHR ''%'' \<in> set n) in
          if full \<and> length rows > l_mailbox_inventory l then Inl (error_new ResponseTooLarge)
          else and_then (if full then try_fold seen_step [] rows else Inr []) (\<lambda>_.
            let selected = take (l_mailbox_inventory l + 1)
                  (filter (\<lambda>r. matcher_allows (matcher_new names) (mb_name r)) rows) in
            if length selected > l_mailbox_inventory l then Inl (error_new ResponseTooLarge)
            else map_sum id (\<lambda>_. selected) (try_fold (\<lambda>_ r. validate_metadata r) () selected)))"

definition scope_names :: "MailboxScope \<Rightarrow> string list option" where
  "scope_names s = (case s of All \<Rightarrow> None | Only names \<Rightarrow> Some names)"

text \<open>One provider row: refused, skipped, or entered under its canonical name.\<close>

definition inventory_step ::
  "MailboxScope \<Rightarrow> (string, MailboxMetadata) btree \<Rightarrow> MailboxMetadata \<Rightarrow> (string, MailboxMetadata) btree result" where
  "inventory_step effective invt r =
     and_then (validate_metadata r) (\<lambda>_.
       if effective = All \<and> mb_name r = [] \<and> \<not> mb_selectable r then Inr invt
       else if mb_name r = [] \<or> \<not> matcher_allows (matcher_new (scope_names effective)) (mb_name r)
       then Inl (error_new ProviderUnavailable)
       else let r = r\<lparr>mb_name := mailbox_identity (mb_name r), mb_special_use := dedup (sort (mb_special_use r))\<rparr>
            in case map_of invt (mb_name r) of
                 None \<Rightarrow> Inr (btree_insert (mb_name r) r invt)
               | Some old \<Rightarrow> if old \<noteq> r then Inl (error_new ProviderUnavailable) else Inr invt)"

definition build_inventory ::
  "MailboxScope \<Rightarrow> Limits \<Rightarrow> MailboxMetadata list \<Rightarrow> (string, MailboxMetadata) btree result" where
  "build_inventory effective l rows =
     (if length rows > l_mailbox_inventory l then Inl (error_new ResponseTooLarge)
      else try_fold (inventory_step effective) [] rows)"

section \<open>The operation\<close>

record Reference =
  mref_account :: string
  mref_generation :: u64
  mref_mailbox :: string

record MailboxCursor =
  mcur_account :: string
  mcur_generation :: u64
  mcur_scope :: string
  mcur_inventory :: string
  mcur_position :: nat

record ListMailboxesInput =
  lm_account :: "string option"
  lm_reference :: "string option"
  lm_limit :: "nat option"
  lm_cursor :: "string option"

record Mailbox =
  mailbox_reference :: string
  mailbox_account_id :: string
  mailbox_generation :: u64
  mailbox_display_label :: string
  mailbox_metadata :: MailboxMetadata

record MailboxDiscovery =
  md_account_id :: string
  md_generation :: u64
  md_mailboxes :: "Mailbox list"
  md_complete :: bool
  md_next_cursor :: "string option"

text \<open>The JSON of the tokens, of the fingerprinted values and of the response rows.\<close>

record mailbox_host =
  mh_tokens :: token_host
  mh_reference :: "Reference \<Rightarrow> serialization"
  mh_parse_reference :: "bytes \<Rightarrow> Reference option"
  mh_cursor :: "MailboxCursor \<Rightarrow> serialization"
  mh_parse_cursor :: "bytes \<Rightarrow> MailboxCursor option"
  mh_scope :: "string \<Rightarrow> string \<Rightarrow> nat list \<Rightarrow> Permission list \<Rightarrow> string option \<Rightarrow> serialization"
  mh_inventory :: "(string, MailboxMetadata) btree \<Rightarrow> serialization"
  mh_metadata :: "MailboxMetadata \<Rightarrow> serialization"
  mh_labels :: label_host
  mh_sha256 :: "bytes \<Rightarrow> u8 list"

definition decode_optional ::
  "token_host \<Rightarrow> (bytes \<Rightarrow> 'v option) \<Rightarrow> string \<Rightarrow> string option \<Rightarrow> nat \<Rightarrow> ErrorCode \<Rightarrow> 'v option result" where
  "decode_optional h parse kind token maximum code =
     (case token of None \<Rightarrow> Inr None | Some t \<Rightarrow> map_sum id Some (token_decode h parse kind t maximum code))"

text \<open>Everything that is decided before a provider is asked.\<close>

record mailbox_plan =
  plan_limits :: Limits
  plan_limit :: nat
  plan_target :: MailboxTarget
  plan_reference :: "Reference option"
  plan_scope :: string
  plan_cursor :: "MailboxCursor option"
  plan_effective :: MailboxScope

definition plan_account ::
  "mailbox_host \<Rightarrow> Service \<Rightarrow> RequestContext \<Rightarrow> AccessGrant \<Rightarrow> nat \<Rightarrow> string option \<Rightarrow> Reference option
   \<Rightarrow> AccountConfig \<Rightarrow> mailbox_plan result" where
  "plan_account h sv c g limit cursor_token reference account =
     (let l = grant_limits g;
          acct = fst (svc_identity sv (acc_key account));
          generation = snd (svc_identity sv (acc_key account));
          effective = (case reference of
             Some r \<Rightarrow> Only [mailbox_identity (mref_mailbox r)]
           | None \<Rightarrow> scope_intersection (acc_mailboxes account) (grant_mailboxes g)) in
      and_then (case reference of None \<Rightarrow> Inr ()
         | Some r \<Rightarrow> map_sum id (\<lambda>_. ()) (authorize_mailbox sv c acct (mref_generation r) (mref_mailbox r))) (\<lambda>_.
      and_then (fingerprint (mh_sha256 h) (mh_scope h (svc_revision sv) (auth_grant (authority c))
         (auth_account_indices (authority c)) (auth_permissions (authority c))
         (map_option mref_mailbox reference))) (\<lambda>scope.
      and_then (decode_optional (mh_tokens h) (mh_parse_cursor h) ''mc'' cursor_token
         (l_token_bytes l) StaleCursor) (\<lambda>cursor.
      and_then (ensure (\<not> is_some_and cursor (\<lambda>k. mcur_account k \<noteq> acct \<or> mcur_generation k \<noteq> generation
         \<or> mcur_scope k \<noteq> scope)) (error_new StaleCursor)) (\<lambda>_.
      and_then (ensure (\<not> is_some_and (scope_names effective) (\<lambda>ns. length ns > l_mailbox_inventory l))
         (error_new ResponseTooLarge)) (\<lambda>_.
        Inr \<lparr>plan_limits = l, plan_limit = limit,
          plan_target = \<lparr>tgt_account_id = acct, tgt_generation = generation, tgt_config = account\<rparr>,
          plan_reference = reference, plan_scope = scope, plan_cursor = cursor,
          plan_effective = effective\<rparr>))))))"

definition requested_account :: "Service \<Rightarrow> ListMailboxesInput \<Rightarrow> Reference option \<Rightarrow> AccountConfig \<Rightarrow> bool" where
  "requested_account sv input reference a \<longleftrightarrow>
     is_none_or (lm_account input) (\<lambda>alias. acc_alias a = alias)
     \<and> is_none_or reference (\<lambda>r. fst (svc_identity sv (acc_key a)) = mref_account r)"

definition select_account :: "AccountConfig list \<Rightarrow> AccountConfig result" where
  "select_account accts =
     (case accts of [] \<Rightarrow> Inl (error_new AccountNotAllowed)
      | account # others \<Rightarrow>
          if others \<noteq> [] then Inl (invalid_input
            ''Specify account using an alias returned by account discovery, or resolve one mailbox reference'')
          else Inr account)"

definition mailbox_limit :: "Limits \<Rightarrow> ListMailboxesInput \<Rightarrow> nat result" where
  "mailbox_limit l input =
     (let limit = (case lm_limit input of None \<Rightarrow> l_mailbox_page l | Some n \<Rightarrow> n) in
      if limit = 0 \<or> limit > l_mailbox_page l then Inl (input_limit ''limit'' (l_mailbox_page l)) else Inr limit)"

definition mailboxes_plan :: "mailbox_host \<Rightarrow> Service \<Rightarrow> RequestContext \<Rightarrow> ListMailboxesInput \<Rightarrow> mailbox_plan result" where
  "mailboxes_plan h sv c input =
     and_then (service_grant sv c) (\<lambda>g.
     and_then (ensure (context_permits c ListMailboxes) denied) (\<lambda>_.
     and_then (mailbox_limit (grant_limits g) input) (\<lambda>limit.
     and_then (ensure (\<not> is_some_and (lm_account input) (\<lambda>a. length a > 1024))
        (invalid_input ''account must be an account alias of at most 1024 UTF-8 bytes'')) (\<lambda>_.
     and_then (decode_optional (mh_tokens h) (mh_parse_reference h) ''mb'' (lm_reference input)
        (l_token_bytes (grant_limits g)) StaleReference) (\<lambda>reference.
     and_then (select_account (filter (requested_account sv input reference) (visible_accounts sv c))) (\<lambda>account.
       plan_account h sv c g limit (lm_cursor input) reference account))))))"

definition mailbox_row ::
  "mailbox_host \<Rightarrow> mailbox_plan \<Rightarrow> OutputBudget \<times> Mailbox list \<Rightarrow> MailboxMetadata \<Rightarrow> (OutputBudget \<times> Mailbox list) result" where
  "mailbox_row h p bm m =
     and_then (reserve (fst bm) 256) (\<lambda>b.
     and_then (budget_count b (mh_metadata h m)) (\<lambda>b.
     and_then (budget_count b (json_string (mh_labels h) (mb_name m))) (\<lambda>b.
     and_then (token_encode (mh_tokens h) (mh_reference h) ''mb''
        \<lparr>mref_account = tgt_account_id (plan_target p), mref_generation = tgt_generation (plan_target p),
         mref_mailbox = mb_name m\<rparr> (l_token_bytes (plan_limits p))) (\<lambda>reference.
     and_then (budget_count b (json_string (mh_labels h) reference)) (\<lambda>b.
       Inr (b, snd bm @ [\<lparr>mailbox_reference = reference, mailbox_account_id = tgt_account_id (plan_target p),
         mailbox_generation = tgt_generation (plan_target p), mailbox_display_label = mb_name m,
         mailbox_metadata = m\<rparr>]))))))"

definition plan_position :: "mailbox_plan \<Rightarrow> nat" where
  "plan_position p = (case plan_cursor p of None \<Rightarrow> 0 | Some k \<Rightarrow> mcur_position k)"

definition page_end :: "mailbox_plan \<Rightarrow> nat \<Rightarrow> nat" where
  "page_end p n = min (plan_position p + plan_limit p) n"

definition mailboxes_finish ::
  "mailbox_host \<Rightarrow> RequestContext \<Rightarrow> mailbox_plan \<Rightarrow> MailboxMetadata list \<Rightarrow> MailboxDiscovery result" where
  "mailboxes_finish h c p rows =
     and_then (build_inventory (plan_effective p) (plan_limits p) rows) (\<lambda>invt.
     if plan_reference p \<noteq> None \<and> invt = [] then Inl (error_new StaleReference)
     else and_then (fingerprint (mh_sha256 h) (mh_inventory h invt)) (\<lambda>inventory_hash.
       let position = plan_position p in
       if is_some_and (plan_cursor p) (\<lambda>k. mcur_inventory k \<noteq> inventory_hash \<or> position \<ge> length invt)
       then Inl (error_new StaleCursor)
       else let end_position = page_end p (length invt);
                complete = (end_position = length invt) in
       and_then (if complete then Inr None
                 else map_sum id Some (token_encode (mh_tokens h) (mh_cursor h) ''mc''
                   \<lparr>mcur_account = tgt_account_id (plan_target p), mcur_generation = tgt_generation (plan_target p),
                    mcur_scope = plan_scope p, mcur_inventory = inventory_hash, mcur_position = end_position\<rparr>
                   (l_token_bytes (plan_limits p)))) (\<lambda>next_cursor.
       and_then (reserve (output_budget_new (response_limit c - 512)) 256) (\<lambda>b.
       and_then (budget_count b (json_optional (mh_labels h) next_cursor)) (\<lambda>b.
       and_then (try_fold (mailbox_row h p) (b, []) (take (plan_limit p) (drop position (map snd invt)))) (\<lambda>(b, mailboxes).
         Inr \<lparr>md_account_id = tgt_account_id (plan_target p), md_generation = tgt_generation (plan_target p),
           md_mailboxes = mailboxes, md_complete = complete, md_next_cursor = next_cursor\<rparr>))))))"

text \<open>\<open>discover\<close> is the provider; \<open>ready\<close> the admission of the account and its connection.\<close>

definition list_mailboxes ::
  "mailbox_host \<Rightarrow> (MailboxTarget \<Rightarrow> unit result) \<Rightarrow> (MailboxTarget \<Rightarrow> string list option \<Rightarrow> Limits \<Rightarrow> MailboxMetadata list result)
   \<Rightarrow> RequestContext \<Rightarrow> ListMailboxesInput \<Rightarrow> Service \<Rightarrow> MailboxDiscovery result \<times> Service" where
  "list_mailboxes h ready discover c input sv =
     (case mailboxes_plan h sv c input of Inl e \<Rightarrow> (Inl e, sv)
      | Inr p \<Rightarrow>
          (case ready (plan_target p) of Inl e \<Rightarrow> (Inl e, sv)
           | Inr _ \<Rightarrow>
               let (rows, sv) = (if plan_effective p = Only [] then (Inr [], sv)
                 else observed (tgt_account_id (plan_target p))
                   (discover (plan_target p) (scope_names (plan_effective p)) (plan_limits p)) sv)
               in (and_then rows (mailboxes_finish h c p), sv)))"

section \<open>The canonical inventory\<close>

definition inventory_ok :: "MailboxScope \<Rightarrow> (string, MailboxMetadata) btree \<Rightarrow> bool" where
  "inventory_ok effective invt \<longleftrightarrow> btree_wf invt
     \<and> (\<forall>k m. map_of invt k = Some m \<longrightarrow> mb_name m = k \<and> k \<noteq> [] \<and> mailbox_identity k = k
          \<and> scope_allows effective k \<and> distinct (mb_special_use m))"

lemma mailbox_identity_nonempty: "mailbox_identity k \<noteq> [] \<longleftrightarrow> k \<noteq> []"
  by (auto simp: mailbox_identity_def eq_ignore_ascii_case_def)

lemma inventory_step_ok:
  assumes ok: "inventory_ok effective invt" and step: "inventory_step effective invt r = Inr invt'"
  shows "inventory_ok effective invt'"
proof (cases "invt' = invt")
  case False
  let ?k = "mailbox_identity (mb_name r)"
  let ?r = "r\<lparr>mb_name := ?k, mb_special_use := dedup (sort (mb_special_use r))\<rparr>"
  from step False have new: "invt' = btree_insert ?k ?r invt" "mb_name r \<noteq> []"
    "matcher_allows (matcher_new (scope_names effective)) (mb_name r)"
    by (auto simp: inventory_step_def Let_def split: if_splits option.splits)
  have "scope_allows effective (mb_name r)"
    using new(3) by (auto simp: matcher_allows_iff scope_names_def split: MailboxScope.splits)
  then have "scope_allows effective ?k"
    using scope_allows_cong [of ?k "mb_name r" effective] by simp
  moreover have "?k \<noteq> []"
    using new(2) mailbox_identity_nonempty by blast
  moreover have "distinct (dedup (sort (mb_special_use r)))"
    using sorted_dedup [of "sort (mb_special_use r)"] by simp
  ultimately show ?thesis
    using ok unfolding inventory_ok_def new(1) by (auto simp: map_of_btree_insert)
qed (use ok in simp)

lemma build_inventory_ok:
  assumes "build_inventory effective l rows = Inr invt"
  shows "inventory_ok effective invt"
proof -
  have "try_fold (inventory_step effective) [] rows = Inr invt"
    using assms by (auto simp: build_inventory_def split: if_splits)
  then show ?thesis
    by (rule try_fold_invariant) (auto intro: inventory_step_ok, simp add: inventory_ok_def)
qed

lemma mailbox_row_Inr:
  assumes "mailbox_row h p bm m = Inr bm'"
  shows "\<exists>x. snd bm' = snd bm @ [x] \<and> mailbox_display_label x = mb_name m \<and> mailbox_metadata x = m
    \<and> mailbox_account_id x = tgt_account_id (plan_target p) \<and> mailbox_generation x = tgt_generation (plan_target p)"
  using assms by (auto simp: mailbox_row_def)

lemma mailbox_rows_Inr:
  assumes "try_fold (mailbox_row h p) bm ms = Inr bm'"
  shows "\<exists>xs. snd bm' = snd bm @ xs \<and> map mailbox_display_label xs = map mb_name ms
    \<and> (\<forall>x \<in> set xs. mailbox_account_id x = tgt_account_id (plan_target p)
         \<and> mailbox_generation x = tgt_generation (plan_target p))"
  using assms
proof (induction ms arbitrary: bm)
  case (Cons m ms)
  then obtain bm1 where 1: "mailbox_row h p bm m = Inr bm1" "try_fold (mailbox_row h p) bm1 ms = Inr bm'"
    by auto
  obtain x where x: "snd bm1 = snd bm @ [x]" "mailbox_display_label x = mb_name m"
    "mailbox_account_id x = tgt_account_id (plan_target p)" "mailbox_generation x = tgt_generation (plan_target p)"
    using mailbox_row_Inr [OF 1(1)] by blast
  obtain xs where "snd bm' = snd bm1 @ xs" "map mailbox_display_label xs = map mb_name ms"
    "\<forall>x \<in> set xs. mailbox_account_id x = tgt_account_id (plan_target p) \<and> mailbox_generation x = tgt_generation (plan_target p)"
    using Cons.IH [OF 1(2)] by blast
  with x show ?case
    by (intro exI [of _ "x # xs"]) simp
qed simp

lemma mailboxes_finish_Inr:
  assumes "mailboxes_finish h c p rows = Inr d"
  obtains invt hash where "build_inventory (plan_effective p) (plan_limits p) rows = Inr invt"
    "fingerprint (mh_sha256 h) (mh_inventory h invt) = Inr hash"
    "map mailbox_display_label (md_mailboxes d) = take (plan_limit p) (drop (plan_position p) (map fst invt))"
    "md_complete d \<longleftrightarrow> length invt \<le> plan_position p + plan_limit p"
    "md_account_id d = tgt_account_id (plan_target p)" "md_generation d = tgt_generation (plan_target p)"
    "\<And>t. md_next_cursor d = Some t \<Longrightarrow> \<not> md_complete d \<and>
       token_encode (mh_tokens h) (mh_cursor h) ''mc''
         \<lparr>mcur_account = tgt_account_id (plan_target p), mcur_generation = tgt_generation (plan_target p),
          mcur_scope = plan_scope p, mcur_inventory = hash, mcur_position = plan_position p + plan_limit p\<rparr>
         (l_token_bytes (plan_limits p)) = Inr t"
proof -
  from assms obtain invt hash b ms next_cursor b' where
    invt: "build_inventory (plan_effective p) (plan_limits p) rows = Inr invt"
    and hash: "fingerprint (mh_sha256 h) (mh_inventory h invt) = Inr hash"
    and pos: "\<not> is_some_and (plan_cursor p) (\<lambda>k. mcur_inventory k \<noteq> hash \<or> plan_position p \<ge> length invt)"
    and cur: "(if page_end p (length invt) = length invt then Inr None
         else map_sum id Some (token_encode (mh_tokens h) (mh_cursor h) ''mc''
           \<lparr>mcur_account = tgt_account_id (plan_target p), mcur_generation = tgt_generation (plan_target p),
            mcur_scope = plan_scope p, mcur_inventory = hash, mcur_position = page_end p (length invt)\<rparr>
           (l_token_bytes (plan_limits p)))) = Inr next_cursor"
    and rows: "try_fold (mailbox_row h p) (b, []) (take (plan_limit p) (drop (plan_position p) (map snd invt))) = Inr (b', ms)"
    and d: "d = \<lparr>md_account_id = tgt_account_id (plan_target p), md_generation = tgt_generation (plan_target p),
       md_mailboxes = ms, md_complete = (page_end p (length invt) = length invt), md_next_cursor = next_cursor\<rparr>"
    unfolding mailboxes_finish_def Let_def by (auto split: if_split_asm)
  have ok: "inventory_ok (plan_effective p) invt"
    by (rule build_inventory_ok [OF invt])
  have "map mb_name (map snd invt) = map fst invt"
    using ok btree_wf_distinct [of invt] by (auto simp: inventory_ok_def)
  moreover have "map mailbox_display_label ms = take (plan_limit p) (drop (plan_position p) (map mb_name (map snd invt)))"
    using mailbox_rows_Inr [OF rows] by (auto simp: take_map drop_map)
  ultimately have labels: "map mailbox_display_label (md_mailboxes d) =
      take (plan_limit p) (drop (plan_position p) (map fst invt))"
    by (simp only: d MailboxDiscovery.select_convs)
  have complete: "md_complete d \<longleftrightarrow> length invt \<le> plan_position p + plan_limit p"
    by (auto simp: d page_end_def)
  show thesis
  proof (rule that [OF invt hash labels complete])
    fix t
    assume t: "md_next_cursor d = Some t"
    with cur have "page_end p (length invt) \<noteq> length invt"
      by (auto simp: d split: if_splits)
    moreover from this have "page_end p (length invt) = plan_position p + plan_limit p"
      by (auto simp: page_end_def)
    ultimately show "\<not> md_complete d \<and>
       token_encode (mh_tokens h) (mh_cursor h) ''mc''
         \<lparr>mcur_account = tgt_account_id (plan_target p), mcur_generation = tgt_generation (plan_target p),
          mcur_scope = plan_scope p, mcur_inventory = hash, mcur_position = plan_position p + plan_limit p\<rparr>
         (l_token_bytes (plan_limits p)) = Inr t"
      using cur t by (auto simp: d map_sum_def split: sum.splits)
  qed (simp_all add: d)
qed

section \<open>Only authorized mailboxes are listed\<close>

text \<open>The registry gives every configured account its own identity.\<close>

definition registry_ok :: "Service \<Rightarrow> bool" where
  "registry_ok sv \<longleftrightarrow> inj_on (\<lambda>a. fst (svc_identity sv (acc_key a))) (set (cfg_accounts (svc_config sv)))"

lemma mailboxes_plan_Inr:
  assumes "mailboxes_plan h sv c input = Inr p"
  obtains g account where "service_grant sv c = Inr g" "context_permits c ListMailboxes"
    "plan_limits p = grant_limits g" "0 < plan_limit p" "plan_limit p \<le> l_mailbox_page (grant_limits g)"
    "account \<in> set (visible_accounts sv c)"
    "plan_target p = \<lparr>tgt_account_id = fst (svc_identity sv (acc_key account)),
       tgt_generation = snd (svc_identity sv (acc_key account)), tgt_config = account\<rparr>"
    "\<forall>r. plan_reference p = Some r \<longrightarrow> plan_effective p = Only [mailbox_identity (mref_mailbox r)]
       \<and> (\<exists>t. authorize_mailbox sv c (fst (svc_identity sv (acc_key account))) (mref_generation r) (mref_mailbox r) = Inr t)"
    "plan_reference p = None \<longrightarrow> plan_effective p = scope_intersection (acc_mailboxes account) (grant_mailboxes g)"
proof -
  from assms obtain g limit reference account where g: "service_grant sv c = Inr g" "context_permits c ListMailboxes"
    and limit: "mailbox_limit (grant_limits g) input = Inr limit"
    and sel: "select_account (filter (requested_account sv input reference) (visible_accounts sv c)) = Inr account"
    and plan: "plan_account h sv c g limit (lm_cursor input) reference account = Inr p"
    by (auto simp: mailboxes_plan_def)
  from sel have acct: "filter (requested_account sv input reference) (visible_accounts sv c) = [account]"
    by (auto simp: select_account_def split: list.splits if_splits)
  from limit have lim: "0 < limit" "limit \<le> l_mailbox_page (grant_limits g)"
    by (auto simp: mailbox_limit_def Let_def split: if_splits)
  from plan obtain scope cursor where
    auth: "(case reference of None \<Rightarrow> Inr () | Some r \<Rightarrow> map_sum id (\<lambda>_. ())
        (authorize_mailbox sv c (fst (svc_identity sv (acc_key account))) (mref_generation r) (mref_mailbox r))) = Inr ()"
    and p: "p = \<lparr>plan_limits = grant_limits g, plan_limit = limit,
        plan_target = \<lparr>tgt_account_id = fst (svc_identity sv (acc_key account)),
          tgt_generation = snd (svc_identity sv (acc_key account)), tgt_config = account\<rparr>,
        plan_reference = reference, plan_scope = scope, plan_cursor = cursor,
        plan_effective = (case reference of Some r \<Rightarrow> Only [mailbox_identity (mref_mailbox r)]
           | None \<Rightarrow> scope_intersection (acc_mailboxes account) (grant_mailboxes g))\<rparr>"
    by (auto simp: plan_account_def Let_def)
  have "account \<in> set (filter (requested_account sv input reference) (visible_accounts sv c))"
    unfolding acct by simp
  then have vis: "account \<in> set (visible_accounts sv c)" by simp
  show thesis
  proof (rule that [OF g])
    show "\<forall>r. plan_reference p = Some r \<longrightarrow> plan_effective p = Only [mailbox_identity (mref_mailbox r)]
       \<and> (\<exists>t. authorize_mailbox sv c (fst (svc_identity sv (acc_key account))) (mref_generation r) (mref_mailbox r) = Inr t)"
      using auth by (auto simp: p map_sum_def split: sum.splits)
  qed (use lim vis in \<open>simp_all add: p\<close>)
qed

lemma plan_authorized:
  assumes issued: "service_context sv session name n = Inr c0" "authority c = authority c0"
    and reg: "registry_ok sv" and plan: "mailboxes_plan h sv c input = Inr p"
    and m: "scope_allows (plan_effective p) m"
  shows "mailbox_authorized sv name n (plan_target p) m"
proof -
  from issued obtain g where g: "g \<in> set (cfg_grants (svc_config sv))" "grant_name g = name"
    "service_grant sv c = Inr g" "visible_accounts sv c = filter (account_selected g n) (cfg_accounts (svc_config sv))"
    by (rule issued_accounts)
  from plan obtain g' account where p: "service_grant sv c = Inr g'" "account \<in> set (visible_accounts sv c)"
    "plan_target p = \<lparr>tgt_account_id = fst (svc_identity sv (acc_key account)),
       tgt_generation = snd (svc_identity sv (acc_key account)), tgt_config = account\<rparr>"
    "\<forall>r. plan_reference p = Some r \<longrightarrow> plan_effective p = Only [mailbox_identity (mref_mailbox r)]
       \<and> (\<exists>t. authorize_mailbox sv c (fst (svc_identity sv (acc_key account))) (mref_generation r) (mref_mailbox r) = Inr t)"
    "plan_reference p = None \<longrightarrow> plan_effective p = scope_intersection (acc_mailboxes account) (grant_mailboxes g')"
    by (rule mailboxes_plan_Inr)
  have "g' = g" using p(1) g(3) by simp
  have "scope_allows (scope_intersection (acc_mailboxes account) (grant_mailboxes g)) m"
  proof (cases "plan_reference p")
    case None
    then show ?thesis using p(5) m \<open>g' = g\<close> by simp
  next
    case (Some r)
    from p(4) Some obtain t where eff: "plan_effective p = Only [mailbox_identity (mref_mailbox r)]"
      and t: "authorize_mailbox sv c (fst (svc_identity sv (acc_key account))) (mref_generation r) (mref_mailbox r) = Inr t"
      by blast
    from t g(3) have v: "visible_account_target sv c (fst (svc_identity sv (acc_key account))) = Inr t"
      "scope_allows (scope_intersection (acc_mailboxes (tgt_config t)) (grant_mailboxes g)) (mref_mailbox r)"
      by (auto simp: authorize_mailbox_def authorize_mailbox_scope_def scope_intersection_allows split: if_splits)
    have "tgt_config t = account"
      using visible_target_Inr [OF v(1)] p(2) g(4) reg
      by (auto simp: registry_ok_def inj_on_def) (metis fst_conv)
    moreover have "mailbox_identity m = mailbox_identity (mref_mailbox r)"
      using m eff by simp
    ultimately show ?thesis
      using v(2) scope_allows_cong by blast
  qed
  then show ?thesis
    using g p(2,3) by (auto simp: mailbox_authorized_def)
qed

text \<open>
  listing mailboxes reveals only authorized ones. Whatever the provider reports, every
  listed mailbox is in an account and a mailbox scope the context's grant and narrowing allow,
  the permission was held, the labels are canonical and strictly ordered so none repeats, and no
  page exceeds the page limit of the grant.
\<close>

theorem list_mailboxes_authorized:
  assumes "service_context sv session name n = Inr c0" and "authority c = authority c0"
    and "registry_ok sv" and "list_mailboxes h ready discover c input sv = (Inr d, sv')"
  shows "context_permits c ListMailboxes
    \<and> sorted_wrt (<) (map mailbox_display_label (md_mailboxes d))
    \<and> (\<forall>g. service_grant sv c = Inr g \<longrightarrow> length (md_mailboxes d) \<le> l_mailbox_page (grant_limits g))
    \<and> (\<exists>t. tgt_account_id t = md_account_id d \<and> tgt_generation t = md_generation d
        \<and> (\<forall>m \<in> set (md_mailboxes d). mailbox_authorized sv name n t (mailbox_display_label m)))"
proof -
  from assms(4) obtain p rows where p: "mailboxes_plan h sv c input = Inr p"
    and finish: "mailboxes_finish h c p rows = Inr d"
    by (auto simp: list_mailboxes_def Let_def split: sum.splits prod.splits if_splits)
  from p obtain g account where g: "service_grant sv c = Inr g" "context_permits c ListMailboxes"
    "plan_limits p = grant_limits g" "plan_limit p \<le> l_mailbox_page (grant_limits g)"
    by (rule mailboxes_plan_Inr)
  from finish obtain invt where invt: "build_inventory (plan_effective p) (plan_limits p) rows = Inr invt"
    and labels: "map mailbox_display_label (md_mailboxes d) = take (plan_limit p) (drop (plan_position p) (map fst invt))"
    and target: "md_account_id d = tgt_account_id (plan_target p)" "md_generation d = tgt_generation (plan_target p)"
    by (rule mailboxes_finish_Inr)
  note ok = build_inventory_ok [OF invt]
  have "sorted_wrt (<) (map mailbox_display_label (md_mailboxes d))"
    using ok unfolding labels by (simp add: inventory_ok_def btree_wf_def sorted_wrt_take sorted_wrt_drop)
  moreover have "length (md_mailboxes d) \<le> plan_limit p"
    using arg_cong [OF labels, of length] by simp
  moreover have "mailbox_authorized sv name n (plan_target p) (mailbox_display_label m)"
    if "m \<in> set (md_mailboxes d)" for m
  proof (rule plan_authorized [OF assms(1-3) p])
    have "mailbox_display_label m \<in> set (take (plan_limit p) (drop (plan_position p) (map fst invt)))"
      using that labels [symmetric] by simp
    then have "mailbox_display_label m \<in> fst ` set invt"
      by (auto dest!: in_set_takeD in_set_dropD)
    then show "scope_allows (plan_effective p) (mailbox_display_label m)"
      using ok btree_wf_distinct [of invt] by (auto simp: inventory_ok_def)
  qed
  ultimately show ?thesis
    using g target by (auto intro!: exI [of _ "plan_target p"])
qed

section \<open>Pages tile the inventory\<close>

lemma plan_account_continues:
  assumes "plan_account h sv c g limit tok reference account = Inr p"
    and "mcur_account k = tgt_account_id (plan_target p)" "mcur_generation k = tgt_generation (plan_target p)"
    and "mcur_scope k = plan_scope p"
    and "token_decode (mh_tokens h) (mh_parse_cursor h) ''mc'' t (l_token_bytes (grant_limits g)) StaleCursor = Inr k"
  shows "plan_account h sv c g limit (Some t) reference account = Inr (p\<lparr>plan_cursor := Some k\<rparr>)"
  using assms by (auto simp: plan_account_def Let_def decode_optional_def)

lemma mailboxes_plan_continues:
  assumes "mailboxes_plan h sv c input = Inr p"
    and "mcur_account k = tgt_account_id (plan_target p)" "mcur_generation k = tgt_generation (plan_target p)"
    and "mcur_scope k = plan_scope p"
    and "token_decode (mh_tokens h) (mh_parse_cursor h) ''mc'' t (l_token_bytes (plan_limits p)) StaleCursor = Inr k"
  shows "mailboxes_plan h sv c (input\<lparr>lm_cursor := Some t\<rparr>) = Inr (p\<lparr>plan_cursor := Some k\<rparr>)"
proof -
  have same: "requested_account sv (input\<lparr>lm_cursor := Some t\<rparr>) = requested_account sv input"
    "mailbox_limit l (input\<lparr>lm_cursor := Some t\<rparr>) = mailbox_limit l input" for l
    by (auto simp: requested_account_def mailbox_limit_def fun_eq_iff)
  have limits: "plan_account h sv c g limit tok reference account = Inr p \<Longrightarrow> plan_limits p = grant_limits g"
    for g limit tok reference account
    by (auto simp: plan_account_def Let_def)
  show ?thesis
    using assms unfolding mailboxes_plan_def same
    by (auto simp: limits dest: limits intro!: plan_account_continues)
qed


section \<open>A concrete listing\<close>

definition example_cursor_text :: "MailboxCursor \<Rightarrow> string" where
  "example_cursor_text k = pack [map ord (mcur_account k), [unat (mcur_generation k)], map ord (mcur_scope k),
     map ord (mcur_inventory k), [mcur_position k]]"

definition example_cursor_parse :: "string \<Rightarrow> MailboxCursor option" where
  "example_cursor_parse s =
     (case unpack 0 [] s of
        [a, [g], sc, i, [p]] \<Rightarrow> Some \<lparr>mcur_account = map chr a, mcur_generation = of_nat g,
          mcur_scope = map chr sc, mcur_inventory = map chr i, mcur_position = p\<rparr>
      | _ \<Rightarrow> None)"

definition example_writes :: "string \<Rightarrow> serialization" where
  "example_writes s = \<lparr>ser_writes = [s], ser_finished = True\<rparr>"

definition example_labels :: label_host where
  "example_labels = \<lparr>json_string = example_writes, json_strings = (\<lambda>xs. example_writes (concat xs)),
     json_optional = (\<lambda>x. example_writes (case x of None \<Rightarrow> [] | Some s \<Rightarrow> s))\<rparr>"

definition example_mailbox_host :: mailbox_host where
  "example_mailbox_host =
     \<lparr>mh_tokens = example_token_host,
      mh_reference = (\<lambda>r. example_writes (mref_mailbox r)),
      mh_parse_reference = (\<lambda>_. None),
      mh_cursor = (\<lambda>k. example_writes (example_cursor_text k)), mh_parse_cursor = example_cursor_parse,
      mh_scope = (\<lambda>_ _ _ _ _. example_writes []), mh_inventory = (\<lambda>_. example_writes []),
      mh_metadata = (\<lambda>m. example_writes (mb_name m)), mh_labels = example_labels, mh_sha256 = (\<lambda>_. [])\<rparr>"

lemma example_cursor_round_trip:
  "\<forall>k. mh_parse_cursor example_mailbox_host (emitted (mh_cursor example_mailbox_host k)) = Some k"
  by (auto simp: example_mailbox_host_def example_writes_def emitted_def example_cursor_parse_def
      example_cursor_text_def unpack_pack comp_def)

definition example_list_input :: ListMailboxesInput where
  "example_list_input = \<lparr>lm_account = None, lm_reference = None, lm_limit = Some 1, lm_cursor = None\<rparr>"

definition example_rows :: "MailboxMetadata list" where
  "example_rows = [\<lparr>mb_name = ''inbox'', mb_selectable = True, mb_special_use = []\<rparr>,
     \<lparr>mb_name = ''Drafts'', mb_selectable = True, mb_special_use = []\<rparr>]"

definition example_listing :: "MailboxDiscovery result" where
  "example_listing = fst (list_mailboxes example_mailbox_host (\<lambda>_. Inr ()) (\<lambda>_ _ _. Inr example_rows)
     (example_context example_narrowing) example_list_input example_service)"

lemma example_listing_ok:
  "map_sum (\<lambda>_. ()) (\<lambda>d. (map mailbox_display_label (md_mailboxes d), md_next_cursor d \<noteq> None)) example_listing
     = Inr ([''Drafts''], True)"
  by code_simp

theorem list_mailboxes_authorized_witness:
  "\<exists>d t. example_listing = Inr d \<and> map mailbox_display_label (md_mailboxes d) = [''Drafts'']
     \<and> mailbox_authorized example_service ''drafts'' example_narrowing t ''Drafts''"
proof -
  obtain d where d: "example_listing = Inr d" "map mailbox_display_label (md_mailboxes d) = [''Drafts'']"
  proof (cases example_listing)
    case (Inr d)
    then show thesis
      using example_listing_ok that [of d] unfolding Inr by simp
  next
    case (Inl e)
    then show thesis
      using example_listing_ok unfolding Inl by simp
  qed
  then obtain sv' where l: "list_mailboxes example_mailbox_host (\<lambda>_. Inr ()) (\<lambda>_ _ _. Inr example_rows)
      (example_context example_narrowing) example_list_input example_service = (Inr d, sv')"
    by (auto simp: example_listing_def prod_eq_iff)
  have "registry_ok example_service"
    by (simp add: registry_ok_def example_service_def example_config_def)
  from list_mailboxes_authorized [OF example_contexts(1) refl this l] obtain t where
    "\<forall>m \<in> set (md_mailboxes d). mailbox_authorized example_service ''drafts'' example_narrowing t (mailbox_display_label m)"
    by blast
  moreover obtain m where "m \<in> set (md_mailboxes d)" "mailbox_display_label m = ''Drafts''"
    using d(2) by (cases "md_mailboxes d") auto
  ultimately show ?thesis
    using d by metis
qed


end
