(* ===== verification/SearchService.thy ===== *)
theory SearchService
  imports Mailboxes Search
begin

text \<open>
  Authorized search with an exact continuation (\<open>src/src/service/search.rs\<close>). The provider is a
  function from the authorized target and the planned request to a batch; the traversal of
  \<open>Search\<close> is one such provider.
\<close>

section \<open>The operation\<close>

record SearchMessagesInput =
  sm_mailbox :: string
  sm_criteria :: SearchCriteria
  sm_fuzzy :: bool
  sm_limit :: "nat option"
  sm_cursor :: "string option"

record SearchCursor =
  scur_account :: string
  scur_generation :: u64
  scur_mailbox :: string
  scur_scope :: string
  scur_query :: string
  scur_fuzzy :: bool
  scur_position :: SearchPosition

record MessageEnvelope =
  env_reference :: string
  env_metadata :: MessageMetadata

record MessageSearch =
  ms_account_id :: string
  ms_generation :: u64
  ms_mailbox_reference :: string
  ms_criteria :: SearchCriteria
  ms_fuzzy_applied :: bool
  ms_messages :: "MessageEnvelope list"
  ms_complete :: bool
  ms_next_cursor :: "string option"

record search_host =
  sh_tokens :: token_host
  sh_parse_reference :: "bytes \<Rightarrow> Reference option"
  sh_message :: "MessageReference \<Rightarrow> serialization"
  sh_cursor :: "SearchCursor \<Rightarrow> serialization"
  sh_parse_cursor :: "bytes \<Rightarrow> SearchCursor option"
  sh_scope :: "string \<Rightarrow> string \<Rightarrow> nat list \<Rightarrow> Permission list \<Rightarrow> serialization"
  sh_criteria :: "SearchCriteria \<Rightarrow> serialization"
  sh_metadata :: "MessageMetadata \<Rightarrow> serialization"
  sh_labels :: label_host
  sh_sha256 :: "bytes \<Rightarrow> u8 list"

record search_plan =
  sp_limits :: Limits
  sp_target :: MailboxTarget
  sp_mailbox :: string
  sp_scope :: string
  sp_query :: string
  sp_request :: SearchRequest

definition cursor_stale :: "MailboxTarget \<Rightarrow> string \<Rightarrow> string \<Rightarrow> string \<Rightarrow> bool \<Rightarrow> SearchCursor \<Rightarrow> bool" where
  "cursor_stale t mailbox scope query fuzzy k \<longleftrightarrow>
     scur_account k \<noteq> tgt_account_id t \<or> scur_generation k \<noteq> tgt_generation t \<or> scur_mailbox k \<noteq> mailbox
     \<or> scur_scope k \<noteq> scope \<or> scur_query k \<noteq> query \<or> scur_fuzzy k \<noteq> fuzzy
     \<or> pos_next_uid (scur_position k) = 0 \<or> pos_next_uid (scur_position k) > pos_upper_uid (scur_position k)"

definition search_limit :: "Limits \<Rightarrow> SearchMessagesInput \<Rightarrow> nat result" where
  "search_limit l input =
     (let limit = (case sm_limit input of None \<Rightarrow> l_search_page l | Some n \<Rightarrow> n) in
      if limit = 0 \<or> limit > l_search_page l then Inl (input_limit ''limit'' (l_search_page l)) else Inr limit)"

text \<open>The authorization of the mailbox reference, and then of the cursor against it.\<close>

definition search_authority :: "search_host \<Rightarrow> Service \<Rightarrow> RequestContext \<Rightarrow> SearchMessagesInput \<Rightarrow> search_plan result" where
  "search_authority h sv c input =
     and_then (service_grant sv c) (\<lambda>g.
     and_then (ensure (context_permits c SearchMessages) denied) (\<lambda>_.
     and_then (search_limit (grant_limits g) input) (\<lambda>limit.
     and_then (token_decode (sh_tokens h) (sh_parse_reference h) ''mb'' (sm_mailbox input)
        (l_token_bytes (grant_limits g)) StaleReference) (\<lambda>reference.
     and_then (authorize_mailbox sv c (mref_account reference) (mref_generation reference)
        (mailbox_identity (mref_mailbox reference))) (\<lambda>t.
     and_then (fingerprint (sh_sha256 h) (sh_scope h (svc_revision sv) (auth_grant (authority c))
        (auth_account_indices (authority c)) (auth_permissions (authority c)))) (\<lambda>scope.
     and_then (fingerprint (sh_sha256 h) (sh_criteria h (sm_criteria input))) (\<lambda>query.
       Inr \<lparr>sp_limits = grant_limits g, sp_target = t, sp_mailbox = mailbox_identity (mref_mailbox reference),
         sp_scope = scope, sp_query = query,
         sp_request = \<lparr>req_mailbox = mailbox_identity (mref_mailbox reference), req_criteria = sm_criteria input,
           req_fuzzy = sm_fuzzy input, req_position = None, req_limit = limit,
           req_response_bytes = response_limit c - 2048\<rparr>\<rparr>)))))))"

definition plan_search :: "search_host \<Rightarrow> Service \<Rightarrow> RequestContext \<Rightarrow> SearchMessagesInput \<Rightarrow> search_plan result" where
  "plan_search h sv c input =
     and_then (search_authority h sv c input) (\<lambda>p.
     and_then (decode_optional (sh_tokens h) (sh_parse_cursor h) ''sc'' (sm_cursor input)
        (l_token_bytes (sp_limits p)) StaleCursor) (\<lambda>cursor.
     and_then (ensure (\<not> is_some_and cursor
        (cursor_stale (sp_target p) (sp_mailbox p) (sp_scope p) (sp_query p) (sm_fuzzy input)))
        (error_new StaleCursor)) (\<lambda>_.
       Inr (p\<lparr>sp_request := (sp_request p)\<lparr>req_position := map_option scur_position cursor\<rparr>\<rparr>))))"

definition message_row ::
  "search_host \<Rightarrow> search_plan \<Rightarrow> SearchBatch \<Rightarrow> OutputBudget \<times> MessageEnvelope list \<Rightarrow> LocatedMessage
   \<Rightarrow> (OutputBudget \<times> MessageEnvelope list) result" where
  "message_row h p batch bm m =
     and_then (budget_count (fst bm) (sh_metadata h (row_metadata m))) (\<lambda>b.
     and_then (token_encode (sh_tokens h) (sh_message h) ''ms''
        \<lparr>ref_account = tgt_account_id (sp_target p), ref_generation = tgt_generation (sp_target p),
         ref_mailbox = sp_mailbox p, ref_uid_validity = pos_uid_validity (batch_position batch),
         ref_uid = row_uid m\<rparr> (l_token_bytes (sp_limits p))) (\<lambda>reference.
     and_then (budget_count b (json_string (sh_labels h) reference)) (\<lambda>b.
       Inr (b, snd bm @ [\<lparr>env_reference = reference, env_metadata = row_metadata m\<rparr>]))))"

definition cursor_of :: "search_plan \<Rightarrow> SearchPosition \<Rightarrow> SearchCursor" where
  "cursor_of p position =
     \<lparr>scur_account = tgt_account_id (sp_target p), scur_generation = tgt_generation (sp_target p),
      scur_mailbox = sp_mailbox p, scur_scope = sp_scope p, scur_query = sp_query p,
      scur_fuzzy = req_fuzzy (sp_request p), scur_position = position\<rparr>"

definition search_finish ::
  "search_host \<Rightarrow> RequestContext \<Rightarrow> SearchMessagesInput \<Rightarrow> search_plan \<Rightarrow> SearchBatch \<Rightarrow> MessageSearch result" where
  "search_finish h c input p batch =
     (let complete = (pos_next_uid (batch_position batch) = 0) in
      and_then (if complete then Inr None
                else map_sum id Some (token_encode (sh_tokens h) (sh_cursor h) ''sc''
                  (cursor_of p (batch_position batch)) (l_token_bytes (sp_limits p)))) (\<lambda>next_cursor.
      and_then (budget_count (output_budget_new (response_limit c - 512)) (sh_criteria h (sm_criteria input))) (\<lambda>b.
      and_then (budget_count b (json_optional (sh_labels h) next_cursor)) (\<lambda>b.
      and_then (budget_count b (json_string (sh_labels h) (sm_mailbox input))) (\<lambda>b.
      and_then (try_fold (message_row h p batch) (b, []) (batch_messages batch)) (\<lambda>(b, messages).
        Inr \<lparr>ms_account_id = tgt_account_id (sp_target p), ms_generation = tgt_generation (sp_target p),
          ms_mailbox_reference = sm_mailbox input, ms_criteria = sm_criteria input,
          ms_fuzzy_applied = pos_fuzzy (batch_position batch), ms_messages = messages,
          ms_complete = complete, ms_next_cursor = next_cursor\<rparr>))))))"

definition search_messages ::
  "search_host \<Rightarrow> (MailboxTarget \<Rightarrow> unit result) \<Rightarrow> (MailboxTarget \<Rightarrow> SearchRequest \<Rightarrow> Limits \<Rightarrow> SearchBatch result)
   \<Rightarrow> RequestContext \<Rightarrow> SearchMessagesInput \<Rightarrow> Service \<Rightarrow> MessageSearch result \<times> Service" where
  "search_messages h ready backend c input sv =
     (case plan_search h sv c input of Inl e \<Rightarrow> (Inl e, sv)
      | Inr p \<Rightarrow>
          (case ready (sp_target p) of Inl e \<Rightarrow> (Inl e, sv)
           | Inr _ \<Rightarrow>
               let (batch, sv) = observed (tgt_account_id (sp_target p))
                     (backend (sp_target p) (sp_request p) (sp_limits p)) sv
               in (and_then batch (search_finish h c input p), sv)))"

section \<open>Only authorized messages, and an exact continuation\<close>

lemma message_rows_Inr:
  assumes "try_fold (message_row h p batch) bm ms = Inr bm'"
  shows "\<exists>xs. snd bm' = snd bm @ xs \<and> map env_metadata xs = map row_metadata ms
    \<and> list_all2 (\<lambda>x m. token_encode (sh_tokens h) (sh_message h) ''ms''
        \<lparr>ref_account = tgt_account_id (sp_target p), ref_generation = tgt_generation (sp_target p),
         ref_mailbox = sp_mailbox p, ref_uid_validity = pos_uid_validity (batch_position batch),
         ref_uid = row_uid m\<rparr> (l_token_bytes (sp_limits p)) = Inr (env_reference x)) xs ms"
  using assms
proof (induction ms arbitrary: bm)
  case (Cons m ms)
  then obtain bm1 where 1: "message_row h p batch bm m = Inr bm1" "try_fold (message_row h p batch) bm1 ms = Inr bm'"
    by auto
  from 1(1) obtain r where r: "snd bm1 = snd bm @ [\<lparr>env_reference = r, env_metadata = row_metadata m\<rparr>]"
    "token_encode (sh_tokens h) (sh_message h) ''ms''
        \<lparr>ref_account = tgt_account_id (sp_target p), ref_generation = tgt_generation (sp_target p),
         ref_mailbox = sp_mailbox p, ref_uid_validity = pos_uid_validity (batch_position batch),
         ref_uid = row_uid m\<rparr> (l_token_bytes (sp_limits p)) = Inr r"
    by (auto simp: message_row_def)
  with Cons.IH [OF 1(2)] show ?case by auto
qed simp

lemma search_authority_Inr:
  assumes "search_authority h sv c input = Inr p"
  shows "context_permits c SearchMessages"
    "\<exists>acct generation. authorize_mailbox sv c acct generation (sp_mailbox p) = Inr (sp_target p)"
    "0 < req_limit (sp_request p)" "req_limit (sp_request p) \<le> l_search_page (sp_limits p)"
    "req_mailbox (sp_request p) = sp_mailbox p" "req_criteria (sp_request p) = sm_criteria input"
    "req_fuzzy (sp_request p) = sm_fuzzy input"
  using assms
  by (auto simp: search_authority_def search_limit_def Let_def split: if_splits) blast

lemma plan_search_Inr:
  assumes "plan_search h sv c input = Inr p"
  obtains q position where "search_authority h sv c input = Inr q"
    "p = q\<lparr>sp_request := (sp_request q)\<lparr>req_position := position\<rparr>\<rparr>"
  using assms by (auto simp: plan_search_def)


lemma token_decode_unique:
  assumes "token_decode h parse kind t m code = Inr v" and "token_decode h parse kind t m' code' = Inr v'"
  shows "v = v'"
  using assms by (auto simp: token_decode_def Let_def ok_or_def split: if_splits option.splits)

lemma search_authority_cursor [simp]:
  "search_authority h sv c (input\<lparr>sm_cursor := x\<rparr>) = search_authority h sv c input"
  by (simp add: search_authority_def search_limit_def)

lemma plan_search_cursor:
  assumes "plan_search h sv c (input\<lparr>sm_cursor := Some token\<rparr>) = Inr p"
  shows "\<exists>k maximum. token_decode (sh_tokens h) (sh_parse_cursor h) ''sc'' token maximum StaleCursor = Inr k
    \<and> \<not> cursor_stale (sp_target p) (sp_mailbox p) (sp_scope p) (sp_query p) (sm_fuzzy input) k"
proof -
  from assms obtain q cursor where d: "decode_optional (sh_tokens h) (sh_parse_cursor h) ''sc'' (Some token)
      (l_token_bytes (sp_limits q)) StaleCursor = Inr cursor"
    and k: "\<not> is_some_and cursor (cursor_stale (sp_target q) (sp_mailbox q) (sp_scope q) (sp_query q) (sm_fuzzy input))"
    and p: "p = q\<lparr>sp_request := (sp_request q)\<lparr>req_position := map_option scur_position cursor\<rparr>\<rparr>"
    by (auto simp: plan_search_def)
  from d obtain k where "token_decode (sh_tokens h) (sh_parse_cursor h) ''sc'' token (l_token_bytes (sp_limits q)) StaleCursor = Inr k"
    "cursor = Some k"
    by (cases "token_decode (sh_tokens h) (sh_parse_cursor h) ''sc'' token (l_token_bytes (sp_limits q)) StaleCursor")
      (auto simp: decode_optional_def)
  with k show ?thesis by (auto simp: p)
qed

lemma plan_search_continues:
  assumes "plan_search h sv c input = Inr p"
    and "token_decode (sh_tokens h) (sh_parse_cursor h) ''sc'' token (l_token_bytes (sp_limits p)) StaleCursor = Inr k"
    and "\<not> cursor_stale (sp_target p) (sp_mailbox p) (sp_scope p) (sp_query p) (sm_fuzzy input) k"
  shows "plan_search h sv c (input\<lparr>sm_cursor := Some token\<rparr>) =
      Inr (p\<lparr>sp_request := (sp_request p)\<lparr>req_position := Some (scur_position k)\<rparr>\<rparr>)"
proof -
  from assms(1) obtain q position where "search_authority h sv c input = Inr q"
    and "p = q\<lparr>sp_request := (sp_request q)\<lparr>req_position := position\<rparr>\<rparr>"
    by (rule plan_search_Inr)
  with assms(2,3) show ?thesis
    by (simp add: plan_search_def decode_optional_def ensure_def)
qed


section \<open>A concrete search\<close>

definition example_search_cursor_text :: "SearchCursor \<Rightarrow> string" where
  "example_search_cursor_text k = pack [map ord (scur_account k), [unat (scur_generation k)],
     map ord (scur_mailbox k), map ord (scur_scope k), map ord (scur_query k), [if scur_fuzzy k then 1 else 0],
     [unat (pos_uid_validity (scur_position k)), unat (pos_upper_uid (scur_position k)),
      unat (pos_next_uid (scur_position k)), if pos_fuzzy (scur_position k) then 1 else 0]]"

definition example_search_cursor_parse :: "string \<Rightarrow> SearchCursor option" where
  "example_search_cursor_parse s =
     (case unpack 0 [] s of
        [a, [g], m, sc, q, [f], [v, u, n, pf]] \<Rightarrow>
          Some \<lparr>scur_account = map chr a, scur_generation = of_nat g, scur_mailbox = map chr m,
            scur_scope = map chr sc, scur_query = map chr q, scur_fuzzy = (f = 1),
            scur_position = \<lparr>pos_uid_validity = of_nat v, pos_upper_uid = of_nat u, pos_next_uid = of_nat n,
              pos_fuzzy = (pf = 1)\<rparr>\<rparr>
      | _ \<Rightarrow> None)"

definition example_search_host :: search_host where
  "example_search_host =
     \<lparr>sh_tokens = example_token_host,
      sh_parse_reference = (\<lambda>_. Some \<lparr>mref_account = ''work'', mref_generation = 1, mref_mailbox = ''inbox''\<rparr>),
      sh_message = (\<lambda>r. example_writes (ref_mailbox r)),
      sh_cursor = (\<lambda>k. example_writes (example_search_cursor_text k)), sh_parse_cursor = example_search_cursor_parse,
      sh_scope = (\<lambda>_ _ _ _. example_writes []), sh_criteria = (\<lambda>_. example_writes []),
      sh_metadata = (\<lambda>_. example_writes []), sh_labels = example_labels, sh_sha256 = (\<lambda>_. [])\<rparr>"

lemma example_search_cursor_round_trip:
  "\<forall>k. sh_parse_cursor example_search_host (emitted (sh_cursor example_search_host k)) = Some k"
  by (auto simp: example_search_host_def example_writes_def emitted_def example_search_cursor_parse_def
      example_search_cursor_text_def unpack_pack comp_def)

definition example_search_input :: SearchMessagesInput where
  "example_search_input =
     \<lparr>sm_mailbox = (case token_encode example_token_host example_writes ''mb'' ''x'' 2048 of Inr t \<Rightarrow> t | Inl _ \<Rightarrow> []),
      sm_criteria = [], sm_fuzzy = False, sm_limit = Some 2, sm_cursor = None\<rparr>"

definition example_batch :: SearchBatch where
  "example_batch = \<lparr>batch_position = \<lparr>pos_uid_validity = 7, pos_upper_uid = 9, pos_next_uid = 4, pos_fuzzy = False\<rparr>,
     batch_messages = [\<lparr>row_uid = 9, row_metadata = example_metadata\<rparr>, \<lparr>row_uid = 5, row_metadata = example_metadata\<rparr>]\<rparr>"

definition example_search :: "MessageSearch result" where
  "example_search = fst (search_messages example_search_host (\<lambda>_. Inr ()) (\<lambda>_ _ _. Inr example_batch)
     (example_context example_narrowing) example_search_input example_service)"

lemma example_search_ok: "is_ok example_search"
  by code_simp



end
