(* ===== verification/MessageService.thy ===== *)
theory MessageService
  imports Body SearchService
begin

text \<open>
  Reading the text of a message through the service (\<open>src/src/service/message.rs\<close>, \<open>src/src/domain/message.rs\<close>):
  authorization, the binding of a continuation, and the in-memory bodies. The backend is a function from the authorized
  target and the request to a page.
\<close>

section \<open>Values\<close>

definition DEFAULT_TEXT_PAGE_BYTES :: nat where
  "DEFAULT_TEXT_PAGE_BYTES = 8192"

datatype EmptyBodyReason = NoSupportedBody

record BodyText =
  bt_text :: string
  bt_representation_version :: string
  bt_selected_part :: "string option"
  bt_source_media_type :: "string option"
  bt_converted :: bool
  bt_replacements :: bool
  bt_truncated :: bool
  bt_empty_reason :: "EmptyBodyReason option"
  bt_continuation_available :: bool
  bt_next_cursor :: "string option"

record GetMessageInput =
  gm_message :: string
  gm_max_bytes :: "nat option"
  gm_cursor :: "string option"

record MessageBody =
  mb_account_id :: string
  mb_generation :: u64
  mb_message_reference :: string
  mb_body :: BodyText

record BodyRead =
  bdr_body :: BodyText
  bdr_continuation :: "BodyCursor option"

record TextCursor =
  tcur_resource :: string
  tcur_limits :: string
  tcur_position :: BodyCursor

text \<open>The page of the IMAP client as the service answers it (\<open>src/src/service/imap.rs\<close>).\<close>

definition body_read_of_page :: "BodyPage \<Rightarrow> BodyRead" where
  "body_read_of_page p =
     \<lparr>bdr_body = \<lparr>bt_text = bp_text p, bt_representation_version = BODY_REPRESENTATION_VERSION,
        bt_selected_part = bp_selected_part p, bt_source_media_type = bp_source_media_type p, bt_converted = bp_converted p,
        bt_replacements = bp_replacements p, bt_truncated = bp_truncated p,
        bt_empty_reason = (if bp_selected_part p = None then Some NoSupportedBody else None),
        bt_continuation_available = False, bt_next_cursor = None\<rparr>,
      bdr_continuation = bp_continuation p\<rparr>"

section \<open>In-memory bodies\<close>

record MemoryBody =
  meb_body :: BodyText
  meb_fingerprint :: sha256

record MemoryMailbox =
  mem_validity :: u32
  mem_bodies :: "u32 \<rightharpoonup> MemoryBody"

type_synonym MemoryBodies = "string \<rightharpoonup> (string \<rightharpoonup> MemoryMailbox)"

text \<open>\<open>None\<close> is the panic of a body that cannot be serialized. Bodies of an earlier UID validity are dropped.\<close>

definition memory_bodies_set ::
  "(bytes \<Rightarrow> sha256) \<Rightarrow> (BodyText \<Rightarrow> serialization) \<Rightarrow> string \<Rightarrow> string \<Rightarrow> u32 \<Rightarrow> u32 \<Rightarrow> BodyText
   \<Rightarrow> MemoryBodies \<Rightarrow> MemoryBodies option" where
  "memory_bodies_set sha ser account name validity uid body st =
     (case json_sha256 sha (ser body) usize_max of
        Inl _ \<Rightarrow> None
      | Inr fp \<Rightarrow>
          let mailboxes = (case st account of None \<Rightarrow> Map.empty | Some ms \<Rightarrow> ms);
              mailbox = (case mailboxes (mailbox_identity name) of
                None \<Rightarrow> \<lparr>mem_validity = validity, mem_bodies = Map.empty\<rparr> | Some m \<Rightarrow> m);
              mailbox = (if mem_validity mailbox \<noteq> validity then \<lparr>mem_validity = validity, mem_bodies = Map.empty\<rparr> else mailbox);
              mailbox = mailbox\<lparr>mem_bodies := (mem_bodies mailbox)(uid \<mapsto> \<lparr>meb_body = body, meb_fingerprint = fp\<rparr>)\<rparr>
          in Some (st(account \<mapsto> mailboxes(mailbox_identity name \<mapsto> mailbox))))"

definition memory_bodies_find :: "MemoryBodies \<Rightarrow> MailboxTarget \<Rightarrow> string \<Rightarrow> BodyRequest \<Rightarrow> MemoryBody result" where
  "memory_bodies_find st t name r =
     and_then (ok_or (error_new StaleReference)
        (Option.bind (st (acc_key (tgt_config t))) (\<lambda>ms. ms (mailbox_identity name)))) (\<lambda>mailbox.
     if mem_validity mailbox \<noteq> br_uid_validity r then Inl (error_new StaleReference)
     else ok_or (error_new MessageNotFound) (mem_bodies mailbox (br_uid r)))"

definition memory_bodies_read :: "MemoryBodies \<Rightarrow> MailboxTarget \<Rightarrow> string \<Rightarrow> BodyRequest \<Rightarrow> Limits \<Rightarrow> BodyRead result" where
  "memory_bodies_read st t name r l =
     and_then (memory_bodies_find st t name r) (\<lambda>m.
     and_then (map_err (\<lambda>_. error_new StaleCursor)
        (body_page (br_continuation r) (bt_text (meb_body m)) (meb_fingerprint m) (l_text_page_bytes l))) (\<lambda>(range, position).
       Inr \<lparr>bdr_body = (meb_body m)
              \<lparr>bt_truncated := (bt_truncated (meb_body m) \<or> snd range < length (bt_text (meb_body m))),
               bt_text := text_range (bt_text (meb_body m)) range,
               bt_continuation_available := False, bt_next_cursor := None\<rparr>,
            bdr_continuation = position\<rparr>))"

section \<open>The operation\<close>

record message_host =
  gh_tokens :: token_host
  gh_parse_message :: "bytes \<Rightarrow> MessageReference option"
  gh_message :: "MessageReference \<Rightarrow> serialization"
  gh_cursor :: "TextCursor \<Rightarrow> serialization"
  gh_parse_cursor :: "bytes \<Rightarrow> TextCursor option"
  gh_limits :: "Limits \<Rightarrow> serialization"
  gh_sha256 :: "bytes \<Rightarrow> sha256"

record message_plan =
  gp_limits :: Limits
  gp_target :: MailboxTarget
  gp_mailbox :: string
  gp_resource :: string
  gp_limits_print :: string
  gp_request :: BodyRequest

definition page_limits :: "Limits \<Rightarrow> GetMessageInput \<Rightarrow> Limits result" where
  "page_limits l input =
     (let maximum = (case gm_max_bytes input of None \<Rightarrow> min (l_text_page_bytes l) DEFAULT_TEXT_PAGE_BYTES | Some n \<Rightarrow> n) in
      if \<not> (4 \<le> maximum \<and> maximum \<le> l_text_page_bytes l)
      then Inl ((error_new InvalidRequest)\<lparr>err_message := ''max_bytes must be between 4 and '' @ show_nat (l_text_page_bytes l)
        @ '' UTF-8 bytes; inspect effective limits with capabilities''\<rparr>)
      else Inr (l\<lparr>l_text_page_bytes := maximum\<rparr>))"

definition message_stale :: "GetMessageInput \<Rightarrow> ErrorCode" where
  "message_stale input = (if gm_cursor input \<noteq> None then StaleCursor else StaleReference)"

definition message_authority :: "message_host \<Rightarrow> Service \<Rightarrow> RequestContext \<Rightarrow> GetMessageInput \<Rightarrow> message_plan result" where
  "message_authority h sv c input =
     and_then (service_grant sv c) (\<lambda>g.
     and_then (ensure (context_permits c ReadMessage) denied) (\<lambda>_.
     and_then (page_limits (grant_limits g) input) (\<lambda>l.
     and_then (token_decode (gh_tokens h) (gh_parse_message h) ''ms'' (gm_message input) (l_token_bytes l) (message_stale input)) (\<lambda>r.
     and_then (authorize_message sv c r (message_stale input)) (\<lambda>t.
     and_then (fingerprint (gh_sha256 h) (gh_message h r)) (\<lambda>resource.
     and_then (fingerprint (gh_sha256 h) (gh_limits h l)) (\<lambda>limits_print.
       Inr \<lparr>gp_limits = l, gp_target = t, gp_mailbox = mailbox_identity (ref_mailbox r), gp_resource = resource,
         gp_limits_print = limits_print,
         gp_request = \<lparr>br_uid = ref_uid r, br_uid_validity = ref_uid_validity r, br_continuation = None\<rparr>\<rparr>)))))))"

definition plan_message :: "message_host \<Rightarrow> Service \<Rightarrow> RequestContext \<Rightarrow> GetMessageInput \<Rightarrow> message_plan result" where
  "plan_message h sv c input =
     and_then (message_authority h sv c input) (\<lambda>p.
     and_then (decode_optional (gh_tokens h) (gh_parse_cursor h) ''bt'' (gm_cursor input) (l_token_bytes (gp_limits p)) StaleCursor) (\<lambda>k.
     and_then (ensure (\<not> is_some_and k (\<lambda>k. tcur_resource k \<noteq> gp_resource p \<or> tcur_limits k \<noteq> gp_limits_print p))
        (error_new StaleCursor)) (\<lambda>_.
       Inr (p\<lparr>gp_request := (gp_request p)\<lparr>br_continuation := map_option tcur_position k\<rparr>\<rparr>))))"

text \<open>A message that is gone makes the cursor stale, not the reference.\<close>

definition message_error :: "GetMessageInput \<Rightarrow> Error \<Rightarrow> Error" where
  "message_error input e =
     (if gm_cursor input \<noteq> None \<and> err_code e \<in> {StaleReference, MessageNotFound} then error_new StaleCursor else e)"

definition message_finish :: "message_host \<Rightarrow> GetMessageInput \<Rightarrow> message_plan \<Rightarrow> BodyRead \<Rightarrow> MessageBody result" where
  "message_finish h input p pg =
     and_then (case bdr_continuation pg of
         None \<Rightarrow> Inr None
       | Some position \<Rightarrow> map_sum id Some (token_encode (gh_tokens h) (gh_cursor h) ''bt''
           \<lparr>tcur_resource = gp_resource p, tcur_limits = gp_limits_print p, tcur_position = position\<rparr>
           (l_token_bytes (gp_limits p)))) (\<lambda>next_cursor.
       Inr \<lparr>mb_account_id = tgt_account_id (gp_target p), mb_generation = tgt_generation (gp_target p),
         mb_message_reference = gm_message input,
         mb_body = (bdr_body pg)\<lparr>bt_next_cursor := next_cursor, bt_continuation_available := (next_cursor \<noteq> None)\<rparr>\<rparr>)"

definition get_message ::
  "message_host \<Rightarrow> (MailboxTarget \<Rightarrow> unit result) \<Rightarrow> (MailboxTarget \<Rightarrow> string \<Rightarrow> BodyRequest \<Rightarrow> Limits \<Rightarrow> BodyRead result)
   \<Rightarrow> RequestContext \<Rightarrow> GetMessageInput \<Rightarrow> Service \<Rightarrow> MessageBody result \<times> Service" where
  "get_message h ready backend c input sv =
     (case plan_message h sv c input of Inl e \<Rightarrow> (Inl e, sv)
      | Inr p \<Rightarrow>
          (case ready (gp_target p) of Inl e \<Rightarrow> (Inl e, sv)
           | Inr _ \<Rightarrow>
               let (pg, sv) = observed (tgt_account_id (gp_target p))
                     (backend (gp_target p) (gp_mailbox p) (gp_request p) (gp_limits p)) sv
               in (and_then (map_err (message_error input) pg) (message_finish h input p), sv)))"

section \<open>Only authorized messages\<close>

lemma page_limits_Inr:
  "page_limits l input = Inr l' \<Longrightarrow> 4 \<le> l_text_page_bytes l' \<and> l_text_page_bytes l' \<le> l_text_page_bytes l"
  by (auto simp: page_limits_def Let_def split: if_splits)

lemma message_authority_Inr:
  assumes "message_authority h sv c input = Inr p"
  obtains g r where "service_grant sv c = Inr g" "context_permits c ReadMessage"
    "page_limits (grant_limits g) input = Inr (gp_limits p)"
    "token_decode (gh_tokens h) (gh_parse_message h) ''ms'' (gm_message input) (l_token_bytes (gp_limits p)) (message_stale input) = Inr r"
    "authorize_message sv c r (message_stale input) = Inr (gp_target p)"
    "gp_mailbox p = mailbox_identity (ref_mailbox r)" "br_uid (gp_request p) = ref_uid r"
    "br_uid_validity (gp_request p) = ref_uid_validity r" "br_continuation (gp_request p) = None"
    "fingerprint (gh_sha256 h) (gh_message h r) = Inr (gp_resource p)"
  using assms by (auto simp: message_authority_def)

lemma plan_message_Inr:
  assumes "plan_message h sv c input = Inr p"
  obtains q position where "message_authority h sv c input = Inr q"
    "p = q\<lparr>gp_request := (gp_request q)\<lparr>br_continuation := position\<rparr>\<rparr>" "gm_cursor input = None \<longrightarrow> position = None"
  using assms by (auto simp: plan_message_def decode_optional_def split: option.splits)

text \<open>
  C28: A message is read only within the authority of its caller. The permission is held, the reference is one this installation
  signed, its mailbox and account passed authorization for the context's grant and narrowing, the backend is asked for
  exactly its UID and UID validity with at least 4 and at most the granted number of bytes, and the answer names that account
  and generation.
\<close>

theorem message_read_authorized:
  assumes "service_context sv session name n = Inr c0" and "authority c = authority c0"
    and "get_message h ready backend c input sv = (Inr b, sv')"
  shows "context_permits c ReadMessage \<and>
    (\<exists>g l r t request pg. service_grant sv c = Inr g \<and> 4 \<le> l_text_page_bytes l \<and> l_text_page_bytes l \<le> l_text_page_bytes (grant_limits g)
       \<and> token_decode (gh_tokens h) (gh_parse_message h) ''ms'' (gm_message input) (l_token_bytes l) (message_stale input) = Inr r
       \<and> mailbox_authorized sv name n t (ref_mailbox r) \<and> tgt_account_id t = ref_account r \<and> tgt_generation t = ref_generation r
       \<and> backend t (mailbox_identity (ref_mailbox r)) request l = Inr pg
       \<and> br_uid request = ref_uid r \<and> br_uid_validity request = ref_uid_validity r \<and> ref_uid r \<noteq> 0 \<and> ref_uid_validity r \<noteq> 0
       \<and> bt_text (mb_body b) = bt_text (bdr_body pg) \<and> mb_account_id b = ref_account r \<and> mb_generation b = ref_generation r)"
proof -
  obtain p pg where p: "plan_message h sv c input = Inr p"
    and pg: "backend (gp_target p) (gp_mailbox p) (gp_request p) (gp_limits p) = Inr pg"
    and fin: "message_finish h input p pg = Inr b"
    using assms(3) by (auto simp: get_message_def Let_def observed_def split: sum.splits prod.splits)
  obtain q position where q: "message_authority h sv c input = Inr q"
    and pq: "p = q\<lparr>gp_request := (gp_request q)\<lparr>br_continuation := position\<rparr>\<rparr>" using p by (rule plan_message_Inr)
  obtain g r where gr: "service_grant sv c = Inr g" "context_permits c ReadMessage"
    "page_limits (grant_limits g) input = Inr (gp_limits q)"
    "token_decode (gh_tokens h) (gh_parse_message h) ''ms'' (gm_message input) (l_token_bytes (gp_limits q)) (message_stale input) = Inr r"
    "authorize_message sv c r (message_stale input) = Inr (gp_target q)"
    "gp_mailbox q = mailbox_identity (ref_mailbox r)" "br_uid (gp_request q) = ref_uid r"
    "br_uid_validity (gp_request q) = ref_uid_validity r"
    using q by (rule message_authority_Inr)
  have bounds: "4 \<le> l_text_page_bytes (gp_limits q)" "l_text_page_bytes (gp_limits q) \<le> l_text_page_bytes (grant_limits g)"
    using page_limits_Inr [OF gr(3)] by simp_all
  have m: "authorize_mailbox sv c (ref_account r) (ref_generation r) (ref_mailbox r) = Inr (gp_target q)"
    and nonzero: "ref_uid r \<noteq> 0" "ref_uid_validity r \<noteq> 0"
    using gr(5) by (auto simp: authorize_message_def split: if_splits)
  note auth = authorize_mailbox_authorized [OF assms(1,2) m]
  have out: "bt_text (mb_body b) = bt_text (bdr_body pg)" "mb_account_id b = tgt_account_id (gp_target q)"
    "mb_generation b = tgt_generation (gp_target q)"
    using fin by (auto simp: message_finish_def pq)
  show ?thesis
    using gr(1,2,4,6,7,8) bounds auth nonzero out pg
    by (intro conjI exI [of _ g] exI [of _ "gp_limits q"] exI [of _ r] exI [of _ "gp_target q"] exI [of _ "gp_request p"] exI [of _ pg])
      (simp_all add: pq)
qed


section \<open>An exact continuation\<close>

lemma message_authority_cursor:
  assumes "message_authority h sv c input = Inr p"
  shows "message_authority h sv c (input\<lparr>gm_cursor := x\<rparr>) = Inr p"
proof -
  have decode: "token_decode k parse kind t m code' = Inr v" if "token_decode k parse kind t m code = Inr v"
    for k and parse :: "bytes \<Rightarrow> MessageReference option" and kind t m code code' v
    using that by (auto simp: token_decode_def Let_def ok_or_def split: if_splits option.splits)
  have authorize: "authorize_message sv c r code' = Inr t" if "authorize_message sv c r code = Inr t" for r code code' t
    using that by (auto simp: authorize_message_def split: if_splits)
  have limits: "page_limits l (input\<lparr>gm_cursor := x\<rparr>) = page_limits l input" for l by (simp add: page_limits_def)
  obtain g l r t resource limits_print where steps: "service_grant sv c = Inr g" "context_permits c ReadMessage"
    "page_limits (grant_limits g) input = Inr l"
    "token_decode (gh_tokens h) (gh_parse_message h) ''ms'' (gm_message input) (l_token_bytes l) (message_stale input) = Inr r"
    "authorize_message sv c r (message_stale input) = Inr t"
    "fingerprint (gh_sha256 h) (gh_message h r) = Inr resource" "fingerprint (gh_sha256 h) (gh_limits h l) = Inr limits_print"
    and p: "p = \<lparr>gp_limits = l, gp_target = t, gp_mailbox = mailbox_identity (ref_mailbox r), gp_resource = resource,
         gp_limits_print = limits_print,
         gp_request = \<lparr>br_uid = ref_uid r, br_uid_validity = ref_uid_validity r, br_continuation = None\<rparr>\<rparr>"
    using assms by (auto simp: message_authority_def)
  show ?thesis
    using steps decode [OF steps(4)] authorize [OF steps(5)] by (simp add: message_authority_def limits p)
qed

text \<open>What a backend is asked for and answers does not depend on observations.\<close>

lemma service_observed [simp]:
  "service_grant (observe_availability a x sv) c = service_grant sv c"
  "visible_account_target (observe_availability a x sv) c acct = visible_account_target sv c acct"
  by (simp_all add: service_grant_def visible_account_target_def visible_accounts_def observe_availability_def split: option.split)

lemma authorize_observed [simp]:
  "authorize_message (observe_availability a x sv) c r stale = authorize_message sv c r stale"
  by (simp add: authorize_message_def authorize_mailbox_def)

lemma plan_observed [simp]: "plan_message h (observe_availability a x sv) c input = plan_message h sv c input"
  by (simp add: plan_message_def message_authority_def)

lemma plan_unchanged:
  "get_message h ready backend c input sv = (r, sv') \<Longrightarrow> plan_message h sv' c input' = plan_message h sv c input'"
  by (auto simp: get_message_def observed_def observe_failure_def Let_def split: sum.splits if_splits)

lemma get_message_Inr:
  assumes "get_message h ready backend c input sv = (Inr b, sv')"
  obtains p pg where "plan_message h sv c input = Inr p"
    "backend (gp_target p) (gp_mailbox p) (gp_request p) (gp_limits p) = Inr pg" "message_finish h input p pg = Inr b"
  using assms by (auto simp: get_message_def Let_def observed_def split: sum.splits prod.splits)

lemma text_cursor_resumes':
  assumes "codec_ok (gh_tokens h)" "mac_ok (gh_tokens h)"
    and "\<forall>k. gh_parse_cursor h (emitted (gh_cursor h k)) = Some k"
    and "plan_message h sv c input = Inr p" and "message_finish h input p pg = Inr b"
    and "bt_next_cursor (mb_body b) = Some token"
  shows "plan_message h sv c (input\<lparr>gm_cursor := Some token\<rparr>) =
      Inr (p\<lparr>gp_request := (gp_request p)\<lparr>br_continuation := bdr_continuation pg\<rparr>\<rparr>)"
    "\<exists>k. token_decode (gh_tokens h) (gh_parse_cursor h) ''bt'' token (l_token_bytes (gp_limits p)) StaleCursor = Inr k
      \<and> tcur_resource k = gp_resource p \<and> tcur_limits k = gp_limits_print p"
proof -
  obtain position where position: "bdr_continuation pg = Some position"
    and enc: "token_encode (gh_tokens h) (gh_cursor h) ''bt''
      \<lparr>tcur_resource = gp_resource p, tcur_limits = gp_limits_print p, tcur_position = position\<rparr> (l_token_bytes (gp_limits p)) = Inr token"
    using assms(5,6) by (auto simp: message_finish_def map_sum_def split: option.splits sum.splits)
  let ?k = "\<lparr>tcur_resource = gp_resource p, tcur_limits = gp_limits_print p, tcur_position = position\<rparr>"
  have dec: "token_decode (gh_tokens h) (gh_parse_cursor h) ''bt'' token (l_token_bytes (gp_limits p)) StaleCursor = Inr ?k"
    using token_encode_decodes [where parse = "gh_parse_cursor h" and ser = "gh_cursor h" and code = StaleCursor,
        OF assms(1,2) _ _ enc] assms(3) by simp
  then show "\<exists>k. token_decode (gh_tokens h) (gh_parse_cursor h) ''bt'' token (l_token_bytes (gp_limits p)) StaleCursor = Inr k
      \<and> tcur_resource k = gp_resource p \<and> tcur_limits k = gp_limits_print p" by simp
  obtain q old where q: "message_authority h sv c input = Inr q"
    "p = q\<lparr>gp_request := (gp_request q)\<lparr>br_continuation := old\<rparr>\<rparr>" using assms(4) by (rule plan_message_Inr)
  show "plan_message h sv c (input\<lparr>gm_cursor := Some token\<rparr>) =
      Inr (p\<lparr>gp_request := (gp_request p)\<lparr>br_continuation := bdr_continuation pg\<rparr>\<rparr>)"
    using dec position by (simp add: plan_message_def message_authority_cursor [OF q(1)] q(2) decode_optional_def ensure_def)
qed

text \<open>
  A continuation of a body resumes exactly and is bound to its message and limits. The cursor a page answers is accepted by
  the same request, which passes the backend the very position that page returned; any request that accepts it is for a
  message reference and limits with the same fingerprints.
\<close>

theorem text_cursor_resumes:
  assumes "codec_ok (gh_tokens h)" "mac_ok (gh_tokens h)"
    and "\<forall>k. gh_parse_cursor h (emitted (gh_cursor h k)) = Some k"
    and "plan_message h sv c input = Inr p" and "message_finish h input p pg = Inr b"
    and "bt_next_cursor (mb_body b) = Some token"
  shows "plan_message h sv c (input\<lparr>gm_cursor := Some token\<rparr>) =
      Inr (p\<lparr>gp_request := (gp_request p)\<lparr>br_continuation := bdr_continuation pg\<rparr>\<rparr>)
    \<and> (\<forall>sv2 c2 input2 p2. plan_message h sv2 c2 (input2\<lparr>gm_cursor := Some token\<rparr>) = Inr p2 \<longrightarrow>
         gp_resource p2 = gp_resource p \<and> gp_limits_print p2 = gp_limits_print p)"
proof -
  note first = text_cursor_resumes' [OF assms]
  obtain k0 where dec: "token_decode (gh_tokens h) (gh_parse_cursor h) ''bt'' token (l_token_bytes (gp_limits p)) StaleCursor = Inr k0"
    "tcur_resource k0 = gp_resource p" "tcur_limits k0 = gp_limits_print p" using first(2) by blast
  have "gp_resource p2 = gp_resource p \<and> gp_limits_print p2 = gp_limits_print p"
    if other: "plan_message h sv2 c2 (input2\<lparr>gm_cursor := Some token\<rparr>) = Inr p2" for sv2 c2 input2 p2
  proof -
    obtain q2 k where p2: "p2 = q2\<lparr>gp_request := (gp_request q2)\<lparr>br_continuation := Some (tcur_position k)\<rparr>\<rparr>"
      and k: "token_decode (gh_tokens h) (gh_parse_cursor h) ''bt'' token (l_token_bytes (gp_limits q2)) StaleCursor = Inr k"
      and same: "tcur_resource k = gp_resource q2" "tcur_limits k = gp_limits_print q2"
    proof -
      obtain q2 found where q2: "decode_optional (gh_tokens h) (gh_parse_cursor h) ''bt'' (Some token) (l_token_bytes (gp_limits q2)) StaleCursor = Inr found"
        "\<not> is_some_and found (\<lambda>k. tcur_resource k \<noteq> gp_resource q2 \<or> tcur_limits k \<noteq> gp_limits_print q2)"
        "p2 = q2\<lparr>gp_request := (gp_request q2)\<lparr>br_continuation := map_option tcur_position found\<rparr>\<rparr>"
        using other by (auto simp: plan_message_def)
      then show thesis
        using that by (cases "token_decode (gh_tokens h) (gh_parse_cursor h) ''bt'' token (l_token_bytes (gp_limits q2)) StaleCursor")
          (auto simp: decode_optional_def)
    qed
    have "k = k0" by (rule token_decode_unique [OF k dec(1)])
    with same dec show ?thesis by (simp add: p2)
  qed
  with first(1) show ?thesis by blast
qed

section \<open>Reading a message to its end\<close>

text \<open>The answers to a caller who presents each cursor with the same request, until there is none.\<close>

fun message_read ::
  "message_host \<Rightarrow> (MailboxTarget \<Rightarrow> unit result) \<Rightarrow> (MailboxTarget \<Rightarrow> string \<Rightarrow> BodyRequest \<Rightarrow> Limits \<Rightarrow> BodyRead result)
   \<Rightarrow> RequestContext \<Rightarrow> GetMessageInput \<Rightarrow> Service \<Rightarrow> MessageBody list \<Rightarrow> bool" where
  "message_read h ready backend c input sv [] = False"
| "message_read h ready backend c input sv (b # bs) =
     (case get_message h ready backend c input sv of
        (Inr b', sv') \<Rightarrow> b' = b \<and>
          (case bt_next_cursor (mb_body b) of
             None \<Rightarrow> bs = []
           | token \<Rightarrow> message_read h ready backend c (input\<lparr>gm_cursor := token\<rparr>) sv' bs)
      | _ \<Rightarrow> False)"

lemma floor_keeps_boundary: "is_char_boundary v k \<Longrightarrow> k \<le> length v \<Longrightarrow> k \<le> n \<Longrightarrow> k \<le> floor_char_boundary v n"
  using boundary_below_greatest [of v n] by (auto simp: floor_char_boundary_def)

lemma page_offset_boundary:
  "page_offset previous v fp = Inr k \<Longrightarrow> is_char_boundary v k \<and> k \<le> length v"
  by (auto simp: page_offset_def is_char_boundary_def split: option.splits if_splits)

lemma body_page_from:
  assumes "body_page previous v fp maximum = Inr (rg, position)" and "length v \<le> usize_max"
  obtains k where "page_offset previous v fp = Inr k" "rg = (k, snd rg)" "k \<le> snd rg" "snd rg \<le> length v"
    "position = None \<longleftrightarrow> snd rg = length v" "\<And>p. position = Some p \<Longrightarrow> bc_offset p = snd rg"
proof -
  obtain k where k: "page_offset previous v fp = Inr k"
    and rg: "rg = (k, floor_char_boundary v (saturating_add k maximum))"
    and position: "position = (if snd rg < length v then Some \<lparr>bc_fingerprint = fp, bc_offset = snd rg\<rparr> else None)"
    using assms(1) by (auto simp: body_page_def Let_def)
  have "k \<le> saturating_add k maximum" "is_char_boundary v k" "k \<le> length v"
    using page_offset_boundary [OF k] assms(2) by (auto simp: saturating_add_def)
  then have "k \<le> snd rg" using floor_keeps_boundary rg by simp
  moreover have "snd rg \<le> length v"
    using boundary_below_greatest [of v "saturating_add k maximum"] by (auto simp: rg floor_char_boundary_def)
  ultimately show thesis using that [OF k] rg position by (auto split: if_splits)
qed

lemma memory_bodies_find_any [simp]:
  "memory_bodies_find st t name (r\<lparr>br_continuation := x\<rparr>) = memory_bodies_find st t name r"
  by (simp add: memory_bodies_find_def cong: if_cong)

lemma page_offset_Some: "page_offset (Some p) v fp = Inr k \<Longrightarrow> k = bc_offset p"
  by (auto simp: page_offset_def split: if_splits)

lemma message_read_from:
  assumes "codec_ok (gh_tokens h)" "mac_ok (gh_tokens h)"
    and "\<forall>k. gh_parse_cursor h (emitted (gh_cursor h k)) = Some k"
    and "plan_message h sv c input = Inr p"
    and "memory_bodies_find st (gp_target p) (gp_mailbox p) (gp_request p) = Inr m"
    and "length (bt_text (meb_body m)) \<le> usize_max"
    and "message_read h ready (memory_bodies_read st) c input sv bs"
    and "page_offset (br_continuation (gp_request p)) (bt_text (meb_body m)) (meb_fingerprint m) = Inr k"
  shows "concat (map (\<lambda>b. bt_text (mb_body b)) bs) = drop k (bt_text (meb_body m))"
  using assms(4,5,7,8)
proof (induction bs arbitrary: sv input p k)
  case (Cons b bs)
  let ?v = "bt_text (meb_body m)"
  obtain sv' where run: "get_message h ready (memory_bodies_read st) c input sv = (Inr b, sv')"
    and rest: "case bt_next_cursor (mb_body b) of None \<Rightarrow> bs = []
      | token \<Rightarrow> message_read h ready (memory_bodies_read st) c (input\<lparr>gm_cursor := token\<rparr>) sv' bs"
    using Cons.prems(3) by (auto split: prod.splits sum.splits)
  obtain pg where pg: "memory_bodies_read st (gp_target p) (gp_mailbox p) (gp_request p) (gp_limits p) = Inr pg"
    and fin: "message_finish h input p pg = Inr b"
    by (rule get_message_Inr [OF run]) (use Cons.prems(1) in simp)
  obtain rg where page: "body_page (br_continuation (gp_request p)) ?v (meb_fingerprint m) (l_text_page_bytes (gp_limits p))
      = Inr (rg, bdr_continuation pg)" and content: "bt_text (bdr_body pg) = text_range ?v rg"
    using pg Cons.prems(2) by (auto simp: memory_bodies_read_def)
  have rg: "rg = (k, snd rg)" "k \<le> snd rg" "snd rg \<le> length ?v" "bdr_continuation pg = None \<longleftrightarrow> snd rg = length ?v"
    "\<And>q. bdr_continuation pg = Some q \<Longrightarrow> bc_offset q = snd rg"
    using body_page_from [OF page assms(6)] Cons.prems(4) by auto
  have b: "bt_text (mb_body b) = text_range ?v rg" "bt_next_cursor (mb_body b) = None \<longleftrightarrow> bdr_continuation pg = None"
    using fin content by (auto simp: message_finish_def map_sum_def split: option.splits sum.splits)
  have piece: "text_range ?v rg = take (snd rg - k) (drop k ?v)" using rg(1) by (metis fst_conv text_range_def)
  show ?case
  proof (cases "bt_next_cursor (mb_body b)")
    case None
    then show ?thesis using rest b rg(2-4) piece by simp
  next
    case (Some token)
    then obtain q where q: "bdr_continuation pg = Some q" using b(2) by (cases "bdr_continuation pg") auto
    let ?p = "p\<lparr>gp_request := (gp_request p)\<lparr>br_continuation := bdr_continuation pg\<rparr>\<rparr>"
    have plan: "plan_message h sv' c (input\<lparr>gm_cursor := Some token\<rparr>) = Inr ?p"
      using text_cursor_resumes' [OF assms(1-3) Cons.prems(1) fin Some] plan_unchanged [OF run] by simp
    have find: "memory_bodies_find st (gp_target ?p) (gp_mailbox ?p) (gp_request ?p) = Inr m"
      using Cons.prems(2) by simp
    have next': "message_read h ready (memory_bodies_read st) c (input\<lparr>gm_cursor := Some token\<rparr>) sv' bs" using rest Some by simp
    obtain b2 bs2 where "bs = b2 # bs2" using next' by (cases bs) auto
    then obtain sv2 where again: "get_message h ready (memory_bodies_read st) c (input\<lparr>gm_cursor := Some token\<rparr>) sv' = (Inr b2, sv2)"
      using next' by (auto split: prod.splits sum.splits)
    obtain p2 pg2 where "plan_message h sv' c (input\<lparr>gm_cursor := Some token\<rparr>) = Inr p2"
      and read2: "memory_bodies_read st (gp_target p2) (gp_mailbox p2) (gp_request p2) (gp_limits p2) = Inr pg2"
      using again by (rule get_message_Inr)
    then have "p2 = ?p" using plan by simp
    with read2 have "memory_bodies_read st (gp_target ?p) (gp_mailbox ?p) (gp_request ?p) (gp_limits ?p) = Inr pg2" by simp
    then obtain k' where k': "page_offset (br_continuation (gp_request ?p)) ?v (meb_fingerprint m) = Inr k'"
      using find by (auto simp: memory_bodies_read_def body_page_def)
    then have "k' = snd rg" using page_offset_Some [of q] rg(5) [OF q] q by simp
    then have "concat (map (\<lambda>b. bt_text (mb_body b)) bs) = drop (snd rg) ?v"
      using Cons.IH [OF plan find next' k'] by simp
    moreover have "take (snd rg - k) (drop k ?v) @ drop (snd rg) ?v = drop k ?v"
      using append_take_drop_id [of "snd rg - k" "drop k ?v"] rg(2) by (simp add: drop_drop)
    ultimately show ?thesis using b(1) piece by simp
  qed
qed simp


text \<open>
  C29: A message read to its end is the whole text. Over the in-memory bodies, a caller who starts without a cursor and presents
  each cursor it is given, until there is none, has received exactly the text of the message of the reference, whatever the
  page size and whatever is observed meanwhile.
\<close>

theorem message_pages_complete:
  assumes "codec_ok (gh_tokens h)" "mac_ok (gh_tokens h)"
    and "\<forall>k. gh_parse_cursor h (emitted (gh_cursor h k)) = Some k"
    and "gm_cursor input = None" and "plan_message h sv c input = Inr p"
    and "memory_bodies_find st (gp_target p) (gp_mailbox p) (gp_request p) = Inr m"
    and "length (bt_text (meb_body m)) \<le> usize_max"
    and "message_read h ready (memory_bodies_read st) c input sv bs"
  shows "concat (map (\<lambda>b. bt_text (mb_body b)) bs) = bt_text (meb_body m)"
proof -
  obtain q where "p = q\<lparr>gp_request := (gp_request q)\<lparr>br_continuation := None\<rparr>\<rparr>"
    using assms(5) by (rule plan_message_Inr) (use assms(4) in simp)
  then have "page_offset (br_continuation (gp_request p)) (bt_text (meb_body m)) (meb_fingerprint m) = Inr 0"
    by (simp add: page_offset_def)
  from message_read_from [OF assms(1-3,5-8) this] show ?thesis by simp
qed

section \<open>A concrete message\<close>

definition example_text_cursor_text :: "TextCursor \<Rightarrow> string" where
  "example_text_cursor_text k = pack [map ord (tcur_resource k), map ord (tcur_limits k),
     map unat (bc_fingerprint (tcur_position k)), [bc_offset (tcur_position k)]]"

definition example_text_cursor_parse :: "string \<Rightarrow> TextCursor option" where
  "example_text_cursor_parse s =
     (case unpack 0 [] s of
        [r, l, f, [n]] \<Rightarrow> Some \<lparr>tcur_resource = map chr r, tcur_limits = map chr l,
          tcur_position = \<lparr>bc_fingerprint = map of_nat f, bc_offset = n\<rparr>\<rparr>
      | _ \<Rightarrow> None)"

definition example_reference :: MessageReference where
  "example_reference = \<lparr>ref_account = ''work'', ref_generation = 1, ref_mailbox = ''inbox'', ref_uid_validity = 7, ref_uid = 5\<rparr>"

definition example_message_host :: message_host where
  "example_message_host = \<lparr>gh_tokens = example_token_host, gh_parse_message = (\<lambda>_. Some example_reference),
     gh_message = (\<lambda>_. example_writes ''m''), gh_cursor = (\<lambda>k. example_writes (example_text_cursor_text k)),
     gh_parse_cursor = example_text_cursor_parse, gh_limits = (\<lambda>_. example_writes ''l''), gh_sha256 = (\<lambda>_. [])\<rparr>"

lemma example_text_cursor_round_trip:
  "\<forall>k. gh_parse_cursor example_message_host (emitted (gh_cursor example_message_host k)) = Some k"
  by (auto simp: example_message_host_def example_writes_def emitted_def example_text_cursor_parse_def
      example_text_cursor_text_def unpack_pack comp_def)

definition example_message_input :: GetMessageInput where
  "example_message_input = \<lparr>gm_message = (case token_encode example_token_host example_writes ''ms'' ''x'' 2048 of Inr t \<Rightarrow> t | Inl _ \<Rightarrow> []),
     gm_max_bytes = Some 4, gm_cursor = None\<rparr>"

definition example_body_text :: BodyText where
  "example_body_text = \<lparr>bt_text = ''hello'', bt_representation_version = [], bt_selected_part = None, bt_source_media_type = None,
     bt_converted = False, bt_replacements = False, bt_truncated = False, bt_empty_reason = None,
     bt_continuation_available = False, bt_next_cursor = None\<rparr>"

definition example_bodies :: MemoryBodies where
  "example_bodies = (case memory_bodies_set (\<lambda>_. [9]) (\<lambda>_. example_writes []) ''work'' ''inbox'' 7 5 example_body_text Map.empty of
     Some st \<Rightarrow> st | None \<Rightarrow> Map.empty)"

definition example_get :: "string option \<Rightarrow> MessageBody result" where
  "example_get token = fst (get_message example_message_host (\<lambda>_. Inr ()) (memory_bodies_read example_bodies)
     (example_context example_narrowing) (example_message_input\<lparr>gm_cursor := token\<rparr>) example_service)"

definition example_answers :: "MessageBody list" where
  "example_answers = (case example_get None of Inl _ \<Rightarrow> [] | Inr b \<Rightarrow> b #
     (case example_get (bt_next_cursor (mb_body b)) of Inl _ \<Rightarrow> [] | Inr b' \<Rightarrow> [b']))"

definition example_plan :: "message_plan result" where
  "example_plan = plan_message example_message_host example_service (example_context example_narrowing) example_message_input"

lemma example_planned:
  "is_ok (and_then example_plan (\<lambda>p. map_err (\<lambda>_. denied)
     (if memory_bodies_find example_bodies (gp_target p) (gp_mailbox p) (gp_request p)
         = Inr \<lparr>meb_body = example_body_text, meb_fingerprint = [9]\<rparr> then Inr () else Inl denied)))"
  by code_simp

lemma example_message_read:
  "message_read example_message_host (\<lambda>_. Inr ()) (memory_bodies_read example_bodies) (example_context example_narrowing)
     example_message_input example_service example_answers"
  by code_simp

lemma example_message_host_ok: "codec_ok (gh_tokens example_message_host)" "mac_ok (gh_tokens example_message_host)"
  using example_host_ok by (simp_all add: example_message_host_def)

lemma message_pages_complete_witness:
  "concat (map (\<lambda>b. bt_text (mb_body b)) example_answers) = ''hello''"
proof -
  obtain p where p: "example_plan = Inr p" "memory_bodies_find example_bodies (gp_target p) (gp_mailbox p) (gp_request p)
         = Inr \<lparr>meb_body = example_body_text, meb_fingerprint = [9]\<rparr>"
    using example_planned by (auto simp: is_ok_iff split: if_splits)
  have "gm_cursor example_message_input = None" by (simp add: example_message_input_def)
  moreover have "length (bt_text example_body_text) \<le> usize_max" by (simp add: example_body_text_def usize_max_def)
  ultimately show ?thesis
    using message_pages_complete [OF example_message_host_ok example_text_cursor_round_trip _ p(1) [unfolded example_plan_def] p(2) _
        example_message_read] by (simp add: example_body_text_def)
qed

lemma example_first_answer:
  obtains b sv' token where "get_message example_message_host (\<lambda>_. Inr ()) (memory_bodies_read example_bodies)
      (example_context example_narrowing) example_message_input example_service = (Inr b, sv')" "bt_next_cursor (mb_body b) = Some token"
proof -
  have "case example_answers of b # _ \<Rightarrow> bt_next_cursor (mb_body b) \<noteq> None | [] \<Rightarrow> False" by code_simp
  then obtain b bs token where b: "example_answers = b # bs" "bt_next_cursor (mb_body b) = Some token"
    by (auto split: list.splits)
  obtain r sv' where r: "get_message example_message_host (\<lambda>_. Inr ()) (memory_bodies_read example_bodies)
      (example_context example_narrowing) example_message_input example_service = (r, sv')" by force
  have "r = Inr b" using example_message_read unfolding b(1) message_read.simps r by (cases r) auto
  then show thesis using that r b(2) by blast
qed

lemma message_read_authorized_witness:
  "\<exists>t. mailbox_authorized example_service ''drafts'' example_narrowing t ''inbox''"
proof -
  obtain b sv' where b: "get_message example_message_host (\<lambda>_. Inr ()) (memory_bodies_read example_bodies)
      (example_context example_narrowing) example_message_input example_service = (Inr b, sv')" by (rule example_first_answer)
  from message_read_authorized [OF example_contexts(1) refl b] show ?thesis
    by (auto simp: token_decode_def example_message_host_def Let_def ok_or_def example_reference_def split: if_splits option.splits)
qed

lemma text_cursor_resumes_witness:
  "\<exists>p token. plan_message example_message_host example_service (example_context example_narrowing)
       (example_message_input\<lparr>gm_cursor := Some token\<rparr>) = Inr p \<and> br_continuation (gp_request p) \<noteq> None"
proof -
  obtain b sv' token where b: "get_message example_message_host (\<lambda>_. Inr ()) (memory_bodies_read example_bodies)
      (example_context example_narrowing) example_message_input example_service = (Inr b, sv')" "bt_next_cursor (mb_body b) = Some token"
    by (rule example_first_answer)
  obtain p pg where p: "plan_message example_message_host example_service (example_context example_narrowing) example_message_input = Inr p"
    "message_finish example_message_host example_message_input p pg = Inr b" using b(1) by (rule get_message_Inr)
  have "bdr_continuation pg \<noteq> None" using p(2) b(2) by (auto simp: message_finish_def split: option.splits)
  with text_cursor_resumes [OF example_message_host_ok example_text_cursor_round_trip p b(2)] show ?thesis by auto
qed

end
