(* ===== verification/Spec2Isabelle.thy ===== *)
theory Spec2Isabelle
  imports Authentication Requests DraftMemory ReconcileSafety AdmissionSafety BodySelected BodySafety MessageService
begin

text \<open>
  A verification development for \<open>mailctl\<close>, a mail client that gives command-line users and
  language-model agents bounded, policy-confined access to IMAP accounts.

  \<^bold>\<open>The program.\<close> A \<open>Service\<close> is opened from a validated configuration. Callers obtain a
  \<open>RequestContext\<close> for one access grant, optionally narrowed, and execute operations with it: list
  accounts and mailboxes, search, read, transfer attachments, save a draft. Every operation
  authorizes its target against the grant, is admitted by a fair bounded scheduler, asks a provider
  (IMAP or in memory), and answers within a byte budget. References and cursors handed to the caller
  are signed tokens. Draft creation is protected by a durable journal so that an APPEND is never
  sent twice.

  \<^bold>\<open>Theories and sources\<close> (files under \<open>src/src\<close>).
  \<^item> \<open>Prelude\<close>: results as sums, checked folds, ordered association lists for \<open>BTreeMap\<close>, an
    injective text for the concrete instances, executions of step relations and machines that hand
    out 64-bit tickets.
  \<^item> \<open>Domain\<close> (\<open>domain.rs\<close>, \<open>domain/draft.rs\<close>): errors, exit codes, envelopes, identities.
  \<^item> \<open>Policy\<close> (\<open>policy.rs\<close>): profiles, permissions, request contexts.
  \<^item> \<open>Limits\<close> and \<open>Config\<close> (\<open>config.rs\<close>): the table of 37 limits, mailbox scopes, validation.
  \<^item> \<open>Criteria\<close> (\<open>domain/search.rs\<close>): search predicates and their canonical form.
  \<^item> \<open>Encoding\<close> (\<open>encoding.rs\<close>): output budgets, bounded serialization, JSON admission.
  \<^item> \<open>Search\<close> (\<open>search.rs\<close>, \<open>service/search/memory.rs\<close>): the windowed UID traversal.
  \<^item> \<open>Requests\<close> (\<open>service/requests.rs\<close>): the request scheduler.
  \<^item> \<open>Authentication\<close> (\<open>authentication.rs\<close>): worker gate, connection pool, credential flights.
  \<^item> \<open>Tokens\<close> (\<open>service/tokens.rs\<close>): signed references and cursors.
  \<^item> \<open>Journal\<close> (\<open>draft_journal.rs\<close>): the draft journal over modelled SQLite statements.
  \<^item> \<open>Service\<close> (\<open>service.rs\<close>): contexts, grants, authorization, discovery, health.
  \<^item> \<open>Mailboxes\<close> (\<open>service/mailboxes.rs\<close>) and \<open>SearchService\<close> (\<open>service/search.rs\<close>): the two
    operations in full.
  \<^item> \<open>Compose\<close> (\<open>draft.rs\<close>, \<open>domain/draft.rs\<close>): validation and bounded encoding of a draft.
  \<^item> \<open>Registry\<close> (\<open>service/state.rs\<close>): account identities, generations and draft routes.
  \<^item> \<open>Recovery\<close> (\<open>service/state/drafts.rs\<close>): suspension marks, opening and guarding the journal.
  \<^item> \<open>DraftService\<close> (\<open>service/drafts.rs\<close>, the end of \<open>execute_inner\<close> in \<open>service.rs\<close>): saving,
    inspecting and reconciling a draft. A call is a composition of steps (\<open>then_step\<close>) over the
    observations, the files and the journal; \<open>draft_env\<close> holds what it meets: storage faults, lock
    contention, the provider's answers and the await at which a deadline cancels it.
  \<^item> \<open>DraftMemory\<close> (\<open>service/drafts.rs\<close>): the in-memory draft provider.
  \<^item> \<open>Imap\<close> (\<open>imap.rs\<close>, \<open>imap/mime.rs\<close>, limits of \<open>imap/attachment.rs\<close> and of \<open>imap/body.rs\<close>): errors, limits and
    MIME structures of the IMAP client.
  \<^item> \<open>Unicode\<close>: the UTF-8 and UTF-16 transcoding of the standard library.
  \<^item> \<open>MailboxNames\<close> (\<open>imap.rs\<close>, \<open>quote\<close> of \<open>imap/wire.rs\<close>): modified UTF-7 names and quoted strings.
  \<^item> \<open>Fetch\<close> (\<open>imap/fetch.rs\<close>) and \<open>Projection\<close> (\<open>imap/projection.rs\<close>): FETCH requests, the validation of
    their answers, and message metadata.
  \<^item> \<open>Wire\<close> (\<open>imap/wire.rs\<close>): commands over one connection. A \<open>Connection\<close> holds the future responses
    and write faults of its transport and the log of everything written to it.
  \<^item> \<open>ImapOps\<close> (\<open>imap.rs\<close>, \<open>imap/append.rs\<close>, \<open>imap/search.rs\<close>, \<open>imap/header.rs\<close>) and \<open>Reconcile\<close>
    (\<open>imap/reconcile.rs\<close>): login, discovery, APPEND, envelope search, verification of uncertain drafts.
  \<^item> \<open>WireSafety\<close> and \<open>ReconcileSafety\<close>: what these may say to a server and what their answers mean.
  \<^item> \<open>Decoder\<close> (\<open>imap/attachment/decoder.rs\<close>) and \<open>Decoding\<close>: incremental transfer decoding and its refinement
    of one-pass reference decoders.
  \<^item> \<open>Attachment\<close> (\<open>imap/attachment.rs\<close>) and \<open>AttachmentSafety\<close>: the attachments of a structure, the transfer of one
    part in pages, and that the pages are the decoded part and end.
  \<^item> \<open>Admission\<close> (\<open>imap/admission.rs\<close>) and \<open>AdmissionSafety\<close>: framing and bounding of responses before they are
    parsed, and its independence of how the stream is cut into reads.
  \<^item> \<open>HtmlPolicy\<close> (\<open>imap/body/representation/html_policy.rs\<close>), \<open>BodySelection\<close>, \<open>BodyRendering\<close> (\<open>imap/body/representation.rs\<close>)
    and \<open>BodySelected\<close>: which part of a message is its body, which headers are needed to know, and how it becomes text.
  \<^item> \<open>BodyPages\<close>, \<open>Body\<close> (\<open>imap/body.rs\<close>) and \<open>BodySafety\<close>: the read of a body over one connection, its pages, what it may say to
    a server and what its positions are bound to.
  \<^item> \<open>MessageService\<close> (\<open>service/message.rs\<close>, \<open>domain/message.rs\<close>): the operation that reads a message, and the in-memory
    bodies.

  \<^bold>\<open>Conventions.\<close> A fallible function returns \<open>Error + 'a\<close>; \<open>and_then\<close> is the question mark
  operator. Mutable state is passed explicitly. A value of type \<open>usize\<close> is a \<open>nat\<close> where the code only
  compares or saturates, and a 32- or 64-bit word where it wraps or where a subtraction could
  underflow. Strings are byte lists. Code of other packages (JSON, TOML, base64, HMAC, SHA-256,
  case folding, date parsing, clocks) appears as fields of \<open>_host\<close> records; the laws used of it are
  named hypotheses (\<open>codec_ok\<close>, \<open>mac_ok\<close>, \<open>recon_ok\<close>) and every theorem that has one comes with a
  concrete instance. Storage faults are inputs: every SQLite statement of the journal may fail, and a
  commit may fail after it has reached the disk.

  \<^bold>\<open>What is shown.\<close> Configuration: parsing yields only well-formed configurations and scope
  intersection is exact. Authorization: no request reaches outside its grant and narrowing only
  removes authority. Tokens: exact round trip and authenticity. Paging: pages are safe for every
  provider, complete for a stable one, and cursors resume exactly. Scheduling: bounded, fair and
  without lost wakeups. Connections: bounded, safely reused. Journal: append-only, refines the
  acknowledgement protocol, and clears each operation for dispatch at most once. Drafts: composition is
  exact and injection free; over all sequences of calls a draft is appended at most once, only within
  the authority of its caller, never on a suspended installation, and an appended draft is never
  answered with a retryable error; a created one is always reported. IMAP: a mailbox is selected only
  read-only, read operations never put anything but read commands on the wire, a search command is exactly its keys, an
  APPEND is reported truthfully, verification claims no more than the server showed, wire names round trip,
  and transfer decoding is exact and bounded. Responses are framed independently of fragmentation and within the ceilings.
  Attachments: the pages put together are the decoded part, and a transfer ends. Bodies: the selected part is a text part of the
  message and the headers asked for are enough to know it; rendering is bounded, marked when anything was lost, and of clean HTML
  only; a read returns what the server holds, its pages tile the text, and a position never crosses messages. A message is read
  only within the authority of its caller, and to its end it is the whole text. Registry: identities and
  generations are permanent and a draft is routed to where it was created.

  \<^bold>\<open>Interfaces.\<close> \<open>ticket_machine\<close> (Prelude) is interpreted by the scheduler and by the connection
  pool, \<open>stable_mailbox\<close> (Search) by the in-memory provider, \<open>clears_once\<close> (Journal) by the
  journal's transitions and by the sequences of draft calls (DraftService).

  \<^bold>\<open>Bounds.\<close> The scheduler and pool theorems hold for the first \<open>2 ^ 64\<close> steps, because tickets wrap
  afterwards. The page loop needs no fuel: it runs over the configured number of windows.

  \<^bold>\<open>Interleaving.\<close> \<open>journal_dispatches_once\<close> ranges over every interleaving of journal transactions,
  whichever process runs them; \<open>draft_appended_once\<close> ranges over sequences of whole calls, which the
  writer lock of an account serializes.

  \<^bold>\<open>Not modelled.\<close> The service operations for attachments and the reservation of transfers between their calls are not modelled yet;
  the transfers they continue are. The command line, prompts and presentation, the MCP transport, operating-system credential
  stores, file export, process isolation and file locks are input and output. The response parser, the MIME parsers, the
  character sets and the HTML parser and renderer of the IMAP client belong to other packages and are parameters;
  timeouts of the IMAP client and capacities of buffers are not modelled.
\<close>

end
